(* ===== verification/GoLib.thy ===== *)
theory GoLib
  imports Main "HOL-Library.Char_ord" "HOL-Library.Sublist"
begin

text \<open>
  The prelude of the development: what the modelled Go code uses of the language and of its
  standard library, and the lemmas the component theories share.

  A Go string is a byte sequence, modelled as a \<^typ>\<open>string\<close> (a character is one byte). A Go
  function returning \<open>(T, error)\<close> is a function into \<open>'e + 't\<close>, \<open>Inl\<close> being the error. Go's
  \<open>int\<close> is 64 bits wide on every platform the program is built for; \<^term>\<open>int\<close> values stand for
  it and the bounds are written out where the code can meet them (\<open>strconv.Atoi\<close>).

  Contents: \<open>strings\<close> (prefix, suffix, index, split, join, trim), \<open>strconv\<close> (Atoi, Itoa) and
  their round trip, and \<open>find_first\<close>, the shape of every search loop in the program.
\<close>

named_theorems go_simps \<open>unfolding rules of the library functions\<close>

section \<open>Package strings\<close>

definition HasPrefix :: "string \<Rightarrow> string \<Rightarrow> bool" where
  "HasPrefix s p = (take (length p) s = p)"

definition HasSuffix :: "string \<Rightarrow> string \<Rightarrow> bool" where
  "HasSuffix s p = (length p \<le> length s \<and> drop (length s - length p) s = p)"

definition TrimPrefix :: "string \<Rightarrow> string \<Rightarrow> string" where
  "TrimPrefix s p = (if HasPrefix s p then drop (length p) s else s)"

text \<open>\<open>strings.Index\<close>; \<open>None\<close> stands for the result \<open>-1\<close>.\<close>

fun Index :: "string \<Rightarrow> string \<Rightarrow> nat option" where
  "Index s sub =
     (if HasPrefix s sub then Some 0
      else case s of [] \<Rightarrow> None | c # cs \<Rightarrow> map_option Suc (Index cs sub))"

declare Index.simps [simp del]

fun LastIndex :: "string \<Rightarrow> string \<Rightarrow> nat option" where
  "LastIndex s sub =
     (case s of
        [] \<Rightarrow> (if HasPrefix s sub then Some 0 else None)
      | c # cs \<Rightarrow>
          (case LastIndex cs sub of
             Some i \<Rightarrow> Some (Suc i)
           | None \<Rightarrow> (if HasPrefix s sub then Some 0 else None)))"

declare LastIndex.simps [simp del]

definition Contains :: "string \<Rightarrow> string \<Rightarrow> bool" where
  "Contains s sub = (Index s sub \<noteq> None)"

definition ContainsAny :: "string \<Rightarrow> string \<Rightarrow> bool" where
  "ContainsAny s chars = list_ex (\<lambda>c. c \<in> set chars) s"

text \<open>\<open>strings.Count\<close> for a one-byte pattern, and \<open>strings.ReplaceAll\<close> of a byte by a byte.\<close>

definition CountByte :: "string \<Rightarrow> char \<Rightarrow> nat" where
  "CountByte s c = count_list s c"

definition ReplaceByte :: "string \<Rightarrow> char \<Rightarrow> char \<Rightarrow> string" where
  "ReplaceByte s a b = map (\<lambda>c. if c = a then b else c) s"

text \<open>\<open>strings.Split\<close> and \<open>strings.SplitN\<close> with a one-byte separator.\<close>

fun Split :: "string \<Rightarrow> char \<Rightarrow> string list" where
  "Split [] sep = [[]]"
| "Split (c # cs) sep =
     (if c = sep then [] # Split cs sep
      else case Split cs sep of [] \<Rightarrow> [[c]] | p # ps \<Rightarrow> (c # p) # ps)"

fun SplitN :: "string \<Rightarrow> char \<Rightarrow> nat \<Rightarrow> string list" where
  "SplitN s sep 0 = []"
| "SplitN s sep (Suc 0) = [s]"
| "SplitN [] sep (Suc (Suc n)) = [[]]"
| "SplitN (c # cs) sep (Suc (Suc n)) =
     (if c = sep then [] # SplitN cs sep (Suc n)
      else case SplitN cs sep (Suc (Suc n)) of [] \<Rightarrow> [[c]] | p # ps \<Rightarrow> (c # p) # ps)"

fun Join :: "string list \<Rightarrow> string \<Rightarrow> string" where
  "Join [] sep = []"
| "Join [p] sep = p"
| "Join (p # q # ps) sep = p @ sep @ Join (q # ps) sep"

text \<open>
  \<open>strings.TrimSpace\<close>: the UTF-8 encodings of the code points \<open>unicode.IsSpace\<close> accepts, removed
  from both ends.
\<close>

definition space_encodings :: "string list" where
  "space_encodings =
     [[CHR 0x09], [CHR 0x0A], [CHR 0x0B], [CHR 0x0C], [CHR 0x0D], [CHR 0x20],
      [CHR 0xC2, CHR 0x85], [CHR 0xC2, CHR 0xA0], [CHR 0xE1, CHR 0x9A, CHR 0x80]]
     @ map (\<lambda>c. [CHR 0xE2, CHR 0x80, c])
         [CHR 0x80, CHR 0x81, CHR 0x82, CHR 0x83, CHR 0x84, CHR 0x85, CHR 0x86, CHR 0x87,
          CHR 0x88, CHR 0x89, CHR 0x8A, CHR 0xA8, CHR 0xA9, CHR 0xAF]
     @ [[CHR 0xE2, CHR 0x81, CHR 0x9F], [CHR 0xE3, CHR 0x80, CHR 0x80]]"

fun trim_with :: "nat \<Rightarrow> string list \<Rightarrow> string \<Rightarrow> string" where
  "trim_with 0 encs s = s"
| "trim_with (Suc n) encs s =
     (case find (HasPrefix s) encs of
        None \<Rightarrow> s
      | Some e \<Rightarrow> trim_with n encs (drop (length e) s))"

definition TrimSpace :: "string \<Rightarrow> string" where
  "TrimSpace s =
     (let l = trim_with (length s) space_encodings s
      in rev (trim_with (length l) (map rev space_encodings) (rev l)))"

section \<open>Package strconv\<close>

definition is_digit :: "char \<Rightarrow> bool" where
  "is_digit c = (48 \<le> (of_char c :: nat) \<and> (of_char c :: nat) \<le> 57)"

definition digit_val :: "char \<Rightarrow> int" where
  "digit_val c = int (of_char c) - 48"

definition digits_val :: "string \<Rightarrow> int" where
  "digits_val ds = foldl (\<lambda>n c. 10 * n + digit_val c) 0 ds"

text \<open>
  \<open>strconv.ParseInt(s, 10, bits)\<close>: an optional sign, at least one decimal digit, nothing else, and
  a value of that width; \<open>None\<close> stands for a syntax or range error. \<open>Atoi\<close> is the 64-bit case.
\<close>

definition ParseInt :: "nat \<Rightarrow> string \<Rightarrow> int option" where
  "ParseInt bits s =
     (let neg = HasPrefix s ''-'';
          ds = (if neg \<or> HasPrefix s ''+'' then drop 1 s else s);
          n = (if neg then - digits_val ds else digits_val ds)
      in if ds = [] \<or> \<not> list_all is_digit ds then None
         else if n < - (2 ^ (bits - 1)) \<or> 2 ^ (bits - 1) \<le> n then None
         else Some n)"

abbreviation Atoi :: "string \<Rightarrow> int option" where
  "Atoi \<equiv> ParseInt 64"

definition max_int64 :: int where
  "max_int64 = 2 ^ 63 - 1"

text \<open>Decimal printing, \<open>%d\<close> and \<open>strconv.Itoa\<close>.\<close>

fun nat_digits :: "nat \<Rightarrow> string" where
  "nat_digits n =
     (if n < 10 then [char_of (48 + n)] else nat_digits (n div 10) @ [char_of (48 + n mod 10)])"

declare nat_digits.simps [simp del]

definition Itoa :: "int \<Rightarrow> string" where
  "Itoa i = (if i < 0 then ''-'' @ nat_digits (nat (- i)) else nat_digits (nat i))"

section \<open>Characters of a string in UTF-8\<close>

text \<open>
  The number of bytes of the first character of a string as a \<open>range\<close> loop decodes it; a byte that
  starts no valid encoding is a character of its own.
\<close>

definition in_range :: "nat \<Rightarrow> nat \<Rightarrow> char \<Rightarrow> bool" where
  "in_range lo hi c \<longleftrightarrow> lo \<le> of_char c \<and> of_char c \<le> hi"

definition second_range :: "char \<Rightarrow> nat \<times> nat" where
  "second_range b0 =
     (if of_char b0 = (0xE0::nat) then (0xA0, 0xBF)
      else if of_char b0 = (0xED::nat) then (0x80, 0x9F)
      else if of_char b0 = (0xF0::nat) then (0x90, 0xBF)
      else if of_char b0 = (0xF4::nat) then (0x80, 0x8F)
      else (0x80, 0xBF))"

definition encoding_length :: "char \<Rightarrow> nat" where
  "encoding_length b0 =
     (if in_range 0xC2 0xDF b0 then 2 else if in_range 0xE0 0xEF b0 then 3 else if in_range 0xF0 0xF4 b0 then 4 else 1)"

definition rune_width :: "string \<Rightarrow> nat" where
  "rune_width s =
     (case s of
        b0 # b1 # rest \<Rightarrow>
         (let n = encoding_length b0 in
          if n > 1 \<and> in_range (fst (second_range b0)) (snd (second_range b0)) b1 \<and>
             length rest \<ge> n - 2 \<and> list_all (in_range 0x80 0xBF) (take (n - 2) rest)
          then n else 1)
      | _ \<Rightarrow> 1)"

section \<open>Lemmas on strings\<close>

lemma HasPrefix_iff [simp]: "HasPrefix s p = (\<exists>r. s = p @ r)"
  unfolding HasPrefix_def by (metis append_eq_conv_conj append_take_drop_id)

lemma HasPrefix_prefix: "HasPrefix s p = prefix p s"
  by (simp add: prefix_def)

lemma HasSuffix_iff: "HasSuffix s p = (\<exists>r. s = r @ p)"
  unfolding HasSuffix_def
  by (metis append_take_drop_id diff_add_inverse2 append_eq_conv_conj le_add2 length_append)

lemma Split_nonempty [simp]: "Split s sep \<noteq> []"
  by (induction s) (auto split: list.splits)

lemma SplitN_nonempty [simp]: "SplitN s sep (Suc n) \<noteq> []"
  by (induction s sep "Suc n" arbitrary: n rule: SplitN.induct) (auto split: list.splits)

lemma Join_Cons: "ps \<noteq> [] \<Longrightarrow> Join (p # ps) sep = p @ sep @ Join ps sep"
  by (cases ps) auto

lemma Join_Cons_hd: "Join ((c # p) # ps) sep = c # Join (p # ps) sep"
  by (cases ps) auto

text \<open>Joining what was split gives the string back, for any number of pieces.\<close>

lemma Join_Split [simp]: "Join (Split s sep) [sep] = s"
proof (induction s)
  case Nil
  then show ?case by simp
next
  case (Cons c cs)
  then show ?case
    by (cases "Split cs sep") (auto simp: Join_Cons Join_Cons_hd)
qed

lemma Join_SplitN [simp]: "Join (SplitN s sep (Suc n)) [sep] = s"
proof (induction s sep "Suc n" arbitrary: n rule: SplitN.induct)
  case (4 c cs sep n)
  then show ?case
    by (cases "SplitN cs sep (Suc (Suc n))") (auto simp: Join_Cons Join_Cons_hd)
qed auto

lemma length_SplitN: "length (SplitN s sep n) \<le> n"
  by (induction s sep n rule: SplitN.induct) (auto split: list.splits)

lemma Split_no_sep: "sep \<notin> set s \<Longrightarrow> Split s sep = [s]"
  by (induction s) auto

lemma SplitN_no_sep: "sep \<notin> set s \<Longrightarrow> SplitN s sep (Suc n) = [s]"
  by (induction s sep "Suc n" arbitrary: n rule: SplitN.induct) auto

lemma Split_sep_free: "p \<in> set (Split s sep) \<Longrightarrow> sep \<notin> set p"
proof (induction s arbitrary: p)
  case Nil
  then show ?case by simp
next
  case (Cons c cs)
  then show ?case
    by (cases "Split cs sep") (auto split: if_splits)
qed

lemma Split_append_sep:
  "sep \<notin> set p \<Longrightarrow> Split (p @ sep # s) sep = p # Split s sep"
  by (induction p) auto

lemma SplitN_append_sep:
  "sep \<notin> set p \<Longrightarrow> SplitN (p @ sep # s) sep (Suc (Suc n)) = p # SplitN s sep (Suc n)"
  by (induction p) auto

text \<open>Splitting what was joined gives the pieces back when no piece holds the separator.\<close>

lemma Split_Join:
  "ps \<noteq> [] \<Longrightarrow> \<forall>p\<in>set ps. sep \<notin> set p \<Longrightarrow> Split (Join ps [sep]) sep = ps"
proof (induction ps "[sep]" rule: Join.induct)
  case (2 p)
  then show ?case by (simp add: Split_no_sep)
next
  case (3 p q ps)
  then show ?case by (simp add: Split_append_sep)
qed simp

lemma Index_HasPrefix: "HasPrefix s sub \<Longrightarrow> Index s sub = Some 0"
  by (subst Index.simps) auto

lemma Index_Nil [simp]: "sub \<noteq> [] \<Longrightarrow> Index [] sub = None"
  by (subst Index.simps) auto

lemma Index_byte: "Index s [c] = (if c \<in> set s then Some (length (takeWhile (\<lambda>x. x \<noteq> c) s)) else None)"
  by (induction s) (subst Index.simps; auto)+

lemma Index_Some:
  "Index s sub = Some i \<Longrightarrow> i + length sub \<le> length s \<and> take (length sub) (drop i s) = sub"
proof (induction s sub arbitrary: i rule: Index.induct)
  case (1 s sub)
  show ?case
  proof (cases "HasPrefix s sub")
    case True
    with "1.prems" have "i = 0" by (subst (asm) Index.simps) simp
    with True show ?thesis by auto
  next
    case False
    with "1.prems" obtain c cs j where "s = c # cs" "Index cs sub = Some j" "i = Suc j"
      by (subst (asm) Index.simps) (auto split: list.splits)
    with "1.IH" False show ?thesis by fastforce
  qed
qed

lemma Contains_append [intro]: "Contains (a @ sub @ b) sub"
proof (induction a)
  case Nil
  then show ?case by (simp add: Contains_def Index_HasPrefix)
next
  case (Cons x a)
  then show ?case unfolding Contains_def by (subst Index.simps) auto
qed

lemma Contains_iff: "Contains s sub = (\<exists>a b. s = a @ sub @ b)"
proof
  assume "Contains s sub"
  then obtain i where "Index s sub = Some i" by (auto simp: Contains_def)
  then have "s = take i s @ sub @ drop (length sub) (drop i s)"
    by (metis Index_Some append_take_drop_id)
  then show "\<exists>a b. s = a @ sub @ b" by blast
qed auto

lemma trim_with_none: "find (HasPrefix s) encs = None \<Longrightarrow> trim_with n encs s = s"
  by (cases n) auto

definition space_head :: "char \<Rightarrow> bool" where
  "space_head c = list_ex (\<lambda>e. hd e = c) space_encodings"

definition space_last :: "char \<Rightarrow> bool" where
  "space_last c = list_ex (\<lambda>e. last e = c) space_encodings"

lemma space_encodings_nonempty: "e \<in> set space_encodings \<Longrightarrow> e \<noteq> []"
  by (auto simp: space_encodings_def)

text \<open>A string that neither starts nor ends with a byte of a space is not trimmed.\<close>

lemma TrimSpace_id:
  assumes "s \<noteq> []" "\<not> space_head (hd s)" "\<not> space_last (last s)"
  shows "TrimSpace s = s"
proof -
  have "find (HasPrefix s) space_encodings = None"
    using assms(1,2) space_encodings_nonempty
    by (fastforce simp: find_None_iff space_head_def list_ex_iff neq_Nil_conv)
  moreover have "find (HasPrefix (rev s)) (map rev space_encodings) = None"
  proof -
    have "\<not> HasPrefix (rev s) (rev e)" if "e \<in> set space_encodings" for e
    proof
      assume "HasPrefix (rev s) (rev e)"
      then obtain r where "rev s = rev e @ r" by auto
      then have "s = rev r @ e" by (metis rev_append rev_rev_ident)
      then have "last s = last e" using space_encodings_nonempty [OF that] by simp
      with assms(3) that show False by (auto simp: space_last_def list_ex_iff)
    qed
    then show ?thesis by (auto simp: find_None_iff)
  qed
  ultimately show ?thesis by (simp add: TrimSpace_def trim_with_none Let_def)
qed

text \<open>Trimming is idempotent.\<close>

lemma trim_with_trimmed:
  "length s \<le> n \<Longrightarrow> [] \<notin> set encs \<Longrightarrow> find (HasPrefix (trim_with n encs s)) encs = None"
proof (induction n arbitrary: s)
  case 0
  then show ?case by (auto simp: find_None_iff)
next
  case (Suc n)
  show ?case
  proof (cases "find (HasPrefix s) encs")
    case (Some e)
    then have "e \<in> set encs" by (simp add: find_Some_iff) (metis nth_mem)
    with Suc.prems have "length (drop (length e) s) \<le> n" by (cases e) auto
    then show ?thesis using Suc Some by simp
  next
    case None
    then show ?thesis by (simp del: HasPrefix_iff add: None)
  qed
qed

lemma trim_with_suffix: "\<exists>r. s = r @ trim_with n encs s"
proof (induction n arbitrary: s)
  case (Suc n)
  show ?case
  proof (cases "find (HasPrefix s) encs")
    case (Some e)
    from Suc obtain r where "drop (length e) s = r @ trim_with n encs (drop (length e) s)" by blast
    then have "s = (take (length e) s @ r) @ trim_with n encs (drop (length e) s)" by (metis append.assoc append_take_drop_id)
    then show ?thesis using Some by (auto intro: exI [of _ "take (length e) s @ r"])
  qed simp
qed simp

lemma TrimSpace_TrimSpace [simp]: "TrimSpace (TrimSpace s) = TrimSpace s"
proof -
  let ?l = "trim_with (length s) space_encodings s"
  let ?r = "trim_with (length ?l) (map rev space_encodings) (rev ?l)"
  have t: "TrimSpace s = rev ?r" by (simp add: TrimSpace_def Let_def)
  have ne: "[] \<notin> set space_encodings" "[] \<notin> set (map rev space_encodings)" using space_encodings_nonempty by auto
  have l: "find (HasPrefix ?l) space_encodings = None" using ne(1) by (rule trim_with_trimmed [OF order_refl])
  have r: "find (HasPrefix ?r) (map rev space_encodings) = None"
    using ne(2) trim_with_trimmed [of "rev ?l" "length ?l" "map rev space_encodings"] by simp
  obtain x where "rev ?l = x @ ?r" using trim_with_suffix by blast
  then have "?l = rev ?r @ rev x" by (metis rev_append rev_rev_ident)
  with l have "find (HasPrefix (rev ?r)) space_encodings = None"
    by (fastforce simp: find_None_iff)
  then show ?thesis unfolding t by (simp add: TrimSpace_def Let_def trim_with_none r)
qed

section \<open>Lemmas on decimal numbers\<close>

lemma digits_val_append: "digits_val (xs @ [c]) = 10 * digits_val xs + digit_val c"
  by (simp add: digits_val_def)

lemma is_digit_char_of: "n < 10 \<Longrightarrow> is_digit (char_of (48 + n :: nat))"
  by (simp add: is_digit_def)

lemma digit_val_char_of: "n < 10 \<Longrightarrow> digit_val (char_of (48 + n :: nat)) = int n"
  by (simp add: digit_val_def)

lemma digit_val_nonneg: "is_digit c \<Longrightarrow> 0 \<le> digit_val c"
  by (auto simp: is_digit_def digit_val_def)

lemma digits_val_nonneg: "list_all is_digit ds \<Longrightarrow> 0 \<le> digits_val ds"
  by (induction ds rule: rev_induct) (auto simp: digits_val_append digit_val_nonneg, simp add: digits_val_def)

lemma nat_digits_nonempty [simp]: "nat_digits n \<noteq> []"
  by (subst nat_digits.simps) simp

lemma nat_digits_digits: "list_all is_digit (nat_digits n)"
proof (induction n rule: nat_digits.induct)
  case (1 n)
  then show ?case
    by (subst nat_digits.simps) (auto simp: is_digit_char_of)
qed

lemma digits_val_nat_digits: "digits_val (nat_digits n) = int n"
proof (induction n rule: nat_digits.induct)
  case (1 n)
  then show ?case
    by (subst nat_digits.simps)
      (auto simp: digits_val_append digit_val_char_of digits_val_def simp flip: of_nat_mult of_nat_add, presburger?)
qed

lemma is_digit_not: "is_digit c \<Longrightarrow> c \<notin> set ''-+./:@ ''"
  by (auto simp: is_digit_def)

lemma digits_no_sign:
  "list_all is_digit ds \<Longrightarrow> ds \<noteq> [] \<Longrightarrow> \<not> HasPrefix ds ''-'' \<and> \<not> HasPrefix ds ''+''"
  using is_digit_not by (fastforce simp: neq_Nil_conv)

lemma ParseInt_digits:
  assumes "list_all is_digit ds" "ds \<noteq> []" "digits_val ds < 2 ^ (bits - 1)"
  shows "ParseInt bits ds = Some (digits_val ds)"
proof -
  have "- (2 ^ (bits - 1)) \<le> digits_val ds"
    using digits_val_nonneg [OF assms(1)] by (meson neg_le_0_iff_le order_trans zero_le_numeral zero_le_power)
  then show ?thesis
    using assms digits_no_sign [OF assms(1,2)] by (simp add: ParseInt_def Let_def)
qed

lemma ParseInt_bounds:
  "ParseInt bits s = Some n \<Longrightarrow> - (2 ^ (bits - 1)) \<le> n \<and> n < 2 ^ (bits - 1)"
  by (auto simp: ParseInt_def Let_def split: if_splits)

text \<open>\<open>Atoi\<close> reads back what \<open>Itoa\<close> prints.\<close>

lemma Atoi_Itoa: "0 \<le> i \<Longrightarrow> i \<le> max_int64 \<Longrightarrow> Atoi (Itoa i) = Some i"
  by (simp add: Itoa_def max_int64_def ParseInt_digits nat_digits_digits digits_val_nat_digits)

lemma Itoa_digits: "0 \<le> i \<Longrightarrow> list_all is_digit (Itoa i)"
  by (simp add: Itoa_def nat_digits_digits)

lemma Itoa_nonempty [simp]: "Itoa i \<noteq> []"
  by (simp add: Itoa_def)

lemma digit_not_space: "is_digit c \<Longrightarrow> \<not> space_head c \<and> \<not> space_last c"
  by (auto simp: is_digit_def space_head_def space_last_def space_encodings_def)

lemma Itoa_inj: "Itoa (int i) = Itoa (int j) \<longleftrightarrow> i = j"
proof
  assume "Itoa (int i) = Itoa (int j)"
  then have "digits_val (nat_digits i) = digits_val (nat_digits j)" by (simp add: Itoa_def)
  then show "i = j" by (simp add: digits_val_nat_digits)
qed simp

text \<open>A string is split in only one way at its first or last separator.\<close>

lemma split_first_sep:
  "ds @ c # xs = es @ c # ys \<Longrightarrow> c \<notin> set ds \<Longrightarrow> c \<notin> set es \<Longrightarrow> ds = es \<and> xs = ys"
proof (induction ds arbitrary: es)
  case Nil
  then show ?case by (cases es) auto
next
  case (Cons d ds)
  then show ?case by (cases es) auto
qed

lemma split_last_sep:
  assumes "xs @ c # ds = ys @ c # es" and "c \<notin> set ds" and "c \<notin> set es"
  shows "xs = ys \<and> ds = es"
proof -
  have "rev ds @ c # rev xs = rev es @ c # rev ys"
    using arg_cong [OF assms(1), of rev] by simp
  then have "rev ds = rev es \<and> rev xs = rev ys"
    using assms(2,3) by (intro split_first_sep) auto
  then show ?thesis by simp
qed

section \<open>Search loops\<close>

text \<open>
  \<open>for i := range xs { if p(xs[i]) { return &xs[i] } }; return nil\<close> is \<^const>\<open>find\<close>; the
  facts the components need of it.
\<close>

lemma find_SomeD: "find P xs = Some x \<Longrightarrow> x \<in> set xs \<and> P x"
  by (auto simp: find_Some_iff)

lemma find_append: "find P (xs @ ys) = (case find P xs of None \<Rightarrow> find P ys | Some x \<Rightarrow> Some x)"
  by (induction xs) auto

end
