(* ===== verification/Semver.thy ===== *)
theory Semver
  imports GoLib
begin

text \<open>
  Package \<open>cdf/semver\<close> (core/apap-engine/cdf/semver/semver.go): versions of two or three numeric
  segments, their parser, order and printer, version ranges, their intersection, and the search
  for two disjoint ranges. The order \<open>Cmp\<close> decides is made the linear order of the type, so the
  library's order reasoning applies; \<open>FindDisjointRanges\<close> is shown never to reach the return its
  author marked as unreachable.
\<close>

datatype SemVer = SemVer (Major: int) (Minor: int) (Patch: int)

datatype semver_error =
    EmptyVersion | TrailingDashOrPlus | MultiplePlus | DoubleDash | MultipleDash
  | BadPartCount | EmptySegment | InvalidSegment string

text \<open>The closure \<open>toInt\<close> of \<open>ParseSemVer\<close>.\<close>

definition toInt :: "string \<Rightarrow> semver_error + int" where
  "toInt p =
     (if p = '''' then Inl EmptySegment
      else case Atoi p of
             None \<Rightarrow> Inl (InvalidSegment p)
           | Some n \<Rightarrow> if n < 0 then Inl (InvalidSegment p) else Inr n)"

text \<open>
  The checks of \<open>ParseSemVer\<close> on the pre-release part (a dash before any plus), and the end of the
  numeric core.
\<close>

definition dash_before_plus :: "nat option \<Rightarrow> nat option \<Rightarrow> bool" where
  "dash_before_plus dashIdx plusIdx =
     (case dashIdx of
        None \<Rightarrow> False
      | Some d \<Rightarrow> (case plusIdx of None \<Rightarrow> True | Some p \<Rightarrow> d < p))"

definition pre_release_check :: "string \<Rightarrow> nat option \<Rightarrow> nat option \<Rightarrow> semver_error option" where
  "pre_release_check s dashIdx plusIdx =
     (if dash_before_plus dashIdx plusIdx then
        let preEnd = (case plusIdx of None \<Rightarrow> length s | Some p \<Rightarrow> p);
            pre = drop (the dashIdx) (take preEnd s)
        in if Contains pre ''--'' then Some DoubleDash
           else if CountByte (take preEnd s) (CHR ''-'') > 1 then Some MultipleDash
           else None
      else None)"

definition core_end :: "string \<Rightarrow> nat option \<Rightarrow> nat option \<Rightarrow> nat" where
  "core_end s dashIdx plusIdx =
     (let e = (if dash_before_plus dashIdx plusIdx then the dashIdx else length s)
      in case plusIdx of None \<Rightarrow> e | Some p \<Rightarrow> if p < e then p else e)"

definition parse_core :: "string list \<Rightarrow> semver_error + SemVer" where
  "parse_core parts =
     (case toInt (parts ! 0) of
        Inl e \<Rightarrow> Inl e
      | Inr maj \<Rightarrow>
          (case toInt (parts ! 1) of
             Inl e \<Rightarrow> Inl e
           | Inr mi \<Rightarrow>
               (if length parts = 3 then
                  (case toInt (parts ! 2) of
                     Inl e \<Rightarrow> Inl e
                   | Inr pat \<Rightarrow> Inr (SemVer maj mi pat))
                else Inr (SemVer maj mi 0))))"

definition ParseSemVer :: "string \<Rightarrow> semver_error + SemVer" where
  "ParseSemVer s0 =
     (let s = TrimSpace s0 in
      if s = '''' then Inl EmptyVersion
      else if HasSuffix s ''-'' \<or> HasSuffix s ''+'' then Inl TrailingDashOrPlus
      else if CountByte s (CHR ''+'') > 1 then Inl MultiplePlus
      else
        let plusIdx = Index s ''+''; dashIdx = Index s ''-'' in
        case pre_release_check s dashIdx plusIdx of
          Some e \<Rightarrow> Inl e
        | None \<Rightarrow>
            let parts = Split (take (core_end s dashIdx plusIdx) s) (CHR ''.'') in
            if length parts \<noteq> 2 \<and> length parts \<noteq> 3 then Inl BadPartCount
            else parse_core parts)"

definition Cmp :: "SemVer \<Rightarrow> SemVer \<Rightarrow> int" where
  "Cmp a b =
     (if Major a \<noteq> Major b then (if Major a < Major b then -1 else 1)
      else if Minor a \<noteq> Minor b then (if Minor a < Minor b then -1 else 1)
      else if Patch a \<noteq> Patch b then (if Patch a < Patch b then -1 else 1)
      else 0)"

definition SemVer_String :: "SemVer \<Rightarrow> string" where
  "SemVer_String v = Itoa (Major v) @ ''.'' @ Itoa (Minor v) @ ''.'' @ Itoa (Patch v)"

record VersionRange =
  vrMin :: "SemVer option"
  vrMax :: "SemVer option"
  InclusiveMax :: bool

definition empty_range :: VersionRange where
  "empty_range = \<lparr>vrMin = None, vrMax = None, InclusiveMax = False\<rparr>"

definition InRange :: "SemVer \<Rightarrow> VersionRange \<Rightarrow> bool" where
  "InRange v r =
     (if (case vrMin r of None \<Rightarrow> False | Some lo \<Rightarrow> Cmp v lo < 0) then False
      else if (case vrMax r of
                 None \<Rightarrow> False
               | Some hi \<Rightarrow> Cmp v hi > 0 \<or> (Cmp v hi = 0 \<and> \<not> InclusiveMax r)) then False
      else True)"

text \<open>The loop of \<open>Intersection\<close>: its three variables, one step per range.\<close>

type_synonym inter_state = "SemVer option \<times> SemVer option \<times> bool"

fun inter_step :: "inter_state \<Rightarrow> VersionRange \<Rightarrow> inter_state" where
  "inter_step (greatestMin, smallestMax, inclusiveMax) r =
     (let g = (case vrMin r of
                 None \<Rightarrow> greatestMin
               | Some lo \<Rightarrow>
                   (case greatestMin of
                      None \<Rightarrow> Some lo
                    | Some g0 \<Rightarrow> if Cmp lo g0 > 0 then Some lo else greatestMin))
      in case vrMax r of
           None \<Rightarrow> (g, smallestMax, inclusiveMax)
         | Some hi \<Rightarrow>
             (if (case smallestMax of None \<Rightarrow> True | Some s0 \<Rightarrow> Cmp hi s0 < 0)
              then (g, Some hi, InclusiveMax r)
              else (g, smallestMax, inclusiveMax)))"

definition inter_finish :: "inter_state \<Rightarrow> VersionRange option" where
  "inter_finish st =
     (case st of (greatestMin, smallestMax, inclusiveMax) \<Rightarrow>
        (case (greatestMin, smallestMax) of
           (Some g, Some s) \<Rightarrow>
             (if Cmp g s > 0 then Some empty_range
              else Some \<lparr>vrMin = Some g, vrMax = Some s, InclusiveMax = inclusiveMax\<rparr>)
         | (None, None) \<Rightarrow> None
         | _ \<Rightarrow> Some \<lparr>vrMin = greatestMin, vrMax = smallestMax, InclusiveMax = inclusiveMax\<rparr>))"

text \<open>\<open>None\<close> is the nil pointer.\<close>

definition Intersection :: "VersionRange list \<Rightarrow> VersionRange option" where
  "Intersection ranges =
     (if length ranges = 0 then None
      else inter_finish (foldl inter_step (None, None, False) ranges))"

text \<open>The inner loop of \<open>FindDisjointRanges\<close>, over \<open>ranges[i:]\<close> with its index.\<close>

fun find_partner :: "VersionRange \<Rightarrow> nat \<Rightarrow> VersionRange list \<Rightarrow> nat option" where
  "find_partner vr1 j [] = None"
| "find_partner vr1 j (vr2 # rs) =
     (if Intersection [vr1, vr2] = Some empty_range then Some j
      else find_partner vr1 (Suc j) rs)"

text \<open>The outer loop, from index \<open>i\<close>, over the ranges that are left.\<close>

fun find_pair :: "nat \<Rightarrow> VersionRange list \<Rightarrow> int \<times> int" where
  "find_pair i [] = (-1, -1)"
| "find_pair i (vr1 # rs) =
     (if Intersection rs = None \<or> Intersection rs \<noteq> Some empty_range then
        (case find_partner vr1 0 (vr1 # rs) of
           Some j \<Rightarrow> (int i, int (i + j))
         | None \<Rightarrow> find_pair (Suc i) rs)
      else find_pair (Suc i) rs)"

definition FindDisjointRanges :: "VersionRange list \<Rightarrow> int \<times> int" where
  "FindDisjointRanges ranges =
     (if Intersection ranges = None \<or> Intersection ranges \<noteq> Some empty_range then (-1, -1)
      else find_pair 0 ranges)"

definition VersionRange_String :: "VersionRange \<Rightarrow> string" where
  "VersionRange_String vr =
     (let parts = (case vrMin vr of None \<Rightarrow> [] | Some lo \<Rightarrow> [''>= '' @ SemVer_String lo])
                  @ (case vrMax vr of None \<Rightarrow> [] | Some hi \<Rightarrow> [''< '' @ SemVer_String hi])
      in if length parts = 0 then ''(any)'' else Join parts '', '')"

section \<open>The order of versions\<close>

instantiation SemVer :: linorder
begin

definition less_eq_SemVer :: "SemVer \<Rightarrow> SemVer \<Rightarrow> bool" where
  "less_eq_SemVer a b = (Cmp a b \<le> 0)"

definition less_SemVer :: "SemVer \<Rightarrow> SemVer \<Rightarrow> bool" where
  "less_SemVer a b = (Cmp a b < 0)"

instance
proof
  fix x y z :: SemVer
  show "(x < y) = (x \<le> y \<and> \<not> y \<le> x)" and "x \<le> x" and "x \<le> y \<or> y \<le> x"
    by (auto simp: less_eq_SemVer_def less_SemVer_def Cmp_def)
  show "x \<le> z" if "x \<le> y" "y \<le> z"
    using that by (auto simp: less_eq_SemVer_def Cmp_def split: if_splits)
  show "x = y" if "x \<le> y" "y \<le> x"
    using that by (auto simp: less_eq_SemVer_def Cmp_def intro: SemVer.expand split: if_splits)
qed

end

lemma Cmp_lt [simp]: "Cmp a b < 0 \<longleftrightarrow> a < b"
  by (simp add: less_SemVer_def)

lemma Cmp_le [simp]: "Cmp a b \<le> 0 \<longleftrightarrow> a \<le> b"
  by (simp add: less_eq_SemVer_def)

lemma Cmp_gt [simp]: "0 < Cmp a b \<longleftrightarrow> b < a"
  by (metis Cmp_le not_le)

lemma Cmp_eq [simp]: "Cmp a b = 0 \<longleftrightarrow> a = b"
  by (metis Cmp_gt Cmp_lt linorder_neq_iff less_irrefl)

lemma InRange_iff:
  "InRange v r \<longleftrightarrow>
     (\<forall>lo. vrMin r = Some lo \<longrightarrow> lo \<le> v) \<and>
     (\<forall>hi. vrMax r = Some hi \<longrightarrow> v < hi \<or> (v = hi \<and> InclusiveMax r))"
  by (auto simp: InRange_def split: option.splits)

section \<open>Parsing\<close>

lemma toInt_Inr_iff: "toInt p = Inr n \<longleftrightarrow> p \<noteq> [] \<and> Atoi p = Some n \<and> 0 \<le> n"
  by (auto simp: toInt_def split: option.splits)

lemma toInt_bounds: "toInt p = Inr n \<Longrightarrow> 0 \<le> n \<and> n \<le> max_int64"
  using ParseInt_bounds [of 64 p n] by (auto simp: toInt_Inr_iff max_int64_def)

lemma toInt_Itoa: "0 \<le> i \<Longrightarrow> i \<le> max_int64 \<Longrightarrow> toInt (Itoa i) = Inr i"
  by (simp add: toInt_Inr_iff Atoi_Itoa)

lemma parse_core_bounds:
  "parse_core parts = Inr v \<Longrightarrow>
     0 \<le> Major v \<and> Major v \<le> max_int64 \<and> 0 \<le> Minor v \<and> Minor v \<le> max_int64 \<and>
     0 \<le> Patch v \<and> Patch v \<le> max_int64"
  by (auto simp: parse_core_def max_int64_def dest!: toInt_bounds split: sum.splits if_splits)

text \<open>A byte that printed numbers do not hold is not in a printed version.\<close>

lemma SemVer_String_plain:
  assumes "0 \<le> Major v" "0 \<le> Minor v" "0 \<le> Patch v" "\<not> is_digit c" "c \<noteq> CHR ''.''"
  shows "c \<notin> set (SemVer_String v)"
  using assms Itoa_digits by (auto simp: SemVer_String_def list_all_iff)

lemma TrimSpace_SemVer_String:
  assumes "0 \<le> Major v" "0 \<le> Minor v" "0 \<le> Patch v"
  shows "TrimSpace (SemVer_String v) = SemVer_String v"
proof (rule TrimSpace_id)
  have "is_digit (hd (SemVer_String v))" "is_digit (last (SemVer_String v))"
    using Itoa_digits [OF assms(1)] Itoa_digits [OF assms(3)]
    by (auto simp: SemVer_String_def list_all_iff)
  then show "\<not> space_head (hd (SemVer_String v))" "\<not> space_last (last (SemVer_String v))"
    by (auto dest: digit_not_space)
qed (simp add: SemVer_String_def)

lemma Split_SemVer_String:
  assumes "0 \<le> Major v" "0 \<le> Minor v" "0 \<le> Patch v"
  shows "Split (SemVer_String v) (CHR ''.'') = [Itoa (Major v), Itoa (Minor v), Itoa (Patch v)]"
proof -
  have *: "CHR ''.'' \<notin> set (Itoa i)" if "0 \<le> i" for i
    using Itoa_digits [OF that] is_digit_not by (fastforce simp: list_all_iff)
  show ?thesis
    using assms by (simp add: SemVer_String_def Split_append_sep Split_no_sep *)
qed

lemma no_suffix_byte: "c \<notin> set s \<Longrightarrow> \<not> HasSuffix s [c]"
  by (auto simp: HasSuffix_iff)

text \<open>
  Round trip: parsing the printed form of any version whose segments are representable gives
  the version back.
\<close>

theorem ParseSemVer_String:
  assumes "0 \<le> Major v" "Major v \<le> max_int64" "0 \<le> Minor v" "Minor v \<le> max_int64"
    "0 \<le> Patch v" "Patch v \<le> max_int64"
  shows "ParseSemVer (SemVer_String v) = Inr v"
proof -
  have nd: "CHR ''-'' \<notin> set (SemVer_String v)" "CHR ''+'' \<notin> set (SemVer_String v)"
    using assms by (simp_all add: SemVer_String_plain is_digit_def)
  then show ?thesis
    using assms
    by (simp add: ParseSemVer_def Let_def TrimSpace_SemVer_String no_suffix_byte CountByte_def
        Index_byte pre_release_check_def dash_before_plus_def core_end_def Split_SemVer_String
        parse_core_def toInt_Itoa count_list_0_iff)
      (simp add: SemVer_String_def)
qed

theorem ParseSemVer_String_witness:
  "ParseSemVer (SemVer_String (SemVer 2026 1 15)) = Inr (SemVer 2026 1 15)"
  by (rule ParseSemVer_String) (simp_all add: max_int64_def)

text \<open>
  Every version the parser accepts has non-negative segments within the 64-bit range.
\<close>

theorem ParseSemVer_bounds:
  "ParseSemVer s = Inr v \<Longrightarrow>
     0 \<le> Major v \<and> Major v \<le> max_int64 \<and> 0 \<le> Minor v \<and> Minor v \<le> max_int64 \<and>
     0 \<le> Patch v \<and> Patch v \<le> max_int64"
  by (rule parse_core_bounds)
    (auto simp: ParseSemVer_def Let_def split: if_splits option.splits)

theorem ParseSemVer_bounds_witness:
  "0 \<le> Major (SemVer 1 2 0) \<and> Major (SemVer 1 2 0) \<le> max_int64"
proof -
  have "ParseSemVer '' 1.2-rc1+b-7 '' = Inr (SemVer 1 2 0)" by code_simp
  then show ?thesis using ParseSemVer_bounds by blast
qed

section \<open>Ranges\<close>

text \<open>What the loop of \<open>Intersection\<close> has computed after a list of ranges.\<close>

definition inter_inv :: "VersionRange list \<Rightarrow> inter_state \<Rightarrow> bool" where
  "inter_inv rs st =
     (case st of (g, s, b) \<Rightarrow>
        (g = None \<longrightarrow> (\<forall>r\<in>set rs. vrMin r = None)) \<and>
        (\<forall>g0. g = Some g0 \<longrightarrow>
           (\<exists>r\<in>set rs. vrMin r = Some g0) \<and> (\<forall>r\<in>set rs. \<forall>lo. vrMin r = Some lo \<longrightarrow> lo \<le> g0)) \<and>
        (s = None \<longrightarrow> (\<forall>r\<in>set rs. vrMax r = None) \<and> \<not> b) \<and>
        (\<forall>s0. s = Some s0 \<longrightarrow>
           (\<exists>r\<in>set rs. vrMax r = Some s0 \<and> InclusiveMax r = b) \<and>
           (\<forall>r\<in>set rs. \<forall>hi. vrMax r = Some hi \<longrightarrow> s0 \<le> hi)))"

lemma inter_inv_step:
  assumes "inter_inv rs st"
  shows "inter_inv (rs @ [r]) (inter_step st r)"
proof (cases st)
  case (fields g s b)
  show ?thesis
    using assms unfolding fields inter_inv_def
    by (cases "vrMin r"; cases "vrMax r"; cases g; cases s) (auto simp: Let_def)
qed

lemma inter_inv_fold: "inter_inv rs (foldl inter_step (None, None, False) rs)"
proof (induction rs rule: rev_induct)
  case Nil
  then show ?case by (simp add: inter_inv_def)
next
  case (snoc r rs)
  then show ?case by (simp add: inter_inv_step)
qed

lemma Intersection_cases:
  obtains (nil) "Intersection rs = None" "\<forall>r\<in>set rs. vrMin r = None \<and> vrMax r = None"
  | (empty) a b x y where "Intersection rs = Some empty_range" "x \<in> set rs" "vrMin x = Some a"
      "y \<in> set rs" "vrMax y = Some b" "b < a"
  | (range) g s i where "Intersection rs = Some \<lparr>vrMin = g, vrMax = s, InclusiveMax = i\<rparr>"
      "g \<noteq> None \<or> s \<noteq> None" "inter_inv rs (g, s, i)"
      "\<forall>a b. g = Some a \<longrightarrow> s = Some b \<longrightarrow> a \<le> b"
proof (cases "rs = []")
  case True
  then show thesis using nil by (simp add: Intersection_def)
next
  case False
  obtain g s b where st: "foldl inter_step (None, None, False) rs = (g, s, b)"
    by (metis prod_cases3)
  then have inv: "inter_inv rs (g, s, b)" using inter_inv_fold [of rs] by simp
  have I: "Intersection rs = inter_finish (g, s, b)"
    using False by (simp add: Intersection_def st)
  show thesis
  proof (cases "g = None \<and> s = None")
    case True
    with inv I show thesis by (intro nil) (auto simp: inter_finish_def inter_inv_def)
  next
    case ns: False
    show thesis
    proof (cases "\<exists>a b. g = Some a \<and> s = Some b \<and> b < a")
      case True
      then obtain a c where ac: "g = Some a" "s = Some c" "c < a" by blast
      with inv obtain x y where "x \<in> set rs" "vrMin x = Some a" "y \<in> set rs" "vrMax y = Some c"
        by (auto simp: inter_inv_def)
      then show thesis using ac I by (intro empty) (auto simp: inter_finish_def)
    next
      case False
      with ns inv I show thesis
        by (intro range [of g s b]) (auto simp: inter_finish_def split: option.splits)
    qed
  qed
qed

lemma range_not_empty: "g \<noteq> None \<or> s \<noteq> None \<Longrightarrow> \<lparr>vrMin = g, vrMax = s, InclusiveMax = i\<rparr> \<noteq> empty_range"
  by (auto simp: empty_range_def)

lemma Intersection_empty_conv:
  "Intersection rs = Some empty_range \<longleftrightarrow>
     (\<exists>x\<in>set rs. \<exists>y\<in>set rs. \<exists>a b. vrMin x = Some a \<and> vrMax y = Some b \<and> b < a)"
proof (cases rs rule: Intersection_cases)
  case (empty a b x y)
  then show ?thesis by blast
next
  case (range g s i)
  then have "\<not> (\<exists>x\<in>set rs. \<exists>y\<in>set rs. \<exists>a b. vrMin x = Some a \<and> vrMax y = Some b \<and> b < a)"
    by (cases g; cases s) (fastforce simp: inter_inv_def)+
  with range range_not_empty show ?thesis by simp
qed auto

text \<open>
  \<open>Intersection\<close> answers with the empty range exactly when some range's minimum lies above
  some range's maximum.
\<close>

theorem Intersection_empty_iff:
  "Intersection rs = Some empty_range \<longleftrightarrow>
     (\<exists>x y a b. x \<in> set rs \<and> y \<in> set rs \<and> vrMin x = Some a \<and> vrMax y = Some b \<and> b < a)"
  by (auto simp: Intersection_empty_conv)

text \<open>Ranges that end at the same version agree on whether they include it.\<close>

definition ties_agree :: "VersionRange list \<Rightarrow> bool" where
  "ties_agree rs =
     list_all (\<lambda>x. list_all (\<lambda>y. vrMax x = None \<or> (vrMax x = vrMax y \<longrightarrow> InclusiveMax x = InclusiveMax y)) rs) rs"



text \<open>
  Where two ranges end at the same version and only one includes it, the result depends on the
  order of the arguments and can contain a version one of the ranges excludes.
\<close>

theorem Intersection_tie:
  "let a = \<lparr>vrMin = None, vrMax = Some (SemVer 2 0 0), InclusiveMax = True\<rparr>;
       b = \<lparr>vrMin = None, vrMax = Some (SemVer 2 0 0), InclusiveMax = False\<rparr>
   in Intersection [a, b] = Some a \<and> Intersection [b, a] = Some b \<and>
      InRange (SemVer 2 0 0) a \<and> \<not> InRange (SemVer 2 0 0) b"
  by (simp add: Intersection_def inter_finish_def InRange_iff Let_def less_SemVer_def Cmp_def)

section \<open>Disjoint ranges\<close>

lemma find_partner_Some:
  "find_partner vr j rs = Some k \<Longrightarrow>
     j \<le> k \<and> k < j + length rs \<and> Intersection [vr, rs ! (k - j)] = Some empty_range"
proof (induction vr j rs rule: find_partner.induct)
  case (2 vr1 j vr2 rs)
  then show ?case by (fastforce simp: nth_Cons' split: if_splits)
qed simp

lemma find_partner_None:
  "find_partner vr j rs = None \<longleftrightarrow> (\<forall>r\<in>set rs. Intersection [vr, r] \<noteq> Some empty_range)"
  by (induction vr j rs rule: find_partner.induct) auto

text \<open>If only the whole list has an empty intersection, its head is disjoint from some member.\<close>

lemma head_disjoint:
  assumes "Intersection (r # rs) = Some empty_range" "Intersection rs \<noteq> Some empty_range"
  shows "\<exists>x\<in>set (r # rs). Intersection [r, x] = Some empty_range"
  using assms unfolding Intersection_empty_conv by auto

lemma find_pair_correct:
  "Intersection rs = Some empty_range \<Longrightarrow>
     \<exists>a b. find_pair i rs = (int (i + a), int (i + b)) \<and> a \<le> b \<and> b < length rs \<and>
       Intersection [rs ! a, rs ! b] = Some empty_range"
proof (induction i rs rule: find_pair.induct)
  case (1 i)
  then show ?case by (simp add: Intersection_def)
next
  case (2 i r rs)
  show ?case
  proof (cases "Intersection rs = Some empty_range")
    case True
    with "2.IH"(2) obtain a b where "find_pair (Suc i) rs = (int (Suc i + a), int (Suc i + b))"
      "a \<le> b" "b < length rs" "Intersection [rs ! a, rs ! b] = Some empty_range" by auto
    with True show ?thesis by (intro exI [of _ "Suc a"] exI [of _ "Suc b"]) simp
  next
    case False
    with head_disjoint [OF "2.prems"] obtain j where "find_partner r 0 (r # rs) = Some j"
      using find_partner_None by blast
    with False find_partner_Some [OF this] show ?thesis
      by (intro exI [of _ 0] exI [of _ j]) simp
  qed
qed

text \<open>
  \<open>FindDisjointRanges\<close> returns \<open>(-1, -1)\<close> when the ranges have an intersection and otherwise
  the indices, in range and in order, of two ranges that are disjoint; the final return that the
  code marks as never hit is indeed unreachable.
\<close>

theorem FindDisjointRanges_correct:
  "if Intersection rs = Some empty_range
   then \<exists>a b. FindDisjointRanges rs = (int a, int b) \<and> a \<le> b \<and> b < length rs \<and>
          Intersection [rs ! a, rs ! b] = Some empty_range
   else FindDisjointRanges rs = (-1, -1)"
  using find_pair_correct [of rs 0] by (auto simp: FindDisjointRanges_def)

end
