(* ===== verification/GoPath.thy ===== *)
theory GoPath
  imports GoLib
begin

text \<open>
  What the modelled code uses of Go's \<open>path/filepath\<close> on a Unix system (separator \<open>/\<close>): the lexical
  functions \<open>Clean\<close>, \<open>Join\<close>, \<open>Rel\<close> and \<open>IsAbs\<close>, as documented for the standard library. A path is
  reduced to its list of components; the lemmas describe the components of cleaned and joined
  paths, which the containment theorem of the run model rests on.
\<close>

definition comps :: "string \<Rightarrow> string list" where
  "comps p = filter (\<lambda>c. c \<noteq> []) (Split p (CHR ''/''))"

text \<open>One component of the input of \<open>Clean\<close>, on the reversed list of components kept so far.\<close>

definition clean_push :: "bool \<Rightarrow> string list \<Rightarrow> string \<Rightarrow> string list" where
  "clean_push rooted st c =
     (if c = [] \<or> c = ''.'' then st
      else if c = ''..'' then
        (case st of
           [] \<Rightarrow> (if rooted then [] else [''..''])
         | t # ts \<Rightarrow> (if t = ''..'' then ''..'' # st else ts))
      else c # st)"

definition clean_stack :: "bool \<Rightarrow> string \<Rightarrow> string list" where
  "clean_stack rooted p = foldl (clean_push rooted) [] (Split p (CHR ''/''))"

definition build_clean :: "bool \<Rightarrow> string list \<Rightarrow> string" where
  "build_clean rooted cs =
     (if rooted then ''/'' @ Join cs ''/'' else if cs = [] then ''.'' else Join cs ''/'')"

definition Clean :: "string \<Rightarrow> string" where
  "Clean p = build_clean (HasPrefix p ''/'') (rev (clean_stack (HasPrefix p ''/'') p))"

text \<open>\<open>filepath.Join\<close> of two elements.\<close>

definition PathJoin :: "string \<Rightarrow> string \<Rightarrow> string" where
  "PathJoin a b = (if a \<noteq> [] then Clean (a @ ''/'' @ b) else if b \<noteq> [] then Clean b else [])"

definition IsAbs :: "string \<Rightarrow> bool" where
  "IsAbs p = HasPrefix p ''/''"

fun strip_common :: "string list \<Rightarrow> string list \<Rightarrow> string list \<times> string list" where
  "strip_common (b # bs) (t # ts) = (if b = t then strip_common bs ts else (b # bs, t # ts))"
| "strip_common bs ts = (bs, ts)"

text \<open>\<open>filepath.Rel\<close>; \<open>None\<close> is its error.\<close>

definition Rel :: "string \<Rightarrow> string \<Rightarrow> string option" where
  "Rel basepath targpath =
     (let b = Clean basepath; t = Clean targpath in
      if t = b then Some ''.''
      else
        let b' = (if b = ''.'' then [] else b) in
        if HasPrefix b' ''/'' \<noteq> HasPrefix t ''/'' then None
        else case strip_common (comps b') (comps t) of (bs, ts) \<Rightarrow>
          (if bs \<noteq> [] \<and> hd bs = ''..'' then None
           else Some (Join (replicate (length bs) ''..'' @ ts) ''/'')))"

section \<open>Components of cleaned paths\<close>

text \<open>
  The list of components \<open>Clean\<close> builds: no empty and no \<open>.\<close> component, no separator inside, and
  \<open>..\<close> only at the front of a relative path.
\<close>

definition plain_comp :: "string \<Rightarrow> bool" where
  "plain_comp c = (c \<noteq> [] \<and> c \<noteq> ''.'' \<and> c \<noteq> ''..'' \<and> CHR ''/'' \<notin> set c)"

definition clean_list :: "bool \<Rightarrow> string list \<Rightarrow> bool" where
  "clean_list rooted cs =
     (\<exists>n ps. cs = replicate n ''..'' @ ps \<and> (rooted \<longrightarrow> n = 0) \<and> (\<forall>c\<in>set ps. plain_comp c))"

lemma clean_listI:
  "(\<And>c. c \<in> set ps \<Longrightarrow> plain_comp c) \<Longrightarrow> (rooted \<Longrightarrow> n = 0) \<Longrightarrow> clean_list rooted (replicate n ''..'' @ ps)"
  by (auto simp: clean_list_def)

lemma clean_list_push:
  assumes "clean_list rooted (rev st)" "CHR ''/'' \<notin> set c"
  shows "clean_list rooted (rev (clean_push rooted st c))"
proof -
  from assms(1) obtain n ps where st: "rev st = replicate n ''..'' @ ps"
    and r: "rooted \<longrightarrow> n = 0" and ps: "\<forall>c\<in>set ps. plain_comp c"
    by (auto simp: clean_list_def)
  consider "c = [] \<or> c = ''.''" | "c = ''..''" | "plain_comp c"
    using assms(2) by (auto simp: plain_comp_def)
  then show ?thesis
  proof cases
    case 1
    with assms(1) show ?thesis by (simp add: clean_push_def)
  next
    case 2
    show ?thesis
    proof (cases ps rule: rev_cases)
      case Nil
      then have st': "st = replicate n ''..''" using st by (metis append_Nil2 rev_replicate rev_rev_ident)
      show ?thesis
      proof (cases n)
        case 0
        with 2 st' show ?thesis
          using clean_listI [of "[]" rooted 0] clean_listI [of "[]" rooted 1] by (auto simp: clean_push_def)
      next
        case (Suc m)
        with 2 st' r have "clean_push rooted st c = replicate (Suc n) ''..''"
          by (simp add: clean_push_def)
        then have eq: "rev (clean_push rooted st c) = replicate (Suc n) ''..'' @ []"
          by (simp only: rev_replicate append_Nil2)
        show ?thesis unfolding eq by (rule clean_listI) (use r Suc in auto)
      qed
    next
      case (snoc qs q)
      then have "st = q # rev qs @ replicate n ''..''"
        using st by (metis append_assoc rev_append rev_replicate rev_rev_ident rev.simps append_Nil append_Cons rev_singleton_conv)
      with 2 snoc ps r show ?thesis
        using clean_listI [of qs rooted n] by (auto simp: clean_push_def plain_comp_def)
    qed
  next
    case 3
    then have "rev (clean_push rooted st c) = replicate n ''..'' @ (ps @ [c])"
      using st by (auto simp: clean_push_def plain_comp_def)
    with 3 ps r show ?thesis using clean_listI [of "ps @ [c]" rooted n] by auto
  qed
qed

lemma clean_list_stack: "clean_list rooted (rev (clean_stack rooted p))"
proof -
  have "clean_list rooted (rev (foldl (clean_push rooted) st cs))"
    if "clean_list rooted (rev st)" "\<forall>c\<in>set cs. CHR ''/'' \<notin> set c" for st cs
    using that by (induction cs arbitrary: st) (auto intro: clean_list_push)
  moreover have "clean_list rooted (rev [])" using clean_listI [of "[]" rooted 0] by simp
  ultimately show ?thesis unfolding clean_stack_def using Split_sep_free by blast
qed

lemma clean_list_comp:
  "clean_list rooted cs \<Longrightarrow> c \<in> set cs \<Longrightarrow> c \<noteq> [] \<and> c \<noteq> ''.'' \<and> CHR ''/'' \<notin> set c"
proof -
  assume "clean_list rooted cs" "c \<in> set cs"
  then obtain n ps where "cs = replicate n ''..'' @ ps" "\<forall>c\<in>set ps. plain_comp c" "c \<in> set cs"
    unfolding clean_list_def by blast
  then have "c = ''..'' \<or> plain_comp c" by auto
  then show ?thesis unfolding plain_comp_def by (elim disjE) simp_all
qed

lemma Split_slash_Cons: "Split (CHR ''/'' # s) (CHR ''/'') = [] # Split s (CHR ''/'')"
  by simp

lemma comps_slash [simp]: "comps (CHR ''/'' # s) = comps s"
  by (simp add: comps_def)

lemma comps_Nil [simp]: "comps [] = []"
  by (simp add: comps_def)

lemma comps_Join:
  "clean_list rooted cs \<Longrightarrow> comps (Join cs ''/'') = cs"
proof (cases "cs = []")
  case True
  then show ?thesis by (simp add: comps_def)
next
  case False
  assume "clean_list rooted cs"
  then have *: "\<forall>c\<in>set cs. CHR ''/'' \<notin> set c" "filter (\<lambda>c. c \<noteq> []) cs = cs"
    by (auto dest: clean_list_comp simp: filter_id_conv)
  with False show ?thesis by (simp add: comps_def Split_Join)
qed

text \<open>The components of a clean path; the current directory has none.\<close>

definition path_comps :: "string \<Rightarrow> string list" where
  "path_comps p = (if p = ''.'' then [] else comps p)"

lemma Join_not_dot: "clean_list rooted cs \<Longrightarrow> Join cs ''/'' \<noteq> ''.''"
proof
  assume c: "clean_list rooted cs" and "Join cs ''/'' = ''.''"
  then have "cs = comps ''.''" using comps_Join by metis
  with c show False by (auto simp: comps_def dest: clean_list_comp)
qed

lemma path_comps_build: "clean_list rooted cs \<Longrightarrow> path_comps (build_clean rooted cs) = cs"
  by (auto simp: path_comps_def build_clean_def comps_Join Join_not_dot)


lemma path_comps_Clean: "path_comps (Clean p) = rev (clean_stack (HasPrefix p ''/'') p)"
  unfolding Clean_def by (rule path_comps_build [OF clean_list_stack])

lemma clean_list_path_comps: "clean_list (HasPrefix p ''/'') (path_comps (Clean p))"
  using clean_list_stack path_comps_Clean by simp

lemma Join_starts_slash:
  assumes "clean_list rooted cs"
  shows "\<not> HasPrefix (Join cs ''/'') ''/''"
proof (cases cs)
  case (Cons c cs')
  then have "c \<noteq> [] \<and> CHR ''/'' \<notin> set c" using assms clean_list_comp by fastforce
  then show ?thesis using Cons by (cases c; cases cs') auto
qed simp

lemma IsAbs_Clean [simp]: "HasPrefix (Clean p) ''/'' = HasPrefix p ''/''"
proof (cases "HasPrefix p ''/''")
  case False
  then show ?thesis
    using Join_starts_slash [OF clean_list_stack [of False p]]
    by (auto simp: Clean_def build_clean_def)
qed (auto simp: Clean_def build_clean_def)

text \<open>Pushing a clean list of components on the empty stack keeps them all.\<close>

lemma foldl_push_dotdot:
  "foldl (clean_push False) (replicate m ''..'') (replicate n ''..'') = replicate (m + n) ''..''"
proof (induction n arbitrary: m)
  case (Suc n)
  have "clean_push False (replicate m ''..'') ''..'' = replicate (Suc m) ''..''"
    by (cases m) (auto simp: clean_push_def)
  with Suc [of "Suc m"] show ?case by simp
qed simp

lemma foldl_push_plain:
  "\<forall>c\<in>set ps. c \<noteq> ''..'' \<Longrightarrow>
     foldl (clean_push rooted) st ps = rev (filter (\<lambda>c. c \<noteq> [] \<and> c \<noteq> ''.'') ps) @ st"
  by (induction ps arbitrary: st) (auto simp: clean_push_def)

lemma foldl_push_clean:
  assumes "clean_list rooted cs"
  shows "foldl (clean_push rooted) [] cs = rev cs"
proof -
  from assms obtain n ps where cs: "cs = replicate n ''..'' @ ps" and r: "rooted \<longrightarrow> n = 0"
    and ps: "\<forall>c\<in>set ps. plain_comp c" by (auto simp: clean_list_def)
  have "foldl (clean_push rooted) [] (replicate n ''..'') = replicate n ''..''"
    using r foldl_push_dotdot [of 0 n] by (cases rooted) auto
  moreover have "filter (\<lambda>c. c \<noteq> [] \<and> c \<noteq> ''.'') ps = ps"
    using ps by (auto simp: filter_id_conv plain_comp_def)
  ultimately show ?thesis
    using foldl_push_plain [of ps rooted "replicate n ''..''"] ps cs by (auto simp: plain_comp_def)
qed

lemma foldl_push_comps:
  "foldl (clean_push rooted) st (Split p (CHR ''/'')) = foldl (clean_push rooted) st (comps p)"
proof -
  have "foldl (clean_push rooted) st cs = foldl (clean_push rooted) st (filter (\<lambda>c. c \<noteq> []) cs)" for cs
    by (induction cs arbitrary: st) (auto simp: clean_push_def)
  then show ?thesis by (simp add: comps_def)
qed

lemma comps_build: "clean_list rooted cs \<Longrightarrow> comps (build_clean rooted cs) = (if \<not> rooted \<and> cs = [] then [''.''] else cs)"
  by (auto simp: build_clean_def comps_Join) (simp add: comps_def)

lemma foldl_push_Clean:
  "foldl (clean_push (HasPrefix p ''/'')) [] (comps (Clean p)) = rev (path_comps (Clean p))"
proof -
  let ?r = "HasPrefix p ''/''" and ?cs = "rev (clean_stack (HasPrefix p ''/'') p)"
  have "foldl (clean_push ?r) [] (comps (Clean p)) = foldl (clean_push ?r) [] ?cs"
    using comps_build [OF clean_list_stack, of ?r p] by (auto simp: Clean_def clean_push_def)
  also have "\<dots> = rev ?cs" by (rule foldl_push_clean [OF clean_list_stack])
  finally show ?thesis by (simp add: path_comps_Clean)
qed

lemma Split_append_slash: "Split (a @ CHR ''/'' # b) (CHR ''/'') = Split a (CHR ''/'') @ Split b (CHR ''/'')"
proof (induction a)
  case (Cons c a)
  then show ?case by (cases "Split a (CHR ''/'')") auto
qed simp

lemma comps_append_slash: "comps (a @ CHR ''/'' # b) = comps a @ comps b"
  by (simp add: comps_def Split_append_slash)

text \<open>Cleaning is idempotent.\<close>

lemma Clean_Clean [simp]: "Clean (Clean p) = Clean p"
proof -
  let ?r = "HasPrefix p ''/''"
  have "clean_stack ?r (Clean p) = clean_stack ?r p"
    using foldl_push_Clean [of p] by (simp add: clean_stack_def foldl_push_comps path_comps_Clean)
  then show ?thesis
    unfolding Clean_def [of "Clean p"] IsAbs_Clean by (simp add: Clean_def)
qed

lemma Clean_nonempty [simp]: "Clean p \<noteq> []"
proof
  assume "Clean p = []"
  then have "\<not> HasPrefix p ''/''" "rev (clean_stack False p) \<noteq> []" "Join (rev (clean_stack False p)) ''/'' = []"
    by (auto simp: Clean_def build_clean_def split: if_splits)
  then show False
    using comps_Join [OF clean_list_stack, of False p] by (simp add: comps_def)
qed

text \<open>
  Joining a path without \<open>..\<close> components to a clean base appends its components (dots dropped).
\<close>

lemma path_comps_PathJoin:
  assumes "''..'' \<notin> set (comps p)"
  shows "path_comps (PathJoin (Clean b) p) = path_comps (Clean b) @ filter (\<lambda>c. c \<noteq> ''.'') (comps p)"
proof -
  let ?r = "HasPrefix b ''/''"
  have r: "HasPrefix (Clean b @ ''/'' @ p) ''/'' = ?r"
    using IsAbs_Clean [of b] Clean_nonempty [of b] by (cases "Clean b") auto
  have "clean_stack ?r (Clean b @ ''/'' @ p)
      = foldl (clean_push ?r) (rev (path_comps (Clean b))) (comps p)"
    using foldl_push_Clean [of b] by (simp add: clean_stack_def foldl_push_comps comps_append_slash)
  also have "\<dots> = rev (filter (\<lambda>c. c \<noteq> [] \<and> c \<noteq> ''.'') (comps p)) @ rev (path_comps (Clean b))"
    using assms by (intro foldl_push_plain) auto
  finally have "clean_stack ?r (Clean b @ ''/'' @ p) = \<dots>" .
  moreover have "filter (\<lambda>c. c \<noteq> [] \<and> c \<noteq> ''.'') (comps p) = filter (\<lambda>c. c \<noteq> ''.'') (comps p)"
    by (rule filter_cong) (auto simp: comps_def)
  ultimately show ?thesis
    using r by (simp add: PathJoin_def path_comps_Clean)
qed

lemma strip_common_append:
  "strip_common bs ts = (bs', ts') \<Longrightarrow> \<exists>cs. bs = cs @ bs' \<and> ts = cs @ ts'"
proof (induction bs ts rule: strip_common.induct)
  case (1 b bs t ts)
  then show ?case by (auto split: if_splits)
qed auto

lemma strip_common_prefix [simp]: "strip_common cs (cs @ ts) = ([], ts)"
  by (induction cs) auto

section \<open>Containment\<close>

text \<open>
  A path lies below a base directory: its components extend those of the base by components none
  of which leads upwards.
\<close>

definition contained :: "string \<Rightarrow> string \<Rightarrow> bool" where
  "contained base p = (\<exists>ts. path_comps p = path_comps (Clean base) @ ts \<and> ''..'' \<notin> set ts)"

lemma clean_list_rest:
  assumes "clean_list rooted (cs @ t # ts)" "t \<noteq> ''..''"
  shows "''..'' \<notin> set (t # ts)"
proof -
  from assms(1) obtain n ps where eq: "cs @ t # ts = replicate n ''..'' @ ps" and ps: "\<forall>c\<in>set ps. plain_comp c"
    by (auto simp: clean_list_def)
  have "n \<le> length cs"
  proof (rule ccontr)
    assume "\<not> n \<le> length cs"
    then have "(cs @ t # ts) ! length cs = ''..''" unfolding eq by (simp add: nth_append)
    with assms(2) show False by simp
  qed
  then have "t # ts = drop (length cs - n) ps"
    using arg_cong [OF eq, of "drop (length cs)"] by simp
  then have "set (t # ts) \<subseteq> set ps" by (metis set_drop_subset)
  with ps show ?thesis by (auto simp: plain_comp_def)
qed

lemma PathJoin_Clean: "Clean (PathJoin (Clean b) p) = PathJoin (Clean b) p"
  by (simp add: PathJoin_def)

lemma comps_path_comps: "comps (if p = ''.'' then [] else p) = path_comps p"
  by (simp add: path_comps_def)

lemma PathJoin_form: "PathJoin (Clean b) p = Clean (Clean b @ ''/'' @ p)"
  by (simp add: PathJoin_def)

lemma Join_dotdot: "Join (''..'' # ts) ''/'' = ''..'' \<or> HasPrefix (Join (''..'' # ts) ''/'') ''../''"
  by (cases ts) auto

text \<open>An accepted relative path does not lead out of the base.\<close>

lemma Rel_inside:
  assumes "Clean b = b" "Clean r = r" "r \<noteq> b" "Rel b r = Some rel"
    and "rel \<noteq> ''..''" "\<not> HasPrefix rel ''../''"
  obtains ts where "comps r = path_comps b @ ts" "ts = [] \<or> hd ts \<noteq> ''..''"
proof -
  obtain bs ts where st: "strip_common (path_comps b) (comps r) = (bs, ts)" by fastforce
  have rel: "rel = Join (replicate (length bs) ''..'' @ ts) ''/''"
    using assms(1-4) st by (auto simp: Rel_def comps_path_comps Let_def split: if_splits)
  have no: "rel \<noteq> Join (''..'' # us) ''/''" for us
    using Join_dotdot [of us] assms(5,6) by metis
  have "bs = []" using no rel by (cases bs) auto
  moreover have "ts = [] \<or> hd ts \<noteq> ''..''" using no rel \<open>bs = []\<close> by (cases ts) auto
  ultimately show thesis using that strip_common_append [OF st] by auto
qed

lemma clean_inside_contained:
  assumes c: "comps r = path_comps (Clean b) @ ts" and hd: "ts = [] \<or> hd ts \<noteq> ''..''"
    and r: "r = Clean q"
  shows "contained b r"
proof (cases "r = ''.''")
  case True
  then have "path_comps (Clean b) @ ts = [''.'']" using c by (simp add: comps_def)
  moreover have "''.'' \<notin> set (path_comps (Clean b))"
    using clean_list_comp [OF clean_list_path_comps [of b]] by blast
  ultimately have "path_comps (Clean b) = []" by (cases "path_comps (Clean b)") auto
  then show ?thesis using True by (simp add: contained_def path_comps_def [of "''.''"])
next
  case False
  then have p: "path_comps r = path_comps (Clean b) @ ts" using c by (simp add: path_comps_def)
  have "''..'' \<notin> set ts"
    using clean_list_rest [of _ "path_comps (Clean b)" "hd ts" "tl ts"] clean_list_path_comps [of q] p hd r
    by (cases ts) auto
  with p show ?thesis by (auto simp: contained_def)
qed

lemma contained_refl: "contained b (Clean b)"
  by (simp add: contained_def)

end
