(* ===== verification/Transition.thy ===== *)
theory Transition
  imports Main
begin

text \<open>
  The contract of a system that runs in steps: an invariant that holds at the start and that every
  step keeps holds in every state that is reached. The step relations of the components and the
  executions of their operations are instances.
\<close>

locale step_system =
  fixes start :: "'s \<Rightarrow> bool" and step :: "'s \<Rightarrow> 's \<Rightarrow> bool" and invar :: "'s \<Rightarrow> bool"
  assumes start_invar: "start s \<Longrightarrow> invar s"
    and step_invar: "invar s \<Longrightarrow> step s t \<Longrightarrow> invar t"
begin

lemma steps_invar: "step\<^sup>*\<^sup>* s t \<Longrightarrow> invar s \<Longrightarrow> invar t"
  by (induction rule: rtranclp_induct) (auto intro: step_invar)

lemma reachable_invar: "start s \<Longrightarrow> step\<^sup>*\<^sup>* s t \<Longrightarrow> invar t"
  using steps_invar start_invar by blast

end

text \<open>An operation that is a function of the state and of a label is a step for each label.\<close>

locale exec_system =
  fixes exec :: "'op \<Rightarrow> 's \<Rightarrow> 's" and allowed :: "'op \<Rightarrow> bool" and invar :: "'s \<Rightarrow> bool"
  assumes exec_invar: "invar s \<Longrightarrow> allowed op \<Longrightarrow> invar (exec op s)"
begin

lemma run_invar: "list_all allowed ops \<Longrightarrow> invar s \<Longrightarrow> invar (foldl (\<lambda>s op. exec op s) s ops)"
  by (induction ops arbitrary: s) (auto intro: exec_invar)

end

sublocale exec_system \<subseteq> step_system "\<lambda>s. invar s" "\<lambda>s t. \<exists>op. allowed op \<and> t = exec op s" invar
  by unfold_locales (auto intro: exec_invar)

end
