(* ===== verification/Manifest.thy ===== *)
theory Manifest
  imports GoPath Transition
begin

text \<open>
  The data model of a run (core/apap-engine/cdf: component.go, component_types.go, manifest.go,
  normalize.go, entity.go) and its construction: \<open>RunBuilder\<close> (run/run_builder.go) and
  \<open>RunManifestUpdater\<close> (run/run_manifest_updater.go). Every operation of the updater clones the
  builder, applies one mutation, writes the manifest and only then adopts the clone; the writer is
  a parameter that may fail, the manifest on disk is part of the state.
\<close>

section \<open>Components, entries, manifests\<close>

record ComponentType =
  ctName :: string
  SchemaVersion :: string

record Component =
  cType :: ComponentType
  cRelativePath :: string
  cAbsolutePath :: string

datatype Entity = Entity (eRelativePath: string)

record ManifestEntry =
  mePath :: string
  meType :: ComponentType
  mePending :: bool

record ToolUsed =
  tuTool :: string
  tuVersion :: string
  tuInvocation :: int

record Manifest =
  Entries :: "ManifestEntry list"
  ToolsUsed :: "ToolUsed list"

definition IsLogComponentType :: "ComponentType \<Rightarrow> bool" where
  "IsLogComponentType t = (ctName t = ''log-text'' \<or> ctName t = ''log-json'')"

definition NormalizePath :: "string \<Rightarrow> string" where
  "NormalizePath p0 =
     (let p1 = ReplaceByte (Clean p0) (CHR 0x5C) (CHR ''/'');
          p2 = (if length p1 > 0 \<and> p1 ! 0 = CHR ''/'' then drop 1 p1 else p1)
      in if length p2 > 0 \<and> p2 ! (length p2 - 1) = CHR ''/'' then take (length p2 - 1) p2 else p2)"

definition Lookup :: "Manifest \<Rightarrow> string \<Rightarrow> ManifestEntry option" where
  "Lookup m p = (let path = NormalizePath p in find (\<lambda>e. mePath e = path) (Entries m))"

section \<open>The builder of a run\<close>

record builderComponent =
  bcComponent :: Component
  bcPending :: bool

record RunBuilder =
  rbRunID :: string
  rbBasePath :: string
  rbRunPath :: string
  rbEntities :: "Entity list"
  rbComponents :: "builderComponent list"
  rbToolsUsed :: "ToolUsed list"

abbreviation bcPath :: "builderComponent \<Rightarrow> string" where
  "bcPath c \<equiv> cRelativePath (bcComponent c)"

definition GenerateRunName :: "RunBuilder \<Rightarrow> string \<Rightarrow> string" where
  "GenerateRunName b recipeName =
     (let name = (if length recipeName > 16 then take 16 recipeName else recipeName);
          i = rbRunID b;
          i' = (if length i > 3 then drop (length i - 3) i else i)
      in name @ ''_'' @ i')"

definition ContainsEntity :: "RunBuilder \<Rightarrow> string \<Rightarrow> bool" where
  "ContainsEntity b p = (Entity (NormalizePath p) \<in> set (rbEntities b))"

fun add_entity_dirs :: "RunBuilder \<Rightarrow> string \<Rightarrow> string list \<Rightarrow> RunBuilder" where
  "add_entity_dirs b dirPath [] = b"
| "add_entity_dirs b dirPath (d # ds) =
     (if ContainsAny d ''*?['' then b
      else
        let dirPath' = PathJoin dirPath d;
            b' = (if \<not> ContainsEntity b dirPath'
                  then b\<lparr>rbEntities := rbEntities b @ [Entity (NormalizePath dirPath')]\<rparr> else b)
        in add_entity_dirs b' dirPath' ds)"

definition AddEntity :: "RunBuilder \<Rightarrow> string \<Rightarrow> RunBuilder" where
  "AddEntity b p =
     (if length p = 0 then b
      else add_entity_dirs b [] (Split (NormalizePath p) (CHR ''/'')))"

definition AddToolOutput :: "RunBuilder \<Rightarrow> string \<Rightarrow> string \<Rightarrow> int \<Rightarrow> RunBuilder" where
  "AddToolOutput b toolName version invocation =
     b\<lparr>rbToolsUsed := rbToolsUsed b @ [\<lparr>tuTool = toolName, tuVersion = version, tuInvocation = invocation\<rparr>]\<rparr>"

text \<open>\<open>dir, _ := filepath.Split(p)\<close>: everything up to and including the last separator.\<close>

definition split_dir :: "string \<Rightarrow> string" where
  "split_dir p = (case LastIndex p ''/'' of None \<Rightarrow> [] | Some i \<Rightarrow> take (Suc i) p)"

definition addComponent :: "RunBuilder \<Rightarrow> ComponentType \<Rightarrow> string \<Rightarrow> bool \<Rightarrow> RunBuilder" where
  "addComponent b ct p0 pending =
     (let p = NormalizePath p0;
          b1 = AddEntity b (split_dir p);
          absolutePath = PathJoin (rbRunPath b) p
      in b1\<lparr>rbComponents := rbComponents b1 @
             [\<lparr>bcComponent = \<lparr>cType = ct, cRelativePath = p, cAbsolutePath = absolutePath\<rparr>,
               bcPending = pending\<rparr>]\<rparr>)"

fun clear_first :: "string \<Rightarrow> builderComponent list \<Rightarrow> builderComponent list" where
  "clear_first p [] = []"
| "clear_first p (c # cs) =
     (if bcPath c = p \<and> bcPending c then c\<lparr>bcPending := False\<rparr> # cs else c # clear_first p cs)"

definition ClearPending :: "RunBuilder \<Rightarrow> string \<Rightarrow> RunBuilder" where
  "ClearPending b p = b\<lparr>rbComponents := clear_first (NormalizePath p) (rbComponents b)\<rparr>"

fun remove_first :: "string \<Rightarrow> builderComponent list \<Rightarrow> builderComponent list" where
  "remove_first p [] = []"
| "remove_first p (c # cs) = (if bcPath c = p then cs else c # remove_first p cs)"

definition RemoveComponent :: "RunBuilder \<Rightarrow> string \<Rightarrow> RunBuilder" where
  "RemoveComponent b p = b\<lparr>rbComponents := remove_first (NormalizePath p) (rbComponents b)\<rparr>"

definition IsComponentPending :: "RunBuilder \<Rightarrow> string \<Rightarrow> bool" where
  "IsComponentPending b p =
     (case find (\<lambda>c. bcPath c = NormalizePath p) (rbComponents b) of
        None \<Rightarrow> False | Some c \<Rightarrow> bcPending c)"

definition buildManifest :: "RunBuilder \<Rightarrow> Manifest" where
  "buildManifest b =
     \<lparr>Entries = map (\<lambda>c. \<lparr>mePath = bcPath c, meType = cType (bcComponent c), mePending = bcPending c\<rparr>)
                  (rbComponents b),
      ToolsUsed = rbToolsUsed b\<rparr>"

section \<open>The updater\<close>

text \<open>
  \<open>uBuilder\<close> is the builder the updater points to, \<open>uDisk\<close> the manifest last written. The writer
  decides whether a write of the given builder succeeds; a failed write leaves the file as it was.
\<close>

record Updater =
  uBuilder :: RunBuilder
  uDisk :: Manifest

type_synonym writer = "RunBuilder \<Rightarrow> bool"

definition update :: "writer \<Rightarrow> (RunBuilder \<Rightarrow> RunBuilder) \<Rightarrow> Updater \<Rightarrow> bool \<times> Updater" where
  "update write mutate u =
     (let updatedBuilder = mutate (uBuilder u)
      in if \<not> write updatedBuilder then (False, u)
         else (True, u\<lparr>uBuilder := updatedBuilder, uDisk := buildManifest updatedBuilder\<rparr>))"

datatype updater_op =
    UAddPendingComponent string ComponentType
  | UAddComponent string ComponentType
  | UAddToolOutput string string int
  | UClearPending string
  | URemoveComponent string
  | URemovePendingComponent string

fun updater_mutation :: "updater_op \<Rightarrow> RunBuilder \<Rightarrow> RunBuilder" where
  "updater_mutation (UAddPendingComponent p ct) b = addComponent b ct p True"
| "updater_mutation (UAddComponent p ct) b = addComponent b ct p False"
| "updater_mutation (UAddToolOutput t v i) b = AddToolOutput b t v i"
| "updater_mutation (UClearPending p) b = ClearPending b p"
| "updater_mutation (URemoveComponent p) b = RemoveComponent b p"
| "updater_mutation (URemovePendingComponent p) b =
     (if IsComponentPending b p then RemoveComponent b p else b)"

text \<open>Every operation on a path returns at once for the empty path.\<close>

fun updater_noop :: "updater_op \<Rightarrow> bool" where
  "updater_noop (UAddPendingComponent p ct) = (p = [])"
| "updater_noop (UAddComponent p ct) = (p = [])"
| "updater_noop (UAddToolOutput t v i) = False"
| "updater_noop (UClearPending p) = (p = [])"
| "updater_noop (URemoveComponent p) = (p = [])"
| "updater_noop (URemovePendingComponent p) = (p = [])"

definition updater_exec :: "writer \<Rightarrow> updater_op \<Rightarrow> Updater \<Rightarrow> bool \<times> Updater" where
  "updater_exec write op u =
     (if updater_noop op then (True, u) else update write (updater_mutation op) u)"

text \<open>A run of the updater: the writer may answer differently at each step.\<close>

fun updater_run :: "(writer \<times> updater_op) list \<Rightarrow> Updater \<Rightarrow> Updater" where
  "updater_run [] u = u"
| "updater_run ((w, op) # ops) u = updater_run ops (snd (updater_exec w op u))"

section \<open>Paths\<close>

lemma ReplaceByte_id: "a \<notin> set s \<Longrightarrow> ReplaceByte s a b = s"
  unfolding ReplaceByte_def by (rule map_idI) auto

lemma Join_ends_slash:
  assumes "clean_list rooted cs" "cs \<noteq> []"
  shows "last (Join cs ''/'') \<noteq> CHR ''/''" and "Join cs ''/'' \<noteq> []"
proof -
  have "last (Join cs ''/'') = last (last cs) \<and> Join cs ''/'' \<noteq> []"
    if "cs \<noteq> []" "\<forall>c\<in>set cs. c \<noteq> []" for cs :: "string list"
    using that by (induction cs "''/'' :: string" rule: Join.induct) auto
  moreover have *: "c \<noteq> [] \<and> CHR ''/'' \<notin> set c" if "c \<in> set cs" for c
    using clean_list_comp [OF assms(1) that] by simp
  ultimately have "last (Join cs ''/'') = last (last cs)" "Join cs ''/'' \<noteq> []"
    using assms(2) by auto
  moreover have "last (last cs) \<in> set (last cs)" using * assms(2) by (simp add: last_in_set)
  ultimately show "last (Join cs ''/'') \<noteq> CHR ''/''" and "Join cs ''/'' \<noteq> []"
    using * [of "last cs"] assms(2) by (metis last_in_set)+
qed

lemma strip_slashes:
  assumes "j \<noteq> []" "j ! 0 \<noteq> CHR ''/''" "last j \<noteq> CHR ''/''" "x = CHR ''/'' # j \<or> x = j"
  shows "(let p2 = (if length x > 0 \<and> x ! 0 = CHR ''/'' then drop 1 x else x)
      in if length p2 > 0 \<and> p2 ! (length p2 - 1) = CHR ''/'' then take (length p2 - 1) p2 else p2) = j"
proof -
  have "(if length x > 0 \<and> x ! 0 = CHR ''/'' then drop 1 x else x) = j" using assms by auto
  with assms show ?thesis by (simp add: last_conv_nth)
qed

text \<open>
  On a path without backslashes, \<open>NormalizePath\<close> gives the components of the cleaned path, joined
  without a leading separator.
\<close>

lemma NormalizePath_comps:
  assumes "CHR 0x5C \<notin> set (Clean p)"
  shows "NormalizePath p =
    (if path_comps (Clean p) = [] then (if HasPrefix p ''/'' then [] else ''.'')
     else Join (path_comps (Clean p)) ''/'')"
proof -
  let ?cs = "path_comps (Clean p)"
  have cl: "clean_list (HasPrefix p ''/'') ?cs" by (rule clean_list_path_comps)
  have C: "Clean p = build_clean (HasPrefix p ''/'') ?cs"
    unfolding path_comps_Clean by (simp add: Clean_def)
  show ?thesis
  proof (cases "?cs = []")
    case True
    then show ?thesis
      using C ReplaceByte_id [OF assms] by (auto simp: NormalizePath_def Let_def build_clean_def)
  next
    case False
    note e = Join_ends_slash [OF cl False]
    have ns: "\<not> HasPrefix (Join ?cs ''/'') ''/''" by (rule Join_starts_slash [OF cl])
    from e ns have h: "Join ?cs ''/'' ! 0 \<noteq> CHR ''/''" by (cases "Join ?cs ''/''") auto
    have "Clean p = CHR ''/'' # Join ?cs ''/'' \<or> Clean p = Join ?cs ''/''"
      by (subst (1 3) C) (simp add: build_clean_def False)
    from strip_slashes [OF e(2) h e(1) this] have "NormalizePath p = Join ?cs ''/''"
      unfolding NormalizePath_def ReplaceByte_id [OF assms] Let_def .
    with False show ?thesis by simp
  qed
qed

section \<open>The builder's components\<close>

lemma add_entity_dirs_components [simp]:
  "rbComponents (add_entity_dirs b d ds) = rbComponents b \<and>
   rbToolsUsed (add_entity_dirs b d ds) = rbToolsUsed b \<and>
   rbRunPath (add_entity_dirs b d ds) = rbRunPath b"
  by (induction b d ds rule: add_entity_dirs.induct) (auto simp: Let_def)

lemma AddEntity_components [simp]:
  "rbComponents (AddEntity b p) = rbComponents b"
  "rbToolsUsed (AddEntity b p) = rbToolsUsed b"
  by (simp_all add: AddEntity_def)

lemma add_entity_dirs_distinct:
  "distinct (rbEntities b) \<Longrightarrow> distinct (rbEntities (add_entity_dirs b d ds))"
  by (induction b d ds rule: add_entity_dirs.induct) (auto simp: Let_def ContainsEntity_def)

lemma AddEntity_distinct: "distinct (rbEntities b) \<Longrightarrow> distinct (rbEntities (AddEntity b p))"
  by (simp add: AddEntity_def add_entity_dirs_distinct)

text \<open>The entries of a path in a list of components, with their pending flags.\<close>

definition flags_at :: "string \<Rightarrow> RunBuilder \<Rightarrow> bool list" where
  "flags_at p b = map bcPending (filter (\<lambda>c. bcPath c = p) (rbComponents b))"

text \<open>Clearing replaces the first pending flag, removing drops the first flag.\<close>

fun clear_flag :: "bool list \<Rightarrow> bool list" where
  "clear_flag [] = []"
| "clear_flag (f # fs) = (if f then False # fs else f # clear_flag fs)"

lemma filter_clear_first:
  "map bcPending (filter (\<lambda>c. bcPath c = p) (clear_first q cs)) =
     (if p = q then clear_flag (map bcPending (filter (\<lambda>c. bcPath c = p) cs))
      else map bcPending (filter (\<lambda>c. bcPath c = p) cs))"
  by (induction cs) auto

lemma filter_remove_first:
  "filter (\<lambda>c. bcPath c = p) (remove_first q cs) =
     (if p = q then tl (filter (\<lambda>c. bcPath c = p) cs) else filter (\<lambda>c. bcPath c = p) cs)"
  by (induction cs) auto

lemma flags_at_addComponent [simp]:
  "flags_at p (addComponent b ct q pend) = flags_at p b @ (if p = NormalizePath q then [pend] else [])"
  by (simp add: flags_at_def addComponent_def Let_def)

lemma flags_at_ClearPending [simp]:
  "flags_at p (ClearPending b q) = (if p = NormalizePath q then clear_flag (flags_at p b) else flags_at p b)"
  by (simp add: flags_at_def ClearPending_def filter_clear_first)

lemma flags_at_RemoveComponent [simp]:
  "flags_at p (RemoveComponent b q) = (if p = NormalizePath q then tl (flags_at p b) else flags_at p b)"
  by (simp add: flags_at_def RemoveComponent_def filter_remove_first map_tl)

lemma flags_at_AddToolOutput [simp]: "flags_at p (AddToolOutput b t v i) = flags_at p b"
  by (simp add: flags_at_def AddToolOutput_def)

lemma IsComponentPending_flags:
  "IsComponentPending b p = (case flags_at (NormalizePath p) b of [] \<Rightarrow> False | f # _ \<Rightarrow> f)"
proof -
  have "(case find (\<lambda>c. bcPath c = q) cs of None \<Rightarrow> False | Some c \<Rightarrow> bcPending c) =
      (case map bcPending (filter (\<lambda>c. bcPath c = q) cs) of [] \<Rightarrow> False | f # _ \<Rightarrow> f)" for q cs
    by (induction cs) auto
  then show ?thesis by (simp add: IsComponentPending_def flags_at_def)
qed

text \<open>
  The life of one transfer's entry: on a path with no other entry, adding it as pending makes
  it pending, clearing makes it a complete entry, and removing it, complete or pending, leaves
  none; the entries of every other path are untouched.
\<close>

theorem pending_lifecycle:
  assumes "flags_at (NormalizePath p) b = []"
  shows "IsComponentPending (addComponent b ct p True) p \<and>
    flags_at (NormalizePath p) (ClearPending (addComponent b ct p True) p) = [False] \<and>
    flags_at (NormalizePath p) (RemoveComponent (addComponent b ct p pend) p) = [] \<and>
    (\<forall>q. q \<noteq> NormalizePath p \<longrightarrow>
      flags_at q (ClearPending (addComponent b ct p True) p) = flags_at q b \<and>
      flags_at q (RemoveComponent (addComponent b ct p pend) p) = flags_at q b)"
  using assms by (simp add: IsComponentPending_flags)

definition example_builder :: RunBuilder where
  "example_builder =
     \<lparr>rbRunID = ''r1'', rbBasePath = ''/runs'', rbRunPath = ''/runs/r1'', rbEntities = [],
      rbComponents = [], rbToolsUsed = []\<rparr>"

definition example_type :: ComponentType where
  "example_type = \<lparr>ctName = ''csv'', SchemaVersion = ''1.0''\<rparr>"

theorem pending_lifecycle_witness:
  "IsComponentPending (addComponent example_builder example_type ''tool/a/0/x.csv'' True) ''tool/a/0/x.csv''"
proof -
  have "flags_at (NormalizePath ''tool/a/0/x.csv'') example_builder = []"
    by (simp add: flags_at_def example_builder_def)
  from pending_lifecycle [OF this] show ?thesis by blast
qed

text \<open>
  When two requests share a manifest path, the first completing and the second failing leaves
  the path with an entry that is pending although no transfer is left: the removal deletes the
  first entry of the path, which is the completed one.
\<close>

theorem duplicate_path_leaves_pending:
  assumes "flags_at (NormalizePath p) b = []"
  shows "flags_at (NormalizePath p)
    (RemoveComponent (ClearPending (addComponent (addComponent b ct p True) ct' p True) p) p) = [True]"
  using assms by simp

theorem duplicate_path_leaves_pending_witness:
  "flags_at (NormalizePath ''x'')
     (RemoveComponent (ClearPending (addComponent (addComponent example_builder example_type ''x'' True)
        example_type ''x'' True) ''x'') ''x'') = [True]"
  by (rule duplicate_path_leaves_pending) (simp add: flags_at_def example_builder_def)

section \<open>The updater keeps builder and file together\<close>

definition updater_inv :: "Updater \<Rightarrow> bool" where
  "updater_inv u = (uDisk u = buildManifest (uBuilder u) \<and> distinct (rbEntities (uBuilder u)))"

lemma rbEntities_addComponent: "rbEntities (addComponent b ct p pend) = rbEntities (AddEntity b (split_dir (NormalizePath p)))"
  by (simp add: addComponent_def Let_def)

lemma updater_mutation_distinct:
  "distinct (rbEntities b) \<Longrightarrow> distinct (rbEntities (updater_mutation op b))"
  by (cases op)
    (simp_all add: rbEntities_addComponent AddEntity_distinct AddToolOutput_def ClearPending_def RemoveComponent_def)

lemma updater_exec_inv: "updater_inv u \<Longrightarrow> updater_inv (snd (updater_exec w op u))"
  by (auto simp: updater_inv_def updater_exec_def update_def Let_def updater_mutation_distinct)

interpretation updater: exec_system "\<lambda>(w, op) u. snd (updater_exec w op u)" "\<lambda>_. True" updater_inv
  by unfold_locales (auto intro: updater_exec_inv)

lemma updater_run_foldl: "updater_run ops u = foldl (\<lambda>u (w, op). snd (updater_exec w op u)) u ops"
  by (induction ops u rule: updater_run.induct) auto

text \<open>
  C12. Whatever operations run and whichever of their writes fail, the manifest on disk is the
  manifest of the builder in memory, and no entity is recorded twice.
\<close>

theorem updater_run_inv: "updater_inv u \<Longrightarrow> updater_inv (updater_run ops u)"
  using updater.run_invar [of ops u] by (simp add: updater_run_foldl list_all_iff case_prod_unfold)

theorem updater_run_inv_witness:
  "updater_inv (updater_run
     [(\<lambda>b. True, UAddPendingComponent ''log/a.txt'' example_type), (\<lambda>b. False, UClearPending ''log/a.txt'')]
     \<lparr>uBuilder = example_builder, uDisk = buildManifest example_builder\<rparr>)"
  by (rule updater_run_inv) (simp add: updater_inv_def example_builder_def)

text \<open>
  The manifest seen as a map from paths to the pending flags of the entries at that path, and what
  each operation promises on it.
\<close>

definition entry_flags :: "Manifest \<Rightarrow> string \<Rightarrow> bool list" where
  "entry_flags m p = map mePending (filter (\<lambda>e. mePath e = p) (Entries m))"

fun spec_step :: "updater_op \<Rightarrow> (string \<Rightarrow> bool list) \<Rightarrow> (string \<Rightarrow> bool list)" where
  "spec_step (UAddPendingComponent p ct) M = M(NormalizePath p := M (NormalizePath p) @ [True])"
| "spec_step (UAddComponent p ct) M = M(NormalizePath p := M (NormalizePath p) @ [False])"
| "spec_step (UAddToolOutput t v i) M = M"
| "spec_step (UClearPending p) M = M(NormalizePath p := clear_flag (M (NormalizePath p)))"
| "spec_step (URemoveComponent p) M = M(NormalizePath p := tl (M (NormalizePath p)))"
| "spec_step (URemovePendingComponent p) M =
     M(NormalizePath p := (case M (NormalizePath p) of True # fs \<Rightarrow> fs | fs \<Rightarrow> fs))"

lemma entry_flags_buildManifest: "entry_flags (buildManifest b) p = flags_at p b"
  by (simp add: entry_flags_def buildManifest_def flags_at_def filter_map o_def)

lemma flags_at_mutation: "flags_at q (updater_mutation op b) = spec_step op (\<lambda>p. flags_at p b) q"
  by (cases op) (auto simp: IsComponentPending_flags split: list.splits bool.splits)

text \<open>
  C11. Refinement: on the manifest file, a successful operation of the updater is the operation on
  the map from paths to pending flags; a failed or empty one leaves the map as it was.
\<close>

theorem updater_refines:
  assumes "updater_inv u" and "updater_exec w op u = (ok, u')"
  shows "entry_flags (uDisk u') =
    (if ok \<and> \<not> updater_noop op then spec_step op (entry_flags (uDisk u)) else entry_flags (uDisk u))"
proof -
  have "entry_flags (buildManifest (updater_mutation op b)) = spec_step op (entry_flags (buildManifest b))" for b
    unfolding entry_flags_buildManifest [abs_def] by (rule ext) (simp add: flags_at_mutation)
  with assms show ?thesis
    by (auto simp: updater_inv_def updater_exec_def update_def Let_def split: if_splits)
qed

theorem updater_refines_witness:
  "let u = \<lparr>uBuilder = example_builder, uDisk = buildManifest example_builder\<rparr>;
       op = UAddPendingComponent ''a'' example_type
   in entry_flags (uDisk (snd (updater_exec (\<lambda>b. True) op u))) = spec_step op (entry_flags (uDisk u))"
  using updater_refines [of "\<lparr>uBuilder = example_builder, uDisk = buildManifest example_builder\<rparr>"
      "\<lambda>b. True" "UAddPendingComponent ''a'' example_type"]
  by (simp add: updater_inv_def updater_exec_def update_def Let_def) (simp add: example_builder_def)

end
