(* ===== verification/Migrations.thy ===== *)
theory Migrations
  imports Manifest Semver
begin

text \<open>
  Path migrations (core/apap-engine/cdf/migrations.go): how the path of an artifact in today's
  layout is rewritten, newest migration first, to the path an older run stored it under.

  \<open>sort.Sort\<close> is not stable, so the order of migrations of equal version is not determined: the
  sorting function is a parameter of \<open>MigratePath\<close> and \<open>MigrateToolName\<close>, and the theorems hold
  for every order. \<open>insertion_sort_desc\<close>, which is what \<open>sort.Sort\<close> does on at most twelve
  elements, instantiates it.
\<close>

datatype PathMigration =
    ToolNameMigration (mFrom: string) (mTo: string) (mVer: SemVer)
  | ToolPathSuffixMigration (mFrom: string) (mVer: SemVer) (OldSuffix: string) (NewSuffix: string)
  | ToolInvocationMigration (mFrom: string) (mVer: SemVer)

definition migLess :: "PathMigration \<Rightarrow> PathMigration \<Rightarrow> bool" where
  "migLess a b = (Cmp (mVer b) (mVer a) < 0)"

record PathParts =
  ppTool :: string
  ppInvocation :: string
  ppSuffix :: string

definition parsePathParts :: "string \<Rightarrow> PathParts option" where
  "parsePathParts p =
     (if \<not> HasPrefix p ''tool/'' then None
      else
        let parts = SplitN (drop 5 p) (CHR ''/'') 3; name = parts ! 0 in
        if length parts = 1 then Some \<lparr>ppTool = name, ppInvocation = [], ppSuffix = []\<rparr>
        else if length parts = 2 then
          (if Atoi (parts ! 1) \<noteq> None
           then Some \<lparr>ppTool = name, ppInvocation = parts ! 1, ppSuffix = []\<rparr>
           else Some \<lparr>ppTool = name, ppInvocation = [], ppSuffix = parts ! 1\<rparr>)
        else if length parts = 3 then
          (if Atoi (parts ! 1) = None then None
           else Some \<lparr>ppTool = name, ppInvocation = parts ! 1, ppSuffix = parts ! 2\<rparr>)
        else None)"

definition parseMissingInvocationPathParts :: "string \<Rightarrow> PathParts option" where
  "parseMissingInvocationPathParts p =
     (if \<not> HasPrefix p ''tool/'' then None
      else
        let parts = SplitN (drop 5 p) (CHR ''/'') 2; name = parts ! 0;
            suffix = (if length parts = 2 then parts ! 1 else [])
        in Some \<lparr>ppTool = name, ppInvocation = [], ppSuffix = suffix\<rparr>)"

definition buildPath :: "PathParts \<Rightarrow> string" where
  "buildPath pp =
     (let base = ''tool/'' @ ppTool pp;
          base = (if ppInvocation pp \<noteq> [] then base @ ''/'' @ ppInvocation pp else base)
      in if ppSuffix pp \<noteq> [] then base @ ''/'' @ ppSuffix pp else base)"

text \<open>The second switch of \<open>rewriteViaMigration\<close>.\<close>

fun apply_migration :: "PathParts \<Rightarrow> PathMigration \<Rightarrow> string option" where
  "apply_migration parts (ToolInvocationMigration from ver) =
     (if ppTool parts \<noteq> from \<or> ppInvocation parts \<noteq> ''0'' then None
      else Some (buildPath (parts\<lparr>ppInvocation := []\<rparr>)))"
| "apply_migration parts (ToolNameMigration from to ver) =
     (if ppTool parts \<noteq> to then None else Some (buildPath (parts\<lparr>ppTool := from\<rparr>)))"
| "apply_migration parts (ToolPathSuffixMigration from ver old new) =
     (if ppTool parts \<noteq> from then None
      else if \<not> HasPrefix (ppSuffix parts) new then None
      else Some (buildPath (parts\<lparr>ppSuffix := old @ drop (length new) (ppSuffix parts)\<rparr>)))"

fun is_invocation_migration :: "PathMigration \<Rightarrow> bool" where
  "is_invocation_migration (ToolInvocationMigration from ver) = True"
| "is_invocation_migration _ = False"

definition rewriteViaMigration :: "string \<Rightarrow> PathMigration \<Rightarrow> string option" where
  "rewriteViaMigration path mig =
     (case parsePathParts path of
        Some parts \<Rightarrow> apply_migration parts mig
      | None \<Rightarrow>
          (if is_invocation_migration mig then None
           else case parseMissingInvocationPathParts path of
                  None \<Rightarrow> None
                | Some parts \<Rightarrow> apply_migration parts mig))"

datatype migrate_error = MigrationCycle string string

text \<open>The loop of \<open>MigratePath\<close>: \<open>seen\<close> holds the paths met so far.\<close>

fun migrate_loop :: "PathMigration list \<Rightarrow> string list \<Rightarrow> string \<Rightarrow> migrate_error + string" where
  "migrate_loop [] seen current = Inr current"
| "migrate_loop (pm # pms) seen current =
     (case rewriteViaMigration current pm of
        None \<Rightarrow> migrate_loop pms seen current
      | Some cand \<Rightarrow>
          (if cand = current then migrate_loop pms seen current
           else if cand \<in> set seen then Inl (MigrationCycle current cand)
           else migrate_loop pms (cand # seen) cand))"

text \<open>\<open>Inr None\<close> is \<open>("", false, nil)\<close>, \<open>Inr (Some p)\<close> is \<open>(p, true, nil)\<close>.\<close>

definition MigratePath ::
  "(PathMigration list \<Rightarrow> PathMigration list) \<Rightarrow> string \<Rightarrow> PathMigration list \<Rightarrow> migrate_error + string option" where
  "MigratePath srt original ms =
     (let norm = NormalizePath original in
      case migrate_loop (srt ms) [norm] norm of
        Inl e \<Rightarrow> Inl e
      | Inr current \<Rightarrow> if current \<noteq> norm then Inr (Some current) else Inr None)"

fun tool_name_loop :: "PathMigration list \<Rightarrow> string list \<Rightarrow> string \<Rightarrow> migrate_error + string" where
  "tool_name_loop [] seen current = Inr current"
| "tool_name_loop (pm # pms) seen current =
     (case pm of
        ToolNameMigration from to ver \<Rightarrow>
          (if current \<noteq> to \<or> current = from then tool_name_loop pms seen current
           else if from \<in> set seen then Inl (MigrationCycle current from)
           else tool_name_loop pms (from # seen) from)
      | _ \<Rightarrow> tool_name_loop pms seen current)"

definition MigrateToolName ::
  "(PathMigration list \<Rightarrow> PathMigration list) \<Rightarrow> string \<Rightarrow> PathMigration list \<Rightarrow> migrate_error + string option" where
  "MigrateToolName srt toolName ms =
     (case tool_name_loop (srt ms) [toolName] toolName of
        Inl e \<Rightarrow> Inl e
      | Inr current \<Rightarrow> if current \<noteq> toolName then Inr (Some current) else Inr None)"

fun insert_desc :: "PathMigration \<Rightarrow> PathMigration list \<Rightarrow> PathMigration list" where
  "insert_desc x [] = [x]"
| "insert_desc x (y # ys) = (if migLess x y then x # y # ys else y # insert_desc x ys)"

definition insertion_sort_desc :: "PathMigration list \<Rightarrow> PathMigration list" where
  "insertion_sort_desc ms = fold insert_desc ms []"

section \<open>Parsing and building tool paths\<close>

lemma Join3: "Join [a, b, c] sep = a @ sep @ b @ sep @ c"
  by simp

lemma parts_cases:
  assumes "length (xs :: 'a list) \<le> 3" "xs \<noteq> []"
  obtains a where "xs = [a]" | a b where "xs = [a, b]" | a b c where "xs = [a, b, c]"
  using assms by (cases xs; cases "tl xs"; cases "tl (tl xs)"; cases "tl (tl (tl xs))") auto

text \<open>
  Round trip: a path that does not end in a separator is rebuilt unchanged from its parsed
  parts.
\<close>

theorem buildPath_parsePathParts:
  assumes "parsePathParts p = Some pp" "last p \<noteq> CHR ''/''"
  shows "buildPath pp = p"
proof -
  from assms(1) obtain r where p: "p = ''tool/'' @ r"
    by (auto simp: parsePathParts_def split: if_splits)
  let ?ps = "SplitN r (CHR ''/'') (Suc (Suc (Suc 0)))"
  have j: "Join ?ps ''/'' = r" by simp
  have r: "r \<noteq> [] \<longrightarrow> last r \<noteq> CHR ''/''" "r \<noteq> []"
    using assms(2) p by auto
  from assms(1) p have pp: "parsePathParts (''tool/'' @ r) = Some pp" by simp
  show ?thesis
  proof (rule parts_cases [of ?ps])
    fix a assume "?ps = [a]"
    with pp j p show ?thesis by (auto simp: parsePathParts_def buildPath_def Let_def numeral_3_eq_3)
  next
    fix a b assume "?ps = [a, b]"
    moreover from this j r have "b \<noteq> []" by auto
    ultimately show ?thesis using pp j p
      by (auto simp: parsePathParts_def buildPath_def Let_def numeral_3_eq_3 split: if_splits)
  next
    fix a b c assume "?ps = [a, b, c]"
    moreover from this j r have "c \<noteq> []" by auto
    moreover have "Atoi [] = None" by (simp add: ParseInt_def)
    ultimately show ?thesis using pp j p
      by (auto simp: parsePathParts_def buildPath_def Let_def numeral_3_eq_3 split: if_splits)
  qed (use length_SplitN [of r _ 3] in \<open>simp_all add: numeral_3_eq_3\<close>)
qed

theorem buildPath_parsePathParts_witness:
  "buildPath \<lparr>ppTool = ''instruction_mix'', ppInvocation = ''0'', ppSuffix = ''output/a.csv''\<rparr>
     = ''tool/instruction_mix/0/output/a.csv''"
  by (rule buildPath_parsePathParts) (code_simp, simp)

section \<open>The chain of rewrites\<close>

lemma migrate_loop_chain:
  "migrate_loop pms seen cur = Inr q \<Longrightarrow> cur \<in> set seen \<Longrightarrow>
     \<exists>ch. successively (\<lambda>a b. \<exists>m\<in>set pms. rewriteViaMigration a m = Some b) (cur # ch) \<and>
       last (cur # ch) = q \<and> distinct ch \<and> set ch \<inter> set seen = {}"
proof (induction pms seen cur rule: migrate_loop.induct)
  case (1 seen current)
  then show ?case by (intro exI [of _ "[]"]) simp
next
  case (2 pm pms seen current)
  let ?R = "\<lambda>ms a b. \<exists>m\<in>set ms. rewriteViaMigration a m = Some b"
  have mono: "successively (?R pms) xs \<Longrightarrow> successively (?R (pm # pms)) xs" for xs
    by (erule successively_mono) auto
  show ?case
  proof (cases "\<exists>cand. rewriteViaMigration current pm = Some cand \<and> cand \<noteq> current")
    case False
    then have "migrate_loop pms seen current = Inr q"
      using "2.prems"(1) by (auto split: option.splits if_splits)
    with False "2.IH"(1,2) "2.prems"(2) obtain ch where
      "successively (?R pms) (current # ch)" "last (current # ch) = q" "distinct ch" "set ch \<inter> set seen = {}"
      by (cases "rewriteViaMigration current pm") fastforce+
    with mono show ?thesis by blast
  next
    case True
    then obtain cand where c: "rewriteViaMigration current pm = Some cand" "cand \<noteq> current" by blast
    with "2.prems"(1) have n: "cand \<notin> set seen" "migrate_loop pms (cand # seen) cand = Inr q"
      by (auto split: if_splits)
    with c "2.IH"(3) obtain ch where
      "successively (?R pms) (cand # ch)" "last (cand # ch) = q" "distinct ch" "set ch \<inter> set (cand # seen) = {}"
      by fastforce
    with mono c n show ?thesis by (intro exI [of _ "cand # ch"]) auto
  qed
qed

text \<open>
  A path \<open>MigratePath\<close> returns is reached from the normalised original through a chain of
  single migrations in which no path occurs twice, and it differs from the original.
\<close>

theorem MigratePath_chain:
  assumes "MigratePath srt p ms = Inr (Some q)"
  shows "\<exists>ch. hd ch = NormalizePath p \<and> last ch = q \<and> distinct ch \<and> length ch \<ge> 2 \<and>
    successively (\<lambda>a b. \<exists>m\<in>set (srt ms). rewriteViaMigration a m = Some b) ch"
proof -
  let ?n = "NormalizePath p"
  from assms have L: "migrate_loop (srt ms) [?n] ?n = Inr q" and "q \<noteq> ?n"
    by (auto simp: MigratePath_def Let_def split: sum.splits if_splits)
  with migrate_loop_chain [OF L] obtain ch where
    "successively (\<lambda>a b. \<exists>m\<in>set (srt ms). rewriteViaMigration a m = Some b) (?n # ch)"
    "last (?n # ch) = q" "distinct ch" "?n \<notin> set ch" by auto
  with \<open>q \<noteq> ?n\<close> show ?thesis by (intro exI [of _ "?n # ch"]) (cases ch; auto)
qed

theorem MigratePath_chain_witness:
  "\<exists>ch. hd ch = NormalizePath ''tool/b/0/x'' \<and> last ch = ''tool/a/0/x'' \<and> distinct ch \<and> length ch \<ge> 2 \<and>
    successively (\<lambda>a b. \<exists>m\<in>set (insertion_sort_desc [ToolNameMigration ''a'' ''b'' (SemVer 1 0 0)]).
      rewriteViaMigration a m = Some b) ch"
  by (rule MigratePath_chain) code_simp

section \<open>Tool names and tool paths\<close>

lemma ParseInt_no_slash: "ParseInt w s = Some k \<Longrightarrow> CHR ''/'' \<notin> set s \<and> s \<noteq> []"
proof -
  assume "ParseInt w s = Some k"
  then have "list_all is_digit (if HasPrefix s ''-'' \<or> HasPrefix s ''+'' then drop 1 s else s)"
    and "s \<noteq> []"
    by (auto simp: ParseInt_def Let_def split: if_splits)
  then show ?thesis
    by (cases s) (auto simp: list_all_iff is_digit_def split: if_splits)
qed

definition full_path :: "string \<Rightarrow> string \<Rightarrow> string \<Rightarrow> string" where
  "full_path ivc suf name = ''tool/'' @ name @ ''/'' @ ivc @ ''/'' @ suf"

lemma full_path_inject [simp]: "full_path ivc suf a = full_path ivc suf b \<longleftrightarrow> a = b"
  by (simp add: full_path_def)

lemma parsePathParts_full:
  assumes "CHR ''/'' \<notin> set n" "Atoi ivc = Some k"
  shows "parsePathParts (full_path ivc suf n) = Some \<lparr>ppTool = n, ppInvocation = ivc, ppSuffix = suf\<rparr>"
proof -
  have "SplitN (n @ CHR ''/'' # ivc @ CHR ''/'' # suf) (CHR ''/'') (Suc (Suc (Suc 0))) = [n, ivc, suf]"
    using assms ParseInt_no_slash [OF assms(2)] by (simp add: SplitN_append_sep)
  with assms(2) show ?thesis
    by (simp add: parsePathParts_def full_path_def Let_def numeral_3_eq_3)
qed

lemma rewrite_full:
  assumes "CHR ''/'' \<notin> set n" "Atoi ivc = Some k" "suf \<noteq> []"
  shows "rewriteViaMigration (full_path ivc suf n) (ToolNameMigration f t v) =
    (if n = t then Some (full_path ivc suf f) else None)"
  using assms ParseInt_no_slash [OF assms(2)]
  by (simp add: rewriteViaMigration_def parsePathParts_full) (simp add: buildPath_def full_path_def)

fun slash_free_name_migration :: "PathMigration \<Rightarrow> bool" where
  "slash_free_name_migration (ToolNameMigration f t v) = (CHR ''/'' \<notin> set f)"
| "slash_free_name_migration _ = False"

fun lift_cycle :: "(string \<Rightarrow> string) \<Rightarrow> migrate_error \<Rightarrow> migrate_error" where
  "lift_cycle P (MigrationCycle a b) = MigrationCycle (P a) (P b)"

lemma migrate_loop_tool_name:
  assumes "Atoi ivc = Some k" "suf \<noteq> []"
  shows "list_all slash_free_name_migration ms \<Longrightarrow> CHR ''/'' \<notin> set n \<Longrightarrow>
    migrate_loop ms (map (full_path ivc suf) seen) (full_path ivc suf n) =
      map_sum (lift_cycle (full_path ivc suf)) (full_path ivc suf) (tool_name_loop ms seen n)"
proof (induction ms arbitrary: seen n)
  case (Cons m ms)
  then obtain f t v where m: "m = ToolNameMigration f t v" "CHR ''/'' \<notin> set f"
    by (cases m) auto
  have mem: "full_path ivc suf f \<in> full_path ivc suf ` set seen \<longleftrightarrow> f \<in> set seen" by auto
  show ?case
    using Cons m Cons.IH [of f "f # seen"] by (auto simp: rewrite_full [OF _ assms] mem)
qed simp

text \<open>
  C21. \<open>MigratePath\<close> and \<open>MigrateToolName\<close> agree: under renames of tool directories, the artifact
  path of a tool in today's layout migrates exactly when the tool's name does, to the same file
  under the migrated name, and meets a cycle exactly when the name does.
\<close>

theorem MigratePath_MigrateToolName:
  assumes "set (srt ms) = set ms" "list_all slash_free_name_migration ms"
    and "CHR ''/'' \<notin> set n" "Atoi ivc = Some k" "suf \<noteq> []"
    and "NormalizePath (full_path ivc suf n) = full_path ivc suf n"
  shows "MigratePath srt (full_path ivc suf n) ms =
    map_sum (lift_cycle (full_path ivc suf)) (map_option (full_path ivc suf)) (MigrateToolName srt n ms)"
proof -
  have "list_all slash_free_name_migration (srt ms)"
    using assms(1,2) by (simp add: list_all_iff)
  from migrate_loop_tool_name [OF assms(4,5) this assms(3), of "[n]"] show ?thesis
    by (simp add: MigratePath_def MigrateToolName_def assms(6) split: sum.splits)
qed

theorem MigratePath_MigrateToolName_witness:
  "MigratePath (\<lambda>x. x) (full_path ''0'' ''out.csv'' ''b'') [ToolNameMigration ''a'' ''b'' (SemVer 1 0 0)] =
    map_sum (lift_cycle (full_path ''0'' ''out.csv'')) (map_option (full_path ''0'' ''out.csv''))
      (MigrateToolName (\<lambda>x. x) ''b'' [ToolNameMigration ''a'' ''b'' (SemVer 1 0 0)])"
proof (rule MigratePath_MigrateToolName)
  show "Atoi ''0'' = Some 0" by code_simp
  show "NormalizePath (full_path ''0'' ''out.csv'' ''b'') = full_path ''0'' ''out.csv'' ''b''" by code_simp
qed simp_all

end
