(* ===== verification/Model.thy ===== *)
theory Model
  imports Migrations
begin

text \<open>
  The model of a run on disk (core/apap-engine/cdf/model.go and the part of migrations.go on
  models): resolution of a component path through the manifest and the migrations, resolution by
  manifest pattern, the type- and version-checked variants, and the listings.

  Code outside the repository is a parameter, gathered in the record \<open>env\<close>: the glob matcher
  \<open>doublestar.Match\<close> (\<open>None\<close> is its bad-pattern error), the file system (\<open>Stat\<close>, \<open>ReadDir\<close>, the
  visits of \<open>Walk\<close>) and the two uses of \<open>package sort\<close>, whose order of equal elements is not
  determined. A path that is rejected with an error carries no component here; the callers ignore
  the partly filled component the Go code returns beside that error.
\<close>

datatype fs_error = NotExist | OtherFsError

datatype file_kind = RegularFile | Directory

datatype model_error =
    ErrComponentNotFound string
  | ErrComponentPending
  | MigrateFailed migrate_error
  | RelFailed
  | PathEscapes string
  | WrongComponentType string
  | BadSchemaVersion string
  | VersionNotSatisfied string
  | PatternMatchError
  | FsFailure fs_error
  | Wrapped model_error

fun is_not_found :: "model_error \<Rightarrow> bool" where
  "is_not_found (ErrComponentNotFound p) = True"
| "is_not_found (Wrapped e) = is_not_found e"
| "is_not_found _ = False"

fun isNotExist :: "model_error \<Rightarrow> bool" where
  "isNotExist (FsFailure NotExist) = True"
| "isNotExist (Wrapped e) = isNotExist e"
| "isNotExist _ = False"

record env =
  glob_match :: "string \<Rightarrow> string \<Rightarrow> bool option"
  fs_stat :: "string \<Rightarrow> fs_error + file_kind"
  fs_readdir :: "string \<Rightarrow> fs_error + (string \<times> file_kind) list"
  fs_walk :: "string \<Rightarrow> (string \<times> (fs_error + file_kind)) list"
  sort_migrations :: "PathMigration list \<Rightarrow> PathMigration list"
  sort_components :: "Component list \<Rightarrow> Component list"

record OnDiskModel =
  basePath :: string
  manifest :: Manifest
  migrations :: "PathMigration list"

definition NewOnDiskModel :: "string \<Rightarrow> Manifest option \<Rightarrow> OnDiskModel" where
  "NewOnDiskModel base mf =
     \<lparr>basePath = base,
      manifest = (case mf of None \<Rightarrow> \<lparr>Entries = [], ToolsUsed = []\<rparr> | Some m \<Rightarrow> m),
      migrations = []\<rparr>"

definition unknownComponentType :: ComponentType where
  "unknownComponentType = \<lparr>ctName = ''unknown'', SchemaVersion = ''''\<rparr>"

definition migratePath :: "env \<Rightarrow> OnDiskModel \<Rightarrow> string \<Rightarrow> migrate_error + string option" where
  "migratePath E m original = MigratePath (sort_migrations E) original (migrations m)"

definition resolveModelPath :: "OnDiskModel \<Rightarrow> string \<Rightarrow> model_error + string" where
  "resolveModelPath m path =
     (let base = Clean (basePath m);
          resolvedPath = PathJoin base path
      in case Rel base resolvedPath of
           None \<Rightarrow> Inl RelFailed
         | Some rel \<Rightarrow>
             (if rel = ''..'' \<or> HasPrefix rel ''../'' \<or> IsAbs rel then Inl (PathEscapes path)
              else Inr resolvedPath))"

text \<open>The code after the label \<open>FOUND\<close> of \<open>ResolveComponent\<close>.\<close>

definition resolve_found :: "env \<Rightarrow> OnDiskModel \<Rightarrow> ManifestEntry \<Rightarrow> model_error + Component" where
  "resolve_found E m entry =
     (if mePending entry then Inl ErrComponentPending
      else if list_ex (\<lambda>e. glob_match E (mePath entry) (mePath e) = Some True \<and> mePending e)
                (Entries (manifest m)) then Inl ErrComponentPending
      else case resolveModelPath m (mePath entry) of
             Inl e \<Rightarrow> Inl e
           | Inr absolute \<Rightarrow>
               Inr \<lparr>cType = meType entry, cRelativePath = mePath entry, cAbsolutePath = absolute\<rparr>)"

text \<open>The code between the lookups and that label: a file without a manifest entry.\<close>

definition resolve_on_disk :: "env \<Rightarrow> OnDiskModel \<Rightarrow> string \<Rightarrow> model_error + Component" where
  "resolve_on_disk E m normalized =
     (case resolveModelPath m normalized of
        Inl e \<Rightarrow> Inl e
      | Inr absolute \<Rightarrow>
          (if fs_stat E absolute = Inr RegularFile
           then Inr \<lparr>cType = unknownComponentType, cRelativePath = normalized, cAbsolutePath = absolute\<rparr>
           else Inl (ErrComponentNotFound normalized)))"

definition ResolveComponent :: "env \<Rightarrow> OnDiskModel \<Rightarrow> string \<Rightarrow> model_error + Component" where
  "ResolveComponent E m componentPath =
     (let normalized = NormalizePath componentPath in
      case Lookup (manifest m) normalized of
        Some entry \<Rightarrow> resolve_found E m entry
      | None \<Rightarrow>
          (case migratePath E m normalized of
             Inl e \<Rightarrow> Inl (MigrateFailed e)
           | Inr None \<Rightarrow> resolve_on_disk E m normalized
           | Inr (Some rewrote) \<Rightarrow>
               (case Lookup (manifest m) rewrote of
                  Some entry \<Rightarrow> resolve_found E m entry
                | None \<Rightarrow> resolve_on_disk E m rewrote)))"

definition ResolveComponentExpectType ::
  "env \<Rightarrow> OnDiskModel \<Rightarrow> string \<Rightarrow> ComponentType \<Rightarrow> model_error + Component" where
  "ResolveComponentExpectType E m p expected =
     (case ResolveComponent E m p of
        Inl e \<Rightarrow> Inl e
      | Inr c \<Rightarrow> if cType c \<noteq> expected then Inl (WrongComponentType p) else Inr c)"

definition ResolveComponentExpectTypes ::
  "env \<Rightarrow> OnDiskModel \<Rightarrow> string \<Rightarrow> ComponentType list \<Rightarrow> model_error + Component" where
  "ResolveComponentExpectTypes E m p expecteds =
     (case ResolveComponent E m p of
        Inl e \<Rightarrow> Inl e
      | Inr c \<Rightarrow> if list_ex (\<lambda>t. cType c = t) expecteds then Inr c else Inl (WrongComponentType p))"

text \<open>The loop over the manifest entries of \<open>ResolveComponentByManifestPattern\<close>.\<close>

fun pattern_loop :: "env \<Rightarrow> OnDiskModel \<Rightarrow> string \<Rightarrow> ManifestEntry list \<Rightarrow> (model_error + Component) option" where
  "pattern_loop E m want [] = None"
| "pattern_loop E m want (e # es) =
     (case glob_match E (mePath e) want of
        None \<Rightarrow> Some (Inl PatternMatchError)
      | Some False \<Rightarrow> pattern_loop E m want es
      | Some True \<Rightarrow>
          Some (if mePending e then Inl ErrComponentPending
                else case resolveModelPath m want of
                       Inl err \<Rightarrow> Inl err
                     | Inr absp \<Rightarrow>
                         Inr \<lparr>cType = meType e, cRelativePath = mePath e, cAbsolutePath = absp\<rparr>))"

definition ResolveComponentByManifestPattern :: "env \<Rightarrow> OnDiskModel \<Rightarrow> string \<Rightarrow> model_error + Component" where
  "ResolveComponentByManifestPattern E m componentPath =
     (let want = NormalizePath componentPath; entries = Entries (manifest m) in
      case pattern_loop E m want entries of
        Some r \<Rightarrow> r
      | None \<Rightarrow>
          (case migratePath E m want of
             Inl e \<Rightarrow> Inl (MigrateFailed e)
           | Inr None \<Rightarrow> Inl (ErrComponentNotFound componentPath)
           | Inr (Some rewrote) \<Rightarrow>
               (case pattern_loop E m rewrote entries of
                  Some r \<Rightarrow> r
                | None \<Rightarrow> Inl (ErrComponentNotFound componentPath))))"

text \<open>The type and version checks shared by the two \<open>...ExpectTypeV\<close> methods.\<close>

definition check_version :: "string \<Rightarrow> VersionRange \<Rightarrow> Component \<Rightarrow> model_error + (Component \<times> SemVer)" where
  "check_version p vr c =
     (case ParseSemVer (SchemaVersion (cType c)) of
        Inl e \<Rightarrow> Inl (BadSchemaVersion p)
      | Inr sv \<Rightarrow> if \<not> InRange sv vr then Inl (VersionNotSatisfied p) else Inr (c, sv))"

definition ResolveComponentExpectTypeV ::
  "env \<Rightarrow> OnDiskModel \<Rightarrow> string \<Rightarrow> string \<Rightarrow> VersionRange \<Rightarrow> model_error + (Component \<times> SemVer)" where
  "ResolveComponentExpectTypeV E m p typeName vr =
     (case ResolveComponent E m p of
        Inl e \<Rightarrow> Inl e
      | Inr c \<Rightarrow>
          (if ctName (cType c) \<noteq> typeName then Inl (WrongComponentType p) else check_version p vr c))"

text \<open>\<open>Inr None\<close> is \<open>(nil, nil)\<close>; the flag says that an entry of another type has matched.\<close>

fun typed_pattern_loop ::
  "env \<Rightarrow> OnDiskModel \<Rightarrow> string \<Rightarrow> string \<Rightarrow> string \<Rightarrow> bool \<Rightarrow> ManifestEntry list \<Rightarrow> model_error + Component option" where
  "typed_pattern_loop E m originalPath matchPath expected firstMatch [] =
     (if firstMatch then Inl (WrongComponentType originalPath) else Inr None)"
| "typed_pattern_loop E m originalPath matchPath expected firstMatch (e # es) =
     (case glob_match E (mePath e) matchPath of
        None \<Rightarrow> Inl PatternMatchError
      | Some False \<Rightarrow> typed_pattern_loop E m originalPath matchPath expected firstMatch es
      | Some True \<Rightarrow>
          (if ctName (meType e) = expected then
             (if mePending e then Inl ErrComponentPending
              else case resolveModelPath m matchPath of
                     Inl err \<Rightarrow> Inl err
                   | Inr absp \<Rightarrow>
                       Inr (Some \<lparr>cType = meType e, cRelativePath = mePath e, cAbsolutePath = absp\<rparr>))
           else typed_pattern_loop E m originalPath matchPath expected True es))"

definition findManifestPatternComponentByType ::
  "env \<Rightarrow> OnDiskModel \<Rightarrow> string \<Rightarrow> string \<Rightarrow> string \<Rightarrow> model_error + Component option" where
  "findManifestPatternComponentByType E m originalPath matchPath expected =
     typed_pattern_loop E m originalPath matchPath expected False (Entries (manifest m))"

definition resolveComponentByManifestPatternAndType ::
  "env \<Rightarrow> OnDiskModel \<Rightarrow> string \<Rightarrow> string \<Rightarrow> model_error + Component" where
  "resolveComponentByManifestPatternAndType E m componentPath expected =
     (case findManifestPatternComponentByType E m componentPath componentPath expected of
        Inl e \<Rightarrow> Inl e
      | Inr (Some c) \<Rightarrow> Inr c
      | Inr None \<Rightarrow>
          (case migratePath E m componentPath of
             Inl e \<Rightarrow> Inl (MigrateFailed e)
           | Inr None \<Rightarrow> Inl (ErrComponentNotFound componentPath)
           | Inr (Some migratedPath) \<Rightarrow>
               (case findManifestPatternComponentByType E m componentPath migratedPath expected of
                  Inl e \<Rightarrow> Inl e
                | Inr (Some c) \<Rightarrow> Inr c
                | Inr None \<Rightarrow> Inl (ErrComponentNotFound componentPath))))"

definition ResolveComponentByPatternExpectTypeV ::
  "env \<Rightarrow> OnDiskModel \<Rightarrow> string \<Rightarrow> string \<Rightarrow> VersionRange \<Rightarrow> model_error + (Component \<times> SemVer)" where
  "ResolveComponentByPatternExpectTypeV E m p expected vr =
     (case resolveComponentByManifestPatternAndType E m (NormalizePath p) expected of
        Inl e \<Rightarrow> Inl e
      | Inr c \<Rightarrow> check_version p vr c)"

section \<open>Listings\<close>

definition normalizeGlob :: "string \<Rightarrow> string" where
  "normalizeGlob g0 =
     (let g = ReplaceByte g0 (CHR 0x5C) (CHR ''/'')
      in if length g > 0 \<and> g ! 0 = CHR ''/'' then drop 1 g else g)"

definition hasGlobMeta :: "string \<Rightarrow> bool" where
  "hasGlobMeta path = ContainsAny path ''*?[{''"

definition literalGlobPrefix :: "string \<Rightarrow> string" where
  "literalGlobPrefix g = Join (takeWhile (\<lambda>s. \<not> hasGlobMeta s) (Split g (CHR ''/''))) ''/''"

text \<open>The part of a walked path below the model, \<open>path[min(len(path), len(base)+1):]\<close>.\<close>

definition walk_subpath :: "OnDiskModel \<Rightarrow> string \<Rightarrow> string" where
  "walk_subpath m path =
     ReplaceByte (drop (min (length path) (length (basePath m) + 1)) path) (CHR 0x5C) (CHR ''/'')"

fun find_entities_walk ::
  "env \<Rightarrow> OnDiskModel \<Rightarrow> string \<Rightarrow> (string \<times> (fs_error + file_kind)) list \<Rightarrow> model_error + Entity list" where
  "find_entities_walk E m g [] = Inr []"
| "find_entities_walk E m g ((path, info) # vs) =
     (case info of
        Inl err \<Rightarrow> Inl (FsFailure err)
      | Inr RegularFile \<Rightarrow> find_entities_walk E m g vs
      | Inr Directory \<Rightarrow>
          (let subpath = walk_subpath m path in
           case glob_match E g subpath of
             None \<Rightarrow> Inl PatternMatchError
           | Some isMatch \<Rightarrow>
               (case find_entities_walk E m g vs of
                  Inl e \<Rightarrow> Inl e
                | Inr rest \<Rightarrow> Inr (if isMatch then Entity subpath # rest else rest))))"

definition FindEntities :: "env \<Rightarrow> OnDiskModel \<Rightarrow> string \<Rightarrow> model_error + Entity list" where
  "FindEntities E m g =
     (case find_entities_walk E m (normalizeGlob g) (fs_walk E (basePath m)) of
        Inl e \<Rightarrow> Inl (Wrapped e)
      | Inr es \<Rightarrow> Inr es)"

fun find_components_walk ::
  "env \<Rightarrow> OnDiskModel \<Rightarrow> string \<Rightarrow> (string \<times> (fs_error + file_kind)) list \<Rightarrow> model_error + Component list" where
  "find_components_walk E m g [] = Inr []"
| "find_components_walk E m g ((path, info) # vs) =
     (case info of
        Inl err \<Rightarrow> Inl (FsFailure err)
      | Inr Directory \<Rightarrow> find_components_walk E m g vs
      | Inr RegularFile \<Rightarrow>
          (let subpath = walk_subpath m path in
           case glob_match E g subpath of
             None \<Rightarrow> Inl PatternMatchError
           | Some False \<Rightarrow> find_components_walk E m g vs
           | Some True \<Rightarrow>
               (case ResolveComponent E m subpath of
                  Inl e \<Rightarrow> Inl (Wrapped e)
                | Inr c \<Rightarrow>
                    (case find_components_walk E m g vs of
                       Inl e \<Rightarrow> Inl e
                     | Inr rest \<Rightarrow> Inr (c # rest)))))"

definition FindComponents :: "env \<Rightarrow> OnDiskModel \<Rightarrow> string \<Rightarrow> model_error + Component list" where
  "FindComponents E m g0 =
     (let g = normalizeGlob g0 in
      if glob_match E g g = None then Inl PatternMatchError
      else if \<not> hasGlobMeta g then
        (case ResolveComponent E m g of
           Inl e \<Rightarrow> if is_not_found e then Inr [] else Inl (Wrapped e)
         | Inr c \<Rightarrow> Inr [c])
      else
        (case resolveModelPath m (literalGlobPrefix g) of
           Inl e \<Rightarrow> Inl (Wrapped e)
         | Inr searchRoot \<Rightarrow>
             (case fs_stat E searchRoot of
                Inl NotExist \<Rightarrow> Inr []
              | Inl err \<Rightarrow> Inl (Wrapped (FsFailure err))
              | Inr RegularFile \<Rightarrow> Inr []
              | Inr Directory \<Rightarrow>
                  (case find_components_walk E m g (fs_walk E searchRoot) of
                     Inl e \<Rightarrow> Inl (Wrapped e)
                   | Inr matches \<Rightarrow> Inr (sort_components E matches)))))"

fun list_components_loop ::
  "env \<Rightarrow> OnDiskModel \<Rightarrow> string \<Rightarrow> (string \<times> file_kind) list \<Rightarrow> model_error + Component list" where
  "list_components_loop E m entity [] = Inr []"
| "list_components_loop E m entity ((name, kind) # es) =
     (if kind = Directory then list_components_loop E m entity es
      else case ResolveComponent E m (PathJoin entity name) of
             Inl e \<Rightarrow> Inl (Wrapped e)
           | Inr c \<Rightarrow>
               (case list_components_loop E m entity es of
                  Inl e \<Rightarrow> Inl e
                | Inr rest \<Rightarrow> Inr (c # rest)))"

definition ListEntityComponents :: "env \<Rightarrow> OnDiskModel \<Rightarrow> Entity \<Rightarrow> model_error + Component list" where
  "ListEntityComponents E m entity =
     (case fs_readdir E (PathJoin (basePath m) (eRelativePath entity)) of
        Inl err \<Rightarrow> Inl (Wrapped (FsFailure err))
      | Inr entries \<Rightarrow> list_components_loop E m (eRelativePath entity) entries)"

definition ListEntityComponentsByTypeName ::
  "env \<Rightarrow> OnDiskModel \<Rightarrow> Entity \<Rightarrow> string \<Rightarrow> model_error + Component list" where
  "ListEntityComponentsByTypeName E m entity typeName =
     (case ListEntityComponents E m entity of
        Inl e \<Rightarrow> Inl e
      | Inr cs \<Rightarrow> Inr (filter (\<lambda>c. ctName (cType c) = typeName) cs))"

definition ListEntityComponentsMatching ::
  "env \<Rightarrow> OnDiskModel \<Rightarrow> Entity \<Rightarrow> (Component \<Rightarrow> bool) \<Rightarrow> model_error + Component list" where
  "ListEntityComponentsMatching E m entity pred =
     (case ListEntityComponents E m entity of
        Inl e \<Rightarrow> Inl e
      | Inr cs \<Rightarrow> Inr (filter pred cs))"

section \<open>Mutations of the model\<close>

definition AddToolOutputM :: "OnDiskModel \<Rightarrow> ToolUsed \<Rightarrow> OnDiskModel" where
  "AddToolOutputM m tu = m\<lparr>manifest := (manifest m)\<lparr>ToolsUsed := ToolsUsed (manifest m) @ [tu]\<rparr>\<rparr>"

definition AddEntry :: "OnDiskModel \<Rightarrow> ManifestEntry \<Rightarrow> OnDiskModel" where
  "AddEntry m e = m\<lparr>manifest := (manifest m)\<lparr>Entries := Entries (manifest m) @ [e]\<rparr>\<rparr>"

definition AddPathMigrations :: "OnDiskModel \<Rightarrow> PathMigration list \<Rightarrow> OnDiskModel" where
  "AddPathMigrations m ms = m\<lparr>migrations := migrations m @ ms\<rparr>"

definition legacy_tool :: "ManifestEntry \<Rightarrow> string option" where
  "legacy_tool e =
     (let parts = Split (mePath e) (CHR ''/'')
      in if length parts < 2 \<or> parts ! 0 \<noteq> ''tool'' then None else Some (parts ! 1))"

fun inject_loop :: "string \<Rightarrow> string list \<Rightarrow> ManifestEntry list \<Rightarrow> OnDiskModel \<Rightarrow> OnDiskModel" where
  "inject_loop v seen [] m = m"
| "inject_loop v seen (e # es) m =
     (case legacy_tool e of
        None \<Rightarrow> inject_loop v seen es m
      | Some name \<Rightarrow>
          (if name \<in> set seen then inject_loop v seen es m
           else inject_loop v (name # seen) es
                  (AddToolOutputM m \<lparr>tuTool = name, tuVersion = v, tuInvocation = 0\<rparr>)))"

definition InjectLegacyToolOutputs :: "OnDiskModel \<Rightarrow> string \<Rightarrow> OnDiskModel" where
  "InjectLegacyToolOutputs m v =
     inject_loop v (map tuTool (ToolsUsed (manifest m))) (Entries (manifest m)) m"

lemma resolveModelPath_Inr:
  assumes "resolveModelPath m path = Inr r"
  shows "r = PathJoin (Clean (basePath m)) path \<and> contained (basePath m) r"
proof -
  let ?b = "Clean (basePath m)"
  from assms have r: "r = Clean (?b @ ''/'' @ path)"
    by (auto simp: resolveModelPath_def PathJoin_form Let_def split: option.splits if_splits)
  obtain rel where rel: "Rel ?b r = Some rel" "rel \<noteq> ''..''" "\<not> HasPrefix rel ''../''"
    using assms r by (auto simp: resolveModelPath_def PathJoin_form Let_def split: option.splits if_splits)
  have "contained (basePath m) r"
  proof (cases "r = ?b")
    case True
    then show ?thesis using contained_refl by simp
  next
    case False
    have "Clean ?b = ?b" "Clean r = r" by (simp_all add: r)
    from Rel_inside [OF this False rel] show ?thesis using clean_inside_contained r by metis
  qed
  then show ?thesis using r by (simp add: PathJoin_form)
qed

text \<open>
  C8. Containment: whatever component path it is given, \<open>resolveModelPath\<close> returns only paths
  that lie below the base directory of the run.
\<close>

theorem resolveModelPath_contained:
  "resolveModelPath m path = Inr r \<Longrightarrow> contained (basePath m) r"
  using resolveModelPath_Inr by blast

definition example_model :: OnDiskModel where
  "example_model =
     \<lparr>basePath = ''/runs/r1/'',
      manifest = \<lparr>Entries = [\<lparr>mePath = ''tool/a/0/x.csv'', meType = \<lparr>ctName = ''csv'', SchemaVersion = ''1.2''\<rparr>, mePending = False\<rparr>,
                             \<lparr>mePath = ''tool/a/0/y.csv'', meType = \<lparr>ctName = ''csv'', SchemaVersion = ''1.2''\<rparr>, mePending = True\<rparr>],
                  ToolsUsed = []\<rparr>,
      migrations = [ToolNameMigration ''a'' ''b'' (SemVer 1 0 0)]\<rparr>"

theorem resolveModelPath_contained_witness:
  "resolveModelPath example_model ''x/../y'' = Inr ''/runs/r1/y'' \<and>
   resolveModelPath example_model ''../r2/y'' = Inl (PathEscapes ''../r2/y'') \<and>
   contained (basePath example_model) ''/runs/r1/y''"
proof -
  have "resolveModelPath example_model ''x/../y'' = Inr ''/runs/r1/y''" by code_simp
  moreover have "resolveModelPath example_model ''../r2/y'' = Inl (PathEscapes ''../r2/y'')" by code_simp
  ultimately show ?thesis using resolveModelPath_contained by blast
qed

lemma Clean_build: "Clean p = build_clean (HasPrefix p ''/'') (path_comps (Clean p))"
  unfolding path_comps_Clean by (simp add: Clean_def)

lemma HasPrefix_append1: "s \<noteq> [] \<Longrightarrow> HasPrefix (s @ x) [c] = HasPrefix s [c]"
  by (cases s) auto

lemma comps_plain: "c \<in> set (comps p) \<Longrightarrow> c \<noteq> ''.'' \<Longrightarrow> c \<noteq> ''..'' \<Longrightarrow> plain_comp c"
  by (auto simp: comps_def plain_comp_def dest: Split_sep_free)

text \<open>The relative path that plain components make is inside.\<close>

lemma Join_plain_inside:
  assumes "\<forall>c\<in>set ts. plain_comp c" "ts \<noteq> []"
  shows "Join ts ''/'' \<noteq> ''..'' \<and> \<not> HasPrefix (Join ts ''/'') ''../'' \<and> \<not> IsAbs (Join ts ''/'')"
proof -
  have cl: "clean_list False ts" using assms clean_listI [of ts False 0] by simp
  have nd: "''..'' \<notin> set ts" using assms by (auto simp: plain_comp_def)
  have "Join ts ''/'' \<noteq> ''..''"
  proof
    assume "Join ts ''/'' = ''..''"
    then have "ts = comps ''..''" using comps_Join [OF cl] by metis
    with nd show False by (simp add: comps_def)
  qed
  moreover have "\<not> HasPrefix (Join ts ''/'') ''../''"
  proof
    assume "HasPrefix (Join ts ''/'') ''../''"
    then obtain x where "Join ts ''/'' = ''..'' @ CHR ''/'' # x" by auto
    then have "ts = comps (''..'' @ CHR ''/'' # x)" using comps_Join [OF cl] by metis
    with nd show False by (simp add: comps_append_slash) (simp add: comps_def)
  qed
  ultimately show ?thesis using Join_starts_slash [OF cl] by (simp only: IsAbs_def) blast
qed

lemma Rel_extend:
  assumes "Clean b = b" "Clean r = r" "HasPrefix r ''/'' = HasPrefix b ''/''"
    and "path_comps r = path_comps b @ ts" "\<forall>c\<in>set ts. plain_comp c"
  shows "\<exists>rel. Rel b r = Some rel \<and> rel \<noteq> ''..'' \<and> \<not> HasPrefix rel ''../'' \<and> \<not> IsAbs rel"
proof (cases "r = b")
  case True
  then show ?thesis by (simp add: Rel_def IsAbs_def)
next
  case False
  have "ts \<noteq> []"
    using False assms(1-4) Clean_build [of r] Clean_build [of b] by auto
  then have "r \<noteq> ''.''" using assms(4) by (auto simp: path_comps_def)
  then have c: "comps r = path_comps b @ ts" using assms(4) by (simp add: path_comps_def)
  have "HasPrefix (if b = ''.'' then [] else b) ''/'' = HasPrefix r ''/''"
    using assms(3) by (cases "b = ''.''") simp_all
  then have "Rel b r = Some (Join ts ''/'')"
    using False assms(1,2) c by (simp only: Rel_def Let_def comps_path_comps) simp
  with Join_plain_inside [OF assms(5) \<open>ts \<noteq> []\<close>] show ?thesis by blast
qed

text \<open>
  Completeness: a path without upward components is accepted and resolved to its components
  (dots dropped) below the base.
\<close>

theorem resolveModelPath_accepts:
  assumes "''..'' \<notin> set (comps path)"
  shows "\<exists>r. resolveModelPath m path = Inr r \<and>
    path_comps r = path_comps (Clean (basePath m)) @ filter (\<lambda>c. c \<noteq> ''.'') (comps path)"
proof -
  let ?b = "Clean (basePath m)" and ?ts = "filter (\<lambda>c. c \<noteq> ''.'') (comps path)"
  let ?r = "PathJoin ?b path"
  have pc: "path_comps ?r = path_comps ?b @ ?ts" by (rule path_comps_PathJoin [OF assms])
  have "HasPrefix ?r ''/'' = HasPrefix ?b ''/''"
    unfolding PathJoin_form by (simp only: IsAbs_Clean HasPrefix_append1 [OF Clean_nonempty])
  moreover have "\<forall>c\<in>set ?ts. plain_comp c" using assms comps_plain by auto
  ultimately obtain rel where "Rel ?b ?r = Some rel" "rel \<noteq> ''..''" "\<not> HasPrefix rel ''../''" "\<not> IsAbs rel"
    using Rel_extend [OF _ _ _ pc] by (metis Clean_Clean PathJoin_Clean)
  then show ?thesis using pc by (simp only: resolveModelPath_def Let_def) simp
qed

theorem resolveModelPath_accepts_witness:
  "\<exists>r. resolveModelPath example_model ''a/./b'' = Inr r \<and> path_comps r = [''runs'', ''r1'', ''a'', ''b'']"
proof -
  have "''..'' \<notin> set (comps ''a/./b'')" by code_simp
  moreover have "path_comps (Clean (basePath example_model)) @ filter (\<lambda>c. c \<noteq> ''.'') (comps ''a/./b'')
      = [''runs'', ''r1'', ''a'', ''b'']" by code_simp
  ultimately show ?thesis using resolveModelPath_accepts by metis
qed

section \<open>Resolution\<close>

lemma resolve_found_Inr:
  "resolve_found E m entry = Inr c \<Longrightarrow>
     \<not> mePending entry \<and> cType c = meType entry \<and> cRelativePath c = mePath entry \<and>
     contained (basePath m) (cAbsolutePath c) \<and>
     (\<forall>e\<in>set (Entries (manifest m)). glob_match E (mePath entry) (mePath e) = Some True \<longrightarrow> \<not> mePending e)"
  by (auto simp: resolve_found_def list_ex_iff dest: resolveModelPath_Inr split: if_splits sum.splits)

lemma resolve_on_disk_Inr:
  "resolve_on_disk E m p = Inr c \<Longrightarrow>
     cType c = unknownComponentType \<and> cRelativePath c = p \<and> contained (basePath m) (cAbsolutePath c) \<and>
     fs_stat E (cAbsolutePath c) = Inr RegularFile"
  by (auto simp: resolve_on_disk_def dest: resolveModelPath_Inr split: if_splits sum.splits)

lemma Lookup_Some: "Lookup mf p = Some e \<Longrightarrow> e \<in> set (Entries mf) \<and> mePath e = NormalizePath p"
  by (auto simp: Lookup_def Let_def dest: find_SomeD)

text \<open>
  A component that \<open>ResolveComponent\<close> returns lies below the run's directory and is available:
  either it is an entry of the manifest that is not pending and whose path, read as a pattern,
  matches no pending entry, or it is a regular file on disk of unknown type.
\<close>

theorem ResolveComponent_available:
  assumes "ResolveComponent E m p = Inr c"
  shows "contained (basePath m) (cAbsolutePath c) \<and>
    ((\<exists>e\<in>set (Entries (manifest m)). \<not> mePending e \<and> cType c = meType e \<and> cRelativePath c = mePath e \<and>
        list_all (\<lambda>e'. glob_match E (mePath e) (mePath e') = Some True \<longrightarrow> \<not> mePending e') (Entries (manifest m)))
     \<or> (cType c = unknownComponentType \<and> fs_stat E (cAbsolutePath c) = Inr RegularFile))"
proof -
  consider e where "e \<in> set (Entries (manifest m))" "resolve_found E m e = Inr c"
    | q where "resolve_on_disk E m q = Inr c"
    using assms by (auto simp: ResolveComponent_def Let_def dest!: Lookup_Some split: option.splits sum.splits)
  then show ?thesis
  proof cases
    case (1 e)
    with resolve_found_Inr [OF 1(2)] show ?thesis by (auto simp: list_all_iff)
  next
    case (2 q)
    with resolve_on_disk_Inr [OF 2] show ?thesis by simp
  qed
qed

definition example_env :: env where
  "example_env =
     \<lparr>glob_match = (\<lambda>pat p. Some (pat = p)), fs_stat = (\<lambda>p. Inl NotExist),
      fs_readdir = (\<lambda>p. Inr []), fs_walk = (\<lambda>p. []),
      sort_migrations = insertion_sort_desc, sort_components = (\<lambda>cs. cs)\<rparr>"

theorem ResolveComponent_available_witness:
  "ResolveComponent example_env example_model ''tool/b/0/x.csv'' =
     Inr \<lparr>cType = \<lparr>ctName = ''csv'', SchemaVersion = ''1.2''\<rparr>, cRelativePath = ''tool/a/0/x.csv'',
          cAbsolutePath = ''/runs/r1/tool/a/0/x.csv''\<rparr> \<and>
   contained (basePath example_model) ''/runs/r1/tool/a/0/x.csv''"
proof -
  have r: "ResolveComponent example_env example_model ''tool/b/0/x.csv'' =
     Inr \<lparr>cType = \<lparr>ctName = ''csv'', SchemaVersion = ''1.2''\<rparr>, cRelativePath = ''tool/a/0/x.csv'',
          cAbsolutePath = ''/runs/r1/tool/a/0/x.csv''\<rparr>"
    by code_simp
  from ResolveComponent_available [OF this] show ?thesis using r by simp
qed

section \<open>Legacy tool outputs\<close>

abbreviation injected_tool :: "string \<Rightarrow> string \<Rightarrow> ToolUsed" where
  "injected_tool v n \<equiv> \<lparr>tuTool = n, tuVersion = v, tuInvocation = 0\<rparr>"

lemma inject_loop_tools:
  "\<exists>ns. inject_loop v seen es m =
         m\<lparr>manifest := (manifest m)\<lparr>ToolsUsed := ToolsUsed (manifest m) @ map (injected_tool v) ns\<rparr>\<rparr> \<and>
       distinct ns \<and> set ns = {n. \<exists>e\<in>set es. legacy_tool e = Some n} - set seen"
proof (induction v seen es m rule: inject_loop.induct)
  case (1 v seen m)
  then show ?case by (intro exI [of _ "[]"]) simp
next
  case (2 v seen e es m)
  show ?case
  proof (cases "\<exists>n. legacy_tool e = Some n \<and> n \<notin> set seen")
    case True
    then obtain n where n: "legacy_tool e = Some n" "n \<notin> set seen" by blast
    with "2.IH"(3) obtain ns where
      "inject_loop v seen (e # es) m = (AddToolOutputM m (injected_tool v n))
         \<lparr>manifest := (manifest (AddToolOutputM m (injected_tool v n)))
            \<lparr>ToolsUsed := ToolsUsed (manifest (AddToolOutputM m (injected_tool v n))) @ map (injected_tool v) ns\<rparr>\<rparr>"
      "distinct ns" "set ns = {n. \<exists>e\<in>set es. legacy_tool e = Some n} - set (n # seen)" by auto
    with n show ?thesis by (intro exI [of _ "n # ns"]) (auto simp: AddToolOutputM_def)
  next
    case False
    then have "{n. \<exists>e\<in>set (e # es). legacy_tool e = Some n} - set seen
        = {n. \<exists>e\<in>set es. legacy_tool e = Some n} - set seen" by auto
    with False "2.IH"(1,2) show ?thesis by (cases "legacy_tool e") simp_all
  qed
qed

text \<open>
  Injecting the outputs of legacy tools keeps every entry and every recorded tool, and appends
  exactly one use, of invocation 0 and the given version, for each tool directory in the manifest
  that had none.
\<close>

theorem InjectLegacyToolOutputs_spec:
  "\<exists>ns. InjectLegacyToolOutputs m v =
         m\<lparr>manifest := (manifest m)\<lparr>ToolsUsed := ToolsUsed (manifest m) @ map (injected_tool v) ns\<rparr>\<rparr> \<and>
       distinct ns \<and>
       set ns = {n. \<exists>e\<in>set (Entries (manifest m)). legacy_tool e = Some n} - tuTool ` set (ToolsUsed (manifest m))"
  using inject_loop_tools [of v "map tuTool (ToolsUsed (manifest m))" "Entries (manifest m)" m]
  by (simp add: InjectLegacyToolOutputs_def)

end
