(* ===== verification/Overlay.thy ===== *)
theory Overlay
  imports Model
begin

text \<open>
  The read-only interface \<open>ModelView\<close> of a run (cdf/model.go), its implementation by a model on disk,
  and the composition of two views into one (core/apap-engine/cdf/overlay_model.go): the overlay
  wins, the base is consulted only where the overlay reports that a component was not found, and
  listings are merged without duplicates.

  The locale \<open>model_view\<close> states what a client of \<open>ModelView\<close> relies on: the typed and versioned
  resolutions are refinements of the plain one. It is interpreted on the model on disk, and the
  composition of two views that keep the contract keeps it.
\<close>

record view =
  vResolve :: "string \<Rightarrow> model_error + Component"
  vExpectType :: "string \<Rightarrow> ComponentType \<Rightarrow> model_error + Component"
  vExpectTypes :: "string \<Rightarrow> ComponentType list \<Rightarrow> model_error + Component"
  vByPattern :: "string \<Rightarrow> model_error + Component"
  vExpectTypeV :: "string \<Rightarrow> string \<Rightarrow> VersionRange \<Rightarrow> model_error + (Component \<times> SemVer)"
  vByPatternExpectTypeV :: "string \<Rightarrow> string \<Rightarrow> VersionRange \<Rightarrow> model_error + (Component \<times> SemVer)"
  vFindEntities :: "string \<Rightarrow> model_error + Entity list"
  vFindComponents :: "string \<Rightarrow> model_error + Component list"
  vListEntityComponents :: "Entity \<Rightarrow> model_error + Component list"
  vMigrations :: "PathMigration list option"
  vBasePath :: string

definition ondisk_view :: "env \<Rightarrow> OnDiskModel \<Rightarrow> view" where
  "ondisk_view E m =
     \<lparr>vResolve = ResolveComponent E m,
      vExpectType = ResolveComponentExpectType E m,
      vExpectTypes = ResolveComponentExpectTypes E m,
      vByPattern = ResolveComponentByManifestPattern E m,
      vExpectTypeV = ResolveComponentExpectTypeV E m,
      vByPatternExpectTypeV = ResolveComponentByPatternExpectTypeV E m,
      vFindEntities = FindEntities E m,
      vFindComponents = FindComponents E m,
      vListEntityComponents = ListEntityComponents E m,
      vMigrations = (if migrations m = [] then None else Some (migrations m)),
      vBasePath = basePath m\<rparr>"

section \<open>The overlay\<close>

record OverlayModel =
  base :: view
  overlay :: view

text \<open>\<open>None\<close> stands for a nil view.\<close>

definition NewOverlayModel :: "view option \<Rightarrow> view option \<Rightarrow> OverlayModel option" where
  "NewOverlayModel b ov =
     (case (b, ov) of (Some b', Some o') \<Rightarrow> Some \<lparr>base = b', overlay = o'\<rparr> | _ \<Rightarrow> None)"

text \<open>The five resolution methods share this precedence: fall back only on a not-found error.\<close>

definition overlay_first :: "(model_error + 'a) \<Rightarrow> (model_error + 'a) \<Rightarrow> model_error + 'a" where
  "overlay_first ov b =
     (case ov of Inr x \<Rightarrow> Inr x | Inl e \<Rightarrow> if \<not> is_not_found e then Inl e else b)"

definition OResolveComponent :: "OverlayModel \<Rightarrow> string \<Rightarrow> model_error + Component" where
  "OResolveComponent m p = overlay_first (vResolve (overlay m) p) (vResolve (base m) p)"

definition OResolveComponentExpectType :: "OverlayModel \<Rightarrow> string \<Rightarrow> ComponentType \<Rightarrow> model_error + Component" where
  "OResolveComponentExpectType m p t = overlay_first (vExpectType (overlay m) p t) (vExpectType (base m) p t)"

definition OResolveComponentExpectTypes :: "OverlayModel \<Rightarrow> string \<Rightarrow> ComponentType list \<Rightarrow> model_error + Component" where
  "OResolveComponentExpectTypes m p ts = overlay_first (vExpectTypes (overlay m) p ts) (vExpectTypes (base m) p ts)"

definition OResolveComponentByManifestPattern :: "OverlayModel \<Rightarrow> string \<Rightarrow> model_error + Component" where
  "OResolveComponentByManifestPattern m p = overlay_first (vByPattern (overlay m) p) (vByPattern (base m) p)"

definition OResolveComponentExpectTypeV ::
  "OverlayModel \<Rightarrow> string \<Rightarrow> string \<Rightarrow> VersionRange \<Rightarrow> model_error + (Component \<times> SemVer)" where
  "OResolveComponentExpectTypeV m p t vr =
     overlay_first (vExpectTypeV (overlay m) p t vr) (vExpectTypeV (base m) p t vr)"

definition OResolveComponentByPatternExpectTypeV ::
  "OverlayModel \<Rightarrow> string \<Rightarrow> string \<Rightarrow> VersionRange \<Rightarrow> model_error + (Component \<times> SemVer)" where
  "OResolveComponentByPatternExpectTypeV m p t vr =
     overlay_first (vByPatternExpectTypeV (overlay m) p t vr) (vByPatternExpectTypeV (base m) p t vr)"

definition mergeByRelativePath :: "'a list \<Rightarrow> 'a list \<Rightarrow> ('a \<Rightarrow> string) \<Rightarrow> 'a list" where
  "mergeByRelativePath overlayItems baseItems key =
     overlayItems @ filter (\<lambda>item. key item \<notin> set (map key overlayItems)) baseItems"

definition overlayRootIsNested :: "string \<Rightarrow> string \<Rightarrow> bool" where
  "overlayRootIsNested baseRoot overlayRoot =
     (if baseRoot = [] \<or> overlayRoot = [] then False
      else if overlayRoot = baseRoot then False
      else HasPrefix overlayRoot (baseRoot @ ''/''))"

definition filterOutsideOverlayRoot :: "string \<Rightarrow> string \<Rightarrow> 'a list \<Rightarrow> ('a \<Rightarrow> string) \<Rightarrow> 'a list" where
  "filterOutsideOverlayRoot baseRoot overlayRoot items relPath =
     (if \<not> overlayRootIsNested (Clean baseRoot) (Clean overlayRoot) then items
      else filter (\<lambda>item.
             let absPath = Clean (PathJoin baseRoot (relPath item))
             in \<not> (absPath = overlayRoot \<or> HasPrefix absPath (overlayRoot @ ''/''))) items)"

text \<open>The three listings share this merge of two results that may be missing.\<close>

definition merge_listing ::
  "OverlayModel \<Rightarrow> ('a \<Rightarrow> string) \<Rightarrow> (model_error + 'a list) \<Rightarrow> (model_error + 'a list) \<Rightarrow> model_error + 'a list" where
  "merge_listing m key ov b =
     (let outside = (\<lambda>bs. filterOutsideOverlayRoot (vBasePath (base m)) (vBasePath (overlay m)) bs key)
      in case ov of
           Inl e \<Rightarrow>
             (if \<not> isNotExist e then Inl e
              else case b of
                     Inl e' \<Rightarrow> if \<not> isNotExist e' then Inl e' else Inl (FsFailure NotExist)
                   | Inr bs \<Rightarrow> Inr (mergeByRelativePath [] (outside bs) key))
         | Inr os \<Rightarrow>
             (case b of
                Inl e' \<Rightarrow> if \<not> isNotExist e' then Inl e' else Inr (mergeByRelativePath os (outside []) key)
              | Inr bs \<Rightarrow> Inr (mergeByRelativePath os (outside bs) key)))"

definition OFindEntities :: "OverlayModel \<Rightarrow> string \<Rightarrow> model_error + Entity list" where
  "OFindEntities m g = merge_listing m eRelativePath (vFindEntities (overlay m) g) (vFindEntities (base m) g)"

definition OFindComponents :: "OverlayModel \<Rightarrow> string \<Rightarrow> model_error + Component list" where
  "OFindComponents m g = merge_listing m cRelativePath (vFindComponents (overlay m) g) (vFindComponents (base m) g)"

definition OListEntityComponents :: "OverlayModel \<Rightarrow> Entity \<Rightarrow> model_error + Component list" where
  "OListEntityComponents m e =
     merge_listing m cRelativePath (vListEntityComponents (overlay m) e) (vListEntityComponents (base m) e)"

definition OListEntityComponentsByTypeName :: "OverlayModel \<Rightarrow> Entity \<Rightarrow> string \<Rightarrow> model_error + Component list" where
  "OListEntityComponentsByTypeName m e typeName =
     (case OListEntityComponents m e of
        Inl err \<Rightarrow> Inl err
      | Inr cs \<Rightarrow> Inr (filter (\<lambda>c. ctName (cType c) = typeName) cs))"

definition OListEntityComponentsMatching ::
  "OverlayModel \<Rightarrow> Entity \<Rightarrow> (Component \<Rightarrow> bool) \<Rightarrow> model_error + Component list" where
  "OListEntityComponentsMatching m e pred =
     (case OListEntityComponents m e of Inl err \<Rightarrow> Inl err | Inr cs \<Rightarrow> Inr (filter pred cs))"

definition OMigrations :: "OverlayModel \<Rightarrow> PathMigration list option" where
  "OMigrations m =
     (case vMigrations (overlay m) of Some ms \<Rightarrow> Some ms | None \<Rightarrow> vMigrations (base m))"

definition OBasePath :: "OverlayModel \<Rightarrow> string" where
  "OBasePath m = vBasePath (overlay m)"

definition overlay_view :: "OverlayModel \<Rightarrow> view" where
  "overlay_view m =
     \<lparr>vResolve = OResolveComponent m,
      vExpectType = OResolveComponentExpectType m,
      vExpectTypes = OResolveComponentExpectTypes m,
      vByPattern = OResolveComponentByManifestPattern m,
      vExpectTypeV = OResolveComponentExpectTypeV m,
      vByPatternExpectTypeV = OResolveComponentByPatternExpectTypeV m,
      vFindEntities = OFindEntities m,
      vFindComponents = OFindComponents m,
      vListEntityComponents = OListEntityComponents m,
      vMigrations = OMigrations m,
      vBasePath = OBasePath m\<rparr>"

section \<open>The contract of a view\<close>

text \<open>
  A checked resolution: an error of the plain resolution is passed on; a resolved component either
  passes the check or gives an error that is not a not-found error.
\<close>

definition checked :: "(model_error + Component) \<Rightarrow> (model_error + 'a) \<Rightarrow> (Component \<Rightarrow> 'a option) \<Rightarrow> bool" where
  "checked r q chk =
     (case r of
        Inl e \<Rightarrow> q = Inl e
      | Inr c \<Rightarrow>
          (case chk c of
             Some x \<Rightarrow> q = Inr x
           | None \<Rightarrow> (case q of Inr x \<Rightarrow> False | Inl e \<Rightarrow> \<not> is_not_found e)))"

definition has_type :: "ComponentType list \<Rightarrow> Component \<Rightarrow> Component option" where
  "has_type ts c = (if cType c \<in> set ts then Some c else None)"

definition has_version :: "string \<Rightarrow> VersionRange \<Rightarrow> Component \<Rightarrow> (Component \<times> SemVer) option" where
  "has_version t vr c =
     (case ParseSemVer (SchemaVersion (cType c)) of
        Inl e \<Rightarrow> None
      | Inr sv \<Rightarrow> if ctName (cType c) = t \<and> InRange sv vr then Some (c, sv) else None)"

lemma has_version_Some:
  "has_version t vr c = Some x \<longleftrightarrow>
     (\<exists>sv. x = (c, sv) \<and> ctName (cType c) = t \<and> ParseSemVer (SchemaVersion (cType c)) = Inr sv \<and> InRange sv vr)"
  by (auto simp: has_version_def split: sum.splits)

lemma checked_overlay_first:
  "checked ro qo chk \<Longrightarrow> checked rb qb chk \<Longrightarrow> checked (overlay_first ro rb) (overlay_first qo qb) chk"
  by (auto simp: checked_def overlay_first_def split: sum.splits option.splits)

lemma checked_Inr: "checked r q chk \<Longrightarrow> q = Inr x \<longleftrightarrow> (\<exists>c. r = Inr c \<and> chk c = Some x)"
  by (auto simp: checked_def split: sum.splits option.splits)

locale model_view =
  fixes v :: view
  assumes typed: "checked (vResolve v p) (vExpectType v p t) (has_type [t])"
    and any_typed: "checked (vResolve v p) (vExpectTypes v p ts) (has_type ts)"
    and versioned: "checked (vResolve v p) (vExpectTypeV v p n vr) (has_version n vr)"
begin

lemma expect_type_iff: "vExpectType v p t = Inr c \<longleftrightarrow> vResolve v p = Inr c \<and> cType c = t"
  using checked_Inr [OF typed] by (auto simp: has_type_def split: if_splits)

lemma expect_types_iff: "vExpectTypes v p ts = Inr c \<longleftrightarrow> (\<exists>t\<in>set ts. vExpectType v p t = Inr c)"
  unfolding expect_type_iff using checked_Inr [OF any_typed] by (auto simp: has_type_def split: if_splits)

lemma expect_version_iff:
  "vExpectTypeV v p n vr = Inr (c, sv) \<longleftrightarrow>
     vResolve v p = Inr c \<and> ctName (cType c) = n \<and> ParseSemVer (SchemaVersion (cType c)) = Inr sv \<and> InRange sv vr"
  unfolding checked_Inr [OF versioned] by (auto simp: has_version_Some)

text \<open>A narrower requirement that is met is met with the same component and version.\<close>

lemma expect_version_narrow:
  "vExpectTypeV v p n vr = Inr (c, sv) \<Longrightarrow> InRange sv vr' \<Longrightarrow> vExpectTypeV v p n vr' = Inr (c, sv)"
  by (simp add: expect_version_iff)

end

interpretation disk: model_view "ondisk_view E m" for E m
  by unfold_locales
    (auto simp: ondisk_view_def checked_def has_type_def has_version_def ResolveComponentExpectType_def
      ResolveComponentExpectTypes_def ResolveComponentExpectTypeV_def check_version_def list_ex_iff
      split: sum.splits option.splits if_splits)

locale two_views = ov: model_view vo + bs: model_view vb for vo vb

sublocale two_views \<subseteq> merged: model_view "overlay_view \<lparr>base = vb, overlay = vo\<rparr>"
  by unfold_locales
    (simp_all add: overlay_view_def OResolveComponent_def OResolveComponentExpectType_def
      OResolveComponentExpectTypes_def OResolveComponentExpectTypeV_def checked_overlay_first
      ov.typed bs.typed ov.any_typed bs.any_typed ov.versioned bs.versioned)

interpretation disks: two_views "ondisk_view Eo mo" "ondisk_view Eb mb" for Eo mo Eb mb
  by unfold_locales

text \<open>An overlay of two models on disk, as the engine builds it.\<close>

definition disk_overlay :: "env \<Rightarrow> OnDiskModel \<Rightarrow> OnDiskModel \<Rightarrow> OverlayModel" where
  "disk_overlay E mb mo = \<lparr>base = ondisk_view E mb, overlay = ondisk_view E mo\<rparr>"

text \<open>
  On an overlay of two runs the versioned resolution succeeds exactly when the plain one does
  with a component of the requested type name whose schema version parses into the range; it then
  returns that component and version.
\<close>

theorem overlay_expect_version:
  "OResolveComponentExpectTypeV (disk_overlay E mb mo) p n vr = Inr (c, sv) \<longleftrightarrow>
     OResolveComponent (disk_overlay E mb mo) p = Inr c \<and> ctName (cType c) = n \<and>
     ParseSemVer (SchemaVersion (cType c)) = Inr sv \<and> InRange sv vr"
  using disks.merged.expect_version_iff [of E mb E mo p n vr c sv]
  by (simp add: overlay_view_def disk_overlay_def)

text \<open>
  On an overlay of two runs, asking for one of several types succeeds exactly when asking for
  one of them alone does, with the same component.
\<close>

theorem overlay_expect_types:
  "OResolveComponentExpectTypes (disk_overlay E mb mo) p ts = Inr c \<longleftrightarrow>
     (\<exists>t. t \<in> set ts \<and> OResolveComponentExpectType (disk_overlay E mb mo) p t = Inr c)"
  using disks.merged.expect_types_iff [of E mb E mo p ts c]
  by (auto simp: overlay_view_def disk_overlay_def)

section \<open>Merged listings\<close>

text \<open>
  A merged listing starts with the overlay's items, has exactly the paths of both lists, and
  shows the overlay's item for a path both have; if neither list repeats a path, the merge does not.
\<close>

theorem mergeByRelativePath_spec:
  assumes "distinct (map key os)" "distinct (map key bs)"
  shows "take (length os) (mergeByRelativePath os bs key) = os \<and>
    key ` set (mergeByRelativePath os bs key) = key ` set os \<union> key ` set bs \<and>
    distinct (map key (mergeByRelativePath os bs key)) \<and>
    (\<forall>x\<in>set (mergeByRelativePath os bs key). key x \<in> key ` set os \<longrightarrow> x \<in> set os)"
proof -
  have "distinct (map key (filter P bs))" for P
    using assms(2) by (simp add: distinct_map_filter)
  with assms show ?thesis
    by (auto simp: mergeByRelativePath_def) (metis imageI)+
qed

theorem mergeByRelativePath_spec_witness:
  "distinct (map id (mergeByRelativePath [''a'', ''b''] [''b'', ''c''] id))"
  using mergeByRelativePath_spec [of id "[''a'', ''b'']" "[''b'', ''c'']"] by simp

text \<open>
  The base items under a nested overlay root are dropped only when the root is given in clean
  form: with a trailing separator the root is recognised as nested, but its items are kept.
\<close>

theorem filterOutsideOverlayRoot_unclean:
  "filterOutsideOverlayRoot ''/r'' ''/r/o'' [''o/x'', ''y''] id = [''y''] \<and>
   overlayRootIsNested (Clean ''/r'') (Clean ''/r/o/'') \<and>
   filterOutsideOverlayRoot ''/r'' ''/r/o/'' [''o/x'', ''y''] id = [''o/x'', ''y'']"
  by code_simp

end
