(* ===== verification/Digraph.thy ===== *)
theory Digraph
  imports GoLib "HOL-Library.AList"
begin

text \<open>
  The directed graph of renderers (core/apap-engine/render/digraph.go): removal of nodes, roots,
  children, parents and the search for a cycle. A node set is a list, whose order is the order in
  which the code happens to iterate over the map; every theorem holds for all lists, so for every
  iteration order. The recursive searches terminate because every recursive call adds a key of the
  successor map to the nodes seen.
\<close>

type_synonym NodeID = int

record Digraph =
  nodes :: "NodeID list"
  successors :: "(NodeID \<times> NodeID list) list"

datatype graph_error = NodeNotExist NodeID | UnknownSuccessor NodeID NodeID

definition NodeExists :: "Digraph \<Rightarrow> NodeID \<Rightarrow> bool" where
  "NodeExists g n = (n \<in> set (nodes g))"

definition getDirectChildren :: "Digraph \<Rightarrow> NodeID \<Rightarrow> NodeID list" where
  "getDirectChildren g n = (case map_of (successors g) n of Some s \<Rightarrow> s | None \<Rightarrow> [])"

definition GetDirectChildren :: "Digraph \<Rightarrow> NodeID \<Rightarrow> graph_error + NodeID list" where
  "GetDirectChildren g n = (if \<not> NodeExists g n then Inl (NodeNotExist n) else Inr (getDirectChildren g n))"

definition GetDirectParents :: "Digraph \<Rightarrow> NodeID \<Rightarrow> graph_error + NodeID list" where
  "GetDirectParents g node =
     (if \<not> NodeExists g node then Inl (NodeNotExist node)
      else Inr (filter (\<lambda>n. case map_of (successors g) n of None \<Rightarrow> False | Some s \<Rightarrow> list_ex (\<lambda>x. x = node) s)
                  (nodes g)))"

definition GetRoots :: "Digraph \<Rightarrow> NodeID list" where
  "GetRoots g =
     foldl (\<lambda>roots n. case map_of (successors g) n of
                None \<Rightarrow> roots
              | Some s \<Rightarrow> foldl (\<lambda>rs c. removeAll c rs) roots s)
       (nodes g) (nodes g)"

definition IsEmpty :: "Digraph \<Rightarrow> bool" where
  "IsEmpty g = (length (nodes g) = 0)"

definition validateNodesAndSuccessors :: "NodeID list \<Rightarrow> (NodeID \<times> NodeID list) list \<Rightarrow> graph_error option" where
  "validateNodesAndSuccessors ns succs =
     (case find (\<lambda>n. case map_of succs n of None \<Rightarrow> False | Some s \<Rightarrow> list_ex (\<lambda>c. c \<notin> set ns) s) ns of
        None \<Rightarrow> None
      | Some n \<Rightarrow>
          (case find (\<lambda>c. c \<notin> set ns) (the (map_of succs n)) of
             None \<Rightarrow> None
           | Some c \<Rightarrow> Some (UnknownSuccessor n c)))"

definition NewDigraph :: "NodeID list \<Rightarrow> (NodeID \<times> NodeID list) list \<Rightarrow> graph_error + Digraph" where
  "NewDigraph ns succs =
     (case validateNodesAndSuccessors ns succs of
        Some e \<Rightarrow> Inl e
      | None \<Rightarrow> Inr \<lparr>nodes = ns, successors = succs\<rparr>)"

text \<open>The loop of \<open>RemoveAllNodes\<close>, on the copies of the node set and of the successor map.\<close>

fun remove_loop ::
  "Digraph \<Rightarrow> NodeID list \<Rightarrow> NodeID list \<Rightarrow> (NodeID \<times> NodeID list) list \<Rightarrow>
     graph_error + (NodeID list \<times> (NodeID \<times> NodeID list) list)" where
  "remove_loop g [] newNodes newSucc = Inr (newNodes, newSucc)"
| "remove_loop g (n # ns) newNodes newSucc =
     (if \<not> NodeExists g n then Inl (NodeNotExist n)
      else case GetDirectParents g n of
             Inl e \<Rightarrow> Inl e
           | Inr parents \<Rightarrow>
               remove_loop g ns (removeAll n newNodes)
                 (foldl (\<lambda>s p. AList.map_entry p (removeAll n) s) (AList.delete n newSucc) parents))"

definition RemoveAllNodes :: "Digraph \<Rightarrow> NodeID list \<Rightarrow> graph_error + Digraph" where
  "RemoveAllNodes g ns =
     (case remove_loop g ns (nodes g) (successors g) of
        Inl e \<Rightarrow> Inl e
      | Inr (newNodes, newSucc) \<Rightarrow> NewDigraph newNodes newSucc)"

definition RemoveNode :: "Digraph \<Rightarrow> NodeID \<Rightarrow> graph_error + Digraph" where
  "RemoveNode g n = RemoveAllNodes g [n]"

section \<open>The searches\<close>

abbreviation succ_keys :: "Digraph \<Rightarrow> NodeID set" where
  "succ_keys g \<equiv> fst ` set (successors g)"

lemma children_key: "getDirectChildren g n \<noteq> [] \<Longrightarrow> n \<in> succ_keys g"
  by (cases "map_of (successors g) n") (auto simp: getDirectChildren_def dest!: map_of_SomeD intro: rev_image_eqI)

lemma key_card_less:
  "n \<in> succ_keys g \<Longrightarrow> n \<notin> set seen \<Longrightarrow> card (succ_keys g - insert n (set seen)) < card (succ_keys g - set seen)"
  by (rule psubset_card_mono) auto

lemma key_step:
  assumes "n \<notin> set seen"
  shows "card (succ_keys g - insert n (set seen)) < card (succ_keys g - set seen) \<or>
    card (succ_keys g - insert n (set seen)) = card (succ_keys g - set seen) \<and> getDirectChildren g n = []"
proof (cases "n \<in> succ_keys g")
  case True
  with assms show ?thesis using key_card_less by blast
next
  case False
  then have "succ_keys g - insert n (set seen) = succ_keys g - set seen" by auto
  with False show ?thesis using children_key [of g n] by auto
qed

text \<open>
  The closure \<open>dfs\<close> of \<open>getAllChildren\<close> with its call stack made explicit: the list holds the calls
  still to be made, in order; the state is the set of marked nodes and the flag \<open>hasCycleToRoot\<close>.
\<close>

function mark :: "Digraph \<Rightarrow> NodeID \<Rightarrow> NodeID list \<Rightarrow> NodeID list \<Rightarrow> bool \<Rightarrow> NodeID list \<times> bool" where
  "mark g node [] allChildren hasCycleToRoot = (allChildren, hasCycleToRoot)"
| "mark g node (n # calls) allChildren hasCycleToRoot =
     (if n \<in> set allChildren then mark g node calls allChildren (hasCycleToRoot \<or> n = node)
      else mark g node (getDirectChildren g n @ calls) (n # allChildren) hasCycleToRoot)"
  by pat_completeness auto
termination
proof (relation "measures [\<lambda>(g, node, calls, seen, cyc). card (succ_keys g - set seen),
    \<lambda>(g, node, calls, seen, cyc). length calls]", goal_cases)
  case (3 g node n calls seen cyc)
  then show ?case
    using key_step [of n seen g] by auto
qed auto

definition getAllChildren :: "Digraph \<Rightarrow> NodeID \<Rightarrow> NodeID list" where
  "getAllChildren g node =
     (case mark g node [node] [] False of (allChildren, hasCycleToRoot) \<Rightarrow>
        if \<not> hasCycleToRoot then removeAll node allChildren else allChildren)"

definition GetAllChildren :: "Digraph \<Rightarrow> NodeID \<Rightarrow> graph_error + NodeID list" where
  "GetAllChildren g node = (if \<not> NodeExists g node then Inl (NodeNotExist node) else Inr (getAllChildren g node))"

text \<open>
  The closure \<open>dfs\<close> of \<open>findCycle\<close> and its loop over the children of \<open>n\<close>; \<open>seen\<close> is the set of
  nodes on the path, cloned for every call.
\<close>

function cycle_dfs :: "Digraph \<Rightarrow> NodeID \<Rightarrow> NodeID list \<Rightarrow> NodeID list option"
  and cycle_children :: "Digraph \<Rightarrow> NodeID \<Rightarrow> NodeID list \<Rightarrow> NodeID list \<Rightarrow> NodeID list option" where
  "cycle_dfs g n seen =
     (if n \<in> set seen then Some [n]
      else cycle_children g n (n # seen) (getDirectChildren g n))"
| "cycle_children g n seen [] = None"
| "cycle_children g n seen (child # cs) =
     (case cycle_dfs g child seen of
        Some path \<Rightarrow> Some (if path ! 0 \<in> set seen then path @ [n] else path)
      | None \<Rightarrow> cycle_children g n seen cs)"
  by pat_completeness auto
termination
proof (relation "measures
    [\<lambda>x. case x of Inl (g, n, seen) \<Rightarrow> card (succ_keys g - set seen) | Inr (g, n, seen, cs) \<Rightarrow> card (succ_keys g - set seen),
     \<lambda>x. case x of Inl _ \<Rightarrow> 1 | Inr (g, n, seen, cs) \<Rightarrow> 2 * length cs]", goal_cases)
  case (2 g n seen)
  then show ?case
    using key_step [of n seen g] by auto
qed auto

declare cycle_dfs.simps [simp del]

definition findCycle :: "Digraph \<Rightarrow> NodeID \<Rightarrow> bool \<times> NodeID list" where
  "findCycle g node =
     (case cycle_dfs g node [] of Some path \<Rightarrow> (True, rev path) | None \<Rightarrow> (False, []))"

text \<open>The two loops of \<open>ContainsCycle\<close>; the result of the first is a cycle or the unvisited nodes.\<close>

fun search_roots :: "Digraph \<Rightarrow> NodeID list \<Rightarrow> NodeID list \<Rightarrow> NodeID list + NodeID list" where
  "search_roots g [] unvisited = Inr unvisited"
| "search_roots g (root # roots) unvisited =
     (case findCycle g root of
        (True, cycle) \<Rightarrow> Inl cycle
      | (False, _) \<Rightarrow>
          search_roots g roots
            (foldl (\<lambda>u n. removeAll n u) (removeAll root unvisited) (getAllChildren g root)))"

fun search_unvisited :: "Digraph \<Rightarrow> NodeID list \<Rightarrow> bool \<times> NodeID list" where
  "search_unvisited g [] = (False, [])"
| "search_unvisited g (n # ns) =
     (case findCycle g n of (True, cycle) \<Rightarrow> (True, cycle) | (False, _) \<Rightarrow> search_unvisited g ns)"

definition ContainsCycle :: "Digraph \<Rightarrow> bool \<times> NodeID list" where
  "ContainsCycle g =
     (if IsEmpty g then (False, [])
      else case search_roots g (GetRoots g) (nodes g) of
             Inl cycle \<Rightarrow> (True, cycle)
           | Inr unvisited \<Rightarrow> search_unvisited g unvisited)"

section \<open>Reachability\<close>

definition edges :: "Digraph \<Rightarrow> (NodeID \<times> NodeID) set" where
  "edges g = {(a, b). b \<in> set (getDirectChildren g a)}"

lemma edges_iff [simp]: "(a, b) \<in> edges g \<longleftrightarrow> b \<in> set (getDirectChildren g a)"
  by (simp add: edges_def)

lemma mark_sound:
  "mark g node calls seen cyc = (S, c) \<Longrightarrow> set S \<subseteq> set seen \<union> (edges g)\<^sup>* `` set calls"
proof (induction g node calls seen cyc arbitrary: S c rule: mark.induct)
  case (2 g node n calls seen cyc)
  show ?case
  proof (cases "n \<in> set seen")
    case True
    with 2 show ?thesis by fastforce
  next
    case False
    with 2 have "set S \<subseteq> set (n # seen) \<union> (edges g)\<^sup>* `` set (getDirectChildren g n @ calls)" by simp
    moreover have "(edges g)\<^sup>* `` set (getDirectChildren g n) \<subseteq> (edges g)\<^sup>* `` {n}"
      by (auto intro: converse_rtrancl_into_rtrancl)
    ultimately show ?thesis by auto
  qed
qed simp

lemma mark_closed:
  "mark g node calls seen cyc = (S, c) \<Longrightarrow>
     (\<And>x. x \<in> set seen \<Longrightarrow> set (getDirectChildren g x) \<subseteq> set seen \<union> set calls) \<Longrightarrow>
     set seen \<union> set calls \<subseteq> set S \<and> (\<forall>x\<in>set S. set (getDirectChildren g x) \<subseteq> set S)"
proof (induction g node calls seen cyc arbitrary: S c rule: mark.induct)
  case (2 g node n calls seen cyc)
  show ?case
  proof (cases "n \<in> set seen")
    case True
    with 2 show ?thesis by (simp add: insert_absorb)
  next
    case False
    with "2.prems" have m: "mark g node (getDirectChildren g n @ calls) (n # seen) cyc = (S, c)" by simp
    have "\<And>x. x \<in> set (n # seen) \<Longrightarrow>
        set (getDirectChildren g x) \<subseteq> set (n # seen) \<union> set (getDirectChildren g n @ calls)"
      using "2.prems"(2) by fastforce
    from "2.IH"(2) [OF False m this] show ?thesis by auto
  qed
qed auto

lemma mark_mono: "mark g node calls seen cyc = (S, c) \<Longrightarrow> set seen \<subseteq> set S"
  by (induction g node calls seen cyc arbitrary: S c rule: mark.induct) (fastforce split: if_splits)+

lemma mark_cycle:
  "mark g node calls seen cyc = (S, c) \<Longrightarrow> node \<in> set seen \<Longrightarrow>
     c \<longleftrightarrow> cyc \<or> node \<in> set calls \<or> (\<exists>x\<in>set S - set seen. node \<in> set (getDirectChildren g x))"
proof (induction g node calls seen cyc arbitrary: S c rule: mark.induct)
  case (2 g node n calls seen cyc)
  show ?case
  proof (cases "n \<in> set seen")
    case True
    with 2 show ?thesis by auto
  next
    case False
    with "2.prems" have m: "mark g node (getDirectChildren g n @ calls) (n # seen) cyc = (S, c)" by simp
    have "n \<in> set S" using mark_mono [OF m] by simp
    with "2.IH"(2) [OF False m] "2.prems"(2) False show ?thesis by auto
  qed
qed auto

lemma closed_reaches:
  "\<forall>x\<in>S. set (getDirectChildren g x) \<subseteq> S \<Longrightarrow> a \<in> S \<Longrightarrow> (a, b) \<in> (edges g)\<^sup>* \<Longrightarrow> b \<in> S"
  by (rotate_tac 2, induction rule: rtrancl_induct) auto

lemma getAllChildren_trancl: "set (getAllChildren g node) = {m. (node, m) \<in> (edges g)\<^sup>+}"
proof -
  obtain S c where m: "mark g node [node] [] False = (S, c)" by fastforce
  have sub: "set S \<subseteq> (edges g)\<^sup>* `` {node}" using mark_sound [OF m] by simp
  have cl: "node \<in> set S" "\<forall>x\<in>set S. set (getDirectChildren g x) \<subseteq> set S"
    using mark_closed [OF m] by auto
  have S: "set S = (edges g)\<^sup>* `` {node}"
    using sub closed_reaches [OF cl(2) cl(1)] by auto
  from m have m': "mark g node (getDirectChildren g node) [node] False = (S, c)" by simp
  have c: "c \<longleftrightarrow> (node, node) \<in> (edges g)\<^sup>+"
  proof -
    have "c \<longleftrightarrow> (\<exists>x\<in>set S. node \<in> set (getDirectChildren g x))"
      using mark_cycle [OF m'] cl(1) by auto
    also have "\<dots> \<longleftrightarrow> (node, node) \<in> (edges g)\<^sup>* O edges g" using S by auto
    finally show ?thesis by (simp only: trancl_unfold_right [symmetric])
  qed
  have S': "x \<in> set S \<longleftrightarrow> x = node \<or> (node, x) \<in> (edges g)\<^sup>+" for x
    unfolding S by (auto dest: rtranclD)
  have "getAllChildren g node = (if \<not> c then removeAll node S else S)"
    unfolding getAllChildren_def m by simp
  with S' c show ?thesis by (cases c) auto
qed

section \<open>The cycle search\<close>

abbreviation edge :: "Digraph \<Rightarrow> NodeID \<Rightarrow> NodeID \<Rightarrow> bool" where
  "edge g a b \<equiv> (a, b) \<in> edges g"

lemma cycle_dfs_sound:
  "cycle_dfs g n seen = Some p \<Longrightarrow> p \<noteq> [] \<and> successively (\<lambda>a b. edge g b a) p \<and>
     (if p ! 0 \<in> set seen then last p = n else last p = p ! 0 \<and> 2 \<le> length p)"
  "cycle_children g n seen cs = Some p \<Longrightarrow> set cs \<subseteq> set (getDirectChildren g n) \<Longrightarrow> n \<in> set seen \<Longrightarrow>
     p \<noteq> [] \<and> successively (\<lambda>a b. edge g b a) p \<and> 2 \<le> length p \<and>
     (if p ! 0 \<in> set seen then last p = n else last p = p ! 0)"
proof (induction g n seen and g n seen cs arbitrary: p and p rule: cycle_dfs_cycle_children.induct)
  case (1 g n seen)
  show ?case
  proof (cases "n \<in> set seen")
    case True
    with 1 show ?thesis by (auto simp: cycle_dfs.simps)
  next
    case False
    with "1.prems" have "cycle_children g n (n # seen) (getDirectChildren g n) = Some p"
      by (simp add: cycle_dfs.simps)
    from "1.IH" [OF False this] False show ?thesis by (auto split: if_splits)
  qed
next
  case (3 g n seen child cs)
  show ?case
  proof (cases "cycle_dfs g child seen")
    case None
    with 3 show ?thesis by simp
  next
    case (Some q)
    with "3.prems"(1) have p: "p = (if q ! 0 \<in> set seen then q @ [n] else q)" by simp
    from "3.IH"(1) [OF Some] "3.prems" show ?thesis
      by (auto simp: p successively_append_iff nth_append Suc_le_eq)
  qed
qed simp

lemma cycle_dfs_complete:
  "cycle_dfs g n seen = None \<Longrightarrow> (n, m) \<in> (edges g)\<^sup>* \<Longrightarrow> m \<notin> set seen \<and> (m, m) \<notin> (edges g)\<^sup>+"
  "cycle_children g n seen cs = None \<Longrightarrow> c \<in> set cs \<Longrightarrow> (c, m) \<in> (edges g)\<^sup>* \<Longrightarrow>
     m \<notin> set seen \<and> (m, m) \<notin> (edges g)\<^sup>+"
proof (induction g n seen and g n seen cs arbitrary: m and m c rule: cycle_dfs_cycle_children.induct)
  case (1 g n seen)
  then have n: "n \<notin> set seen" "cycle_children g n (n # seen) (getDirectChildren g n) = None"
    by (auto simp: cycle_dfs.simps split: if_splits)
  note IH = "1.IH" [OF n]
  have "(n, n) \<notin> (edges g)\<^sup>+" using IH by (fastforce dest!: tranclD)
  moreover have "m \<noteq> n \<Longrightarrow> ?case" using "1.prems"(2) IH by (auto elim: converse_rtranclE)
  ultimately show ?case using n by blast
qed (auto split: option.splits)

definition cyclic :: "Digraph \<Rightarrow> NodeID \<Rightarrow> bool" where
  "cyclic g n \<longleftrightarrow> (\<exists>m. (n, m) \<in> (edges g)\<^sup>* \<and> (m, m) \<in> (edges g)\<^sup>+)"

text \<open>A cycle as the code returns it: a walk along edges that ends where it starts.\<close>

definition is_cycle :: "Digraph \<Rightarrow> NodeID list \<Rightarrow> bool" where
  "is_cycle g c \<longleftrightarrow> 2 \<le> length c \<and> hd c = last c \<and> successively (edge g) c"

lemma findCycle_sound: "findCycle g n = (True, c) \<Longrightarrow> is_cycle g c"
  by (auto simp: findCycle_def is_cycle_def hd_rev last_rev hd_conv_nth successively_rev
      split: option.splits dest!: cycle_dfs_sound(1))

lemma findCycle_complete: "findCycle g n = (False, c) \<Longrightarrow> \<not> cyclic g n"
  by (auto simp: findCycle_def cyclic_def split: option.splits dest: cycle_dfs_complete(1))

lemma walk_trancl: "successively (edge g) (a # c) \<Longrightarrow> c \<noteq> [] \<Longrightarrow> (a, last c) \<in> (edges g)\<^sup>+"
proof (induction c arbitrary: a)
  case (Cons b c)
  then show ?case by (cases c) (auto intro: trancl_into_trancl2)
qed simp

lemma is_cycle_trancl: "is_cycle g c \<Longrightarrow> (hd c, hd c) \<in> (edges g)\<^sup>+"
  using walk_trancl [of g "hd c" "tl c"] by (cases c) (auto simp: is_cycle_def split: if_splits)

section \<open>Properties\<close>

definition valid_graph :: "Digraph \<Rightarrow> bool" where
  "valid_graph g \<longleftrightarrow> validateNodesAndSuccessors (nodes g) (successors g) = None"

definition kids :: "(NodeID \<times> NodeID list) list \<Rightarrow> NodeID \<Rightarrow> NodeID list" where
  "kids s a = (case map_of s a of Some l \<Rightarrow> l | None \<Rightarrow> [])"

lemma children_kids: "getDirectChildren g = kids (successors g)"
  by (rule ext) (simp add: getDirectChildren_def kids_def)

lemma validate_iff:
  "validateNodesAndSuccessors ns s = None \<longleftrightarrow> (\<forall>n\<in>set ns. set (kids s n) \<subseteq> set ns)" (is "?l \<longleftrightarrow> ?r")
proof -
  let ?P = "\<lambda>n. case map_of s n of None \<Rightarrow> False | Some l \<Rightarrow> list_ex (\<lambda>c. c \<notin> set ns) l"
  have P: "?P n \<longleftrightarrow> \<not> set (kids s n) \<subseteq> set ns" for n
    by (auto simp: kids_def list_ex_iff split: option.splits)
  have "?l \<longleftrightarrow> find ?P ns = None"
  proof (cases "find ?P ns")
    case (Some n)
    then have "?P n" by (auto dest: find_SomeD)
    then obtain l where l: "map_of s n = Some l" "list_ex (\<lambda>c. c \<notin> set ns) l" by (auto split: option.splits)
    then have "find (\<lambda>c. c \<notin> set ns) l \<noteq> None" by (auto simp: find_None_iff list_ex_iff)
    with Some l show ?thesis by (auto simp: validateNodesAndSuccessors_def)
  qed (simp add: validateNodesAndSuccessors_def)
  also have "\<dots> \<longleftrightarrow> ?r" unfolding find_None_iff using P by blast
  finally show ?thesis .
qed

lemma valid_graph_iff: "valid_graph g \<longleftrightarrow> (\<forall>n\<in>set (nodes g). set (getDirectChildren g n) \<subseteq> set (nodes g))"
  unfolding valid_graph_def validate_iff children_kids ..

lemma foldl_removeAll [simp]: "set (foldl (\<lambda>u n. removeAll n u) u ns) = set u - set ns"
  by (induction ns arbitrary: u) auto

lemma search_roots_sound: "search_roots g roots u = Inl c \<Longrightarrow> is_cycle g c"
  by (induction roots arbitrary: u) (auto split: prod.splits bool.splits intro: findCycle_sound)

lemma search_unvisited_sound: "search_unvisited g ns = (True, c) \<Longrightarrow> is_cycle g c"
  by (induction ns) (auto split: prod.splits bool.splits intro: findCycle_sound)

lemma search_unvisited_complete: "search_unvisited g ns = (False, c) \<Longrightarrow> n \<in> set ns \<Longrightarrow> \<not> cyclic g n"
  by (induction ns) (auto split: prod.splits bool.splits dest: findCycle_complete)

lemma cyclic_reaches: "cyclic g m \<Longrightarrow> (n, m) \<in> (edges g)\<^sup>* \<Longrightarrow> cyclic g n"
  by (auto simp: cyclic_def intro: rtrancl_trans)

lemma search_roots_complete:
  "search_roots g roots u = Inr v \<Longrightarrow> n \<in> set u \<Longrightarrow> cyclic g n \<Longrightarrow> n \<in> set v"
proof (induction roots arbitrary: u)
  case (Cons r roots)
  let ?u = "foldl (\<lambda>u n. removeAll n u) (removeAll r u) (getAllChildren g r)"
  obtain c where f: "findCycle g r = (False, c)" and s: "search_roots g roots ?u = Inr v"
    using Cons.prems(1) by (auto split: prod.splits bool.splits)
  from findCycle_complete [OF f] Cons.prems(3) have "(r, n) \<notin> (edges g)\<^sup>*" by (blast dest: cyclic_reaches)
  then have "n \<noteq> r" "(r, n) \<notin> (edges g)\<^sup>+" by (auto dest: trancl_into_rtrancl)
  with Cons.prems(2) have "n \<in> set ?u" by (simp add: getAllChildren_trancl)
  from Cons.IH [OF s this Cons.prems(3)] show ?case .
qed simp

lemma ContainsCycle_sound: "ContainsCycle g = (True, c) \<Longrightarrow> is_cycle g c"
  by (auto simp: ContainsCycle_def split: if_splits sum.splits
      intro: search_roots_sound search_unvisited_sound)

lemma ContainsCycle_complete: "ContainsCycle g = (False, c) \<Longrightarrow> n \<in> set (nodes g) \<Longrightarrow> \<not> cyclic g n"
  by (auto simp: ContainsCycle_def IsEmpty_def split: if_splits sum.splits
      dest: search_roots_complete search_unvisited_complete)

text \<open>
  The cycle search is complete: whatever the iteration order, if it reports no cycle then no
  node of the graph lies on a walk along the edges back to itself.
\<close>

theorem ContainsCycle_acyclic:
  assumes "ContainsCycle g = (False, c)" and "n \<in> set (nodes g)"
  shows "(n, n) \<notin> (edges g)\<^sup>+"
  using ContainsCycle_complete [OF assms] by (auto simp: cyclic_def)

definition diamond :: Digraph where
  "diamond = \<lparr>nodes = [1, 2, 3, 4], successors = [(1, [2, 3]), (2, [4]), (3, [4])]\<rparr>"

theorem ContainsCycle_acyclic_witness: "(1, 1) \<notin> (edges diamond)\<^sup>+"
proof (rule ContainsCycle_acyclic)
  show "ContainsCycle diamond = (False, [])" by code_simp
qed (simp add: diamond_def)

text \<open>
  The cycle search is sound: what it reports is a walk of at least one edge, each step an edge of
  the graph, that ends in the node it starts from.
\<close>

theorem ContainsCycle_is_cycle:
  assumes "ContainsCycle g = (True, c)"
  shows "2 \<le> length c \<and> hd c = last c \<and> (\<forall>i. Suc i < length c \<longrightarrow> (c ! i, c ! Suc i) \<in> edges g)"
  using ContainsCycle_sound [OF assms] by (auto simp: is_cycle_def successively_conv_nth)

definition lasso :: Digraph where
  "lasso = \<lparr>nodes = [1, 2, 3], successors = [(1, [2]), (2, [3]), (3, [2])]\<rparr>"

theorem ContainsCycle_is_cycle_witness:
  "hd [2, 3, 2::NodeID] = last [2, 3, 2] \<and> (2, 3) \<in> edges lasso \<and> (3, 2) \<in> edges lasso"
proof -
  have "ContainsCycle lasso = (True, [2, 3, 2])" by code_simp
  from ContainsCycle_is_cycle [OF this] have "\<forall>i. Suc i < 3 \<longrightarrow> ([2, 3, 2] ! i, [2, 3, 2] ! Suc i) \<in> edges lasso" by simp
  from this [rule_format, of 0] this [rule_format, of 1] show ?thesis by simp
qed

lemma roots_fold:
  "set (foldl (\<lambda>roots n. case map_of s n of None \<Rightarrow> roots | Some l \<Rightarrow> foldl (\<lambda>rs c. removeAll c rs) roots l) r ns)
     = set r - (\<Union>n\<in>set ns. set (kids s n))"
  by (induction ns arbitrary: r) (auto simp: kids_def split: option.splits)

lemma GetDirectParents_iff:
  "GetDirectParents g n = Inr ps \<Longrightarrow> p \<in> set ps \<longleftrightarrow> p \<in> set (nodes g) \<and> n \<in> set (kids (successors g) p)"
  by (cases "map_of (successors g) p")
    (auto simp: GetDirectParents_def kids_def list_ex_iff split: if_splits)

text \<open>
  The roots are exactly the nodes for which the search for direct parents returns the empty set.
\<close>

theorem GetRoots_no_parents: "n \<in> set (GetRoots g) \<longleftrightarrow> GetDirectParents g n = Inr []"
proof -
  have "n \<in> set (GetRoots g) \<longleftrightarrow> n \<in> set (nodes g) \<and> (\<forall>p\<in>set (nodes g). (p, n) \<notin> edges g)"
    by (auto simp: GetRoots_def roots_fold children_kids)
  moreover have "GetDirectParents g n = Inr [] \<longleftrightarrow> n \<in> set (nodes g) \<and> (\<forall>p\<in>set (nodes g). (p, n) \<notin> edges g)"
  proof (cases "GetDirectParents g n")
    case (Inl e)
    then show ?thesis by (auto simp: GetDirectParents_def NodeExists_def split: if_splits)
  next
    case (Inr ps)
    moreover from Inr have "n \<in> set (nodes g)" by (auto simp: GetDirectParents_def NodeExists_def split: if_splits)
    ultimately show ?thesis using GetDirectParents_iff [OF Inr] by (cases ps) (auto simp: children_kids)
  qed
  ultimately show ?thesis by blast
qed

text \<open>
  The descendants of a node of the graph are the nodes reached from it by one edge or more; the
  node itself is among them exactly when it lies on a cycle.
\<close>

theorem GetAllChildren_reachable:
  assumes "NodeExists g node"
  shows "\<exists>cs. GetAllChildren g node = Inr cs \<and> set cs = {m. (node, m) \<in> (edges g)\<^sup>+}"
  using assms by (simp add: GetAllChildren_def getAllChildren_trancl)

theorem GetAllChildren_reachable_witness:
  "\<exists>cs. GetAllChildren lasso 1 = Inr cs \<and> set cs = {m. (1, m) \<in> (edges lasso)\<^sup>+}"
  by (rule GetAllChildren_reachable) (simp add: NodeExists_def lasso_def)

section \<open>Removal of nodes\<close>

lemma set_kids_map_entries:
  "set (kids (foldl (\<lambda>s p. AList.map_entry p (removeAll n) s) s ps) a) =
     set (kids s a) - (if a \<in> set ps then {n} else {})"
proof (induction ps arbitrary: s)
  case (Cons p ps)
  have "set (kids (AList.map_entry p (removeAll n) s) a) = set (kids s a) - (if a = p then {n} else {})"
    by (cases "map_of s p") (auto simp: kids_def map_of_map_entry)
  with Cons show ?case by auto
qed simp

lemma kids_delete: "kids (AList.delete n s) a = (if a = n then [] else kids s a)"
  by (simp add: kids_def delete_conv)

definition removed :: "Digraph \<Rightarrow> NodeID list \<Rightarrow> NodeID list \<Rightarrow> (NodeID \<times> NodeID list) list \<Rightarrow> bool" where
  "removed g ns newNodes newSucc \<longleftrightarrow> set newNodes = set (nodes g) - set ns \<and>
     (\<forall>a\<in>set newNodes. set (kids newSucc a) = set (kids (successors g) a) - set ns)"

lemma removed_step:
  assumes "removed g done_ns nn ss" and "GetDirectParents g n = Inr ps"
  shows "removed g (n # done_ns) (removeAll n nn)
           (foldl (\<lambda>s p. AList.map_entry p (removeAll n) s) (AList.delete n ss) ps)"
  using assms(1) unfolding removed_def set_kids_map_entries kids_delete GetDirectParents_iff [OF assms(2)]
  by (auto split: if_splits)

lemma remove_loop_removed:
  "removed g done_ns nn ss \<Longrightarrow> set ns \<subseteq> set (nodes g) \<Longrightarrow>
     \<exists>nn' ss'. remove_loop g ns nn ss = Inr (nn', ss') \<and> removed g (rev ns @ done_ns) nn' ss'"
proof (induction ns arbitrary: done_ns nn ss)
  case (Cons n ns)
  obtain ps where ps: "GetDirectParents g n = Inr ps"
    using Cons.prems(2) by (auto simp: GetDirectParents_def NodeExists_def)
  from Cons.IH [OF removed_step [OF Cons.prems(1) ps]] Cons.prems(2) ps show ?case
    by (simp add: NodeExists_def)
qed simp

lemma remove_loop_error:
  "n \<in> set ns \<Longrightarrow> n \<notin> set (nodes g) \<Longrightarrow> \<exists>m. remove_loop g ns nn ss = Inl (NodeNotExist m) \<and> m \<notin> set (nodes g)"
  by (induction ns arbitrary: nn ss) (auto simp: NodeExists_def GetDirectParents_def)

lemma RemoveAllNodes_success:
  assumes "valid_graph g" and "set ns \<subseteq> set (nodes g)"
  shows "\<exists>g'. RemoveAllNodes g ns = Inr g' \<and> valid_graph g' \<and> set (nodes g') = set (nodes g) - set ns \<and>
    (\<forall>a b. a \<in> set (nodes g') \<longrightarrow> ((a, b) \<in> edges g' \<longleftrightarrow> (a, b) \<in> edges g \<and> b \<notin> set ns))"
proof -
  obtain nn ss where r: "remove_loop g ns (nodes g) (successors g) = Inr (nn, ss)" "removed g (rev ns) nn ss"
    using remove_loop_removed [of g "[]" "nodes g" "successors g" ns] assms(2) by (auto simp: removed_def)
  have "validateNodesAndSuccessors nn ss = None"
    using r(2) assms(1) unfolding validate_iff by (auto simp: removed_def valid_graph_iff children_kids)
  with r show ?thesis
    by (auto simp: RemoveAllNodes_def NewDigraph_def valid_graph_def removed_def children_kids)
qed

lemma remove_loop_length: "remove_loop g ns nn ss = Inr (nn', ss') \<Longrightarrow> length nn' \<le> length nn"
proof (induction ns arbitrary: nn ss)
  case (Cons n ns)
  then have "length nn' \<le> length (removeAll n nn)" by (auto split: if_splits sum.splits)
  also have "\<dots> \<le> length nn" by (simp add: removeAll_filter_not_eq)
  finally show ?case .
qed simp

lemma RemoveAllNodes_length:
  assumes "RemoveAllNodes g ns = Inr g'" and "ns \<noteq> []"
  shows "length (nodes g') < length (nodes g)"
proof -
  obtain n ms where ns: "ns = n # ms" using assms(2) by (cases ns) auto
  obtain nn ss where r: "remove_loop g ns (nodes g) (successors g) = Inr (nn, ss)" and g': "nodes g' = nn"
    using assms(1) by (auto simp: RemoveAllNodes_def NewDigraph_def split: sum.splits option.splits)
  have "n \<in> set (nodes g)" using r by (auto simp: ns NodeExists_def split: if_splits)
  then have "length (removeAll n (nodes g)) < length (nodes g)" by (rule length_removeAll_less)
  moreover have "length nn \<le> length (removeAll n (nodes g))"
    using r by (auto simp: ns split: if_splits sum.splits dest!: remove_loop_length)
  ultimately show ?thesis using g' by simp
qed

lemma cycle_dfs_reach:
  "cycle_dfs g n seen = Some p \<Longrightarrow> set p \<subseteq> (edges g)\<^sup>* `` {n}"
  "cycle_children g n seen cs = Some p \<Longrightarrow> set cs \<subseteq> set (getDirectChildren g n) \<Longrightarrow> set p \<subseteq> (edges g)\<^sup>* `` {n}"
proof (induction g n seen and g n seen cs arbitrary: p and p rule: cycle_dfs_cycle_children.induct)
  case (1 g n seen)
  then show ?case by (auto simp: cycle_dfs.simps [of g n seen] split: if_splits)
next
  case (3 g n seen child cs)
  have step: "(n, child) \<in> edges g" using 3(4) by simp
  show ?case
  proof (cases "cycle_dfs g child seen")
    case None
    then show ?thesis using 3 by simp
  next
    case (Some path)
    then have "set path \<subseteq> (edges g)\<^sup>* `` {n}" using 3(1) [OF Some] converse_rtrancl_into_rtrancl [OF step] by auto
    then show ?thesis using Some 3(3) by (auto split: if_splits)
  qed
qed simp

lemma findCycle_reach: "findCycle g n = (True, c) \<Longrightarrow> set c \<subseteq> (edges g)\<^sup>* `` {n}"
  by (auto simp: findCycle_def split: option.splits dest!: cycle_dfs_reach(1))

lemma search_roots_reach: "search_roots g roots u = Inl c \<Longrightarrow> \<exists>n\<in>set roots. set c \<subseteq> (edges g)\<^sup>* `` {n}"
  by (induction roots arbitrary: u) (auto split: prod.splits bool.splits dest: findCycle_reach)

lemma search_roots_rest: "search_roots g roots u = Inr v \<Longrightarrow> set v \<subseteq> set u"
  by (induction roots arbitrary: u) (force split: prod.splits bool.splits)+

lemma search_unvisited_reach: "search_unvisited g ns = (True, c) \<Longrightarrow> \<exists>n\<in>set ns. set c \<subseteq> (edges g)\<^sup>* `` {n}"
  by (induction ns) (auto split: prod.splits bool.splits dest: findCycle_reach)

lemma ContainsCycle_nodes:
  assumes "valid_graph g" and "ContainsCycle g = (True, c)"
  shows "set c \<subseteq> set (nodes g)"
proof -
  have roots: "set (GetRoots g) \<subseteq> set (nodes g)" by (auto simp: GetRoots_def roots_fold)
  have "\<exists>n\<in>set (nodes g). set c \<subseteq> (edges g)\<^sup>* `` {n}"
  proof (cases "search_roots g (GetRoots g) (nodes g)")
    case (Inl d)
    then show ?thesis using assms(2) roots search_roots_reach [OF Inl] by (auto simp: ContainsCycle_def split: if_splits)
  next
    case (Inr u)
    then have "search_unvisited g u = (True, c)" using assms(2) by (auto simp: ContainsCycle_def split: if_splits)
    then show ?thesis using search_unvisited_reach search_roots_rest [OF Inr] by blast
  qed
  moreover have "(edges g)\<^sup>* `` {n} \<subseteq> set (nodes g)" if "n \<in> set (nodes g)" for n
  proof
    fix b
    assume "b \<in> (edges g)\<^sup>* `` {n}"
    then show "b \<in> set (nodes g)"
      using closed_reaches [OF assms(1) [unfolded valid_graph_iff] that] by (simp only: Image_singleton mem_Collect_eq)
  qed
  ultimately show ?thesis by blast
qed

lemma ContainsCycle_nonempty: "ContainsCycle g = (True, c) \<Longrightarrow> c \<noteq> []"
  by (frule ContainsCycle_sound) (auto simp: is_cycle_def)

text \<open>
  Removing nodes of a valid graph: with an unknown node among them the operation reports an unknown
  node; otherwise it succeeds with a valid graph that has the other nodes and exactly the edges
  between them, so that the constructor's check cannot fail.
\<close>

theorem RemoveAllNodes_spec:
  assumes "valid_graph g"
  shows "case RemoveAllNodes g ns of
      Inl e \<Rightarrow> \<exists>m\<in>set ns. m \<notin> set (nodes g)
    | Inr g' \<Rightarrow> set ns \<subseteq> set (nodes g) \<and> valid_graph g' \<and> set (nodes g') = set (nodes g) - set ns \<and>
        (\<forall>a b. a \<in> set (nodes g') \<longrightarrow> ((a, b) \<in> edges g' \<longleftrightarrow> (a, b) \<in> edges g \<and> b \<notin> set ns))"
proof (cases "set ns \<subseteq> set (nodes g)")
  case True
  then show ?thesis using RemoveAllNodes_success [OF assms True] by auto
next
  case False
  then obtain n where "n \<in> set ns" "n \<notin> set (nodes g)" by auto
  moreover from remove_loop_error [OF this] obtain m
    where "remove_loop g ns (nodes g) (successors g) = Inl (NodeNotExist m)" by blast
  ultimately show ?thesis by (auto simp: RemoveAllNodes_def)
qed

theorem RemoveAllNodes_spec_witness:
  "case RemoveAllNodes diamond [2] of
      Inl e \<Rightarrow> \<exists>m\<in>set [2]. m \<notin> set (nodes diamond)
    | Inr g' \<Rightarrow> set [2] \<subseteq> set (nodes diamond) \<and> valid_graph g' \<and> set (nodes g') = set (nodes diamond) - set [2] \<and>
        (\<forall>a b. a \<in> set (nodes g') \<longrightarrow> ((a, b) \<in> edges g' \<longleftrightarrow> (a, b) \<in> edges diamond \<and> b \<notin> set [2]))"
  by (rule RemoveAllNodes_spec) (unfold valid_graph_def, code_simp)

end
