(* ===== verification/TransferSlots.thy ===== *)
theory TransferSlots
  imports GoLib Transition
begin

text \<open>
  The limit on concurrent transfers (core/apap-engine/recipe/transfer_slots.go) and the errors of the
  transfers (transfer_errors.go). A slot request is named by a number, the identity of its pointer;
  \<open>closedReady\<close> lists the requests whose channel \<open>ready\<close> is closed, in the order of closing. Every
  operation holds the mutex, so it is one step; the goroutines that call \<open>Acquire\<close> and \<open>Release\<close>
  are the threads of a step relation.
\<close>

section \<open>The slot manager\<close>

datatype transferPhase = phase1TransferPhase | backgroundTransferPhase

type_synonym slot_request = nat

record transferSlotManager =
  smax :: int
  active :: int
  phase1Queue :: "slot_request list"
  backgroundQueue :: "slot_request list"
  closedReady :: "slot_request list"

definition newTransferSlotManager :: "int \<Rightarrow> transferSlotManager" where
  "newTransferSlotManager mx =
     \<lparr>smax = mx, active = 0, phase1Queue = [], backgroundQueue = [], closedReady = []\<rparr>"

definition enqueueLocked :: "transferPhase \<Rightarrow> slot_request \<Rightarrow> transferSlotManager \<Rightarrow> transferSlotManager" where
  "enqueueLocked phase req m =
     (if phase = backgroundTransferPhase then m\<lparr>backgroundQueue := backgroundQueue m @ [req]\<rparr>
      else m\<lparr>phase1Queue := phase1Queue m @ [req]\<rparr>)"

definition nextRequestLocked :: "transferSlotManager \<Rightarrow> (slot_request \<times> transferSlotManager) option" where
  "nextRequestLocked m =
     (case phase1Queue m of
        req # queue \<Rightarrow> Some (req, m\<lparr>phase1Queue := queue\<rparr>)
      | [] \<Rightarrow>
         (case backgroundQueue m of
            req # queue \<Rightarrow> Some (req, m\<lparr>backgroundQueue := queue\<rparr>)
          | [] \<Rightarrow> None))"

function dispatchAvailableLocked :: "transferSlotManager \<Rightarrow> transferSlotManager" where
  "dispatchAvailableLocked m =
     (if active m < smax m then
        case nextRequestLocked m of
          None \<Rightarrow> m
        | Some (req, m') \<Rightarrow>
            dispatchAvailableLocked (m'\<lparr>active := active m' + 1, closedReady := closedReady m' @ [req]\<rparr>)
      else m)"
  by pat_completeness auto
termination
  by (relation "measure (\<lambda>m. length (phase1Queue m) + length (backgroundQueue m))")
    (auto simp: nextRequestLocked_def split: list.splits)

declare dispatchAvailableLocked.simps [simp del]

fun removeTransferSlotRequest :: "slot_request list \<Rightarrow> slot_request \<Rightarrow> slot_request list \<times> bool" where
  "removeTransferSlotRequest [] req = ([], False)"
| "removeTransferSlotRequest (queued # queue) req =
     (if queued = req then (queue, True)
      else case removeTransferSlotRequest queue req of (rest, removed) \<Rightarrow> (queued # rest, removed))"

definition removeLocked :: "transferPhase \<Rightarrow> slot_request \<Rightarrow> transferSlotManager \<Rightarrow> bool \<times> transferSlotManager" where
  "removeLocked phase req m =
     (if phase = backgroundTransferPhase then
        case removeTransferSlotRequest (backgroundQueue m) req of (queue, removed) \<Rightarrow> (removed, m\<lparr>backgroundQueue := queue\<rparr>)
      else
        case removeTransferSlotRequest (phase1Queue m) req of (queue, removed) \<Rightarrow> (removed, m\<lparr>phase1Queue := queue\<rparr>))"

definition cancelQueuedRequest :: "transferPhase \<Rightarrow> slot_request \<Rightarrow> transferSlotManager \<Rightarrow> bool \<times> transferSlotManager" where
  "cancelQueuedRequest phase req m =
     (case removeLocked phase req m of (removed, m') \<Rightarrow>
        (removed, if removed then dispatchAvailableLocked m' else m'))"

datatype slot_error = ReleasedWithoutAcquisition | ContextError

definition Release :: "transferSlotManager \<Rightarrow> slot_error + transferSlotManager" where
  "Release m =
     (if active m = 0 then Inl ReleasedWithoutAcquisition
      else Inr (dispatchAvailableLocked (m\<lparr>active := active m - 1\<rparr>)))"

text \<open>
  \<open>Acquire\<close> up to its \<open>select\<close>, with the state of the context as a parameter, and the two branches
  of the \<open>select\<close>: the first is ready once the channel is closed, the second once the context is done.
\<close>

definition Acquire_enter ::
  "bool \<Rightarrow> transferPhase \<Rightarrow> slot_request \<Rightarrow> transferSlotManager \<Rightarrow> slot_error + transferSlotManager" where
  "Acquire_enter ctxDone phase req m =
     (if ctxDone then Inl ContextError
      else Inr (dispatchAvailableLocked (enqueueLocked phase req m)))"

definition Acquire_ready :: "slot_request \<Rightarrow> transferSlotManager \<Rightarrow> bool" where
  "Acquire_ready req m = (req \<in> set (closedReady m))"

definition Acquire_cancelled ::
  "transferPhase \<Rightarrow> slot_request \<Rightarrow> transferSlotManager \<Rightarrow> slot_error option \<times> transferSlotManager" where
  "Acquire_cancelled phase req m =
     (case cancelQueuedRequest phase req m of (removed, m') \<Rightarrow> (if removed then Some ContextError else None, m'))"

section \<open>The goroutines\<close>

text \<open>A goroutine waits in \<open>Acquire\<close>, holds its slot, has returned with an error or has released its slot.\<close>

datatype slot_thread = Waiting transferPhase | Holding | Refused | Released

record slot_system =
  mgr :: transferSlotManager
  threads :: "slot_request \<rightharpoonup> slot_thread"

inductive slot_step :: "slot_system \<Rightarrow> slot_system \<Rightarrow> bool" where
  enter: "threads s r = None \<Longrightarrow> Acquire_enter False ph r (mgr s) = Inr m \<Longrightarrow>
    slot_step s (s\<lparr>mgr := m, threads := (threads s)(r \<mapsto> Waiting ph)\<rparr>)"
| enter_done: "threads s r = None \<Longrightarrow> Acquire_enter True ph r (mgr s) = Inl e \<Longrightarrow>
    slot_step s (s\<lparr>threads := (threads s)(r \<mapsto> Refused)\<rparr>)"
| ready: "threads s r = Some (Waiting ph) \<Longrightarrow> Acquire_ready r (mgr s) \<Longrightarrow>
    slot_step s (s\<lparr>threads := (threads s)(r \<mapsto> Holding)\<rparr>)"
| cancelled: "threads s r = Some (Waiting ph) \<Longrightarrow> Acquire_cancelled ph r (mgr s) = (Some e, m) \<Longrightarrow>
    slot_step s (s\<lparr>mgr := m, threads := (threads s)(r \<mapsto> Refused)\<rparr>)"
| cancel_raced: "threads s r = Some (Waiting ph) \<Longrightarrow> Acquire_cancelled ph r (mgr s) = (None, m) \<Longrightarrow>
    slot_step s (s\<lparr>mgr := m, threads := (threads s)(r \<mapsto> Holding)\<rparr>)"
| release: "threads s r = Some Holding \<Longrightarrow> Release (mgr s) = Inr m \<Longrightarrow>
    slot_step s (s\<lparr>mgr := m, threads := (threads s)(r \<mapsto> Released)\<rparr>)"

definition slot_init :: "int \<Rightarrow> slot_system" where
  "slot_init mx = \<lparr>mgr = newTransferSlotManager mx, threads = Map.empty\<rparr>"

abbreviation slot_reachable :: "int \<Rightarrow> slot_system \<Rightarrow> bool" where
  "slot_reachable mx \<equiv> slot_step\<^sup>*\<^sup>* (slot_init mx)"

section \<open>Dispatch\<close>

text \<open>The free slots, and the order in which the waiting requests are served.\<close>

definition free :: "transferSlotManager \<Rightarrow> nat" where
  "free m = nat (smax m - active m)"

definition service_order :: "transferSlotManager \<Rightarrow> slot_request list" where
  "service_order m = phase1Queue m @ backgroundQueue m"

lemma dispatch_eq:
  "dispatchAvailableLocked m =
     m\<lparr>active := active m + int (min (free m) (length (service_order m))),
       phase1Queue := drop (free m) (phase1Queue m),
       backgroundQueue := drop (free m - length (phase1Queue m)) (backgroundQueue m),
       closedReady := closedReady m @ take (free m) (service_order m)\<rparr>"
proof (induction m rule: dispatchAvailableLocked.induct)
  case (1 m)
  show ?case
  proof (cases "active m < smax m")
    case False
    then show ?thesis by (subst dispatchAvailableLocked.simps) (simp add: free_def)
  next
    case True
    then obtain k where k: "free m = Suc k" "nat (smax m - (active m + 1)) = k"
      by (cases "free m") (auto simp: free_def)
    show ?thesis
    proof (cases "nextRequestLocked m")
      case None
      then show ?thesis
        by (subst dispatchAvailableLocked.simps)
          (auto simp: nextRequestLocked_def service_order_def True split: list.splits)
    next
      case (Some p)
      obtain req m' where p: "p = (req, m')" by (cases p)
      show ?thesis
        using "1.IH" [OF True Some p [symmetric]] k Some True
        by (subst dispatchAvailableLocked.simps)
          (auto simp: p free_def nextRequestLocked_def service_order_def split: list.splits)
    qed
  qed
qed

section \<open>The invariant\<close>

text \<open>The slots in use: requests that were served and whose goroutine has not released its slot.\<close>

definition held :: "(slot_request \<rightharpoonup> slot_thread) \<Rightarrow> slot_request list \<Rightarrow> int" where
  "held th q = int (length (filter (\<lambda>r. th r \<noteq> Some Released) q))"

lemma held_append [simp]: "held th (q @ q') = held th q + held th q'"
  by (simp add: held_def)

lemma held_cong: "(\<And>x. x \<in> set q \<Longrightarrow> (th x = Some Released) = (th' x = Some Released)) \<Longrightarrow> held th q = held th' q"
  by (auto simp: held_def intro!: arg_cong [where f = length] filter_cong)

lemma held_other [simp]: "r \<notin> set q \<Longrightarrow> held (th(r \<mapsto> t)) q = held th q"
  by (rule held_cong) auto

lemma held_hold [simp]: "th r \<noteq> Some Released \<Longrightarrow> t \<noteq> Released \<Longrightarrow> held (th(r \<mapsto> t)) q = held th q"
  by (rule held_cong) auto

lemma held_Nil [simp]: "held th [] = 0"
  by (simp add: held_def)

lemma held_Cons: "held th (x # q) = (if th x = Some Released then 0 else 1) + held th q"
  by (simp add: held_def)

lemma held_release: "distinct q \<Longrightarrow> r \<in> set q \<Longrightarrow> th r \<noteq> Some Released \<Longrightarrow> held (th(r \<mapsto> Released)) q = held th q - 1"
proof (induction q)
  case (Cons x q)
  then show ?case by (cases "x = r") (auto simp: held_Cons fun_upd_def [symmetric])
qed simp

lemma held_pos: "r \<in> set q \<Longrightarrow> th r \<noteq> Some Released \<Longrightarrow> 0 < held th q"
  by (auto simp: held_def filter_empty_conv)

definition slots_ok :: "transferSlotManager \<Rightarrow> (slot_request \<rightharpoonup> slot_thread) \<Rightarrow> bool" where
  "slots_ok m th \<longleftrightarrow>
     distinct (closedReady m @ service_order m) \<and>
     (\<forall>r. r \<in> set (phase1Queue m) \<longleftrightarrow> th r = Some (Waiting phase1TransferPhase) \<and> r \<notin> set (closedReady m)) \<and>
     (\<forall>r. r \<in> set (backgroundQueue m) \<longleftrightarrow> th r = Some (Waiting backgroundTransferPhase) \<and> r \<notin> set (closedReady m)) \<and>
     (\<forall>r\<in>set (closedReady m). (\<exists>ph. th r = Some (Waiting ph)) \<or> th r = Some Holding \<or> th r = Some Released) \<and>
     (\<forall>r. th r = Some Holding \<or> th r = Some Released \<longrightarrow> r \<in> set (closedReady m)) \<and>
     active m = held th (closedReady m) \<and>
     active m \<le> max 0 (smax m)"

definition work_conserving :: "transferSlotManager \<Rightarrow> bool" where
  "work_conserving m \<longleftrightarrow> (service_order m \<noteq> [] \<longrightarrow> smax m \<le> active m)"

lemma service_order_waiting:
  "slots_ok m th \<Longrightarrow> r \<in> set (service_order m) \<longleftrightarrow> (\<exists>ph. th r = Some (Waiting ph)) \<and> r \<notin> set (closedReady m)"
  by (auto simp: slots_ok_def service_order_def) (metis transferPhase.exhaust)+

lemma held_waiting:
  assumes "slots_ok m th"
  shows "held th (take k (service_order m)) = int (min k (length (service_order m)))"
proof -
  have "filter (\<lambda>r. th r \<noteq> Some Released) (take k (service_order m)) = take k (service_order m)"
    using service_order_waiting [OF assms] by (auto simp: filter_id_conv dest: in_set_takeD)
  then show ?thesis by (simp add: held_def min.commute)
qed

lemma service_order_dispatch: "service_order (dispatchAvailableLocked m) = drop (free m) (service_order m)"
  by (simp add: dispatch_eq service_order_def)

lemma slots_ok_dispatch:
  assumes ok: "slots_ok m th"
  shows "slots_ok (dispatchAvailableLocked m) th \<and> work_conserving (dispatchAvailableLocked m)"
proof -
  let ?m = "dispatchAvailableLocked m" and ?k = "free m"
  have d: "distinct (closedReady m @ service_order m)" using ok by (simp add: slots_ok_def)
  have mem: "x \<in> set (drop n q) \<longleftrightarrow> x \<in> set q \<and> x \<notin> set (take n q)" if "distinct q" for x n and q :: "nat list"
    using that by (metis append_take_drop_id distinct_append disjoint_iff Un_iff set_append)
  have q: "set (phase1Queue ?m) = set (phase1Queue m) - set (take ?k (service_order m))"
    "set (backgroundQueue ?m) = set (backgroundQueue m) - set (take ?k (service_order m))"
    using d mem [of "phase1Queue m"] mem [of "backgroundQueue m"] unfolding service_order_def
    by (auto simp: dispatch_eq dest: in_set_takeD)
  have c: "closedReady ?m = closedReady m @ take ?k (service_order m)" by (simp add: dispatch_eq)
  have "distinct (closedReady ?m @ service_order ?m)"
    using d unfolding c service_order_dispatch by simp
  moreover have "active ?m = held th (closedReady ?m)"
    using ok by (simp add: c held_waiting [OF ok]) (simp add: slots_ok_def dispatch_eq)
  moreover have "active ?m \<le> max 0 (smax ?m)"
    using ok by (auto simp: dispatch_eq slots_ok_def free_def min_def max_def)
  moreover have "work_conserving ?m"
    by (auto simp: work_conserving_def service_order_dispatch) (simp add: dispatch_eq free_def)
  ultimately show ?thesis
    using ok q c service_order_waiting [OF ok] unfolding slots_ok_def
    by (auto dest: in_set_takeD)
qed

lemma removeTransferSlotRequest_eq: "removeTransferSlotRequest q r = (remove1 r q, r \<in> set q)"
  by (induction q) auto

lemma slots_ok_fresh: "slots_ok m th \<Longrightarrow> th r = None \<Longrightarrow> r \<notin> set (closedReady m) \<and> r \<notin> set (service_order m)"
  by (auto simp: slots_ok_def service_order_def)

lemma slots_ok_enqueue:
  assumes "slots_ok m th" "th r = None"
  shows "slots_ok (enqueueLocked ph r m) (th(r \<mapsto> Waiting ph))"
  using assms slots_ok_fresh [OF assms]
  by (cases ph) (auto simp: slots_ok_def service_order_def enqueueLocked_def)

lemma slots_ok_remove:
  assumes ok: "slots_ok m th" and r: "th r = Some (Waiting ph)" and rm: "removeLocked ph r m = (True, m')"
  shows "slots_ok m' (th(r \<mapsto> Refused))"
proof -
  have "r \<notin> set (closedReady m)"
    using ok rm by (auto simp: removeLocked_def removeTransferSlotRequest_eq slots_ok_def split: if_splits)
  with ok r rm show ?thesis
    by (cases ph)
      (auto simp: slots_ok_def service_order_def removeLocked_def removeTransferSlotRequest_eq set_remove1_eq)
qed

lemma removeLocked_same: "removeLocked ph r m = (False, m') \<Longrightarrow> m' = m"
  by (auto simp: removeLocked_def removeTransferSlotRequest_eq remove1_idem split: if_splits)

lemma slots_ok_hold:
  "slots_ok m th \<Longrightarrow> th r = Some (Waiting ph) \<Longrightarrow> r \<in> set (closedReady m) \<Longrightarrow> slots_ok m (th(r \<mapsto> Holding))"
  by (auto simp: slots_ok_def)

lemma slots_ok_release:
  assumes "slots_ok m th" "th r = Some Holding"
  shows "slots_ok (m\<lparr>active := active m - 1\<rparr>) (th(r \<mapsto> Released))"
  using assms by (auto simp: slots_ok_def service_order_def held_release)

lemma holding_active: "slots_ok m th \<Longrightarrow> th r = Some Holding \<Longrightarrow> 0 < active m"
  by (auto simp: slots_ok_def intro!: held_pos)

definition system_ok :: "slot_system \<Rightarrow> bool" where
  "system_ok s \<longleftrightarrow> slots_ok (mgr s) (threads s) \<and> work_conserving (mgr s)"

lemma not_queued_closed:
  "slots_ok m th \<Longrightarrow> th r = Some (Waiting ph) \<Longrightarrow> removeLocked ph r m = (False, m') \<Longrightarrow> r \<in> set (closedReady m)"
  by (cases ph) (auto simp: slots_ok_def removeLocked_def removeTransferSlotRequest_eq)

lemma slots_ok_refuse: "slots_ok m th \<Longrightarrow> th r = None \<Longrightarrow> slots_ok m (th(r \<mapsto> Refused))"
  using slots_ok_fresh [of m th r] by (auto simp: slots_ok_def)

lemma slot_step_ok: "slot_step s s' \<Longrightarrow> system_ok s \<Longrightarrow> system_ok s'"
proof (induction rule: slot_step.induct)
  case (enter s r ph m)
  then show ?case
    using slots_ok_dispatch [OF slots_ok_enqueue] by (auto simp: system_ok_def Acquire_enter_def)
next
  case (enter_done s r ph e)
  then show ?case by (simp add: system_ok_def slots_ok_refuse)
next
  case (ready s r ph)
  then show ?case by (auto simp: system_ok_def Acquire_ready_def intro: slots_ok_hold)
next
  case (cancelled s r ph e m)
  then obtain m' where "removeLocked ph r (mgr s) = (True, m')" "m = dispatchAvailableLocked m'"
    by (auto simp: Acquire_cancelled_def cancelQueuedRequest_def split: prod.splits if_splits)
  with cancelled show ?case
    using slots_ok_dispatch [OF slots_ok_remove] by (auto simp: system_ok_def)
next
  case (cancel_raced s r ph m)
  then have "removeLocked ph r (mgr s) = (False, m)"
    by (auto simp: Acquire_cancelled_def cancelQueuedRequest_def split: prod.splits if_splits)
  with cancel_raced show ?case
    using not_queued_closed removeLocked_same by (fastforce simp: system_ok_def intro: slots_ok_hold)
next
  case (release s r m)
  then show ?case
    using slots_ok_dispatch [OF slots_ok_release] by (auto simp: system_ok_def Release_def split: if_splits)
qed

interpretation slots: step_system "\<lambda>s. s = slot_init mx" slot_step system_ok for mx
proof
  fix s t
  show "s = slot_init mx \<Longrightarrow> system_ok s"
    by (simp add: system_ok_def slots_ok_def work_conserving_def slot_init_def newTransferSlotManager_def service_order_def)
  show "system_ok s \<Longrightarrow> slot_step s t \<Longrightarrow> system_ok t" by (rule slot_step_ok)
qed

lemma slot_reachable_ok: "slot_reachable mx s \<Longrightarrow> system_ok s"
  by (rule slots.reachable_invar [OF refl])

lemma smax_dispatch [simp]: "smax (dispatchAvailableLocked m) = smax m"
  by (simp add: dispatch_eq)

lemma slot_step_smax: "slot_step s s' \<Longrightarrow> smax (mgr s') = smax (mgr s)"
  by (induction rule: slot_step.induct)
    (auto simp: Acquire_enter_def enqueueLocked_def Acquire_cancelled_def cancelQueuedRequest_def removeLocked_def
      Release_def split: if_splits prod.splits)

lemma slot_reachable_smax: "slot_reachable mx s \<Longrightarrow> smax (mgr s) = mx"
  by (induction rule: rtranclp_induct)
    (simp_all add: slot_init_def newTransferSlotManager_def slot_step_smax)

lemma holders_le_held:
  assumes "slots_ok m th"
  shows "int (card {r. th r = Some Holding}) \<le> active m"
proof -
  have "{r. th r = Some Holding} \<subseteq> set (filter (\<lambda>r. th r \<noteq> Some Released) (closedReady m))"
    using assms by (auto simp: slots_ok_def)
  then have "card {r. th r = Some Holding} \<le> card (set (filter (\<lambda>r. th r \<noteq> Some Released) (closedReady m)))"
    by (rule card_mono [rotated]) simp
  also have "\<dots> \<le> length (filter (\<lambda>r. th r \<noteq> Some Released) (closedReady m))" by (rule card_length)
  finally show ?thesis using assms by (simp add: slots_ok_def held_def)
qed

section \<open>Properties\<close>

text \<open>
  C13. In every interleaving of goroutines that acquire, are cancelled and release, at most \<open>max\<close> of
  them hold a slot, the channel of no request is closed twice, and the release by a goroutine that
  holds a slot never fails.
\<close>

theorem transfer_slots_safe:
  assumes "slot_reachable mx s"
  shows "int (card {r. threads s r = Some Holding}) \<le> max 0 mx \<and> distinct (closedReady (mgr s)) \<and>
    (\<forall>r. threads s r = Some Holding \<longrightarrow> (\<exists>m. Release (mgr s) = Inr m))"
proof -
  have ok: "slots_ok (mgr s) (threads s)" using slot_reachable_ok [OF assms] by (simp add: system_ok_def)
  have "active (mgr s) \<le> max 0 mx" using ok slot_reachable_smax [OF assms] by (simp add: slots_ok_def)
  then show ?thesis
    using holders_le_held [OF ok] holding_active [OF ok] ok by (fastforce simp: slots_ok_def Release_def)
qed

definition busy_system :: slot_system where
  "busy_system = \<lparr>mgr = \<lparr>smax = 1, active = 1, phase1Queue = [2], backgroundQueue = [1], closedReady = [0]\<rparr>,
     threads = [0 \<mapsto> Holding, 1 \<mapsto> Waiting backgroundTransferPhase, 2 \<mapsto> Waiting phase1TransferPhase]\<rparr>"

lemmas slot_defs = Acquire_enter_def enqueueLocked_def Acquire_ready_def dispatch_eq free_def service_order_def

lemma busy_reachable: "slot_reachable 1 busy_system"
proof -
  let ?m0 = "\<lparr>smax = 1, active = 1, phase1Queue = [], backgroundQueue = [], closedReady = [0]\<rparr>"
  let ?m1 = "?m0\<lparr>backgroundQueue := [1]\<rparr>"
  have "slot_step (slot_init 1) \<lparr>mgr = ?m0, threads = [0 \<mapsto> Waiting phase1TransferPhase]\<rparr>"
    using slot_step.enter [of "slot_init 1" 0 phase1TransferPhase]
    by (simp add: slot_init_def newTransferSlotManager_def slot_defs)
  moreover have "slot_step \<dots> \<lparr>mgr = ?m0, threads = [0 \<mapsto> Holding]\<rparr>"
    using slot_step.ready [of "\<lparr>mgr = ?m0, threads = [0 \<mapsto> Waiting phase1TransferPhase]\<rparr>" 0 phase1TransferPhase]
    by (simp add: slot_defs)
  moreover have "slot_step \<dots> \<lparr>mgr = ?m1, threads = [0 \<mapsto> Holding, 1 \<mapsto> Waiting backgroundTransferPhase]\<rparr>"
    using slot_step.enter [of "\<lparr>mgr = ?m0, threads = [0 \<mapsto> Holding]\<rparr>" 1 backgroundTransferPhase]
    by (simp add: slot_defs)
  moreover have "slot_step \<dots> busy_system"
    using slot_step.enter [of "\<lparr>mgr = ?m1, threads = [0 \<mapsto> Holding, 1 \<mapsto> Waiting backgroundTransferPhase]\<rparr>" 2
        phase1TransferPhase]
    by (simp add: slot_defs busy_system_def)
  ultimately show ?thesis by (meson rtranclp.rtrancl_into_rtrancl rtranclp.rtrancl_refl)
qed

theorem transfer_slots_safe_witness:
  "int (card {r. threads busy_system r = Some Holding}) \<le> 1 \<and> (\<exists>m. Release (mgr busy_system) = Inr m)"
proof -
  have "threads busy_system 0 = Some Holding" by (simp add: busy_system_def)
  with transfer_slots_safe [OF busy_reachable] show ?thesis by auto
qed

text \<open>
  A goroutine waits for a slot only while every slot is in use.
\<close>

theorem transfer_slots_no_idle_wait:
  assumes "slot_reachable mx s" and "0 \<le> mx"
    and "threads s r = Some (Waiting ph)" and "\<not> Acquire_ready r (mgr s)"
  shows "active (mgr s) = mx"
proof -
  have ok: "slots_ok (mgr s) (threads s)" "work_conserving (mgr s)"
    using slot_reachable_ok [OF assms(1)] by (simp_all add: system_ok_def)
  have "r \<in> set (service_order (mgr s))"
    using service_order_waiting [OF ok(1)] assms(3,4) by (simp add: Acquire_ready_def)
  then have "mx \<le> active (mgr s)"
    using ok(2) slot_reachable_smax [OF assms(1)] by (auto simp: work_conserving_def)
  moreover have "active (mgr s) \<le> mx"
    using ok(1) slot_reachable_smax [OF assms(1)] assms(2) by (simp add: slots_ok_def)
  ultimately show ?thesis by simp
qed

theorem transfer_slots_no_idle_wait_witness: "active (mgr busy_system) = 1"
  by (rule transfer_slots_no_idle_wait [OF busy_reachable, of 1 backgroundTransferPhase])
    (simp_all add: busy_system_def Acquire_ready_def)

text \<open>
  A release by a goroutine that holds a slot hands the slot to the first waiting request, those of
  phase 1 before those of the background and each in order of arrival: exactly this request is
  served, the others keep their order, and the number of slots in use is unchanged.
\<close>

theorem release_hands_over:
  assumes "slot_reachable mx s" and "threads s h = Some Holding" and "service_order (mgr s) = r # rest"
  shows "\<exists>m. Release (mgr s) = Inr m \<and> closedReady m = closedReady (mgr s) @ [r] \<and>
    service_order m = rest \<and> active m = active (mgr s)"
proof -
  have ok: "slots_ok (mgr s) (threads s)" "work_conserving (mgr s)"
    using slot_reachable_ok [OF assms(1)] by (simp_all add: system_ok_def)
  have a: "0 < active (mgr s)" by (rule holding_active [OF ok(1) assms(2)])
  then have full: "active (mgr s) = smax (mgr s)"
  proof -
    have "active (mgr s) \<le> max 0 (smax (mgr s))" using ok(1) by (simp add: slots_ok_def)
    moreover have "smax (mgr s) \<le> active (mgr s)" using ok(2) assms(3) by (simp add: work_conserving_def)
    ultimately show ?thesis using a by simp
  qed
  let ?m = "mgr s\<lparr>active := active (mgr s) - 1\<rparr>"
  have o: "service_order ?m = r # rest" using assms(3) by (simp add: service_order_def)
  have f: "free ?m = 1" using full by (simp add: free_def)
  have "closedReady (dispatchAvailableLocked ?m) = closedReady (mgr s) @ [r]"
    "active (dispatchAvailableLocked ?m) = active (mgr s)"
    using o f by (simp_all add: dispatch_eq)
  moreover have "service_order (dispatchAvailableLocked ?m) = rest"
    using o f by (simp add: service_order_dispatch)
  ultimately show ?thesis using a by (simp add: Release_def)
qed

theorem release_hands_over_witness:
  "\<exists>m. Release (mgr busy_system) = Inr m \<and> closedReady m = closedReady (mgr busy_system) @ [2] \<and>
    service_order m = [1] \<and> active m = active (mgr busy_system)"
  by (rule release_hands_over [OF busy_reachable, of 0]) (simp_all add: busy_system_def service_order_def)

end
