(* ===== verification/TransferProgress.thy ===== *)
theory TransferProgress
  imports TransferSlots "HOL-Library.Word"
begin

text \<open>
  The progress of the transfers of a run (core/apap-engine/recipe/transfer_logging.go): a tracker
  per phase that stays silent until it knows the size of every transfer, and the pair of trackers
  of which only the one of the active phase reports. Byte counts are 64-bit words, read as signed
  where the code compares them; times are milliseconds since the zero time, which is \<open>None\<close>. An
  operation that unlocks the tracker before it reports returns what it hands to \<open>report\<close>.
\<close>

section \<open>One tracker\<close>

record StageProgressTracker =
  spCount :: int
  goalCount :: int
  transferred :: "64 word"
  totalBytes :: "64 word"
  lastUpdate :: "int option"

definition newStageProgressTracker :: StageProgressTracker where
  "newStageProgressTracker = \<lparr>spCount = 0, goalCount = 0, transferred = 0, totalBytes = 0, lastUpdate = None\<rparr>"

definition ClientFileStreamUpdateInterval :: int where
  "ClientFileStreamUpdateInterval = 250"

definition SetGoalCount :: "int \<Rightarrow> StageProgressTracker \<Rightarrow> StageProgressTracker" where
  "SetGoalCount n s = (if goalCount s \<noteq> 0 then s else s\<lparr>goalCount := n\<rparr>)"

definition snapshotForReportLocked ::
  "int \<Rightarrow> StageProgressTracker \<Rightarrow> StageProgressTracker \<times> (64 word \<times> 64 word)" where
  "snapshotForReportLocked now s = (s\<lparr>lastUpdate := Some now\<rparr>, (transferred s, totalBytes s))"

definition reportCurrent ::
  "int \<Rightarrow> StageProgressTracker \<Rightarrow> StageProgressTracker \<times> (64 word \<times> 64 word) option" where
  "reportCurrent now s =
     (if goalCount s = 0 \<or> spCount s \<noteq> goalCount s then (s, None)
      else case snapshotForReportLocked now s of (s', r) \<Rightarrow> (s', Some r))"

text \<open>The locked part of \<open>AddBytesToTotal\<close>; the flag says that the call goes on to \<open>reportCurrent\<close>.\<close>

definition AddBytesLocked :: "64 word \<Rightarrow> StageProgressTracker \<Rightarrow> StageProgressTracker \<times> bool" where
  "AddBytesLocked bytes s =
     (if goalCount s \<noteq> 0 \<and> spCount s = goalCount s then (s, False)
      else let s' = s\<lparr>totalBytes := totalBytes s + bytes, spCount := spCount s + 1\<rparr>
           in (s', spCount s' = goalCount s' \<and> 0 < sint (transferred s')))"

definition AddBytesToTotal ::
  "int \<Rightarrow> 64 word \<Rightarrow> StageProgressTracker \<Rightarrow> StageProgressTracker \<times> (64 word \<times> 64 word) option" where
  "AddBytesToTotal now bytes s =
     (case AddBytesLocked bytes s of (s', shouldReport) \<Rightarrow>
        if shouldReport then reportCurrent now s' else (s', None))"

definition Progress ::
  "int \<Rightarrow> 64 word \<Rightarrow> StageProgressTracker \<Rightarrow> StageProgressTracker \<times> (64 word \<times> 64 word) option" where
  "Progress now received s =
     (let newTransferred = transferred s + received; s1 = s\<lparr>transferred := newTransferred\<rparr> in
      if goalCount s1 = 0 \<or> spCount s1 \<noteq> goalCount s1 then (s1, None)
      else if (case lastUpdate s1 of
                 None \<Rightarrow> True
               | Some t \<Rightarrow> (0 \<le> sint newTransferred \<and> sint (totalBytes s1) \<le> sint newTransferred) \<or>
                           ClientFileStreamUpdateInterval \<le> now - t)
           then case snapshotForReportLocked now s1 of (s2, r) \<Rightarrow> (s2, Some r)
           else (s1, None))"

section \<open>The trackers of both phases\<close>

record multiPhaseProgressTracker =
  mpPhase1 :: StageProgressTracker
  mpBackground :: StageProgressTracker
  mpActive :: transferPhase
  mpReported :: "(transferPhase \<times> 64 word \<times> 64 word) list"

definition newMultiPhaseProgressTracker :: multiPhaseProgressTracker where
  "newMultiPhaseProgressTracker =
     \<lparr>mpPhase1 = newStageProgressTracker, mpBackground = newStageProgressTracker,
      mpActive = phase1TransferPhase, mpReported = []\<rparr>"

definition reportIfActive ::
  "transferPhase \<Rightarrow> (64 word \<times> 64 word) option \<Rightarrow> multiPhaseProgressTracker \<Rightarrow> multiPhaseProgressTracker" where
  "reportIfActive phase r t =
     (case r of
        None \<Rightarrow> t
      | Some (received, mx) \<Rightarrow>
          if mpActive t = phase then t\<lparr>mpReported := mpReported t @ [(phase, received, mx)]\<rparr> else t)"

text \<open>An operation of the tracker that \<open>GetFromPhase\<close> selects, with its report.\<close>

definition on_phase ::
  "transferPhase \<Rightarrow> (StageProgressTracker \<Rightarrow> StageProgressTracker \<times> (64 word \<times> 64 word) option) \<Rightarrow>
     multiPhaseProgressTracker \<Rightarrow> multiPhaseProgressTracker" where
  "on_phase phase f t =
     (case phase of
        backgroundTransferPhase \<Rightarrow>
          (case f (mpBackground t) of (s, r) \<Rightarrow> reportIfActive phase r (t\<lparr>mpBackground := s\<rparr>))
      | phase1TransferPhase \<Rightarrow>
          (case f (mpPhase1 t) of (s, r) \<Rightarrow> reportIfActive phase r (t\<lparr>mpPhase1 := s\<rparr>)))"

definition SetGoalCounts :: "int \<Rightarrow> int \<Rightarrow> int \<Rightarrow> multiPhaseProgressTracker \<Rightarrow> multiPhaseProgressTracker" where
  "SetGoalCounts now phase1Count backgroundCount t =
     on_phase phase1TransferPhase (reportCurrent now)
       (t\<lparr>mpPhase1 := SetGoalCount phase1Count (mpPhase1 t), mpBackground := SetGoalCount backgroundCount (mpBackground t)\<rparr>)"

definition SetBackground :: "int \<Rightarrow> multiPhaseProgressTracker \<Rightarrow> multiPhaseProgressTracker" where
  "SetBackground now t =
     on_phase backgroundTransferPhase (reportCurrent now) (t\<lparr>mpActive := backgroundTransferPhase\<rparr>)"

section \<open>Determinate progress\<close>

text \<open>The steps a tracker can take, in any interleaving of the goroutines that share it.\<close>

datatype progress_op = OpSetGoal int | OpAddBytes "64 word" | OpReportCurrent int | OpProgress int "64 word"

fun progress_exec :: "progress_op \<Rightarrow> StageProgressTracker \<Rightarrow> StageProgressTracker \<times> (64 word \<times> 64 word) option" where
  "progress_exec (OpSetGoal n) s = (SetGoalCount n s, None)"
| "progress_exec (OpAddBytes b) s = (fst (AddBytesLocked b s), None)"
| "progress_exec (OpReportCurrent now) s = reportCurrent now s"
| "progress_exec (OpProgress now b) s = Progress now b s"

fun progress_run :: "progress_op list \<Rightarrow> StageProgressTracker \<Rightarrow> StageProgressTracker \<times> (64 word \<times> 64 word) list" where
  "progress_run [] s = (s, [])"
| "progress_run (op # ops) s =
     (case progress_exec op s of (s', r) \<Rightarrow>
        case progress_run ops s' of (s'', rs) \<Rightarrow> (s'', (case r of None \<Rightarrow> rs | Some x \<Rightarrow> x # rs)))"

abbreviation determinate :: "StageProgressTracker \<Rightarrow> bool" where
  "determinate s \<equiv> goalCount s \<noteq> 0 \<and> spCount s = goalCount s"

lemma progress_exec_determinate:
  "determinate s \<Longrightarrow> progress_exec op s = (s', r) \<Longrightarrow> determinate s' \<and> totalBytes s' = totalBytes s \<and>
     (\<forall>x. r = Some x \<longrightarrow> snd x = totalBytes s)"
  by (cases op)
    (auto simp: SetGoalCount_def AddBytesLocked_def reportCurrent_def Progress_def snapshotForReportLocked_def Let_def
      split: if_splits)

lemma progress_exec_report:
  "progress_exec op s = (s', Some x) \<Longrightarrow> determinate s"
  by (cases op) (auto simp: reportCurrent_def Progress_def Let_def split: if_splits)

lemma progress_run_determinate:
  "determinate s \<Longrightarrow> x \<in> set (snd (progress_run ops s)) \<Longrightarrow> snd x = totalBytes s"
proof (induction ops arbitrary: s)
  case (Cons op ops)
  obtain s' r where e: "progress_exec op s = (s', r)" by fastforce
  obtain s'' rs where u: "progress_run ops s' = (s'', rs)" by fastforce
  from progress_exec_determinate [OF Cons.prems(1) e] Cons.IH [of s'] Cons.prems(2) e u show ?case
    by (auto split: option.splits)
qed simp

text \<open>
  However the goroutines interleave, all reports of a tracker carry the same total: nothing is
  reported before the size of every expected transfer is known, and sizes that arrive later are
  ignored.
\<close>

theorem progress_total_constant:
  assumes "x \<in> set (snd (progress_run ops s))" and "y \<in> set (snd (progress_run ops s))"
  shows "snd x = snd y"
  using assms
proof (induction ops arbitrary: s)
  case (Cons op ops)
  obtain s' r where e: "progress_exec op s = (s', r)" by fastforce
  obtain s'' rs where u: "progress_run ops s' = (s'', rs)" by fastforce
  show ?case
  proof (cases r)
    case None
    with Cons.IH [of s'] Cons.prems e u show ?thesis by simp
  next
    case (Some z)
    have "determinate s" using progress_exec_report e Some by blast
    from progress_run_determinate [OF this Cons.prems(1)] progress_run_determinate [OF this Cons.prems(2)]
    show ?thesis by simp
  qed
qed simp

theorem progress_total_constant_witness:
  "snd (5 :: 64 word, 7 :: 64 word) = snd (7 :: 64 word, 7 :: 64 word)"
  by (rule progress_total_constant [where s = newStageProgressTracker and
        ops = "[OpAddBytes 7, OpProgress 1 5, OpSetGoal 1, OpReportCurrent 2, OpAddBytes 9, OpProgress 3 2]"]) code_simp+

end
