(* ===== verification/PathRemap.thy ===== *)
theory PathRemap
  imports GoPath
begin

text \<open>
  Path helpers of the engine (core/apap-engine/util/path.go) on a Unix system: the child test, the
  exclusion patterns, and the remapping of a file found on the target below a globbed remote path
  to its local destination. The remote path comes from the target, so what matters is that the
  destination cannot leave the directory of the local template. Glob matching (doublestar) is a
  parameter; \<open>filepath.FromSlash\<close> is the identity on Unix.
\<close>

section \<open>The code\<close>

datatype remap_error =
    UnsupportedMetachar string
  | IsDirectory string
  | CoordinateSpaceMismatch string string
  | RemoteNotConcrete string
  | ConcreteMismatch string string
  | LocalGlobbed string
  | WildcardSuffixMismatch string string
  | PatternError
  | RemotePathPatternMismatch string string
  | PathTraversal string string
  | RelativeTemplateAbsolutePath string string
  | RelativeTemplateBaseEscape string string

type_synonym matcher = "string \<Rightarrow> string \<Rightarrow> bool option"

definition IsChildPath :: "string \<Rightarrow> string \<Rightarrow> bool" where
  "IsChildPath base child =
     (case Rel base child of
        None \<Rightarrow> False
      | Some rel \<Rightarrow>
          if rel = ''.'' \<or> rel = ''..'' then False
          else if HasPrefix rel ''../'' then False
          else if IsAbs rel then False
          else True)"

definition ForceToSlash :: "string \<Rightarrow> string" where
  "ForceToSlash p = ReplaceByte p (CHR 0x5C) (CHR ''/'')"

definition containsMetachar :: "string \<Rightarrow> bool" where
  "containsMetachar p = Contains p ''*''"

fun wildcard_index :: "string list \<Rightarrow> nat option" where
  "wildcard_index [] = None"
| "wildcard_index (segment # segments) =
     (if CHR ''*'' \<in> set segment then Some 0 else map_option Suc (wildcard_index segments))"

definition splitAtFirstWildcardSegment :: "string \<Rightarrow> string \<times> string \<times> bool" where
  "splitAtFirstWildcardSegment path =
     (let segments = Split path (CHR ''/'') in
      case wildcard_index segments of
        Some i \<Rightarrow>
          (if i = 0 then ([], Join (drop i segments) ''/'', True)
           else if i = 1 \<and> segments ! 0 = [] then (''/'', Join (drop i segments) ''/'', True)
           else (Join (take i segments) ''/'', Join (drop i segments) ''/'', True))
      | None \<Rightarrow> (path, [], False))"

definition joinPrefixAndDelta :: "string \<Rightarrow> string \<Rightarrow> string" where
  "joinPrefixAndDelta pre delta =
     (if pre = [] then delta else if delta = [] then pre else pre @ ''/'' @ delta)"

text \<open>\<open>unicode.IsLetter\<close> of a byte read as a rune: the letters of Latin-1.\<close>

definition is_letter :: "char \<Rightarrow> bool" where
  "is_letter c =
     (let n = (of_char c :: nat) in
      65 \<le> n \<and> n \<le> 90 \<or> 97 \<le> n \<and> n \<le> 122 \<or> n = 170 \<or> n = 181 \<or> n = 186 \<or> (192 \<le> n \<and> n \<noteq> 215 \<and> n \<noteq> 247))"

definition isAbsolutePath :: "string \<Rightarrow> bool" where
  "isAbsolutePath p =
     (let normalised = ForceToSlash p in
      if HasPrefix normalised ''/'' then True
      else if 3 \<le> length normalised \<and> is_letter (normalised ! 0) \<and> normalised ! 1 = CHR '':'' \<and> normalised ! 2 = CHR ''/''
      then True else False)"

definition containsParentPathSegment :: "string \<Rightarrow> bool" where
  "containsParentPathSegment p = list_ex (\<lambda>segment. segment = ''..'') (Split p (CHR ''/''))"

definition validateRemappedLocalPath :: "string \<Rightarrow> string \<Rightarrow> string list \<Rightarrow> remap_error option" where
  "validateRemappedLocalPath localTemplate remappedLocal pathParts =
     (case find containsParentPathSegment pathParts of
        Some pathPart \<Rightarrow> Some (PathTraversal remappedLocal pathPart)
      | None \<Rightarrow>
          if isAbsolutePath localTemplate then None
          else
            let cleaned = ForceToSlash (Clean remappedLocal) in
            if isAbsolutePath cleaned then Some (RelativeTemplateAbsolutePath remappedLocal localTemplate)
            else if cleaned = ''..'' \<or> HasPrefix cleaned ''../'' then Some (RelativeTemplateBaseEscape remappedLocal localTemplate)
            else None)"

definition path_check :: "string \<Rightarrow> remap_error option" where
  "path_check p =
     (if ContainsAny p ''?[]{}'' then Some (UnsupportedMetachar p)
      else if HasSuffix p ''/'' then Some (IsDirectory p)
      else None)"

text \<open>The last part: the delta below the remote prefix is put below the local prefix.\<close>

definition remap_delta :: "string \<Rightarrow> string \<Rightarrow> string \<Rightarrow> remap_error + string" where
  "remap_delta cleanLocal localPrefix delta =
     (let remappedLocal = joinPrefixAndDelta localPrefix delta in
      case validateRemappedLocalPath cleanLocal remappedLocal [delta] of
        Some e \<Rightarrow> Inl e
      | None \<Rightarrow> Inr (Clean remappedLocal))"

definition RemapGlobbedPath :: "matcher \<Rightarrow> string \<Rightarrow> string \<Rightarrow> string \<Rightarrow> remap_error + string" where
  "RemapGlobbedPath match local remote remoteBase =
     (let nl = ForceToSlash local; nr = ForceToSlash remote; nb = ForceToSlash remoteBase in
      case List.map_filter path_check [nl, nr, nb] of
        e # _ \<Rightarrow> Inl e
      | [] \<Rightarrow>
         (let cleanLocal = ForceToSlash (Clean nl);
              cleanRemote = ForceToSlash (Clean nr);
              cleanRemoteBase = ForceToSlash (Clean nb)
          in if isAbsolutePath cleanRemote \<noteq> isAbsolutePath cleanRemoteBase then Inl (CoordinateSpaceMismatch remote remoteBase)
             else if containsMetachar cleanRemote then Inl (RemoteNotConcrete remote)
             else if \<not> containsMetachar cleanRemoteBase then
               (if cleanRemote \<noteq> cleanRemoteBase then Inl (ConcreteMismatch remote remoteBase)
                else if containsMetachar cleanLocal then Inl (LocalGlobbed local)
                else Inr cleanLocal)
             else
               (case splitAtFirstWildcardSegment cleanLocal of (localPrefix, localSuffix, localHasWildcardSegment) \<Rightarrow>
                case splitAtFirstWildcardSegment cleanRemoteBase of (remotePrefix, remoteSuffix, remoteHasWildcardSegment) \<Rightarrow>
                  if \<not> localHasWildcardSegment \<or> \<not> remoteHasWildcardSegment \<or> localSuffix \<noteq> remoteSuffix
                  then Inl (WildcardSuffixMismatch local remoteBase)
                  else case match cleanRemoteBase cleanRemote of
                         None \<Rightarrow> Inl PatternError
                       | Some False \<Rightarrow> Inl (RemotePathPatternMismatch remote remoteBase)
                       | Some True \<Rightarrow>
                           if remotePrefix = [] then remap_delta cleanLocal localPrefix cleanRemote
                           else remap_delta cleanLocal localPrefix
                                  (TrimPrefix (TrimPrefix cleanRemote remotePrefix) ''/''))))"

fun matches_loop :: "matcher \<Rightarrow> string \<Rightarrow> string list \<Rightarrow> bool option" where
  "matches_loop match path [] = Some False"
| "matches_loop match path (pattern # patterns) =
     (case match (ForceToSlash (Clean (ForceToSlash pattern))) path of
        None \<Rightarrow> None
      | Some True \<Rightarrow> Some True
      | Some False \<Rightarrow> matches_loop match path patterns)"

definition MatchesAny :: "matcher \<Rightarrow> string \<Rightarrow> string list \<Rightarrow> bool option" where
  "MatchesAny match filePath patterns = matches_loop match (ForceToSlash (Clean (ForceToSlash filePath))) patterns"

section \<open>Properties\<close>

lemma path_comps_Clean_append:
  assumes "a \<noteq> []" and "''..'' \<notin> set (Split d (CHR ''/''))"
  shows "path_comps (Clean (a @ ''/'' @ d)) =
    path_comps (Clean a) @ filter (\<lambda>c. c \<noteq> [] \<and> c \<noteq> ''.'') (Split d (CHR ''/''))"
proof -
  let ?r = "HasPrefix a ''/''"
  have r: "HasPrefix (a @ ''/'' @ d) ''/'' = ?r" using assms(1) by (cases a) auto
  have "clean_stack ?r (a @ ''/'' @ d) = foldl (clean_push ?r) (clean_stack ?r a) (Split d (CHR ''/''))"
    by (simp add: clean_stack_def Split_append_slash)
  also have "\<dots> = rev (filter (\<lambda>c. c \<noteq> [] \<and> c \<noteq> ''.'') (Split d (CHR ''/''))) @ clean_stack ?r a"
    using assms(2) by (intro foldl_push_plain) auto
  finally show ?thesis unfolding path_comps_Clean r by simp
qed

lemma path_comps_Clean_plain:
  assumes "''..'' \<notin> set (Split d (CHR ''/''))"
  shows "path_comps (Clean d) = filter (\<lambda>c. c \<noteq> [] \<and> c \<noteq> ''.'') (Split d (CHR ''/''))"
proof -
  have "\<forall>c\<in>set (Split d (CHR ''/'')). c \<noteq> ''..''" using assms by auto
  from foldl_push_plain [OF this] show ?thesis by (simp add: path_comps_Clean clean_stack_def)
qed

lemma IsAbs_Clean' [simp]: "IsAbs (Clean p) = IsAbs p"
  unfolding IsAbs_def by (rule IsAbs_Clean)

lemma ForceToSlash_idem [simp]: "ForceToSlash (ForceToSlash p) = ForceToSlash p"
  by (simp add: ForceToSlash_def ReplaceByte_def)

lemma isAbsolutePath_ForceToSlash [simp]: "isAbsolutePath (ForceToSlash p) = isAbsolutePath p"
  by (simp add: isAbsolutePath_def)

lemma IsAbs_isAbsolutePath: "IsAbs p \<Longrightarrow> isAbsolutePath p"
  by (auto simp: IsAbs_def isAbsolutePath_def ForceToSlash_def ReplaceByte_def)

lemma remap_delta_contained:
  assumes "remap_delta cl pre d = Inr p"
  shows "contained pre p \<and> (pre \<noteq> [] \<longrightarrow> IsAbs p = IsAbs pre) \<and> (\<not> isAbsolutePath cl \<longrightarrow> \<not> isAbsolutePath p)"
proof -
  let ?j = "joinPrefixAndDelta pre d"
  have v: "validateRemappedLocalPath cl ?j [d] = None" and p: "p = Clean ?j"
    using assms by (auto simp: remap_delta_def Let_def split: option.splits)
  have d: "''..'' \<notin> set (Split d (CHR ''/''))"
    using v by (auto simp: validateRemappedLocalPath_def containsParentPathSegment_def list_ex_iff split: if_splits option.splits)
  consider "pre = []" | "pre \<noteq> []" "d = []" | "pre \<noteq> []" "d \<noteq> []" by blast
  then have "contained pre p \<and> (pre \<noteq> [] \<longrightarrow> IsAbs p = IsAbs pre)"
  proof cases
    case 1
    then show ?thesis
      using path_comps_Clean_plain [OF d] d p
      by (auto simp: joinPrefixAndDelta_def contained_def path_comps_def Clean_def clean_stack_def build_clean_def clean_push_def)
  next
    case 2
    then show ?thesis using p by (simp add: joinPrefixAndDelta_def contained_def)
  next
    case 3
    then have "IsAbs ?j = IsAbs pre" by (cases pre) (auto simp: joinPrefixAndDelta_def IsAbs_def)
    moreover have "contained pre p"
      using 3 path_comps_Clean_append [OF 3(1) d] d p by (auto simp: joinPrefixAndDelta_def contained_def)
    ultimately show ?thesis using p by simp
  qed
  moreover have "\<not> isAbsolutePath cl \<longrightarrow> \<not> isAbsolutePath p"
    using v p by (auto simp: validateRemappedLocalPath_def Let_def split: option.splits if_splits)
  ultimately show ?thesis by blast
qed


lemma wildcard_index_Some:
  "wildcard_index segs = Some i \<Longrightarrow> i < length segs \<and> CHR ''*'' \<in> set (segs ! i)"
  by (induction segs arbitrary: i) (auto split: if_splits)

text \<open>A template that starts with a wildcard segment is relative.\<close>

lemma hd_Split: "hd (Split p (CHR ''/'')) = takeWhile (\<lambda>c. c \<noteq> CHR ''/'') p"
proof (induction p)
  case (Cons c p)
  then show ?case by (cases "Split p (CHR ''/'')") (auto split: if_splits)
qed simp

lemma splitAt_empty_prefix:
  assumes "splitAtFirstWildcardSegment p = ([], suf, True)"
  shows "CHR ''*'' \<in> set (takeWhile (\<lambda>c. c \<noteq> CHR ''/'') p)"
proof -
  let ?segs = "Split p (CHR ''/'')"
  obtain i where i: "wildcard_index ?segs = Some i"
    using assms by (auto simp: splitAtFirstWildcardSegment_def Let_def split: option.splits)
  have "i = 0"
  proof (rule ccontr)
    assume "i \<noteq> 0"
    with assms i have *: "Join (take i ?segs) ''/'' = []" "\<not> (i = 1 \<and> ?segs ! 0 = [])"
      by (auto simp: splitAtFirstWildcardSegment_def Let_def split: if_splits)
    obtain s ss where ss: "?segs = s # ss" by (cases ?segs) auto
    with * \<open>i \<noteq> 0\<close> wildcard_index_Some [OF i] show False
      by (cases i; cases "i - 1"; cases ss) auto
  qed
  with wildcard_index_Some [OF i] have "CHR ''*'' \<in> set (?segs ! 0)" by simp
  then show ?thesis using hd_Split [of p] by (simp add: hd_conv_nth)
qed

lemma wildcard_first_relative:
  assumes "CHR ''*'' \<in> set (takeWhile (\<lambda>c. c \<noteq> CHR ''/'') p)" and "CHR 0x5C \<notin> set p"
  shows "\<not> isAbsolutePath p"
proof
  assume a: "isAbsolutePath p"
  have n: "ForceToSlash p = p"
    unfolding ForceToSlash_def ReplaceByte_def using assms(2) by (intro map_idI) auto
  obtain c q where p: "p = c # CHR '':'' # CHR ''/'' # q" "is_letter c"
    using a assms(1) unfolding isAbsolutePath_def n
    by (cases p; cases "tl p"; cases "tl (tl p)") (auto simp: Let_def split: if_splits)
  then have "CHR ''*'' \<in> set (takeWhile (\<lambda>c. c \<noteq> CHR ''/'') [c, CHR '':''])"
    using assms(1) by (simp split: if_splits)
  then have "c = CHR ''*''" by (auto split: if_splits)
  with p(2) show False by (simp add: is_letter_def)
qed

lemma ForceToSlash_no_backslash: "CHR 0x5C \<notin> set (ForceToSlash p)"
  by (auto simp: ForceToSlash_def ReplaceByte_def)

text \<open>
  C23. A file the target reports below a globbed remote path is put below the concrete prefix of the
  local template, whatever path the target reports and whatever the glob matcher accepts: the
  destination extends that prefix by components none of which leads upwards, and it is absolute
  exactly if the prefix is.
\<close>

theorem RemapGlobbedPath_contained:
  assumes "RemapGlobbedPath match local remote remoteBase = Inr p"
    and "containsMetachar (ForceToSlash (Clean (ForceToSlash remoteBase)))"
    and "splitAtFirstWildcardSegment (ForceToSlash (Clean (ForceToSlash local))) = (localPrefix, localSuffix, w)"
  shows "contained localPrefix p \<and> IsAbs p = IsAbs localPrefix"
proof -
  let ?cl = "ForceToSlash (Clean (ForceToSlash local))"
  obtain d where d: "remap_delta ?cl localPrefix d = Inr p" and w: w
    using assms by (auto simp: RemapGlobbedPath_def Let_def split: list.splits if_splits prod.splits option.splits bool.splits)
  note c = remap_delta_contained [OF d]
  show ?thesis
  proof (cases "localPrefix = []")
    case True
    then have "splitAtFirstWildcardSegment ?cl = ([], localSuffix, True)" using assms(3) w by simp
    from wildcard_first_relative [OF splitAt_empty_prefix [OF this] ForceToSlash_no_backslash]
    have "\<not> isAbsolutePath ?cl" .
    with c True show ?thesis using IsAbs_isAbsolutePath by (auto simp: IsAbs_def)
  qed (use c in blast)
qed

theorem RemapGlobbedPath_contained_witness:
  "contained ''/runs/r1'' ''/runs/r1/a/x.txt'' \<and> IsAbs ''/runs/r1/a/x.txt'' = IsAbs ''/runs/r1''"
  by (rule RemapGlobbedPath_contained [where match = "\<lambda>p s. Some True" and local = "''/runs/r1/*/x.txt''"
        and remote = "''/tmp/a/x.txt''" and remoteBase = "''/tmp/*/x.txt''" and localSuffix = "''*/x.txt''" and w = True])
    code_simp+

lemma Join_plain_child:
  assumes ts: "ts \<noteq> []" "\<forall>c\<in>set ts. plain_comp c"
  shows "Join ts ''/'' \<noteq> ''.'' \<and> Join ts ''/'' \<noteq> ''..'' \<and> \<not> HasPrefix (Join ts ''/'') ''../'' \<and>
    \<not> IsAbs (Join ts ''/'')"
proof -
  have cl: "clean_list False ts" using clean_listI [of ts False 0] ts by simp
  have sp: "Split (Join ts ''/'') (CHR ''/'') = ts"
    using ts by (intro Split_Join) (auto simp: plain_comp_def)
  have "hd ts \<noteq> ''..''" using ts by (cases ts) (auto simp: plain_comp_def)
  then have "Join ts ''/'' \<noteq> ''..'' \<and> \<not> HasPrefix (Join ts ''/'') ''../''"
    using sp hd_Split [of "Join ts ''/''"] by auto
  then show ?thesis
    using Join_not_dot [OF cl] Join_starts_slash [OF cl] by (simp add: IsAbs_def)
qed

text \<open>
  The child test is exact: it holds for the paths that are absolute like the base and whose
  components extend those of the base by at least one component, none of them leading upwards.
\<close>

theorem IsChildPath_iff:
  "IsChildPath base child \<longleftrightarrow> IsAbs base = IsAbs child \<and>
     (\<exists>ts. ts \<noteq> [] \<and> path_comps (Clean child) = path_comps (Clean base) @ ts \<and> ''..'' \<notin> set ts)"
  (is "?l \<longleftrightarrow> ?abs \<and> (\<exists>ts. ?P ts)")
proof
  let ?b = "Clean base" and ?c = "Clean child"
  assume l: ?l
  then obtain rel where rel: "Rel base child = Some rel" "rel \<noteq> ''.''" "rel \<noteq> ''..''" "\<not> HasPrefix rel ''../''"
    by (auto simp: IsChildPath_def split: option.splits if_splits)
  then have ne: "?c \<noteq> ?b" by (auto simp: Rel_def)
  have r: "Rel ?b ?c = Some rel" using rel(1) by (simp add: Rel_def)
  from Rel_inside [OF _ _ ne r rel(3,4)] obtain ts
    where ts: "comps ?c = path_comps ?b @ ts" "ts = [] \<or> hd ts \<noteq> ''..''" by auto
  have abs: ?abs
    using rel(1) ne IsAbs_Clean' [of base] IsAbs_Clean' [of child]
    by (auto simp: Rel_def Let_def IsAbs_def simp del: IsAbs_Clean IsAbs_Clean' split: if_splits)
  obtain us where us: "path_comps ?c = path_comps ?b @ us" "''..'' \<notin> set us"
    using clean_inside_contained [OF ts(1,2) refl] by (auto simp: contained_def)
  have "us \<noteq> []"
  proof
    assume "us = []"
    then have "path_comps ?c = path_comps ?b" using us by simp
    then have "?c = ?b" using abs unfolding path_comps_Clean by (simp add: Clean_def IsAbs_def)
    with ne show False ..
  qed
  with us abs show "?abs \<and> (\<exists>ts. ?P ts)" by blast
next
  let ?b = "Clean base" and ?c = "Clean child"
  assume "?abs \<and> (\<exists>ts. ?P ts)"
  then obtain ts where abs: ?abs and ts: "ts \<noteq> []" "path_comps ?c = path_comps ?b @ ts" "''..'' \<notin> set ts" by blast
  have ne: "?c \<noteq> ?b" using ts by auto
  have dot: "?c \<noteq> ''.''" using ts by (auto simp: path_comps_def)
  have "Rel base child = Some (Join ts ''/'')"
  proof -
    have "strip_common (path_comps ?b) (comps ?c) = ([], ts)" using ts(2) dot by (simp add: path_comps_def [of ?c])
    moreover have "HasPrefix (if ?b = ''.'' then [] else ?b) ''/'' = HasPrefix ?c ''/''"
      using abs IsAbs_Clean [of base] IsAbs_Clean [of child] by (auto simp: IsAbs_def simp del: IsAbs_Clean)
    ultimately show ?thesis using ne by (simp add: Rel_def Let_def comps_path_comps del: HasPrefix_iff)
  qed
  moreover have "\<forall>c\<in>set ts. plain_comp c"
    using clean_list_comp [OF clean_list_path_comps [of child]] ts by (auto simp: plain_comp_def)
  ultimately show ?l using Join_plain_child [OF ts(1)] by (simp add: IsChildPath_def)
qed

end
