(* ===== verification/TransferManager.thy ===== *)
theory TransferManager
  imports Manifest TransferProgress PathRemap "HOL-Library.AList" "HOL-Library.Multiset"
begin

text \<open>
  The transfer manager of a recipe run (core/apap-engine/recipe/transfer_manager.go) with the errors
  it collects (transfer_errors.go). The state holds what the manager keeps, the wait group counters,
  the goroutines of the concrete transfers that are in flight, the completion trackers, and what the
  outside sees: notifications, completions and removed files. Writing the manifest, glob matching and
  the time are an environment; the answer of the agent to \<open>ListFiles\<close> and the outcome of a transfer
  are arguments. \<open>Listen\<close> and \<open>flushTransfers\<close> are cut where they wait, and the pieces are the rules
  of a step relation in which the goroutines of the concrete transfers finish in any order.
\<close>

section \<open>Data\<close>

record FileTransfer =
  RemotePath :: string
  LocalPath :: string
  ftComponentType :: ComponentType
  Exclude :: "string list"

datatype AgentConnSupplier = NoSupplier | NilConnection | NilClient | Connected

record TransferRequest =
  trTransfer :: FileTransfer
  ManifestRelativePath :: string
  trSupplier :: AgentConnSupplier
  ImmediateRetrieval :: bool
  BackgroundTransfer :: bool
  trCompletion :: "nat option"

record FileInfo =
  fiPath :: string
  fiIsDir :: bool
  fiError :: string
  fiSize :: "64 word"

datatype transfer_error =
    SupplierError AgentConnSupplier
  | ListFilesError string
  | FileInfoCount nat
  | NotOnTarget string
  | ExcludeError
  | RemapError remap_error
  | SlotError slot_error
  | TransferFailed string
  | PendingEntryError
  | UpdateEntryError
  | RemoveEntryError

type_synonym transferErrorKey = "string \<times> string"

datatype transfer_message =
    RetrieveFiles "(transferErrorKey \<times> transfer_error) list" nat
  | RetrieveFile string transfer_error
  | UserCanceled

datatype stage_event =
    StageStart transferPhase
  | StageEnd transferPhase "transfer_message option"
  | Phase1Complete bool

datatype completion_result = Completed | Failed string | NotListening | NoLongerListening

record transferRequestCompletionTracker =
  ctRequest :: TransferRequest
  ctTotal :: nat
  ctCompleted :: nat
  ctFailed :: bool

text \<open>A goroutine of \<open>startConcreteTransfer\<close>; \<open>gBase\<close> says that it counts in \<open>baseWg\<close>.\<close>

record concrete =
  gTracker :: nat
  gPhase :: transferPhase
  gTransfer :: FileTransfer
  gBase :: bool

record TransferManager =
  phase1TransferCount :: int
  backgroundTransferCount :: int
  deferredPhase1Transfers :: "TransferRequest list"
  deferredBackgroundTransfers :: "TransferRequest list"
  completedTransfers :: "FileTransfer list"
  baseCancelled :: bool
  mandatoryCancelled :: bool
  baseWg :: nat
  phase1Wg :: nat
  backgroundWg :: nat
  pendingBackgroundConcreteTransfers :: int
  errPhase1 :: "(transferErrorKey \<times> transfer_error) list"
  errBackground :: "(transferErrorKey \<times> transfer_error) list"
  startedPhaseStages :: "transferPhase list"
  stageProgressTrackers :: multiPhaseProgressTracker
  manifestUpdater :: Updater
  trackers :: "transferRequestCompletionTracker list"
  inFlight :: "concrete list"
  notified :: "stage_event list"
  completions :: "(nat \<times> completion_result) list"
  removedFiles :: "string list"

record tm_env =
  eWrite :: writer
  eMatch :: matcher
  eNow :: int

definition NewTransferManager :: "Updater \<Rightarrow> TransferManager" where
  "NewTransferManager u =
     \<lparr>phase1TransferCount = 0, backgroundTransferCount = 0, deferredPhase1Transfers = [],
      deferredBackgroundTransfers = [], completedTransfers = [], baseCancelled = False,
      mandatoryCancelled = False, baseWg = 0, phase1Wg = 0, backgroundWg = 0,
      pendingBackgroundConcreteTransfers = 0, errPhase1 = [], errBackground = [],
      startedPhaseStages = [], stageProgressTrackers = newMultiPhaseProgressTracker,
      manifestUpdater = u, trackers = [], inFlight = [], notified = [], completions = [], removedFiles = []\<rparr>"

section \<open>Phases, stages and errors\<close>

definition transferPhaseForRequest :: "TransferRequest \<Rightarrow> transferPhase" where
  "transferPhaseForRequest req = (if BackgroundTransfer req then backgroundTransferPhase else phase1TransferPhase)"

definition addTransferCount :: "transferPhase \<Rightarrow> TransferManager \<Rightarrow> TransferManager" where
  "addTransferCount phase t =
     (case phase of
        backgroundTransferPhase \<Rightarrow> t\<lparr>backgroundTransferCount := backgroundTransferCount t + 1\<rparr>
      | phase1TransferPhase \<Rightarrow> t\<lparr>phase1TransferCount := phase1TransferCount t + 1\<rparr>)"

definition startPhaseStage :: "transferPhase \<Rightarrow> TransferManager \<Rightarrow> TransferManager" where
  "startPhaseStage phase t =
     (if phase \<in> set (startedPhaseStages t) then t
      else t\<lparr>notified := notified t @ [StageStart phase], startedPhaseStages := phase # startedPhaseStages t\<rparr>)"

definition endPhaseStage :: "transferPhase \<Rightarrow> transfer_message option \<Rightarrow> TransferManager \<Rightarrow> TransferManager" where
  "endPhaseStage phase msg t =
     (if phase \<notin> set (startedPhaseStages t) then t
      else t\<lparr>notified := notified t @ [StageEnd phase msg], startedPhaseStages := removeAll phase (startedPhaseStages t)\<rparr>)"

definition newTransferErrorKey :: "FileTransfer \<Rightarrow> transferErrorKey" where
  "newTransferErrorKey transfer = (RemotePath transfer, LocalPath transfer)"

definition recordTransferError :: "transfer_error \<Rightarrow> FileTransfer \<Rightarrow> transferPhase \<Rightarrow> TransferManager \<Rightarrow> TransferManager" where
  "recordTransferError err transfer phase t =
     (case phase of
        backgroundTransferPhase \<Rightarrow> t\<lparr>errBackground := AList.update (newTransferErrorKey transfer) err (errBackground t)\<rparr>
      | phase1TransferPhase \<Rightarrow> t\<lparr>errPhase1 := AList.update (newTransferErrorKey transfer) err (errPhase1 t)\<rparr>)"

definition combined :: "TransferManager \<Rightarrow> (transferErrorKey \<times> transfer_error) list" where
  "combined t = foldl (\<lambda>m (key, err). AList.update key err m) (errPhase1 t) (errBackground t)"

definition transferErrorMessage :: "bool \<Rightarrow> (transferErrorKey \<times> transfer_error) list \<Rightarrow> transfer_message option" where
  "transferErrorMessage runSucceeded errs =
     (if runSucceeded \<and> length errs > 0 then
        (if length errs > 1 then Some (RetrieveFiles errs (length errs))
         else Some (RetrieveFile (fst (fst (errs ! 0))) (snd (errs ! 0))))
      else None)"

definition isTransferMandatory :: "FileTransfer \<Rightarrow> bool" where
  "isTransferMandatory transfer = IsLogComponentType (ftComponentType transfer)"

section \<open>The manifest and the completion of requests\<close>

definition update_manifest :: "tm_env \<Rightarrow> updater_op \<Rightarrow> transfer_error \<Rightarrow> TransferRequest \<Rightarrow> TransferManager \<Rightarrow> TransferManager" where
  "update_manifest e op err req t =
     (case updater_exec (eWrite e) op (manifestUpdater t) of (ok, u) \<Rightarrow>
        let t' = t\<lparr>manifestUpdater := u\<rparr> in
        if ok then t' else recordTransferError err (trTransfer req) (transferPhaseForRequest req) t')"

definition addPendingManifestEntry :: "tm_env \<Rightarrow> TransferRequest \<Rightarrow> TransferManager \<Rightarrow> TransferManager" where
  "addPendingManifestEntry e req t =
     (if ManifestRelativePath req = [] then t
      else update_manifest e (UAddPendingComponent (ManifestRelativePath req) (ftComponentType (trTransfer req)))
             PendingEntryError req t)"

definition finishManifestRequest :: "tm_env \<Rightarrow> TransferRequest \<Rightarrow> bool \<Rightarrow> TransferManager \<Rightarrow> TransferManager" where
  "finishManifestRequest e req artifactComplete t =
     (if ManifestRelativePath req = [] then t
      else update_manifest e
             (if artifactComplete then UClearPending (ManifestRelativePath req) else URemoveComponent (ManifestRelativePath req))
             UpdateEntryError req t)"

text \<open>\<open>complete\<close>: nothing without a completion, and only the first call counts.\<close>

definition complete :: "nat option \<Rightarrow> completion_result \<Rightarrow> TransferManager \<Rightarrow> TransferManager" where
  "complete c res t =
     (case c of
        None \<Rightarrow> t
      | Some i \<Rightarrow> if i \<in> fst ` set (completions t) then t else t\<lparr>completions := completions t @ [(i, res)]\<rparr>)"

definition finishTransferRequest :: "tm_env \<Rightarrow> TransferRequest \<Rightarrow> bool \<Rightarrow> TransferManager \<Rightarrow> TransferManager" where
  "finishTransferRequest e req artifactComplete t =
     (let t1 = finishManifestRequest e req artifactComplete t in
      if artifactComplete then complete (trCompletion req) Completed t1
      else complete (trCompletion req) (Failed (RemotePath (trTransfer req))) t1)"

definition tracker_done :: "tm_env \<Rightarrow> nat \<Rightarrow> bool \<Rightarrow> TransferManager \<Rightarrow> TransferManager" where
  "tracker_done e i success t =
     (let c = trackers t ! i;
          c' = c\<lparr>ctFailed := ctFailed c \<or> \<not> success, ctCompleted := ctCompleted c + 1\<rparr>;
          t' = t\<lparr>trackers := (trackers t)[i := c']\<rparr>
      in if ctCompleted c' \<noteq> ctTotal c' then t'
         else finishTransferRequest e (ctRequest c') (\<not> ctFailed c') t')"

definition add_bytes :: "tm_env \<Rightarrow> transferPhase \<Rightarrow> 64 word \<Rightarrow> TransferManager \<Rightarrow> TransferManager" where
  "add_bytes e phase bytes t =
     t\<lparr>stageProgressTrackers := on_phase phase (AddBytesToTotal (eNow e) bytes) (stageProgressTrackers t)\<rparr>"

section \<open>Starting transfers\<close>

definition registerPhaseTransfer :: "transferPhase \<Rightarrow> TransferManager \<Rightarrow> TransferManager" where
  "registerPhaseTransfer phase t =
     (case phase of
        backgroundTransferPhase \<Rightarrow>
          t\<lparr>backgroundWg := backgroundWg t + 1,
            pendingBackgroundConcreteTransfers := pendingBackgroundConcreteTransfers t + 1\<rparr>
      | phase1TransferPhase \<Rightarrow> t\<lparr>phase1Wg := phase1Wg t + 1\<rparr>)"

definition finishPhaseTransfer :: "transferPhase \<Rightarrow> TransferManager \<Rightarrow> TransferManager" where
  "finishPhaseTransfer phase t =
     (case phase of
        backgroundTransferPhase \<Rightarrow>
          t\<lparr>pendingBackgroundConcreteTransfers := pendingBackgroundConcreteTransfers t - 1,
            backgroundWg := backgroundWg t - 1\<rparr>
      | phase1TransferPhase \<Rightarrow> t\<lparr>phase1Wg := phase1Wg t - 1\<rparr>)"

definition startConcreteTransfer :: "concrete \<Rightarrow> TransferManager \<Rightarrow> TransferManager" where
  "startConcreteTransfer g t =
     (let t1 = (if gBase g then t\<lparr>baseWg := baseWg t + 1\<rparr> else t)
      in (registerPhaseTransfer (gPhase g) t1)\<lparr>inFlight := inFlight t @ [g]\<rparr>)"

text \<open>The loop over the listed files: it keeps the files to transfer, their total size and a failure.\<close>

fun filter_infos ::
  "tm_env \<Rightarrow> FileTransfer \<Rightarrow> transferPhase \<Rightarrow> FileInfo list \<Rightarrow> FileInfo list \<Rightarrow> 64 word \<Rightarrow> bool \<Rightarrow> TransferManager \<Rightarrow>
     FileInfo list \<times> 64 word \<times> bool \<times> TransferManager" where
  "filter_infos e transfer phase [] filtered total_size failed t = (filtered, total_size, failed, t)"
| "filter_infos e transfer phase (info # infos) filtered total_size failed t =
     (let infoTransfer = \<lparr>RemotePath = fiPath info, LocalPath = LocalPath transfer,
                          ftComponentType = ftComponentType transfer, Exclude = []\<rparr> in
      if fiIsDir info then filter_infos e transfer phase infos filtered total_size failed t
      else if fiError info \<noteq> [] then
        filter_infos e transfer phase infos filtered total_size True
          (if \<not> isTransferMandatory transfer then recordTransferError (NotOnTarget (fiError info)) infoTransfer phase t else t)
      else case MatchesAny (eMatch e) (fiPath info) (Exclude transfer) of
             None \<Rightarrow> filter_infos e transfer phase infos filtered total_size True (recordTransferError ExcludeError infoTransfer phase t)
           | Some True \<Rightarrow> filter_infos e transfer phase infos filtered total_size failed t
           | Some False \<Rightarrow> filter_infos e transfer phase infos (filtered @ [info]) (total_size + fiSize info) failed t)"

fun start_loop :: "tm_env \<Rightarrow> TransferRequest \<Rightarrow> nat \<Rightarrow> FileInfo list \<Rightarrow> TransferManager \<Rightarrow> TransferManager" where
  "start_loop e req i [] t = t"
| "start_loop e req i (fi # fis) t =
     (let transfer = trTransfer req; phase = transferPhaseForRequest req in
      start_loop e req i fis
        (case RemapGlobbedPath (eMatch e) (LocalPath transfer) (fiPath fi) (RemotePath transfer) of
           Inl err \<Rightarrow>
             tracker_done e i False
               (recordTransferError (RemapError err)
                  \<lparr>RemotePath = fiPath fi, LocalPath = LocalPath transfer, ftComponentType = ftComponentType transfer, Exclude = []\<rparr>
                  phase t)
         | Inr localPath \<Rightarrow>
             startConcreteTransfer
               \<lparr>gTracker = i, gPhase = phase,
                gTransfer = \<lparr>RemotePath = fiPath fi, LocalPath = localPath, ftComponentType = ftComponentType transfer, Exclude = []\<rparr>,
                gBase = \<not> isTransferMandatory transfer\<rparr> t))"

definition resolveTransferAgentConn :: "TransferRequest \<Rightarrow> transfer_error option" where
  "resolveTransferAgentConn req =
     (case trSupplier req of Connected \<Rightarrow> None | s \<Rightarrow> Some (SupplierError s))"

text \<open>A request that ends before any transfer starts, with its error if there is one.\<close>

definition request_ends :: "tm_env \<Rightarrow> TransferRequest \<Rightarrow> transfer_error option \<Rightarrow> TransferManager \<Rightarrow> TransferManager" where
  "request_ends e req err t =
     (let phase = transferPhaseForRequest req;
          t1 = (case err of None \<Rightarrow> t | Some x \<Rightarrow> recordTransferError x (trTransfer req) phase t)
      in add_bytes e phase 0 (finishTransferRequest e req False t1))"

definition glob_without_match :: "FileTransfer \<Rightarrow> FileInfo list \<Rightarrow> bool" where
  "glob_without_match transfer infos =
     (CHR ''*'' \<in> set (LocalPath transfer) \<and> CHR ''*'' \<in> set (RemotePath transfer) \<and>
      length infos = 1 \<and> fiError (infos ! 0) = ''file does not exist'')"

definition startTransferRequest ::
  "tm_env \<Rightarrow> string + FileInfo list list \<Rightarrow> TransferRequest \<Rightarrow> TransferManager \<Rightarrow> TransferManager" where
  "startTransferRequest e listing req t =
     (case resolveTransferAgentConn req of
        Some err \<Rightarrow> request_ends e req (Some err) t
      | None \<Rightarrow>
         (case listing of
            Inl err \<Rightarrow> request_ends e req (Some (ListFilesError err)) t
          | Inr responses \<Rightarrow>
              if length responses \<noteq> 1 then request_ends e req (Some (FileInfoCount (length responses))) t
              else if glob_without_match (trTransfer req) (responses ! 0) then request_ends e req None t
              else
                (case filter_infos e (trTransfer req) (transferPhaseForRequest req) (responses ! 0) [] 0 False t of
                   (filtered, total_size, failed, t1) \<Rightarrow>
                     let t2 = add_bytes e (transferPhaseForRequest req) total_size t1 in
                     if length filtered = 0 then finishTransferRequest e req False t2
                     else start_loop e req (length (trackers t2)) filtered
                            (t2\<lparr>trackers := trackers t2 @
                               [\<lparr>ctRequest = req, ctTotal = length filtered, ctCompleted = 0, ctFailed = failed\<rparr>]\<rparr>))))"

text \<open>The rest of the goroutine of a concrete transfer, from the acquisition of its slot on.\<close>

datatype concrete_outcome = SlotRefused slot_error | Received "string option" "slot_error option"

definition concrete_finish :: "tm_env \<Rightarrow> nat \<Rightarrow> concrete_outcome \<Rightarrow> TransferManager \<Rightarrow> TransferManager" where
  "concrete_finish e k outcome t =
     (let g = inFlight t ! k;
          (success, t1) =
            (case outcome of
               SlotRefused err \<Rightarrow> (False, recordTransferError (SlotError err) (gTransfer g) (gPhase g) t)
             | Received res released \<Rightarrow>
                 let (ok, t') =
                   (case res of
                      Some err \<Rightarrow> (False, recordTransferError (TransferFailed err) (gTransfer g) (gPhase g) t)
                    | None \<Rightarrow> (True, t\<lparr>completedTransfers := completedTransfers t @ [gTransfer g]\<rparr>))
                 in (case released of
                       None \<Rightarrow> (ok, t')
                     | Some err \<Rightarrow> (False, recordTransferError (SlotError err) (gTransfer g) (gPhase g) t')));
          t2 = finishPhaseTransfer (gPhase g) (tracker_done e (gTracker g) success t1);
          t3 = (if gBase g then t2\<lparr>baseWg := baseWg t2 - 1\<rparr> else t2)
      in t3\<lparr>inFlight := take k (inFlight t) @ drop (Suc k) (inFlight t)\<rparr>)"

section \<open>Listen and flush\<close>

definition handle_request ::
  "tm_env \<Rightarrow> string + FileInfo list list \<Rightarrow> TransferRequest \<Rightarrow> TransferManager \<Rightarrow> TransferManager" where
  "handle_request e listing req t =
     (let phase = transferPhaseForRequest req;
          t1 = addPendingManifestEntry e req (addTransferCount phase t)
      in if \<not> ImmediateRetrieval req then
           (if BackgroundTransfer req then t1\<lparr>deferredBackgroundTransfers := deferredBackgroundTransfers t1 @ [req]\<rparr>
            else t1\<lparr>deferredPhase1Transfers := deferredPhase1Transfers t1 @ [req]\<rparr>)
         else startTransferRequest e listing req (startPhaseStage phase t1))"

definition flushTransfer ::
  "tm_env \<Rightarrow> bool \<Rightarrow> string + FileInfo list list \<Rightarrow> TransferRequest \<Rightarrow> TransferManager \<Rightarrow> TransferManager" where
  "flushTransfer e runSucceeded listing req t =
     (if \<not> runSucceeded \<and> \<not> isTransferMandatory (trTransfer req)
      then finishTransferRequest e req False (add_bytes e (transferPhaseForRequest req) 0 t)
      else startTransferRequest e listing req t)"

definition remove_pending :: "tm_env \<Rightarrow> TransferRequest \<Rightarrow> TransferManager \<Rightarrow> TransferManager" where
  "remove_pending e req t = update_manifest e (URemovePendingComponent (ManifestRelativePath req)) RemoveEntryError req t"

definition removeDeferredPendingManifestEntries :: "tm_env \<Rightarrow> TransferManager \<Rightarrow> TransferManager" where
  "removeDeferredPendingManifestEntries e t =
     foldl (\<lambda>t req. remove_pending e req t)
       (foldl (\<lambda>t req. remove_pending e req t) t (deferredPhase1Transfers t)) (deferredBackgroundTransfers t)"

definition rollback :: "TransferManager \<Rightarrow> TransferManager" where
  "rollback t =
     t\<lparr>removedFiles := removedFiles t @ map LocalPath (filter (\<lambda>f. \<not> isTransferMandatory f) (completedTransfers t))\<rparr>"

definition hasPendingBackgroundTransfers :: "TransferManager \<Rightarrow> bool" where
  "hasPendingBackgroundTransfers t =
     (length (deferredBackgroundTransfers t) > 0 \<or> pendingBackgroundConcreteTransfers t > 0)"

definition shouldSkipBackgroundTransfersAfterPhase1 :: "bool \<Rightarrow> TransferManager \<Rightarrow> bool" where
  "shouldSkipBackgroundTransfersAfterPhase1 runSucceeded t = (runSucceeded \<and> baseCancelled t)"

definition set_goals :: "tm_env \<Rightarrow> TransferManager \<Rightarrow> TransferManager" where
  "set_goals e t =
     t\<lparr>stageProgressTrackers :=
         SetGoalCounts (eNow e) (phase1TransferCount t) (backgroundTransferCount t) (stageProgressTrackers t)\<rparr>"

text \<open>\<open>flushTransfers\<close> after the phase 1 transfers have finished, up to the background transfers.\<close>

definition phase1_end :: "tm_env \<Rightarrow> bool \<Rightarrow> TransferManager \<Rightarrow> TransferManager" where
  "phase1_end e runSucceeded t =
     (let phase1Msg = transferErrorMessage runSucceeded (errPhase1 t);
          t1 = (if runSucceeded \<and> phase1Msg = None
                then t\<lparr>notified := notified t @ [Phase1Complete (hasPendingBackgroundTransfers t)]\<rparr> else t);
          t2 = endPhaseStage phase1TransferPhase phase1Msg t1
      in if shouldSkipBackgroundTransfersAfterPhase1 runSucceeded t2
         then removeDeferredPendingManifestEntries e t2
         else let t3 = (if backgroundTransferCount t2 > 0 then startPhaseStage backgroundTransferPhase t2 else t2)
              in t3\<lparr>stageProgressTrackers := SetBackground (eNow e) (stageProgressTrackers t3)\<rparr>)"

definition background_end :: "bool \<Rightarrow> TransferManager \<Rightarrow> TransferManager" where
  "background_end runSucceeded t =
     endPhaseStage backgroundTransferPhase (transferErrorMessage runSucceeded (errBackground t)) t"

definition cancel_end :: "tm_env \<Rightarrow> TransferManager \<Rightarrow> TransferManager" where
  "cancel_end e t =
     endPhaseStage backgroundTransferPhase (Some UserCanceled)
       (endPhaseStage phase1TransferPhase (Some UserCanceled) (removeDeferredPendingManifestEntries e t))"

text \<open>
  Where \<open>Listen\<close> is: before it is called, in its loop, waiting for the base transfers before a
  rollback, flushing phase 1 or the background (with the requests not yet started), finished with
  the message of the flush, or cancelling.
\<close>

datatype listen_mode =
    Idle
  | Listening
  | RollingBack
  | FlushPhase1 bool "TransferRequest list"
  | FlushBackground bool "TransferRequest list"
  | Flushed "transfer_message option"
  | Cancelling
  | Cancelled

record tm_system =
  tm :: TransferManager
  tmMode :: listen_mode
  cancelFired :: bool
  added :: "TransferRequest list"

inductive tm_step :: "tm_env set \<Rightarrow> tm_system \<Rightarrow> tm_system \<Rightarrow> bool" for E :: "tm_env set" where
  listen: "tmMode s = Idle \<Longrightarrow>
    tm_step E s (s\<lparr>tmMode := (if cancelFired s then Cancelled else Listening)\<rparr>)"
| request: "e \<in> E \<Longrightarrow> tmMode s = Listening \<Longrightarrow>
    tm_step E s (s\<lparr>tm := handle_request e listing req (tm s), added := added s @ [req]\<rparr>)"
| refused: "tmMode s \<noteq> Listening \<Longrightarrow>
    tm_step E s (s\<lparr>tm := complete (trCompletion (req :: TransferRequest))
      (if tmMode s = Idle then NotListening else NoLongerListening) (tm s)\<rparr>)"
| cancel: "tm_step E s (s\<lparr>cancelFired := True, tm := (tm s)\<lparr>baseCancelled := True, mandatoryCancelled := True\<rparr>\<rparr>)"
| concrete: "e \<in> E \<Longrightarrow> k < length (inFlight (tm s)) \<Longrightarrow>
    tm_step E s (s\<lparr>tm := concrete_finish e k outcome (tm s)\<rparr>)"
| receive: "e \<in> E \<Longrightarrow> g \<in> set (inFlight (tm s)) \<Longrightarrow>
    tm_step E s (s\<lparr>tm := (tm s)\<lparr>stageProgressTrackers :=
      on_phase (gPhase g) (Progress (eNow e) bytes) (stageProgressTrackers (tm s))\<rparr>\<rparr>)"
| flush_failed: "e \<in> E \<Longrightarrow> tmMode s = Listening \<Longrightarrow>
    tm_step E s (s\<lparr>tm := (set_goals e (tm s))\<lparr>baseCancelled := True\<rparr>, tmMode := RollingBack\<rparr>)"
| rolled_back: "tmMode s = RollingBack \<Longrightarrow> baseWg (tm s) = 0 \<Longrightarrow>
    tm_step E s (s\<lparr>tm := startPhaseStage phase1TransferPhase (rollback (tm s)),
      tmMode := FlushPhase1 False (deferredPhase1Transfers (tm s))\<rparr>)"
| flush_succeeded: "e \<in> E \<Longrightarrow> tmMode s = Listening \<Longrightarrow>
    tm_step E s (s\<lparr>tm := startPhaseStage phase1TransferPhase (set_goals e (tm s)),
      tmMode := FlushPhase1 True (deferredPhase1Transfers (tm s))\<rparr>)"
| start_phase1: "e \<in> E \<Longrightarrow> tmMode s = FlushPhase1 ok (rs @ req # rs') \<Longrightarrow>
    tm_step E s (s\<lparr>tm := flushTransfer e ok listing req (tm s), tmMode := FlushPhase1 ok (rs @ rs')\<rparr>)"
| phase1_done: "e \<in> E \<Longrightarrow> tmMode s = FlushPhase1 ok [] \<Longrightarrow> phase1Wg (tm s) = 0 \<Longrightarrow>
    tm_step E s (s\<lparr>tm := phase1_end e ok (tm s),
      tmMode := FlushBackground ok
        (if shouldSkipBackgroundTransfersAfterPhase1 ok (tm s) then [] else deferredBackgroundTransfers (tm s))\<rparr>)"
| start_background: "e \<in> E \<Longrightarrow> tmMode s = FlushBackground ok (rs @ req # rs') \<Longrightarrow>
    tm_step E s (s\<lparr>tm := flushTransfer e ok listing req (tm s), tmMode := FlushBackground ok (rs @ rs')\<rparr>)"
| background_done: "tmMode s = FlushBackground ok [] \<Longrightarrow> backgroundWg (tm s) = 0 \<Longrightarrow>
    tm_step E s (s\<lparr>tm := background_end ok (tm s),
      tmMode := Flushed (if cancelFired s then Some UserCanceled else transferErrorMessage ok (combined (tm s)))\<rparr>)"
| cancelling: "tmMode s = Listening \<Longrightarrow> cancelFired s \<Longrightarrow>
    tm_step E s (s\<lparr>tmMode := Cancelling\<rparr>)"
| cancelled: "e \<in> E \<Longrightarrow> tmMode s = Cancelling \<Longrightarrow> phase1Wg (tm s) = 0 \<Longrightarrow> backgroundWg (tm s) = 0 \<Longrightarrow>
    tm_step E s (s\<lparr>tm := cancel_end e (tm s), tmMode := Cancelled\<rparr>)"

definition tm_init :: "Updater \<Rightarrow> tm_system" where
  "tm_init u = \<lparr>tm = NewTransferManager u, tmMode = Idle, cancelFired = False, added = []\<rparr>"

abbreviation tm_reachable :: "tm_env set \<Rightarrow> Updater \<Rightarrow> tm_system \<Rightarrow> bool" where
  "tm_reachable E u \<equiv> (tm_step E)\<^sup>*\<^sup>* (tm_init u)"

section \<open>What each operation leaves alone\<close>

text \<open>
  The part of the state that the accounting of open requests is about: trackers, goroutines, wait
  groups and deferred requests.
\<close>

definition accounts where
  "accounts t = (trackers t, inFlight t, phase1Wg t, backgroundWg t, baseWg t,
     deferredPhase1Transfers t, deferredBackgroundTransfers t)"

lemma accounts_fields [simp]:
  "accounts (t\<lparr>notified := a\<rparr>) = accounts t" "accounts (t\<lparr>stageProgressTrackers := b\<rparr>) = accounts t"
  "accounts (t\<lparr>completedTransfers := c\<rparr>) = accounts t" "accounts (t\<lparr>baseCancelled := d\<rparr>) = accounts t"
  "accounts (t\<lparr>mandatoryCancelled := d\<rparr>) = accounts t" "accounts (t\<lparr>manifestUpdater := u\<rparr>) = accounts t"
  by (simp_all add: accounts_def)

lemma accounts_record [simp]: "accounts (recordTransferError err f ph t) = accounts t"
  by (cases ph) (simp_all add: recordTransferError_def accounts_def)

lemma accounts_update_manifest [simp]: "accounts (update_manifest e op err r t) = accounts t"
  by (simp add: update_manifest_def Let_def split: prod.splits)

lemma accounts_complete [simp]: "accounts (complete c res t) = accounts t"
  by (auto simp: complete_def accounts_def split: option.splits)

lemma accounts_finish [simp]: "accounts (finishTransferRequest e r c t) = accounts t"
  by (simp add: finishTransferRequest_def finishManifestRequest_def Let_def)

lemma accounts_add_pending [simp]: "accounts (addPendingManifestEntry e r t) = accounts t"
  by (simp add: addPendingManifestEntry_def)

lemma accounts_stage [simp]:
  "accounts (startPhaseStage ph t) = accounts t" "accounts (endPhaseStage ph m t) = accounts t"
  "accounts (addTransferCount ph t) = accounts t" "accounts (add_bytes e ph b t) = accounts t"
  "accounts (set_goals e t) = accounts t" "accounts (rollback t) = accounts t"
  by (auto simp: startPhaseStage_def endPhaseStage_def addTransferCount_def add_bytes_def set_goals_def
      rollback_def accounts_def split: transferPhase.splits)

lemma accounts_request_ends [simp]: "accounts (request_ends e r err t) = accounts t"
  by (simp add: request_ends_def Let_def split: option.splits)

lemma accounts_filter_infos:
  "filter_infos e f ph infos fl sz bad t = (fl', sz', bad', t') \<Longrightarrow> accounts t' = accounts t"
  by (induction e f ph infos fl sz bad t rule: filter_infos.induct)
    (auto simp: Let_def split: if_splits option.splits bool.splits)

lemma accounts_remove_pending [simp]: "accounts (remove_pending e r t) = accounts t"
  by (simp add: remove_pending_def)

lemma accounts_foldl_remove [simp]: "accounts (foldl (\<lambda>t r. remove_pending e r t) t rs) = accounts t"
  by (induction rs arbitrary: t) auto

lemma accounts_remove_deferred [simp]: "accounts (removeDeferredPendingManifestEntries e t) = accounts t"
  by (simp add: removeDeferredPendingManifestEntries_def)

lemma accounts_phase1_end [simp]: "accounts (phase1_end e ok t) = accounts t"
  by (simp add: phase1_end_def Let_def)

text \<open>The pending flags of the manifest in memory, and what the operations do to them when writes succeed.\<close>

definition flags :: "TransferManager \<Rightarrow> string \<Rightarrow> bool list" where
  "flags t p = flags_at p (uBuilder (manifestUpdater t))"

lemma flags_fields [simp]:
  "flags (t\<lparr>notified := a\<rparr>) = flags t" "flags (t\<lparr>stageProgressTrackers := b\<rparr>) = flags t"
  "flags (t\<lparr>completedTransfers := c\<rparr>) = flags t" "flags (t\<lparr>baseCancelled := d\<rparr>) = flags t"
  "flags (t\<lparr>mandatoryCancelled := d\<rparr>) = flags t" "flags (t\<lparr>trackers := x\<rparr>) = flags t"
  "flags (t\<lparr>inFlight := y\<rparr>) = flags t" "flags (t\<lparr>baseWg := z\<rparr>) = flags t"
  "flags (t\<lparr>deferredPhase1Transfers := q\<rparr>) = flags t" "flags (t\<lparr>deferredBackgroundTransfers := q\<rparr>) = flags t"
  by (simp_all add: flags_def [abs_def])

lemma flags_record [simp]: "flags (recordTransferError err f ph t) = flags t"
  by (cases ph) (simp_all add: recordTransferError_def flags_def [abs_def])

lemma flags_complete [simp]: "flags (complete c res t) = flags t"
  by (auto simp: complete_def flags_def [abs_def] split: option.splits)

lemma flags_stage [simp]:
  "flags (startPhaseStage ph t) = flags t" "flags (endPhaseStage ph m t) = flags t"
  "flags (addTransferCount ph t) = flags t" "flags (add_bytes e ph b t) = flags t"
  "flags (set_goals e t) = flags t" "flags (rollback t) = flags t"
  by (auto simp: startPhaseStage_def endPhaseStage_def addTransferCount_def add_bytes_def set_goals_def
      rollback_def flags_def [abs_def] split: transferPhase.splits)

lemma flags_filter_infos:
  "filter_infos e f ph infos fl sz bad t = (fl', sz', bad', t') \<Longrightarrow> flags t' = flags t"
  by (induction e f ph infos fl sz bad t rule: filter_infos.induct)
    (auto simp: Let_def split: if_splits option.splits bool.splits)

definition reliable :: "tm_env \<Rightarrow> bool" where
  "reliable e \<longleftrightarrow> eWrite e = (\<lambda>_. True)"

lemma flags_update_manifest:
  "reliable e \<Longrightarrow> \<not> updater_noop op \<Longrightarrow> flags (update_manifest e op err r t) = spec_step op (flags t)"
  by (rule ext)
    (simp add: reliable_def update_manifest_def updater_exec_def update_def Let_def flags_def [abs_def] flags_at_mutation)

abbreviation npath :: "TransferRequest \<Rightarrow> string" where
  "npath r \<equiv> NormalizePath (ManifestRelativePath r)"

abbreviation has_path :: "TransferRequest \<Rightarrow> bool" where
  "has_path r \<equiv> ManifestRelativePath r \<noteq> []"

lemma flags_add_pending:
  "reliable e \<Longrightarrow> flags (addPendingManifestEntry e r t) =
     (if has_path r then (flags t)(npath r := flags t (npath r) @ [True]) else flags t)"
  by (simp add: addPendingManifestEntry_def flags_update_manifest)

lemma flags_finish:
  "reliable e \<Longrightarrow> flags (finishTransferRequest e r c t) =
     (if has_path r then (flags t)(npath r := (if c then clear_flag (flags t (npath r)) else tl (flags t (npath r)))) else flags t)"
  by (simp add: finishTransferRequest_def finishManifestRequest_def Let_def flags_update_manifest)

lemma flags_remove_pending:
  "reliable e \<Longrightarrow> flags (remove_pending e r t) =
     (if has_path r then (flags t)(npath r := (case flags t (npath r) of True # fs \<Rightarrow> fs | fs \<Rightarrow> fs)) else flags t)"
proof (cases "has_path r")
  case True
  then show "reliable e \<Longrightarrow> ?thesis" by (simp add: remove_pending_def flags_update_manifest)
qed (simp add: remove_pending_def update_manifest_def updater_exec_def)

section \<open>Open requests\<close>

definition open_reqs :: "TransferManager \<Rightarrow> TransferRequest list" where
  "open_reqs t = map ctRequest (filter (\<lambda>c. ctCompleted c < ctTotal c) (trackers t))"

definition npaths :: "TransferRequest list \<Rightarrow> string set" where
  "npaths L = npath ` set (filter has_path L)"

lemma npaths_simps [simp]:
  "npaths [] = {}" "npaths (r # L) = (if has_path r then insert (npath r) (npaths L) else npaths L)"
  "npaths (L @ L') = npaths L \<union> npaths L'"
  by (auto simp: npaths_def)

text \<open>
  The accounting of files: a tracker waits for the files in flight for it and for those that
  \<open>pend\<close> says are still to be started; the wait groups count the goroutines of their phase.
\<close>

definition in_phase :: "transferPhase \<Rightarrow> TransferManager \<Rightarrow> nat" where
  "in_phase ph t = length (filter (\<lambda>g. gPhase g = ph) (inFlight t))"

definition acct :: "(nat \<Rightarrow> nat) \<Rightarrow> TransferManager \<Rightarrow> bool" where
  "acct pend t \<longleftrightarrow>
     (\<forall>g\<in>set (inFlight t). gTracker g < length (trackers t) \<and>
        gPhase g = transferPhaseForRequest (ctRequest (trackers t ! gTracker g))) \<and>
     (\<forall>i<length (trackers t).
        length (filter (\<lambda>g. gTracker g = i) (inFlight t)) + pend i + ctCompleted (trackers t ! i) = ctTotal (trackers t ! i)) \<and>
     phase1Wg t = in_phase phase1TransferPhase t \<and> backgroundWg t = in_phase backgroundTransferPhase t \<and>
     baseWg t = length (filter gBase (inFlight t))"

lemma accounts_cong:
  assumes "accounts t = accounts t'"
  shows "acct pend t = acct pend t'" "open_reqs t = open_reqs t'" "in_phase ph t = in_phase ph t'"
    "trackers t = trackers t'" "inFlight t = inFlight t'" "phase1Wg t = phase1Wg t'" "backgroundWg t = backgroundWg t'"
    "deferredPhase1Transfers t = deferredPhase1Transfers t'"
    "deferredBackgroundTransfers t = deferredBackgroundTransfers t'"
  using assms by (auto simp: accounts_def acct_def open_reqs_def in_phase_def)

text \<open>
  The accounting of entries: the requests \<open>L\<close> that are open have different paths, each with one
  pending entry; no other entry is pending, and only paths of requests \<open>A\<close> that were added differ
  from the initial manifest.
\<close>

definition man_ok :: "(string \<Rightarrow> bool list) \<Rightarrow> TransferRequest list \<Rightarrow> TransferRequest list \<Rightarrow> TransferManager \<Rightarrow> bool" where
  "man_ok F0 A L t \<longleftrightarrow>
     distinct (map npath (filter has_path L)) \<and>
     (\<forall>q\<in>npaths L. flags t q = [True]) \<and> (\<forall>q. q \<notin> npaths L \<longrightarrow> True \<notin> set (flags t q)) \<and>
     npaths L \<subseteq> npaths A \<and> (\<forall>q. q \<notin> npaths A \<longrightarrow> flags t q = F0 q)"

lemma man_mset: "mset L = mset L' \<Longrightarrow> man_ok F0 A L t = man_ok F0 A L' t"
proof -
  assume m: "mset L = mset L'"
  then have "mset (map npath (filter has_path L)) = mset (map npath (filter has_path L'))" by simp
  then have "distinct (map npath (filter has_path L)) = distinct (map npath (filter has_path L'))"
    by (rule mset_eq_imp_distinct_iff)
  moreover have "npaths L = npaths L'" using mset_eq_setD [OF m] by (auto simp: npaths_def)
  ultimately show ?thesis by (simp add: man_ok_def)
qed

lemma man_flags: "flags t = flags t' \<Longrightarrow> man_ok F0 A L t = man_ok F0 A L t'"
  by (simp add: man_ok_def)

lemma man_close:
  assumes "man_ok F0 A (r # L) t" and "True \<notin> set (f [True])"
    and "flags t' = (if has_path r then (flags t)(npath r := f (flags t (npath r))) else flags t)"
  shows "man_ok F0 A L t'"
proof (cases "has_path r")
  case True
  then have "npath r \<notin> npaths L" using assms(1) by (auto simp: man_ok_def npaths_def)
  with True assms show ?thesis by (auto simp: man_ok_def)
next
  case False
  with assms show ?thesis by (auto simp: man_ok_def)
qed

lemma man_open:
  assumes "man_ok F0 A L t" and "has_path r \<Longrightarrow> npath r \<notin> npaths A \<and> F0 (npath r) = []"
    and "flags t' = (if has_path r then (flags t)(npath r := flags t (npath r) @ [True]) else flags t)"
  shows "man_ok F0 (A @ [r]) (r # L) t'"
proof (cases "has_path r")
  case True
  then have "npath r \<notin> npaths L" "flags t (npath r) = []" using assms(1,2) by (auto simp: man_ok_def)
  with True assms show ?thesis by (auto simp: man_ok_def npaths_def)
next
  case False
  with assms show ?thesis by (auto simp: man_ok_def)
qed

section \<open>Trackers\<close>

definition bump :: "bool \<Rightarrow> transferRequestCompletionTracker \<Rightarrow> transferRequestCompletionTracker" where
  "bump success c = c\<lparr>ctFailed := ctFailed c \<or> \<not> success, ctCompleted := ctCompleted c + 1\<rparr>"

lemma bump_simps [simp]:
  "ctRequest (bump s c) = ctRequest c" "ctTotal (bump s c) = ctTotal c" "ctCompleted (bump s c) = Suc (ctCompleted c)"
  by (simp_all add: bump_def)

lemma accounts_tracker_done:
  "accounts (tracker_done e i s t) = accounts (t\<lparr>trackers := (trackers t)[i := bump s (trackers t ! i)]\<rparr>)"
  by (simp add: tracker_done_def bump_def Let_def)

lemma acct_bump:
  assumes "acct pend t" "i < length (trackers t)" "0 < pend i"
  shows "acct (pend(i := pend i - 1)) (t\<lparr>trackers := (trackers t)[i := bump s (trackers t ! i)]\<rparr>)"
  using assms by (auto simp: acct_def in_phase_def nth_list_update)

lemma open_reqs_bump:
  assumes "i < length (trackers t)" and "ctCompleted (trackers t ! i) < ctTotal (trackers t ! i)"
  shows "mset (open_reqs t) =
    mset (open_reqs (t\<lparr>trackers := (trackers t)[i := bump s (trackers t ! i)]\<rparr>)) +
    (if Suc (ctCompleted (trackers t ! i)) = ctTotal (trackers t ! i) then {#ctRequest (trackers t ! i)#} else {#})"
proof -
  let ?c = "trackers t ! i"
  obtain U V where xs: "trackers t = U @ ?c # V" and up: "(trackers t)[i := bump s ?c] = U @ bump s ?c # V"
    using id_take_nth_drop [OF assms(1)] upd_conv_take_nth_drop [OF assms(1)] by blast
  have "open_reqs t = map ctRequest (filter (\<lambda>c. ctCompleted c < ctTotal c) (U @ ?c # V))"
    using xs by (simp add: open_reqs_def)
  then show ?thesis using assms(2) unfolding open_reqs_def up by (auto simp: open_reqs_def)
qed

text \<open>One file of a tracker is done: its request is closed with the last file.\<close>

lemma tracker_done_ok:
  assumes e: "reliable e" and a: "acct pend t" and i: "i < length (trackers t)" and p: "0 < pend i"
    and m: "man_ok F0 A (U @ open_reqs t) t"
  shows "acct (pend(i := pend i - 1)) (tracker_done e i s t) \<and>
    man_ok F0 A (U @ open_reqs (tracker_done e i s t)) (tracker_done e i s t)"
proof -
  let ?c = "trackers t ! i" and ?t = "t\<lparr>trackers := (trackers t)[i := bump s (trackers t ! i)]\<rparr>"
  note ac = accounts_cong [OF accounts_tracker_done]
  have lt: "ctCompleted ?c < ctTotal ?c" using a i p by (fastforce simp: acct_def)
  note o = open_reqs_bump [OF i lt, of s]
  have "man_ok F0 A (U @ open_reqs ?t) (tracker_done e i s t)"
  proof (cases "Suc (ctCompleted ?c) = ctTotal ?c")
    case False
    then have "flags (tracker_done e i s t) = flags t"
      by (simp add: tracker_done_def Let_def)
    moreover have "mset (U @ open_reqs t) = mset (U @ open_reqs ?t)" using o False by simp
    ultimately show ?thesis using m man_flags man_mset by metis
  next
    case True
    then have "mset (U @ open_reqs t) = mset (ctRequest ?c # U @ open_reqs ?t)" using o by simp
    then have m': "man_ok F0 A (ctRequest ?c # U @ open_reqs ?t) t" using m man_mset by metis
    let ?ok = "\<not> ctFailed (bump s ?c)"
    have "flags (tracker_done e i s t) = flags (finishTransferRequest e (ctRequest ?c) ?ok ?t)"
      using True by (simp add: tracker_done_def bump_def Let_def)
    then show ?thesis
      by (intro man_close [OF m', where f = "if ?ok then clear_flag else tl"]) (auto simp: flags_finish [OF e])
  qed
  with acct_bump [OF a i p, of s] show ?thesis by (simp add: ac)
qed

lemma start_concrete_ok:
  assumes a: "acct pend t" and i: "gTracker g < length (trackers t)" and p: "0 < pend (gTracker g)"
    and ph: "gPhase g = transferPhaseForRequest (ctRequest (trackers t ! gTracker g))"
  shows "acct (pend(gTracker g := pend (gTracker g) - 1)) (startConcreteTransfer g t) \<and>
    open_reqs (startConcreteTransfer g t) = open_reqs t \<and> flags (startConcreteTransfer g t) = flags t \<and>
    trackers (startConcreteTransfer g t) = trackers t"
  using assms
  by (cases "gPhase g"; cases "gBase g")
    (auto simp: startConcreteTransfer_def registerPhaseTransfer_def acct_def in_phase_def open_reqs_def flags_def [abs_def])

section \<open>Starting a request\<close>

lemma tracker_done_trackers:
  "length (trackers (tracker_done e i s t)) = length (trackers t)"
  "i < length (trackers t) \<Longrightarrow> ctRequest (trackers (tracker_done e i s t) ! i) = ctRequest (trackers t ! i)"
  using accounts_cong(4) [OF accounts_tracker_done [of e i s t]] by simp_all

definition pend_at :: "nat \<Rightarrow> nat \<Rightarrow> nat \<Rightarrow> nat" where
  "pend_at i k j = (if j = i then k else 0)"

lemma pend_at_simps: "pend_at i k i = k" "(pend_at i (Suc k))(i := k) = pend_at i k" "pend_at i 0 = (\<lambda>_. 0)"
  by (auto simp: pend_at_def)

lemma start_loop_ok:
  "reliable e \<Longrightarrow> acct (pend_at i (length fis)) t \<Longrightarrow> i < length (trackers t) \<Longrightarrow> ctRequest (trackers t ! i) = req \<Longrightarrow>
     man_ok F0 A (U @ open_reqs t) t \<Longrightarrow>
     acct (\<lambda>_. 0) (start_loop e req i fis t) \<and>
     man_ok F0 A (U @ open_reqs (start_loop e req i fis t)) (start_loop e req i fis t)"
proof (induction fis arbitrary: t)
  case (Cons fi fis)
  show ?case
  proof (cases "RemapGlobbedPath (eMatch e) (LocalPath (trTransfer req)) (fiPath fi) (RemotePath (trTransfer req))")
    case (Inl err)
    let ?t = "recordTransferError (RemapError err)
        \<lparr>RemotePath = fiPath fi, LocalPath = LocalPath (trTransfer req), ftComponentType = ftComponentType (trTransfer req),
          Exclude = []\<rparr> (transferPhaseForRequest req) t"
    note c = accounts_cong [OF accounts_record [of "RemapError err"]]
    have m: "man_ok F0 A (U @ open_reqs ?t) ?t" using Cons.prems(5) man_flags [OF flags_record] by (simp add: c)
    have a: "acct (pend_at i (Suc (length fis))) ?t" "i < length (trackers ?t)"
      using Cons.prems(2,3) by (simp_all add: c)
    from tracker_done_ok [OF Cons.prems(1) a _ m, of False]
    have "acct (pend_at i (length fis)) (tracker_done e i False ?t) \<and>
        man_ok F0 A (U @ open_reqs (tracker_done e i False ?t)) (tracker_done e i False ?t)"
      by (simp add: pend_at_simps)
    with Cons.IH [of "tracker_done e i False ?t"] Cons.prems show ?thesis
      by (simp add: Inl Let_def tracker_done_trackers c)
  next
    case (Inr lp)
    define g where "g = \<lparr>gTracker = i, gPhase = transferPhaseForRequest req,
        gTransfer = \<lparr>RemotePath = fiPath fi, LocalPath = lp, ftComponentType = ftComponentType (trTransfer req), Exclude = []\<rparr>,
        gBase = \<not> isTransferMandatory (trTransfer req)\<rparr>"
    have g: "gTracker g = i" "gPhase g = transferPhaseForRequest req" by (simp_all add: g_def)
    have "acct (pend_at i (length fis)) (startConcreteTransfer g t) \<and>
        open_reqs (startConcreteTransfer g t) = open_reqs t \<and> flags (startConcreteTransfer g t) = flags t \<and>
        trackers (startConcreteTransfer g t) = trackers t"
      using start_concrete_ok [of "pend_at i (length (fi # fis))" t g] Cons.prems g by (simp add: pend_at_simps)
    with Cons.IH [of "startConcreteTransfer g t"] Cons.prems show ?thesis
      by (simp add: Inr Let_def g_def [symmetric] man_ok_def)
  qed
qed (simp add: pend_at_simps)

lemma start_loop_frame:
  "deferredPhase1Transfers (start_loop e req i fis t) = deferredPhase1Transfers t \<and>
   deferredBackgroundTransfers (start_loop e req i fis t) = deferredBackgroundTransfers t \<and>
   (ph \<noteq> transferPhaseForRequest req \<longrightarrow> in_phase ph (start_loop e req i fis t) = in_phase ph t)"
proof (induction fis arbitrary: t)
  case (Cons fi fis)
  note c = accounts_cong [OF accounts_record] and d = accounts_cong [OF accounts_tracker_done]
  show ?case
    by (auto simp: Cons Let_def c d split: sum.splits)
      (auto simp: c startConcreteTransfer_def registerPhaseTransfer_def in_phase_def Let_def split: transferPhase.splits)
qed simp

lemma request_ends_flags:
  "reliable e \<Longrightarrow> flags (request_ends e r err t) =
     (if has_path r then (flags t)(npath r := tl (flags t (npath r))) else flags t)"
  by (auto simp: request_ends_def Let_def flags_finish split: option.splits)

lemma close_without_transfer:
  assumes m: "man_ok F0 A (req # U @ open_reqs t) t" and a: "acct (\<lambda>_. 0) t"
    and f: "flags t' = (if has_path req then (flags t)(npath req := tl (flags t (npath req))) else flags t)"
    and c: "accounts t' = accounts t"
  shows "acct (\<lambda>_. 0) t' \<and> man_ok F0 A (U @ open_reqs t') t'"
  using man_close [OF m, where f = tl and t' = t'] f a by (simp add: accounts_cong [OF c])

lemma startTransferRequest_ok:
  assumes e: "reliable e" and a: "acct (\<lambda>_. 0) t" and m: "man_ok F0 A (req # U @ open_reqs t) t"
  shows "acct (\<lambda>_. 0) (startTransferRequest e listing req t) \<and>
    man_ok F0 A (U @ open_reqs (startTransferRequest e listing req t)) (startTransferRequest e listing req t)"
proof (cases "\<exists>err. startTransferRequest e listing req t = request_ends e req err t")
  case True
  then obtain err where "startTransferRequest e listing req t = request_ends e req err t" ..
  then show ?thesis using close_without_transfer [OF m a request_ends_flags [OF e]] by simp
next
  case False
  then obtain infos where l: "listing = Inr [infos]" "resolveTransferAgentConn req = None"
      "\<not> glob_without_match (trTransfer req) infos"
    unfolding startTransferRequest_def
    by (cases listing; cases "resolveTransferAgentConn req") (auto simp: length_Suc_conv split: if_splits)
  obtain fl sz bad t1 where fi: "filter_infos e (trTransfer req) (transferPhaseForRequest req) infos [] 0 False t = (fl, sz, bad, t1)"
    by (metis prod_cases4)
  let ?t2 = "add_bytes e (transferPhaseForRequest req) sz t1"
  have ac: "accounts ?t2 = accounts t" using accounts_filter_infos [OF fi] by simp
  have fl2: "flags ?t2 = flags t" using flags_filter_infos [OF fi] by simp
  show ?thesis
  proof (cases "fl = []")
    case True
    then have "startTransferRequest e listing req t = finishTransferRequest e req False ?t2"
      using l fi by (simp add: startTransferRequest_def Let_def)
    then show ?thesis using close_without_transfer [OF m a, of "finishTransferRequest e req False ?t2"] ac fl2
      by (simp add: flags_finish [OF e])
  next
    case False
    let ?c = "\<lparr>ctRequest = req, ctTotal = length fl, ctCompleted = 0, ctFailed = bad\<rparr>"
    let ?t3 = "?t2\<lparr>trackers := trackers ?t2 @ [?c]\<rparr>" and ?i = "length (trackers ?t2)"
    have st: "startTransferRequest e listing req t = start_loop e req ?i fl ?t3"
      using l fi False by (simp add: startTransferRequest_def Let_def)
    have "acct (\<lambda>_. 0) ?t2" using a by (simp add: accounts_cong [OF ac])
    then have "acct (pend_at ?i (length fl)) ?t3"
      by (auto simp: acct_def in_phase_def nth_append less_Suc_eq filter_empty_conv pend_at_def)
    moreover have "man_ok F0 A (U @ open_reqs ?t3) ?t3"
    proof -
      have "open_reqs ?t3 = open_reqs t @ [req]"
        using False accounts_cong(4) [OF ac] by (simp add: open_reqs_def)
      then have "mset (U @ open_reqs ?t3) = mset (req # U @ open_reqs t)" by simp
      then show ?thesis using m man_mset man_flags [of ?t3 t] fl2 by (metis flags_fields(6))
    qed
    ultimately show ?thesis
      unfolding st by (intro start_loop_ok [OF e]) simp_all
  qed
qed

section \<open>The end of a concrete transfer\<close>

lemma flags_tracker_done_cong:
  "reliable e \<Longrightarrow> trackers t = trackers t' \<Longrightarrow> flags t = flags t' \<Longrightarrow>
     flags (tracker_done e i s t) = flags (tracker_done e i s t')"
  by (simp add: tracker_done_def Let_def flags_finish)

lemma filter_remove_nth:
  "k < length xs \<Longrightarrow> length (filter P xs) = length (filter P (take k xs @ drop (Suc k) xs)) + (if P (xs ! k) then 1 else 0)"
  by (subst id_take_nth_drop [of k xs]) auto

definition without :: "nat \<Rightarrow> TransferManager \<Rightarrow> TransferManager" where
  "without k t =
     (let g = inFlight t ! k; t1 = finishPhaseTransfer (gPhase g) t;
          t2 = (if gBase g then t1\<lparr>baseWg := baseWg t1 - 1\<rparr> else t1)
      in t2\<lparr>inFlight := take k (inFlight t) @ drop (Suc k) (inFlight t)\<rparr>)"

lemma without_simps:
  "trackers (without k t) = trackers t" "flags (without k t) = flags t"
  "inFlight (without k t) = take k (inFlight t) @ drop (Suc k) (inFlight t)"
  by (auto simp: without_def finishPhaseTransfer_def flags_def [abs_def] Let_def split: transferPhase.splits)

lemma acct_without:
  assumes a: "acct (\<lambda>_. 0) t" and k: "k < length (inFlight t)"
  shows "acct (pend_at (gTracker (inFlight t ! k)) 1) (without k t)"
proof -
  let ?g = "inFlight t ! k" and ?r = "take k (inFlight t) @ drop (Suc k) (inFlight t)"
  have sub: "set ?r \<subseteq> set (inFlight t)" by (auto dest: in_set_takeD in_set_dropD)
  have n: "length (filter P (inFlight t)) = length (filter P ?r) + (if P ?g then 1 else 0)" for P
    by (rule filter_remove_nth [OF k])
  show ?thesis
    using a sub
    by (cases "gPhase ?g"; cases "gBase ?g")
      (auto simp: acct_def in_phase_def without_def finishPhaseTransfer_def Let_def n [where P = "\<lambda>g. gPhase g = _"]
        n [where P = gBase] n [where P = "\<lambda>g. gTracker g = _"] pend_at_def split: if_splits)
qed

lemma concrete_finish_shape:
  "\<exists>s. accounts (concrete_finish e k out t) = accounts (tracker_done e (gTracker (inFlight t ! k)) s (without k t)) \<and>
     (reliable e \<longrightarrow> flags (concrete_finish e k out t) = flags (tracker_done e (gTracker (inFlight t ! k)) s (without k t)))"
proof -
  let ?g = "inFlight t ! k" and ?r = "take k (inFlight t) @ drop (Suc k) (inFlight t)"
  obtain s t1 where out: "concrete_finish e k out t =
      (let t2 = finishPhaseTransfer (gPhase ?g) (tracker_done e (gTracker ?g) s t1);
           t3 = (if gBase ?g then t2\<lparr>baseWg := baseWg t2 - 1\<rparr> else t2) in t3\<lparr>inFlight := ?r\<rparr>)"
    and t1: "accounts t1 = accounts t" "flags t1 = flags t"
    by (cases out) (fastforce simp: concrete_finish_def Let_def split: option.splits)+
  let ?d = "tracker_done e (gTracker ?g) s t1"
  have "flags (concrete_finish e k out t) = flags ?d"
    unfolding out by (auto simp: finishPhaseTransfer_def flags_def [abs_def] Let_def split: transferPhase.splits)
  moreover have "accounts (concrete_finish e k out t) = accounts (tracker_done e (gTracker ?g) s (without k t))"
  proof -
    have "accounts ?d = accounts (t\<lparr>trackers := (trackers t)[gTracker ?g := bump s (trackers t ! gTracker ?g)]\<rparr>)"
      using t1(1) by (simp add: accounts_tracker_done accounts_cong(4) [OF t1(1)]) (simp add: accounts_def)
    then show ?thesis
      unfolding out accounts_tracker_done [of e _ s "without k t"]
      by (cases "gPhase ?g"; cases "gBase ?g")
        (auto simp: accounts_def without_def finishPhaseTransfer_def Let_def)
  qed
  moreover have "flags ?d = flags (tracker_done e (gTracker ?g) s (without k t))" if "reliable e"
    by (rule flags_tracker_done_cong [OF that]) (simp_all add: without_simps t1(2) accounts_cong(4) [OF t1(1)])
  ultimately show ?thesis by (intro exI [of _ s]) simp
qed

lemma concrete_finish_ok:
  assumes e: "reliable e" and a: "acct (\<lambda>_. 0) t" and k: "k < length (inFlight t)"
    and m: "man_ok F0 A (U @ open_reqs t) t"
  shows "acct (\<lambda>_. 0) (concrete_finish e k out t) \<and>
    man_ok F0 A (U @ open_reqs (concrete_finish e k out t)) (concrete_finish e k out t)"
proof -
  let ?i = "gTracker (inFlight t ! k)" and ?w = "without k t"
  obtain s where s: "accounts (concrete_finish e k out t) = accounts (tracker_done e ?i s ?w)"
    "flags (concrete_finish e k out t) = flags (tracker_done e ?i s ?w)"
    using concrete_finish_shape [of e k out t] e by blast
  have i: "?i < length (trackers ?w)" using a k nth_mem [OF k] by (auto simp: acct_def without_simps)
  have m': "man_ok F0 A (U @ open_reqs ?w) ?w"
    using m man_flags [OF without_simps(2)] by (simp add: open_reqs_def without_simps)
  from tracker_done_ok [OF e acct_without [OF a k] i _ m', of s] show ?thesis
    using man_flags [OF s(2)] by (simp add: accounts_cong [OF s(1)] pend_at_simps)
qed

section \<open>What starting a request leaves alone\<close>

definition treqs :: "TransferManager \<Rightarrow> TransferRequest set" where
  "treqs t = ctRequest ` set (trackers t)"

definition framed :: "TransferRequest \<Rightarrow> TransferManager \<Rightarrow> TransferManager \<Rightarrow> bool" where
  "framed req t t' \<longleftrightarrow>
     deferredPhase1Transfers t' = deferredPhase1Transfers t \<and>
     deferredBackgroundTransfers t' = deferredBackgroundTransfers t \<and> treqs t' \<subseteq> insert req (treqs t) \<and>
     (\<forall>ph. ph \<noteq> transferPhaseForRequest req \<longrightarrow> in_phase ph t' = in_phase ph t)"

lemma framed_accounts: "accounts t' = accounts t \<Longrightarrow> framed req t t'"
  by (auto simp: framed_def treqs_def accounts_def in_phase_def)

lemma treqs_tracker_done: "treqs (tracker_done e i s t) \<subseteq> treqs t"
  unfolding treqs_def accounts_cong(4) [OF accounts_tracker_done]
proof (cases "i < length (trackers t)")
  case True
  then show "ctRequest ` set (trackers (t\<lparr>trackers := (trackers t)[i := bump s (trackers t ! i)]\<rparr>)) \<subseteq> ctRequest ` set (trackers t)"
    by (auto dest!: set_update_subset_insert [THEN subsetD])
qed (simp add: list_update_beyond)

lemma treqs_start_loop: "treqs (start_loop e req i fis t) \<subseteq> treqs t"
proof (induction fis arbitrary: t)
  case (Cons fi fis)
  have r: "treqs (recordTransferError err f ph t) = treqs t" for err f ph
    using accounts_cong(4) [OF accounts_record] by (simp add: treqs_def)
  have c: "treqs (startConcreteTransfer g t) = treqs t" for g
    by (auto simp: startConcreteTransfer_def registerPhaseTransfer_def treqs_def Let_def split: transferPhase.splits)
  show ?case
  proof (cases "RemapGlobbedPath (eMatch e) (LocalPath (trTransfer req)) (fiPath fi) (RemotePath (trTransfer req))")
    case (Inl err)
    then show ?thesis using Cons treqs_tracker_done r by (simp add: Let_def) blast
  next
    case (Inr lp)
    then show ?thesis using Cons c by (simp add: Let_def) blast
  qed
qed simp

lemma framed_startTransferRequest: "framed req t (startTransferRequest e listing req t)"
proof (cases "\<exists>err. startTransferRequest e listing req t = request_ends e req err t")
  case True
  then show ?thesis by (auto intro: framed_accounts)
next
  case False
  then obtain infos where l: "listing = Inr [infos]" "resolveTransferAgentConn req = None"
      "\<not> glob_without_match (trTransfer req) infos"
    unfolding startTransferRequest_def
    by (cases listing; cases "resolveTransferAgentConn req") (auto simp: length_Suc_conv split: if_splits)
  obtain fl sz bad t1 where fi: "filter_infos e (trTransfer req) (transferPhaseForRequest req) infos [] 0 False t = (fl, sz, bad, t1)"
    by (metis prod_cases4)
  let ?t2 = "add_bytes e (transferPhaseForRequest req) sz t1"
  let ?t3 = "?t2\<lparr>trackers := trackers ?t2 @ [\<lparr>ctRequest = req, ctTotal = length fl, ctCompleted = 0, ctFailed = bad\<rparr>]\<rparr>"
  have ac: "accounts ?t2 = accounts t" using accounts_filter_infos [OF fi] by simp
  note ac' = accounts_cong [OF ac]
  show ?thesis
  proof (cases "fl = []")
    case True
    then have "startTransferRequest e listing req t = finishTransferRequest e req False ?t2"
      using l fi by (simp add: startTransferRequest_def Let_def)
    then show ?thesis using ac by (auto intro: framed_accounts)
  next
    case False
    then have st: "startTransferRequest e listing req t = start_loop e req (length (trackers ?t2)) fl ?t3"
      using l fi by (simp add: startTransferRequest_def Let_def)
    have "in_phase ph ?t3 = in_phase ph t" for ph using ac'(5) by (simp add: in_phase_def)
    moreover have "treqs ?t3 = insert req (treqs t)" using ac'(4) by (simp add: treqs_def)
    ultimately show ?thesis
      unfolding framed_def st using start_loop_frame treqs_start_loop [of e req "length (trackers ?t2)" fl ?t3] ac'(8,9) by simp
  qed
qed

lemma framed_flushTransfer: "framed req t (flushTransfer e ok listing req t)"
  by (simp add: flushTransfer_def framed_startTransferRequest framed_accounts)

lemma flushTransfer_ok:
  assumes e: "reliable e" and a: "acct (\<lambda>_. 0) t" and m: "man_ok F0 A (req # U @ open_reqs t) t"
  shows "acct (\<lambda>_. 0) (flushTransfer e ok listing req t) \<and>
    man_ok F0 A (U @ open_reqs (flushTransfer e ok listing req t)) (flushTransfer e ok listing req t)"
proof (cases "\<not> ok \<and> \<not> isTransferMandatory (trTransfer req)")
  case True
  then show ?thesis
    using close_without_transfer [OF m a] by (simp add: flushTransfer_def flags_finish [OF e])
next
  case False
  then show ?thesis using startTransferRequest_ok [OF assms] by (auto simp: flushTransfer_def)
qed

lemma framed_concrete_finish:
  "deferredPhase1Transfers (concrete_finish e k out t) = deferredPhase1Transfers t"
  "deferredBackgroundTransfers (concrete_finish e k out t) = deferredBackgroundTransfers t"
  "treqs (concrete_finish e k out t) \<subseteq> treqs t"
  "in_phase ph (concrete_finish e k out t) \<le> in_phase ph t"
proof -
  obtain s where s: "accounts (concrete_finish e k out t) = accounts (tracker_done e (gTracker (inFlight t ! k)) s (without k t))"
    using concrete_finish_shape by blast
  note c = accounts_cong [OF s] and d = accounts_cong [OF accounts_tracker_done [of e "gTracker (inFlight t ! k)" s "without k t"]]
  have w: "deferredPhase1Transfers (without k t) = deferredPhase1Transfers t"
    "deferredBackgroundTransfers (without k t) = deferredBackgroundTransfers t"
    by (auto simp: without_def finishPhaseTransfer_def Let_def split: transferPhase.splits)
  show "deferredPhase1Transfers (concrete_finish e k out t) = deferredPhase1Transfers t"
    "deferredBackgroundTransfers (concrete_finish e k out t) = deferredBackgroundTransfers t"
    using c d w by simp_all
  have "treqs (concrete_finish e k out t) = treqs (tracker_done e (gTracker (inFlight t ! k)) s (without k t))"
    using c by (simp add: treqs_def)
  then show "treqs (concrete_finish e k out t) \<subseteq> treqs t"
    using treqs_tracker_done [of e "gTracker (inFlight t ! k)" s "without k t"] by (simp add: treqs_def without_simps)
  have "in_phase ph (concrete_finish e k out t) = in_phase ph (without k t)"
    using c d by (simp add: in_phase_def)
  also have "\<dots> \<le> in_phase ph t"
  proof (cases "k < length (inFlight t)")
    case True
    then show ?thesis using filter_remove_nth [OF True, of "\<lambda>g. gPhase g = ph"] by (simp add: in_phase_def without_simps)
  qed (simp add: in_phase_def without_simps)
  finally show "in_phase ph (concrete_finish e k out t) \<le> in_phase ph t" .
qed

section \<open>Removal of the entries of deferred requests\<close>

lemma remove_pending_open:
  "reliable e \<Longrightarrow> man_ok F0 A (rs @ L) t \<Longrightarrow> man_ok F0 A L (foldl (\<lambda>t r. remove_pending e r t) t rs)"
proof (induction rs arbitrary: t)
  case (Cons r rs)
  have "man_ok F0 A (rs @ L) (remove_pending e r t)"
    by (rule man_close [where f = "\<lambda>x. case x of True # fs \<Rightarrow> fs | fs \<Rightarrow> fs"])
      (use Cons.prems flags_remove_pending [OF Cons.prems(1)] in \<open>simp_all\<close>)
  with Cons show ?case by simp
qed simp

lemma remove_pending_closed:
  "reliable e \<Longrightarrow> \<forall>r\<in>set rs. has_path r \<longrightarrow> npath r \<notin> npaths L \<Longrightarrow> man_ok F0 A L t \<Longrightarrow>
     man_ok F0 A L (foldl (\<lambda>t r. remove_pending e r t) t rs)"
proof (induction rs arbitrary: t)
  case (Cons r rs)
  have "\<not> has_path r \<or> True \<notin> set (flags t (npath r))" using Cons.prems(2,3) by (auto simp: man_ok_def)
  then have "flags (remove_pending e r t) = flags t"
    by (auto simp: flags_remove_pending [OF Cons.prems(1)] fun_upd_idem_iff split: list.splits bool.splits)
  with Cons man_flags show ?case by (metis foldl_Cons list.set_intros(2))
qed simp

section \<open>The invariant of the manager\<close>

fun unstarted_in :: "listen_mode \<Rightarrow> TransferManager \<Rightarrow> TransferRequest list" where
  "unstarted_in (FlushPhase1 ok rs) t = rs @ deferredBackgroundTransfers t"
| "unstarted_in (FlushBackground ok rs) t = rs"
| "unstarted_in (Flushed msg) t = []"
| "unstarted_in Cancelled t = []"
| "unstarted_in _ t = deferredPhase1Transfers t @ deferredBackgroundTransfers t"

fun mode_ok :: "listen_mode \<Rightarrow> TransferManager \<Rightarrow> bool" where
  "mode_ok Idle t = (inFlight t = [] \<and> deferredPhase1Transfers t = [] \<and> deferredBackgroundTransfers t = [])"
| "mode_ok (FlushPhase1 ok rs) t = True"
| "mode_ok (FlushBackground ok rs) t =
     (in_phase phase1TransferPhase t = 0 \<and> (\<forall>r\<in>set rs. BackgroundTransfer r))"
| "mode_ok (Flushed msg) t = (inFlight t = [])"
| "mode_ok Cancelled t = (inFlight t = [])"
| "mode_ok _ t = True"

definition sys_ok :: "(string \<Rightarrow> bool list) \<Rightarrow> tm_system \<Rightarrow> bool" where
  "sys_ok F0 s \<longleftrightarrow>
     acct (\<lambda>_. 0) (tm s) \<and> man_ok F0 (added s) (unstarted_in (tmMode s) (tm s) @ open_reqs (tm s)) (tm s) \<and>
     mode_ok (tmMode s) (tm s) \<and>
     (\<forall>r\<in>set (deferredPhase1Transfers (tm s)). \<not> BackgroundTransfer r) \<and>
     (\<forall>r\<in>set (deferredBackgroundTransfers (tm s)). BackgroundTransfer r) \<and>
     set (unstarted_in (tmMode s) (tm s)) \<union> set (deferredPhase1Transfers (tm s)) \<union>
     set (deferredBackgroundTransfers (tm s)) \<union> treqs (tm s) \<subseteq> set (added s)"

text \<open>No two requests with an entry share a path, and no path of a request has an entry before the run.\<close>

definition fresh_paths :: "(string \<Rightarrow> bool list) \<Rightarrow> TransferRequest list \<Rightarrow> bool" where
  "fresh_paths F0 A \<longleftrightarrow> distinct (map npath (filter has_path A)) \<and> (\<forall>q\<in>npaths A. F0 q = [])"

lemma fresh_paths_snoc:
  "fresh_paths F0 (A @ [r]) \<Longrightarrow> fresh_paths F0 A \<and> (has_path r \<longrightarrow> npath r \<notin> npaths A \<and> F0 (npath r) = [])"
  by (auto simp: fresh_paths_def npaths_def)

lemma open_reqs_empty: "acct (\<lambda>_. 0) t \<Longrightarrow> inFlight t = [] \<Longrightarrow> open_reqs t = []"
  by (auto simp: acct_def open_reqs_def filter_empty_conv in_set_conv_nth)

lemma open_reqs_background:
  assumes "acct (\<lambda>_. 0) t" and "in_phase phase1TransferPhase t = 0" and "r \<in> set (open_reqs t)"
  shows "BackgroundTransfer r \<and> r \<in> treqs t"
proof -
  from assms(3) obtain i where i: "i < length (trackers t)" "r = ctRequest (trackers t ! i)"
      "ctCompleted (trackers t ! i) < ctTotal (trackers t ! i)"
    by (auto simp: open_reqs_def in_set_conv_nth)
  then have "filter (\<lambda>g. gTracker g = i) (inFlight t) \<noteq> []" using assms(1) by (fastforce simp: acct_def)
  then obtain g where g: "g \<in> set (inFlight t)" "gTracker g = i" by (auto simp: filter_empty_conv)
  with assms(1,2) i have "transferPhaseForRequest r \<noteq> phase1TransferPhase"
    by (auto simp: acct_def in_phase_def filter_empty_conv)
  then show ?thesis using i by (auto simp: transferPhaseForRequest_def treqs_def split: if_splits)
qed

lemma no_flight: "acct (\<lambda>_. 0) t \<Longrightarrow> phase1Wg t = 0 \<Longrightarrow> backgroundWg t = 0 \<Longrightarrow> inFlight t = []"
  by (auto simp: acct_def in_phase_def filter_empty_conv) (metis list.set_intros(1) neq_Nil_conv transferPhase.exhaust)

lemma sys_ok_same:
  assumes "sys_ok F0 s" and "accounts t = accounts (tm s)" and "flags t = flags (tm s)"
  shows "sys_ok F0 (s\<lparr>tm := t\<rparr>)"
proof -
  note c = accounts_cong [OF assms(2)]
  have "unstarted_in (tmMode s) t = unstarted_in (tmMode s) (tm s)" by (cases "tmMode s") (simp_all add: c)
  moreover have "mode_ok (tmMode s) t = mode_ok (tmMode s) (tm s)" by (cases "tmMode s") (simp_all add: c)
  moreover have "treqs t = treqs (tm s)" by (simp add: treqs_def c)
  ultimately show ?thesis
    using assms(1) man_flags [OF assms(3)] by (simp add: sys_ok_def c)
qed

lemma sys_ok_mode:
  "sys_ok F0 s \<Longrightarrow> unstarted_in m (tm s) = unstarted_in (tmMode s) (tm s) \<Longrightarrow> mode_ok m (tm s) \<Longrightarrow>
     sys_ok F0 (s\<lparr>tmMode := m\<rparr>)"
  by (simp add: sys_ok_def)

lemma sys_ok_request:
  assumes e: "reliable e" and ok: "sys_ok F0 s" and l: "tmMode s = Listening" and f: "fresh_paths F0 (added s @ [req])"
  shows "sys_ok F0 (s\<lparr>tm := handle_request e listing req (tm s), added := added s @ [req]\<rparr>)"
proof -
  let ?t1 = "addPendingManifestEntry e req (addTransferCount (transferPhaseForRequest req) (tm s))"
  let ?U = "deferredPhase1Transfers (tm s) @ deferredBackgroundTransfers (tm s)"
  have ac: "accounts ?t1 = accounts (tm s)" by simp
  note c = accounts_cong [OF ac]
  have a: "acct (\<lambda>_. 0) ?t1" using ok by (simp add: sys_ok_def c)
  have m: "man_ok F0 (added s @ [req]) (req # ?U @ open_reqs ?t1) ?t1"
    using man_open [of F0 "added s" "?U @ open_reqs (tm s)" "tm s" req ?t1] ok l fresh_paths_snoc [OF f]
    by (simp add: sys_ok_def c flags_add_pending [OF e])
  show ?thesis
  proof (cases "ImmediateRetrieval req")
    case True
    let ?t2 = "startPhaseStage (transferPhaseForRequest req) ?t1"
    note c2 = accounts_cong [OF accounts_stage(1) [of "transferPhaseForRequest req" ?t1]]
    have m2: "man_ok F0 (added s @ [req]) (req # ?U @ open_reqs ?t2) ?t2"
      using m man_flags [OF flags_stage(1)] by (simp add: c2)
    have h: "handle_request e listing req (tm s) = startTransferRequest e listing req ?t2"
      using True by (simp add: handle_request_def Let_def)
    have "framed req ?t2 (startTransferRequest e listing req ?t2)" by (rule framed_startTransferRequest)
    moreover have "treqs ?t2 = treqs (tm s)" by (simp add: treqs_def c c2)
    ultimately show ?thesis
      using startTransferRequest_ok [OF e _ m2, of listing] a ok l by (auto simp: sys_ok_def h c c2 framed_def)
  next
    case False
    have fl: "flags (handle_request e listing req (tm s)) = flags ?t1"
      using False by (simp add: handle_request_def Let_def)
    let ?U' = "unstarted_in Listening (handle_request e listing req (tm s))"
    have "mset (?U' @ open_reqs ?t1) = mset (req # ?U @ open_reqs ?t1)"
      using False by (simp add: handle_request_def Let_def c)
    then have m2: "man_ok F0 (added s @ [req]) (?U' @ open_reqs ?t1) (handle_request e listing req (tm s))"
      using m man_mset man_flags [OF fl] by metis
    have "acct (\<lambda>_. 0) (handle_request e listing req (tm s)) = acct (\<lambda>_. 0) ?t1"
      "open_reqs (handle_request e listing req (tm s)) = open_reqs ?t1"
      "treqs (handle_request e listing req (tm s)) = treqs ?t1"
      using False by (simp_all add: handle_request_def Let_def acct_def in_phase_def open_reqs_def treqs_def)
    with m2 a ok l False show ?thesis
      by (auto simp: sys_ok_def handle_request_def Let_def c treqs_def)
  qed
qed

lemma sys_ok_start:
  assumes e: "reliable e" and ok: "sys_ok F0 s"
    and m: "tmMode s = M (rs @ req # rs')" and M: "M = FlushPhase1 b \<or> M = FlushBackground b"
  shows "sys_ok F0 (s\<lparr>tm := flushTransfer e b listing req (tm s), tmMode := M (rs @ rs')\<rparr>)"
proof -
  let ?t = "flushTransfer e b listing req (tm s)"
  have fr: "framed req (tm s) ?t" by (rule framed_flushTransfer)
  have U: "unstarted_in (M (rs @ rs')) ?t = unstarted_in (M (rs @ rs')) (tm s)"
    using M fr by (auto simp: framed_def)
  have "mset (unstarted_in (tmMode s) (tm s) @ open_reqs (tm s)) =
      mset (req # unstarted_in (M (rs @ rs')) (tm s) @ open_reqs (tm s))" using m M by auto
  then have "man_ok F0 (added s) (req # unstarted_in (M (rs @ rs')) (tm s) @ open_reqs (tm s)) (tm s)"
    using ok man_mset unfolding sys_ok_def by metis
  from flushTransfer_ok [OF e _ this, of b listing] ok
  have "acct (\<lambda>_. 0) ?t" "man_ok F0 (added s) (unstarted_in (M (rs @ rs')) ?t @ open_reqs ?t) ?t"
    by (simp_all add: sys_ok_def U)
  moreover have "mode_ok (M (rs @ rs')) ?t"
    using ok m M fr by (auto simp: sys_ok_def framed_def transferPhaseForRequest_def)
  moreover have "req \<in> set (added s)" "set (unstarted_in (M (rs @ rs')) ?t) \<subseteq> set (added s)"
    using ok m M unfolding U by (auto simp: sys_ok_def)
  ultimately show ?thesis using ok fr by (auto simp: sys_ok_def framed_def)
qed

lemma sys_ok_concrete:
  assumes "reliable e" and ok: "sys_ok F0 s" and "k < length (inFlight (tm s))"
  shows "sys_ok F0 (s\<lparr>tm := concrete_finish e k out (tm s)\<rparr>)"
proof -
  let ?t = "concrete_finish e k out (tm s)"
  note fr = framed_concrete_finish [where e = e and k = k and out = out and t = "tm s"]
  have U: "unstarted_in (tmMode s) ?t = unstarted_in (tmMode s) (tm s)" by (cases "tmMode s") (simp_all add: fr)
  have "acct (\<lambda>_. 0) ?t" "man_ok F0 (added s) (unstarted_in (tmMode s) ?t @ open_reqs ?t) ?t"
    using concrete_finish_ok [OF assms(1) _ assms(3), of F0 "added s" "unstarted_in (tmMode s) (tm s)"] ok
    by (simp_all add: sys_ok_def U)
  moreover have "mode_ok (tmMode s) ?t"
    using ok assms(3) fr(4) [where ph = phase1TransferPhase] by (cases "tmMode s") (auto simp: sys_ok_def fr(1,2))
  ultimately show ?thesis using ok fr(3) U by (auto simp: sys_ok_def fr(1,2))
qed

text \<open>When phase 1 is over, a deferred phase 1 request shares its path with no request that is still open.\<close>

lemma phase1_closed:
  assumes f: "fresh_paths F0 A" and r: "r \<in> set A" "\<not> BackgroundTransfer r" "has_path r"
    and L: "\<forall>x\<in>set L. BackgroundTransfer x \<and> x \<in> set A"
  shows "npath r \<notin> npaths L"
proof
  assume "npath r \<in> npaths L"
  then obtain x where x: "x \<in> set L" "has_path x" "npath x = npath r" by (auto simp: npaths_def)
  have "inj_on npath (set (filter has_path A))" using f by (simp add: fresh_paths_def distinct_map)
  with x L r have "x = r" by (auto dest: inj_onD)
  with x L r show False by blast
qed

lemma flags_remove_deferred_skip:
  assumes e: "reliable e" and a: "acct (\<lambda>_. 0) t" and p: "in_phase phase1TransferPhase t = 0" and f: "fresh_paths F0 A"
    and d: "\<forall>r\<in>set (deferredPhase1Transfers t). \<not> BackgroundTransfer r" "\<forall>r\<in>set (deferredBackgroundTransfers t). BackgroundTransfer r"
    and sub: "set (deferredPhase1Transfers t) \<union> set (deferredBackgroundTransfers t) \<union> treqs t \<subseteq> set A"
    and m: "man_ok F0 A (deferredBackgroundTransfers t @ open_reqs t) t"
  shows "man_ok F0 A (open_reqs t) (removeDeferredPendingManifestEntries e t)"
proof -
  let ?L = "deferredBackgroundTransfers t @ open_reqs t"
  have L: "\<forall>x\<in>set ?L. BackgroundTransfer x \<and> x \<in> set A"
    using d(2) sub open_reqs_background [OF a p] by auto
  have "\<forall>r\<in>set (deferredPhase1Transfers t). has_path r \<longrightarrow> npath r \<notin> npaths ?L"
    using d(1) sub phase1_closed [OF f _ _ _ L] by auto
  from remove_pending_closed [OF e this m] show ?thesis
    unfolding removeDeferredPendingManifestEntries_def by (rule remove_pending_open [OF e])
qed

lemma flags_remove_deferred_all:
  assumes "reliable e" and "man_ok F0 A ((deferredPhase1Transfers t @ deferredBackgroundTransfers t) @ L) t"
  shows "man_ok F0 A L (removeDeferredPendingManifestEntries e t)"
  using assms unfolding removeDeferredPendingManifestEntries_def by (auto intro!: remove_pending_open)

lemma shouldSkip_stage:
  "shouldSkipBackgroundTransfersAfterPhase1 ok (endPhaseStage ph m t) = shouldSkipBackgroundTransfersAfterPhase1 ok t"
  "shouldSkipBackgroundTransfersAfterPhase1 ok (t\<lparr>notified := n\<rparr>) = shouldSkipBackgroundTransfersAfterPhase1 ok t"
  by (simp_all add: shouldSkipBackgroundTransfersAfterPhase1_def endPhaseStage_def)

lemma sys_ok_phase1_end:
  assumes e: "reliable e" and ok: "sys_ok F0 s" and f: "fresh_paths F0 (added s)"
    and m: "tmMode s = FlushPhase1 b []" and w: "phase1Wg (tm s) = 0"
  shows "sys_ok F0 (s\<lparr>tm := phase1_end e b (tm s),
    tmMode := FlushBackground b
      (if shouldSkipBackgroundTransfersAfterPhase1 b (tm s) then [] else deferredBackgroundTransfers (tm s))\<rparr>)"
proof -
  let ?t = "phase1_end e b (tm s)" and ?skip = "shouldSkipBackgroundTransfersAfterPhase1 b (tm s)"
  note c = accounts_cong [OF accounts_phase1_end [of e b "tm s"]]
  have a: "acct (\<lambda>_. 0) (tm s)" and p: "in_phase phase1TransferPhase (tm s) = 0"
    using ok w by (simp_all add: sys_ok_def acct_def)
  have "man_ok F0 (added s) ((if ?skip then [] else deferredBackgroundTransfers (tm s)) @ open_reqs (tm s)) ?t"
  proof (cases ?skip)
    case True
    define msg where "msg = transferErrorMessage b (errPhase1 (tm s))"
    define t2 where "t2 = endPhaseStage phase1TransferPhase msg
      (if b \<and> msg = None then (tm s)\<lparr>notified := notified (tm s) @ [Phase1Complete (hasPendingBackgroundTransfers (tm s))]\<rparr> else tm s)"
    have sk: "shouldSkipBackgroundTransfersAfterPhase1 b t2"
      using True by (auto simp: t2_def shouldSkip_stage)
    have "?t = removeDeferredPendingManifestEntries e t2"
      unfolding phase1_end_def Let_def msg_def [symmetric] t2_def [symmetric] using sk by simp
    moreover have "accounts t2 = accounts (tm s)" "flags t2 = flags (tm s)" by (simp_all add: t2_def)
    ultimately have t2: "?t = removeDeferredPendingManifestEntries e t2" "accounts t2 = accounts (tm s)"
      "flags t2 = flags (tm s)" by blast+
    note c2 = accounts_cong [OF t2(2)]
    have "man_ok F0 (added s) (open_reqs t2) ?t"
      unfolding t2(1)
      by (rule flags_remove_deferred_skip [OF e _ _ f])
        (use ok a p m man_flags [OF t2(3)] in \<open>auto simp: sys_ok_def c2 treqs_def\<close>)
    then show ?thesis using True c2 by simp
  next
    case False
    then have fl: "flags ?t = flags (tm s)" by (auto simp: phase1_end_def Let_def shouldSkip_stage)
    have "man_ok F0 (added s) (deferredBackgroundTransfers (tm s) @ open_reqs (tm s)) (tm s)"
      using ok m by (simp add: sys_ok_def)
    with False show ?thesis by (simp add: man_flags [OF fl])
  qed
  moreover have "treqs ?t = treqs (tm s)" by (simp add: treqs_def c)
  ultimately show ?thesis using ok a p m by (auto simp: sys_ok_def c)
qed

lemma tm_step_ok:
  "tm_step E s s' \<Longrightarrow> \<forall>e\<in>E. reliable e \<Longrightarrow> fresh_paths F0 (added s') \<Longrightarrow> sys_ok F0 s \<Longrightarrow> sys_ok F0 s'"
proof (induction rule: tm_step.induct)
  case (listen s)
  then show ?case by (auto intro!: sys_ok_mode simp: sys_ok_def)
next
  case (request e s listing req)
  then show ?case using sys_ok_request by simp
next
  case (refused s req)
  then show ?case by (intro sys_ok_same) simp_all
next
  case (cancel s)
  then have "sys_ok F0 (s\<lparr>tm := (tm s)\<lparr>baseCancelled := True, mandatoryCancelled := True\<rparr>\<rparr>)"
    by (intro sys_ok_same) simp_all
  then show ?case by (simp add: sys_ok_def)
next
  case (concrete e k s outcome)
  then show ?case by (intro sys_ok_concrete) auto
next
  case (receive e g s bytes)
  then show ?case by (intro sys_ok_same) simp_all
next
  case (flush_failed e s)
  then have "sys_ok F0 (s\<lparr>tm := (set_goals e (tm s))\<lparr>baseCancelled := True\<rparr>\<rparr>)"
    by (intro sys_ok_same) simp_all
  from sys_ok_mode [OF this, of RollingBack] flush_failed show ?case by simp
next
  case (rolled_back s)
  let ?t = "startPhaseStage phase1TransferPhase (rollback (tm s))"
  from rolled_back have "sys_ok F0 (s\<lparr>tm := ?t\<rparr>)" by (intro sys_ok_same) simp_all
  moreover have "deferredPhase1Transfers ?t = deferredPhase1Transfers (tm s)"
    by (rule accounts_cong(8)) simp
  ultimately show ?case
    using sys_ok_mode [of F0 "s\<lparr>tm := ?t\<rparr>" "FlushPhase1 False (deferredPhase1Transfers ?t)"] rolled_back by simp
next
  case (flush_succeeded e s)
  let ?t = "startPhaseStage phase1TransferPhase (set_goals e (tm s))"
  from flush_succeeded have "sys_ok F0 (s\<lparr>tm := ?t\<rparr>)" by (intro sys_ok_same) simp_all
  moreover have "deferredPhase1Transfers ?t = deferredPhase1Transfers (tm s)"
    by (rule accounts_cong(8)) simp
  ultimately show ?case
    using sys_ok_mode [of F0 "s\<lparr>tm := ?t\<rparr>" "FlushPhase1 True (deferredPhase1Transfers ?t)"] flush_succeeded by simp
next
  case (start_phase1 e s b rs req rs' listing)
  then show ?case using sys_ok_start [of e F0 s "FlushPhase1 b"] by simp
next
  case (phase1_done e s b)
  then show ?case by (intro sys_ok_phase1_end) auto
next
  case (start_background e s b rs req rs' listing)
  then show ?case using sys_ok_start [of e F0 s "FlushBackground b"] by simp
next
  case (background_done s b)
  let ?t = "background_end b (tm s)"
  from background_done have ok: "sys_ok F0 (s\<lparr>tm := ?t\<rparr>)" by (intro sys_ok_same) (simp_all add: background_end_def)
  have a: "acct (\<lambda>_. 0) (tm s)" "in_phase phase1TransferPhase (tm s) = 0"
    using background_done by (simp_all add: sys_ok_def)
  then have "phase1Wg (tm s) = 0" by (simp add: acct_def)
  with background_done a(1) have "inFlight (tm s) = []" by (intro no_flight) simp_all
  then have "inFlight ?t = []" using accounts_cong(5) [of ?t "tm s"] by (simp add: background_end_def)
  with background_done ok show ?case by (simp add: sys_ok_def)
next
  case (cancelling s)
  then show ?case using sys_ok_mode [of F0 s Cancelling] by simp
next
  case (cancelled e s)
  let ?t = "cancel_end e (tm s)"
  have ac: "accounts ?t = accounts (tm s)" by (simp add: cancel_end_def)
  have fl: "flags ?t = flags (removeDeferredPendingManifestEntries e (tm s))" by (simp add: cancel_end_def)
  have "inFlight (tm s) = []" using cancelled no_flight by (auto simp: sys_ok_def)
  moreover have "man_ok F0 (added s) (open_reqs (tm s)) ?t"
    using flags_remove_deferred_all [of e F0 "added s" "tm s" "open_reqs (tm s)"] cancelled
    by (simp add: sys_ok_def man_flags [OF fl])
  moreover have "treqs ?t = treqs (tm s)" by (simp add: treqs_def accounts_cong [OF ac])
  ultimately show ?case using cancelled by (auto simp: sys_ok_def accounts_cong [OF ac])
qed

section \<open>Properties\<close>

lemma tm_step_added: "tm_step E s s' \<Longrightarrow> added s' = added s \<or> (\<exists>r. added s' = added s @ [r])"
  by (induction rule: tm_step.induct) auto

lemma fresh_paths_step: "tm_step E s s' \<Longrightarrow> fresh_paths F0 (added s') \<Longrightarrow> fresh_paths F0 (added s)"
  using tm_step_added fresh_paths_snoc by metis

lemma tm_reachable_ok:
  assumes "tm_reachable E u s" and "\<forall>e\<in>E. reliable e" and "\<forall>p. True \<notin> set (flags_at p (uBuilder u))"
    and "fresh_paths (\<lambda>p. flags_at p (uBuilder u)) (added s)"
  shows "sys_ok (\<lambda>p. flags_at p (uBuilder u)) s"
  using assms
proof (induction rule: rtranclp_induct)
  case base
  then show ?case
    by (auto simp: sys_ok_def tm_init_def NewTransferManager_def acct_def in_phase_def man_ok_def open_reqs_def flags_def treqs_def)
next
  case (step s s')
  then show ?case using tm_step_ok fresh_paths_step by metis
qed

definition listen_over :: "listen_mode \<Rightarrow> bool" where
  "listen_over m = (case m of Flushed _ \<Rightarrow> True | Cancelled \<Rightarrow> True | _ \<Rightarrow> False)"


text \<open>A run with one deferred request that is cancelled before the flush.\<close>

definition demo_env :: tm_env where
  "demo_env = \<lparr>eWrite = (\<lambda>_. True), eMatch = (\<lambda>_ _. Some True), eNow = 0\<rparr>"

definition demo_updater :: Updater where
  "demo_updater = \<lparr>uBuilder = example_builder, uDisk = buildManifest example_builder\<rparr>"

definition demo_request :: TransferRequest where
  "demo_request = \<lparr>trTransfer = \<lparr>RemotePath = ''/tmp/x'', LocalPath = ''/runs/r1/x'', ftComponentType = example_type, Exclude = []\<rparr>,
     ManifestRelativePath = ''x'', trSupplier = Connected, ImmediateRetrieval = False, BackgroundTransfer = False, trCompletion = None\<rparr>"

definition demo_end :: tm_system where
  "demo_end =
     \<lparr>tm = cancel_end demo_env ((handle_request demo_env (Inl []) demo_request (NewTransferManager demo_updater))
        \<lparr>baseCancelled := True, mandatoryCancelled := True\<rparr>),
      tmMode = Cancelled, cancelFired = True, added = [demo_request]\<rparr>"

lemma demo_reachable: "tm_reachable {demo_env} demo_updater demo_end"
proof -
  let ?t1 = "handle_request demo_env (Inl []) demo_request (NewTransferManager demo_updater)"
  let ?t2 = "?t1\<lparr>baseCancelled := True, mandatoryCancelled := True\<rparr>"
  let ?s1 = "\<lparr>tm = NewTransferManager demo_updater, tmMode = Listening, cancelFired = False, added = []\<rparr>"
  let ?s2 = "\<lparr>tm = ?t1, tmMode = Listening, cancelFired = False, added = [demo_request]\<rparr>"
  let ?s3 = "\<lparr>tm = ?t2, tmMode = Listening, cancelFired = True, added = [demo_request]\<rparr>"
  let ?s4 = "\<lparr>tm = ?t2, tmMode = Cancelling, cancelFired = True, added = [demo_request]\<rparr>"
  have "phase1Wg ?t1 = 0" "backgroundWg ?t1 = 0"
  proof -
    let ?t0 = "addPendingManifestEntry demo_env demo_request (addTransferCount (transferPhaseForRequest demo_request) (NewTransferManager demo_updater))"
    have "phase1Wg ?t1 = phase1Wg ?t0" "backgroundWg ?t1 = backgroundWg ?t0"
      by (simp_all add: handle_request_def Let_def demo_request_def)
    moreover have "accounts ?t0 = accounts (NewTransferManager demo_updater)" by simp
    ultimately show "phase1Wg ?t1 = 0" "backgroundWg ?t1 = 0"
      using accounts_cong(6,7) [of ?t0 "NewTransferManager demo_updater"] by (simp_all add: NewTransferManager_def)
  qed
  then have "tm_step {demo_env} ?s4 demo_end"
    using tm_step.cancelled [of demo_env "{demo_env}" ?s4] by (simp add: demo_end_def)
  moreover have "tm_step {demo_env} ?s3 ?s4" using tm_step.cancelling [of ?s3 "{demo_env}"] by simp
  moreover have "tm_step {demo_env} ?s2 ?s3" using tm_step.cancel [of "{demo_env}" ?s2] by simp
  moreover have "tm_step {demo_env} ?s1 ?s2" using tm_step.request [of demo_env "{demo_env}" ?s1] by simp
  moreover have "tm_step {demo_env} (tm_init demo_updater) ?s1"
    using tm_step.listen [of "tm_init demo_updater" "{demo_env}"] by (simp add: tm_init_def)
  ultimately show ?thesis by (meson rtranclp.rtrancl_into_rtrancl rtranclp.rtrancl_refl)
qed

lemma demo_no_flags: "flags_at p (uBuilder demo_updater) = []"
  by (simp add: flags_at_def demo_updater_def example_builder_def)


section \<open>Stage notifications\<close>

definition stages where
  "stages t = (notified t, startedPhaseStages t)"

lemma stages_fields [simp]:
  "stages (t\<lparr>stageProgressTrackers := b\<rparr>) = stages t" "stages (t\<lparr>completedTransfers := c\<rparr>) = stages t"
  "stages (t\<lparr>baseCancelled := d\<rparr>) = stages t" "stages (t\<lparr>mandatoryCancelled := d\<rparr>) = stages t"
  "stages (t\<lparr>manifestUpdater := u\<rparr>) = stages t" "stages (t\<lparr>trackers := x\<rparr>) = stages t"
  "stages (t\<lparr>inFlight := y\<rparr>) = stages t" "stages (t\<lparr>baseWg := z\<rparr>) = stages t"
  "stages (t\<lparr>deferredPhase1Transfers := q\<rparr>) = stages t" "stages (t\<lparr>deferredBackgroundTransfers := q\<rparr>) = stages t"
  by (simp_all add: stages_def)

lemma stages_record [simp]: "stages (recordTransferError err f ph t) = stages t"
  by (cases ph) (simp_all add: recordTransferError_def stages_def)

lemma stages_update_manifest [simp]: "stages (update_manifest e op err r t) = stages t"
  by (simp add: update_manifest_def Let_def split: prod.splits)

lemma stages_complete [simp]: "stages (complete c res t) = stages t"
  by (auto simp: complete_def stages_def split: option.splits)

lemma stages_ops [simp]:
  "stages (finishTransferRequest e r c t) = stages t" "stages (addPendingManifestEntry e r t) = stages t"
  "stages (addTransferCount ph t) = stages t" "stages (add_bytes e ph b t) = stages t"
  "stages (set_goals e t) = stages t" "stages (rollback t) = stages t" "stages (remove_pending e r t) = stages t"
  "stages (finishPhaseTransfer ph t) = stages t"
  by (auto simp: finishTransferRequest_def finishManifestRequest_def Let_def addPendingManifestEntry_def addTransferCount_def
      add_bytes_def set_goals_def remove_pending_def)
    (auto simp: rollback_def stages_def finishPhaseTransfer_def split: transferPhase.splits)

lemma stages_tracker_done [simp]: "stages (tracker_done e i s t) = stages t"
  by (simp add: tracker_done_def Let_def)

lemma stages_start_concrete [simp]: "stages (startConcreteTransfer g t) = stages t"
  by (auto simp: startConcreteTransfer_def registerPhaseTransfer_def stages_def Let_def split: transferPhase.splits)

lemma stages_filter_infos:
  "filter_infos e f ph infos fl sz bad t = (fl', sz', bad', t') \<Longrightarrow> stages t' = stages t"
  by (induction e f ph infos fl sz bad t rule: filter_infos.induct)
    (auto simp: Let_def split: if_splits option.splits bool.splits)

lemma stages_start_loop [simp]: "stages (start_loop e r i fis t) = stages t"
  by (induction fis arbitrary: t) (auto simp: Let_def split: sum.splits)

lemma stages_request_ends [simp]: "stages (request_ends e r err t) = stages t"
  by (simp add: request_ends_def Let_def split: option.splits)

lemma stages_startTransferRequest [simp]: "stages (startTransferRequest e listing r t) = stages t"
  by (auto simp: startTransferRequest_def Let_def split: option.splits sum.splits prod.splits dest: stages_filter_infos)

lemma stages_concrete_finish [simp]: "stages (concrete_finish e k out t) = stages t"
  by (cases out) (auto simp: concrete_finish_def Let_def split: option.splits)

lemma stages_foldl_remove [simp]: "stages (foldl (\<lambda>t r. remove_pending e r t) t rs) = stages t"
  by (induction rs arbitrary: t) auto

lemma stages_flush [simp]:
  "stages (flushTransfer e b listing r t) = stages t" "stages (removeDeferredPendingManifestEntries e t) = stages t"
  by (simp_all add: flushTransfer_def removeDeferredPendingManifestEntries_def)

text \<open>The life of the stage of a phase as an observer sees it: \<open>None\<close> after an event that does not fit.\<close>

fun stage_event_step :: "transferPhase \<Rightarrow> bool option \<Rightarrow> stage_event \<Rightarrow> bool option" where
  "stage_event_step ph None ev = None"
| "stage_event_step ph (Some open_now) (StageStart p) =
     (if p = ph then (if open_now then None else Some True) else Some open_now)"
| "stage_event_step ph (Some open_now) (StageEnd p msg) =
     (if p = ph then (if open_now then Some False else None) else Some open_now)"
| "stage_event_step ph (Some open_now) (Phase1Complete b) = Some open_now"

definition stage_open :: "transferPhase \<Rightarrow> stage_event list \<Rightarrow> bool option" where
  "stage_open ph evs = foldl (stage_event_step ph) (Some False) evs"

lemma stage_open_snoc [simp]: "stage_open ph (evs @ [ev]) = stage_event_step ph (stage_open ph evs) ev"
  by (simp add: stage_open_def)

definition tracked :: "TransferManager \<Rightarrow> bool" where
  "tracked t \<longleftrightarrow> (\<forall>ph. stage_open ph (notified t) = Some (ph \<in> set (startedPhaseStages t)))"

lemma tracked_cong: "stages t' = stages t \<Longrightarrow> tracked t' = tracked t"
  by (simp add: tracked_def stages_def)

lemma tracked_start [simp]: "tracked t \<Longrightarrow> tracked (startPhaseStage ph t)"
  by (auto simp: tracked_def startPhaseStage_def)

lemma tracked_end [simp]: "tracked t \<Longrightarrow> tracked (endPhaseStage ph msg t)"
  by (auto simp: tracked_def endPhaseStage_def)

lemma tracked_phase1_complete [simp]: "tracked (t\<lparr>notified := notified t @ [Phase1Complete b]\<rparr>) = tracked t"
  by (auto simp: tracked_def split: option.splits) (metis option.distinct(1) option.inject stage_event_step.simps not_None_eq)+

lemma started_cong: "stages t' = stages t \<Longrightarrow> startedPhaseStages t' = startedPhaseStages t"
  by (simp add: stages_def)

lemma started_end [simp]: "set (startedPhaseStages (endPhaseStage ph msg t)) = set (startedPhaseStages t) - {ph}"
  by (auto simp: endPhaseStage_def)

lemma started_start [simp]: "set (startedPhaseStages (startPhaseStage ph t)) = insert ph (set (startedPhaseStages t))"
  by (auto simp: startPhaseStage_def)

fun stage_mode_ok :: "listen_mode \<Rightarrow> TransferManager \<Rightarrow> bool" where
  "stage_mode_ok (FlushBackground b rs) t = (phase1TransferPhase \<notin> set (startedPhaseStages t))"
| "stage_mode_ok Idle t = (set (startedPhaseStages t) = {})"
| "stage_mode_ok (Flushed msg) t = (set (startedPhaseStages t) = {})"
| "stage_mode_ok Cancelled t = (set (startedPhaseStages t) = {})"
| "stage_mode_ok _ t = True"

definition stage_ok :: "tm_system \<Rightarrow> bool" where
  "stage_ok s \<longleftrightarrow> tracked (tm s) \<and> stage_mode_ok (tmMode s) (tm s)"

lemma stage_ok_same: "stage_ok s \<Longrightarrow> stages t = stages (tm s) \<Longrightarrow> stage_ok (s\<lparr>tm := t\<rparr>)"
  using tracked_cong [of t "tm s"] started_cong [of t "tm s"] by (cases "tmMode s") (auto simp: stage_ok_def)

lemma stage_phase1_end:
  "tracked t \<Longrightarrow> tracked (phase1_end e b t) \<and> phase1TransferPhase \<notin> set (startedPhaseStages (phase1_end e b t))"
proof -
  assume tr: "tracked t"
  define msg where "msg = transferErrorMessage b (errPhase1 t)"
  define t2 where "t2 = endPhaseStage phase1TransferPhase msg
    (if b \<and> msg = None then t\<lparr>notified := notified t @ [Phase1Complete (hasPendingBackgroundTransfers t)]\<rparr> else t)"
  have t2: "tracked t2" "phase1TransferPhase \<notin> set (startedPhaseStages t2)" using tr by (auto simp: t2_def)
  have "stages (phase1_end e b t) = stages t2 \<or> stages (phase1_end e b t) = stages (startPhaseStage backgroundTransferPhase t2)"
    unfolding phase1_end_def Let_def msg_def [symmetric] t2_def [symmetric] by simp
  then show ?thesis
  proof
    assume *: "stages (phase1_end e b t) = stages t2"
    show ?thesis using t2 by (simp add: tracked_cong [OF *] started_cong [OF *])
  next
    assume *: "stages (phase1_end e b t) = stages (startPhaseStage backgroundTransferPhase t2)"
    show ?thesis using t2 by (simp add: tracked_cong [OF *] started_cong [OF *])
  qed
qed

lemma tm_step_stage_ok: "tm_step E s s' \<Longrightarrow> stage_ok s \<Longrightarrow> stage_ok s'"
proof (induction rule: tm_step.induct)
  case (request e s req listing)
  let ?t0 = "addPendingManifestEntry e req (addTransferCount (transferPhaseForRequest req) (tm s))"
  have "stages (handle_request e listing req (tm s)) =
      stages (if ImmediateRetrieval req then startPhaseStage (transferPhaseForRequest req) ?t0 else ?t0)"
    by (simp add: handle_request_def Let_def)
  moreover have "tracked ?t0" using request tracked_cong [of ?t0 "tm s"] by (simp add: stage_ok_def)
  ultimately have "tracked (handle_request e listing req (tm s))"
    using tracked_cong [of "handle_request e listing req (tm s)"
        "if ImmediateRetrieval req then startPhaseStage (transferPhaseForRequest req) ?t0 else ?t0"] by auto
  with request show ?case by (simp add: stage_ok_def)
next
  case (rolled_back s)
  then have "tracked (rollback (tm s))" using tracked_cong [of "rollback (tm s)" "tm s"] by (simp add: stage_ok_def)
  then show ?case by (simp add: stage_ok_def)
next
  case (flush_succeeded e s)
  then have "tracked (set_goals e (tm s))" using tracked_cong [of "set_goals e (tm s)" "tm s"] by (simp add: stage_ok_def)
  then show ?case by (simp add: stage_ok_def)
next
  case (flush_failed e s)
  then show ?case using tracked_cong [of "(set_goals e (tm s))\<lparr>baseCancelled := True\<rparr>" "tm s"] by (simp add: stage_ok_def)
next
  case (start_phase1 e s b rs req rs' listing)
  then show ?case using tracked_cong [of "flushTransfer e b listing req (tm s)" "tm s"] by (simp add: stage_ok_def)
next
  case (start_background e s b rs req rs' listing)
  then show ?case
    using tracked_cong [of "flushTransfer e b listing req (tm s)" "tm s"] started_cong [of "flushTransfer e b listing req (tm s)" "tm s"]
    by (simp add: stage_ok_def)
next
  case (phase1_done e s b)
  then show ?case using stage_phase1_end by (simp add: stage_ok_def)
next
  case (background_done s b)
  then have "set (startedPhaseStages (tm s)) - {backgroundTransferPhase} = {}"
    by (auto simp: stage_ok_def) (metis transferPhase.exhaust)
  with background_done show ?case by (simp add: stage_ok_def background_end_def)
next
  case (cancelled e s)
  let ?t = "removeDeferredPendingManifestEntries e (tm s)"
  have "tracked ?t" using cancelled tracked_cong [of ?t "tm s"] by (simp add: stage_ok_def)
  moreover have "X - {phase1TransferPhase} - {backgroundTransferPhase} = {}" for X
    using transferPhase.exhaust by auto
  ultimately show ?case by (simp add: stage_ok_def cancel_end_def)
next
  case (cancel s)
  then show ?case using stage_ok_same [of s] by (auto simp: stage_ok_def stages_def tracked_def)
next
  case (refused s req)
  then show ?case by (intro stage_ok_same) simp_all
next
  case (concrete e k s outcome)
  then show ?case by (intro stage_ok_same) simp_all
next
  case (receive e g s bytes)
  then show ?case by (intro stage_ok_same) simp_all
qed (auto simp: stage_ok_def)

interpretation stage: step_system "\<lambda>s. s = tm_init u" "tm_step E" stage_ok for E u
proof
  fix s t
  show "s = tm_init u \<Longrightarrow> stage_ok s"
    by (simp add: stage_ok_def tm_init_def NewTransferManager_def tracked_def stage_open_def)
  show "stage_ok s \<Longrightarrow> tm_step E s t \<Longrightarrow> stage_ok t" by (rule tm_step_stage_ok)
qed

text \<open>
  Observers see a proper life of each stage: in every reachable state each start of a phase is
  followed by at most one end before its next start and no end comes without a start, and once
  \<open>Listen\<close> has returned every stage that was started has ended, also when manifest writes fail.
\<close>

theorem stages_bracketed:
  assumes "tm_reachable E u s"
  shows "stage_open ph (notified (tm s)) \<noteq> None \<and>
    (listen_over (tmMode s) \<longrightarrow> stage_open ph (notified (tm s)) = Some False)"
proof -
  have "stage_ok s" using assms by (rule stage.reachable_invar [OF refl])
  then show ?thesis by (cases "tmMode s") (auto simp: stage_ok_def tracked_def listen_over_def)
qed

theorem stages_bracketed_witness:
  "stage_open phase1TransferPhase (notified (tm demo_end)) \<noteq> None \<and>
   stage_open phase1TransferPhase (notified (tm demo_end)) = Some False"
  using stages_bracketed [OF demo_reachable, of phase1TransferPhase] by (simp add: demo_end_def listen_over_def)

end
