(* ===== verification/CommandState.thy ===== *)
theory CommandState
  imports GoLib Transition "HOL-Library.Word"
begin

text \<open>
  Commands to a running recipe (core/apap-engine/cmdsync): the concurrent map from runs to command
  states (command_state_map.go), with the states in a store because a poller keeps a pointer to its
  state, and the poller that turns commands into closed channels (command_state_channel.go).
\<close>

section \<open>The map of command states\<close>

abbreviation CommandStop :: "32 word" where "CommandStop \<equiv> 1"
abbreviation CommandCancel :: "32 word" where "CommandCancel \<equiv> 2"

type_synonym state_ref = nat

record CommandState =
  RecipeCommand :: "32 word"
  cancelErr :: "string option"

record commandStateMap =
  Bus :: "string \<rightharpoonup> state_ref"
  store :: "state_ref \<Rightarrow> CommandState"
  next_ref :: state_ref

datatype command_error = NoCommandState string

definition Read :: "state_ref \<Rightarrow> commandStateMap \<Rightarrow> 32 word" where
  "Read p b = RecipeCommand (store b p)"

definition Reset :: "state_ref \<Rightarrow> commandStateMap \<Rightarrow> commandStateMap" where
  "Reset p b = b\<lparr>store := (store b)(p := (store b p)\<lparr>RecipeCommand := 0, cancelErr := None\<rparr>)\<rparr>"

definition Set :: "state_ref \<Rightarrow> 32 word \<Rightarrow> commandStateMap \<Rightarrow> commandStateMap" where
  "Set p flag b = b\<lparr>store := (store b)(p := (store b p)\<lparr>RecipeCommand := flag\<rparr>)\<rparr>"

definition SetCancelError :: "state_ref \<Rightarrow> string option \<Rightarrow> commandStateMap \<Rightarrow> commandStateMap" where
  "SetCancelError p err b =
     (case err of
        None \<Rightarrow> b\<lparr>store := (store b)(p := (store b p)\<lparr>cancelErr := None\<rparr>)\<rparr>
      | Some e \<Rightarrow> b\<lparr>store := (store b)(p := (store b p)\<lparr>cancelErr := Some e\<rparr>)\<rparr>)"

definition CancelError :: "state_ref \<Rightarrow> commandStateMap \<Rightarrow> string option" where
  "CancelError p b = (case cancelErr (store b p) of None \<Rightarrow> None | Some e \<Rightarrow> Some e)"

definition CreateCommandState :: "string \<Rightarrow> commandStateMap \<Rightarrow> state_ref \<times> commandStateMap" where
  "CreateCommandState runID b =
     (next_ref b,
      b\<lparr>store := (store b)(next_ref b := \<lparr>RecipeCommand = 0, cancelErr = None\<rparr>), next_ref := Suc (next_ref b),
        Bus := (Bus b)(runID \<mapsto> next_ref b)\<rparr>)"

definition Write :: "string \<Rightarrow> 32 word \<Rightarrow> commandStateMap \<Rightarrow> command_error + commandStateMap" where
  "Write runID flag b =
     (case Bus b runID of
        None \<Rightarrow> Inl (NoCommandState runID)
      | Some p \<Rightarrow> Inr (b\<lparr>store := (store b)(p := (store b p)\<lparr>RecipeCommand := flag\<rparr>)\<rparr>))"

definition Remove :: "string \<Rightarrow> commandStateMap \<Rightarrow> command_error + commandStateMap" where
  "Remove runID b =
     (case Write runID 0 b of
        Inl e \<Rightarrow> Inl e
      | Inr b' \<Rightarrow> Inr (b'\<lparr>Bus := (Bus b')(runID := None)\<rparr>))"

definition NewCommandStateMap :: commandStateMap where
  "NewCommandStateMap = \<lparr>Bus = Map.empty, store = (\<lambda>_. \<lparr>RecipeCommand = 0, cancelErr = None\<rparr>), next_ref = 0\<rparr>"

datatype bus_op = BCreate string | BRemove string | BWrite string "32 word"

fun bus_exec :: "bus_op \<Rightarrow> commandStateMap \<Rightarrow> commandStateMap" where
  "bus_exec (BCreate runID) b = snd (CreateCommandState runID b)"
| "bus_exec (BRemove runID) b = (case Remove runID b of Inl e \<Rightarrow> b | Inr b' \<Rightarrow> b')"
| "bus_exec (BWrite runID flag) b = (case Write runID flag b of Inl e \<Rightarrow> b | Inr b' \<Rightarrow> b')"

definition bus_run :: "bus_op list \<Rightarrow> commandStateMap" where
  "bus_run ops = foldl (\<lambda>b op. bus_exec op b) NewCommandStateMap ops"

section \<open>The poller\<close>

text \<open>A closed channel that is closed again panics, so the closings are counted.\<close>

record CommandStateChannel =
  prev :: "32 word"
  stopClosed :: nat
  cancelClosed :: nat
  stopDone :: bool
  polling :: bool

definition NewCommandStateChannel :: CommandStateChannel where
  "NewCommandStateChannel = \<lparr>prev = 0, stopClosed = 0, cancelClosed = 0, stopDone = False, polling = True\<rparr>"

datatype poll_event = CtxDone | CloseRunner | Tick "32 word"

text \<open>One iteration of the loop of \<open>pollCommandState\<close>; a tick carries the command that is read.\<close>

fun pollCommandState :: "poll_event \<Rightarrow> CommandStateChannel \<Rightarrow> CommandStateChannel" where
  "pollCommandState CtxDone rec = rec\<lparr>cancelClosed := cancelClosed rec + 1, polling := False\<rparr>"
| "pollCommandState CloseRunner rec = rec\<lparr>polling := False\<rparr>"
| "pollCommandState (Tick cur) rec =
     (if cur \<noteq> prev rec then
        if cur = CommandStop then
          (if stopDone rec then rec\<lparr>prev := cur\<rparr>
           else rec\<lparr>stopClosed := stopClosed rec + 1, stopDone := True, prev := cur\<rparr>)
        else if cur = CommandCancel then rec\<lparr>cancelClosed := cancelClosed rec + 1, polling := False\<rparr>
        else rec\<lparr>prev := cur\<rparr>
      else rec)"

fun poll_run :: "poll_event list \<Rightarrow> CommandStateChannel \<Rightarrow> CommandStateChannel" where
  "poll_run [] rec = rec"
| "poll_run (ev # evs) rec = (if polling rec then poll_run evs (pollCommandState ev rec) else rec)"

section \<open>Properties\<close>

definition bus_ok :: "commandStateMap \<Rightarrow> bool" where
  "bus_ok b \<longleftrightarrow> (\<forall>i p. Bus b i = Some p \<longrightarrow> p < next_ref b) \<and> (\<forall>i j p. Bus b i = Some p \<longrightarrow> Bus b j = Some p \<longrightarrow> i = j)"

lemma bus_exec_ok: "bus_ok b \<Longrightarrow> bus_ok (bus_exec op b)"
  by (cases op)
    (auto simp: bus_ok_def CreateCommandState_def Remove_def Write_def less_Suc_eq split: option.splits sum.splits)

interpretation bus: exec_system bus_exec "\<lambda>_. True" bus_ok
  by unfold_locales (rule bus_exec_ok)

lemma bus_run_ok: "bus_ok (bus_run ops)"
  unfolding bus_run_def
  by (rule bus.run_invar) (simp_all add: list_all_iff bus_ok_def NewCommandStateMap_def)

fun bus_id :: "bus_op \<Rightarrow> string" where
  "bus_id (BCreate i) = i"
| "bus_id (BRemove i) = i"
| "bus_id (BWrite i flag) = i"

lemma bus_exec_other:
  "bus_ok b \<Longrightarrow> Bus b i = Some p \<Longrightarrow> bus_id op \<noteq> i \<Longrightarrow> Bus (bus_exec op b) i = Some p \<and> Read p (bus_exec op b) = Read p b"
  by (cases op)
    (auto simp: bus_ok_def CreateCommandState_def Remove_def Write_def Read_def split: option.splits)

lemma bus_others:
  "bus_ok b \<Longrightarrow> Bus b i = Some p \<Longrightarrow> \<forall>op\<in>set ops. bus_id op \<noteq> i \<Longrightarrow>
     Bus (foldl (\<lambda>b op. bus_exec op b) b ops) i = Some p \<and> Read p (foldl (\<lambda>b op. bus_exec op b) b ops) = Read p b"
proof (induction ops arbitrary: b)
  case (Cons op ops)
  with bus_exec_other [of b i p op] bus_exec_ok [of b op] show ?case by simp
qed simp

text \<open>
  After any history of the map, and whatever is then created, removed and written for other runs,
  the state created for a run still holds no command, a command written for the run succeeds and is
  read back through the pointer that the creation returned, and no other state changes.
\<close>

theorem command_reaches_poller:
  assumes "CreateCommandState runID (bus_run ops) = (p, b1)" and "\<forall>op\<in>set others. bus_id op \<noteq> runID"
    and "b2 = foldl (\<lambda>b op. bus_exec op b) b1 others"
  shows "Read p b2 = 0 \<and>
    (\<exists>b3. Write runID flag b2 = Inr b3 \<and> Read p b3 = flag \<and> (\<forall>q. q \<noteq> p \<longrightarrow> Read q b3 = Read q b2))"
proof -
  have ok: "bus_ok b1" using bus_exec_ok [OF bus_run_ok, of "BCreate runID" ops] assms(1) by simp
  have b1: "Bus b1 runID = Some p" "Read p b1 = 0" using assms(1) by (auto simp: CreateCommandState_def Read_def)
  from bus_others [OF ok b1(1) assms(2)] b1(2) assms(3) show ?thesis by (simp add: Write_def Read_def)
qed

theorem command_reaches_poller_witness:
  "let b2 = bus_run [BCreate ''a'', BCreate ''b'', BWrite ''a'' CommandCancel] in
   Read 1 b2 = 0 \<and> (\<exists>b3. Write ''b'' CommandStop b2 = Inr b3 \<and> Read 1 b3 = CommandStop)"
proof -
  have "CreateCommandState ''b'' (bus_run [BCreate ''a'']) = (1, bus_run [BCreate ''a'', BCreate ''b''])"
    by (simp add: bus_run_def CreateCommandState_def NewCommandStateMap_def)
  from command_reaches_poller [OF this, of "[BWrite ''a'' CommandCancel]" _ CommandStop] show ?thesis
    by (auto simp: bus_run_def Let_def)
qed

text \<open>The commands the poller reads before it ends.\<close>

fun seen_ticks :: "poll_event list \<Rightarrow> 32 word list" where
  "seen_ticks [] = []"
| "seen_ticks (CtxDone # evs) = []"
| "seen_ticks (CloseRunner # evs) = []"
| "seen_ticks (Tick cur # evs) = (if cur = CommandCancel then [cur] else cur # seen_ticks evs)"

fun ended_by_ctx :: "poll_event list \<Rightarrow> bool" where
  "ended_by_ctx [] = False"
| "ended_by_ctx (CtxDone # evs) = True"
| "ended_by_ctx (CloseRunner # evs) = False"
| "ended_by_ctx (Tick cur # evs) = (cur \<noteq> CommandCancel \<and> ended_by_ctx evs)"

definition poll_inv :: "CommandStateChannel \<Rightarrow> bool" where
  "poll_inv rec \<longleftrightarrow> polling rec \<and> cancelClosed rec = 0 \<and> stopClosed rec = (if stopDone rec then 1 else 0) \<and>
     (prev rec = CommandStop \<longrightarrow> stopDone rec) \<and> prev rec \<noteq> CommandCancel"

lemma poll_run_stopped: "\<not> polling rec \<Longrightarrow> poll_run evs rec = rec"
  by (cases evs) auto

lemma poll_run_result:
  "poll_inv rec \<Longrightarrow>
     stopClosed (poll_run evs rec) = (if stopDone rec \<or> CommandStop \<in> set (seen_ticks evs) then 1 else 0) \<and>
     cancelClosed (poll_run evs rec) = (if ended_by_ctx evs \<or> CommandCancel \<in> set (seen_ticks evs) then 1 else 0)"
proof (induction evs arbitrary: rec rule: seen_ticks.induct)
  case (4 cur evs)
  show ?case
  proof (cases "cur = CommandCancel")
    case True
    with 4 show ?thesis by (auto simp: poll_inv_def poll_run_stopped)
  next
    case False
    with "4.prems" have "poll_inv (pollCommandState (Tick cur) rec)" by (auto simp: poll_inv_def)
    from "4.IH" [OF False this] "4.prems" False show ?thesis
      by (auto simp: poll_inv_def split: if_splits)
  qed
qed (auto simp: poll_inv_def poll_run_stopped)

text \<open>
  C24. Whatever the poller sees and in whatever order, each channel is closed at most once, so that no
  close panics: the stop channel exactly if a stop command is read before the poller ends, the
  cancel channel exactly if it reads a cancel command or is ended by its context.
\<close>

theorem poller_closes_once:
  "stopClosed (poll_run evs NewCommandStateChannel) = (if CommandStop \<in> set (seen_ticks evs) then 1 else 0) \<and>
   cancelClosed (poll_run evs NewCommandStateChannel) =
     (if ended_by_ctx evs \<or> CommandCancel \<in> set (seen_ticks evs) then 1 else 0)"
  using poll_run_result [of NewCommandStateChannel evs] by (simp add: poll_inv_def NewCommandStateChannel_def)

end
