(* ===== verification/Compat.thy ===== *)
theory Compat
  imports Semver "HOL-Library.AList"
begin

text \<open>
  Which engine versions can render which runs: the matrix and its queries
  (core/atperf-compatibility/compatibility/compatibility.go) and the check of a set of runs before
  they are rendered (core/apap-engine/render/compatibility.go). The matrix is an association list in
  the order in which the code happens to iterate over the map. A nil pointer that the code
  dereferences is the result \<open>Inl NilDeref\<close>. Descriptions of runs come from a parameter.
\<close>

section \<open>The matrix\<close>

type_synonym recipe_versions = "(SemVer \<times> VersionRange) list"
type_synonym matrix = "(string \<times> recipe_versions) list"

datatype load_panic = BadEngineVersion string string | BadMinimumVersion string string string

fun load_recipe :: "string \<Rightarrow> (string \<times> string) list \<Rightarrow> recipe_versions \<Rightarrow> load_panic + recipe_versions" where
  "load_recipe name [] entry = Inr entry"
| "load_recipe name ((engineVersion, minimum) # rest) entry =
     (if engineVersion = ''NEXT_VERSION'' then load_recipe name rest entry
      else case ParseSemVer engineVersion of
             Inl e \<Rightarrow> Inl (BadEngineVersion engineVersion name)
           | Inr engVer \<Rightarrow>
              (case ParseSemVer minimum of
                 Inl e \<Rightarrow> Inl (BadMinimumVersion minimum engineVersion name)
               | Inr minVer \<Rightarrow>
                   load_recipe name rest
                     (AList.update engVer \<lparr>vrMin = Some minVer, vrMax = None, InclusiveMax = False\<rparr> entry)))"

fun loadMatrix :: "(string \<times> (string \<times> string) list) list \<Rightarrow> matrix \<Rightarrow> load_panic + matrix" where
  "loadMatrix [] m = Inr m"
| "loadMatrix ((name, recipeCompat) # rest) m =
     (case load_recipe name recipeCompat [] of
        Inl p \<Rightarrow> Inl p
      | Inr entry \<Rightarrow> loadMatrix rest (AList.update name entry m))"

record checker =
  compatibilityMatrix :: matrix
  currentVersion :: SemVer

datatype compat_error = RecipeUndefined string | VersionUndefined string SemVer | NoCompatibleVersion SemVer string

definition IsRecipeArmProvided :: "checker \<Rightarrow> string \<Rightarrow> bool" where
  "IsRecipeArmProvided c recipeName = (map_of (compatibilityMatrix c) recipeName \<noteq> None)"

definition GetCurrentCompatibilityForRecipe :: "checker \<Rightarrow> string \<Rightarrow> compat_error + VersionRange" where
  "GetCurrentCompatibilityForRecipe c recipeName =
     (case map_of (compatibilityMatrix c) recipeName of
        None \<Rightarrow> Inl (RecipeUndefined recipeName)
      | Some recipeVersioning \<Rightarrow>
         (case map_of recipeVersioning (currentVersion c) of
            Some vr \<Rightarrow> Inr vr
          | None \<Rightarrow> Inl (VersionUndefined recipeName (currentVersion c))))"

datatype panic = NilDeref

text \<open>The loop of \<open>CompatibleVersionRange\<close>, with \<open>maxVer\<close>, which the result points to.\<close>

fun compatible_loop :: "recipe_versions \<Rightarrow> SemVer \<Rightarrow> SemVer \<Rightarrow> bool \<Rightarrow> panic + (SemVer \<times> bool)" where
  "compatible_loop [] runVersion maxVer found = Inr (maxVer, found)"
| "compatible_loop ((engVer, verRange) # rest) runVersion maxVer found =
     (case vrMin verRange of
        None \<Rightarrow> Inl NilDeref
      | Some lo \<Rightarrow>
          if Cmp lo runVersion \<le> 0
          then compatible_loop rest runVersion (if Cmp engVer maxVer > 0 then engVer else maxVer) True
          else compatible_loop rest runVersion maxVer found)"

definition CompatibleVersionRange :: "checker \<Rightarrow> string \<Rightarrow> SemVer \<Rightarrow> panic + (compat_error + VersionRange)" where
  "CompatibleVersionRange c recipeName runVersion =
     (case compatible_loop (case map_of (compatibilityMatrix c) recipeName of Some rv \<Rightarrow> rv | None \<Rightarrow> []) runVersion runVersion False of
        Inl p \<Rightarrow> Inl p
      | Inr (maxVer, foundCompatibleVersion) \<Rightarrow>
          if \<not> foundCompatibleVersion then Inr (Inl (NoCompatibleVersion runVersion recipeName))
          else Inr (Inr \<lparr>vrMin = Some runVersion, vrMax = Some maxVer, InclusiveMax = True\<rparr>))"

section \<open>The check of a set of runs\<close>

record RunDetails =
  rdRunID :: string
  compatibilityRange :: VersionRange
  runVersion :: SemVer

datatype warning =
    MutuallyIncompatible string SemVer SemVer string SemVer SemVer
  | TooNew string SemVer SemVer
  | OldAndNew string string SemVer SemVer
  | TooNewSameVersion SemVer SemVer "string list"
  | TooNewPlural SemVer SemVer "(string \<times> SemVer) list"
  | TooOld string SemVer SemVer SemVer SemVer SemVer
  | TooOldSameVersion SemVer SemVer SemVer SemVer SemVer "string list"
  | TooOldPlural SemVer SemVer SemVer SemVer "(string \<times> SemVer) list"

text \<open>The loop of the plural case: whether all versions are the same, and the newest one.\<close>

fun newest_loop :: "RunDetails list \<Rightarrow> bool \<Rightarrow> SemVer \<Rightarrow> bool \<times> SemVer" where
  "newest_loop [] sameVersions newest = (sameVersions, newest)"
| "newest_loop (d # ds) sameVersions newest =
     (if runVersion d \<noteq> newest
      then newest_loop ds False (if Cmp (runVersion d) newest > 0 then runVersion d else newest)
      else newest_loop ds sameVersions newest)"

definition handleTooNew :: "checker \<Rightarrow> RunDetails list \<Rightarrow> RunDetails list \<Rightarrow> warning option" where
  "handleTooNew c tooOldRuns tooNewRuns =
     (case tooNewRuns of
        [] \<Rightarrow> None
      | [new] \<Rightarrow>
         (case tooOldRuns of
            [] \<Rightarrow> Some (TooNew (rdRunID new) (runVersion new) (currentVersion c))
          | old # _ \<Rightarrow> Some (OldAndNew (rdRunID old) (rdRunID new) (currentVersion c) (runVersion new)))
      | first # _ \<Rightarrow>
         (case newest_loop tooNewRuns True (runVersion first) of (sameVersions, newest) \<Rightarrow>
            if sameVersions then Some (TooNewSameVersion (currentVersion c) newest (map rdRunID tooNewRuns))
            else Some (TooNewPlural (currentVersion c) newest (map (\<lambda>d. (rdRunID d, runVersion d)) tooNewRuns))))"

definition deref_bounds :: "VersionRange \<Rightarrow> panic + (SemVer \<times> SemVer)" where
  "deref_bounds r = (case (vrMin r, vrMax r) of (Some lo, Some hi) \<Rightarrow> Inr (lo, hi) | _ \<Rightarrow> Inl NilDeref)"

definition handleTooOld :: "checker \<Rightarrow> RunDetails list \<Rightarrow> SemVer \<Rightarrow> VersionRange option \<Rightarrow> panic + warning option" where
  "handleTooOld c tooOldRuns currentMin compatIntersection =
     (case tooOldRuns of
        [] \<Rightarrow> Inr None
      | first # rest \<Rightarrow>
         (case compatIntersection of
            None \<Rightarrow> Inl NilDeref
          | Some r \<Rightarrow>
             (case deref_bounds r of
                Inl p \<Rightarrow> Inl p
              | Inr (lo, hi) \<Rightarrow>
                  if rest = [] then Inr (Some (TooOld (rdRunID first) (runVersion first) (currentVersion c) currentMin lo hi))
                  else if list_all (\<lambda>d. runVersion d = runVersion first) tooOldRuns
                  then Inr (Some (TooOldSameVersion (currentVersion c) currentMin lo hi (runVersion first) (map rdRunID tooOldRuns)))
                  else Inr (Some (TooOldPlural (currentVersion c) currentMin lo hi
                              (map (\<lambda>d. (rdRunID d, runVersion d)) tooOldRuns))))))"

definition consolidateRuns :: "checker \<Rightarrow> RunDetails list \<Rightarrow> SemVer \<Rightarrow> panic + warning option" where
  "consolidateRuns c runDetails currentMin =
     (let ranges = map compatibilityRange runDetails in
      case FindDisjointRanges ranges of (index1, index2) \<Rightarrow>
        if index1 \<noteq> -1 \<and> index2 \<noteq> -1 then
          (let d1 = runDetails ! nat index1; d2 = runDetails ! nat index2 in
           case (deref_bounds (compatibilityRange d1), deref_bounds (compatibilityRange d2)) of
             (Inr (lo1, hi1), Inr (lo2, hi2)) \<Rightarrow> Inr (Some (MutuallyIncompatible (rdRunID d1) lo1 hi1 (rdRunID d2) lo2 hi2))
           | _ \<Rightarrow> Inl NilDeref)
        else
          (let tooNewRuns = filter (\<lambda>d. Cmp (runVersion d) (currentVersion c) > 0) runDetails;
               tooOldRuns = filter (\<lambda>d. \<not> Cmp (runVersion d) (currentVersion c) > 0 \<and>
                              \<not> InRange (currentVersion c) (compatibilityRange d)) runDetails
           in if tooOldRuns = [] \<and> tooNewRuns = [] then Inr None
              else if tooNewRuns \<noteq> [] then Inr (handleTooNew c tooOldRuns tooNewRuns)
              else handleTooOld c tooOldRuns currentMin (Intersection ranges)))"

datatype selection_policy = UseInstalledVersion | OtherPolicy string

datatype 'e loop_exit = DescriptionError 'e | NotArmProvided | LoopPanic panic

text \<open>The loop over the runs; it leaves with an error, with no warning, or with the details collected.\<close>

fun details_loop ::
  "checker \<Rightarrow> (string \<Rightarrow> 'e + (string \<times> string)) \<Rightarrow> string list \<Rightarrow> string \<Rightarrow> RunDetails list \<Rightarrow>
     'e loop_exit + (string \<times> RunDetails list)" where
  "details_loop c describe [] recipeName ds = Inr (recipeName, ds)"
| "details_loop c describe (i # ids) recipeName0 ds =
     (case describe i of
        Inl e \<Rightarrow> Inl (DescriptionError e)
      | Inr (recipeName, engineVersion) \<Rightarrow>
          if \<not> IsRecipeArmProvided c recipeName then Inl NotArmProvided
          else case ParseSemVer engineVersion of
                 Inl e \<Rightarrow> details_loop c describe ids recipeName ds
               | Inr v \<Rightarrow>
                   if Cmp v (currentVersion c) > 0
                   then details_loop c describe ids recipeName
                          (ds @ [\<lparr>rdRunID = i, compatibilityRange = empty_range, runVersion = v\<rparr>])
                   else case CompatibleVersionRange c recipeName v of
                          Inl p \<Rightarrow> Inl (LoopPanic p)
                        | Inr (Inl e) \<Rightarrow> details_loop c describe ids recipeName ds
                        | Inr (Inr vr) \<Rightarrow> details_loop c describe ids recipeName
                            (ds @ [\<lparr>rdRunID = i, compatibilityRange = vr, runVersion = v\<rparr>]))"

definition getMinSupportedVersion :: "checker \<Rightarrow> string \<Rightarrow> panic + (compat_error + SemVer)" where
  "getMinSupportedVersion c recipeName =
     (case GetCurrentCompatibilityForRecipe c recipeName of
        Inl e \<Rightarrow> Inr (Inl e)
      | Inr r \<Rightarrow> (case vrMin r of None \<Rightarrow> Inl NilDeref | Some lo \<Rightarrow> Inr (Inr lo)))"

definition CheckRunCompatibility ::
  "checker \<Rightarrow> (string \<Rightarrow> 'e + (string \<times> string)) \<Rightarrow> selection_policy \<Rightarrow> string list \<Rightarrow> panic + ('e + warning option)" where
  "CheckRunCompatibility c describe policy runIDs =
     (if policy \<noteq> UseInstalledVersion then Inr (Inr None)
      else if length runIDs = 0 then Inr (Inr None)
      else case details_loop c describe runIDs [] [] of
             Inl (DescriptionError e) \<Rightarrow> Inr (Inl e)
           | Inl NotArmProvided \<Rightarrow> Inr (Inr None)
           | Inl (LoopPanic p) \<Rightarrow> Inl p
           | Inr (recipeName, details) \<Rightarrow>
              (case getMinSupportedVersion c recipeName of
                 Inl p \<Rightarrow> Inl p
               | Inr (Inl e) \<Rightarrow> Inr (Inr None)
               | Inr (Inr lo) \<Rightarrow>
                  (case consolidateRuns c details lo of Inl p \<Rightarrow> Inl p | Inr w \<Rightarrow> Inr (Inr w))))"

section \<open>Properties\<close>

text \<open>A matrix as loading builds it: every entry has a minimum.\<close>

definition matrix_ok :: "matrix \<Rightarrow> bool" where
  "matrix_ok m = list_all (\<lambda>(name, rv). list_all (\<lambda>(v, r). vrMin r \<noteq> None) rv) m"

lemma set_update: "set (AList.update k v al) \<subseteq> insert (k, v) (set al)"
  by (induction al) auto

lemma load_recipe_ok:
  "load_recipe name raw entry = Inr rv \<Longrightarrow> list_all (\<lambda>(v, r). vrMin r \<noteq> None) entry \<Longrightarrow>
     list_all (\<lambda>(v, r). vrMin r \<noteq> None) rv"
proof (induction name raw entry rule: load_recipe.induct)
  case (2 name ev mv rest entry)
  have "list_all (\<lambda>(v, r). vrMin r \<noteq> None) (AList.update k \<lparr>vrMin = Some x, vrMax = None, InclusiveMax = False\<rparr> entry)" for k x
    using "2.prems"(2) set_update [of k "\<lparr>vrMin = Some x, vrMax = None, InclusiveMax = False\<rparr>" entry]
    by (fastforce simp: list_all_iff)
  with 2 show ?case by (auto split: if_splits sum.splits)
qed simp

lemma loadMatrix_ok: "loadMatrix raw m = Inr m' \<Longrightarrow> matrix_ok m \<Longrightarrow> matrix_ok m'"
proof (induction raw m rule: loadMatrix.induct)
  case (2 name rc rest m)
  then obtain entry where e: "load_recipe name rc [] = Inr entry" "loadMatrix rest (AList.update name entry m) = Inr m'"
    by (auto split: sum.splits)
  have "matrix_ok (AList.update name entry m)"
    using "2.prems"(2) load_recipe_ok [OF e(1)] set_update [of name entry m] by (fastforce simp: matrix_ok_def list_all_iff)
  with 2 e show ?case by simp
qed simp

lemma Max_step:
  fixes m e :: "'a :: linorder"
  assumes "finite S"
  shows "Max (insert (if m < e then e else m) S) = Max (insert m (insert e S))"
proof (cases "S = {}")
  case True
  then show ?thesis by (auto simp: max_def)
next
  case False
  then have "Max (insert m (insert e S)) = max (max m e) (Max S)" using assms by (simp add: max.assoc)
  moreover have "(if m < e then e else m) = max m e" by (auto simp: max_def)
  ultimately show ?thesis using False assms by simp
qed

lemma finite_admitting: "finite {e. \<exists>r lo. (e, r) \<in> set rv \<and> vrMin r = Some lo \<and> lo \<le> v}"
  by (rule finite_subset [of _ "fst ` set rv"]) force+

lemma compatible_loop_result:
  "list_all (\<lambda>(v, r). vrMin r \<noteq> None) rv \<Longrightarrow>
     compatible_loop rv v m f =
       Inr (Max (insert m {e. \<exists>r lo. (e, r) \<in> set rv \<and> vrMin r = Some lo \<and> lo \<le> v}),
            f \<or> (\<exists>e r lo. (e, r) \<in> set rv \<and> vrMin r = Some lo \<and> lo \<le> v))"
proof (induction rv v m f rule: compatible_loop.induct)
  case (2 e r rest v m f)
  let ?S = "{e. \<exists>r lo. (e, r) \<in> set rest \<and> vrMin r = Some lo \<and> lo \<le> v}"
  have fin: "finite ?S" by (rule finite_admitting)
  obtain lo where lo: "vrMin r = Some lo" using "2.prems" by auto
  have S: "{e'. \<exists>r' lo. (e', r') \<in> set ((e, r) # rest) \<and> vrMin r' = Some lo \<and> lo \<le> v} =
      (if lo \<le> v then insert e ?S else ?S)" using lo by auto
  show ?case
  proof (cases "lo \<le> v")
    case True
    have "compatible_loop ((e, r) # rest) v m f =
        Inr (Max (insert (if m < e then e else m) ?S), True)"
      using True "2.IH"(1) "2.prems" lo by simp
    then show ?thesis unfolding Max_step [OF fin] S using True lo by auto
  next
    case False
    have ex: "(\<exists>e' r' lo. (e', r') \<in> set ((e, r) # rest) \<and> vrMin r' = Some lo \<and> lo \<le> v) =
        (\<exists>e' r' lo. (e', r') \<in> set rest \<and> vrMin r' = Some lo \<and> lo \<le> v)" using False lo by auto
    have "compatible_loop ((e, r) # rest) v m f = compatible_loop rest v m f" using False lo by simp
    then show ?thesis unfolding S ex using False "2.IH"(2) [OF lo] "2.prems" by simp
  qed
qed simp

lemma matrix_entry:
  "matrix_ok m \<Longrightarrow> list_all (\<lambda>(v, r). vrMin r \<noteq> None) (case map_of m n of Some rv \<Rightarrow> rv | None \<Rightarrow> [])"
  by (cases "map_of m n") (auto simp: matrix_ok_def list_all_iff dest!: map_of_SomeD)

text \<open>
  The range of engine versions for a run does not depend on the iteration order of the matrix: it
  runs from the version of the run to the greatest engine version whose minimum admits the run, or
  to the run's own version if that is greater, and it is undefined exactly if no engine version
  admits the run. On a loaded matrix no nil pointer is dereferenced.
\<close>

theorem CompatibleVersionRange_spec:
  assumes "matrix_ok (compatibilityMatrix c)"
    and "rv = (case map_of (compatibilityMatrix c) recipeName of Some rv \<Rightarrow> rv | None \<Rightarrow> [])"
    and "S = {e. \<exists>r lo. (e, r) \<in> set rv \<and> vrMin r = Some lo \<and> lo \<le> v}"
  shows "CompatibleVersionRange c recipeName v =
    (if S = {} then Inr (Inl (NoCompatibleVersion v recipeName))
     else Inr (Inr \<lparr>vrMin = Some v, vrMax = Some (Max (insert v S)), InclusiveMax = True\<rparr>))"
proof -
  have "list_all (\<lambda>(v, r). vrMin r \<noteq> None) rv"
    using matrix_entry [OF assms(1)] assms(2) by simp
  from compatible_loop_result [OF this, of v v False] show ?thesis
    by (auto simp: CompatibleVersionRange_def assms(2) [symmetric] assms(3))
qed

definition example_checker :: checker where
  "example_checker = \<lparr>compatibilityMatrix =
     [(''r'', [(SemVer 2 0 0, \<lparr>vrMin = Some (SemVer 1 0 0), vrMax = None, InclusiveMax = False\<rparr>),
               (SemVer 3 0 0, \<lparr>vrMin = Some (SemVer 2 0 0), vrMax = None, InclusiveMax = False\<rparr>)])],
     currentVersion = SemVer 3 0 0\<rparr>"

theorem CompatibleVersionRange_spec_witness:
  "CompatibleVersionRange example_checker ''none'' (SemVer 1 0 0) = Inr (Inl (NoCompatibleVersion (SemVer 1 0 0) ''none''))"
proof -
  have "matrix_ok (compatibilityMatrix example_checker)" by (simp add: matrix_ok_def example_checker_def)
  from CompatibleVersionRange_spec [OF this refl refl, of "''none''" "SemVer 1 0 0"] show ?thesis
    by (simp add: example_checker_def)
qed

text \<open>The details the loop collects: a run is newer than the engine and has no range, or has a proper range from its version on.\<close>

definition detail_ok :: "checker \<Rightarrow> RunDetails \<Rightarrow> bool" where
  "detail_ok c d \<longleftrightarrow>
     (currentVersion c < runVersion d \<and> compatibilityRange d = empty_range) \<or>
     (runVersion d \<le> currentVersion c \<and>
      (\<exists>hi. compatibilityRange d = \<lparr>vrMin = Some (runVersion d), vrMax = Some hi, InclusiveMax = True\<rparr> \<and> runVersion d \<le> hi))"

lemma CompatibleVersionRange_ok:
  assumes "matrix_ok (compatibilityMatrix c)"
  shows "(\<exists>e. CompatibleVersionRange c n v = Inr (Inl e)) \<or>
    (\<exists>hi. CompatibleVersionRange c n v = Inr (Inr \<lparr>vrMin = Some v, vrMax = Some hi, InclusiveMax = True\<rparr>) \<and> v \<le> hi)"
proof -
  let ?rv = "case map_of (compatibilityMatrix c) n of Some rv \<Rightarrow> rv | None \<Rightarrow> []"
  let ?S = "{e. \<exists>r lo. (e, r) \<in> set ?rv \<and> vrMin r = Some lo \<and> lo \<le> v}"
  have l: "list_all (\<lambda>(v, r). vrMin r \<noteq> None) ?rv"
    by (rule matrix_entry [OF assms])
  have "finite ?S" by (rule finite_admitting)
  then have "v \<le> Max (insert v ?S)" by simp
  with compatible_loop_result [OF l, of v v False] show ?thesis
    by (auto simp: CompatibleVersionRange_def)
qed

lemma details_loop_ok:
  "matrix_ok (compatibilityMatrix c) \<Longrightarrow> list_all (detail_ok c) ds \<Longrightarrow>
     (case details_loop c describe ids n ds of
        Inl (LoopPanic p) \<Rightarrow> False
      | Inl _ \<Rightarrow> True
      | Inr (n', ds') \<Rightarrow> list_all (detail_ok c) ds')"
proof (induction c describe ids n ds rule: details_loop.induct)
  case (2 c describe i ids n0 ds)
  show ?case
  proof (cases "describe i")
    case (Inl e)
    then show ?thesis by simp
  next
    case d: (Inr nv)
    obtain n ev where nv: "nv = (n, ev)" by (cases nv)
    show ?thesis
    proof (cases "IsRecipeArmProvided c n")
      case False
      then show ?thesis using d nv by simp
    next
      case arm: True
      show ?thesis
      proof (cases "ParseSemVer ev")
        case (Inl e)
        then show ?thesis using 2 d nv arm by simp
      next
        case (Inr v)
        show ?thesis
        proof (cases "currentVersion c < v")
          case True
          then show ?thesis using 2 d nv arm Inr by (simp add: detail_ok_def)
        next
          case False
          then show ?thesis
            using 2 d nv arm Inr CompatibleVersionRange_ok [OF "2.prems"(1), of n v]
            by (elim disjE exE) (simp_all add: detail_ok_def)
        qed
      qed
    qed
  qed
qed simp

lemma detail_bounds:
  "detail_ok c d \<Longrightarrow> vrMin (compatibilityRange d) = Some a \<or> vrMax (compatibilityRange d) = Some b \<Longrightarrow>
     \<exists>lo hi. deref_bounds (compatibilityRange d) = Inr (lo, hi) \<and> vrMin (compatibilityRange d) = Some lo \<and>
       vrMax (compatibilityRange d) = Some hi \<and> lo \<le> hi"
  by (auto simp: detail_ok_def empty_range_def deref_bounds_def)

text \<open>Two ranges of the details that are disjoint both have bounds.\<close>

lemma disjoint_bounded:
  assumes "detail_ok c d1" "detail_ok c d2" "Intersection [compatibilityRange d1, compatibilityRange d2] = Some empty_range"
  shows "\<exists>l1 h1 l2 h2. deref_bounds (compatibilityRange d1) = Inr (l1, h1) \<and> deref_bounds (compatibilityRange d2) = Inr (l2, h2)"
proof -
  from assms(3) obtain x y a b where xy: "x \<in> {d1, d2}" "y \<in> {d1, d2}" "vrMin (compatibilityRange x) = Some a"
      "vrMax (compatibilityRange y) = Some b" "b < a"
    unfolding Intersection_empty_conv by auto
  have ok: "detail_ok c x" "detail_ok c y" using xy assms by auto
  obtain l h where x: "deref_bounds (compatibilityRange x) = Inr (l, h)" "vrMin (compatibilityRange x) = Some l"
      "vrMax (compatibilityRange x) = Some h" "l \<le> h" using detail_bounds [OF ok(1)] xy(3) by blast
  obtain l' h' where y: "deref_bounds (compatibilityRange y) = Inr (l', h')" using detail_bounds [OF ok(2)] xy(4) by blast
  have "x \<noteq> y" using x xy by auto
  then consider "x = d1" "y = d2" | "x = d2" "y = d1" using xy(1,2) by blast
  then show ?thesis using x(1) y by cases auto
qed

lemma handleTooNew_Some: "tooNew \<noteq> [] \<Longrightarrow> \<exists>w. handleTooNew c tooOld tooNew = Some w"
  by (cases tooNew; cases "tl tooNew"; cases tooOld) (auto simp: handleTooNew_def split: prod.splits)

lemma handleTooOld_Some:
  "tooOld \<noteq> [] \<Longrightarrow> deref_bounds r = Inr b \<Longrightarrow> \<exists>w. handleTooOld c tooOld m (Some r) = Inr (Some w)"
  by (cases tooOld) (auto simp: handleTooOld_def split: prod.splits)

lemma Intersection_bounded:
  assumes "ds \<noteq> []" "\<forall>d\<in>set ds. vrMin (compatibilityRange d) \<noteq> None \<and> vrMax (compatibilityRange d) \<noteq> None"
    and "Intersection (map compatibilityRange ds) \<noteq> Some empty_range"
  shows "\<exists>r b. Intersection (map compatibilityRange ds) = Some r \<and> deref_bounds r = Inr b"
proof -
  obtain d where d: "d \<in> set ds" using assms(1) by (cases ds) auto
  then have d': "compatibilityRange d \<in> set (map compatibilityRange ds)" "vrMin (compatibilityRange d) \<noteq> None"
      "vrMax (compatibilityRange d) \<noteq> None" using assms(2) by auto
  show ?thesis
  proof (cases "map compatibilityRange ds" rule: Intersection_cases)
    case nil
    from bspec [OF nil(2) d'(1)] d'(2) show ?thesis by simp
  next
    case (empty a b x y)
    then show ?thesis using assms(3) by simp
  next
    case (range g s i)
    have gs: "g = None \<Longrightarrow> \<forall>r\<in>set (map compatibilityRange ds). vrMin r = None"
      "s = None \<Longrightarrow> \<forall>r\<in>set (map compatibilityRange ds). vrMax r = None"
      using range(3) by (simp_all add: inter_inv_def)
    have "g \<noteq> None" "s \<noteq> None" using bspec [OF gs(1) d'(1)] bspec [OF gs(2) d'(1)] d'(2,3) by auto
    then show ?thesis using range(1) by (auto simp: deref_bounds_def)
  qed
qed

text \<open>What the check says of the details: no warning exactly if the current engine renders every run.\<close>

lemma FindDisjoint_cases:
  obtains (disjoint) a b where "FindDisjointRanges rs = (int a, int b)" "a < length rs" "b < length rs"
      "Intersection [rs ! a, rs ! b] = Some empty_range" "Intersection rs = Some empty_range"
  | (joint) "FindDisjointRanges rs = (-1, -1)" "Intersection rs \<noteq> Some empty_range"
proof (cases "Intersection rs = Some empty_range")
  case True
  from find_pair_correct [OF this, of 0] obtain a b where "find_pair 0 rs = (int a, int b)" "a \<le> b" "b < length rs"
      "Intersection [rs ! a, rs ! b] = Some empty_range" by auto
  with True show thesis by (intro disjoint [of a b]) (simp_all add: FindDisjointRanges_def)
next
  case False
  then show thesis by (intro joint) (simp_all add: FindDisjointRanges_def)
qed

lemma consolidateRuns_spec:
  assumes ok: "list_all (detail_ok c) ds"
  shows "\<exists>w. consolidateRuns c ds m = Inr w \<and>
    (w = None \<longleftrightarrow> list_all (\<lambda>d. runVersion d \<le> currentVersion c \<and> InRange (currentVersion c) (compatibilityRange d)) ds)"
proof (cases "map compatibilityRange ds" rule: FindDisjoint_cases)
  case (disjoint a b)
  have ab: "detail_ok c (ds ! a)" "detail_ok c (ds ! b)" "a < length ds" "b < length ds"
    using ok disjoint by (auto simp: list_all_length)
  from disjoint_bounded [OF ab(1,2)] disjoint(2-4) obtain l1 h1 l2 h2
    where "deref_bounds (compatibilityRange (ds ! a)) = Inr (l1, h1)" "deref_bounds (compatibilityRange (ds ! b)) = Inr (l2, h2)" by auto
  with disjoint(1) have "\<exists>w. consolidateRuns c ds m = Inr (Some w)" by (simp add: consolidateRuns_def Let_def)
  moreover have "\<not> list_all (\<lambda>d. runVersion d \<le> currentVersion c \<and> InRange (currentVersion c) (compatibilityRange d)) ds"
  proof
    assume all: "list_all (\<lambda>d. runVersion d \<le> currentVersion c \<and> InRange (currentVersion c) (compatibilityRange d)) ds"
    from disjoint(5) obtain x y l h where "x \<in> set ds" "y \<in> set ds" "vrMin (compatibilityRange x) = Some l"
        "vrMax (compatibilityRange y) = Some h" "h < l"
      unfolding Intersection_empty_conv by auto
    with all have "l \<le> currentVersion c" "currentVersion c < h \<or> currentVersion c = h" "h < l"
      by (auto simp: list_all_iff InRange_iff)
    then show False by auto
  qed
  ultimately show ?thesis by auto
next
  case joint
  let ?new = "filter (\<lambda>d. Cmp (runVersion d) (currentVersion c) > 0) ds"
  let ?old = "filter (\<lambda>d. \<not> Cmp (runVersion d) (currentVersion c) > 0 \<and> \<not> InRange (currentVersion c) (compatibilityRange d)) ds"
  have none: "?old = [] \<and> ?new = [] \<longleftrightarrow>
      list_all (\<lambda>d. runVersion d \<le> currentVersion c \<and> InRange (currentVersion c) (compatibilityRange d)) ds"
    by (auto simp: filter_empty_conv list_all_iff not_less)
  consider "?old = [] \<and> ?new = []" | "?new \<noteq> []" | "?old \<noteq> []" "?new = []" by blast
  then show ?thesis
  proof cases
    case 1
    then show ?thesis using none joint(1) by (simp add: consolidateRuns_def Let_def)
  next
    case 2
    then show ?thesis using none joint(1) handleTooNew_Some [OF 2, of c ?old] by (auto simp: consolidateRuns_def Let_def)
  next
    case 3
    have "ds \<noteq> []" using 3(1) by auto
    moreover have "\<forall>d\<in>set ds. vrMin (compatibilityRange d) \<noteq> None \<and> vrMax (compatibilityRange d) \<noteq> None"
      using ok 3(2) by (fastforce simp: detail_ok_def list_all_iff filter_empty_conv)
    ultimately obtain r b where r: "Intersection (map compatibilityRange ds) = Some r" "deref_bounds r = Inr b"
      using Intersection_bounded joint(2) by blast
    from handleTooOld_Some [OF 3(1) r(2), of c m] obtain w
      where "handleTooOld c ?old m (Some r) = Inr (Some w)" by blast
    moreover have "consolidateRuns c ds m = handleTooOld c ?old m (Some r)"
      using 3 joint(1) r(1) unfolding consolidateRuns_def Let_def by simp
    ultimately show ?thesis using none 3(1) by auto
  qed
qed

text \<open>
  On a loaded matrix the check of runs dereferences no nil pointer, whatever the descriptions
  say, although runs that are too new have no range and the code prints the bounds of the ranges
  of a pair that is mutually incompatible.
\<close>

theorem CheckRunCompatibility_no_panic:
  assumes "loadMatrix raw [] = Inr (compatibilityMatrix c)"
  shows "\<exists>res. CheckRunCompatibility c describe policy runIDs = Inr res"
proof -
  have m: "matrix_ok (compatibilityMatrix c)" using loadMatrix_ok [OF assms] by (simp add: matrix_ok_def)
  have g: "\<exists>x. getMinSupportedVersion c n = Inr x" for n
  proof (cases "GetCurrentCompatibilityForRecipe c n")
    case (Inl e)
    then show ?thesis by (simp add: getMinSupportedVersion_def)
  next
    case (Inr r)
    then obtain rv where rv: "map_of (compatibilityMatrix c) n = Some rv" "map_of rv (currentVersion c) = Some r"
      by (auto simp: GetCurrentCompatibilityForRecipe_def split: option.splits)
    have "vrMin r \<noteq> None" using matrix_entry [OF m, of n] rv by (auto simp: list_all_iff dest!: map_of_SomeD)
    with Inr show ?thesis by (auto simp: getMinSupportedVersion_def)
  qed
  have d: "list_all (detail_ok c) []" by simp
  show ?thesis
  proof (cases "details_loop c describe runIDs [] []")
    case (Inl x)
    with details_loop_ok [OF m d, of describe runIDs "[]"] show ?thesis
      by (cases x) (auto simp: CheckRunCompatibility_def)
  next
    case (Inr y)
    obtain n ds where y: "y = (n, ds)" by (cases y)
    then have "list_all (detail_ok c) ds" using details_loop_ok [OF m d, of describe runIDs "[]"] Inr by simp
    from consolidateRuns_spec [OF this] have k: "\<exists>w. consolidateRuns c ds lo = Inr w" for lo by blast
    obtain x where x: "getMinSupportedVersion c n = Inr x" using g by blast
    show ?thesis
    proof (cases x)
      case (Inl e)
      then show ?thesis using Inr y x by (simp add: CheckRunCompatibility_def)
    next
      case lo: (Inr lo)
      obtain w where "consolidateRuns c ds lo = Inr w" using k by blast
      then show ?thesis using Inr y x lo by (simp add: CheckRunCompatibility_def)
    qed
  qed
qed

definition small_checker :: checker where
  "small_checker = \<lparr>compatibilityMatrix = [(''r'', [(SemVer 2 0 0, \<lparr>vrMin = Some (SemVer 1 0 0), vrMax = None, InclusiveMax = False\<rparr>)])],
     currentVersion = SemVer 2 0 0\<rparr>"

theorem CheckRunCompatibility_no_panic_witness:
  "\<exists>res. CheckRunCompatibility small_checker (\<lambda>i. Inr (''r'', i) :: string + (string \<times> string)) UseInstalledVersion
     [''9.0'', ''1.5''] = Inr res"
proof -
  have "loadMatrix [(''r'', [(''2.0'', ''1.0''), (''NEXT_VERSION'', ''1.0'')])] [] = Inr (compatibilityMatrix small_checker)"
    by code_simp
  then show ?thesis by (rule CheckRunCompatibility_no_panic)
qed



end
