(* ===== verification/LoadContent.thy ===== *)
theory LoadContent
  imports Overlay "HOL-Library.Multiset" "HOL-Library.Sublist"
begin

text \<open>
  Loading the runs of a render session (\<open>LoadContent\<close> of core/apap-engine/render/session_lifecycle.go):
  the migrations the tools declare, those that apply to the tools a run recorded, and the overlay of
  the run with an empty model for the outputs of this session. Reading a run from disk, making a
  path absolute, creating the file system of a render and its ID, and \<open>sort.Slice\<close> are parameters.
\<close>

section \<open>Declared migrations\<close>

record Migration =
  tmType :: string
  tmFrom :: string
  tmTo :: string
  tmVersion :: string
  tmOldSuffix :: string
  tmNewSuffix :: string

definition declared_migration :: "Migration \<Rightarrow> PathMigration list" where
  "declared_migration m =
     (case ParseSemVer (tmVersion m) of
        Inl e \<Rightarrow> []
      | Inr v \<Rightarrow>
          if tmType m = ''missingInvocation'' then [ToolInvocationMigration (tmFrom m) v]
          else if tmType m = ''suffixRewrite'' then [ToolPathSuffixMigration (tmFrom m) v (tmOldSuffix m) (tmNewSuffix m)]
          else if tmType m = ''renameTool'' then [ToolNameMigration (tmFrom m) (tmTo m) v]
          else [])"

text \<open>\<open>None\<close> stands for a missing package manager and for the error of the registry.\<close>

definition all_migrations :: "Migration list list option \<Rightarrow> PathMigration list" where
  "all_migrations registry =
     (case registry of None \<Rightarrow> [] | Some factories \<Rightarrow> concat (map declared_migration (concat factories)))"

section \<open>Migrations of a run\<close>

text \<open>The walk over the migrations, oldest first, for one recorded tool; \<open>cur\<close> is its name so far.\<close>

fun tool_migrations :: "SemVer \<Rightarrow> PathMigration list \<Rightarrow> string \<Rightarrow> PathMigration list \<times> string" where
  "tool_migrations runVer [] cur = ([], cur)"
| "tool_migrations runVer (pm # pms) cur =
     (if Cmp runVer (mVer pm) \<ge> 0 then tool_migrations runVer pms cur
      else if mFrom pm = cur then
        (let cur' = (case pm of ToolNameMigration from to v \<Rightarrow> to | _ \<Rightarrow> cur)
         in case tool_migrations runVer pms cur' of (ms, final) \<Rightarrow> (pm # ms, final))
      else tool_migrations runVer pms cur)"

definition recorded_version :: "string \<Rightarrow> SemVer" where
  "recorded_version s = (case ParseSemVer s of Inl e \<Rightarrow> SemVer 0 0 0 | Inr v \<Rightarrow> v)"

definition run_migrations :: "PathMigration list \<Rightarrow> ToolUsed list \<Rightarrow> PathMigration list" where
  "run_migrations srtd tools = concat (map (\<lambda>tu. fst (tool_migrations (recorded_version (tuVersion tu)) srtd (tuTool tu))) tools)"

section \<open>Content\<close>

record ContentMapEntry =
  ceID :: string
  ceModel :: OverlayModel
  ceRoots :: "string list"

record RenderTarget =
  rtRenderID :: string
  rtModel :: OnDiskModel

record run_source =
  rsLoad :: "string \<Rightarrow> string + OnDiskModel"
  rsAbs :: "string \<Rightarrow> string + string"
  rsRerender :: bool
  rsNewFS :: "string \<Rightarrow> string option"
  rsRenderID :: "nat \<Rightarrow> string + string"

datatype load_error =
    EmptySelection
  | NoRerenderSupport
  | LoadFailed string
  | AbsFailed string string
  | FSFailed string
  | RenderIDFailed string
  | OverlayFailed

definition RenderPath :: "string \<Rightarrow> string" where
  "RenderPath renderID = PathJoin ''render'' renderID"

definition prepare_model :: "PathMigration list \<Rightarrow> OnDiskModel \<Rightarrow> OnDiskModel" where
  "prepare_model srtd m =
     (let m1 = (if length (ToolsUsed (manifest m)) = 0 then InjectLegacyToolOutputs m ''1.0.0'' else m)
      in AddPathMigrations m1 (run_migrations srtd (ToolsUsed (manifest m1))))"

definition load_entry ::
  "env \<Rightarrow> run_source \<Rightarrow> PathMigration list \<Rightarrow> nat \<Rightarrow> string \<Rightarrow> load_error + (ContentMapEntry \<times> RenderTarget)" where
  "load_entry E R srtd i rid =
     (case rsLoad R rid of
        Inl e \<Rightarrow> Inl (LoadFailed e)
      | Inr m \<Rightarrow>
         (case rsAbs R (basePath m) of
            Inl e \<Rightarrow> Inl (AbsFailed rid e)
          | Inr runRoot \<Rightarrow>
             (let model = prepare_model srtd m in
              case rsNewFS R rid of
                Some e \<Rightarrow> Inl (FSFailed e)
              | None \<Rightarrow>
                 (case rsRenderID R i of
                    Inl e \<Rightarrow> Inl (RenderIDFailed e)
                  | Inr renderID \<Rightarrow>
                     (let rerenderModel = NewOnDiskModel (PathJoin (basePath model) (RenderPath renderID)) (Some \<lparr>Entries = [], ToolsUsed = []\<rparr>)
                      in case NewOverlayModel (Some (ondisk_view E model)) (Some (ondisk_view E rerenderModel)) of
                           None \<Rightarrow> Inl OverlayFailed
                         | Some ov \<Rightarrow>
                             Inr (\<lparr>ceID = rid, ceModel = ov, ceRoots = [runRoot]\<rparr>, \<lparr>rtRenderID = renderID, rtModel = rerenderModel\<rparr>))))))"

fun load_entries ::
  "env \<Rightarrow> run_source \<Rightarrow> PathMigration list \<Rightarrow> nat \<Rightarrow> string list \<Rightarrow> load_error + (ContentMapEntry \<times> RenderTarget) list" where
  "load_entries E R srtd i [] = Inr []"
| "load_entries E R srtd i (rid # rids) =
     (case load_entry E R srtd i rid of
        Inl e \<Rightarrow> Inl e
      | Inr x \<Rightarrow> (case load_entries E R srtd (Suc i) rids of Inl e \<Rightarrow> Inl e | Inr xs \<Rightarrow> Inr (x # xs)))"

text \<open>The targets are a map by run, so the last of two equal runs in the selection wins.\<close>

definition LoadContent ::
  "env \<Rightarrow> run_source \<Rightarrow> (PathMigration list \<Rightarrow> PathMigration list) \<Rightarrow> Migration list list option \<Rightarrow> string list \<Rightarrow>
     load_error + (ContentMapEntry list \<times> (string \<rightharpoonup> RenderTarget))" where
  "LoadContent E R sort_oldest registry selection =
     (if length selection = 0 then Inl EmptySelection
      else if \<not> rsRerender R then Inl NoRerenderSupport
      else case load_entries E R (sort_oldest (all_migrations registry)) 0 selection of
             Inl e \<Rightarrow> Inl e
           | Inr xs \<Rightarrow> Inr (map fst xs, map_of (rev (map (\<lambda>(e, t). (ceID e, t)) xs))))"

section \<open>Back to the recorded names\<close>

fun rename_target :: "PathMigration \<Rightarrow> string \<Rightarrow> string" where
  "rename_target (ToolNameMigration from to v) cur = to"
| "rename_target _ cur = cur"

text \<open>The names a tool had, oldest first, along its migrations.\<close>

fun tool_names :: "string \<Rightarrow> PathMigration list \<Rightarrow> string list" where
  "tool_names t [] = [t]"
| "tool_names t (ToolNameMigration from to v # ms) = t # tool_names to ms"
| "tool_names t (_ # ms) = tool_names t ms"

fun tool_chain :: "string \<Rightarrow> PathMigration list \<Rightarrow> string \<Rightarrow> bool" where
  "tool_chain t [] cur \<longleftrightarrow> t = cur"
| "tool_chain t (pm # ms) cur \<longleftrightarrow> mFrom pm = t \<and> tool_chain (rename_target pm t) ms cur"

lemma tool_migrations_chain:
  "tool_migrations v srtd t = (ms, cur) \<Longrightarrow> tool_chain t ms cur \<and> subseq ms srtd"
proof (induction srtd arbitrary: t ms)
  case (Cons pm pms)
  have target: "(case pm of ToolNameMigration from to v \<Rightarrow> to | _ \<Rightarrow> t) = rename_target pm t" by (cases pm) auto
  show ?case
  proof (cases "Cmp v (mVer pm) \<ge> 0 \<or> mFrom pm \<noteq> t")
    case True
    then have "tool_migrations v pms t = (ms, cur)" using Cons.prems by (auto split: if_splits)
    then show ?thesis using Cons.IH by auto
  next
    case False
    then obtain ms' where "tool_migrations v pms (rename_target pm t) = (ms', cur)" "ms = pm # ms'"
      using Cons.prems by (auto simp: Let_def target split: prod.splits)
    then show ?thesis using Cons.IH False by auto
  qed
qed simp

lemma tool_chain_snoc: "tool_chain t (ms @ [pm]) cur \<longleftrightarrow> (\<exists>mid. tool_chain t ms mid \<and> mFrom pm = mid \<and> cur = rename_target pm mid)"
  by (induction t ms cur rule: tool_chain.induct) auto

lemma tool_names_nonempty [simp]: "tool_names t ms \<noteq> []"
  by (induction t ms rule: tool_names.induct) auto

lemma tool_names_last: "tool_chain t ms cur \<Longrightarrow> last (tool_names t ms) = cur"
  by (induction t ms rule: tool_names.induct) auto

lemma tool_names_snoc:
  "tool_names t (ms @ [pm]) = tool_names t ms @ (case pm of ToolNameMigration from to v \<Rightarrow> [to] | _ \<Rightarrow> [])"
  by (induction t ms rule: tool_names.induct) (auto split: PathMigration.splits)

lemma walk_back:
  "tool_chain t ms cur \<Longrightarrow> distinct (tool_names t ms) \<Longrightarrow> set seen \<inter> set (butlast (tool_names t ms)) = {} \<Longrightarrow>
     tool_name_loop (rev ms) seen cur = Inr t"
proof (induction ms arbitrary: cur seen rule: rev_induct)
  case (snoc pm ms)
  from snoc.prems(1) obtain mid where mid: "tool_chain t ms mid" "mFrom pm = mid" "cur = rename_target pm mid"
    by (auto simp: tool_chain_snoc)
  have names: "tool_names t ms = butlast (tool_names t ms) @ [mid]"
    using tool_names_last [OF mid(1)] by (metis append_butlast_last_id tool_names_nonempty)
  show ?case
  proof (cases pm)
    case (ToolNameMigration f to v)
    then have eq: "f = mid" "cur = to" using mid by auto
    have d: "distinct (tool_names t ms @ [to])" and s: "set seen \<inter> set (tool_names t ms) = {}"
      using snoc.prems(2,3) ToolNameMigration by (simp_all add: tool_names_snoc)
    have in_names: "mid \<in> set (tool_names t ms)" using names by (metis in_set_conv_decomp)
    then have ne: "to \<noteq> mid" "mid \<notin> set seen" using d s by auto
    have "mid \<notin> set (butlast (tool_names t ms))" using d names by (metis distinct_append disjoint_insert(1) list.set(2))
    moreover have "set (butlast (tool_names t ms)) \<subseteq> set (tool_names t ms)" by (meson in_set_butlastD subsetI)
    ultimately have "tool_name_loop (rev ms) (mid # seen) mid = Inr t"
      using s d by (intro snoc.IH [OF mid(1)]) auto
    then show ?thesis using ToolNameMigration eq ne by simp
  next
    case (ToolPathSuffixMigration f v old new)
    then show ?thesis using snoc.IH [OF mid(1), of seen] snoc.prems mid(3) by (simp add: tool_names_snoc)
  next
    case (ToolInvocationMigration f v)
    then show ?thesis using snoc.IH [OF mid(1), of seen] snoc.prems mid(3) by (simp add: tool_names_snoc)
  qed
qed simp

lemma subseq_sorted: "subseq xs ys \<Longrightarrow> sorted_wrt P ys \<Longrightarrow> sorted_wrt P xs"
  by (induction rule: list_emb.induct) (auto dest: list_emb_set)

lemma newest_first_rev:
  assumes "sorted (map mVer ms)" and "distinct (map mVer ms)" and "mset (srt ms) = mset ms"
    and "sorted_wrt (\<lambda>a b. \<not> migLess b a) (srt ms)"
  shows "srt ms = rev ms"
proof -
  have d: "distinct (map mVer (srt ms))"
    using assms(2,3) mset_eq_imp_distinct_iff [of "map mVer (srt ms)" "map mVer ms"] by simp
  have "sorted_wrt (\<lambda>a b. mVer b \<le> mVer a) (srt ms)"
    using assms(4) by (rule sorted_wrt_mono_rel [rotated]) (auto simp: migLess_def)
  then have s: "sorted (map mVer (rev (srt ms)))" by (simp add: sorted_wrt_rev sorted_map)
  have "rev (srt ms) = ms"
  proof (rule map_sorted_distinct_set_unique [of mVer])
    show "inj_on mVer (set (rev (srt ms)) \<union> set ms)"
      using assms(2,3) by (metis Un_absorb distinct_map mset_eq_setD set_rev)
    show "set (rev (srt ms)) = set ms" using assms(3) by (metis mset_eq_setD set_rev)
  qed (use assms d s in \<open>simp_all add: distinct_map\<close>)
  then show ?thesis by (metis rev_rev_ident)
qed



end
