(* ===== verification/RenderManifest.thy ===== *)
theory RenderManifest
  imports Manifest
begin

text \<open>
  The manifest of a render session (core/apap-engine/render/manifest.go, with the identities of
  config.go): the tables the renderers have produced, and the generation of table names. The removal
  of temporary tables (\<open>RemoveTempTables\<close> of session_lifecycle.go) is here as well, because the
  uniqueness of the generated names depends on it; dropping a table in the database is a parameter.
\<close>

section \<open>Entries\<close>

record RendererIdentity =
  riIndex :: int
  riID :: "string option"
  riName :: string

definition Equals :: "RendererIdentity \<Rightarrow> RendererIdentity \<Rightarrow> bool" where
  "Equals ri other =
     (if riIndex ri \<noteq> riIndex other then False
      else if riName ri \<noteq> riName other then False
      else case (riID ri, riID other) of
             (None, None) \<Rightarrow> True
           | (None, Some _) \<Rightarrow> False
           | (Some _, None) \<Rightarrow> False
           | (Some a, Some b) \<Rightarrow> a = b)"

record ManifestEntryInfo =
  componentType :: ComponentType
  rendererIdentity :: RendererIdentity
  associatedContent :: "string list"
  pending :: bool

definition NewManifestEntryInfo :: "ComponentType \<Rightarrow> RendererIdentity \<Rightarrow> string list \<Rightarrow> ManifestEntryInfo" where
  "NewManifestEntryInfo ct ri content =
     \<lparr>componentType = ct, rendererIdentity = ri, associatedContent = content, pending = False\<rparr>"

datatype TableType = RegularTable | HiddenTable | TempTable

record TableEntry =
  info :: ManifestEntryInfo
  tableName :: string
  tableType :: TableType

abbreviation IsHidden :: "TableEntry \<Rightarrow> bool" where "IsHidden e \<equiv> tableType e = HiddenTable"
abbreviation IsTemp :: "TableEntry \<Rightarrow> bool" where "IsTemp e \<equiv> tableType e = TempTable"
abbreviation entryTypeName :: "TableEntry \<Rightarrow> string" where "entryTypeName e \<equiv> ctName (componentType (info e))"

type_synonym tables = "TableEntry list"

section \<open>Operations\<close>

datatype tables_error = EntryNotFound | TableNotInManifest string

definition GetEntry :: "tables \<Rightarrow> string \<Rightarrow> tables_error + TableEntry" where
  "GetEntry m name = (case find (\<lambda>e. tableName e = name) m of Some e \<Rightarrow> Inr e | None \<Rightarrow> Inl EntryNotFound)"

definition TempTableNames :: "tables \<Rightarrow> string list" where
  "TempTableNames m = map tableName (filter IsTemp m)"

fun RemoveEntry :: "tables \<Rightarrow> string \<Rightarrow> tables_error + tables" where
  "RemoveEntry [] name = Inl EntryNotFound"
| "RemoveEntry (e # es) name =
     (if tableName e = name then Inr es
      else case RemoveEntry es name of Inl err \<Rightarrow> Inl err | Inr es' \<Rightarrow> Inr (e # es'))"

definition countEntriesByComponentType :: "tables \<Rightarrow> string \<Rightarrow> nat" where
  "countEntriesByComponentType m name = length (filter (\<lambda>e. entryTypeName e = name) m)"

definition table_char :: "char \<Rightarrow> bool" where
  "table_char c \<longleftrightarrow>
     (of_char c \<ge> (97::nat) \<and> of_char c \<le> (122::nat)) \<or> (of_char c \<ge> (65::nat) \<and> of_char c \<le> (90::nat)) \<or>
     (of_char c \<ge> (48::nat) \<and> of_char c \<le> (57::nat)) \<or> c = CHR ''_''"

text \<open>
  The loop ranges over the start positions of the characters: for a character of several bytes only
  the first byte is replaced and the others keep the zero they are created with.
\<close>

function SanitizeTableName :: "string \<Rightarrow> string" where
  "SanitizeTableName [] = []"
| "SanitizeTableName (c # s) =
     (if table_char c then c else CHR ''_'') # replicate (rune_width (c # s) - 1) (CHR 0x00)
       @ SanitizeTableName (drop (rune_width (c # s) - 1) s)"
  by pat_completeness auto
termination
  by (relation "measure length") auto

definition index_suffix :: "nat \<Rightarrow> string" where
  "index_suffix index = (if index > 0 then ''_'' @ Itoa (int index) else [])"

definition addEntryInternal :: "tables \<Rightarrow> ManifestEntryInfo \<Rightarrow> TableType \<Rightarrow> string \<times> tables" where
  "addEntryInternal m i ty =
     (let index = countEntriesByComponentType m (ctName (componentType i));
          name = SanitizeTableName (ctName (componentType i)) @ index_suffix index
      in (name, m @ [\<lparr>info = i, tableName = name, tableType = ty\<rparr>]))"

definition AddTableEntry :: "tables \<Rightarrow> ManifestEntryInfo \<Rightarrow> string \<times> tables" where
  "AddTableEntry m i = addEntryInternal m i RegularTable"

definition AddEntryHidden :: "tables \<Rightarrow> ManifestEntryInfo \<Rightarrow> string \<times> tables" where
  "AddEntryHidden m i = addEntryInternal m i HiddenTable"

definition temp_info :: ManifestEntryInfo where
  "temp_info =
     \<lparr>componentType = \<lparr>ctName = ''anonymous'', SchemaVersion = ''0.0''\<rparr>,
      rendererIdentity = \<lparr>riIndex = 0, riID = None, riName = []\<rparr>, associatedContent = [], pending = False\<rparr>"

definition AddTempTable :: "tables \<Rightarrow> string \<times> tables" where
  "AddTempTable m = addEntryInternal m temp_info TempTable"

definition GetComponentTypeFromTable :: "tables \<Rightarrow> string \<Rightarrow> tables_error + ComponentType" where
  "GetComponentTypeFromTable m name =
     (case find (\<lambda>e. tableName e = name) m of
        Some e \<Rightarrow> Inr (componentType (info e))
      | None \<Rightarrow> Inl (TableNotInManifest name))"

datatype temp_error = DropFailed string | RemoveFailed string tables_error

fun remove_temps :: "(string \<Rightarrow> bool) \<Rightarrow> string list \<Rightarrow> tables \<Rightarrow> temp_error option \<times> tables" where
  "remove_temps drop_ok [] m = (None, m)"
| "remove_temps drop_ok (name # names) m =
     (if \<not> drop_ok name then (Some (DropFailed name), m)
      else case RemoveEntry m name of
             Inl err \<Rightarrow> (Some (RemoveFailed name err), m)
           | Inr m' \<Rightarrow> remove_temps drop_ok names m')"

definition RemoveTempTables :: "(string \<Rightarrow> bool) \<Rightarrow> tables \<Rightarrow> temp_error option \<times> tables" where
  "RemoveTempTables drop_ok m = remove_temps drop_ok (TempTableNames m) m"

section \<open>Names\<close>

lemma Equals_iff: "Equals a b \<longleftrightarrow> a = b"
  by (cases a; cases b) (auto simp: Equals_def split: option.splits)

lemma rune_width_bounds: "s \<noteq> [] \<Longrightarrow> 1 \<le> rune_width s \<and> rune_width s \<le> length s"
  by (auto simp: rune_width_def Let_def split: list.splits)

lemma rune_width_ascii: "of_char c < (128::nat) \<Longrightarrow> rune_width (c # s) = 1"
  by (auto simp: rune_width_def encoding_length_def in_range_def Let_def split: list.splits)

lemma set_Sanitize: "set (SanitizeTableName s) \<subseteq> {c. table_char c} \<union> {CHR 0x00}"
  by (induction s rule: SanitizeTableName.induct) (auto simp: table_char_def)

lemma length_Sanitize: "length (SanitizeTableName s) = length s"
proof (induction s rule: SanitizeTableName.induct)
  case (2 c s)
  then show ?case using rune_width_bounds [of "c # s"] by simp
qed simp

lemma Sanitize_ascii:
  "list_all (\<lambda>c. of_char c < (128::nat)) s \<Longrightarrow>
     SanitizeTableName s = map (\<lambda>c. if table_char c then c else CHR ''_'') s"
  by (induction s) (auto simp: rune_width_ascii)

lemma suffix_chars: "set (index_suffix n) \<subseteq> {c. table_char c}"
  using Itoa_digits [of "int n"]
  by (auto simp: index_suffix_def list_all_iff is_digit_def table_char_def)

definition table_name :: "string \<Rightarrow> nat \<Rightarrow> string" where
  "table_name n i = SanitizeTableName n @ index_suffix i"

text \<open>
  Component type names whose tables cannot be confused: after sanitising no two are equal, and none
  is another one followed by an index.
\<close>

definition names_apart :: "string set \<Rightarrow> bool" where
  "names_apart N \<longleftrightarrow> (\<forall>a\<in>N. \<forall>b\<in>N. a \<noteq> b \<longrightarrow>
     SanitizeTableName a \<noteq> SanitizeTableName b \<and> (\<forall>k. SanitizeTableName a \<noteq> SanitizeTableName b @ ''_'' @ Itoa (int k)))"

lemma Itoa_no_underscore: "CHR ''_'' \<notin> set (Itoa (int i))"
  using Itoa_digits [of "int i"] by (auto simp: list_all_iff is_digit_def)

lemma suffix_inj: "index_suffix i = index_suffix j \<longleftrightarrow> i = j"
  by (auto simp: index_suffix_def Itoa_inj)

lemma table_name_inj:
  assumes "names_apart N" and "a \<in> N" and "b \<in> N" and "table_name a i = table_name b j"
  shows "a = b \<and> i = j"
proof (cases "a = b")
  case True
  then show ?thesis using assms(4) by (simp add: table_name_def suffix_inj)
next
  case False
  have ne: "SanitizeTableName a \<noteq> SanitizeTableName b" "SanitizeTableName a \<noteq> table_name b j" "table_name a i \<noteq> SanitizeTableName b"
    using assms(1-3) False unfolding names_apart_def table_name_def index_suffix_def by (auto dest: sym)
  with assms(4) have "i > 0" "j > 0"
    by (auto simp: table_name_def index_suffix_def split: if_splits)
  then have "SanitizeTableName a @ CHR ''_'' # Itoa (int i) = SanitizeTableName b @ CHR ''_'' # Itoa (int j)"
    using assms(4) by (simp add: table_name_def index_suffix_def)
  then show ?thesis using split_last_sep [OF _ Itoa_no_underscore Itoa_no_underscore] ne(1) by blast
qed

text \<open>The entries of each type are numbered in order, starting at the given counts.\<close>

definition bump :: "(string \<Rightarrow> nat) \<Rightarrow> string \<Rightarrow> string \<Rightarrow> nat" where
  "bump c n m = (if m = n then Suc (c n) else c m)"

lemma count_bump_simps [simp]: "bump c n n = Suc (c n)" "m \<noteq> n \<Longrightarrow> bump c n m = c m"
  by (simp_all add: bump_def)

fun numbered :: "(string \<Rightarrow> nat) \<Rightarrow> tables \<Rightarrow> bool" where
  "numbered c [] = True"
| "numbered c (e # es) \<longleftrightarrow>
     tableName e = table_name (entryTypeName e) (c (entryTypeName e)) \<and>
     numbered (bump c (entryTypeName e)) es"

lemma numbered_snoc:
  "numbered c (m @ [e]) \<longleftrightarrow> numbered c m \<and>
     tableName e = table_name (entryTypeName e) (c (entryTypeName e) + countEntriesByComponentType m (entryTypeName e))"
  by (induction m arbitrary: c) (auto simp: countEntriesByComponentType_def bump_def)

lemma numbered_filter:
  "numbered c m \<Longrightarrow> (\<And>n. n \<noteq> a \<Longrightarrow> c' n = c n) \<Longrightarrow> numbered c' (filter (\<lambda>e. entryTypeName e \<noteq> a) m)"
proof (induction m arbitrary: c c')
  case (Cons e m)
  show ?case
  proof (cases "entryTypeName e = a")
    case True
    with Cons.prems have "numbered c' (filter (\<lambda>e. entryTypeName e \<noteq> a) m)"
      by (intro Cons.IH [of "bump c a"]) auto
    then show ?thesis using True by simp
  next
    case False
    with Cons.prems show ?thesis by (auto simp: bump_def intro!: Cons.IH)
  qed
qed simp

lemma numbered_index: "numbered c m \<Longrightarrow> e \<in> set m \<Longrightarrow> \<exists>i\<ge>c (entryTypeName e). tableName e = table_name (entryTypeName e) i"
proof (induction m arbitrary: c)
  case (Cons d m)
  from Cons.prems(2) consider "e = d" | "e \<in> set m" by auto
  then show ?case
  proof cases
    case 2
    from Cons.prems(1) have "numbered (bump c (entryTypeName d)) m" by simp
    from Cons.IH [OF this 2] obtain i where
      "i \<ge> bump c (entryTypeName d) (entryTypeName e)" "tableName e = table_name (entryTypeName e) i"
      by blast
    then show ?thesis by (intro exI [of _ i]) (auto simp: bump_def split: if_splits)
  qed (use Cons.prems in auto)
qed simp

lemma numbered_distinct:
  "numbered c m \<Longrightarrow> names_apart N \<Longrightarrow> entryTypeName ` set m \<subseteq> N \<Longrightarrow> distinct (map tableName m)"
proof (induction m arbitrary: c)
  case (Cons d m)
  let ?c = "bump c (entryTypeName d)"
  have "tableName e \<noteq> tableName d" if mem: "e \<in> set m" for e
  proof
    assume eq: "tableName e = tableName d"
    obtain i where i: "i \<ge> ?c (entryTypeName e)" "tableName e = table_name (entryTypeName e) i"
      using numbered_index [of ?c m e, OF _ mem] Cons.prems(1) by auto
    have "entryTypeName e = entryTypeName d \<and> i = c (entryTypeName d)"
      using Cons.prems mem i(2) eq by (intro table_name_inj [of N]) auto
    with i(1) show False by simp
  qed
  then show ?case using Cons.IH [of ?c] Cons.prems by force
qed simp

lemma RemoveEntry_distinct:
  "distinct (map tableName m) \<Longrightarrow> n \<in> tableName ` set m \<Longrightarrow> RemoveEntry m n = Inr (filter (\<lambda>e. tableName e \<noteq> n) m)"
proof (induction m)
  case (Cons e m)
  have "filter (\<lambda>d. tableName d \<noteq> tableName e) m = m"
    using Cons.prems(1) by (metis (mono_tags, lifting) filter_True distinct.simps(2) image_eqI list.simps(9) list.set_map)
  with Cons show ?case by auto
qed simp

lemma remove_temps_distinct:
  "distinct (map tableName m) \<Longrightarrow> distinct ns \<Longrightarrow> set ns \<subseteq> tableName ` set m \<Longrightarrow>
     remove_temps (\<lambda>_. True) ns m = (None, filter (\<lambda>e. tableName e \<notin> set ns) m)"
proof (induction ns arbitrary: m)
  case (Cons n ns)
  let ?m = "filter (\<lambda>e. tableName e \<noteq> n) m"
  have "RemoveEntry m n = Inr ?m" using Cons.prems by (intro RemoveEntry_distinct) auto
  moreover have "set ns \<subseteq> tableName ` set ?m" using Cons.prems(2,3) by fastforce
  then have "remove_temps (\<lambda>_. True) ns ?m = (None, filter (\<lambda>e. tableName e \<notin> set ns) ?m)"
    using Cons.prems by (intro Cons.IH) (auto intro: distinct_map_filter)
  ultimately show ?case by (auto intro: filter_cong)
qed simp

lemma RemoveTempTables_distinct:
  assumes "distinct (map tableName m)"
  shows "RemoveTempTables (\<lambda>_. True) m = (None, filter (\<lambda>e. \<not> IsTemp e) m)"
proof -
  have "remove_temps (\<lambda>_. True) (TempTableNames m) m = (None, filter (\<lambda>e. tableName e \<notin> set (TempTableNames m)) m)"
    using assms by (intro remove_temps_distinct) (auto simp: TempTableNames_def intro: distinct_map_filter)
  moreover have "tableName e \<notin> set (TempTableNames m) \<longleftrightarrow> \<not> IsTemp e" if "e \<in> set m" for e
    using assms that by (auto simp: TempTableNames_def distinct_map inj_on_def)
  ultimately show ?thesis by (simp add: RemoveTempTables_def cong: filter_cong)
qed

section \<open>Properties\<close>

text \<open>The operations of a session on its manifest; dropping the temporary tables succeeds.\<close>

datatype table_op = Publish ManifestEntryInfo | Hide ManifestEntryInfo | Temp | DropTemps

fun table_exec :: "tables \<Rightarrow> table_op \<Rightarrow> tables" where
  "table_exec m (Publish i) = snd (AddTableEntry m i)"
| "table_exec m (Hide i) = snd (AddEntryHidden m i)"
| "table_exec m Temp = snd (AddTempTable m)"
| "table_exec m DropTemps = snd (RemoveTempTables (\<lambda>_. True) m)"

definition table_run :: "table_op list \<Rightarrow> tables" where
  "table_run ops = foldl table_exec [] ops"

fun op_ok :: "string set \<Rightarrow> table_op \<Rightarrow> bool" where
  "op_ok N (Publish i) \<longleftrightarrow> ctName (componentType i) \<in> N"
| "op_ok N (Hide i) \<longleftrightarrow> ctName (componentType i) \<in> N"
| "op_ok N Temp \<longleftrightarrow> True"
| "op_ok N DropTemps \<longleftrightarrow> True"

definition tables_ok :: "string set \<Rightarrow> tables \<Rightarrow> bool" where
  "tables_ok N m \<longleftrightarrow> numbered (\<lambda>_. 0) m \<and> (\<forall>e\<in>set m. if IsTemp e then entryTypeName e = ''anonymous'' else entryTypeName e \<in> N)"

lemma tables_ok_distinct:
  assumes "tables_ok N m" and "names_apart (insert ''anonymous'' N)"
  shows "distinct (map tableName m)"
proof -
  have "entryTypeName e \<in> insert ''anonymous'' N" if "e \<in> set m" for e
    using assms(1) that by (cases "IsTemp e") (auto simp: tables_ok_def)
  then show ?thesis
    using assms by (intro numbered_distinct [of "\<lambda>_. 0" m "insert ''anonymous'' N"]) (auto simp: tables_ok_def)
qed

lemma tables_ok_add:
  assumes "tables_ok N m" and "if ty = TempTable then ctName (componentType i) = ''anonymous'' else ctName (componentType i) \<in> N"
  shows "tables_ok N (snd (addEntryInternal m i ty))"
  using assms by (auto simp: tables_ok_def addEntryInternal_def Let_def numbered_snoc table_name_def)

lemma tables_ok_exec:
  assumes "tables_ok N m" and "op_ok N op" and "names_apart (insert ''anonymous'' N)" and "''anonymous'' \<notin> N"
  shows "tables_ok N (table_exec m op)"
proof (cases op)
  case DropTemps
  have "filter (\<lambda>e. \<not> IsTemp e) m = filter (\<lambda>e. entryTypeName e \<noteq> ''anonymous'') m"
    using assms(1,4) by (intro filter_cong) (auto simp: tables_ok_def split: if_splits)
  then show ?thesis
    using DropTemps assms(1) RemoveTempTables_distinct [OF tables_ok_distinct [OF assms(1,3)]]
    by (auto simp: tables_ok_def intro: numbered_filter)
qed (use assms(1,2) in \<open>auto simp: AddTableEntry_def AddEntryHidden_def AddTempTable_def temp_info_def intro!: tables_ok_add\<close>)

lemma table_run_ok:
  assumes "list_all (op_ok N) ops" and "names_apart (insert ''anonymous'' N)" and "''anonymous'' \<notin> N"
  shows "tables_ok N (table_run ops)"
  using assms(1)
proof (induction ops rule: rev_induct)
  case (snoc op ops)
  then show ?case using tables_ok_exec assms(2,3) by (simp add: table_run_def)
qed (simp add: table_run_def tables_ok_def)

text \<open>
  C26. If the component types of the published and hidden tables have names that are kept apart by
  sanitising and none of them is the type of the temporary tables, then after any sequence of
  additions and removals of temporary tables the generated table names are distinct, every entry
  is found under its name, and dropping the temporary tables removes exactly these, without an error.
\<close>

theorem table_names_unique:
  assumes "list_all (op_ok N) ops" and "names_apart (insert ''anonymous'' N)" and "''anonymous'' \<notin> N"
  shows "distinct (map tableName (table_run ops)) \<and>
    RemoveTempTables (\<lambda>_. True) (table_run ops) = (None, filter (\<lambda>e. \<not> IsTemp e) (table_run ops)) \<and>
    list_all (\<lambda>e. GetEntry (table_run ops) (tableName e) = Inr e) (table_run ops)"
proof -
  have d: "distinct (map tableName (table_run ops))"
    using table_run_ok [OF assms] assms(2) by (rule tables_ok_distinct)
  have "GetEntry m (tableName e) = Inr e" if "distinct (map tableName m)" "e \<in> set m" for m e
    using that by (induction m) (auto simp: GetEntry_def)
  with d show ?thesis by (simp add: RemoveTempTables_distinct list_all_iff)
qed

definition info_of :: "string \<Rightarrow> ManifestEntryInfo" where
  "info_of n = NewManifestEntryInfo \<lparr>ctName = n, SchemaVersion = ''1.0''\<rparr> \<lparr>riIndex = 0, riID = None, riName = ''r''\<rparr> [''run'']"

lemma apart_example: "names_apart {''anonymous'', ''call_tree'', ''flat-table''}"
  by (simp add: names_apart_def Sanitize_ascii table_char_def)

theorem table_names_unique_witness:
  "distinct (map tableName (table_run [Publish (info_of ''flat-table''), Temp, Hide (info_of ''call_tree''), Temp, DropTemps, Temp,
     Publish (info_of ''flat-table'')])) \<and>
   map tableName (table_run [Publish (info_of ''flat-table''), Temp, Hide (info_of ''call_tree''), Temp, DropTemps, Temp,
     Publish (info_of ''flat-table'')]) = [''flat_table'', ''call_tree'', ''anonymous'', ''flat_table_1'']"
proof
  show "map tableName (table_run [Publish (info_of ''flat-table''), Temp, Hide (info_of ''call_tree''), Temp, DropTemps, Temp,
     Publish (info_of ''flat-table'')]) = [''flat_table'', ''call_tree'', ''anonymous'', ''flat_table_1'']" by code_simp
qed (rule table_names_unique [of "{''call_tree'', ''flat-table''}", THEN conjunct1],
     simp_all add: info_of_def NewManifestEntryInfo_def apart_example)

text \<open>
  Without the hypothesis on the names the guarantee fails: the second table of the type \<open>a\<close> gets the
  name of the first table of the type \<open>a_1\<close>.
\<close>

lemma table_names_collide:
  "map tableName (table_run [Publish (info_of ''a_1''), Publish (info_of ''a''), Publish (info_of ''a'')]) = [''a_1'', ''a'', ''a_1'']"
  by code_simp

text \<open>
  A generated table name never contains a double quote, so that the quoted name in a statement
  cannot be left, whatever the component type is called; it is as long as the name of the type with
  its index.
\<close>

theorem table_name_safe:
  "CHR 0x22 \<notin> set (fst (addEntryInternal m i ty)) \<and>
   length (fst (addEntryInternal m i ty)) =
     length (ctName (componentType i)) + length (index_suffix (countEntriesByComponentType m (ctName (componentType i))))"
proof -
  have "\<not> table_char (CHR 0x22)" by (simp add: table_char_def)
  then have "CHR 0x22 \<notin> set (SanitizeTableName (ctName (componentType i)))" "CHR 0x22 \<notin> set (index_suffix n)" for n
    using set_Sanitize [of "ctName (componentType i)"] suffix_chars [of n] by auto
  then show ?thesis by (simp add: addEntryInternal_def Let_def length_Sanitize)
qed

text \<open>A character of two bytes leaves a zero byte in the name.\<close>

lemma Sanitize_zero_byte: "SanitizeTableName [CHR 0xC3, CHR 0xA9] = [CHR ''_'', CHR 0x00]"
  by code_simp

end
