(* ===== verification/DataSource.thy ===== *)
theory DataSource
  imports RenderManifest "HOL-Library.Sublist"
begin

text \<open>
  The inputs and outputs of a renderer (core/apap-engine/render/inputoutputspec.go) and the data
  sources that connect them (datasource.go): validation of ports, the entries for outputs that are
  pending, the resolution of a data source to a table of the manifest, and the check of resolved
  tables against the inputs a renderer declares. A map is an association list in the order in which
  the code happens to visit it; a run of the session is represented by its ID.
\<close>

section \<open>Ports\<close>

datatype Cardinality = CardinalityOne | CardinalityPerRun | OtherCardinality int

record PortSpec =
  portName :: string
  portCardinality :: Cardinality
  portType :: ComponentType

definition PortGet :: "PortSpec list \<Rightarrow> string \<Rightarrow> PortSpec option" where
  "PortGet ports name = find (\<lambda>p. portName p = name) ports"

definition ident_start :: "char \<Rightarrow> bool" where
  "ident_start c \<longleftrightarrow>
     (of_char c \<ge> (97::nat) \<and> of_char c \<le> (122::nat)) \<or> (of_char c \<ge> (65::nat) \<and> of_char c \<le> (90::nat)) \<or> c = CHR ''_''"

definition IsValidIdentifier :: "string \<Rightarrow> bool" where
  "IsValidIdentifier name = (case name of [] \<Rightarrow> False | c # cs \<Rightarrow> ident_start c \<and> list_all (\<lambda>d. ident_start d \<or> is_digit d) cs)"

datatype port_error = EmptyPortName | InvalidPortName string | DuplicatePortName string | EmptyTypeName string

fun validate_ports :: "PortSpec list \<Rightarrow> string list \<Rightarrow> port_error option" where
  "validate_ports [] seen = None"
| "validate_ports (p # ps) seen =
     (if portName p = [] then Some EmptyPortName
      else if \<not> IsValidIdentifier (portName p) then Some (InvalidPortName (portName p))
      else if portName p \<in> set seen then Some (DuplicatePortName (portName p))
      else if ctName (portType p) = [] then Some (EmptyTypeName (portName p))
      else validate_ports ps (portName p # seen))"

definition ValidatePortSpec :: "PortSpec list \<Rightarrow> port_error option" where
  "ValidatePortSpec ports = validate_ports ports []"

datatype ports_error = InvalidInputSpec port_error | InvalidOutputSpec port_error

definition ValidatePortSpecs :: "PortSpec list \<Rightarrow> PortSpec list \<Rightarrow> ports_error option" where
  "ValidatePortSpecs inputs outputs =
     (case ValidatePortSpec inputs of
        Some e \<Rightarrow> Some (InvalidInputSpec e)
      | None \<Rightarrow> (case ValidatePortSpec outputs of Some e \<Rightarrow> Some (InvalidOutputSpec e) | None \<Rightarrow> None))"

section \<open>Entries of pending outputs\<close>

definition hasMatchingRendererOutput :: "tables \<Rightarrow> ManifestEntryInfo \<Rightarrow> bool" where
  "hasMatchingRendererOutput m i =
     list_ex (\<lambda>e. componentType (info e) = componentType i \<and> Equals (rendererIdentity (info e)) (rendererIdentity i) \<and>
                  associatedContent (info e) = associatedContent i) m"

definition addPendingRendererOutputEntry :: "tables \<Rightarrow> ManifestEntryInfo \<Rightarrow> tables" where
  "addPendingRendererOutputEntry m i = (if hasMatchingRendererOutput m i then m else snd (AddTableEntry m i))"

definition pending_infos :: "string list \<Rightarrow> RendererIdentity \<Rightarrow> PortSpec \<Rightarrow> ManifestEntryInfo list" where
  "pending_infos content ri p =
     (let mk = (\<lambda>runs. \<lparr>componentType = portType p, rendererIdentity = ri, associatedContent = runs, pending = True\<rparr>)
      in case portCardinality p of
           CardinalityOne \<Rightarrow> [mk content]
         | CardinalityPerRun \<Rightarrow> map (\<lambda>r. mk [r]) content
         | OtherCardinality _ \<Rightarrow> [])"

definition emitPendingRendererOutputSpec :: "string list \<Rightarrow> tables \<Rightarrow> PortSpec list \<Rightarrow> RendererIdentity \<Rightarrow> tables" where
  "emitPendingRendererOutputSpec content m ports ri =
     foldl (\<lambda>m p. foldl addPendingRendererOutputEntry m (pending_infos content ri p)) m ports"

section \<open>Data sources\<close>

record TableRef =
  refName :: string
  refPending :: bool

datatype DataSource = OutputTableRef (dsRendererID: string) (dsOutput: string) (dsContentIndex: int) | TableRefSource string

type_synonym DataSourcesMap = "(string \<times> DataSource list) list"
type_synonym TableRefMap = "(string \<times> TableRef list) list"

definition IsPending :: "TableRefMap \<Rightarrow> bool" where
  "IsPending t = list_ex (\<lambda>(name, refs). list_ex refPending refs) t"

definition isRunIDInContent :: "string list \<Rightarrow> string \<Rightarrow> bool" where
  "isRunIDInContent content runID = list_ex (\<lambda>r. r = runID) content"

definition FindByIndex :: "string list \<Rightarrow> int \<Rightarrow> string option" where
  "FindByIndex content i = (if i < 0 \<or> i \<ge> int (length content) then None else Some (content ! nat i))"

text \<open>A nil renderer is \<open>None\<close>; the other renderers are given by their declared outputs here.\<close>

datatype resolve_error =
    RendererIndexPanic int
  | RendererNil string
  | OutputUnknown string string
  | RendererIDNotFound string string
  | RunTableNotFound string string string
  | NoMatchingTable string string
  | MultipleTables string string string
  | EmptyTableName

fun resolve_loop ::
  "PortSpec list option list \<Rightarrow> string \<Rightarrow> string \<Rightarrow> string \<Rightarrow> tables \<Rightarrow> bool \<times> bool \<times> TableRef list \<Rightarrow>
     resolve_error + (bool \<times> bool \<times> TableRef list)" where
  "resolve_loop outputs rid out runID [] st = Inr st"
| "resolve_loop outputs rid out runID (e # es) (matchRendererID, matchRunID, found) =
     (if riID (rendererIdentity (info e)) \<noteq> Some rid
      then resolve_loop outputs rid out runID es (matchRendererID, matchRunID, found)
      else if \<not> isRunIDInContent (associatedContent (info e)) runID
      then resolve_loop outputs rid out runID es (True, matchRunID, found)
      else
        let i = riIndex (rendererIdentity (info e)) in
        if i < 0 \<or> i \<ge> int (length outputs) then Inl (RendererIndexPanic i)
        else case outputs ! nat i of
               None \<Rightarrow> Inl (RendererNil rid)
             | Some outSpec \<Rightarrow>
                (case PortGet outSpec out of
                   None \<Rightarrow> Inl (OutputUnknown out rid)
                 | Some p \<Rightarrow>
                     resolve_loop outputs rid out runID es
                       (True, True,
                        if portType p = componentType (info e)
                        then found @ [\<lparr>refName = tableName e, refPending = pending (info e)\<rparr>] else found)))"

definition OutputTableRef_Resolve ::
  "string list \<Rightarrow> tables \<Rightarrow> PortSpec list option list \<Rightarrow> string \<Rightarrow> string \<Rightarrow> int \<Rightarrow> resolve_error + TableRef" where
  "OutputTableRef_Resolve content m outputs rid out contentIndex =
     (let runID = (case FindByIndex content contentIndex of Some r \<Rightarrow> r | None \<Rightarrow> []) in
      case resolve_loop outputs rid out runID m (False, False, []) of
        Inl e \<Rightarrow> Inl e
      | Inr (matchRendererID, matchRunID, found) \<Rightarrow>
          if \<not> matchRendererID then Inl (RendererIDNotFound rid out)
          else if \<not> matchRunID then Inl (RunTableNotFound runID out rid)
          else if length found = 0 then Inl (NoMatchingTable out rid)
          else if length found > 1 then Inl (MultipleTables out rid runID)
          else Inr (found ! 0))"

definition DataSource_Resolve :: "string list \<Rightarrow> tables \<Rightarrow> PortSpec list option list \<Rightarrow> DataSource \<Rightarrow> resolve_error + TableRef" where
  "DataSource_Resolve content m outputs ds =
     (case ds of
        OutputTableRef rid out i \<Rightarrow> OutputTableRef_Resolve content m outputs rid out i
      | TableRefSource name \<Rightarrow> if name = [] then Inl EmptyTableName else Inr \<lparr>refName = name, refPending = False\<rparr>)"

fun resolve_values :: "(DataSource \<Rightarrow> resolve_error + TableRef) \<Rightarrow> DataSource list \<Rightarrow> resolve_error + TableRef list" where
  "resolve_values r [] = Inr []"
| "resolve_values r (v # vs) =
     (case r v of
        Inl e \<Rightarrow> Inl e
      | Inr t \<Rightarrow> (case resolve_values r vs of Inl e \<Rightarrow> Inl e | Inr ts \<Rightarrow> Inr (t # ts)))"

text \<open>A key whose list of sources is empty is never assigned and is missing in the result.\<close>

fun resolve_sources :: "(DataSource \<Rightarrow> resolve_error + TableRef) \<Rightarrow> DataSourcesMap \<Rightarrow> resolve_error + TableRefMap" where
  "resolve_sources r [] = Inr []"
| "resolve_sources r ((key, values) # rest) =
     (case resolve_values r values of
        Inl e \<Rightarrow> Inl e
      | Inr refs \<Rightarrow>
         (case resolve_sources r rest of
            Inl e \<Rightarrow> Inl e
          | Inr m \<Rightarrow> Inr (if refs = [] then m else (key, refs) # m)))"

definition ResolveDataSources ::
  "string list \<Rightarrow> tables \<Rightarrow> PortSpec list option list \<Rightarrow> DataSourcesMap \<Rightarrow> resolve_error + TableRefMap" where
  "ResolveDataSources content m outputs sources = resolve_sources (DataSource_Resolve content m outputs) sources"

datatype source_error =
    NoTables string
  | UnknownTable tables_error
  | MixedTypes string ComponentType ComponentType
  | NotAnInput string
  | WrongType string ComponentType ComponentType
  | InputMissing string

text \<open>The two fields of a component type are compared one by one in the code.\<close>

fun same_types :: "tables \<Rightarrow> string \<Rightarrow> ComponentType \<Rightarrow> TableRef list \<Rightarrow> source_error option" where
  "same_types m name ct [] = None"
| "same_types m name ct (t # ts) =
     (case GetComponentTypeFromTable m (refName t) of
        Inl e \<Rightarrow> Some (UnknownTable e)
      | Inr ct' \<Rightarrow>
          if ctName ct' \<noteq> ctName ct \<or> SchemaVersion ct' \<noteq> SchemaVersion ct then Some (MixedTypes name ct ct')
          else same_types m name ct ts)"

definition validate_source :: "tables \<Rightarrow> PortSpec list \<Rightarrow> string \<Rightarrow> TableRef list \<Rightarrow> source_error option" where
  "validate_source m inputs name refs =
     (case refs of
        [] \<Rightarrow> Some (NoTables name)
      | t # ts \<Rightarrow>
         (case GetComponentTypeFromTable m (refName t) of
            Inl e \<Rightarrow> Some (UnknownTable e)
          | Inr ct \<Rightarrow>
             (case same_types m name ct ts of
                Some e \<Rightarrow> Some e
              | None \<Rightarrow>
                 (case PortGet inputs name of
                    None \<Rightarrow> Some (NotAnInput name)
                  | Some p \<Rightarrow>
                      if ctName ct = ctName (portType p) \<and> SchemaVersion ct = SchemaVersion (portType p) then None
                      else Some (WrongType name ct (portType p))))))"

fun validate_sources :: "tables \<Rightarrow> PortSpec list \<Rightarrow> TableRefMap \<Rightarrow> string list \<Rightarrow> source_error + string list" where
  "validate_sources m inputs [] inputSet = Inr inputSet"
| "validate_sources m inputs ((name, refs) # rest) inputSet =
     (case validate_source m inputs name refs of
        Some e \<Rightarrow> Inl e
      | None \<Rightarrow> validate_sources m inputs rest (name # inputSet))"

definition ValidateDataSources :: "tables \<Rightarrow> TableRefMap \<Rightarrow> PortSpec list \<Rightarrow> source_error option" where
  "ValidateDataSources m sources inputs =
     (case validate_sources m inputs sources [] of
        Inl e \<Rightarrow> Some e
      | Inr inputSet \<Rightarrow>
         (case find (\<lambda>p. portName p \<notin> set inputSet) inputs of
            Some p \<Rightarrow> Some (InputMissing (portName p))
          | None \<Rightarrow> None))"

section \<open>Properties of ports\<close>

lemma validate_ports_iff:
  "validate_ports ps seen = None \<longleftrightarrow>
     distinct (map portName ps) \<and> set seen \<inter> portName ` set ps = {} \<and>
     list_all (\<lambda>p. IsValidIdentifier (portName p) \<and> ctName (portType p) \<noteq> []) ps"
  by (induction ps arbitrary: seen) (auto simp: IsValidIdentifier_def)

text \<open>
  The ports of a renderer are accepted exactly if their names are distinct identifiers and
  every port has a component type with a name.
\<close>

theorem ValidatePortSpec_iff:
  "ValidatePortSpec ps = None \<longleftrightarrow>
     distinct (map portName ps) \<and> list_all (\<lambda>p. IsValidIdentifier (portName p) \<and> ctName (portType p) \<noteq> []) ps"
  by (simp add: ValidatePortSpec_def validate_ports_iff)

lemma PortGet_distinct: "distinct (map portName ps) \<Longrightarrow> p \<in> set ps \<Longrightarrow> PortGet ps (portName p) = Some p"
  by (induction ps) (auto simp: PortGet_def)

section \<open>Properties of pending outputs\<close>

abbreviation declares :: "tables \<Rightarrow> ManifestEntryInfo \<Rightarrow> bool" where
  "declares \<equiv> hasMatchingRendererOutput"

lemma declares_append: "declares (m @ n) i \<longleftrightarrow> declares m i \<or> declares n i"
  by (auto simp: hasMatchingRendererOutput_def)

lemma add_pending_prefix:
  "\<exists>new. addPendingRendererOutputEntry m i = m @ new \<and> list_all (\<lambda>e. info e = i \<and> tableType e = RegularTable) new"
  by (auto simp: addPendingRendererOutputEntry_def AddTableEntry_def addEntryInternal_def Let_def)

lemma add_pending_declares: "declares (addPendingRendererOutputEntry m i) i"
  by (auto simp: addPendingRendererOutputEntry_def AddTableEntry_def addEntryInternal_def Let_def Equals_iff
      declares_append hasMatchingRendererOutput_def [of "[_]"])

lemma add_pending_fold:
  "\<exists>new. foldl addPendingRendererOutputEntry m is = m @ new \<and>
     list_all (\<lambda>e. info e \<in> set is \<and> tableType e = RegularTable) new \<and> (\<forall>i\<in>set is. declares (m @ new) i)"
proof (induction "is" arbitrary: m)
  case (Cons i "is")
  obtain a where a: "addPendingRendererOutputEntry m i = m @ a" "list_all (\<lambda>e. info e = i \<and> tableType e = RegularTable) a"
    using add_pending_prefix by blast
  obtain b where b: "foldl addPendingRendererOutputEntry (m @ a) is = (m @ a) @ b"
    "list_all (\<lambda>e. info e \<in> set is \<and> tableType e = RegularTable) b" "\<forall>i\<in>set is. declares ((m @ a) @ b) i"
    using Cons.IH by blast
  have "declares (m @ a) i" using add_pending_declares [of m i] a(1) by simp
  then have "\<forall>j\<in>set (i # is). declares (m @ a @ b) j" using b(3) declares_append [of "m @ a" b] by simp
  then show ?case using a b by (intro exI [of _ "a @ b"]) (auto simp: list_all_iff)
qed simp

lemma emit_as_fold:
  "emitPendingRendererOutputSpec content m ports ri =
     foldl addPendingRendererOutputEntry m (concat (map (pending_infos content ri) ports))"
  unfolding emitPendingRendererOutputSpec_def by (induction ports arbitrary: m) auto

lemma add_pending_done: "\<forall>i\<in>set is. declares m i \<Longrightarrow> foldl addPendingRendererOutputEntry m is = m"
  by (induction "is" arbitrary: m) (auto simp: addPendingRendererOutputEntry_def)

text \<open>
  Emitting the pending outputs of a renderer keeps the entries there are, appends only pending
  regular tables of that renderer, each of a declared output, leaves an entry for every output that
  was to be declared, and emitting them again changes nothing.
\<close>

theorem emit_pending_outputs:
  "\<exists>new. emitPendingRendererOutputSpec content m ports ri = m @ new \<and>
     list_all (\<lambda>e. tableType e = RegularTable \<and> pending (info e) \<and> rendererIdentity (info e) = ri \<and>
                   componentType (info e) \<in> portType ` set ports) new \<and>
     list_all (\<lambda>p. list_all (hasMatchingRendererOutput (m @ new)) (pending_infos content ri p)) ports \<and>
     emitPendingRendererOutputSpec content (m @ new) ports ri = m @ new"
proof -
  let ?is = "concat (map (pending_infos content ri) ports)"
  obtain new where new: "foldl addPendingRendererOutputEntry m ?is = m @ new"
    "list_all (\<lambda>e. info e \<in> set ?is \<and> tableType e = RegularTable) new" "\<forall>i\<in>set ?is. declares (m @ new) i"
    using add_pending_fold by blast
  have inf: "pending i \<and> rendererIdentity i = ri \<and> componentType i \<in> portType ` set ports" if "i \<in> set ?is" for i
  proof -
    from that obtain p where "p \<in> set ports" "i \<in> set (pending_infos content ri p)" by auto
    then show ?thesis by (cases "portCardinality p") (auto simp: pending_infos_def Let_def)
  qed
  have "emitPendingRendererOutputSpec content (m @ new) ports ri = m @ new"
    unfolding emit_as_fold using new(3) by (rule add_pending_done)
  with new inf show ?thesis unfolding emit_as_fold by (intro exI [of _ new]) (auto simp: list_all_iff)
qed

section \<open>Properties of data sources\<close>

lemma type_eq: "ctName a = ctName b \<and> SchemaVersion a = SchemaVersion b \<longleftrightarrow> a = (b :: ComponentType)"
  by (cases a; cases b) auto

lemma same_types_iff:
  "same_types m name ct ts = None \<longleftrightarrow> (\<forall>t\<in>set ts. GetComponentTypeFromTable m (refName t) = Inr ct)"
proof (induction ts)
  case (Cons t ts)
  then show ?case using type_eq [of _ ct] by (auto split: sum.splits)
qed simp

lemma validate_source_iff:
  "validate_source m inputs name refs = None \<longleftrightarrow>
     refs \<noteq> [] \<and> (\<exists>p. PortGet inputs name = Some p \<and>
       (\<forall>t\<in>set refs. GetComponentTypeFromTable m (refName t) = Inr (portType p)))"
proof (cases refs)
  case (Cons t ts)
  show ?thesis
  proof (cases "GetComponentTypeFromTable m (refName t)")
    case (Inr ct)
    then show ?thesis
      using same_types_iff [of m name ct ts] Cons
      by (cases "same_types m name ct ts"; cases "PortGet inputs name") (auto simp: validate_source_def type_eq)
  qed (auto simp: validate_source_def Cons)
qed (simp add: validate_source_def)

abbreviation sources_ok :: "tables \<Rightarrow> PortSpec list \<Rightarrow> TableRefMap \<Rightarrow> bool" where
  "sources_ok m inputs srcs \<equiv> \<forall>s\<in>set srcs. validate_source m inputs (fst s) (snd s) = None"

lemma sources_ok_iff:
  "sources_ok m inputs srcs \<longleftrightarrow>
     list_all (\<lambda>(name, refs). refs \<noteq> [] \<and>
       (\<exists>p. PortGet inputs name = Some p \<and>
            list_all (\<lambda>t. GetComponentTypeFromTable m (refName t) = Inr (portType p)) refs)) srcs"
  by (simp add: validate_source_iff case_prod_beta list_all_iff)

lemma validate_sources_ok:
  "sources_ok m inputs srcs \<Longrightarrow> validate_sources m inputs srcs seen = Inr (rev (map fst srcs) @ seen)"
  by (induction srcs arbitrary: seen) auto

lemma validate_sources_error:
  "\<not> sources_ok m inputs srcs \<Longrightarrow> \<exists>e. validate_sources m inputs srcs seen = Inl e"
proof (induction srcs arbitrary: seen)
  case (Cons s srcs)
  then show ?case by (cases s; cases "validate_source m inputs (fst s) (snd s)") auto
qed simp

text \<open>
  The tables resolved for a renderer are accepted exactly if every data source names a declared
  input, has at least one table, and all of its tables are registered with the component type of
  that input, and if every declared input has a data source.
\<close>

theorem ValidateDataSources_iff:
  "ValidateDataSources m srcs inputs = None \<longleftrightarrow>
     list_all (\<lambda>(name, refs). refs \<noteq> [] \<and>
       (\<exists>p. PortGet inputs name = Some p \<and>
            list_all (\<lambda>t. GetComponentTypeFromTable m (refName t) = Inr (portType p)) refs)) srcs \<and>
     portName ` set inputs \<subseteq> fst ` set srcs"
proof (cases "sources_ok m inputs srcs")
  case False
  then show ?thesis
    using validate_sources_error [OF False, of "[]"] unfolding sources_ok_iff by (auto simp: ValidateDataSources_def)
next
  case True
  then have "ValidateDataSources m srcs inputs = None \<longleftrightarrow> find (\<lambda>p. portName p \<notin> fst ` set srcs) inputs = None"
    by (auto simp: ValidateDataSources_def validate_sources_ok split: option.splits)
  also have "\<dots> \<longleftrightarrow> portName ` set inputs \<subseteq> fst ` set srcs" by (auto simp: find_None_iff)
  finally show ?thesis using True unfolding sources_ok_iff by blast
qed

definition source_hits :: "tables \<Rightarrow> string \<Rightarrow> string \<Rightarrow> TableEntry list" where
  "source_hits m rid runID =
     filter (\<lambda>e. riID (rendererIdentity (info e)) = Some rid \<and> runID \<in> set (associatedContent (info e))) m"

definition output_type :: "PortSpec list option list \<Rightarrow> string \<Rightarrow> TableEntry \<Rightarrow> ComponentType \<Rightarrow> bool" where
  "output_type outputs out e ct \<longleftrightarrow>
     (let i = riIndex (rendererIdentity (info e)) in
      0 \<le> i \<and> i < int (length outputs) \<and>
      (\<exists>spec p. outputs ! nat i = Some spec \<and> PortGet spec out = Some p \<and> portType p = ct))"

lemma resolve_loop_hits:
  assumes "\<forall>e\<in>set (source_hits m rid runID). output_type outputs out e ct"
  shows "resolve_loop outputs rid out runID m (a, b, found) =
     Inr (a \<or> (\<exists>e\<in>set m. riID (rendererIdentity (info e)) = Some rid), b \<or> source_hits m rid runID \<noteq> [],
          found @ map (\<lambda>e. \<lparr>refName = tableName e, refPending = pending (info e)\<rparr>)
                    (filter (\<lambda>e. componentType (info e) = ct) (source_hits m rid runID)))"
  using assms
proof (induction m arbitrary: a b found)
  case (Cons e m)
  then have IH: "\<And>a b found. resolve_loop outputs rid out runID m (a, b, found) =
     Inr (a \<or> (\<exists>e\<in>set m. riID (rendererIdentity (info e)) = Some rid), b \<or> source_hits m rid runID \<noteq> [],
          found @ map (\<lambda>e. \<lparr>refName = tableName e, refPending = pending (info e)\<rparr>)
                    (filter (\<lambda>e. componentType (info e) = ct) (source_hits m rid runID)))"
    by (auto simp: source_hits_def)
  show ?case
  proof (cases "riID (rendererIdentity (info e)) = Some rid \<and> runID \<in> set (associatedContent (info e))")
    case True
    with Cons.prems have "output_type outputs out e ct" by (simp add: source_hits_def)
    with True show ?thesis
      by (auto simp: IH source_hits_def isRunIDInContent_def list_ex_iff output_type_def Let_def)
  next
    case False
    then show ?thesis
      by (auto simp: IH source_hits_def isRunIDInContent_def list_ex_iff)
  qed
qed (simp add: source_hits_def)

text \<open>
  When the renderers of the entries in question declare the output, a reference to an output of
  a renderer for a run resolves to a table exactly if it is the only table of that renderer and run
  whose component type is the declared one, and the result carries its name and its pending flag.
\<close>

theorem OutputTableRef_Resolve_iff:
  assumes "FindByIndex content i = Some runID"
    and "\<forall>e\<in>set (source_hits m rid runID). output_type outputs out e ct"
  shows "OutputTableRef_Resolve content m outputs rid out i = Inr r \<longleftrightarrow>
    (\<exists>e. filter (\<lambda>e. componentType (info e) = ct) (source_hits m rid runID) = [e] \<and>
         r = \<lparr>refName = tableName e, refPending = pending (info e)\<rparr>)"
proof -
  let ?f = "filter (\<lambda>e. componentType (info e) = ct) (source_hits m rid runID)"
  have ex: "(\<exists>e\<in>set m. riID (rendererIdentity (info e)) = Some rid) \<and> source_hits m rid runID \<noteq> []" if "?f \<noteq> []"
  proof -
    from that obtain e where "e \<in> set (source_hits m rid runID)" by (fastforce simp: filter_empty_conv)
    then show ?thesis by (auto simp: source_hits_def filter_empty_conv)
  qed
  have len: "\<not> length ?f > 1 \<and> ?f \<noteq> [] \<longleftrightarrow> (\<exists>e. ?f = [e])"
    by (cases ?f rule: remdups_adj.cases) auto
  show ?thesis
    using ex len resolve_loop_hits [OF assms(2), of False False "[]"]
    by (auto simp: OutputTableRef_Resolve_def assms(1) Let_def split: if_splits)
qed

definition two_runs :: tables where
  "two_runs = table_run
     (map (\<lambda>r. Publish (NewManifestEntryInfo \<lparr>ctName = ''flat'', SchemaVersion = ''1''\<rparr>
        \<lparr>riIndex = 0, riID = Some ''r0'', riName = ''flat''\<rparr> [r])) [''runA'', ''runB''])"

definition flat_output :: "PortSpec list option list" where
  "flat_output = [Some [\<lparr>portName = ''out'', portCardinality = CardinalityPerRun, portType = \<lparr>ctName = ''flat'', SchemaVersion = ''1''\<rparr>\<rparr>]]"

lemma two_runs_hit: "\<forall>e\<in>set (source_hits two_runs ''r0'' ''runB''). output_type flat_output ''out'' e \<lparr>ctName = ''flat'', SchemaVersion = ''1''\<rparr>"
  by (simp add: two_runs_def table_run_def AddTableEntry_def addEntryInternal_def Let_def NewManifestEntryInfo_def
      source_hits_def output_type_def flat_output_def PortGet_def)

theorem OutputTableRef_Resolve_iff_witness:
  "OutputTableRef_Resolve [''runA'', ''runB''] two_runs flat_output ''r0'' ''out'' 1 = Inr \<lparr>refName = ''flat_1'', refPending = False\<rparr>"
proof -
  have "filter (\<lambda>e. componentType (info e) = \<lparr>ctName = ''flat'', SchemaVersion = ''1''\<rparr>) (source_hits two_runs ''r0'' ''runB'') =
      [two_runs ! 1]"
    by code_simp
  moreover have "\<lparr>refName = tableName (two_runs ! 1), refPending = pending (info (two_runs ! 1))\<rparr> = \<lparr>refName = ''flat_1'', refPending = False\<rparr>"
    by code_simp
  ultimately show ?thesis
    by (subst OutputTableRef_Resolve_iff [OF _ two_runs_hit]) (simp_all add: FindByIndex_def)
qed

end
