(* ===== verification/RendererSpec.thy ===== *)
theory RendererSpec
  imports Digraph DataSource
begin

text \<open>
  The dependency graph of the renderers of a session (core/apap-engine/render/rendererspec.go) with
  the checks of the renderer IDs (session_lifecycle.go). An edge leads from a renderer to one that
  depends on it. Renderers on a cycle get an error, one cycle after the other, until the graph that
  is left has none; the loop terminates because every round removes a node. Texts of errors are
  constructors, nil errors \<open>None\<close>.
\<close>

section \<open>Configurations\<close>

record RendererConfig =
  rcName :: string
  rcID :: "string option"
  rcConfigJSON :: string

definition GetDisplayID :: "RendererConfig \<Rightarrow> string" where
  "GetDisplayID r = (case rcID r of None \<Rightarrow> ''undefined'' | Some i \<Rightarrow> i)"

record Dependencies =
  depTables :: "DataSourcesMap option"
  depRenderers :: "string list"

definition valid_id_start :: "char \<Rightarrow> bool" where
  "valid_id_start c \<longleftrightarrow> (of_char c \<ge> (97::nat) \<and> of_char c \<le> (122::nat)) \<or> (of_char c \<ge> (65::nat) \<and> of_char c \<le> (90::nat))"

definition ValidID :: "string \<Rightarrow> bool" where
  "ValidID s = (case s of [] \<Rightarrow> False
     | c # cs \<Rightarrow> valid_id_start c \<and> list_all (\<lambda>d. valid_id_start d \<or> is_digit d \<or> d = CHR ''_'' \<or> d = CHR ''-'') cs)"

datatype id_error = EmptyRendererID | InvalidRendererID string | DuplicateRendererID string

definition validateRendererID :: "string option \<Rightarrow> id_error option" where
  "validateRendererID i =
     (case i of
        None \<Rightarrow> None
      | Some s \<Rightarrow> if s = [] then Some EmptyRendererID else if \<not> ValidID s then Some (InvalidRendererID s) else None)"

fun validate_ids :: "RendererConfig list \<Rightarrow> string list \<Rightarrow> id_error option" where
  "validate_ids [] seen = None"
| "validate_ids (c # cs) seen =
     (case validateRendererID (rcID c) of
        Some e \<Rightarrow> Some e
      | None \<Rightarrow>
         (case rcID c of
            None \<Rightarrow> validate_ids cs seen
          | Some i \<Rightarrow> if i \<in> set seen then Some (DuplicateRendererID i) else validate_ids cs (i # seen)))"

definition validateRendererConfigList :: "RendererConfig list \<Rightarrow> id_error option" where
  "validateRendererConfigList configs = validate_ids configs []"

section \<open>The graph\<close>

fun renderer_index :: "string \<Rightarrow> RendererConfig list \<Rightarrow> int \<Rightarrow> int" where
  "renderer_index i [] n = -1"
| "renderer_index i (c # cs) n = (if rcID c = Some i then n else renderer_index i cs (n + 1))"

definition rendererIndexFromID :: "string \<Rightarrow> RendererConfig list \<Rightarrow> int" where
  "rendererIndexFromID i configs = renderer_index i configs 0"

type_synonym succ_map = "(NodeID \<times> NodeID list) list"

datatype spec_error =
    UnknownRendererID string
  | JoinedErrors "spec_error list"
  | DependencyCycle string string "(string \<times> string) list"

definition addSuccessor :: "succ_map \<Rightarrow> string \<Rightarrow> RendererConfig list \<Rightarrow> NodeID \<Rightarrow> spec_error option \<times> succ_map" where
  "addSuccessor succs rid configs dependee =
     (let d = rendererIndexFromID rid configs in
      if d = -1 then (Some (UnknownRendererID rid), succs)
      else case map_of succs d of
             None \<Rightarrow> (None, AList.update d [dependee] succs)
           | Some s \<Rightarrow> (None, AList.update d (List.insert dependee s) succs))"

text \<open>Both loops over dependencies go on after an error and report the first one.\<close>

fun add_successors :: "succ_map \<Rightarrow> string list \<Rightarrow> RendererConfig list \<Rightarrow> NodeID \<Rightarrow> spec_error option \<Rightarrow> spec_error option \<times> succ_map" where
  "add_successors succs [] configs dependee err = (err, succs)"
| "add_successors succs (rid # rids) configs dependee err =
     (case addSuccessor succs rid configs dependee of
        (successorErr, succs') \<Rightarrow>
          add_successors succs' rids configs dependee (if successorErr \<noteq> None \<and> err = None then successorErr else err))"

definition table_dependencies :: "DataSourcesMap \<Rightarrow> string list" where
  "table_dependencies sources =
     concat (map (\<lambda>(key, ds). concat (map (\<lambda>d. case d of OutputTableRef rid out i \<Rightarrow> [rid] | TableRefSource n \<Rightarrow> []) ds)) sources)"

definition addSuccessorFromTableDependencies ::
  "succ_map \<Rightarrow> DataSourcesMap option \<Rightarrow> RendererConfig list \<Rightarrow> NodeID \<Rightarrow> spec_error option \<times> succ_map" where
  "addSuccessorFromTableDependencies succs sources configs dependee =
     (case sources of
        None \<Rightarrow> (None, succs)
      | Some m \<Rightarrow> add_successors succs (table_dependencies m) configs dependee None)"

definition addSuccessorsFromRendererDependencies ::
  "succ_map \<Rightarrow> string list \<Rightarrow> RendererConfig list \<Rightarrow> NodeID \<Rightarrow> spec_error option \<times> succ_map" where
  "addSuccessorsFromRendererDependencies succs deps configs dependee = add_successors succs deps configs dependee None"

definition join_errors :: "spec_error option list \<Rightarrow> spec_error option" where
  "join_errors errs = (case map the (filter (\<lambda>e. e \<noteq> None) errs) of [] \<Rightarrow> None | es \<Rightarrow> Some (JoinedErrors es))"

definition addSuccessorsFromDependencies ::
  "succ_map \<Rightarrow> Dependencies \<Rightarrow> RendererConfig list \<Rightarrow> NodeID \<Rightarrow> spec_error option \<times> succ_map" where
  "addSuccessorsFromDependencies succs deps configs dependee =
     (case addSuccessorFromTableDependencies succs (depTables deps) configs dependee of
        (e1, succs1) \<Rightarrow>
          (case addSuccessorsFromRendererDependencies succs1 (depRenderers deps) configs dependee of
             (e2, succs2) \<Rightarrow> (join_errors [e1, e2], succs2)))"

definition merge :: "'e option list \<Rightarrow> 'e option list \<Rightarrow> 'e option list" where
  "merge existing new =
     map (\<lambda>i. if i < length existing \<and> existing ! i \<noteq> None then existing ! i
              else if i < length new then new ! i else None)
       [0..<max (length existing) (length new)]"

text \<open>The errors for the renderers of one cycle; the loop over the cycle assigns by index.\<close>

definition mark_cycle_errs ::
  "RendererConfig list \<Rightarrow> spec_error option list \<Rightarrow> NodeID list \<Rightarrow> spec_error option list \<Rightarrow> spec_error option list" where
  "mark_cycle_errs configs configErrs cycle errs =
     foldl (\<lambda>es n. if configErrs ! nat n = None
                   then es[nat n := Some (DependencyCycle (rcName (configs ! nat n)) (GetDisplayID (configs ! nat n))
                          (map (\<lambda>i. (rcName (configs ! nat i), GetDisplayID (configs ! nat i))) cycle))]
                   else es) errs cycle"

function cycle_rounds ::
  "RendererConfig list \<Rightarrow> spec_error option list \<Rightarrow> Digraph \<Rightarrow> spec_error option list \<Rightarrow> graph_error + spec_error option list" where
  "cycle_rounds configs configErrs g errs =
     (case ContainsCycle g of
        (False, _) \<Rightarrow> Inr errs
      | (True, cycle) \<Rightarrow>
         (case RemoveAllNodes g (remdups cycle) of
            Inl e \<Rightarrow> Inl e
          | Inr g' \<Rightarrow> cycle_rounds configs configErrs g' (mark_cycle_errs configs configErrs cycle errs)))"
  by pat_completeness auto
termination
  by (relation "measure (\<lambda>(configs, configErrs, g, errs). length (nodes g))")
    (auto intro!: RemoveAllNodes_length dest!: ContainsCycle_nonempty [OF sym])

declare cycle_rounds.simps [simp del]

definition propagateCycleErrs ::
  "Digraph \<Rightarrow> RendererConfig list \<Rightarrow> spec_error option list \<Rightarrow> graph_error + spec_error option list" where
  "propagateCycleErrs g configs configErrs = cycle_rounds configs configErrs g (replicate (length configErrs) None)"

record RendererSpec =
  Graph :: Digraph
  Configs :: "RendererConfig list"
  Deps :: "Dependencies list"

fun spec_loop :: "RendererConfig list \<Rightarrow> Dependencies list \<Rightarrow> NodeID \<Rightarrow> succ_map \<Rightarrow> spec_error option list \<times> succ_map" where
  "spec_loop configs [] i succs = ([], succs)"
| "spec_loop configs (d # ds) i succs =
     (case addSuccessorsFromDependencies succs d configs i of
        (e, succs') \<Rightarrow> (case spec_loop configs ds (i + 1) succs' of (es, succs'') \<Rightarrow> (e # es, succs'')))"

text \<open>The callers pass one entry of dependencies for each configuration.\<close>

definition NewRendererSpec ::
  "RendererConfig list \<Rightarrow> Dependencies list \<Rightarrow> graph_error + (RendererSpec \<times> spec_error option list)" where
  "NewRendererSpec configs dependencies =
     (case spec_loop configs dependencies 0 [] of
        (errs, succs) \<Rightarrow>
         (case NewDigraph (map int [0..<length configs]) succs of
            Inl e \<Rightarrow> Inl e
          | Inr digraph \<Rightarrow>
             (case propagateCycleErrs digraph configs errs of
                Inl e \<Rightarrow> Inl e
              | Inr propagationErrs \<Rightarrow>
                  Inr (\<lparr>Graph = digraph, Configs = configs, Deps = dependencies\<rparr>, merge errs propagationErrs))))"

section \<open>Indices and IDs\<close>

lemma renderer_index_cases:
  "renderer_index i cs n = -1 \<and> (\<forall>c\<in>set cs. rcID c \<noteq> Some i) \<or>
   (\<exists>k<length cs. renderer_index i cs n = n + int k \<and> rcID (cs ! k) = Some i)" if "n \<ge> 0"
  using that
proof (induction cs arbitrary: n)
  case (Cons c cs)
  show ?case
  proof (cases "rcID c = Some i")
    case False
    then show ?thesis
      using Cons.IH [of "n + 1"] Cons.prems by (auto intro: exI [of _ "Suc _"])
  qed auto
qed simp

lemma rendererIndexFromID_cases:
  obtains "rendererIndexFromID i cs = -1" "\<forall>c\<in>set cs. rcID c \<noteq> Some i"
  | k where "k < length cs" "rendererIndexFromID i cs = int k" "rcID (cs ! k) = Some i"
  using renderer_index_cases [of 0 i cs] by (auto simp: rendererIndexFromID_def)

lemma rendererIndex_lt: "rendererIndexFromID i cs \<noteq> -1 \<Longrightarrow> 0 \<le> rendererIndexFromID i cs \<and> rendererIndexFromID i cs < int (length cs)"
  by (cases rule: rendererIndexFromID_cases [of i cs]) auto

lemma length_merge [simp]: "length (merge a b) = max (length a) (length b)"
  by (simp add: merge_def)

lemma merge_nth:
  "length a = length b \<Longrightarrow> i < length a \<Longrightarrow> merge a b ! i = (if a ! i \<noteq> None then a ! i else b ! i)"
  by (simp add: merge_def)

section \<open>The edges\<close>

definition dep_ids :: "Dependencies \<Rightarrow> string list" where
  "dep_ids d = (case depTables d of None \<Rightarrow> [] | Some m \<Rightarrow> table_dependencies m) @ depRenderers d"

lemma kids_update: "kids (AList.update d l s) a = (if a = d then l else kids s a)"
  by (simp add: kids_def update_conv')

lemma kids_addSuccessor:
  "set (kids (snd (addSuccessor s rid configs i)) a) =
     set (kids s a) \<union> (if a = rendererIndexFromID rid configs \<and> a \<noteq> -1 then {i} else {})"
  by (auto simp: addSuccessor_def Let_def kids_update split: option.splits) (auto simp: kids_def)

lemma kids_add_successors:
  "set (kids (snd (add_successors s rids configs i err)) a) =
     set (kids s a) \<union> (if a \<in> (\<lambda>r. rendererIndexFromID r configs) ` set rids \<and> a \<noteq> -1 then {i} else {})"
proof (induction rids arbitrary: s err)
  case (Cons r rids)
  obtain e s' where a: "addSuccessor s r configs i = (e, s')" by fastforce
  show ?case using kids_addSuccessor [of s r configs i a] a by (auto simp: Cons)
qed simp

lemma kids_addDependencies:
  "set (kids (snd (addSuccessorsFromDependencies s d configs i)) a) =
     set (kids s a) \<union> (if a \<in> (\<lambda>r. rendererIndexFromID r configs) ` set (dep_ids d) \<and> a \<noteq> -1 then {i} else {})"
proof -
  obtain e1 s1 where 1: "addSuccessorFromTableDependencies s (depTables d) configs i = (e1, s1)" by fastforce
  obtain e2 s2 where 2: "add_successors s1 (depRenderers d) configs i None = (e2, s2)" by fastforce
  have 3: "set (kids s1 a) = set (kids s a) \<union>
      (if a \<in> (\<lambda>r. rendererIndexFromID r configs) ` set (case depTables d of None \<Rightarrow> [] | Some m \<Rightarrow> table_dependencies m) \<and> a \<noteq> -1 then {i} else {})"
  proof (cases "depTables d")
    case (Some m)
    with 1 have "snd (add_successors s (table_dependencies m) configs i None) = s1"
      by (simp add: addSuccessorFromTableDependencies_def)
    then show ?thesis using kids_add_successors [of s "table_dependencies m" configs i None a] Some by simp
  qed (use 1 in \<open>simp add: addSuccessorFromTableDependencies_def\<close>)
  have 4: "set (kids s2 a) = set (kids s1 a) \<union>
      (if a \<in> (\<lambda>r. rendererIndexFromID r configs) ` set (depRenderers d) \<and> a \<noteq> -1 then {i} else {})"
    using kids_add_successors [of s1 "depRenderers d" configs i None a] 2 by simp
  have "snd (addSuccessorsFromDependencies s d configs i) = s2"
    using 1 2 by (simp add: addSuccessorsFromDependencies_def addSuccessorsFromRendererDependencies_def)
  then show ?thesis unfolding dep_ids_def set_append image_Un by (simp only: 3 4) auto
qed

lemma spec_loop_spec:
  "spec_loop configs ds i s = (es, s') \<Longrightarrow> length es = length ds \<and>
     (\<forall>a b. b \<in> set (kids s' a) \<longleftrightarrow> b \<in> set (kids s a) \<or>
        (\<exists>k<length ds. b = i + int k \<and> a \<noteq> -1 \<and> a \<in> (\<lambda>r. rendererIndexFromID r configs) ` set (dep_ids (ds ! k))))"
proof (induction ds arbitrary: i s es)
  case (Cons d ds)
  obtain e s1 where 1: "addSuccessorsFromDependencies s d configs i = (e, s1)" by fastforce
  obtain es1 where 2: "spec_loop configs ds (i + 1) s1 = (es1, s')" "es = e # es1"
    using Cons.prems 1 by (auto split: prod.splits)
  have k: "(\<exists>k<Suc (length ds). P k) \<longleftrightarrow> P 0 \<or> (\<exists>k<length ds. P (Suc k))" for P
    using less_Suc_eq_0_disj by auto
  show ?case
    using Cons.IH [OF 2(1)] 2(2) kids_addDependencies [of s d configs i] 1
    by (simp add: k) (auto simp: algebra_simps split: if_splits)
qed auto

section \<open>The rounds of the cycle search\<close>

lemma foldl_update_nth:
  "\<forall>n\<in>set ns. 0 \<le> n \<Longrightarrow> i < length es \<Longrightarrow>
     foldl (\<lambda>es n. if P (nat n) then es[nat n := f (nat n)] else es) es ns ! i =
       (if int i \<in> set ns \<and> P i then f i else es ! i)"
proof (induction ns arbitrary: es)
  case (Cons a ns)
  then show ?case by (cases "nat a = i") (auto simp: nth_list_update)
qed simp

lemma length_foldl_update [simp]:
  "length (foldl (\<lambda>es n. if P n then es[g n := f n] else es) es ns) = length es"
  by (induction ns arbitrary: es) auto

lemma length_mark [simp]: "length (mark_cycle_errs configs cerrs cycle errs) = length errs"
  by (simp add: mark_cycle_errs_def)

lemma mark_nth:
  assumes "\<forall>n\<in>set cycle. 0 \<le> n" and "i < length errs"
  shows "mark_cycle_errs configs cerrs cycle errs ! i =
    (if int i \<in> set cycle \<and> cerrs ! i = None
     then Some (DependencyCycle (rcName (configs ! i)) (GetDisplayID (configs ! i))
            (map (\<lambda>i. (rcName (configs ! nat i), GetDisplayID (configs ! nat i))) cycle))
     else errs ! i)"
  unfolding mark_cycle_errs_def using foldl_update_nth [OF assms] .

definition has_cycle_error :: "spec_error option \<Rightarrow> bool" where
  "has_cycle_error e = (case e of Some (DependencyCycle _ _ _) \<Rightarrow> True | _ \<Rightarrow> False)"

text \<open>What the rounds establish of a graph and the errors before and after them.\<close>

definition rounds_ok :: "spec_error option list \<Rightarrow> Digraph \<Rightarrow> spec_error option list \<Rightarrow> spec_error option list \<Rightarrow> bool" where
  "rounds_ok cerrs g errs es \<longleftrightarrow> length es = length errs \<and>
     (\<forall>c. is_cycle g c \<and> set c \<subseteq> set (nodes g) \<longrightarrow> (\<exists>n\<in>set c. cerrs ! nat n \<noteq> None \<or> es ! nat n \<noteq> None)) \<and>
     (\<forall>i<length errs. errs ! i \<noteq> None \<longrightarrow> es ! i \<noteq> None) \<and>
     (\<forall>i<length errs. es ! i \<noteq> None \<longrightarrow> errs ! i \<noteq> None \<or> int i \<in> set (nodes g) \<and> (int i, int i) \<in> (edges g)\<^sup>+)"

lemma cycle_member: "is_cycle g c \<Longrightarrow> n \<in> set c \<Longrightarrow> (n, n) \<in> (edges g)\<^sup>+"
proof -
  assume c: "is_cycle g c" and "n \<in> set c"
  then obtain xs ys where xy: "c = xs @ n # ys" by (meson split_list)
  have w: "successively (edge g) (xs @ n # ys)" and hl: "hd c = last c" and len: "2 \<le> length c"
    using c xy by (auto simp: is_cycle_def)
  have to_last: "ys \<noteq> [] \<Longrightarrow> (n, last ys) \<in> (edges g)\<^sup>+"
    using walk_trancl [of g n ys] w by (auto simp: successively_append_iff)
  have from_hd: "xs \<noteq> [] \<Longrightarrow> (hd xs, n) \<in> (edges g)\<^sup>+"
  proof -
    assume "xs \<noteq> []"
    then have "successively (edge g) (hd xs # (tl xs @ [n]))"
      using w by (cases xs) (auto simp: successively_append_iff successively_Cons hd_append)
    then show "(hd xs, n) \<in> (edges g)\<^sup>+" using walk_trancl [of g "hd xs" "tl xs @ [n]"] by simp
  qed
  show ?thesis
  proof (cases "xs = []")
    case True
    then show ?thesis using to_last hl len xy by (cases "ys = []") auto
  next
    case False
    then show ?thesis using to_last from_hd hl xy by (cases "ys = []") (auto intro: trancl_trans)
  qed
qed

lemma is_cycle_sub:
  assumes "is_cycle g c" and "set c \<subseteq> N" and "\<And>a b. a \<in> N \<Longrightarrow> b \<in> N \<Longrightarrow> (a, b) \<in> edges g \<Longrightarrow> (a, b) \<in> edges g'"
  shows "is_cycle g' c"
proof -
  have "successively (edge g') c"
    by (rule successively_mono [of "edge g" c]) (use assms in \<open>auto simp: is_cycle_def\<close>)
  then show ?thesis using assms(1) by (simp add: is_cycle_def)
qed

lemma rounds_step:
  assumes g: "valid_graph g" "set (nodes g) \<subseteq> int ` {..<length errs}"
    and c: "ContainsCycle g = (True, c)" and g': "RemoveAllNodes g (remdups c) = Inr g'"
    and rest: "rounds_ok cerrs g' (mark_cycle_errs configs cerrs c errs) es"
    and sub: "set (nodes g') = set (nodes g) - set c"
      "\<forall>a b. a \<in> set (nodes g') \<longrightarrow> ((a, b) \<in> edges g' \<longleftrightarrow> (a, b) \<in> edges g \<and> b \<notin> set c)"
    and valid: "valid_graph g'"
  shows "rounds_ok cerrs g errs es"
proof -
  have nodes: "set c \<subseteq> set (nodes g)" using ContainsCycle_nodes [OF g(1) c] .
  then have nonneg: "\<forall>n\<in>set c. 0 \<le> n" using g(2) by force
  have mk: "mark_cycle_errs configs cerrs c errs ! i \<noteq> None \<longleftrightarrow> (int i \<in> set c \<and> cerrs ! i = None) \<or> errs ! i \<noteq> None"
    if "i < length errs" for i
    using that nonneg by (auto simp: mark_nth)
  have es: "length es = length errs" using rest by (simp add: rounds_ok_def)
  have hit: "\<exists>n\<in>set d. cerrs ! nat n \<noteq> None \<or> es ! nat n \<noteq> None" if d: "is_cycle g d" "set d \<subseteq> set (nodes g)" for d
  proof (cases "set d \<inter> set c = {}")
    case True
    with d sub have "is_cycle g' d" "set d \<subseteq> set (nodes g')"
      by (auto intro!: is_cycle_sub [of g d "set (nodes g')"])
    then show ?thesis using rest by (simp add: rounds_ok_def)
  next
    case False
    then obtain n where n: "n \<in> set d" "n \<in> set c" by auto
    then obtain i where i: "n = int i" "i < length errs" using nodes g(2) by auto
    then show ?thesis using n mk [of i] rest by (auto simp: rounds_ok_def intro!: bexI [of _ n])
  qed
  have up: "b \<in> set (nodes g') \<and> (a, b) \<in> (edges g)\<^sup>+" if "(a, b) \<in> (edges g')\<^sup>+" "a \<in> set (nodes g')" for a b
    using that
  proof (induction rule: trancl_induct)
    case (step b c)
    then have "c \<in> set (nodes g') \<and> (b, c) \<in> edges g" using valid sub(2) by (auto simp: valid_graph_iff)
    with step show ?case by (blast intro: trancl_into_trancl)
  qed (use valid sub(2) in \<open>auto simp: valid_graph_iff\<close>)
  have "errs ! i \<noteq> None \<or> int i \<in> set (nodes g) \<and> (int i, int i) \<in> (edges g)\<^sup>+" if "i < length errs" "es ! i \<noteq> None" for i
  proof -
    have "mark_cycle_errs configs cerrs c errs ! i \<noteq> None \<or> int i \<in> set (nodes g') \<and> (int i, int i) \<in> (edges g')\<^sup>+"
      using rest that by (simp add: rounds_ok_def)
    then show ?thesis
      using mk [OF that(1)] cycle_member [OF ContainsCycle_sound [OF c]] nodes up sub(1) by blast
  qed
  with hit rest mk es show ?thesis unfolding rounds_ok_def by simp
qed

lemma cycle_rounds_ok:
  "valid_graph g \<Longrightarrow> set (nodes g) \<subseteq> int ` {..<length errs} \<Longrightarrow>
     \<exists>es. cycle_rounds configs cerrs g errs = Inr es \<and> rounds_ok cerrs g errs es"
proof (induction configs cerrs g errs rule: cycle_rounds.induct)
  case (1 configs cerrs g errs)
  obtain found c where cc: "ContainsCycle g = (found, c)" by fastforce
  show ?case
  proof (cases found)
    case False
    have "\<not> is_cycle g d \<or> \<not> set d \<subseteq> set (nodes g)" for d
    proof (rule ccontr)
      assume "\<not> (\<not> is_cycle g d \<or> \<not> set d \<subseteq> set (nodes g))"
      then have d: "is_cycle g d" "set d \<subseteq> set (nodes g)" by auto
      then have "d \<noteq> []" by (auto simp: is_cycle_def)
      then have "hd d \<in> set (nodes g)" using d(2) hd_in_set by blast
      moreover have "cyclic g (hd d)" using is_cycle_trancl [OF d(1)] by (auto simp: cyclic_def)
      ultimately show False using ContainsCycle_complete [of g c "hd d"] cc False by simp
    qed
    then have "rounds_ok cerrs g errs errs" by (auto simp: rounds_ok_def)
    then show ?thesis using cc False by (simp add: cycle_rounds.simps [of configs cerrs g errs])
  next
    case True
    with cc have c: "ContainsCycle g = (True, c)" by simp
    have "set (remdups c) \<subseteq> set (nodes g)" using ContainsCycle_nodes [OF 1(2) c] by simp
    from RemoveAllNodes_success [OF 1(2) this] obtain g' where g': "RemoveAllNodes g (remdups c) = Inr g'"
      "valid_graph g'" "set (nodes g') = set (nodes g) - set c"
      "\<forall>a b. a \<in> set (nodes g') \<longrightarrow> ((a, b) \<in> edges g' \<longleftrightarrow> (a, b) \<in> edges g \<and> b \<notin> set c)"
      by auto
    obtain es where es: "cycle_rounds configs cerrs g' (mark_cycle_errs configs cerrs c errs) = Inr es"
      "rounds_ok cerrs g' (mark_cycle_errs configs cerrs c errs) es"
      using 1(1) [OF c [symmetric] refl g'(1) g'(2)] g'(3) 1(3) by auto
    then have "cycle_rounds configs cerrs g errs = Inr es"
      using c g'(1) by (simp add: cycle_rounds.simps [of configs cerrs g errs])
    with rounds_step [OF 1(2,3) c g'(1) es(2) g'(3,4,2)] show ?thesis by blast
  qed
qed

section \<open>Properties\<close>

text \<open>Renderer \<open>i\<close> depends on renderer \<open>d\<close>, through a table or directly.\<close>

definition depends :: "RendererConfig list \<Rightarrow> Dependencies list \<Rightarrow> (NodeID \<times> NodeID) set" where
  "depends configs deps =
     {(d, int i) | d i. i < length deps \<and> d \<noteq> -1 \<and> d \<in> (\<lambda>r. rendererIndexFromID r configs) ` set (dep_ids (deps ! i))}"

lemma dependsI:
  "i < length deps \<Longrightarrow> d \<noteq> -1 \<Longrightarrow> d \<in> (\<lambda>r. rendererIndexFromID r configs) ` set (dep_ids (deps ! i)) \<Longrightarrow>
     (d, int i) \<in> depends configs deps"
  by (auto simp: depends_def)

lemma NewRendererSpec_result:
  assumes len: "length deps = length configs"
  shows "\<exists>g cerrs perrs. NewRendererSpec configs deps =
      Inr (\<lparr>Graph = g, Configs = configs, Deps = deps\<rparr>, merge cerrs perrs) \<and>
    length cerrs = length configs \<and> nodes g = map int [0..<length configs] \<and> edges g = depends configs deps \<and>
    fst (spec_loop configs deps 0 []) = cerrs \<and>
    rounds_ok cerrs g (replicate (length configs) None) perrs"
proof -
  obtain cerrs s where s: "spec_loop configs deps 0 [] = (cerrs, s)" by fastforce
  let ?ns = "map int [0..<length configs]"
  let ?g = "\<lparr>nodes = ?ns, successors = s\<rparr>"
  have kids: "b \<in> set (kids s a) \<longleftrightarrow> (a, b) \<in> depends configs deps" for a b
    using spec_loop_spec [OF s] by (auto simp: depends_def kids_def [of "[]"])
  have "b \<in> int ` {..<length configs}" if "(a, b) \<in> depends configs deps" for a b
    using that len by (auto simp: depends_def)
  then have valid: "validateNodesAndSuccessors ?ns s = None"
    unfolding validate_iff using kids by (auto simp: atLeast0LessThan)
  have e: "edges ?g = depends configs deps" using kids by (auto simp: edges_def children_kids)
  have lc: "length cerrs = length configs" using spec_loop_spec [OF s] len by simp
  obtain perrs where p: "propagateCycleErrs ?g configs cerrs = Inr perrs"
    "rounds_ok cerrs ?g (replicate (length cerrs) None) perrs"
    using cycle_rounds_ok [of ?g "replicate (length cerrs) None" configs cerrs] valid lc
    by (auto simp: propagateCycleErrs_def valid_graph_def atLeast0LessThan)
  show ?thesis
    using s valid e lc p by (intro exI [of _ ?g] exI [of _ cerrs] exI [of _ perrs]) (simp add: NewRendererSpec_def NewDigraph_def)
qed

text \<open>
  C19. The construction of the dependency graph always succeeds, with one error slot for each
  renderer; its nodes are the renderers and its edges are exactly the dependencies on renderers
  that exist, through tables and direct ones.
\<close>

theorem NewRendererSpec_graph:
  assumes "length deps = length configs"
  shows "\<exists>spec errs. NewRendererSpec configs deps = Inr (spec, errs) \<and> length errs = length configs \<and>
    nodes (Graph spec) = map int [0..<length configs] \<and> edges (Graph spec) = depends configs deps"
  using NewRendererSpec_result [OF assms] by (auto simp: rounds_ok_def)

definition cfg :: "string \<Rightarrow> RendererConfig" where
  "cfg i = \<lparr>rcName = i, rcID = Some i, rcConfigJSON = []\<rparr>"

definition on :: "string list \<Rightarrow> Dependencies" where
  "on ids = \<lparr>depTables = None, depRenderers = ids\<rparr>"

theorem NewRendererSpec_graph_witness:
  "\<exists>spec errs. NewRendererSpec [cfg ''a'', cfg ''b''] [on [], on [''a'', ''x'']] = Inr (spec, errs) \<and> length errs = 2 \<and>
    nodes (Graph spec) = [0, 1] \<and> edges (Graph spec) = depends [cfg ''a'', cfg ''b''] [on [], on [''a'', ''x'']]"
  using NewRendererSpec_graph [of "[on [], on [''a'', ''x'']]" "[cfg ''a'', cfg ''b'']"] by (auto simp: upt_rec)

lemma depends_nodes: "(a, b) \<in> depends configs deps \<Longrightarrow> length deps = length configs \<Longrightarrow>
    a \<in> int ` {..<length configs} \<and> b \<in> int ` {..<length configs}"
proof -
  assume ab: "(a, b) \<in> depends configs deps" and len: "length deps = length configs"
  then obtain r where "a = rendererIndexFromID r configs" "a \<noteq> -1" by (auto simp: depends_def)
  with rendererIndex_lt [of r configs] have "0 \<le> a" "a < int (length configs)" by auto
  then have "a \<in> int ` {..<length configs}" by (intro image_eqI [of _ _ "nat a"]) auto
  with ab len show ?thesis by (auto simp: depends_def)
qed

lemma cycle_in_nodes:
  assumes "is_cycle g c" and "\<And>a b. (a, b) \<in> edges g \<Longrightarrow> a \<in> N"
  shows "set c \<subseteq> N"
proof
  fix n assume "n \<in> set c"
  from cycle_member [OF assms(1) this] obtain b where "(n, b) \<in> edges g" by (meson tranclD)
  then show "n \<in> N" using assms(2) by blast
qed

lemma config_errs_joined:
  "spec_loop configs ds i s = (es, s') \<Longrightarrow> e \<in> set es \<Longrightarrow> \<not> has_cycle_error e"
  by (induction ds arbitrary: i s es)
    (auto simp: addSuccessorsFromDependencies_def join_errors_def has_cycle_error_def split: prod.splits list.splits)

text \<open>
  C18. Every cycle of dependencies contains a renderer with an error, so that the renderers without
  an error depend on each other without a cycle; and a renderer gets the error of a cycle only if
  it depends on itself.
\<close>

theorem cycle_errors:
  assumes "length deps = length configs" and "NewRendererSpec configs deps = Inr (spec, errs)"
  shows "(is_cycle (Graph spec) c \<longrightarrow> list_ex (\<lambda>n. errs ! nat n \<noteq> None) c) \<and>
    (i < length configs \<longrightarrow> has_cycle_error (errs ! i) \<longrightarrow> (int i, int i) \<in> (depends configs deps)\<^sup>+)"
proof -
  obtain g cerrs perrs where r: "spec = \<lparr>Graph = g, Configs = configs, Deps = deps\<rparr>" "errs = merge cerrs perrs"
    "length cerrs = length configs" "nodes g = map int [0..<length configs]" "edges g = depends configs deps"
    "fst (spec_loop configs deps 0 []) = cerrs" "rounds_ok cerrs g (replicate (length configs) None) perrs"
    using NewRendererSpec_result [OF assms(1)] assms(2) by auto
  have lp: "length perrs = length configs" using r(7) by (simp add: rounds_ok_def)
  have m: "errs ! k = (if cerrs ! k \<noteq> None then cerrs ! k else perrs ! k)" if "k < length configs" for k
    using that r(2,3) lp by (simp add: merge_nth)
  have "list_ex (\<lambda>n. errs ! nat n \<noteq> None) c" if c: "is_cycle g c"
  proof -
    have sub: "set c \<subseteq> int ` {..<length configs}"
      using cycle_in_nodes [OF c] depends_nodes [OF _ assms(1)] r(5) by blast
    then have "set c \<subseteq> set (nodes g)" by (auto simp: r(4) atLeast0LessThan)
    then obtain n where n: "n \<in> set c" "cerrs ! nat n \<noteq> None \<or> perrs ! nat n \<noteq> None"
      using r(7) c by (auto simp: rounds_ok_def)
    moreover have "nat n < length configs" using sub n(1) by auto
    ultimately show ?thesis using m by (auto simp: list_ex_iff intro!: bexI [of _ n])
  qed
  moreover have "(int i, int i) \<in> (depends configs deps)\<^sup>+" if i: "i < length configs" "has_cycle_error (errs ! i)"
  proof -
    have "\<not> has_cycle_error (cerrs ! i)"
      using config_errs_joined [of configs deps 0 "[]" cerrs] r(3,6) i(1) by (metis nth_mem prod.collapse)
    then have "perrs ! i \<noteq> None"
      using m [OF i(1)] i(2) by (cases "perrs ! i") (auto simp: has_cycle_error_def split: if_splits)
    then show ?thesis using r(5,7) i(1) by (auto simp: rounds_ok_def)
  qed
  ultimately show ?thesis by (simp add: r(1))
qed

theorem cycle_errors_witness:
  "list_ex (\<lambda>n. snd (projr (NewRendererSpec [cfg ''a'', cfg ''b''] [on [''b''], on [''a'']])) ! nat n \<noteq> None) [0, 1, 0] \<and>
   (0, 0) \<in> (depends [cfg ''a'', cfg ''b''] [on [''b''], on [''a'']])\<^sup>+"
proof -
  let ?r = "projr (NewRendererSpec [cfg ''a'', cfg ''b''] [on [''b''], on [''a'']])"
  have "NewRendererSpec [cfg ''a'', cfg ''b''] [on [''b''], on [''a'']] = Inr ?r" by code_simp
  then have e: "NewRendererSpec [cfg ''a'', cfg ''b''] [on [''b''], on [''a'']] = Inr (fst ?r, snd ?r)" by simp
  have "has_cycle_error (snd ?r ! 0)" by code_simp
  moreover have "getDirectChildren (Graph (fst ?r)) 0 = [1] \<and> getDirectChildren (Graph (fst ?r)) 1 = [0]" by code_simp
  then have "is_cycle (Graph (fst ?r)) [0, 1, 0]" by (simp add: is_cycle_def)
  ultimately show ?thesis
    using cycle_errors [OF _ e, of "[0, 1, 0]" 0] by simp
qed

text \<open>
  Not every renderer on a cycle gets the error: when two cycles share a renderer, the nodes of the
  first are removed and the rest of the second is no longer on a cycle.
\<close>

lemma shared_cycle_unflagged:
  "map has_cycle_error (snd (projr (NewRendererSpec [cfg ''a'', cfg ''b'', cfg ''c''] [on [''b''], on [''a'', ''c''], on [''b'']])))
     = [False, True, True] \<and>
   (0, 1) \<in> depends [cfg ''a'', cfg ''b'', cfg ''c''] [on [''b''], on [''a'', ''c''], on [''b'']] \<and>
   (1, 0) \<in> depends [cfg ''a'', cfg ''b'', cfg ''c''] [on [''b''], on [''a'', ''c''], on [''b'']]"
proof (intro conjI)
  show "map has_cycle_error (snd (projr (NewRendererSpec [cfg ''a'', cfg ''b'', cfg ''c''] [on [''b''], on [''a'', ''c''], on [''b'']])))
     = [False, True, True]" by code_simp
qed (use dependsI [of 0 _ 1] dependsI [of 1 _ 0] in \<open>simp_all add: dep_ids_def on_def cfg_def rendererIndexFromID_def\<close>)

lemma validate_ids_iff:
  "validate_ids cs seen = None \<longleftrightarrow>
     list_all (\<lambda>c. validateRendererID (rcID c) = None) cs \<and>
     distinct (List.map_filter rcID cs) \<and> set seen \<inter> set (List.map_filter rcID cs) = {}"
  by (induction cs arbitrary: seen) (auto simp: List.map_filter_simps split: option.splits)

lemma validateRendererConfigList_iff:
  "validateRendererConfigList cs = None \<longleftrightarrow>
     list_all (\<lambda>c. validateRendererID (rcID c) = None) cs \<and> distinct (List.map_filter rcID cs)"
  by (simp add: validateRendererConfigList_def validate_ids_iff)

end
