(* ===== verification/SessionLifecycle.thy ===== *)
theory SessionLifecycle
  imports RendererSpec
begin

text \<open>
  Creation and initialisation of the renderers of a session (core/apap-engine/render/session_lifecycle.go).
  A renderer is an interface of the code: here it is a record of what the session asks of it, its
  declared ports, the effect of \<open>Initialize\<close> on the manifest for given input tables, and the
  optional listener that runs when all renderers were handled. A nil renderer is \<open>None\<close>. Decoding
  of the JSON configuration, the renderer factory and dropping tables in the database are
  parameters; \<open>drop_ok i name\<close> says whether dropping a table after renderer \<open>i\<close> succeeds. The state of the loop records which renderers had \<open>Initialize\<close> called, in order.
\<close>

section \<open>Errors and renderers\<close>

datatype output_error = DuplicateOutputType ComponentType | OutputProblems "string list" "string list"

datatype render_error =
    PendingError string
  | ConfigError string
  | GraphError spec_error
  | ConstructFailed string string
  | ConfigureFailed string string
  | PortsInvalid ports_error
  | DependencyFailed "string \<times> string" "string \<times> string" render_error
  | DependencyNotInitialized "string \<times> string" "string \<times> string"
  | SourcesUnresolved string resolve_error
  | SourcesMismatch string source_error
  | InitializeFailed string string
  | CleanupFailed string temp_error
  | OutputInvalid string output_error

text \<open>\<open>errors.Is(err, cdf.ErrComponentPending)\<close>; the errors below wrap no pending error.\<close>

fun is_pending :: "render_error option \<Rightarrow> bool" where
  "is_pending (Some (PendingError _)) = True"
| "is_pending _ = False"

datatype init_result = InitOk | InitPending string | InitError string

record Renderer =
  rnInput :: "PortSpec list"
  rnOutput :: "PortSpec list"
  rnInitialize :: "tables \<Rightarrow> TableRefMap \<Rightarrow> init_result \<times> tables"
  rnOnComplete :: "(tables \<Rightarrow> tables) option"

section \<open>Creation\<close>

record factory =
  fNew :: "string \<Rightarrow> Renderer option \<times> string option"
  fConfigure :: "Renderer option \<Rightarrow> RendererIdentity \<Rightarrow> string \<Rightarrow> Renderer option \<times> string option"

abbreviation identity_of :: "RendererConfig \<Rightarrow> nat \<Rightarrow> RendererIdentity" where
  "identity_of c i \<equiv> \<lparr>riIndex = int i, riID = rcID c, riName = rcName c\<rparr>"

definition createRenderer :: "factory \<Rightarrow> RendererConfig \<Rightarrow> nat \<Rightarrow> Renderer option \<times> render_error option" where
  "createRenderer F c i =
     (case fNew F (rcName c) of
        (r, Some e) \<Rightarrow> (r, Some (ConstructFailed (rcName c) e))
      | (r, None) \<Rightarrow>
         (case fConfigure F r (identity_of c i) (rcConfigJSON c) of
            (r', Some e) \<Rightarrow> (r', Some (ConfigureFailed (rcName c) e))
          | (r', None) \<Rightarrow> (r', None)))"

definition parseDependencies ::
  "(string \<Rightarrow> Dependencies \<times> string option) \<Rightarrow> RendererConfig list \<Rightarrow> Dependencies list \<times> render_error option list" where
  "parseDependencies decode configs =
     (map (\<lambda>c. fst (decode (rcConfigJSON c))) configs,
      map (\<lambda>c. map_option ConfigError (snd (decode (rcConfigJSON c)))) configs)"

definition createDependencies ::
  "(string \<Rightarrow> Dependencies \<times> string option) \<Rightarrow> RendererConfig list \<Rightarrow> id_error + (Dependencies list \<times> render_error option list)" where
  "createDependencies decode configs =
     (case validateRendererConfigList configs of
        Some e \<Rightarrow> Inl e
      | None \<Rightarrow> Inr (parseDependencies decode configs))"

definition createRenderers ::
  "factory \<Rightarrow> RendererConfig list \<Rightarrow> render_error option list \<Rightarrow> Renderer option list \<times> render_error option list" where
  "createRenderers F configs errs =
     (let rs = map (\<lambda>i. if errs ! i \<noteq> None then (None, None) else createRenderer F (configs ! i) i) [0..<length configs]
      in (map fst rs, map snd rs))"

section \<open>Initialisation\<close>

definition display :: "RendererConfig \<Rightarrow> string \<times> string" where
  "display c = (rcName c, GetDisplayID c)"

fun dependency_status ::
  "RendererSpec \<Rightarrow> nat \<Rightarrow> (nat \<Rightarrow> bool \<times> render_error option) \<Rightarrow> string list \<Rightarrow> render_error option" where
  "dependency_status spec i status [] = None"
| "dependency_status spec i status (rid # rids) =
     (let d = rendererIndexFromID rid (Configs spec) in
      if d = -1 then dependency_status spec i status rids
      else case status (nat d) of (finished, err) \<Rightarrow>
        if is_pending err then err
        else case err of
               Some e \<Rightarrow> Some (DependencyFailed (display (Configs spec ! i)) (display (Configs spec ! nat d)) e)
             | None \<Rightarrow>
                 if \<not> finished then Some (DependencyNotInitialized (display (Configs spec ! i)) (display (Configs spec ! nat d)))
                 else dependency_status spec i status rids)"

definition resolveRendererDependencyStatus ::
  "RendererSpec \<Rightarrow> nat \<Rightarrow> (nat \<Rightarrow> bool \<times> render_error option) \<Rightarrow> render_error option" where
  "resolveRendererDependencyStatus spec i status = dependency_status spec i status (depRenderers (Deps spec ! i))"

fun duplicate_type :: "PortSpec list \<Rightarrow> ComponentType list \<Rightarrow> ComponentType option" where
  "duplicate_type [] expected = None"
| "duplicate_type (p # ps) expected =
     (if portType p \<in> set expected then Some (portType p) else duplicate_type ps (portType p # expected))"

definition ValidateRendererOutput :: "tables \<Rightarrow> PortSpec list \<Rightarrow> RendererIdentity \<Rightarrow> output_error option" where
  "ValidateRendererOutput m ports ri =
     (if ports = [] then None
      else case duplicate_type ports [] of
             Some t \<Rightarrow> Some (DuplicateOutputType t)
           | None \<Rightarrow>
              (let own = filter (\<lambda>e. \<not> IsHidden e \<and> Equals (rendererIdentity (info e)) ri) m;
                   rogue = map tableName (filter (\<lambda>e. componentType (info e) \<notin> portType ` set ports) own);
                   found = map (\<lambda>e. componentType (info e)) (filter (\<lambda>e. componentType (info e) \<in> portType ` set ports) own);
                   missing = map portName (filter (\<lambda>p. portType p \<notin> set found) ports)
               in if rogue = [] \<and> missing = [] then None else Some (OutputProblems rogue missing)))"

text \<open>
  One round of the loop of \<open>initializeRenderers\<close>: the error for the renderer, whether \<open>Initialize\<close>
  was called, and the manifest.
\<close>

definition initialize_tail ::
  "(nat \<Rightarrow> string \<Rightarrow> bool) \<Rightarrow> string list \<Rightarrow> RendererConfig \<Rightarrow> nat \<Rightarrow> Renderer \<Rightarrow> TableRefMap \<Rightarrow> tables \<Rightarrow>
     render_error option \<times> bool \<times> tables" where
  "initialize_tail drop_ok content c i r resolved m =
     (case rnInitialize r m resolved of
        (res, m1) \<Rightarrow>
         (case RemoveTempTables (drop_ok i) m1 of
            (errRemoval, m2) \<Rightarrow>
             (case res of
                InitPending s \<Rightarrow> (Some (PendingError s), True, emitPendingRendererOutputSpec content m2 (rnOutput r) (identity_of c i))
              | InitError s \<Rightarrow> (Some (InitializeFailed (rcName c) s), True, m2)
              | InitOk \<Rightarrow>
                 (case errRemoval of
                    Some e \<Rightarrow> (Some (CleanupFailed (rcName c) e), True, m2)
                  | None \<Rightarrow>
                      (map_option (OutputInvalid (rcName c)) (ValidateRendererOutput m2 (rnOutput r) (identity_of c i)), True, m2)))))"

definition initialize_sources ::
  "(nat \<Rightarrow> string \<Rightarrow> bool) \<Rightarrow> string list \<Rightarrow> RendererConfig \<Rightarrow> nat \<Rightarrow> Renderer option list \<Rightarrow> Renderer \<Rightarrow> DataSourcesMap option \<Rightarrow> tables \<Rightarrow>
     render_error option \<times> bool \<times> tables" where
  "initialize_sources drop_ok content c i renderers r sources m =
     (case sources of
        None \<Rightarrow> initialize_tail drop_ok content c i r [] m
      | Some ds \<Rightarrow>
         (case ResolveDataSources content m (map (map_option rnOutput) renderers) ds of
            Inl e \<Rightarrow> (Some (SourcesUnresolved (rcName c) e), False, m)
          | Inr resolved \<Rightarrow>
             (case ValidateDataSources m resolved (rnInput r) of
                Some e \<Rightarrow> (Some (SourcesMismatch (rcName c) e), False, m)
              | None \<Rightarrow>
                  if IsPending resolved
                  then (Some (PendingError []), False, emitPendingRendererOutputSpec content m (rnOutput r) (identity_of c i))
                  else initialize_tail drop_ok content c i r resolved m)))"

definition initialize_one ::
  "(nat \<Rightarrow> string \<Rightarrow> bool) \<Rightarrow> string list \<Rightarrow> RendererSpec \<Rightarrow> Renderer option list \<Rightarrow> render_error option list \<Rightarrow> nat \<Rightarrow>
     render_error option list \<Rightarrow> tables \<Rightarrow> render_error option \<times> bool \<times> tables" where
  "initialize_one drop_ok content spec renderers errs i initErrs m =
     (case renderers ! i of
        None \<Rightarrow> (None, False, m)
      | Some r \<Rightarrow>
          if errs ! i \<noteq> None then (None, False, m)
          else case ValidatePortSpecs (rnInput r) (rnOutput r) of
                 Some e \<Rightarrow> (Some (PortsInvalid e), False, m)
               | None \<Rightarrow>
                  (let rendererErrs = merge errs initErrs;
                       status = (\<lambda>d. if d \<ge> length rendererErrs then (False, None) else (d < i, rendererErrs ! d))
                   in case resolveRendererDependencyStatus spec i status of
                        Some e \<Rightarrow>
                          (Some e, False,
                           if is_pending (Some e)
                           then emitPendingRendererOutputSpec content m (rnOutput r) (identity_of (Configs spec ! i) i) else m)
                      | None \<Rightarrow>
                          initialize_sources drop_ok content (Configs spec ! i) i renderers r (depTables (Deps spec ! i)) m))"

record init_state =
  stErrs :: "render_error option list"
  stTables :: tables
  stInits :: "nat list"

definition init_round ::
  "(nat \<Rightarrow> string \<Rightarrow> bool) \<Rightarrow> string list \<Rightarrow> RendererSpec \<Rightarrow> Renderer option list \<Rightarrow> render_error option list \<Rightarrow> init_state \<Rightarrow> nat \<Rightarrow> init_state" where
  "init_round drop_ok content spec renderers errs st i =
     (case initialize_one drop_ok content spec renderers errs i (stErrs st) (stTables st) of
        (e, called, m) \<Rightarrow>
          \<lparr>stErrs = (stErrs st)[i := e], stTables = m, stInits = (if called then stInits st @ [i] else stInits st)\<rparr>)"

definition notify_complete :: "Renderer option list \<Rightarrow> tables \<Rightarrow> tables" where
  "notify_complete renderers m =
     foldl (\<lambda>m r. case r of None \<Rightarrow> m | Some r \<Rightarrow> (case rnOnComplete r of None \<Rightarrow> m | Some f \<Rightarrow> f m)) m renderers"

text \<open>\<open>None\<close> is the error \<open>no renderer specified\<close>.\<close>

definition initializeRenderers ::
  "(nat \<Rightarrow> string \<Rightarrow> bool) \<Rightarrow> string list \<Rightarrow> RendererSpec \<Rightarrow> Renderer option list \<Rightarrow> render_error option list \<Rightarrow> tables \<Rightarrow> init_state option" where
  "initializeRenderers drop_ok content spec renderers errs m =
     (if length renderers = 0 then None
      else
        let st = foldl (init_round drop_ok content spec renderers errs)
                   \<lparr>stErrs = replicate (length renderers) None, stTables = m, stInits = []\<rparr> [0..<length renderers]
        in Some (st\<lparr>stTables := notify_complete renderers (stTables st)\<rparr>))"

section \<open>Which renderers are initialised\<close>

lemma dependency_status_None:
  "dependency_status spec i status rids = None \<Longrightarrow> rid \<in> set rids \<Longrightarrow> rendererIndexFromID rid (Configs spec) \<noteq> -1 \<Longrightarrow>
     status (nat (rendererIndexFromID rid (Configs spec))) = (True, None)"
proof (induction rids)
  case (Cons r rids)
  then show ?case
    by (cases "status (nat (rendererIndexFromID r (Configs spec)))") (auto simp: Let_def split: if_splits option.splits)
qed simp

lemma tail_called: "fst (snd (initialize_tail drop_ok content c i r resolved m))"
  by (auto simp: initialize_tail_def split: prod.splits init_result.splits option.splits)

lemma sources_called: "initialize_sources drop_ok content c i renderers r sources m = (None, called, m') \<Longrightarrow> called"
  using tail_called [of drop_ok content c i r _ m]
  by (auto simp: initialize_sources_def split: option.splits sum.splits if_splits) (metis fst_conv snd_conv)+

text \<open>The renderer \<open>i\<close> finds each renderer it names finished before it, without an error.\<close>

definition deps_ready :: "RendererSpec \<Rightarrow> nat \<Rightarrow> render_error option list \<Rightarrow> bool" where
  "deps_ready spec i errs \<longleftrightarrow>
     (\<forall>rid\<in>set (depRenderers (Deps spec ! i)). rendererIndexFromID rid (Configs spec) \<noteq> -1 \<longrightarrow>
        nat (rendererIndexFromID rid (Configs spec)) < i \<and> errs ! nat (rendererIndexFromID rid (Configs spec)) = None)"

lemma initialize_one_called:
  assumes "initialize_one drop_ok content spec renderers errs i es m = (e, True, m')"
  shows "renderers ! i \<noteq> None \<and> errs ! i = None \<and> deps_ready spec i (merge errs es)"
proof -
  let ?status = "\<lambda>d. if d \<ge> length (merge errs es) then (False, None) else (d < i, merge errs es ! d)"
  from assms obtain r where r: "renderers ! i = Some r" "errs ! i = None"
    and st: "dependency_status spec i ?status (depRenderers (Deps spec ! i)) = None"
    by (auto simp: initialize_one_def resolveRendererDependencyStatus_def Let_def split: option.splits if_splits)
  have "nat d < i \<and> merge errs es ! nat d = None"
    if "rid \<in> set (depRenderers (Deps spec ! i))" "d = rendererIndexFromID rid (Configs spec)" "d \<noteq> -1" for rid d
    using dependency_status_None [OF st that(1)] that(2,3) by (auto split: if_splits)
  with r show ?thesis by (auto simp: deps_ready_def)
qed

lemma initialize_one_None:
  "initialize_one drop_ok content spec renderers errs i es m = (None, called, m') \<Longrightarrow>
     renderers ! i \<noteq> None \<Longrightarrow> errs ! i = None \<Longrightarrow> called"
  by (auto simp: initialize_one_def Let_def split: option.splits if_splits dest: sources_called)

definition rounds_inv ::
  "RendererSpec \<Rightarrow> Renderer option list \<Rightarrow> render_error option list \<Rightarrow> nat \<Rightarrow> init_state \<Rightarrow> bool" where
  "rounds_inv spec renderers errs k st \<longleftrightarrow>
     length (stErrs st) = length renderers \<and>
     (\<forall>i. k \<le> i \<longrightarrow> i < length renderers \<longrightarrow> stErrs st ! i = None) \<and>
     sorted_wrt (<) (stInits st) \<and> set (stInits st) \<subseteq> {..<k} \<and>
     (\<forall>i\<in>set (stInits st). renderers ! i \<noteq> None \<and> errs ! i = None \<and> deps_ready spec i (merge errs (stErrs st))) \<and>
     (\<forall>i<k. renderers ! i \<noteq> None \<longrightarrow> errs ! i = None \<longrightarrow> stErrs st ! i = None \<longrightarrow> i \<in> set (stInits st))"

lemma deps_ready_update:
  assumes "deps_ready spec j (merge errs es)" and "j \<le> k" and "k < length es" and "length errs = length es"
  shows "deps_ready spec j (merge errs (es[k := e]))"
proof -
  have "merge errs (es[k := e]) ! d = merge errs es ! d" if "d < j" for d
    using that assms by (simp add: merge_nth)
  then show ?thesis using assms(1) by (auto simp: deps_ready_def)
qed

lemma rounds_inv_step:
  assumes inv: "rounds_inv spec renderers errs k st" and k: "k < length renderers" and len: "length errs = length renderers"
  shows "rounds_inv spec renderers errs (Suc k) (init_round drop_ok content spec renderers errs st k)"
proof -
  obtain e called m where one: "initialize_one drop_ok content spec renderers errs k (stErrs st) (stTables st) = (e, called, m)"
    by (metis prod.exhaust)
  let ?st = "init_round drop_ok content spec renderers errs st k"
  have es: "stErrs ?st = (stErrs st)[k := e]" and inits: "stInits ?st = (if called then stInits st @ [k] else stInits st)"
    by (simp_all add: init_round_def one)
  have lt: "i \<in> set (stInits st) \<Longrightarrow> i < k" for i using inv by (auto simp: rounds_inv_def)
  have ready: "deps_ready spec i (merge errs ((stErrs st)[k := e]))" if "i \<le> k" "deps_ready spec i (merge errs (stErrs st))" for i
    using that inv k len by (intro deps_ready_update) (auto simp: rounds_inv_def)
  have old: "deps_ready spec i (merge errs ((stErrs st)[k := e]))" if "i \<in> set (stInits st)" for i
    using ready [OF less_imp_le [OF lt [OF that]]] inv that by (auto simp: rounds_inv_def)
  have new: "renderers ! k \<noteq> None \<and> errs ! k = None \<and> deps_ready spec k (merge errs (stErrs st))" if called
    using initialize_one_called [of drop_ok content spec renderers errs k "stErrs st" "stTables st" e m] one that by simp
  have "renderers ! k \<noteq> None \<Longrightarrow> errs ! k = None \<Longrightarrow> e = None \<Longrightarrow> called"
    using initialize_one_None one by blast
  then show ?thesis
    using inv new ready old lt k unfolding rounds_inv_def es inits
    by (auto simp: nth_list_update sorted_wrt_append less_Suc_eq)
qed

lemma rounds_inv_all:
  "k \<le> length renderers \<Longrightarrow> length errs = length renderers \<Longrightarrow>
   rounds_inv spec renderers errs k
     (foldl (init_round drop_ok content spec renderers errs)
        \<lparr>stErrs = replicate (length renderers) None, stTables = m, stInits = []\<rparr> [0..<k])"
proof (induction k)
  case (Suc k)
  then show ?case using rounds_inv_step [of spec renderers errs k _ drop_ok content] by simp
qed (simp add: rounds_inv_def)

section \<open>Properties\<close>

text \<open>
  C14. Renderers are initialised at most once and in the configured order; a renderer is initialised
  only if it had no error before and every renderer it depends on directly comes before it and ends
  without an error, so that failures and pending inputs reach every dependent; and a renderer that
  ends without an error was initialised.
\<close>

theorem initialize_order:
  assumes "initializeRenderers drop_ok content spec renderers errs m = Some st" and "length errs = length renderers"
  shows "sorted_wrt (<) (stInits st) \<and>
    list_all (\<lambda>i. i < length renderers \<and> errs ! i = None \<and> deps_ready spec i (merge errs (stErrs st))) (stInits st) \<and>
    list_all (\<lambda>i. renderers ! i = None \<or> merge errs (stErrs st) ! i \<noteq> None \<or> i \<in> set (stInits st)) [0..<length renderers]"
proof -
  have "rounds_inv spec renderers errs (length renderers) st"
    using rounds_inv_all [OF order_refl assms(2), of spec drop_ok content m] assms(1)
    by (auto simp: initializeRenderers_def Let_def rounds_inv_def split: if_splits)
  then have inv: "sorted_wrt (<) (stInits st)" "length (stErrs st) = length renderers"
    "\<And>i. i \<in> set (stInits st) \<Longrightarrow> i < length renderers \<and> errs ! i = None \<and> deps_ready spec i (merge errs (stErrs st))"
    "\<And>i. i < length renderers \<Longrightarrow> renderers ! i \<noteq> None \<Longrightarrow> errs ! i = None \<Longrightarrow> stErrs st ! i = None \<Longrightarrow> i \<in> set (stInits st)"
    by (auto simp: rounds_inv_def)
  have "renderers ! i = None \<or> merge errs (stErrs st) ! i \<noteq> None \<or> i \<in> set (stInits st)" if "i < length renderers" for i
    using inv(4) [OF that] inv(2) that assms(2) by (auto simp: merge_nth split: if_splits)
  with inv show ?thesis by (simp add: list_all_iff)
qed

definition plain_renderer :: "init_result \<Rightarrow> Renderer option" where
  "plain_renderer res = Some \<lparr>rnInput = [], rnOutput = [], rnInitialize = (\<lambda>m srcs. (res, m)), rnOnComplete = None\<rparr>"

definition chain_spec :: RendererSpec where
  "chain_spec = \<lparr>Graph = \<lparr>nodes = [], successors = []\<rparr>, Configs = [cfg ''a'', cfg ''b'', cfg ''c'', cfg ''d''],
     Deps = [on [], on [''a''], on [''b''], on [''a'']]\<rparr>"

definition chain_run :: init_state where
  "chain_run = the (initializeRenderers (\<lambda>_ _. True) [''run''] chain_spec
     [plain_renderer InitOk, plain_renderer (InitPending ''p''), plain_renderer InitOk, plain_renderer InitOk]
     [None, None, None, None] [])"

theorem initialize_order_witness:
  "sorted_wrt (<) (stInits chain_run) \<and> stInits chain_run = [0, 1, 3] \<and>
   stErrs chain_run = [None, Some (PendingError ''p''), Some (PendingError ''p''), None]"
proof -
  have "initializeRenderers (\<lambda>_ _. True) [''run''] chain_spec
     [plain_renderer InitOk, plain_renderer (InitPending ''p''), plain_renderer InitOk, plain_renderer InitOk]
     [None, None, None, None] [] = Some chain_run"
    unfolding chain_run_def by (simp add: initializeRenderers_def Let_def)
  from initialize_order [OF this] have "sorted_wrt (<) (stInits chain_run)" by simp
  moreover have "stInits chain_run = [0, 1, 3]" by code_simp
  moreover have "stErrs chain_run = [None, Some (PendingError ''p''), Some (PendingError ''p''), None]" by code_simp
  ultimately show ?thesis by simp
qed

lemma duplicate_type_None: "duplicate_type ps seen = None \<longleftrightarrow> distinct (map portType ps) \<and> set seen \<inter> portType ` set ps = {}"
  by (induction ps arbitrary: seen) auto

text \<open>
  The output of a renderer is accepted exactly if it declares no outputs, or its declared
  component types are distinct and they are exactly the types of the tables it has in the manifest,
  hidden ones apart.
\<close>

theorem ValidateRendererOutput_iff:
  "ValidateRendererOutput m ports ri = None \<longleftrightarrow>
     ports = [] \<or> distinct (map portType ports) \<and>
       (\<lambda>e. componentType (info e)) ` {e \<in> set m. \<not> IsHidden e \<and> rendererIdentity (info e) = ri} = portType ` set ports"
proof (cases "ports = [] \<or> duplicate_type ports [] \<noteq> None")
  case True
  then show ?thesis by (auto simp: ValidateRendererOutput_def duplicate_type_None split: option.splits)
next
  case False
  let ?own = "filter (\<lambda>e. \<not> IsHidden e \<and> rendererIdentity (info e) = ri) m"
  have "ValidateRendererOutput m ports ri = None \<longleftrightarrow>
      filter (\<lambda>e. componentType (info e) \<notin> portType ` set ports) ?own = [] \<and>
      filter (\<lambda>p. portType p \<notin> set (map (\<lambda>e. componentType (info e)) (filter (\<lambda>e. componentType (info e) \<in> portType ` set ports) ?own))) ports = []"
    using False by (auto simp: ValidateRendererOutput_def Let_def Equals_iff)
  also have "\<dots> \<longleftrightarrow> (\<lambda>e. componentType (info e)) ` set ?own = portType ` set ports"
    unfolding filter_empty_conv by (simp only: set_map set_filter) blast
  finally show ?thesis using False by (auto simp: duplicate_type_None)
qed

end
