(* ===== verification/SessionStorage.thy ===== *)
theory SessionStorage
  imports GoLib Transition "HOL-Library.AList"
begin

text \<open>
  The storage of render sessions (core/apap-engine/render/session_storage.go). A session is
  represented by its ID and by how often it was closed; its \<open>SessionAccess\<close>, which goroutines hold by
  pointer after it has left the map, is an index of a store, with the readers and the writer of its
  lock. Operations take place between locks, so the critical sections are the steps of a relation
  over all goroutines: \<open>GetSessionByID\<close> and \<open>CloseRenderSession\<close> look up the session in one step and
  acquire its lock in another. A reader may take the lock whenever no writer holds it, which
  includes every schedule of \<open>sync.RWMutex\<close>.
\<close>

section \<open>Operations\<close>

record SessionAccess =
  saID :: string
  saClosed :: nat
  saReaders :: nat
  saWriter :: bool

record SessionStorage =
  sessions :: "(string \<times> nat) list"
  accesses :: "SessionAccess list"

datatype storage_error = SessionExists string | NoSession string

definition NewSessionStorage :: SessionStorage where
  "NewSessionStorage = \<lparr>sessions = [], accesses = []\<rparr>"

definition getRawSessionByID :: "SessionStorage \<Rightarrow> string \<Rightarrow> nat option" where
  "getRawSessionByID s i = map_of (sessions s) i"

definition AddRenderSession :: "SessionStorage \<Rightarrow> string \<Rightarrow> storage_error + SessionStorage" where
  "AddRenderSession s i =
     (if map_of (sessions s) i \<noteq> None then Inl (SessionExists i)
      else Inr \<lparr>sessions = AList.update i (length (accesses s)) (sessions s),
                accesses = accesses s @ [\<lparr>saID = i, saClosed = 0, saReaders = 0, saWriter = False\<rparr>]\<rparr>)"

definition on_access :: "nat \<Rightarrow> (SessionAccess \<Rightarrow> SessionAccess) \<Rightarrow> SessionStorage \<Rightarrow> SessionStorage" where
  "on_access r f s = s\<lparr>accesses := (accesses s)[r := f (accesses s ! r)]\<rparr>"

abbreviation access :: "SessionStorage \<Rightarrow> nat \<Rightarrow> SessionAccess" where
  "access s r \<equiv> accesses s ! r"

text \<open>Acquiring a lock that is not free blocks: there is no next state.\<close>

definition RLock :: "nat \<Rightarrow> SessionStorage \<Rightarrow> SessionStorage option" where
  "RLock r s = (if saWriter (access s r) then None else Some (on_access r (\<lambda>a. a\<lparr>saReaders := saReaders a + 1\<rparr>) s))"

definition Done :: "nat \<Rightarrow> SessionStorage \<Rightarrow> SessionStorage" where
  "Done r s = on_access r (\<lambda>a. a\<lparr>saReaders := saReaders a - 1\<rparr>) s"

definition Lock :: "nat \<Rightarrow> SessionStorage \<Rightarrow> SessionStorage option" where
  "Lock r s =
     (if saWriter (access s r) \<or> saReaders (access s r) > 0 then None else Some (on_access r (\<lambda>a. a\<lparr>saWriter := True\<rparr>) s))"

definition Unlock :: "nat \<Rightarrow> SessionStorage \<Rightarrow> SessionStorage" where
  "Unlock r s = on_access r (\<lambda>a. a\<lparr>saWriter := False\<rparr>) s"

definition Close :: "nat \<Rightarrow> SessionStorage \<Rightarrow> SessionStorage" where
  "Close r s = on_access r (\<lambda>a. a\<lparr>saClosed := saClosed a + 1\<rparr>) s"

definition delete_session :: "string \<Rightarrow> SessionStorage \<Rightarrow> SessionStorage" where
  "delete_session i s = s\<lparr>sessions := AList.delete i (sessions s)\<rparr>"

text \<open>\<open>CloseRenderSession\<close> without interference; \<open>None\<close> if it would block.\<close>

definition CloseRenderSession :: "SessionStorage \<Rightarrow> string \<Rightarrow> SessionStorage option" where
  "CloseRenderSession s i =
     (case getRawSessionByID s i of
        None \<Rightarrow> Some s
      | Some r \<Rightarrow>
         (case Lock r s of
            None \<Rightarrow> None
          | Some s1 \<Rightarrow> Some (Unlock r (delete_session i (Close r s1)))))"

fun close_all :: "nat list \<Rightarrow> SessionStorage \<Rightarrow> SessionStorage option" where
  "close_all [] s = Some s"
| "close_all (r # rs) s =
     (case CloseRenderSession s (saID (access s r)) of None \<Rightarrow> None | Some s' \<Rightarrow> close_all rs s')"

definition CloseAllRenderSessions :: "SessionStorage \<Rightarrow> SessionStorage option" where
  "CloseAllRenderSessions s = close_all (map snd (sessions s)) s"

definition SessionRegistered :: "SessionStorage \<Rightarrow> string \<Rightarrow> bool" where
  "SessionRegistered s i = (map_of (sessions s) i \<noteq> None)"

definition GetSessionByID :: "SessionStorage \<Rightarrow> string \<Rightarrow> (storage_error + (nat \<times> SessionStorage)) option" where
  "GetSessionByID s i =
     (case getRawSessionByID s i of
        None \<Rightarrow> Some (Inl (NoSession i))
      | Some r \<Rightarrow> (case RLock r s of None \<Rightarrow> None | Some s' \<Rightarrow> Some (Inr (r, s'))))"

definition GetAllSessionIds :: "SessionStorage \<Rightarrow> string list" where
  "GetAllSessionIds s = map fst (sessions s)"

definition SessionCount :: "SessionStorage \<Rightarrow> nat" where
  "SessionCount s = length (sessions s)"

section \<open>Goroutines\<close>

text \<open>Where a goroutine is: the two calls with the critical sections they have passed.\<close>

datatype pc =
    Idle
  | GotRaw nat
  | Reading nat
  | CloseRaw string nat
  | CloseLocked string nat
  | SessionClosed string nat
  | CloseDeleted nat

type_synonym storage_system = "SessionStorage \<times> (nat \<Rightarrow> pc)"

inductive storage_step :: "storage_system \<Rightarrow> storage_system \<Rightarrow> bool" where
  add: "p t = Idle \<Longrightarrow> AddRenderSession s i = Inr s' \<Longrightarrow> storage_step (s, p) (s', p)"
| get_raw: "p t = Idle \<Longrightarrow> getRawSessionByID s i = Some r \<Longrightarrow> storage_step (s, p) (s, p(t := GotRaw r))"
| get_lock: "p t = GotRaw r \<Longrightarrow> RLock r s = Some s' \<Longrightarrow> storage_step (s, p) (s', p(t := Reading r))"
| get_done: "p t = Reading r \<Longrightarrow> storage_step (s, p) (Done r s, p(t := Idle))"
| close_raw: "p t = Idle \<Longrightarrow> getRawSessionByID s i = Some r \<Longrightarrow> storage_step (s, p) (s, p(t := CloseRaw i r))"
| close_lock: "p t = CloseRaw i r \<Longrightarrow> Lock r s = Some s' \<Longrightarrow> storage_step (s, p) (s', p(t := CloseLocked i r))"
| close: "p t = CloseLocked i r \<Longrightarrow> storage_step (s, p) (Close r s, p(t := SessionClosed i r))"
| delete: "p t = SessionClosed i r \<Longrightarrow> storage_step (s, p) (delete_session i s, p(t := CloseDeleted r))"
| unlock: "p t = CloseDeleted r \<Longrightarrow> storage_step (s, p) (Unlock r s, p(t := Idle))"

definition storage_start :: "storage_system \<Rightarrow> bool" where
  "storage_start x \<longleftrightarrow> x = (NewSessionStorage, \<lambda>_. Idle)"

section \<open>The invariant\<close>

fun holds_writer :: "pc \<Rightarrow> nat \<Rightarrow> bool" where
  "holds_writer (CloseLocked i r) q \<longleftrightarrow> q = r"
| "holds_writer (SessionClosed i r) q \<longleftrightarrow> q = r"
| "holds_writer (CloseDeleted r) q \<longleftrightarrow> q = r"
| "holds_writer _ q \<longleftrightarrow> False"

fun pc_ok :: "SessionStorage \<Rightarrow> pc \<Rightarrow> bool" where
  "pc_ok s Idle \<longleftrightarrow> True"
| "pc_ok s (GotRaw r) \<longleftrightarrow> r < length (accesses s)"
| "pc_ok s (Reading r) \<longleftrightarrow> r < length (accesses s)"
| "pc_ok s (CloseRaw i r) \<longleftrightarrow> r < length (accesses s) \<and> saID (access s r) = i"
| "pc_ok s (CloseLocked i r) \<longleftrightarrow> r < length (accesses s) \<and> saID (access s r) = i"
| "pc_ok s (SessionClosed i r) \<longleftrightarrow> r < length (accesses s) \<and> saID (access s r) = i"
| "pc_ok s (CloseDeleted r) \<longleftrightarrow> r < length (accesses s)"

text \<open>The map and the goroutines refer to accesses of the store, under the ID of the session.\<close>

definition refs_ok :: "storage_system \<Rightarrow> bool" where
  "refs_ok x \<longleftrightarrow> (case x of (s, p) \<Rightarrow>
     distinct (map fst (sessions s)) \<and> (\<forall>t. pc_ok s (p t)) \<and>
     (\<forall>i r. map_of (sessions s) i = Some r \<longrightarrow> r < length (accesses s) \<and> saID (access s r) = i))"

text \<open>The lock counts its readers and has at most one writer, never beside a reader.\<close>

definition locks_ok :: "storage_system \<Rightarrow> bool" where
  "locks_ok x \<longleftrightarrow> (case x of (s, p) \<Rightarrow>
     finite {t. p t \<noteq> Idle} \<and>
     (\<forall>r<length (accesses s).
        saReaders (access s r) = card {t. p t = Reading r} \<and>
        (saWriter (access s r) \<longrightarrow> saReaders (access s r) = 0) \<and>
        (if saWriter (access s r) then \<exists>t. holds_writer (p t) r \<and> (\<forall>t'. holds_writer (p t') r \<longrightarrow> t' = t)
         else \<forall>t. \<not> holds_writer (p t) r)))"

text \<open>A session in the map is open, unless a goroutine that closed it is about to remove it.\<close>

definition open_ok :: "storage_system \<Rightarrow> bool" where
  "open_ok x \<longleftrightarrow> (case x of (s, p) \<Rightarrow>
     \<forall>i r. map_of (sessions s) i = Some r \<longrightarrow> saClosed (access s r) = 0 \<or> (\<exists>t. p t = SessionClosed i r))"

lemmas storage_defs = AddRenderSession_def getRawSessionByID_def RLock_def Done_def Lock_def Close_def
  Unlock_def delete_session_def

lemma on_access_simps [simp]:
  "sessions (on_access r f s) = sessions s"
  "length (accesses (on_access r f s)) = length (accesses s)"
  "q < length (accesses s) \<Longrightarrow> access (on_access r f s) q = (if q = r then f (access s r) else access s q)"
  by (auto simp: on_access_def nth_list_update)

lemma pc_ok_mono:
  "length (accesses s) \<le> length (accesses s') \<Longrightarrow>
   (\<And>r. r < length (accesses s) \<Longrightarrow> saID (access s' r) = saID (access s r)) \<Longrightarrow> pc_ok s c \<Longrightarrow> pc_ok s' c"
  by (cases c) auto

lemma pc_ok_on_access: "(\<And>a. saID (f a) = saID a) \<Longrightarrow> pc_ok s c \<Longrightarrow> pc_ok (on_access r f s) c"
  by (erule pc_ok_mono [rotated 2]) auto

lemma pc_ok_sessions: "pc_ok (s\<lparr>sessions := m\<rparr>) c \<longleftrightarrow> pc_ok s c"
  by (cases c) auto

lemma refs_pc: "refs_ok (s, p) \<Longrightarrow> pc_ok s (p t)"
  by (simp add: refs_ok_def)

lemma refs_step: "storage_step x y \<Longrightarrow> refs_ok x \<Longrightarrow> refs_ok y"
proof (induction rule: storage_step.induct)
  case (add p t s i s')
  have "pc_ok s' (p t)" for t
    using add by (intro pc_ok_mono [of s s']) (auto simp: storage_defs refs_ok_def nth_append split: if_splits)
  then show ?case
    using add by (auto simp: storage_defs refs_ok_def nth_append update_conv' distinct_update less_SucI split: if_splits)
next
  case (delete p t i r s)
  then show ?case
    using refs_pc [of s p t]
    by (auto simp: storage_defs refs_ok_def pc_ok_sessions delete_conv' distinct_delete split: if_splits)
next
  case (close p t i r s)
  then show ?case
    using refs_pc [of s p t] by (auto simp: storage_defs refs_ok_def pc_ok_on_access split: if_splits)
next
  case (close_lock p t i r s s')
  then show ?case
    using refs_pc [of s p t] by (auto simp: storage_defs refs_ok_def pc_ok_on_access split: if_splits)
next
  case (get_lock p t r s s')
  then show ?case
    using refs_pc [of s p t] by (auto simp: storage_defs refs_ok_def pc_ok_on_access split: if_splits)
qed (auto simp: storage_defs refs_ok_def pc_ok_on_access split: if_splits)

text \<open>How the readers of a lock change when a goroutine moves.\<close>

lemma readers_move:
  assumes "finite {u. p u \<noteq> Idle}"
  shows "card {u. (p(t := c)) u = Reading r} =
    (if c = Reading r then (if p t = Reading r then card {u. p u = Reading r} else Suc (card {u. p u = Reading r}))
     else if p t = Reading r then card {u. p u = Reading r} - 1 else card {u. p u = Reading r})"
proof -
  have fin: "finite {u. p u = Reading r}" by (rule finite_subset [OF _ assms]) auto
  have "{u. (p(t := c)) u = Reading r} = (if c = Reading r then insert t {u. p u = Reading r} else {u. p u = Reading r} - {t})"
    by auto
  with fin show ?thesis by (auto simp: insert_absorb)
qed

lemma finite_move: "finite {u. p u \<noteq> Idle} \<Longrightarrow> finite {u. (p(t := c)) u \<noteq> Idle}"
  by (rule finite_subset [of _ "insert t {u. p u \<noteq> Idle}"]) auto

text \<open>
  The condition on one lock, and that it survives the move of a goroutine that keeps the reader and
  writer role it has.
\<close>

definition lock_ok :: "SessionAccess \<Rightarrow> (nat \<Rightarrow> pc) \<Rightarrow> nat \<Rightarrow> bool" where
  "lock_ok a p r \<longleftrightarrow>
     saReaders a = card {t. p t = Reading r} \<and> (saWriter a \<longrightarrow> saReaders a = 0) \<and>
     (if saWriter a then \<exists>t. holds_writer (p t) r \<and> (\<forall>t'. holds_writer (p t') r \<longrightarrow> t' = t)
      else \<forall>t. \<not> holds_writer (p t) r)"

lemma locks_ok_iff:
  "locks_ok (s, p) \<longleftrightarrow> finite {t. p t \<noteq> Idle} \<and> (\<forall>r<length (accesses s). lock_ok (access s r) p r)"
  by (simp add: locks_ok_def lock_ok_def)

lemma lock_ok_move:
  assumes "lock_ok a p r" and "finite {u. p u \<noteq> Idle}" and "(c = Reading r) = (p t = Reading r)" and "holds_writer c r = holds_writer (p t) r"
    and "saReaders b = saReaders a" and "saWriter b = saWriter a"
  shows "lock_ok b (p(t := c)) r"
proof -
  have h: "holds_writer ((p(t := c)) u) r = holds_writer (p u) r" for u using assms(4) by simp
  show ?thesis using assms(1,3,5,6) unfolding lock_ok_def h readers_move [OF assms(2)] by auto
qed

lemma lock_ok_rlock:
  assumes "lock_ok a p r" and "finite {u. p u \<noteq> Idle}" and "p t = GotRaw r" and "\<not> saWriter a"
  shows "lock_ok (a\<lparr>saReaders := Suc (saReaders a)\<rparr>) (p(t := Reading r)) r"
  using assms unfolding lock_ok_def readers_move [OF assms(2)] by auto

lemma lock_ok_done:
  assumes "lock_ok a p r" and "finite {u. p u \<noteq> Idle}" and "p t = Reading r"
  shows "lock_ok (a\<lparr>saReaders := saReaders a - 1\<rparr>) (p(t := Idle)) r"
proof -
  have "t \<in> {u. p u = Reading r}" using assms(3) by simp
  moreover have "finite {u. p u = Reading r}" by (rule finite_subset [OF _ assms(2)]) auto
  ultimately have "card {u. p u = Reading r} \<noteq> 0" by (metis card_0_eq empty_iff)
  then have "\<not> saWriter a" using assms(1) by (auto simp: lock_ok_def)
  then show ?thesis using assms unfolding lock_ok_def readers_move [OF assms(2)] by auto
qed

lemma lock_ok_lock:
  assumes "lock_ok a p r" and "finite {u. p u \<noteq> Idle}" and "p t = CloseRaw i r" and "\<not> saWriter a" and "saReaders a = 0"
  shows "lock_ok (a\<lparr>saWriter := True\<rparr>) (p(t := CloseLocked i r)) r"
  using assms unfolding lock_ok_def readers_move [OF assms(2)] by auto

lemma lock_ok_unlock:
  assumes "lock_ok a p r" and "finite {u. p u \<noteq> Idle}" and "p t = CloseDeleted r"
  shows "lock_ok (a\<lparr>saWriter := False\<rparr>) (p(t := Idle)) r"
proof -
  have "holds_writer (p t) r" using assms(3) by simp
  then have "saWriter a" "\<forall>u. holds_writer (p u) r \<longrightarrow> u = t" using assms(1) by (auto simp: lock_ok_def split: if_splits)
  then show ?thesis using assms unfolding lock_ok_def readers_move [OF assms(2)] by auto
qed

definition same_role :: "pc \<Rightarrow> pc \<Rightarrow> nat \<Rightarrow> bool" where
  "same_role c d q \<longleftrightarrow> (c = Reading q) = (d = Reading q) \<and> holds_writer c q = holds_writer d q"

lemma locks_move:
  assumes "locks_ok (s, p)" and "lock_ok (f (access s r)) (p(t := c)) r" and "\<And>q. q \<noteq> r \<Longrightarrow> same_role c (p t) q"
  shows "locks_ok (on_access r f s, p(t := c))"
  unfolding locks_ok_iff
proof (intro conjI allI impI)
  show "finite {u. (p(t := c)) u \<noteq> Idle}" using assms(1) by (intro finite_move) (simp add: locks_ok_iff)
next
  fix q assume q: "q < length (accesses (on_access r f s))"
  show "lock_ok (access (on_access r f s) q) (p(t := c)) q"
  proof (cases "q = r")
    case False
    then have "lock_ok (access s q) (p(t := c)) q"
      using assms(1,3) q by (intro lock_ok_move [of "access s q" p]) (auto simp: locks_ok_iff same_role_def)
    then show ?thesis using False q by simp
  qed (use assms(2) q in simp)
qed

lemma locks_stay:
  assumes "locks_ok (s, p)" and "accesses s' = accesses s" and "\<And>q. same_role c (p t) q"
  shows "locks_ok (s', p(t := c))"
  using assms unfolding locks_ok_iff same_role_def by (auto intro!: finite_move lock_ok_move simp del: fun_upd_apply)

lemma locks_step:
  assumes "storage_step x y" and "refs_ok x" and "locks_ok x"
  shows "locks_ok y"
  using assms
proof (induction rule: storage_step.induct)
  case (add p t s i s')
  have "lock_ok \<lparr>saID = i, saClosed = 0, saReaders = 0, saWriter = False\<rparr> p (length (accesses s))"
  proof -
    have "p u \<noteq> Reading (length (accesses s)) \<and> \<not> holds_writer (p u) (length (accesses s))" for u
      using refs_pc [OF add(3), of u] by (cases "p u") auto
    then show ?thesis by (simp add: lock_ok_def)
  qed
  with add show ?case by (auto simp: locks_ok_iff storage_defs nth_append less_Suc_eq split: if_splits)
next
  case (get_lock p t r s s')
  then have "lock_ok (access s r) p r" "finite {u. p u \<noteq> Idle}"
    using refs_pc [of s p t] by (auto simp: locks_ok_iff)
  then have "locks_ok (on_access r (\<lambda>a. a\<lparr>saReaders := saReaders a + 1\<rparr>) s, p(t := Reading r))"
    using get_lock by (intro locks_move) (auto simp: storage_defs same_role_def lock_ok_rlock simp del: fun_upd_apply split: if_splits)
  then show ?case using get_lock by (simp add: storage_defs split: if_splits)
next
  case (get_done p t r s)
  then have "lock_ok (access s r) p r" "finite {u. p u \<noteq> Idle}"
    using refs_pc [of s p t] by (auto simp: locks_ok_iff)
  then show ?case
    unfolding Done_def using get_done lock_ok_done by (intro locks_move) (auto simp: same_role_def simp del: fun_upd_apply)
next
  case (close_lock p t i r s s')
  then have "lock_ok (access s r) p r" "finite {u. p u \<noteq> Idle}"
    using refs_pc [of s p t] by (auto simp: locks_ok_iff)
  then have "locks_ok (on_access r (\<lambda>a. a\<lparr>saWriter := True\<rparr>) s, p(t := CloseLocked i r))"
    using close_lock by (intro locks_move) (auto simp: storage_defs same_role_def lock_ok_lock simp del: fun_upd_apply split: if_splits)
  then show ?case using close_lock by (simp add: storage_defs split: if_splits)
next
  case (close p t i r s)
  then have "lock_ok (access s r) p r" "finite {u. p u \<noteq> Idle}"
    using refs_pc [of s p t] by (auto simp: locks_ok_iff)
  then show ?case
    unfolding Close_def using close
    by (intro locks_move lock_ok_move [of "access s r" p]) (auto simp: same_role_def simp del: fun_upd_apply)
next
  case (unlock p t r s)
  then have "lock_ok (access s r) p r" "finite {u. p u \<noteq> Idle}"
    using refs_pc [of s p t] by (auto simp: locks_ok_iff)
  then show ?case
    unfolding Unlock_def using unlock by (intro locks_move) (auto simp: same_role_def lock_ok_unlock simp del: fun_upd_apply)
qed (auto simp: storage_defs same_role_def intro!: locks_stay simp del: fun_upd_apply split: if_splits)

lemma open_ok_move:
  assumes "open_ok (s, p)"
    and "\<And>i r. map_of (sessions s') i = Some r \<Longrightarrow>
      map_of (sessions s) i = Some r \<and> saClosed (access s' r) = saClosed (access s r) \<and> p t \<noteq> SessionClosed i r"
  shows "open_ok (s', p(t := c))"
  unfolding open_ok_def prod.case
proof (intro allI impI)
  fix i r assume "map_of (sessions s') i = Some r"
  from assms(2) [OF this] have eq: "saClosed (access s' r) = saClosed (access s r)" "p t \<noteq> SessionClosed i r"
    and "saClosed (access s r) = 0 \<or> (\<exists>u. p u = SessionClosed i r)"
    using assms(1) by (auto simp: open_ok_def)
  then show "saClosed (access s' r) = 0 \<or> (\<exists>u. (p(t := c)) u = SessionClosed i r)" by (metis fun_upd_other)
qed

lemma open_step:
  assumes "storage_step x y" and "refs_ok x" and "open_ok x"
  shows "open_ok y"
  using assms
proof (induction rule: storage_step.induct)
  case (add p t s i s')
  then show ?case
    by (auto simp: open_ok_def refs_ok_def storage_defs update_conv' nth_append split: if_splits) blast
next
  case (close p t i r s)
  then have ne: "p t \<noteq> SessionClosed j q" for j q by simp
  from close refs_pc [of s p t] show ?case by (auto simp: open_ok_def refs_ok_def storage_defs) (metis ne)
next
  case (delete p t i r s)
  then show ?case by (intro open_ok_move) (auto simp: storage_defs delete_conv' split: if_splits)
qed (rule open_ok_move, assumption, force simp: refs_ok_def storage_defs split: if_splits)+

definition storage_inv :: "storage_system \<Rightarrow> bool" where
  "storage_inv x \<longleftrightarrow> refs_ok x \<and> locks_ok x \<and> open_ok x"

interpretation storage: step_system storage_start storage_step storage_inv
proof
  fix x y
  show "storage_start x \<Longrightarrow> storage_inv x"
    by (simp add: storage_start_def storage_inv_def refs_ok_def locks_ok_def open_ok_def NewSessionStorage_def)
  show "storage_inv x \<Longrightarrow> storage_step x y \<Longrightarrow> storage_inv y"
    by (auto simp: storage_inv_def intro: refs_step locks_step open_step)
qed

section \<open>Properties\<close>


text \<open>An execution in which one goroutine reads a session and another waits to close it.\<close>

definition one_session :: SessionStorage where
  "one_session = \<lparr>sessions = [(''s'', 0)], accesses = [\<lparr>saID = ''s'', saClosed = 0, saReaders = 0, saWriter = False\<rparr>]\<rparr>"

lemmas execution_defs = storage_defs on_access_def one_session_def NewSessionStorage_def

lemma add_one: "storage_step (NewSessionStorage, \<lambda>_. Idle) (one_session, \<lambda>_. Idle)"
  by (rule storage_step.add [of _ 0 _ "''s''"]) (simp_all add: execution_defs)

lemma reading_while_closing:
  "storage_step\<^sup>*\<^sup>* (NewSessionStorage, \<lambda>_. Idle)
     (on_access 0 (\<lambda>a. a\<lparr>saReaders := 1\<rparr>) one_session, (\<lambda>_. Idle)(0 := GotRaw 0, 0 := Reading 0, 1 := CloseRaw ''s'' 0))"
proof -
  have "storage_step (one_session, \<lambda>_. Idle) (one_session, (\<lambda>_. Idle)(0 := GotRaw 0))"
    by (rule storage_step.get_raw [of _ 0 _ "''s''"]) (simp_all add: execution_defs)
  moreover have "storage_step (one_session, (\<lambda>_. Idle)(0 := GotRaw 0))
     (on_access 0 (\<lambda>a. a\<lparr>saReaders := 1\<rparr>) one_session, (\<lambda>_. Idle)(0 := GotRaw 0, 0 := Reading 0))"
    by (rule storage_step.get_lock) (simp_all add: execution_defs)
  moreover have "storage_step (on_access 0 (\<lambda>a. a\<lparr>saReaders := 1\<rparr>) one_session, (\<lambda>_. Idle)(0 := GotRaw 0, 0 := Reading 0))
     (on_access 0 (\<lambda>a. a\<lparr>saReaders := 1\<rparr>) one_session, (\<lambda>_. Idle)(0 := GotRaw 0, 0 := Reading 0, 1 := CloseRaw ''s'' 0))"
    by (rule storage_step.close_raw) (simp_all add: execution_defs)
  ultimately show ?thesis using add_one by (meson r_into_rtranclp rtranclp.rtrancl_into_rtrancl)
qed


text \<open>
  The lookup and the lock are separate: a goroutine that has looked up a session before it is closed
  gets the closed session, and one that has looked it up to close it closes it again.
\<close>

lemma closed_session_is_read:
  "\<exists>s p. storage_step\<^sup>*\<^sup>* (NewSessionStorage, \<lambda>_. Idle) (s, p) \<and> p 0 = Reading 0 \<and> saClosed (access s 0) = 1"
proof -
  let ?p1 = "(\<lambda>_. Idle)(0 := GotRaw 0)"
  let ?p2 = "?p1(1 := CloseRaw ''s'' 0)"
  let ?s3 = "on_access 0 (\<lambda>a. a\<lparr>saWriter := True\<rparr>) one_session"
  let ?p3 = "?p2(1 := CloseLocked ''s'' 0)"
  let ?s4 = "Close 0 ?s3"
  let ?p4 = "?p3(1 := SessionClosed ''s'' 0)"
  let ?s5 = "delete_session ''s'' ?s4"
  let ?p5 = "?p4(1 := CloseDeleted 0)"
  let ?s6 = "Unlock 0 ?s5"
  let ?p6 = "?p5(1 := Idle)"
  let ?s7 = "on_access 0 (\<lambda>a. a\<lparr>saReaders := saReaders a + 1\<rparr>) ?s6"
  let ?p7 = "?p6(0 := Reading 0)"
  note rtranclp.rtrancl_into_rtrancl [trans]
  have "storage_step\<^sup>*\<^sup>* (NewSessionStorage, \<lambda>_. Idle) (one_session, \<lambda>_. Idle)" using add_one ..
  also have "storage_step (one_session, \<lambda>_. Idle) (one_session, ?p1)"
    by (rule storage_step.get_raw [of _ 0 _ "''s''"]) (simp_all add: execution_defs)
  also have "storage_step (one_session, ?p1) (one_session, ?p2)"
    by (rule storage_step.close_raw) (simp_all add: execution_defs)
  also have "storage_step (one_session, ?p2) (?s3, ?p3)"
    by (rule storage_step.close_lock) (simp_all add: execution_defs)
  also have "storage_step (?s3, ?p3) (?s4, ?p4)" by (rule storage_step.close) simp
  also have "storage_step (?s4, ?p4) (?s5, ?p5)" by (rule storage_step.delete) simp
  also have "storage_step (?s5, ?p5) (?s6, ?p6)" by (rule storage_step.unlock) simp
  also have "storage_step (?s6, ?p6) (?s7, ?p7)" by (rule storage_step.get_lock) (simp_all add: execution_defs)
  finally have "storage_step\<^sup>*\<^sup>* (NewSessionStorage, \<lambda>_. Idle) (?s7, ?p7)" .
  moreover have "saClosed (access ?s7 0) = 1" by (simp add: execution_defs)
  ultimately show ?thesis by (intro exI [of _ ?s7] exI [of _ ?p7]) simp
qed

text \<open>Closing all sessions when no goroutine holds one.\<close>

definition idle_storage :: "SessionStorage \<Rightarrow> bool" where
  "idle_storage s \<longleftrightarrow> refs_ok (s, \<lambda>_. Idle) \<and> list_all (\<lambda>a. \<not> saWriter a \<and> saReaders a = 0) (accesses s)"

definition close_first :: "nat \<Rightarrow> SessionStorage \<Rightarrow> SessionStorage" where
  "close_first r s =
     s\<lparr>sessions := tl (sessions s), accesses := (accesses s)[r := (access s r)\<lparr>saClosed := saClosed (access s r) + 1\<rparr>]\<rparr>"

lemma unlock_same: "\<not> saWriter a \<Longrightarrow> a\<lparr>saClosed := n, saWriter := False\<rparr> = a\<lparr>saClosed := n\<rparr>"
  by (cases a) simp

lemma Close_first:
  assumes "idle_storage s" and "sessions s = (i, r) # rest"
  shows "CloseRenderSession s i = Some (close_first r s) \<and> idle_storage (close_first r s)"
proof -
  have refs: "map_of (sessions s) j = Some q \<Longrightarrow> q < length (accesses s) \<and> saID (access s q) = j" for j q
    using assms(1) by (simp add: idle_storage_def refs_ok_def)
  have r: "r < length (accesses s)" "saID (access s r) = i" using refs [of i r] assms(2) by auto
  have d: "i \<notin> fst ` set rest" using assms by (simp add: idle_storage_def refs_ok_def)
  have free: "\<not> saWriter (access s r)" "saReaders (access s r) = 0"
    using assms(1) r(1) by (auto simp: idle_storage_def list_all_length)
  have "CloseRenderSession s i = Some (close_first r s)"
    using assms(2) r d free by (simp add: unlock_same CloseRenderSession_def storage_defs on_access_def close_first_def delete_notin_dom)
  moreover have "idle_storage (close_first r s)"
  proof -
    have "q < length (accesses s) \<and> saID (access s q) = j" if "map_of rest j = Some q" for j q
    proof -
      have "(j, q) \<in> set rest" using that by (rule map_of_SomeD)
      then have "j \<noteq> i" using d by force
      then show ?thesis using refs [of j q] assms(2) that by simp
    qed
    then show ?thesis
      using assms r(1) by (auto simp: idle_storage_def refs_ok_def close_first_def list_all_length nth_list_update)
  qed
  ultimately show ?thesis by simp
qed

lemma close_all_run:
  "idle_storage s \<Longrightarrow> map snd (sessions s) = rs \<Longrightarrow>
     \<exists>s'. close_all rs s = Some s' \<and> sessions s' = [] \<and> length (accesses s') = length (accesses s) \<and>
       (\<forall>r<length (accesses s). saClosed (access s' r) = saClosed (access s r) + (if r \<in> set rs then 1 else 0))"
proof (induction rs arbitrary: s)
  case (Cons r rs)
  then obtain i rest where s: "sessions s = (i, r) # rest" "map snd rest = rs" by (cases "sessions s") auto
  have id: "saID (access s r) = i" and rlt: "r < length (accesses s)"
    using Cons.prems(1) s(1) unfolding idle_storage_def refs_ok_def by (auto dest: spec [of _ i])
  have dist: "r \<notin> set rs"
  proof
    assume "r \<in> set rs"
    then obtain j where j: "(j, r) \<in> set rest" using s(2) by auto
    then have "map_of (sessions s) j = Some r"
      using Cons.prems(1) s(1) by (intro map_of_is_SomeI) (auto simp: idle_storage_def refs_ok_def)
    then have "j = i" using Cons.prems(1) id by (auto simp: idle_storage_def refs_ok_def)
    with j show False using Cons.prems(1) s(1) by (force simp: idle_storage_def refs_ok_def)
  qed
  note first = Close_first [OF Cons.prems(1) s(1)]
  obtain s' where s': "close_all rs (close_first r s) = Some s'" "sessions s' = []"
    "length (accesses s') = length (accesses (close_first r s))"
    "\<forall>q<length (accesses (close_first r s)). saClosed (access s' q) =
       saClosed (access (close_first r s) q) + (if q \<in> set rs then 1 else 0)"
    using Cons.IH [of "close_first r s"] first s by (auto simp: close_first_def)
  then show ?case using first id dist rlt by (auto simp: close_first_def nth_list_update)
qed simp

text \<open>
  When no goroutine holds a session, closing all sessions does not block; it empties the storage
  and closes each registered session exactly once and no other.
\<close>

theorem CloseAll_closes_each_once:
  assumes "idle_storage s"
  shows "\<exists>s'. CloseAllRenderSessions s = Some s' \<and> SessionCount s' = 0 \<and>
    map saClosed (accesses s') =
      map (\<lambda>r. saClosed (access s r) + (if r \<in> snd ` set (sessions s) then 1 else 0)) [0..<length (accesses s)]"
proof -
  obtain s' where s': "close_all (map snd (sessions s)) s = Some s'" "sessions s' = []" "length (accesses s') = length (accesses s)"
    "\<forall>r<length (accesses s). saClosed (access s' r) = saClosed (access s r) + (if r \<in> set (map snd (sessions s)) then 1 else 0)"
    using close_all_run [OF assms refl] by auto
  have "map saClosed (accesses s') =
      map (\<lambda>r. saClosed (access s r) + (if r \<in> snd ` set (sessions s) then 1 else 0)) [0..<length (accesses s)]"
    using s'(3,4) by (intro nth_equalityI) auto
  then show ?thesis using s'(1,2) by (simp add: CloseAllRenderSessions_def SessionCount_def)
qed

theorem CloseAll_closes_each_once_witness:
  "\<exists>s'. CloseAllRenderSessions one_session = Some s' \<and> SessionCount s' = 0 \<and>
    map saClosed (accesses s') = map (\<lambda>r. saClosed (access one_session r) + (if r \<in> snd ` set (sessions one_session) then 1 else 0)) [0..<length (accesses one_session)]"
  by (rule CloseAll_closes_each_once) (simp add: idle_storage_def refs_ok_def one_session_def)

end
