(* ===== verification/RenderSession.thy ===== *)
theory RenderSession
  imports LoadContent SessionLifecycle SessionStorage
begin

text \<open>
  Starting a render session (\<open>StartRenderSession\<close> of core/apap-engine/render/session_lifecycle.go, with
  the data sources of widgets of visualization.go and \<open>ScopeCleaner\<close> of util/scopecleaner.go): the
  content is loaded, the renderers are created and initialised, and the session is put into the
  storage. The session factory and the decoding of configurations are parameters. The outcome
  records the session that was created and whether the deferred cleanup closed it.
\<close>

section \<open>Widgets\<close>

type_synonym WidgetDataSources = "(string \<times> TableRefMap option) list"

definition AddDataSources :: "WidgetDataSources \<Rightarrow> string \<Rightarrow> TableRefMap option \<Rightarrow> string + WidgetDataSources" where
  "AddDataSources v visName sources =
     (case map_of v visName of
        Some (Some entry) \<Rightarrow> Inl visName
      | _ \<Rightarrow> Inr (AList.update visName sources v))"

fun resolve_widgets ::
  "(DataSourcesMap \<Rightarrow> resolve_error + TableRefMap) \<Rightarrow> (string \<times> DataSourcesMap) list \<Rightarrow> WidgetDataSources \<Rightarrow> string + WidgetDataSources" where
  "resolve_widgets r [] v = Inr v"
| "resolve_widgets r ((i, ds) # rest) v =
     (case AddDataSources v i (case r ds of Inl e \<Rightarrow> None | Inr t \<Rightarrow> Some t) of
        Inl e \<Rightarrow> Inl e
      | Inr v' \<Rightarrow> resolve_widgets r rest v')"

definition ResolveWidgetDataSources ::
  "string list \<Rightarrow> tables \<Rightarrow> Renderer option list \<Rightarrow> (string \<times> DataSourcesMap) list \<Rightarrow> WidgetDataSources \<Rightarrow> string + WidgetDataSources" where
  "ResolveWidgetDataSources content m renderers sources v =
     resolve_widgets (ResolveDataSources content m (map (map_option rnOutput) renderers)) sources v"

record WidgetConfig =
  wcID :: "string option"
  wcConfigJSON :: string

fun parse_widgets ::
  "(string \<Rightarrow> string + DataSourcesMap) \<Rightarrow> WidgetConfig list \<Rightarrow> (string \<times> DataSourcesMap) list \<Rightarrow> string + (string \<times> DataSourcesMap) list" where
  "parse_widgets decode [] acc = Inr acc"
| "parse_widgets decode (c # cs) acc =
     (case wcID c of
        None \<Rightarrow> parse_widgets decode cs acc
      | Some i \<Rightarrow>
         (case decode (wcConfigJSON c) of
            Inl e \<Rightarrow> Inl e
          | Inr ds \<Rightarrow> parse_widgets decode cs (AList.update i ds acc)))"

definition ParseWidgetDataSources ::
  "(string \<Rightarrow> string + DataSourcesMap) \<Rightarrow> WidgetConfig list \<Rightarrow> string + (string \<times> DataSourcesMap) list" where
  "ParseWidgetDataSources decode configs = parse_widgets decode configs []"

section \<open>The scope cleaner\<close>

record ScopeCleaner =
  Ok :: bool

definition MaybeCleanup :: "ScopeCleaner \<Rightarrow> ('s \<Rightarrow> 's) \<Rightarrow> 's \<Rightarrow> 's" where
  "MaybeCleanup c f s = (if \<not> Ok c then f s else s)"

definition CancelCleanup :: "ScopeCleaner \<Rightarrow> ScopeCleaner" where
  "CancelCleanup c = c\<lparr>Ok := True\<rparr>"

section \<open>Starting a session\<close>

datatype start_error =
    StorageMissing
  | ContentFailed load_error
  | DependenciesFailed id_error
  | SpecFailed graph_error
  | SessionFailed string
  | NoRenderer
  | WidgetConfigInvalid string
  | WidgetDuplicate string
  | AddFailed storage_error

record start_outcome =
  outSession :: "string option"
  outErrs :: "render_error option list"
  outError :: "start_error option"
  outCreated :: "string option"
  outClosed :: bool
  outStorage :: SessionStorage

definition fail_before :: "SessionStorage \<Rightarrow> start_error \<Rightarrow> start_outcome" where
  "fail_before st e =
     \<lparr>outSession = None, outErrs = [], outError = Some e, outCreated = None, outClosed = False, outStorage = st\<rparr>"

text \<open>The deferred cleanup closes the session, which is in the store of the storage if it was added.\<close>

definition close_created :: "nat option \<Rightarrow> start_outcome \<Rightarrow> start_outcome" where
  "close_created r out =
     out\<lparr>outClosed := True, outStorage := (case r of None \<Rightarrow> outStorage out | Some i \<Rightarrow> Close i (outStorage out))\<rparr>"

definition fail_after :: "SessionStorage \<Rightarrow> string \<Rightarrow> start_error \<Rightarrow> start_outcome" where
  "fail_after st sid e =
     MaybeCleanup \<lparr>Ok = False\<rparr> (close_created None)
       \<lparr>outSession = None, outErrs = [], outError = Some e, outCreated = Some sid, outClosed = False, outStorage = st\<rparr>"

definition finish_session :: "SessionStorage \<Rightarrow> string \<Rightarrow> render_error option list \<Rightarrow> start_outcome" where
  "finish_session st sid finalErrs =
     (case AddRenderSession st sid of
        Inl e \<Rightarrow> fail_after st sid (AddFailed e)
      | Inr st' \<Rightarrow>
         (let sc = \<lparr>Ok = False\<rparr>;
              out = \<lparr>outSession = None, outErrs = finalErrs, outError = None, outCreated = Some sid, outClosed = False, outStorage = st'\<rparr>
          in if None \<in> set finalErrs
             then MaybeCleanup (CancelCleanup sc) (close_created (Some (length (accesses st)))) (out\<lparr>outSession := Some sid\<rparr>)
             else MaybeCleanup sc (close_created (Some (length (accesses st)))) out))"

record render_env =
  reEnv :: env
  reRuns :: run_source
  reSort :: "PathMigration list \<Rightarrow> PathMigration list"
  reRegistry :: "Migration list list option"
  reDecode :: "string \<Rightarrow> Dependencies \<times> string option"
  reDecodeWidget :: "string \<Rightarrow> string + DataSourcesMap"
  reFactory :: factory
  reNewSession :: "string list \<Rightarrow> string + string"
  reDrop :: "nat \<Rightarrow> string \<Rightarrow> bool"

definition run_session ::
  "render_env \<Rightarrow> SessionStorage \<Rightarrow> string list \<Rightarrow> RendererSpec \<Rightarrow> Renderer option list \<Rightarrow> render_error option list \<Rightarrow>
     WidgetConfig list \<Rightarrow> string \<Rightarrow> start_outcome" where
  "run_session R st content spec renderers mergedErrs visConfigs sid =
     (case initializeRenderers (reDrop R) content spec renderers mergedErrs [] of
        None \<Rightarrow> fail_after st sid NoRenderer
      | Some s \<Rightarrow>
         (case ParseWidgetDataSources (reDecodeWidget R) visConfigs of
            Inl e \<Rightarrow> fail_after st sid (WidgetConfigInvalid e)
          | Inr sources \<Rightarrow>
             (case ResolveWidgetDataSources content (stTables s) renderers sources [] of
                Inl e \<Rightarrow> fail_after st sid (WidgetDuplicate e)
              | Inr v \<Rightarrow> finish_session st sid (merge mergedErrs (stErrs s)))))"

definition StartRenderSession ::
  "render_env \<Rightarrow> SessionStorage option \<Rightarrow> string list \<Rightarrow> RendererConfig list \<Rightarrow> WidgetConfig list \<Rightarrow> start_outcome option" where
  "StartRenderSession R storage selection configs visConfigs =
     (case storage of
        None \<Rightarrow> None
      | Some st \<Rightarrow> Some
         (case LoadContent (reEnv R) (reRuns R) (reSort R) (reRegistry R) selection of
            Inl e \<Rightarrow> fail_before st (ContentFailed e)
          | Inr (entries, targets) \<Rightarrow>
             (case createDependencies (reDecode R) configs of
                Inl e \<Rightarrow> fail_before st (DependenciesFailed e)
              | Inr (deps, configErrs) \<Rightarrow>
                 (case NewRendererSpec configs deps of
                    Inl e \<Rightarrow> fail_before st (SpecFailed e)
                  | Inr (spec, graphErrs) \<Rightarrow>
                     (let merged1 = merge configErrs (map (map_option GraphError) graphErrs) in
                      case createRenderers (reFactory R) (Configs spec) merged1 of
                        (renderers, creationErrs) \<Rightarrow>
                         (let merged2 = merge merged1 creationErrs; content = map ceID entries in
                          case reNewSession R content of
                            Inl e \<Rightarrow> fail_before st (SessionFailed e)
                          | Inr sid \<Rightarrow> run_session R st content spec renderers merged2 visConfigs sid))))))"

section \<open>Properties\<close>

lemma parse_widgets_distinct:
  "parse_widgets decode cs acc = Inr m \<Longrightarrow> distinct (map fst acc) \<Longrightarrow> distinct (map fst m)"
  by (induction cs arbitrary: acc) (auto simp: distinct_update split: option.splits sum.splits)

text \<open>The data sources of the widgets have distinct keys, so adding them never fails.\<close>

lemma resolve_widgets_ok:
  "distinct (map fst sources) \<Longrightarrow> fst ` set sources \<inter> fst ` set v = {} \<Longrightarrow> \<exists>v'. resolve_widgets r sources v = Inr v'"
proof (induction sources arbitrary: v)
  case (Cons s sources)
  obtain i ds where s: "s = (i, ds)" by fastforce
  have "map_of v i = None" using Cons.prems(2) s by (auto simp: map_of_eq_None_iff)
  moreover have "fst ` set (AList.update i x v) = insert i (fst ` set v)" for x by (simp add: dom_update)
  ultimately show ?case using Cons s by (auto simp: AddDataSources_def)
qed simp

lemma widgets_resolve:
  "ParseWidgetDataSources decode cs = Inr m \<Longrightarrow> \<exists>v. ResolveWidgetDataSources content ts renderers m [] = Inr v"
  unfolding ResolveWidgetDataSources_def ParseWidgetDataSources_def
  by (intro resolve_widgets_ok) (auto dest: parse_widgets_distinct)

definition outcome_ok :: "SessionStorage \<Rightarrow> start_outcome \<Rightarrow> bool" where
  "outcome_ok st out \<longleftrightarrow>
     (case outError out of
        Some e \<Rightarrow> outStorage out = st \<and> outSession out = None \<and> (outCreated out \<noteq> None \<longrightarrow> outClosed out) \<and> (\<forall>w. e \<noteq> WidgetDuplicate w)
      | None \<Rightarrow>
          \<exists>sid. outCreated out = Some sid \<and> map_of (sessions st) sid = None \<and>
            map_of (sessions (outStorage out)) sid = Some (length (accesses st)) \<and>
            (if None \<in> set (outErrs out)
             then outSession out = Some sid \<and> \<not> outClosed out \<and> saClosed (access (outStorage out) (length (accesses st))) = 0
             else outSession out = None \<and> outClosed out \<and> saClosed (access (outStorage out) (length (accesses st))) = 1))"

lemma fail_ok:
  "\<forall>w. e \<noteq> WidgetDuplicate w \<Longrightarrow> outcome_ok st (fail_before st e)"
  "\<forall>w. e \<noteq> WidgetDuplicate w \<Longrightarrow> outcome_ok st (fail_after st sid e)"
  by (simp_all add: outcome_ok_def fail_before_def fail_after_def MaybeCleanup_def close_created_def)

lemma finish_ok: "outcome_ok st (finish_session st sid errs)"
proof (cases "AddRenderSession st sid")
  case (Inl e)
  then show ?thesis by (simp add: finish_session_def fail_ok)
next
  case (Inr st')
  then show ?thesis
    by (auto simp: finish_session_def outcome_ok_def MaybeCleanup_def CancelCleanup_def close_created_def Let_def
        AddRenderSession_def Close_def on_access_def update_conv' split: if_splits)
qed

lemma run_session_ok: "outcome_ok st (run_session R st content spec renderers errs vis sid)"
  using widgets_resolve [of "reDecodeWidget R" vis]
  by (auto simp: run_session_def fail_ok finish_ok split: option.splits sum.splits) (metis sum.distinct(1))

text \<open>
  C10. Starting a session: if an error is reported, the storage is unchanged and a session that was
  created before has been closed, and the error is never one about duplicate widgets. Otherwise the
  new session is in the storage, under an ID that was free; it is returned, open, exactly if at
  least one renderer ended without an error. If every renderer failed, no session is returned and
  the session is closed, but it stays in the storage.
\<close>

theorem StartRenderSession_outcome:
  assumes "StartRenderSession R (Some st) selection configs vis = Some out"
  shows "case outError out of
      Some e \<Rightarrow> outStorage out = st \<and> outSession out = None \<and> (outCreated out \<noteq> None \<longrightarrow> outClosed out) \<and> (\<forall>w. e \<noteq> WidgetDuplicate w)
    | None \<Rightarrow>
        \<exists>sid. outCreated out = Some sid \<and> map_of (sessions st) sid = None \<and>
          map_of (sessions (outStorage out)) sid = Some (length (accesses st)) \<and>
          (if None \<in> set (outErrs out)
           then outSession out = Some sid \<and> \<not> outClosed out \<and> saClosed (access (outStorage out) (length (accesses st))) = 0
           else outSession out = None \<and> outClosed out \<and> saClosed (access (outStorage out) (length (accesses st))) = 1)"
proof -
  have "outcome_ok st out"
    using assms
    by (auto simp: StartRenderSession_def Let_def fail_ok run_session_ok split: option.splits sum.splits prod.splits)
  then show ?thesis by (simp add: outcome_ok_def)
qed

definition example_env :: "init_result \<Rightarrow> render_env" where
  "example_env res =
     \<lparr>reEnv = \<lparr>glob_match = (\<lambda>_ _. None), fs_stat = (\<lambda>_. Inl NotExist), fs_readdir = (\<lambda>_. Inl NotExist), fs_walk = (\<lambda>_. []),
               sort_migrations = insertion_sort_desc, sort_components = (\<lambda>x. x)\<rparr>,
      reRuns = \<lparr>rsLoad = (\<lambda>r. Inr (NewOnDiskModel ''/runs/r'' None)), rsAbs = (\<lambda>p. Inr p), rsRerender = True,
                rsNewFS = (\<lambda>_. None), rsRenderID = (\<lambda>_. Inr ''id'')\<rparr>,
      reSort = (\<lambda>x. x), reRegistry = None,
      reDecode = (\<lambda>_. (on [], None)), reDecodeWidget = (\<lambda>_. Inr []),
      reFactory = \<lparr>fNew = (\<lambda>_. (plain_renderer res, None)), fConfigure = (\<lambda>r i j. (r, None))\<rparr>,
      reNewSession = (\<lambda>_. Inr ''s1''), reDrop = (\<lambda>_ _. True)\<rparr>"

definition example_start :: "init_result \<Rightarrow> start_outcome" where
  "example_start res = the (StartRenderSession (example_env res) (Some NewSessionStorage) [''run''] [cfg ''a''] [])"

theorem StartRenderSession_outcome_witness:
  "outSession (example_start InitOk) = Some ''s1'' \<and> outSession (example_start (InitError ''x'')) = None \<and>
   map_of (sessions (outStorage (example_start (InitError ''x'')))) ''s1'' = Some 0 \<and>
   saClosed (access (outStorage (example_start (InitError ''x''))) 0) = 1"
proof -
  have run: "StartRenderSession (example_env res) (Some NewSessionStorage) [''run''] [cfg ''a''] [] = Some (example_start res)" for res
    by (simp add: example_start_def StartRenderSession_def)
  note out = StartRenderSession_outcome [OF run]
  have "outError (example_start InitOk) = None" "outCreated (example_start InitOk) = Some ''s1''"
    "outErrs (example_start InitOk) = [None]" by code_simp+
  then have ok: "outSession (example_start InitOk) = Some ''s1''" using out [of InitOk] by auto
  have "outError (example_start (InitError ''x'')) = None" "outCreated (example_start (InitError ''x'')) = Some ''s1''"
    "outErrs (example_start (InitError ''x'')) = [Some (InitializeFailed ''a'' ''x'')]" by code_simp+
  then show ?thesis using ok out [of "InitError ''x''"] by (auto simp: NewSessionStorage_def)
qed

end
