(* ===== verification/RunMetadata.thy ===== *)
theory RunMetadata
  imports GoLib "HOL-Library.Word"
begin

text \<open>
  The metadata of a run (core/apap-engine/cdf/metadata.go), the results of a run (run/run_result.go) and
  the size that is recorded in the metadata (\<open>adjustSizeForMetadata\<close> of run/run.go). Recording the
  size changes the size of the file it is recorded in; the correction is shown to be exact. Fields
  that no modelled operation looks into hold their JSON text. A time is a number of seconds since
  1970. The quoting of JSON strings and the format of times are parameters of the encoding.
\<close>

section \<open>Metadata\<close>

record Metadata =
  EngineVersion :: string
  mdName :: string
  StartTime :: int
  EndTime :: int
  RecipeName :: string
  Parameters :: string
  WorkloadType :: string
  Cmdline :: string
  WorkingDir :: string
  mdEnv :: string
  UseShell :: string
  AndroidPackageName :: string
  AndroidActivityName :: string
  Pid :: int
  Timeout :: int
  mdRunResult :: string
  RunError :: string
  SizeBytes :: "64 word option"
  TargetName :: string
  TargetConfig :: string
  SupportsStop :: "bool option"

text \<open>\<open>util.InvalidTime\<close>: the zero time of Go, the first second of the year 1.\<close>

definition InvalidTime :: int where
  "InvalidTime = - 62135596800"

definition json_field :: "string \<Rightarrow> string \<Rightarrow> string" where
  "json_field name text = [CHR 0x22] @ name @ [CHR 0x22] @ '':'' @ text"

text \<open>\<open>EncodeJSON\<close> of the metadata: the fields in their order, without those that \<open>omitempty\<close> drops.\<close>

definition fields_before_size :: "(string \<Rightarrow> string) \<Rightarrow> (int \<Rightarrow> string) \<Rightarrow> Metadata \<Rightarrow> string list" where
  "fields_before_size q rfc md =
     [json_field ''engine.version'' (q (EngineVersion md)), json_field ''run.name'' (q (mdName md)),
      json_field ''run.start_time'' (q (rfc (StartTime md))), json_field ''run.end_time'' (q (rfc (EndTime md))),
      json_field ''run.recipe_name'' (q (RecipeName md)), json_field ''run.parameters'' (Parameters md),
      json_field ''run.workload.type'' (q (WorkloadType md)), json_field ''run.workload.cmdline'' (q (Cmdline md)),
      json_field ''run.workload.working_dir'' (q (WorkingDir md)), json_field ''run.workload.env'' (mdEnv md),
      json_field ''run.workload.use_shell'' (UseShell md)]
     @ (if AndroidPackageName md = [] then [] else [json_field ''run.workload.android.package_name'' (q (AndroidPackageName md))])
     @ (if AndroidActivityName md = [] then [] else [json_field ''run.workload.android.activity_name'' (q (AndroidActivityName md))])
     @ [json_field ''run.workload.pid'' (Itoa (Pid md)), json_field ''run.timeout'' (Itoa (Timeout md)),
        json_field ''run.result'' (q (mdRunResult md)), json_field ''run.error'' (q (RunError md))]"

definition fields_after_size :: "(string \<Rightarrow> string) \<Rightarrow> Metadata \<Rightarrow> string list" where
  "fields_after_size q md =
     [json_field ''target.name'' (q (TargetName md)), json_field ''target.config'' (TargetConfig md)]
     @ (case SupportsStop md of None \<Rightarrow> [] | Some b \<Rightarrow> [json_field ''run.supports_stop'' (if b then ''true'' else ''false'')])"

definition metadata_json :: "(string \<Rightarrow> string) \<Rightarrow> (int \<Rightarrow> string) \<Rightarrow> Metadata \<Rightarrow> string" where
  "metadata_json q rfc md =
     ''{'' @ Join (fields_before_size q rfc md
       @ (case SizeBytes md of None \<Rightarrow> [] | Some n \<Rightarrow> [json_field ''run.size_bytes'' (Itoa (uint n))])
       @ fields_after_size q md) '','' @ ''}''"

section \<open>Results of a run\<close>

abbreviation RecipeSuccess :: string where "RecipeSuccess \<equiv> ''success''"
abbreviation RecipeInProgress :: string where "RecipeInProgress \<equiv> ''in_progress''"
abbreviation RecipeInProgressPhase1Complete :: string where
  "RecipeInProgressPhase1Complete \<equiv> ''in_progress_phase1_complete''"
abbreviation RecipeFailureRetrievePhase1Complete :: string where
  "RecipeFailureRetrievePhase1Complete \<equiv> ''failure_retrieve_output_files_phase1_complete''"
abbreviation RecipeFailureIncomplete :: string where
  "RecipeFailureIncomplete \<equiv> ''failure_incomplete_run''"
abbreviation RecipeFailureIncompletePhase1Complete :: string where
  "RecipeFailureIncompletePhase1Complete \<equiv> ''failure_incomplete_run_phase1_complete''"

definition RecipeResultIsFailure :: "string \<Rightarrow> bool" where
  "RecipeResultIsFailure r = HasPrefix r ''failure_''"

definition RecipeResultIsRunning :: "string \<Rightarrow> bool" where
  "RecipeResultIsRunning r = (r = RecipeInProgress)"

definition RecipeResultIsCompletingTransfer :: "string \<Rightarrow> bool" where
  "RecipeResultIsCompletingTransfer r = (r = RecipeInProgressPhase1Complete)"

definition RecipeResultIsInProgress :: "string \<Rightarrow> bool" where
  "RecipeResultIsInProgress r = (RecipeResultIsRunning r \<or> RecipeResultIsCompletingTransfer r)"

definition RecipeResultIsRenderable :: "string \<Rightarrow> bool" where
  "RecipeResultIsRenderable r =
     (r \<in> set [RecipeSuccess, RecipeInProgressPhase1Complete, RecipeFailureRetrievePhase1Complete,
               RecipeFailureIncompletePhase1Complete])"

definition RecipeResultShouldShowFailure :: "string \<Rightarrow> bool" where
  "RecipeResultShouldShowFailure r = (RecipeResultIsFailure r \<and> \<not> RecipeResultIsRenderable r)"

section \<open>The recorded size\<close>

datatype size_error = SizeTooLarge | SizeBelowZero

text \<open>The number of digits of a 64-bit number printed with \<open>%d\<close>.\<close>

definition digits_of :: "64 word \<Rightarrow> int" where
  "digits_of n = int (length (Itoa (uint n)))"

definition digit_change :: "64 word \<Rightarrow> 64 word \<Rightarrow> 64 word" where
  "digit_change newSizeBytes adjusted =
     (let digitChange = digits_of adjusted - digits_of newSizeBytes
      in if digitChange > 0 then adjusted + 1 else if digitChange < 0 then adjusted - 1 else adjusted)"

definition adjustSizeForMetadata :: "Metadata \<Rightarrow> 64 word \<Rightarrow> size_error + 64 word" where
  "adjustSizeForMetadata md newSizeBytes =
     (case SizeBytes md of
        None \<Rightarrow>
          Inr (digit_change newSizeBytes
            (newSizeBytes + of_nat (length (json_field ''run.size_bytes'' (Itoa (uint newSizeBytes)) @ '',''))))
      | Some old \<Rightarrow>
         (let diff = digits_of newSizeBytes - digits_of old
          in if diff > 0 then
               (let convertedDiff = word_of_int diff
                in if convertedDiff > - 1 - newSizeBytes then Inl SizeTooLarge
                   else Inr (digit_change newSizeBytes (newSizeBytes + convertedDiff)))
             else if diff < 0 then
               (let absDiff = word_of_int (- diff)
                in if absDiff > newSizeBytes then Inl SizeBelowZero
                   else Inr (digit_change newSizeBytes (newSizeBytes - absDiff)))
             else Inr newSizeBytes))"

section \<open>Digits\<close>

definition dlen :: "nat \<Rightarrow> nat" where
  "dlen n = length (nat_digits n)"

lemma digits_of_dlen: "digits_of n = int (dlen (unat n))"
  by (simp add: digits_of_def dlen_def Itoa_def)

lemma dlen_rec: "dlen n = (if n < 10 then 1 else Suc (dlen (n div 10)))"
  by (subst dlen_def, subst nat_digits.simps) (simp add: dlen_def)

lemma dlen_pos: "dlen n \<ge> 1"
  by (subst dlen_rec) simp

lemma dlen_bounds: "n < 10 ^ dlen n \<and> (n \<ge> 10 \<longrightarrow> 10 ^ (dlen n - 1) \<le> n)"
proof (induction n rule: nat_digits.induct)
  case (1 n)
  show ?case
  proof (cases "n < 10")
    case True
    then show ?thesis by (simp add: dlen_rec [of n])
  next
    case False
    let ?k = "dlen (n div 10)"
    from 1 [OF False] have IH: "n div 10 < 10 ^ ?k" "n div 10 \<ge> 10 \<longrightarrow> 10 ^ (?k - 1) \<le> n div 10" by auto
    have lo: "10 ^ (?k - 1) \<le> n div 10"
      using IH(2) False by (cases "n div 10 \<ge> 10") (auto simp: dlen_rec [of "n div 10"])
    have "10 * 10 ^ (?k - 1) \<le> n" using lo by linarith
    moreover have "10 * 10 ^ (?k - 1) = (10::nat) ^ ?k"
      using dlen_pos [of "n div 10"] by (metis Suc_pred' less_eq_Suc_le One_nat_def power_Suc)
    moreover have "n < 10 * 10 ^ ?k" using IH(1) by linarith
    ultimately show ?thesis using False by (simp add: dlen_rec [of n])
  qed
qed

lemma dlen_eqI: "10 ^ d \<le> n \<Longrightarrow> n < 10 ^ Suc d \<Longrightarrow> d \<ge> 1 \<Longrightarrow> dlen n = Suc d"
proof -
  assume a: "10 ^ d \<le> n" "n < 10 ^ Suc d" "d \<ge> 1"
  have "n \<ge> 10" using a(1,3) self_le_power [of 10 d] by (metis le_trans One_nat_def one_le_numeral zero_less_one_class.zero_le_one Suc_le_eq)
  with dlen_bounds [of n] have b: "n < 10 ^ dlen n" "10 ^ (dlen n - 1) \<le> n" by auto
  have "d < dlen n" using a(1) b(1) by (meson le_less_trans nat_power_less_imp_less zero_less_numeral)
  moreover have "dlen n - 1 < Suc d" using a(2) b(2) by (meson le_less_trans nat_power_less_imp_less zero_less_numeral)
  ultimately show ?thesis by linarith
qed

text \<open>The number of digits near a number of at least three digits.\<close>

lemma dlen_near:
  assumes "x \<ge> 100" and "y \<le> x + 40" and "x \<le> y + 40"
  obtains d where "d \<ge> 2" and "dlen x = Suc d" and "10 ^ d \<le> x" and "x < 10 * 10 ^ d"
    and "dlen y = (if y < 10 ^ d then d else if y < 10 * 10 ^ d then Suc d else Suc (Suc d))" and "(100::nat) \<le> 10 ^ d"
proof -
  define d where "d = dlen x - 1"
  have dx: "dlen x = Suc d" using dlen_pos [of x] by (simp add: d_def)
  have b: "10 ^ d \<le> x" "x < 10 * 10 ^ d" using dlen_bounds [of x] assms(1) dx by auto
  have "d \<ge> 2"
  proof (rule ccontr)
    assume "\<not> d \<ge> 2"
    then consider "d = 0" | "d = 1" by linarith
    then have "(10::nat) * 10 ^ d \<le> 100" by cases auto
    with b(2) assms(1) show False by simp
  qed
  then obtain e where e: "d = Suc (Suc e)" by (metis Suc_le_D numeral_2_eq_2 Suc_le_mono)
  have e1: "(1::nat) \<le> 10 ^ e" by simp
  have b': "10 * (10 * 10 ^ e) \<le> x" "x < 10 * (10 * (10 * 10 ^ e))" using b by (simp_all add: e)
  have y: "y < 10 * (10 * (10 * (10 * 10 ^ e)))" "10 * 10 ^ e \<le> y"
    using b' assms e1 by linarith+
  have "dlen y = (if y < 10 ^ d then d else if y < 10 * 10 ^ d then Suc d else Suc (Suc d))"
    using y dlen_eqI [of "Suc e" y] dlen_eqI [of d y] dlen_eqI [of "Suc d" y] by (auto simp: e)
  moreover have "(100::nat) \<le> 10 ^ d" using e1 unfolding e by simp
  ultimately show thesis using that \<open>d \<ge> 2\<close> dx b by blast
qed

lemma dlen_grow:
  assumes "x \<ge> 100" and "k \<le> 38"
  shows "dlen (x + k) = dlen x \<or> dlen (x + k) = Suc (dlen x) \<and> dlen (x + k + 1) = Suc (dlen x)"
proof -
  from assms obtain d where d: "dlen x = Suc d" "x < 10 * 10 ^ d" "10 ^ d \<le> x" "(100::nat) \<le> 10 ^ d"
    and y: "dlen (x + k) = (if x + k < 10 ^ d then d else if x + k < 10 * 10 ^ d then Suc d else Suc (Suc d))"
    by (elim dlen_near [of x "x + k"]) auto
  show ?thesis
  proof (cases "x + k < 10 * 10 ^ d")
    case True
    with y d show ?thesis by simp
  next
    case False
    then have "dlen (x + k + 1) = Suc (Suc d)" using d assms(2) by (intro dlen_eqI) auto
    with y d False show ?thesis by simp
  qed
qed

lemma dlen_shrink:
  assumes "x \<ge> 100" and "k \<le> 20"
  shows "dlen (x - k) = dlen x \<or> Suc (dlen (x - k)) = dlen x \<and> Suc (dlen (x - k - 1)) = dlen x"
proof -
  from assms obtain d where d: "d \<ge> 2" "dlen x = Suc d" "x < 10 * 10 ^ d" "10 ^ d \<le> x" "(100::nat) \<le> 10 ^ d"
    and y: "dlen (x - k) = (if x - k < 10 ^ d then d else if x - k < 10 * 10 ^ d then Suc d else Suc (Suc d))"
    by (elim dlen_near [of x "x - k"]) auto
  show ?thesis
  proof (cases "x - k < 10 ^ d")
    case True
    obtain e where e: "d = Suc (Suc e)" using d(1) by (metis Suc_le_D numeral_2_eq_2 Suc_le_mono)
    have e1: "(1::nat) \<le> 10 ^ e" by simp
    have "10 * (10 * 10 ^ e) \<le> x" using d(4) by (simp add: e)
    then have "10 * 10 ^ e + k + 1 \<le> x" using e1 assms(2) by linarith
    with True have "dlen (x - k - 1) = Suc (Suc e)"
      unfolding e by (intro dlen_eqI) auto
    with y d e True show ?thesis by simp
  next
    case False
    with y d show ?thesis by auto
  qed
qed

lemma dlen_le_20: "dlen (unat (n :: 64 word)) \<le> 20"
proof (rule ccontr)
  assume large: "\<not> ?thesis"
  then have "(10::nat) ^ 20 \<le> 10 ^ (dlen (unat n) - 1)" by (intro power_increasing) auto
  moreover have "unat n \<ge> 10" using large dlen_rec [of "unat n"] by (cases "unat n < 10") auto
  ultimately have "(10::nat) ^ 20 \<le> unat n" using dlen_bounds [of "unat n"] by linarith
  moreover have "unat n < 2 ^ 64" using unsigned_less [where ?'a = nat, of n] by simp
  ultimately show False by simp
qed

section \<open>The correction is exact\<close>

lemma length_Join: "length (Join xs '','') = (\<Sum>x\<leftarrow>xs. Suc (length x)) - 1"
  by (induction xs "'',''" rule: Join.induct) auto

lemma metadata_json_size:
  "length (metadata_json q rfc (md\<lparr>SizeBytes := Some n\<rparr>)) =
     length (metadata_json q rfc (md\<lparr>SizeBytes := None\<rparr>)) + 18 + dlen (unat n)"
  by (simp add: metadata_json_def fields_before_size_def fields_after_size_def length_Join json_field_def dlen_def
      Itoa_def sum_list_append)

lemma metadata_json_large: "length (metadata_json q rfc md) \<ge> 120"
  by (simp add: metadata_json_def fields_before_size_def length_Join json_field_def sum_list_append)

lemma unat_add_small: "unat (a :: 64 word) + k < 2 ^ 64 \<Longrightarrow> unat (a + of_nat k) = unat a + k"
  by (simp add: unat_word_ariths unsigned_of_nat take_bit_eq_mod)

lemma digit_change_grow:
  assumes "unat n \<ge> 100" and "k \<le> 38" and "unat n + 64 < 2 ^ 64" and "a0 = n + of_nat k"
  shows "unat (digit_change n a0) + dlen (unat n) = unat n + k + dlen (unat (digit_change n a0))"
proof -
  have a0: "unat a0 = unat n + k" using assms by (simp add: unat_add_small)
  have a1: "unat (a0 + 1) = unat n + k + 1" using unat_add_small [of a0 1] a0 assms(2,3) by simp
  from dlen_grow [OF assms(1,2)] show ?thesis
    by (auto simp: digit_change_def Let_def digits_of_dlen a0 a1)
qed

lemma digit_change_shrink:
  assumes "unat n \<ge> 100" and "k \<le> 20" and "a0 = n - of_nat k"
  shows "unat (digit_change n a0) + dlen (unat n) + k = unat n + dlen (unat (digit_change n a0))"
proof -
  have k: "unat (of_nat k :: 64 word) = k" using assms(2) by (simp add: unsigned_of_nat take_bit_eq_mod)
  have a0: "unat a0 = unat n - k"
    unfolding assms(3) using assms(1,2) by (subst unat_sub) (simp_all add: k word_le_nat_alt)
  have a1: "unat (a0 - 1) = unat n - k - 1"
    using assms(1,2) a0 by (subst unat_sub) (simp_all add: word_le_nat_alt)
  from dlen_shrink [OF assms(1,2)] show ?thesis
    using assms(1,2) by (auto simp: digit_change_def Let_def digits_of_dlen a0 a1)
qed

text \<open>
  The size that is recorded for a run is the size of the run once it is recorded: with the other files
  of the run unchanged, the metadata file that contains the new size makes up exactly that size,
  although its own length depends on it.
\<close>

theorem adjusted_size_exact:
  assumes "unat n = others + length (metadata_json q rfc md)" and "unat n + 64 < 2 ^ 64"
  shows "\<exists>a. adjustSizeForMetadata md n = Inr a \<and>
    unat a = others + length (metadata_json q rfc (md\<lparr>SizeBytes := Some a\<rparr>))"
proof -
  let ?len = "\<lambda>md. length (metadata_json q rfc md)"
  have big: "unat n \<ge> 100" using metadata_json_large [of q rfc md] assms(1) by simp
  show ?thesis
  proof (cases "SizeBytes md")
    case None
    then have md: "md\<lparr>SizeBytes := None\<rparr> = md" by simp
    let ?k = "18 + dlen (unat n)"
    define a where "a = digit_change n (n + of_nat ?k)"
    have "adjustSizeForMetadata md n = Inr a"
      using None by (simp add: adjustSizeForMetadata_def a_def json_field_def dlen_def Itoa_def)
    moreover have "unat a + dlen (unat n) = unat n + ?k + dlen (unat a)"
      unfolding a_def using big assms(2) dlen_le_20 [of n] by (intro digit_change_grow) auto
    ultimately show ?thesis using assms(1) metadata_json_size [of q rfc a md] md by auto
  next
    case (Some old)
    then have md: "md\<lparr>SizeBytes := Some old\<rparr> = md" by simp
    let ?dn = "dlen (unat n)" and ?do = "dlen (unat old)"
    have lens: "?len md = ?len (md\<lparr>SizeBytes := None\<rparr>) + 18 + ?do"
      using metadata_json_size [of q rfc old md] md by simp
    have exact: ?thesis if "adjustSizeForMetadata md n = Inr a" "unat a + ?do = unat n + dlen (unat a)" for a
      using that assms(1) lens metadata_json_size [of q rfc a md] by auto
    consider "?dn > ?do" | "?dn < ?do" | "?dn = ?do" by linarith
    then show ?thesis
    proof cases
      case 1
      define k where "k = ?dn - ?do"
      have k: "k \<le> 20" "int ?dn - int ?do = int k" using 1 dlen_le_20 [of n] by (auto simp: k_def)
      have "unat (- 1 - n) = 2 ^ 64 - 1 - unat n"
        using unsigned_less [where ?'a = nat, of n]
        by (subst unat_sub) (simp_all add: word_le_nat_alt unsigned_minus_1_eq_mask mask_eq_exp_minus_1)
      then have "\<not> - 1 - n < of_nat k"
        using k(1) assms(2) by (simp add: word_less_nat_alt unsigned_of_nat take_bit_eq_mod)
      then have "adjustSizeForMetadata md n = Inr (digit_change n (n + of_nat k))"
        using Some 1 k(2) by (simp add: adjustSizeForMetadata_def digits_of_dlen)
      moreover have "unat (digit_change n (n + of_nat k)) + ?dn = unat n + k + dlen (unat (digit_change n (n + of_nat k)))"
        using big k assms(2) by (intro digit_change_grow) auto
      ultimately show ?thesis using 1 by (intro exact) (auto simp: k_def)
    next
      case 2
      define k where "k = ?do - ?dn"
      have k: "k \<le> 20" "- (int ?dn - int ?do) = int k" using 2 dlen_le_20 [of old] by (auto simp: k_def)
      have "\<not> n < of_nat k"
        using k(1) big by (simp add: word_less_nat_alt unsigned_of_nat take_bit_eq_mod)
      then have "adjustSizeForMetadata md n = Inr (digit_change n (n - of_nat k))"
        using Some 2 k(2) by (simp add: adjustSizeForMetadata_def digits_of_dlen)
      moreover have "unat (digit_change n (n - of_nat k)) + ?dn + k = unat n + dlen (unat (digit_change n (n - of_nat k)))"
        using big k by (intro digit_change_shrink) auto
      ultimately show ?thesis using 2 by (intro exact) (auto simp: k_def)
    next
      case 3
      then show ?thesis using Some by (intro exact) (auto simp: adjustSizeForMetadata_def digits_of_dlen)
    qed
  qed
qed

end
