(* ===== verification/RunFS.thy ===== *)
theory RunFS
  imports Manifest RunMetadata "HOL-Library.AList" "HOL-Library.Sublist" "HOL-Library.List_Lexorder" "HOL-Library.Char_ord"
begin

text \<open>
  The file system as the run collection uses it: what the code asks of packages \<open>os\<close> and
  \<open>path/filepath\<close>, of the file locks, and of the JSON files (core/apap-engine/util/json.go and
  \<open>PathExists\<close> of util/path.go). A path denotes the list of components it resolves to; a file system
  without links is an association list from these to nodes. A JSON file that the engine wrote holds
  the value it encodes; other files hold bytes. Everything that can fail does so as an environment says: a write may
  fail before the file is opened or leave it torn, a removal may stop half way, and a lock may be
  held by another process.
\<close>

section \<open>Nodes\<close>

record RunCategorization =
  Group :: string
  Tags :: "string list"

datatype content =
  MetadataFile Metadata
| ManifestFile Manifest
| CategorizationFile RunCategorization
| SourcePathsFile "string list"
| BytesFile string

datatype node = DirNode | FileNode content

type_synonym fs = "(string list \<times> node) list"

definition resolve :: "string \<Rightarrow> string list" where
  "resolve p = path_comps (Clean p)"

definition node_at :: "fs \<Rightarrow> string \<Rightarrow> node option" where
  "node_at f p = map_of f (resolve p)"

section \<open>What can fail\<close>

datatype fault = NoFault | OpenFault | Torn string

record run_env =
  statErr :: "string \<Rightarrow> bool"
  writeFault :: "string \<Rightarrow> fault"
  mkdirErr :: "string \<Rightarrow> bool"
  removeFault :: "string \<Rightarrow> (string list \<Rightarrow> bool) option"
  busy :: "bool \<Rightarrow> string \<Rightarrow> bool"
  walkErr :: "string \<Rightarrow> bool"
  parseMetadata :: "string \<Rightarrow> Metadata option"
  parseManifest :: "string \<Rightarrow> Manifest option"
  parseCategorization :: "string \<Rightarrow> RunCategorization option"
  quoteJSON :: "string \<Rightarrow> string"
  formatTime :: "int \<Rightarrow> string"
  sizeOf :: "content \<Rightarrow> int"
  now :: int

section \<open>Operations\<close>

text \<open>\<open>PathExists\<close>; \<open>None\<close> is an error other than that the path does not exist.\<close>

definition PathExists :: "run_env \<Rightarrow> fs \<Rightarrow> string \<Rightarrow> bool option" where
  "PathExists E f p = (if statErr E p then None else Some (node_at f p \<noteq> None))"

definition put :: "string \<Rightarrow> node \<Rightarrow> fs \<Rightarrow> fs" where
  "put p n f = AList.update (resolve p) n f"

text \<open>A file can be written where no directory is and whose directory exists.\<close>

definition writable :: "fs \<Rightarrow> string \<Rightarrow> bool" where
  "writable f p \<longleftrightarrow> resolve p \<noteq> [] \<and> node_at f p \<noteq> Some DirNode \<and> map_of f (butlast (resolve p)) = Some DirNode"

definition WriteJSONFile :: "run_env \<Rightarrow> fs \<Rightarrow> string \<Rightarrow> content \<Rightarrow> bool \<times> fs" where
  "WriteJSONFile E f p c =
     (if \<not> writable f p then (False, f)
      else case writeFault E p of
             NoFault \<Rightarrow> (True, put p (FileNode c) f)
           | OpenFault \<Rightarrow> (False, f)
           | Torn bytes \<Rightarrow> (False, put p (FileNode (BytesFile bytes)) f))"

text \<open>The atomic write fails without a trace: its temporary file is removed.\<close>

definition WriteJSONFileAtomic :: "run_env \<Rightarrow> fs \<Rightarrow> string \<Rightarrow> content \<Rightarrow> bool \<times> fs" where
  "WriteJSONFileAtomic E f p c =
     (if \<not> writable f p then (False, f)
      else case writeFault E p of
             NoFault \<Rightarrow> (True, put p (FileNode c) f)
           | _ \<Rightarrow> (False, f))"

definition make_dirs :: "string list list \<Rightarrow> fs \<Rightarrow> fs" where
  "make_dirs ks f = foldl (\<lambda>f k. if map_of f k = None then AList.update k DirNode f else f) f ks"

definition MkdirAll :: "run_env \<Rightarrow> fs \<Rightarrow> string \<Rightarrow> bool \<times> fs" where
  "MkdirAll E f p =
     (if mkdirErr E p \<or> list_ex (\<lambda>k. map_of f k \<noteq> None \<and> map_of f k \<noteq> Some DirNode) (prefixes (resolve p)) then (False, f)
      else (True, make_dirs (prefixes (resolve p)) f))"

definition Mkdir :: "run_env \<Rightarrow> fs \<Rightarrow> string \<Rightarrow> bool \<times> fs" where
  "Mkdir E f p =
     (if mkdirErr E p \<or> node_at f p \<noteq> None \<or> resolve p = [] \<or> map_of f (butlast (resolve p)) \<noteq> Some DirNode then (False, f)
      else (True, put p DirNode f))"

text \<open>\<open>os.RemoveAll\<close>; when it fails, some of what is below the path may be left.\<close>

definition RemoveAll :: "run_env \<Rightarrow> fs \<Rightarrow> string \<Rightarrow> bool \<times> fs" where
  "RemoveAll E f p =
     (case removeFault E p of
        None \<Rightarrow> (True, filter (\<lambda>(k, n). \<not> prefix (resolve p) k) f)
      | Some left \<Rightarrow> (False, filter (\<lambda>(k, n). prefix (resolve p) k \<longrightarrow> left k) f))"

text \<open>\<open>os.ReadDir\<close>: the entries of a directory sorted by name, with whether they are directories.\<close>

definition ReadDir :: "run_env \<Rightarrow> fs \<Rightarrow> string \<Rightarrow> (string \<times> bool) list option" where
  "ReadDir E f p =
     (if statErr E p \<or> node_at f p \<noteq> Some DirNode then None
      else Some (map (\<lambda>n. (n, map_of f (resolve p @ [n]) = Some DirNode))
             (sort (remdups (map (last \<circ> fst) (filter (\<lambda>(k, n). k \<noteq> [] \<and> butlast k = resolve p) f))))))"

section \<open>JSON files\<close>

definition zero_metadata :: Metadata where
  "zero_metadata =
     \<lparr>EngineVersion = [], mdName = [], StartTime = InvalidTime, EndTime = InvalidTime, RecipeName = [], Parameters = ''null'',
      WorkloadType = [], Cmdline = [], WorkingDir = [], mdEnv = ''null'', UseShell = ''false'', AndroidPackageName = [],
      AndroidActivityName = [], Pid = 0, Timeout = 0, mdRunResult = [], RunError = [], SizeBytes = None, TargetName = [],
      TargetConfig = ''{}'', SupportsStop = None\<rparr>"

text \<open>
  \<open>ReadJSONFile\<close>: an empty file is the zero value, and so is the encoding of a type that has no
  field in common.
\<close>

definition decode_metadata :: "run_env \<Rightarrow> content \<Rightarrow> Metadata option" where
  "decode_metadata E c =
     (case c of
        MetadataFile m \<Rightarrow> Some m
      | BytesFile bytes \<Rightarrow> (if bytes = [] then Some zero_metadata else parseMetadata E bytes)
      | _ \<Rightarrow> Some zero_metadata)"

definition decode_manifest :: "run_env \<Rightarrow> content \<Rightarrow> Manifest option" where
  "decode_manifest E c =
     (case c of
        ManifestFile m \<Rightarrow> Some m
      | BytesFile bytes \<Rightarrow> (if bytes = [] then Some \<lparr>Entries = [], ToolsUsed = []\<rparr> else parseManifest E bytes)
      | _ \<Rightarrow> Some \<lparr>Entries = [], ToolsUsed = []\<rparr>)"

definition decode_categorization :: "run_env \<Rightarrow> content \<Rightarrow> RunCategorization option" where
  "decode_categorization E c =
     (case c of
        CategorizationFile m \<Rightarrow> Some m
      | BytesFile bytes \<Rightarrow> (if bytes = [] then Some \<lparr>Group = [], Tags = []\<rparr> else parseCategorization E bytes)
      | _ \<Rightarrow> Some \<lparr>Group = [], Tags = []\<rparr>)"

definition read_file :: "run_env \<Rightarrow> fs \<Rightarrow> string \<Rightarrow> (content \<Rightarrow> 'a option) \<Rightarrow> 'a option" where
  "read_file E f p decode =
     (if statErr E p then None
      else case node_at f p of Some (FileNode c) \<Rightarrow> decode c | _ \<Rightarrow> None)"

section \<open>Lemmas\<close>

lemma map_of_put [simp]: "map_of (put p n f) k = (if k = resolve p then Some n else map_of f k)"
  by (simp add: put_def update_conv')

lemma keys_put [simp]: "distinct (map fst f) \<Longrightarrow> distinct (map fst (put p n f))"
  by (simp add: put_def distinct_update)

lemma map_of_filter_key: "map_of (filter (\<lambda>(k, n). P k) f) k = (if P k then map_of f k else None)"
  by (induction f) auto

lemma make_dirs_other: "map_of f k \<noteq> None \<Longrightarrow> map_of (make_dirs ks f) k = map_of f k"
proof (induction ks arbitrary: f)
  case (Cons k' ks)
  then show ?case by (auto simp: make_dirs_def update_conv' split: if_splits)
qed (simp add: make_dirs_def)

lemma make_dirs_outside: "k \<notin> set ks \<Longrightarrow> map_of (make_dirs ks f) k = map_of f k"
  by (induction ks arbitrary: f) (auto simp: make_dirs_def update_conv')

text \<open>Joining a plain name to a directory.\<close>

lemma Split_plain: "plain_comp x \<Longrightarrow> Split x (CHR ''/'') = [x]"
  by (rule Split_no_sep) (simp add: plain_comp_def)

lemma PathJoin_slash: "b \<noteq> [] \<Longrightarrow> HasPrefix (b @ ''/'' @ x) ''/'' = HasPrefix b ''/''"
  by (cases b) auto

lemma resolve_PathJoin: "b \<noteq> [] \<Longrightarrow> plain_comp x \<Longrightarrow> resolve (PathJoin b x) = resolve b @ [x]"
proof -
  assume b: "b \<noteq> []" and x: "plain_comp x"
  let ?r = "HasPrefix b ''/''"
  have "clean_stack ?r (b @ ''/'' @ x) = x # clean_stack ?r b"
    using x by (simp add: clean_stack_def Split_append_slash Split_plain clean_push_def) (simp add: plain_comp_def)
  then have "path_comps (Clean (b @ ''/'' @ x)) = path_comps (Clean b) @ [x]"
    unfolding path_comps_Clean PathJoin_slash [OF b] by simp
  then show ?thesis using b by (simp add: resolve_def PathJoin_def)
qed

lemma PathJoin_nonempty [simp]: "b \<noteq> [] \<Longrightarrow> PathJoin b x \<noteq> []"
  by (simp add: PathJoin_def)

end
