(* ===== verification/RunCollection.thy ===== *)
theory RunCollection
  imports RunFS PathRemap
begin

text \<open>
  The collection of runs on disk (core/apap-engine/run/run.go): where a run is stored, its locks and
  its lease, creation and deletion, the manifest and the metadata, and the updates of the metadata,
  among them the recorded size. An operation takes the environment, the collection and the file
  system, and returns its result and the new file system; an error is a constructor, its text is
  left out. Locks are held for the time of an operation, so all that is left of them is the file
  and whether another process holds it.
\<close>

section \<open>The collection\<close>

record RunCollection =
  primaryPath :: string
  allPaths :: "string list"

datatype run_error =
  RunDoesNotExist string
| RunBusy string
| CreateLockFailed string
| AlreadyExists
| CreateFailed
| ListFailed string
| ReadManifestFailed string
| ReadMetadataFailed string
| ReadCategorizationFailed string
| WriteFailed string
| UpdateMetadataFailed string
| UpdateCategorizationFailed string
| UpdateSourcePathsFailed string
| DeleteFailed
| NoNextRunID
| SizeFailed string
| InvalidGroup string
| InvalidTags "string list"
| AbsFailed

definition NewRunCollectionWithSecondaryPaths ::
  "(string \<Rightarrow> string option) \<Rightarrow> string \<Rightarrow> string list \<Rightarrow> run_error + RunCollection" where
  "NewRunCollectionWithSecondaryPaths absPath primary secondary =
     (case absPath primary of
        None \<Rightarrow> Inl AbsFailed
      | Some p \<Rightarrow>
          if list_ex (\<lambda>s. absPath s = None) secondary then Inl AbsFailed
          else Inr \<lparr>primaryPath = p, allPaths = p # map (the \<circ> absPath) secondary\<rparr>)"

fun base_loop :: "run_env \<Rightarrow> fs \<Rightarrow> string \<Rightarrow> string list \<Rightarrow> string option" where
  "base_loop E f run [] = None"
| "base_loop E f run (basePath # rest) =
     (case PathExists E f (PathJoin basePath run) of
        Some True \<Rightarrow> Some basePath
      | _ \<Rightarrow> base_loop E f run rest)"

definition runBasePath :: "run_env \<Rightarrow> RunCollection \<Rightarrow> fs \<Rightarrow> string \<Rightarrow> string \<times> bool" where
  "runBasePath E c f run =
     (case base_loop E f run (allPaths c) of Some b \<Rightarrow> (b, True) | None \<Rightarrow> (primaryPath c, False))"

fun exists_loop :: "run_env \<Rightarrow> fs \<Rightarrow> string \<Rightarrow> string list \<Rightarrow> bool" where
  "exists_loop E f run [] = False"
| "exists_loop E f run (basePath # rest) =
     (let runPath = PathJoin basePath run in
      if \<not> IsChildPath basePath runPath then False
      else case PathExists E f runPath of
             None \<Rightarrow> exists_loop E f run rest
           | Some True \<Rightarrow> True
           | Some False \<Rightarrow> exists_loop E f run rest)"

definition runExists :: "run_env \<Rightarrow> RunCollection \<Rightarrow> fs \<Rightarrow> string \<Rightarrow> bool" where
  "runExists E c f run = (run \<noteq> [] \<and> exists_loop E f run (allPaths c))"

definition GetRunPath :: "run_env \<Rightarrow> RunCollection \<Rightarrow> fs \<Rightarrow> string \<Rightarrow> string" where
  "GetRunPath E c f run = PathJoin (fst (runBasePath E c f run)) run"

definition getManifestPath :: "run_env \<Rightarrow> RunCollection \<Rightarrow> fs \<Rightarrow> string \<Rightarrow> string" where
  "getManifestPath E c f run = PathJoin (PathJoin (fst (runBasePath E c f run)) run) ''manifest.json''"

definition getMetadataPath :: "run_env \<Rightarrow> RunCollection \<Rightarrow> fs \<Rightarrow> string \<Rightarrow> string" where
  "getMetadataPath E c f run = PathJoin (PathJoin (fst (runBasePath E c f run)) run) ''metadata.json''"

definition getCategorizationPath :: "run_env \<Rightarrow> RunCollection \<Rightarrow> fs \<Rightarrow> string \<Rightarrow> string" where
  "getCategorizationPath E c f run = PathJoin (PathJoin (fst (runBasePath E c f run)) run) ''categorization.json''"

definition file_exists :: "run_env \<Rightarrow> RunCollection \<Rightarrow> fs \<Rightarrow> string \<Rightarrow> string \<Rightarrow> bool" where
  "file_exists E c f run name =
     (case runBasePath E c f run of (basePath, ok) \<Rightarrow>
        ok \<and> PathExists E f (PathJoin (PathJoin basePath run) name) = Some True)"

definition metadataExists :: "run_env \<Rightarrow> RunCollection \<Rightarrow> fs \<Rightarrow> string \<Rightarrow> bool" where
  "metadataExists E c f run = file_exists E c f run ''metadata.json''"

definition manifestExists :: "run_env \<Rightarrow> RunCollection \<Rightarrow> fs \<Rightarrow> string \<Rightarrow> bool" where
  "manifestExists E c f run = file_exists E c f run ''manifest.json''"

fun next_id_loop :: "run_env \<Rightarrow> RunCollection \<Rightarrow> fs \<Rightarrow> string list \<Rightarrow> nat \<Rightarrow> run_error + string" where
  "next_id_loop E c f uuids 0 = Inl NoNextRunID"
| "next_id_loop E c f [] (Suc n) = Inl NoNextRunID"
| "next_id_loop E c f (uuid # uuids) (Suc n) =
     (if length uuid \<noteq> 36 then next_id_loop E c f uuids n
      else let nextRunID = drop (length uuid - 12) uuid
           in if \<not> runExists E c f nextRunID \<and> length nextRunID = 12 then Inr nextRunID
              else next_id_loop E c f uuids n)"

text \<open>The UUIDs the generator returns are an argument.\<close>

definition getNextRunID :: "run_env \<Rightarrow> RunCollection \<Rightarrow> fs \<Rightarrow> string list \<Rightarrow> run_error + string" where
  "getNextRunID E c f uuids = next_id_loop E c f uuids 3"

definition EnsureRunsExist :: "run_env \<Rightarrow> RunCollection \<Rightarrow> fs \<Rightarrow> string list \<Rightarrow> run_error option" where
  "EnsureRunsExist E c f runIDs = map_option RunDoesNotExist (find (\<lambda>r. \<not> runExists E c f r) runIDs)"

section \<open>Locks and leases\<close>

definition path_Dir :: "string \<Rightarrow> string" where
  "path_Dir p = Clean (split_dir p)"

definition getLockDir :: "RunCollection \<Rightarrow> string \<Rightarrow> string" where
  "getLockDir c run = PathJoin (PathJoin (path_Dir (primaryPath c)) ''locks'') run"

text \<open>Taking a lock creates its file.\<close>

definition try_lock :: "run_env \<Rightarrow> RunCollection \<Rightarrow> fs \<Rightarrow> bool \<Rightarrow> string \<Rightarrow> string \<Rightarrow> run_error option \<times> fs" where
  "try_lock E c f shared run name =
     (case MkdirAll E f (getLockDir c run) of (ok, f1) \<Rightarrow>
        if \<not> ok then (Some (CreateLockFailed run), f1)
        else let p = PathJoin (getLockDir c run) name
             in if busy E shared p then (Some (RunBusy run), f1)
                else (None, if node_at f1 p = None then put p (FileNode (BytesFile [])) f1 else f1))"

definition lockRun :: "run_env \<Rightarrow> RunCollection \<Rightarrow> fs \<Rightarrow> string \<Rightarrow> bool \<Rightarrow> run_error option \<times> fs" where
  "lockRun E c f run shared =
     (if \<not> runExists E c f run then (Some (RunDoesNotExist run), f)
      else try_lock E c f shared run ''lockfile'')"

definition LeaseRun :: "run_env \<Rightarrow> RunCollection \<Rightarrow> fs \<Rightarrow> string \<Rightarrow> run_error option \<times> fs" where
  "LeaseRun E c f run =
     (if run = [] \<or> ContainsAny run (''./'' @ [CHR 0x5C]) then (Some (RunDoesNotExist run), f)
      else try_lock E c f False run ''leasefile'')"

text \<open>
  The operations lock the run, check again that it exists, and do their work. The result of the
  work is an error or a value.
\<close>

definition with_lock ::
  "run_env \<Rightarrow> RunCollection \<Rightarrow> fs \<Rightarrow> string \<Rightarrow> bool \<Rightarrow> (fs \<Rightarrow> (run_error + 'a) \<times> fs) \<Rightarrow> (run_error + 'a) \<times> fs" where
  "with_lock E c f run shared work =
     (case lockRun E c f run shared of
        (Some e, f1) \<Rightarrow> (Inl e, f1)
      | (None, f1) \<Rightarrow> if \<not> runExists E c f1 run then (Inl (RunDoesNotExist run), f1) else work f1)"

section \<open>Manifest and metadata\<close>

definition readManifest :: "run_env \<Rightarrow> RunCollection \<Rightarrow> fs \<Rightarrow> string \<Rightarrow> run_error + Manifest" where
  "readManifest E c f run =
     (case read_file E f (getManifestPath E c f run) (decode_manifest E) of
        None \<Rightarrow> Inl (ReadManifestFailed run) | Some m \<Rightarrow> Inr m)"

definition writeManifest :: "run_env \<Rightarrow> RunCollection \<Rightarrow> fs \<Rightarrow> string \<Rightarrow> Manifest \<Rightarrow> bool \<times> fs" where
  "writeManifest E c f run m = WriteJSONFileAtomic E f (getManifestPath E c f run) (ManifestFile m)"

definition RemovePendingManifestEntries ::
  "run_env \<Rightarrow> RunCollection \<Rightarrow> fs \<Rightarrow> string \<Rightarrow> (run_error + bool) \<times> fs" where
  "RemovePendingManifestEntries E c f run =
     (case readManifest E c f run of
        Inl e \<Rightarrow> (Inl e, f)
      | Inr m \<Rightarrow>
          if \<not> list_ex mePending (Entries m) then (Inr False, f)
          else case writeManifest E c f run (m\<lparr>Entries := filter (\<lambda>e. \<not> mePending e) (Entries m)\<rparr>) of
                 (ok, f') \<Rightarrow> (if ok then Inr True else Inl (WriteFailed run), f'))"

definition readMetadata :: "run_env \<Rightarrow> RunCollection \<Rightarrow> fs \<Rightarrow> string \<Rightarrow> run_error + Metadata" where
  "readMetadata E c f run =
     (case read_file E f (getMetadataPath E c f run) (decode_metadata E) of
        None \<Rightarrow> Inl (ReadMetadataFailed run) | Some m \<Rightarrow> Inr m)"

definition writeMetadata :: "run_env \<Rightarrow> RunCollection \<Rightarrow> fs \<Rightarrow> string \<Rightarrow> Metadata \<Rightarrow> bool \<times> fs" where
  "writeMetadata E c f run m = WriteJSONFile E f (getMetadataPath E c f run) (MetadataFile m)"

definition writeMetadataAtomic :: "run_env \<Rightarrow> RunCollection \<Rightarrow> fs \<Rightarrow> string \<Rightarrow> Metadata \<Rightarrow> bool \<times> fs" where
  "writeMetadataAtomic E c f run m = WriteJSONFileAtomic E f (getMetadataPath E c f run) (MetadataFile m)"

text \<open>A missing categorization file is empty categorization data.\<close>

definition readCategorization :: "run_env \<Rightarrow> RunCollection \<Rightarrow> fs \<Rightarrow> string \<Rightarrow> run_error + RunCategorization" where
  "readCategorization E c f run =
     (let p = getCategorizationPath E c f run in
      if \<not> statErr E p \<and> node_at f p = None then Inr \<lparr>Group = [], Tags = []\<rparr>
      else case read_file E f p (decode_categorization E) of
             None \<Rightarrow> Inl (ReadCategorizationFailed run) | Some m \<Rightarrow> Inr m)"

definition entryLooksValid :: "run_env \<Rightarrow> RunCollection \<Rightarrow> fs \<Rightarrow> string \<Rightarrow> bool \<times> fs" where
  "entryLooksValid E c f run =
     (case lockRun E c f run True of
        (Some e, f1) \<Rightarrow> (False, f1)
      | (None, f1) \<Rightarrow>
          (metadataExists E c f1 run \<and> \<not> isl (readMetadata E c f1 run) \<and>
           manifestExists E c f1 run \<and> \<not> isl (readManifest E c f1 run), f1))"

section \<open>Listing, creating and deleting\<close>

fun list_dirs :: "run_env \<Rightarrow> RunCollection \<Rightarrow> (string \<times> bool) list \<Rightarrow> fs \<Rightarrow> string list \<times> fs" where
  "list_dirs E c [] f = ([], f)"
| "list_dirs E c ((name, isDir) # ds) f =
     (if \<not> isDir then list_dirs E c ds f
      else case entryLooksValid E c f name of (ok, f1) \<Rightarrow>
             (case list_dirs E c ds f1 of (rs, f2) \<Rightarrow> ((if ok then name # rs else rs), f2)))"

fun list_bases :: "run_env \<Rightarrow> RunCollection \<Rightarrow> bool \<Rightarrow> string list \<Rightarrow> fs \<Rightarrow> (run_error + string list) \<times> fs" where
  "list_bases E c isFirst [] f = (Inr [], f)"
| "list_bases E c isFirst (b # bs) f =
     (case ReadDir E f b of
        None \<Rightarrow> if isFirst then (Inl (ListFailed b), f) else list_bases E c False bs f
      | Some ds \<Rightarrow>
         (case list_dirs E c ds f of (rs, f1) \<Rightarrow>
           (case list_bases E c False bs f1 of
              (Inl e, f2) \<Rightarrow> (Inl e, f2)
            | (Inr rs', f2) \<Rightarrow> (Inr (rs @ rs'), f2))))"

definition collection_exists :: "run_env \<Rightarrow> RunCollection \<Rightarrow> fs \<Rightarrow> bool" where
  "collection_exists E c f = (PathExists E f (primaryPath c) = Some True)"

text \<open>\<open>create\<close> is only called when the collection does not exist.\<close>

definition create :: "run_env \<Rightarrow> RunCollection \<Rightarrow> fs \<Rightarrow> bool \<times> fs" where
  "create E c f = (if collection_exists E c f then (False, f) else MkdirAll E f (primaryPath c))"

definition ensure_collection :: "run_env \<Rightarrow> RunCollection \<Rightarrow> fs \<Rightarrow> bool \<times> fs" where
  "ensure_collection E c f = (if collection_exists E c f then (True, f) else create E c f)"

definition ListRuns :: "run_env \<Rightarrow> RunCollection \<Rightarrow> fs \<Rightarrow> (run_error + string list) \<times> fs" where
  "ListRuns E c f =
     (case ensure_collection E c f of (ok, f1) \<Rightarrow>
        if \<not> ok then (Inl CreateFailed, f1) else list_bases E c True (allPaths c) f1)"

fun entity_dirs :: "run_env \<Rightarrow> string \<Rightarrow> Entity list \<Rightarrow> fs \<Rightarrow> bool \<times> fs" where
  "entity_dirs E dir [] f = (True, f)"
| "entity_dirs E dir (e # es) f =
     (case MkdirAll E f (PathJoin dir (eRelativePath e)) of (ok, f1) \<Rightarrow>
        if \<not> ok then (False, f1) else entity_dirs E dir es f1)"

definition CreateEntityDirs :: "run_env \<Rightarrow> RunCollection \<Rightarrow> fs \<Rightarrow> RunBuilder \<Rightarrow> bool \<times> fs" where
  "CreateEntityDirs E c f b = entity_dirs E (GetRunPath E c f (rbRunID b)) (rbEntities b) f"

definition CreateRun :: "run_env \<Rightarrow> RunCollection \<Rightarrow> fs \<Rightarrow> RunBuilder \<Rightarrow> Metadata \<Rightarrow> (run_error + string) \<times> fs" where
  "CreateRun E c f b md =
     (case ensure_collection E c f of (ok, f1) \<Rightarrow>
        if \<not> ok then (Inl CreateFailed, f1)
        else if runExists E c f1 (rbRunID b) then (Inl AlreadyExists, f1)
        else case Mkdir E f1 (GetRunPath E c f1 (rbRunID b)) of (ok, f2) \<Rightarrow>
          if \<not> ok then (Inl CreateFailed, f2)
          else case CreateEntityDirs E c f2 b of (ok, f3) \<Rightarrow>
            if \<not> ok then (Inl CreateFailed, f3)
            else case writeManifest E c f3 (rbRunID b) (buildManifest b) of (ok, f4) \<Rightarrow>
              if \<not> ok then (Inl (WriteFailed (rbRunID b)), f4)
              else case writeMetadata E c f4 (rbRunID b) md of (ok, f5) \<Rightarrow>
                if \<not> ok then (Inl (WriteFailed (rbRunID b)), f5) else (Inr (rbRunID b), f5))"

definition DeleteRun :: "run_env \<Rightarrow> RunCollection \<Rightarrow> fs \<Rightarrow> string \<Rightarrow> run_error option \<times> fs" where
  "DeleteRun E c f run =
     (case LeaseRun E c f run of
        (Some e, f1) \<Rightarrow> (Some e, f1)
      | (None, f1) \<Rightarrow>
         (case lockRun E c f1 run False of
            (Some e, f2) \<Rightarrow> (Some e, f2)
          | (None, f2) \<Rightarrow>
              if \<not> runExists E c f2 run then (Some (RunDoesNotExist run), f2)
              else case RemoveAll E f2 (GetRunPath E c f2 run) of (ok, f3) \<Rightarrow>
                if \<not> ok then (Some DeleteFailed, f3)
                else (None, snd (RemoveAll E f3 (getLockDir c run)))))"

fun DeleteRuns :: "run_env \<Rightarrow> RunCollection \<Rightarrow> fs \<Rightarrow> string list \<Rightarrow> run_error option list \<times> fs" where
  "DeleteRuns E c f [] = ([], f)"
| "DeleteRuns E c f (r # rs) =
     (case DeleteRun E c f r of (err, f1) \<Rightarrow> (case DeleteRuns E c f1 rs of (errs, f2) \<Rightarrow> (err # errs, f2)))"

definition DeleteAllRuns :: "run_env \<Rightarrow> RunCollection \<Rightarrow> fs \<Rightarrow> (run_error + string list \<times> run_error option list) \<times> fs" where
  "DeleteAllRuns E c f =
     (case ListRuns E c f of
        (Inl e, f1) \<Rightarrow> (Inl e, f1)
      | (Inr ids, f1) \<Rightarrow> (case DeleteRuns E c f1 ids of (errs, f2) \<Rightarrow> (Inr (ids, errs), f2)))"

section \<open>Where a run is found\<close>

text \<open>Only the existence of the directories of the run decides where it is found.\<close>

definition same_runs :: "RunCollection \<Rightarrow> string \<Rightarrow> fs \<Rightarrow> fs \<Rightarrow> bool" where
  "same_runs c run f f' \<longleftrightarrow>
     list_all (\<lambda>b. (node_at f' (PathJoin b run) = None) = (node_at f (PathJoin b run) = None)) (allPaths c)"

lemma base_loop_cong:
  "list_all (\<lambda>b. (node_at f' (PathJoin b run) = None) = (node_at f (PathJoin b run) = None)) bs \<Longrightarrow>
     base_loop E f' run bs = base_loop E f run bs"
  by (induction bs) (auto simp: PathExists_def)

lemma exists_loop_cong:
  "list_all (\<lambda>b. (node_at f' (PathJoin b run) = None) = (node_at f (PathJoin b run) = None)) bs \<Longrightarrow>
     exists_loop E f' run bs = exists_loop E f run bs"
  by (induction bs) (auto simp: PathExists_def Let_def)

lemma same_runs_paths:
  assumes "same_runs c run f f'"
  shows "runBasePath E c f' run = runBasePath E c f run" and "runExists E c f' run = runExists E c f run"
    and "GetRunPath E c f' run = GetRunPath E c f run" and "getMetadataPath E c f' run = getMetadataPath E c f run"
    and "getManifestPath E c f' run = getManifestPath E c f run"
    and "getCategorizationPath E c f' run = getCategorizationPath E c f run"
  using assms base_loop_cong [of f' run f "allPaths c" E] exists_loop_cong [of f' run f "allPaths c" E]
  by (simp_all add: same_runs_def runBasePath_def runExists_def GetRunPath_def getMetadataPath_def getManifestPath_def
      getCategorizationPath_def)

lemma same_runs_dom: "(\<And>k. (map_of f' k = None) = (map_of f k = None)) \<Longrightarrow> same_runs c run f f'"
  by (simp add: same_runs_def list_all_iff node_at_def)

lemma same_runs_refl [simp]: "same_runs c run f f"
  by (simp add: same_runs_def list_all_iff)

lemma same_runs_trans: "same_runs c run f g \<Longrightarrow> same_runs c run g h \<Longrightarrow> same_runs c run f h"
  by (auto simp: same_runs_def list_all_iff)

text \<open>Writing a file that exists.\<close>

lemma same_runs_put: "node_at f p \<noteq> None \<Longrightarrow> same_runs c run f (put p n f)"
  by (rule same_runs_dom) (auto simp: node_at_def)

section \<open>Locks touch nothing but lock files\<close>

definition locks_dir :: "RunCollection \<Rightarrow> string list" where
  "locks_dir c = resolve (PathJoin (path_Dir (primaryPath c)) ''locks'')"

text \<open>A path that lies neither below the lock directory of a run nor above it.\<close>

definition off_locks :: "RunCollection \<Rightarrow> string \<Rightarrow> string list \<Rightarrow> bool" where
  "off_locks c run k \<longleftrightarrow> \<not> prefix k (locks_dir c @ [run]) \<and> \<not> prefix (locks_dir c @ [run]) k"

text \<open>The directories of the collection and the directory of the locks lie side by side.\<close>

definition collection_ok :: "RunCollection \<Rightarrow> bool" where
  "collection_ok c \<longleftrightarrow> primaryPath c \<in> set (allPaths c) \<and>
     list_all (\<lambda>b. b \<noteq> [] \<and> \<not> prefix (locks_dir c) (resolve b) \<and> \<not> prefix (resolve b) (locks_dir c)) (allPaths c)"

lemma resolve_getLockDir: "plain_comp run \<Longrightarrow> resolve (getLockDir c run) = locks_dir c @ [run]"
  by (simp add: getLockDir_def locks_dir_def path_Dir_def resolve_PathJoin)

lemma off_locksI:
  assumes "collection_ok c" and "b \<in> set (allPaths c)" and "prefix (resolve b) k"
  shows "off_locks c run k"
proof -
  have *: "\<not> prefix (locks_dir c) (resolve b)" "\<not> prefix (resolve b) (locks_dir c)"
    using assms(1,2) by (auto simp: collection_ok_def list_all_iff)
  have "\<not> prefix (resolve b) (locks_dir c @ [run])" using * by (auto simp: prefix_append prefix_Cons)
  moreover have "\<not> prefix (locks_dir c @ [run]) k"
    using * assms(3) by (meson append_prefixD prefix_same_cases)
  ultimately show ?thesis using assms(3) prefix_order.trans unfolding off_locks_def by blast
qed

lemma MkdirAll_frame: "\<not> prefix k (resolve p) \<Longrightarrow> map_of (snd (MkdirAll E f p)) k = map_of f k"
  by (auto simp: MkdirAll_def make_dirs_outside)

lemma try_lock_frame:
  assumes "plain_comp run" and "plain_comp name" and "off_locks c run k"
  shows "map_of (snd (try_lock E c f shared run name)) k = map_of f k"
proof -
  have d: "resolve (getLockDir c run) = locks_dir c @ [run]" by (rule resolve_getLockDir [OF assms(1)])
  then have "getLockDir c run \<noteq> []" by (auto simp: getLockDir_def path_Dir_def)
  then have p: "resolve (PathJoin (getLockDir c run) name) = locks_dir c @ [run, name]"
    using d assms(2) by (simp add: resolve_PathJoin)
  have "k \<noteq> locks_dir c @ [run, name]" using assms(3) by (auto simp: off_locks_def)
  with p have "map_of (put (PathJoin (getLockDir c run) name) n f1) k = map_of f1 k" for n f1 by simp
  moreover have "map_of (snd (MkdirAll E f (getLockDir c run))) k = map_of f k"
    using assms(3) d by (intro MkdirAll_frame) (simp add: off_locks_def)
  ultimately show ?thesis by (auto simp: try_lock_def Let_def split: prod.splits)
qed

lemma lockRun_frame: "plain_comp run \<Longrightarrow> off_locks c run k \<Longrightarrow> map_of (snd (lockRun E c f run shared)) k = map_of f k"
  by (simp add: lockRun_def try_lock_frame plain_comp_def)

lemma LeaseRun_frame: "plain_comp run \<Longrightarrow> off_locks c run k \<Longrightarrow> map_of (snd (LeaseRun E c f run)) k = map_of f k"
  by (simp add: LeaseRun_def try_lock_frame plain_comp_def)

lemma same_runs_locks:
  assumes "collection_ok c" and "plain_comp run" and "\<And>k. off_locks c run' k \<Longrightarrow> map_of f' k = map_of f k"
  shows "same_runs c run f f'"
proof -
  have "map_of f' (resolve (PathJoin b run)) = map_of f (resolve (PathJoin b run))" if "b \<in> set (allPaths c)" for b
  proof -
    have "resolve (PathJoin b run) = resolve b @ [run]"
      using assms(1,2) that by (intro resolve_PathJoin) (auto simp: collection_ok_def list_all_iff)
    then show ?thesis using off_locksI [OF assms(1) that, of "resolve b @ [run]" run'] assms(3) by simp
  qed
  then show ?thesis by (simp add: same_runs_def list_all_iff node_at_def)
qed

lemma ContainsAnyI: "c \<in> set s \<Longrightarrow> c \<in> set cs \<Longrightarrow> ContainsAny s cs"
  by (auto simp: ContainsAny_def list_ex_iff)

lemma LeaseRun_plain:
  assumes "LeaseRun E c f run = (None, f')"
  shows "plain_comp run"
proof -
  have "run \<noteq> []" and "\<not> ContainsAny run (''./'' @ [CHR 0x5C])"
    using assms unfolding LeaseRun_def by (auto split: if_split_asm)
  then have "run \<noteq> []" "CHR ''.'' \<notin> set run" "CHR ''/'' \<notin> set run" by (auto simp: ContainsAny_def list_ex_iff)
  then show ?thesis by (auto simp: plain_comp_def)
qed

lemma LeaseRun_invalid: "\<not> plain_comp run \<Longrightarrow> LeaseRun E c f run = (Some (RunDoesNotExist run), f)"
proof -
  assume "\<not> plain_comp run"
  then have "run = [] \<or> CHR ''.'' \<in> set run \<or> CHR ''/'' \<in> set run" by (auto simp: plain_comp_def)
  then have "run = [] \<or> ContainsAny run (''./'' @ [CHR 0x5C])"
    using ContainsAnyI [of "CHR ''.''" run] ContainsAnyI [of "CHR ''/''" run] by auto
  then show ?thesis unfolding LeaseRun_def by (rule if_P)
qed

section \<open>Deleting a run\<close>

lemma runBasePath_found: "snd (runBasePath E c f run) \<Longrightarrow> fst (runBasePath E c f run) \<in> set (allPaths c) \<and>
    node_at f (GetRunPath E c f run) \<noteq> None"
proof -
  have "base_loop E f run bs = Some b \<Longrightarrow> b \<in> set bs \<and> node_at f (PathJoin b run) \<noteq> None" for bs b
    by (induction bs) (auto simp: PathExists_def split: option.splits bool.splits if_splits)
  then show "snd (runBasePath E c f run) \<Longrightarrow> ?thesis" by (auto simp: runBasePath_def GetRunPath_def split: option.splits)
qed

lemma runExists_base: "runExists E c f run \<Longrightarrow> snd (runBasePath E c f run)"
proof -
  have "exists_loop E f run bs \<Longrightarrow> base_loop E f run bs \<noteq> None" for bs
    by (induction bs) (auto simp: Let_def split: option.splits bool.splits if_splits)
  then show "runExists E c f run \<Longrightarrow> ?thesis" by (auto simp: runBasePath_def runExists_def split: option.splits)
qed

lemma RemoveAll_frame: "\<not> prefix (resolve p) k \<Longrightarrow> map_of (snd (RemoveAll E f p)) k = map_of f k"
  by (auto simp: RemoveAll_def map_of_filter_key split: option.splits)

lemma RemoveAll_gone: "RemoveAll E f p = (True, f') \<Longrightarrow> prefix (resolve p) k \<Longrightarrow> map_of f' k = None"
  by (auto simp: RemoveAll_def map_of_filter_key split: option.splits)

lemma resolve_GetRunPath:
  assumes "collection_ok c" and "plain_comp run"
  shows "resolve (GetRunPath E c f run) = resolve (fst (runBasePath E c f run)) @ [run]"
    and "fst (runBasePath E c f run) \<in> set (allPaths c)"
proof -
  show b: "fst (runBasePath E c f run) \<in> set (allPaths c)"
  proof (cases "snd (runBasePath E c f run)")
    case True
    then show ?thesis using runBasePath_found by blast
  next
    case False
    then show ?thesis using assms(1) by (auto simp: runBasePath_def collection_ok_def split: option.splits)
  qed
  show "resolve (GetRunPath E c f run) = resolve (fst (runBasePath E c f run)) @ [run]"
    unfolding GetRunPath_def using assms b by (intro resolve_PathJoin) (auto simp: collection_ok_def list_all_iff)
qed

lemma try_lock_error: "fst (try_lock E c f shared run name) \<noteq> Some DeleteFailed"
  by (auto simp: try_lock_def Let_def split: prod.splits)

lemma lock_errors: "fst (lockRun E c f run shared) \<noteq> Some DeleteFailed" "fst (LeaseRun E c f run) \<noteq> Some DeleteFailed"
  unfolding lockRun_def LeaseRun_def using try_lock_error by (auto split: if_split)

text \<open>The ways in which a deletion ends.\<close>

lemma DeleteRun_cases:
  assumes "DeleteRun E c f run = (err, f')"
  obtains f1 where "f1 = snd (LeaseRun E c f run)" "f' = f1 \<or> f' = snd (lockRun E c f1 run False)"
      "err \<noteq> None" "err \<noteq> Some DeleteFailed"
    | f2 where "f2 = snd (lockRun E c (snd (LeaseRun E c f run)) run False)"
      "RemoveAll E f2 (GetRunPath E c f2 run) = (False, f')" "err = Some DeleteFailed"
    | f2 f3 where "f2 = snd (lockRun E c (snd (LeaseRun E c f run)) run False)"
      "RemoveAll E f2 (GetRunPath E c f2 run) = (True, f3)" "f' = snd (RemoveAll E f3 (getLockDir c run))" "err = None"
      "runExists E c f2 run"
proof -
  obtain e1 f1 where l: "LeaseRun E c f run = (e1, f1)" by fastforce
  obtain e2 f2 where k: "lockRun E c f1 run False = (e2, f2)" by fastforce
  obtain ok f3 where d: "RemoveAll E f2 (GetRunPath E c f2 run) = (ok, f3)" by fastforce
  have "e1 \<noteq> Some DeleteFailed" "e2 \<noteq> Some DeleteFailed"
    using lock_errors(1) [of E c f1 run False] lock_errors(2) [of E c f run] l k by simp_all
  with that assms l k d show thesis
    by (cases e1; cases e2; cases ok) (auto simp: DeleteRun_def split: if_splits)
qed

text \<open>
  C16. Deleting a run, whatever its ID and whatever fails on the way, changes nothing but the directory of
  that run, directly below one of the directories of the collection, and its locks. If the deletion
  reports success, the run was there and nothing of it is left; if it is refused, nothing of the run
  has changed.
\<close>

theorem DeleteRun_confined:
  assumes "collection_ok c" and "DeleteRun E c f run = (err, f')"
  shows "\<exists>b\<in>set (allPaths c).
    (\<forall>k. off_locks c run k \<and> \<not> prefix (resolve b @ [run]) k \<longrightarrow> map_of f' k = map_of f k) \<and>
    (err = None \<longrightarrow> map_of f (resolve b @ [run]) \<noteq> None \<and> (\<forall>k. prefix (resolve b @ [run]) k \<longrightarrow> map_of f' k = None)) \<and>
    (err \<noteq> None \<and> err \<noteq> Some DeleteFailed \<longrightarrow> (\<forall>k. prefix (resolve b) k \<longrightarrow> map_of f' k = map_of f k))"
proof (cases "plain_comp run")
  case False
  then show ?thesis
    using assms LeaseRun_invalid [OF False, of E c f] by (auto simp: DeleteRun_def collection_ok_def)
next
  case run: True
  define f1 where "f1 = snd (LeaseRun E c f run)"
  define f2 where "f2 = snd (lockRun E c f1 run False)"
  let ?b = "fst (runBasePath E c f2 run)" and ?p = "GetRunPath E c f2 run"
  have p: "resolve ?p = resolve ?b @ [run]" "?b \<in> set (allPaths c)" using resolve_GetRunPath [OF assms(1) run] by auto
  have l: "resolve (getLockDir c run) = locks_dir c @ [run]" by (rule resolve_getLockDir [OF run])
  have lease: "map_of f1 k = map_of f k" if "off_locks c run k" for k
    using LeaseRun_frame [OF run that] by (simp add: f1_def)
  have lock: "map_of f2 k = map_of f k" if "off_locks c run k" for k
    using lockRun_frame [OF run that] lease [OF that] by (simp add: f2_def)
  have off: "off_locks c run k" if "prefix (resolve ?b) k" for k using off_locksI [OF assms(1) p(2) that] .
  have offr: "off_locks c run k" if "prefix (resolve ?b @ [run]) k" for k using off append_prefixD that by blast
  from assms(2) consider
      "f' = f1 \<or> f' = f2" "err \<noteq> None" "err \<noteq> Some DeleteFailed"
    | "RemoveAll E f2 ?p = (False, f')" "err = Some DeleteFailed"
    | f3 where "RemoveAll E f2 ?p = (True, f3)" "f' = snd (RemoveAll E f3 (getLockDir c run))" "err = None" "runExists E c f2 run"
    by (elim DeleteRun_cases) (auto simp: f1_def f2_def)
  then show ?thesis
  proof cases
    case 1
    with p(2) lease lock off show ?thesis by (intro bexI [of _ ?b]) auto
  next
    case 2
    then show ?thesis
      using p lock RemoveAll_frame [of ?p _ E f2] by (intro bexI [of _ ?b]) auto
  next
    case (3 f3)
    have "node_at f2 ?p \<noteq> None" using runBasePath_found runExists_base [OF 3(4)] by blast
    then have "map_of f (resolve ?b @ [run]) \<noteq> None" using lock offr p(1) by (simp add: node_at_def)
    moreover have "map_of f' k = map_of f3 k" if "off_locks c run k" for k
      using RemoveAll_frame [of "getLockDir c run" k E f3] that l 3(2) by (simp add: off_locks_def)
    moreover have "map_of f3 k = None" if "prefix (resolve ?b @ [run]) k" for k
      using RemoveAll_gone [OF 3(1)] that p(1) by simp
    moreover have "map_of f3 k = map_of f2 k" if "\<not> prefix (resolve ?b @ [run]) k" for k
      using RemoveAll_frame [of ?p k E f2] that p(1) 3(1) by simp
    ultimately show ?thesis using p(2) lock offr 3(3) by (intro bexI [of _ ?b]) auto
  qed
qed

text \<open>A collection with one run.\<close>

definition demo_run_env :: run_env where
  "demo_run_env =
     \<lparr>statErr = (\<lambda>_. False), writeFault = (\<lambda>_. NoFault), mkdirErr = (\<lambda>_. False), removeFault = (\<lambda>_. None),
      busy = (\<lambda>_ _. False), walkErr = (\<lambda>_. False), parseMetadata = (\<lambda>_. None), parseManifest = (\<lambda>_. None),
      parseCategorization = (\<lambda>_. None), quoteJSON = (\<lambda>s. s), formatTime = (\<lambda>_. ''0''), sizeOf = (\<lambda>_. 10), now = 7\<rparr>"

definition demo_collection :: RunCollection where
  "demo_collection = \<lparr>primaryPath = ''/p/runs'', allPaths = [''/p/runs'']\<rparr>"

definition demo_fs :: fs where
  "demo_fs =
     [([], DirNode), ([''p''], DirNode), ([''p'', ''runs''], DirNode), ([''p'', ''runs'', ''a''], DirNode),
      ([''p'', ''runs'', ''a'', ''metadata.json''], FileNode (MetadataFile zero_metadata)),
      ([''p'', ''runs'', ''a'', ''manifest.json''], FileNode (ManifestFile \<lparr>Entries = [], ToolsUsed = []\<rparr>))]"

lemma demo_collection_ok: "collection_ok demo_collection"
  by code_simp

theorem DeleteRun_confined_witness:
  "fst (DeleteRun demo_run_env demo_collection demo_fs ''a'') = None \<and>
   map_of (snd (DeleteRun demo_run_env demo_collection demo_fs ''a'')) [''p'', ''runs'', ''a'', ''metadata.json''] = None"
proof -
  let ?d = "DeleteRun demo_run_env demo_collection demo_fs ''a''"
  have ok: "fst ?d = None" by code_simp
  have "resolve ''/p/runs'' = [''p'', ''runs'']" by code_simp
  with DeleteRun_confined [OF demo_collection_ok prod.collapse [symmetric, of ?d]] ok show ?thesis
    by (simp add: demo_collection_def)
qed

text \<open>
  An ID that leads out of the directory of the runs and back in names an existing run, but locks
  another file than the plain ID does.
\<close>

lemma alias_id_other_lock:
  "runExists demo_run_env demo_collection demo_fs ''../runs/a'' \<and>
   GetRunPath demo_run_env demo_collection demo_fs ''../runs/a'' = GetRunPath demo_run_env demo_collection demo_fs ''a'' \<and>
   getLockDir demo_collection ''../runs/a'' \<noteq> getLockDir demo_collection ''a''"
  by code_simp

end
