(* ===== verification/RunUpdate.thy ===== *)
theory RunUpdate
  imports RunCollection Semver
begin

text \<open>
  The updates of a run that exists: the operations of core/apap-engine/run/run.go on its metadata and its
  recorded size, \<open>AccumulateSupportsStop\<close> (run_metadata_updater.go), and the description of a run
  with the migration of recipe names (recipemigration/recipemigration.go).
\<close>

section \<open>Updates of the metadata\<close>

definition save_metadata ::
  "run_env \<Rightarrow> RunCollection \<Rightarrow> fs \<Rightarrow> string \<Rightarrow> (string \<Rightarrow> run_error) \<Rightarrow> Metadata \<Rightarrow> (run_error + unit) \<times> fs" where
  "save_metadata E c f run err md =
     (case writeMetadata E c f run md of (ok, f') \<Rightarrow> (if ok then Inr () else Inl (err run), f'))"

text \<open>The text of the error, if there is one, is an argument.\<close>

definition UpdateRunResult ::
  "run_env \<Rightarrow> RunCollection \<Rightarrow> fs \<Rightarrow> string \<Rightarrow> string \<Rightarrow> string option \<Rightarrow> (run_error + unit) \<times> fs" where
  "UpdateRunResult E c f run recipeResult human =
     with_lock E c f run False (\<lambda>f.
       case readMetadata E c f run of
         Inl e \<Rightarrow> (Inl e, f)
       | Inr md \<Rightarrow>
           (let md1 = md\<lparr>mdRunResult := recipeResult\<rparr>;
                md2 = (case human of None \<Rightarrow> md1 | Some h \<Rightarrow> md1\<lparr>RunError := h\<rparr>)
            in save_metadata E c f run WriteFailed md2))"

definition SetRunEndTime :: "run_env \<Rightarrow> RunCollection \<Rightarrow> fs \<Rightarrow> string \<Rightarrow> (run_error + unit) \<times> fs" where
  "SetRunEndTime E c f run =
     with_lock E c f run False (\<lambda>f.
       case readMetadata E c f run of
         Inl e \<Rightarrow> (Inl e, f)
       | Inr md \<Rightarrow>
           save_metadata E c f run WriteFailed (if EndTime md = InvalidTime then md\<lparr>EndTime := now E\<rparr> else md))"

definition file_size :: "run_env \<Rightarrow> content \<Rightarrow> int" where
  "file_size E c =
     (case c of
        MetadataFile m \<Rightarrow> int (length (metadata_json (quoteJSON E) (formatTime E) m))
      | BytesFile bytes \<Rightarrow> int (length bytes)
      | _ \<Rightarrow> sizeOf E c)"

fun sum_sizes :: "run_env \<Rightarrow> node list \<Rightarrow> 64 word \<Rightarrow> 64 word option" where
  "sum_sizes E [] sizeBytes = Some sizeBytes"
| "sum_sizes E (DirNode # ns) sizeBytes = sum_sizes E ns sizeBytes"
| "sum_sizes E (FileNode c # ns) sizeBytes =
     (let fileSize = file_size E c
      in if fileSize < 0 \<or> word_of_int fileSize > - 1 - sizeBytes then None
         else sum_sizes E ns (sizeBytes + word_of_int fileSize))"

text \<open>What the walk over a run visits: everything below it but the directory of the renders.\<close>

definition visited :: "fs \<Rightarrow> string list \<Rightarrow> string list \<Rightarrow> string list \<Rightarrow> bool" where
  "visited f run render k \<longleftrightarrow> prefix run k \<and> \<not> (map_of f render = Some DirNode \<and> prefix render k)"

definition walk_nodes :: "fs \<Rightarrow> string \<Rightarrow> node list" where
  "walk_nodes f runPath =
     map snd (filter (\<lambda>(k, n). visited f (resolve runPath) (resolve (PathJoin runPath ''render'')) k) f)"

definition calculateRunSizeLocked :: "run_env \<Rightarrow> RunCollection \<Rightarrow> fs \<Rightarrow> string \<Rightarrow> run_error + 64 word" where
  "calculateRunSizeLocked E c f run =
     (let runPath = GetRunPath E c f run in
      if walkErr E runPath \<or> node_at f runPath = None then Inl (SizeFailed run)
      else case sum_sizes E (walk_nodes f runPath) 0 of
             None \<Rightarrow> Inl (SizeFailed run)
           | Some sizeBytes \<Rightarrow> Inr sizeBytes)"

definition persistRunSizeLocked :: "run_env \<Rightarrow> RunCollection \<Rightarrow> fs \<Rightarrow> string \<Rightarrow> (run_error + bool) \<times> fs" where
  "persistRunSizeLocked E c f run =
     (case readMetadata E c f run of
        Inl e \<Rightarrow> (Inl e, f)
      | Inr md \<Rightarrow>
          if RecipeResultIsInProgress (mdRunResult md) then (Inr False, f)
          else case calculateRunSizeLocked E c f run of
                 Inl e \<Rightarrow> (Inl e, f)
               | Inr sizeBytes \<Rightarrow>
                   if SizeBytes md = Some sizeBytes then (Inr False, f)
                   else case adjustSizeForMetadata md sizeBytes of
                          Inl e \<Rightarrow> (Inl (SizeFailed run), f)
                        | Inr adjusted \<Rightarrow>
                           (case writeMetadata E c f run (md\<lparr>SizeBytes := Some adjusted\<rparr>) of (ok, f') \<Rightarrow>
                              (if ok then Inr True else Inl (UpdateMetadataFailed run), f')))"

definition PersistRunSize :: "run_env \<Rightarrow> RunCollection \<Rightarrow> fs \<Rightarrow> string \<Rightarrow> (run_error + bool) \<times> fs" where
  "PersistRunSize E c f run =
     (case lockRun E c f run True of
        (Some e, f1) \<Rightarrow> (Inl e, f1)
      | (None, f1) \<Rightarrow>
         (case readMetadata E c f1 run of
            Inl e \<Rightarrow> (Inl e, f1)
          | Inr md \<Rightarrow>
              if RecipeResultIsInProgress (mdRunResult md) then (Inr False, f1)
              else case calculateRunSizeLocked E c f1 run of
                     Inl e \<Rightarrow> (Inl e, f1)
                   | Inr sizeBytes \<Rightarrow>
                       if SizeBytes md = Some sizeBytes then (Inr False, f1)
                       else case lockRun E c f1 run False of
                              (Some e, f2) \<Rightarrow> (Inl e, f2)
                            | (None, f2) \<Rightarrow> persistRunSizeLocked E c f2 run))"

definition UpdateWorkingDir :: "run_env \<Rightarrow> RunCollection \<Rightarrow> fs \<Rightarrow> string \<Rightarrow> string \<Rightarrow> (run_error + unit) \<times> fs" where
  "UpdateWorkingDir E c f run workingDir =
     with_lock E c f run False (\<lambda>f.
       case readMetadata E c f run of
         Inl e \<Rightarrow> (Inl e, f)
       | Inr md \<Rightarrow>
           if WorkloadType md \<noteq> ''Launch'' \<or> WorkingDir md \<noteq> [] \<or> workingDir = [] then (Inr (), f)
           else save_metadata E c f run UpdateMetadataFailed (md\<lparr>WorkingDir := workingDir\<rparr>))"

text \<open>A failure to update the recorded size is only logged.\<close>

definition RenameRun :: "run_env \<Rightarrow> RunCollection \<Rightarrow> fs \<Rightarrow> string \<Rightarrow> string \<Rightarrow> (run_error + unit) \<times> fs" where
  "RenameRun E c f run newName =
     with_lock E c f run False (\<lambda>f.
       case readMetadata E c f run of
         Inl e \<Rightarrow> (Inl e, f)
       | Inr md \<Rightarrow>
          (case save_metadata E c f run UpdateMetadataFailed (md\<lparr>mdName := newName\<rparr>) of
             (Inl e, f') \<Rightarrow> (Inl e, f')
           | (Inr u, f') \<Rightarrow> (Inr u, snd (persistRunSizeLocked E c f' run))))"

text \<open>The value tells whether the notifier is called.\<close>

definition AccumulateSupportsStop :: "run_env \<Rightarrow> RunCollection \<Rightarrow> fs \<Rightarrow> string \<Rightarrow> bool \<Rightarrow> (run_error + bool) \<times> fs" where
  "AccumulateSupportsStop E c f run supportsStop =
     (case lockRun E c f run False of
        (Some e, f1) \<Rightarrow> (Inl e, f1)
      | (None, f1) \<Rightarrow>
         (case readMetadata E c f1 run of
            Inl e \<Rightarrow> (Inl e, f1)
          | Inr md \<Rightarrow>
             (let value = (case SupportsStop md of None \<Rightarrow> supportsStop | Some b \<Rightarrow> b \<and> supportsStop) in
              if SupportsStop md = Some value then (Inr False, f1)
              else case writeMetadataAtomic E c f1 run (md\<lparr>SupportsStop := Some value\<rparr>) of (ok, f2) \<Rightarrow>
                (if ok then Inr True else Inl (WriteFailed run), f2))))"

section \<open>Descriptions\<close>

record recipe_migration =
  migFrom :: string
  migTo :: string
  migVersion :: SemVer

fun migrated_loop :: "recipe_migration list \<Rightarrow> SemVer \<Rightarrow> string \<Rightarrow> string" where
  "migrated_loop [] runVer name = name"
| "migrated_loop (mi # ms) runVer name =
     (if Cmp runVer (migVersion mi) \<ge> 0 then migrated_loop ms runVer name
      else migrated_loop ms runVer (if migFrom mi = name then migTo mi else name))"

text \<open>The list of migrations is embedded in the program, sorted by version.\<close>

definition GetMigratedName :: "recipe_migration list \<Rightarrow> string \<Rightarrow> string \<Rightarrow> string" where
  "GetMigratedName migrations recipeName runVer =
     (if runVer = [] then recipeName
      else case ParseSemVer runVer of
             Inl e \<Rightarrow> recipeName
           | Inr runSemVer \<Rightarrow> migrated_loop migrations runSemVer recipeName)"

definition runSupportsStop :: "Metadata \<Rightarrow> bool" where
  "runSupportsStop md = (case SupportsStop md of Some b \<Rightarrow> b | None \<Rightarrow> True)"

text \<open>The fields that are copied from the metadata are the metadata here.\<close>

record run_description =
  dID :: string
  dMetadata :: Metadata
  dStartTime :: string
  dEndTime :: string
  dRecipeName :: string
  dGroup :: string
  dTags :: "string list"
  dRunResult :: string
  dToolsUsed :: "ToolUsed list"
  dSupportsStop :: bool

text \<open>Parsing the configuration of the target is a parameter.\<close>

definition describe ::
  "run_env \<Rightarrow> RunCollection \<Rightarrow> (string \<Rightarrow> bool) \<Rightarrow> recipe_migration list \<Rightarrow> string \<Rightarrow> fs \<Rightarrow> run_error + run_description" where
  "describe E c targetOk migrations run f =
     (case readMetadata E c f run of
        Inl e \<Rightarrow> Inl e
      | Inr md \<Rightarrow>
         (case readManifest E c f run of
            Inl e \<Rightarrow> Inl e
          | Inr m \<Rightarrow>
             (case readCategorization E c f run of
                Inl e \<Rightarrow> Inl e
              | Inr cat \<Rightarrow>
                  if \<not> targetOk (TargetConfig md) then Inl (ReadMetadataFailed run)
                  else Inr \<lparr>dID = run, dMetadata = md, dStartTime = formatTime E (StartTime md), dEndTime = formatTime E (EndTime md),
                         dRecipeName = GetMigratedName migrations (RecipeName md) (EngineVersion md), dGroup = Group cat,
                         dTags = Tags cat, dRunResult = mdRunResult md, dToolsUsed = ToolsUsed m,
                         dSupportsStop = runSupportsStop md\<rparr>)))"

definition RunDescription ::
  "run_env \<Rightarrow> RunCollection \<Rightarrow> (string \<Rightarrow> bool) \<Rightarrow> recipe_migration list \<Rightarrow> fs \<Rightarrow> string \<Rightarrow> (run_error + run_description) \<times> fs" where
  "RunDescription E c targetOk migrations f run =
     with_lock E c f run True (\<lambda>f. (describe E c targetOk migrations run f, f))"

section \<open>The recorded size is the size of the run\<close>

definition node_size :: "run_env \<Rightarrow> node \<Rightarrow> int" where
  "node_size E n = (case n of DirNode \<Rightarrow> 0 | FileNode c \<Rightarrow> file_size E c)"

text \<open>The total size of the files the walk visits.\<close>

definition run_bytes :: "run_env \<Rightarrow> fs \<Rightarrow> string \<Rightarrow> int" where
  "run_bytes E f runPath = (\<Sum>n\<leftarrow>walk_nodes f runPath. node_size E n)"

lemma sum_list_node_nonneg: "\<forall>n\<in>set ns. 0 \<le> node_size E n \<Longrightarrow> 0 \<le> (\<Sum>n\<leftarrow>ns. node_size E n)"
  by (induction ns) auto

lemma above_rest:
  fixes t :: "64 word"
  assumes "0 \<le> x" and "x < 2 ^ 63"
  shows "- 1 - t < word_of_int x \<longleftrightarrow> 2 ^ 64 \<le> uint t + x"
proof -
  have "uint (- 1 - t) = 2 ^ 64 - 1 - uint t"
    using uint_bounded [of t]
    by (subst uint_sub_lem [THEN iffD1]) (auto simp: word_le_def unsigned_minus_1_eq_mask mask_eq_exp_minus_1)
  moreover have "uint (word_of_int x :: 64 word) = x"
    using assms by (simp add: unsigned_of_int take_bit_eq_mod)
  ultimately show ?thesis by (auto simp: word_less_def)
qed

lemma uint_plus_small:
  fixes t :: "64 word"
  assumes "0 \<le> x" and "uint t + x < 2 ^ 64"
  shows "uint (t + word_of_int x) = uint t + x"
proof -
  have "x < 2 ^ 64" using assms uint_ge_0 [of t] by linarith
  then have "uint (word_of_int x :: 64 word) = x" using assms(1) by (simp add: unsigned_of_int take_bit_eq_mod)
  then show ?thesis using assms by (simp add: uint_plus_simple_iff [THEN iffD1] uint_word_ariths)
qed

lemma sum_sizes_Some:
  assumes "\<forall>n\<in>set ns. node_size E n < 2 ^ 63"
  shows "sum_sizes E ns t = Some r \<longleftrightarrow>
    (\<forall>n\<in>set ns. 0 \<le> node_size E n) \<and> uint r = uint t + (\<Sum>n\<leftarrow>ns. node_size E n)"
  using assms
proof (induction ns arbitrary: t)
  case Nil
  then show ?case by (auto simp: word_uint_eq_iff)
next
  case (Cons n ns)
  show ?case
  proof (cases n)
    case DirNode
    with Cons show ?thesis by (simp add: node_size_def)
  next
    case (FileNode c)
    let ?x = "file_size E c"
    have x: "?x < 2 ^ 63" "node_size E n = ?x" using Cons.prems FileNode by (auto simp: node_size_def)
    show ?thesis
    proof (cases "0 \<le> ?x \<and> uint t + ?x < 2 ^ 64")
      case True
      then have "sum_sizes E (n # ns) t = sum_sizes E ns (t + word_of_int ?x)"
        using above_rest [of ?x t] x FileNode by simp
      then show ?thesis
        using Cons True x uint_plus_small [of ?x t] by (auto simp: add.assoc)
    next
      case False
      then have "sum_sizes E (n # ns) t = None" using above_rest [of ?x t] x FileNode by (cases "0 \<le> ?x") (auto simp: Let_def)
      moreover have "uint r < 2 ^ 64" using uint_bounded [of r] by simp
      moreover have "\<forall>m\<in>set ns. 0 \<le> node_size E m \<Longrightarrow> 0 \<le> (\<Sum>m\<leftarrow>ns. node_size E m)"
        by (rule sum_list_node_nonneg)
      ultimately show ?thesis using False x by auto
    qed
  qed
qed

lemma sum_update:
  fixes g :: "node \<Rightarrow> int"
  assumes "distinct (map fst f)" and "map_of f k0 = Some m"
  shows "(\<Sum>n\<leftarrow>map snd (filter (\<lambda>(k, n). P k) (AList.update k0 n0 f)). g n) =
    (\<Sum>n\<leftarrow>map snd (filter (\<lambda>(k, n). P k) f). g n) + (if P k0 then g n0 - g m else 0)"
  using assms by (induction f) (auto split: if_splits)

lemma visited_put: "render \<noteq> resolve p \<Longrightarrow> visited (put p n f) r render = visited f r render"
  by (auto simp: visited_def fun_eq_iff)

lemma walk_nodes_put:
  assumes "resolve (PathJoin r ''render'') \<noteq> resolve p"
  shows "set (walk_nodes (put p n f) r) \<subseteq> insert n (set (walk_nodes f r))"
proof -
  have "set (map snd (filter (\<lambda>(k, n). P k) (AList.update k0 n f))) \<subseteq> insert n (set (map snd (filter (\<lambda>(k, n). P k) f)))" for P k0
    by (induction f) auto
  then show ?thesis unfolding walk_nodes_def visited_put [OF assms] unfolding put_def by blast
qed

lemma run_bytes_put:
  assumes "distinct (map fst f)" and "node_at f p = Some m"
    and "visited f (resolve runPath) (resolve (PathJoin runPath ''render'')) (resolve p)"
    and "resolve p \<noteq> resolve (PathJoin runPath ''render'')"
  shows "run_bytes E (put p n f) runPath = run_bytes E f runPath + node_size E n - node_size E m"
proof -
  show ?thesis
    using assms visited_put [OF assms(4) [symmetric]] sum_update [of f "resolve p" m "node_size E" "\<lambda>k. visited f (resolve runPath) (resolve (PathJoin runPath ''render'')) k" n]
    by (simp add: run_bytes_def walk_nodes_def put_def node_at_def)
qed

lemma put_keys_dom: "node_at f p \<noteq> None \<Longrightarrow> (map_of (put p n f) k = None) = (map_of f k = None)"
  by (auto simp: node_at_def)

lemma set_walk_nodes: "set (walk_nodes f p) \<subseteq> snd ` set f"
  by (auto simp: walk_nodes_def)

lemma snd_put: "snd ` set (put p n f) \<subseteq> insert n (snd ` set f)"
  unfolding put_def by (induction f) (auto split: if_splits)

lemma small_walk: "list_all (\<lambda>(k, n). node_size E n < 2 ^ 63) f \<Longrightarrow> \<forall>n\<in>set (walk_nodes f p). node_size E n < 2 ^ 63"
  using set_walk_nodes [of f p] by (force simp: list_all_iff)

lemma node_size_le_sum: "\<forall>n\<in>set ns. 0 \<le> node_size E n \<Longrightarrow> m \<in> set ns \<Longrightarrow> node_size E m \<le> (\<Sum>n\<leftarrow>ns. node_size E n)"
proof (induction ns)
  case (Cons n ns)
  then show ?case using sum_list_node_nonneg [of ns E] by auto
qed simp

lemma metadata_json_recorded:
  "length (metadata_json q rfc (md\<lparr>SizeBytes := Some a\<rparr>)) \<le> length (metadata_json q rfc md) + 38"
proof -
  have "length (metadata_json q rfc (md\<lparr>SizeBytes := None\<rparr>)) \<le> length (metadata_json q rfc md)"
  proof (cases "SizeBytes md")
    case (Some b)
    then have "md\<lparr>SizeBytes := Some b\<rparr> = md" by simp
    with metadata_json_size [of q rfc b md] show ?thesis by simp
  next
    case None
    then have "md\<lparr>SizeBytes := None\<rparr> = md" by simp
    then show ?thesis by simp
  qed
  with metadata_json_size [of q rfc a md] dlen_le_20 [of a] show ?thesis by simp
qed

lemma recorded_write:
  assumes r: "r \<noteq> []" and keys: "distinct (map fst f)" and small: "list_all (\<lambda>(k, n). node_size E n < 2 ^ 63) f"
    and md: "node_at f (PathJoin r ''metadata.json'') = Some (FileNode (MetadataFile md))"
    and n: "sum_sizes E (walk_nodes f r) 0 = Some n" "uint n + 64 < 2 ^ 63"
    and a: "adjustSizeForMetadata md n = Inr a"
    and f': "f' = put (PathJoin r ''metadata.json'') (FileNode (MetadataFile (md\<lparr>SizeBytes := Some a\<rparr>))) f"
  shows "uint a = run_bytes E f' r \<and> sum_sizes E (walk_nodes f' r) 0 = Some a"
proof -
  let ?p = "PathJoin r ''metadata.json''" and ?js = "metadata_json (quoteJSON E) (formatTime E)" and ?md = "md\<lparr>SizeBytes := Some a\<rparr>"
  have rp: "resolve ?p = resolve r @ [''metadata.json'']" "resolve (PathJoin r ''render'') = resolve r @ [''render'']"
    using r by (simp_all add: resolve_PathJoin plain_comp_def)
  have vis: "visited f (resolve r) (resolve (PathJoin r ''render'')) (resolve ?p)"
    unfolding rp by (simp add: visited_def)
  have nn: "uint n = run_bytes E f r" "\<forall>m\<in>set (walk_nodes f r). 0 \<le> node_size E m"
    using n(1) sum_sizes_Some [OF small_walk [OF small]] by (simp_all add: run_bytes_def)
  have mem: "FileNode (MetadataFile md) \<in> set (walk_nodes f r)"
    using map_of_SomeD [of f] md vis by (force simp: walk_nodes_def node_at_def)
  have sz: "node_size E (FileNode (MetadataFile m)) = int (length (?js m))" for m
    by (simp add: node_size_def file_size_def)
  have "int (length (?js md)) \<le> uint n"
    using node_size_le_sum [OF nn(2) mem] nn(1) sz by (simp add: run_bytes_def)
  then have "length (?js md) \<le> unat n" unfolding uint_nat by linarith
  then obtain others where o: "unat n = others + length (?js md)" using le_Suc_ex by (metis add.commute)
  have "unat n + 64 < 2 ^ 64" using n(2) by (simp add: nat_less_iff flip: nat_uint_eq)
  with adjusted_size_exact [OF o] a have a': "unat a = others + length (?js ?md)" by auto
  have bytes: "run_bytes E f' r = run_bytes E f r + int (length (?js ?md)) - int (length (?js md))"
    unfolding f' using run_bytes_put [OF keys md vis] rp sz by simp
  have eq: "uint a = run_bytes E f' r" using bytes nn(1) o a' unfolding uint_nat by linarith
  have len: "int (length (?js ?md)) < 2 ^ 63"
    using metadata_json_recorded [of "quoteJSON E" "formatTime E" a md] o n(2) unfolding uint_nat by linarith
  have sub: "set (walk_nodes f' r) \<subseteq> insert (FileNode (MetadataFile ?md)) (set (walk_nodes f r))"
    unfolding f' using rp by (intro walk_nodes_put) simp
  have "list_all (\<lambda>(k, n). node_size E n < 2 ^ 63) f'"
    using small len snd_put [of ?p "FileNode (MetadataFile ?md)" f] sz unfolding f' list_all_iff by fastforce
  from sum_sizes_Some [OF small_walk [OF this], of r 0 a] eq nn(2) sub sz show ?thesis
    by (auto simp: run_bytes_def)
qed

lemma runBasePath_nonempty:
  assumes "primaryPath c \<noteq> []" and "list_all (\<lambda>b. b \<noteq> []) (allPaths c)"
  shows "fst (runBasePath E c f run) \<noteq> []"
proof -
  have "base_loop E f run bs = Some b \<Longrightarrow> b \<in> set bs" for bs b
    by (induction bs) (auto split: option.splits bool.splits if_splits)
  then show ?thesis using assms by (auto simp: runBasePath_def list_all_iff split: option.splits)
qed

lemma persist_up_to_date:
  assumes "readMetadata E c f run = Inr md" and "calculateRunSizeLocked E c f run = Inr n" and "SizeBytes md = Some n"
  shows "persistRunSizeLocked E c f run = (Inr False, f)"
  using assms by (simp add: persistRunSizeLocked_def)

text \<open>
  C15. When the size of a run that is not in progress has been brought up to date without an error, the
  recorded size is the size of the files of the run, the metadata file that contains it included,
  and bringing it up to date again changes nothing. It is assumed that the engine wrote the metadata,
  that no file is larger than a 64-bit size, and that the run is smaller than \<open>2 ^ 63\<close> bytes.
\<close>

theorem persisted_size_is_run_size:
  assumes c: "primaryPath c \<noteq> []" "list_all (\<lambda>b. b \<noteq> []) (allPaths c)"
    and keys: "distinct (map fst f)" and small: "list_all (\<lambda>(k, n). node_size E n < 2 ^ 63) f"
    and md: "node_at f (getMetadataPath E c f run) = Some (FileNode (MetadataFile md))"
    and over: "\<not> RecipeResultIsInProgress (mdRunResult md)"
    and size: "run_bytes E f (GetRunPath E c f run) + 64 < 2 ^ 63"
    and ok: "persistRunSizeLocked E c f run = (Inr updated, f')"
  shows "\<exists>md' a. readMetadata E c f' run = Inr md' \<and> SizeBytes md' = Some a \<and>
    uint a = run_bytes E f' (GetRunPath E c f' run) \<and> persistRunSizeLocked E c f' run = (Inr False, f')"
proof -
  let ?p = "getMetadataPath E c f run" and ?r = "GetRunPath E c f run"
  have r: "?r \<noteq> []" "?p = PathJoin ?r ''metadata.json''"
    using runBasePath_nonempty [OF c] by (simp_all add: GetRunPath_def getMetadataPath_def)
  have stat: "\<not> statErr E ?p" and rd: "readMetadata E c f run = Inr md"
    using ok md by (auto simp: persistRunSizeLocked_def readMetadata_def read_file_def decode_metadata_def split: if_splits)
  obtain n where n: "calculateRunSizeLocked E c f run = Inr n"
    using ok rd over by (auto simp: persistRunSizeLocked_def split: sum.splits)
  then have walk: "\<not> walkErr E ?r" "node_at f ?r \<noteq> None" "sum_sizes E (walk_nodes f ?r) 0 = Some n"
    by (auto simp: calculateRunSizeLocked_def Let_def split: if_splits option.splits)
  have nn: "uint n = run_bytes E f ?r"
    using walk(3) sum_sizes_Some [OF small_walk [OF small]] by (simp add: run_bytes_def)
  show ?thesis
  proof (cases "SizeBytes md = Some n")
    case True
    then have "persistRunSizeLocked E c f run = (Inr False, f)" using rd n by (intro persist_up_to_date)
    with True ok rd nn show ?thesis by simp
  next
    case False
    then obtain a where a: "adjustSizeForMetadata md n = Inr a" and w: "writeMetadata E c f run (md\<lparr>SizeBytes := Some a\<rparr>) = (True, f')"
      using ok rd over n by (auto simp: persistRunSizeLocked_def split: sum.splits prod.splits if_splits)
    have f': "f' = put ?p (FileNode (MetadataFile (md\<lparr>SizeBytes := Some a\<rparr>))) f"
      using w by (auto simp: writeMetadata_def WriteJSONFile_def split: if_splits fault.splits)
    have same: "same_runs c run f f'" unfolding f' using md by (intro same_runs_put) simp
    note paths = same_runs_paths [OF same, of E]
    have rec: "uint a = run_bytes E f' ?r" "sum_sizes E (walk_nodes f' ?r) 0 = Some a"
      using recorded_write [OF r(1) keys small, of md n a f'] md walk(3) a f' size nn r(2) by auto
    have "node_at f' ?r \<noteq> None" using walk(2) unfolding f' by (auto simp: node_at_def)
    then have calc: "calculateRunSizeLocked E c f' run = Inr a"
      using walk(1) rec(2) paths(3) by (auto simp: calculateRunSizeLocked_def Let_def)
    have rd': "readMetadata E c f' run = Inr (md\<lparr>SizeBytes := Some a\<rparr>)"
      using stat paths(4) f' by (simp add: readMetadata_def read_file_def decode_metadata_def node_at_def)
    show ?thesis using persist_up_to_date [OF rd' calc] rd' rec(1) paths(3) by simp
  qed
qed

lemma demo_paths:
  "getMetadataPath demo_run_env demo_collection demo_fs ''a'' = ''/p/runs/a/metadata.json''"
  "GetRunPath demo_run_env demo_collection demo_fs ''a'' = ''/p/runs/a''"
  "resolve ''/p/runs/a/metadata.json'' = [''p'', ''runs'', ''a'', ''metadata.json'']"
  "resolve ''/p/runs/a'' = [''p'', ''runs'', ''a'']" 
  by code_simp+

lemma demo_persist: "fst (persistRunSizeLocked demo_run_env demo_collection demo_fs ''a'') = Inr True"
  by code_simp

lemma demo_bytes: "run_bytes demo_run_env demo_fs ''/p/runs/a'' + 64 < 2 ^ 63"
  by code_simp

theorem persisted_size_is_run_size_witness:
  "let f' = snd (persistRunSizeLocked demo_run_env demo_collection demo_fs ''a'') in
   \<exists>md' a. readMetadata demo_run_env demo_collection f' ''a'' = Inr md' \<and> SizeBytes md' = Some a \<and>
    uint a = run_bytes demo_run_env f' (GetRunPath demo_run_env demo_collection f' ''a'') \<and>
    persistRunSizeLocked demo_run_env demo_collection f' ''a'' = (Inr False, f')"
proof -
  let ?E = demo_run_env and ?c = demo_collection and ?f = demo_fs
  have ok: "persistRunSizeLocked ?E ?c ?f ''a'' = (Inr True, snd (persistRunSizeLocked ?E ?c ?f ''a''))"
    using demo_persist by (metis prod.collapse)
  have small: "list_all (\<lambda>(k, n). node_size ?E n < 2 ^ 63) ?f" by code_simp
  have md: "node_at ?f (getMetadataPath ?E ?c ?f ''a'') = Some (FileNode (MetadataFile zero_metadata))"
    unfolding demo_paths(1) node_at_def demo_paths(3) by (simp add: demo_fs_def)
  have bytes: "run_bytes ?E ?f (GetRunPath ?E ?c ?f ''a'') + 64 < 2 ^ 63" unfolding demo_paths(2) by (rule demo_bytes)
  show ?thesis
    unfolding Let_def
    by (rule persisted_size_is_run_size [OF _ _ _ small md _ bytes ok])
      (simp_all add: demo_collection_def demo_fs_def zero_metadata_def RecipeResultIsInProgress_def RecipeResultIsRunning_def
        RecipeResultIsCompletingTransfer_def)
qed

end
