(* ===== verification/RunTags.thy ===== *)
theory RunTags
  imports RunUpdate
begin

text \<open>
  The categorization of a run by a group and tags (core/apap-engine/run/categorization.go) and the updates
  that clients ask for (run/update.go): a sequence of operations that is normalised as a whole, applied
  to what is stored, and written back at the end.
\<close>

section \<open>Groups and tags\<close>

definition normalizeRunGroup :: "string \<Rightarrow> run_error + string" where
  "normalizeRunGroup grp =
     (let trimmedGroup = TrimSpace grp in if trimmedGroup = [] then Inl (InvalidGroup grp) else Inr trimmedGroup)"

fun normalize_tags :: "string list \<Rightarrow> string list \<Rightarrow> string list \<Rightarrow> run_error + string list" where
  "normalize_tags orig [] normalized = Inr normalized"
| "normalize_tags orig (t # ts) normalized =
     (let tag = TrimSpace t in
      if tag = [] then Inl (InvalidTags orig)
      else if tag \<in> set normalized then normalize_tags orig ts normalized
      else normalize_tags orig ts (normalized @ [tag]))"

definition normalizeRunTags :: "string list \<Rightarrow> run_error + string list" where
  "normalizeRunTags tags = normalize_tags tags tags []"

fun add_tags :: "string list \<Rightarrow> string list \<Rightarrow> string list" where
  "add_tags result [] = result"
| "add_tags result (t # ts) = add_tags (if t \<in> set result then result else result @ [t]) ts"

definition addRunTags :: "string list \<Rightarrow> string list \<Rightarrow> string list" where
  "addRunTags existing tags = add_tags existing tags"

definition removeRunTags :: "string list \<Rightarrow> string list \<Rightarrow> string list" where
  "removeRunTags existing tags = filter (\<lambda>t. t \<notin> set tags) existing"

section \<open>Updates\<close>

datatype RunUpdateOperation =
  SetHostSourceCodePaths "string list"
| ClearHostSourceCodePaths
| SetRunGroup string
| ClearRunGroup
| SetRunTags "string list"
| AddRunTags "string list"
| RemoveRunTags "string list"
| ClearRunTags

definition on_tags :: "(string list \<Rightarrow> RunUpdateOperation) \<Rightarrow> string list \<Rightarrow> run_error + RunUpdateOperation" where
  "on_tags op tags = (case normalizeRunTags tags of Inl e \<Rightarrow> Inl e | Inr ts \<Rightarrow> Inr (op ts))"

definition normalize_operation :: "RunUpdateOperation \<Rightarrow> run_error + RunUpdateOperation" where
  "normalize_operation op =
     (case op of
        SetRunGroup grp \<Rightarrow> (case normalizeRunGroup grp of Inl e \<Rightarrow> Inl e | Inr g \<Rightarrow> Inr (SetRunGroup g))
      | SetRunTags tags \<Rightarrow> on_tags SetRunTags tags
      | AddRunTags tags \<Rightarrow> on_tags AddRunTags tags
      | RemoveRunTags tags \<Rightarrow> on_tags RemoveRunTags tags
      | _ \<Rightarrow> Inr op)"

fun Normalize :: "RunUpdateOperation list \<Rightarrow> run_error + RunUpdateOperation list" where
  "Normalize [] = Inr []"
| "Normalize (op # ops) =
     (case normalize_operation op of
        Inl e \<Rightarrow> Inl e
      | Inr op' \<Rightarrow> (case Normalize ops of Inl e \<Rightarrow> Inl e | Inr ops' \<Rightarrow> Inr (op' # ops')))"

text \<open>The operations on the categorization; the other two leave it alone.\<close>

fun categorize :: "RunUpdateOperation \<Rightarrow> RunCategorization \<Rightarrow> RunCategorization" where
  "categorize (SetRunGroup grp) k = k\<lparr>Group := grp\<rparr>"
| "categorize ClearRunGroup k = k\<lparr>Group := []\<rparr>"
| "categorize (SetRunTags tags) k = k\<lparr>Tags := tags\<rparr>"
| "categorize (AddRunTags tags) k = k\<lparr>Tags := addRunTags (Tags k) tags\<rparr>"
| "categorize (RemoveRunTags tags) k = k\<lparr>Tags := removeRunTags (Tags k) tags\<rparr>"
| "categorize ClearRunTags k = k\<lparr>Tags := []\<rparr>"
| "categorize (SetHostSourceCodePaths paths) k = k"
| "categorize ClearHostSourceCodePaths k = k"

text \<open>The loop over the operations; the categorization is read when it is first needed.\<close>

fun update_loop ::
  "(run_error + RunCategorization) \<Rightarrow> RunUpdateOperation list \<Rightarrow> string list option \<Rightarrow> RunCategorization option \<Rightarrow>
     run_error + string list option \<times> RunCategorization option" where
  "update_loop stored [] sourceCodePaths cat = Inr (sourceCodePaths, cat)"
| "update_loop stored (SetHostSourceCodePaths paths # ops) sourceCodePaths cat = update_loop stored ops (Some paths) cat"
| "update_loop stored (ClearHostSourceCodePaths # ops) sourceCodePaths cat = update_loop stored ops (Some []) cat"
| "update_loop stored (op # ops) sourceCodePaths cat =
     (case (case cat of Some k \<Rightarrow> Inr k | None \<Rightarrow> stored) of
        Inl e \<Rightarrow> Inl e
      | Inr k \<Rightarrow> update_loop stored ops sourceCodePaths (Some (categorize op k)))"

definition getSourceCodePath :: "run_env \<Rightarrow> RunCollection \<Rightarrow> fs \<Rightarrow> string \<Rightarrow> string" where
  "getSourceCodePath E c f run = PathJoin (PathJoin (fst (runBasePath E c f run)) run) ''source-code.json''"

definition updateHostSourceCodePaths :: "run_env \<Rightarrow> RunCollection \<Rightarrow> fs \<Rightarrow> string \<Rightarrow> string list \<Rightarrow> run_error option \<times> fs" where
  "updateHostSourceCodePaths E c f run paths =
     (case WriteJSONFile E f (getSourceCodePath E c f run) (SourcePathsFile paths) of (ok, f') \<Rightarrow>
        (if ok then None else Some (UpdateSourcePathsFailed run), f'))"

definition writeCategorization :: "run_env \<Rightarrow> RunCollection \<Rightarrow> fs \<Rightarrow> string \<Rightarrow> RunCategorization \<Rightarrow> run_error option \<times> fs" where
  "writeCategorization E c f run k =
     (case WriteJSONFile E f (getCategorizationPath E c f run) (CategorizationFile k) of (ok, f') \<Rightarrow>
        (if ok then None else Some (UpdateCategorizationFailed run), f'))"

text \<open>What happens under the lock; a failure to update the recorded size is only logged.\<close>

definition apply_update :: "run_env \<Rightarrow> RunCollection \<Rightarrow> string \<Rightarrow> RunUpdateOperation list \<Rightarrow> fs \<Rightarrow> (run_error + unit) \<times> fs" where
  "apply_update E c run ops f =
     (case update_loop (readCategorization E c f run) ops None None of
        Inl e \<Rightarrow> (Inl e, f)
      | Inr (sourceCodePaths, cat) \<Rightarrow>
         (case (case sourceCodePaths of None \<Rightarrow> (None, f) | Some ps \<Rightarrow> updateHostSourceCodePaths E c f run ps) of
            (Some e, f1) \<Rightarrow> (Inl e, f1)
          | (None, f1) \<Rightarrow>
             (case (case cat of None \<Rightarrow> (None, f1) | Some k \<Rightarrow> writeCategorization E c f1 run k) of
                (Some e, f2) \<Rightarrow> (Inl e, f2)
              | (None, f2) \<Rightarrow> (Inr (), snd (persistRunSizeLocked E c f2 run)))))"

definition UpdateRun :: "run_env \<Rightarrow> RunCollection \<Rightarrow> fs \<Rightarrow> string \<Rightarrow> RunUpdateOperation list \<Rightarrow> (run_error + unit) \<times> fs" where
  "UpdateRun E c f run ops0 =
     (case Normalize ops0 of
        Inl e \<Rightarrow> (Inl e, f)
      | Inr ops \<Rightarrow>
          if ops = [] then (if runExists E c f run then Inr () else Inl (RunDoesNotExist run), f)
          else with_lock E c f run False (apply_update E c run ops))"

fun UpdateRuns :: "run_env \<Rightarrow> RunCollection \<Rightarrow> fs \<Rightarrow> string list \<Rightarrow> RunUpdateOperation list \<Rightarrow> (run_error + unit) list \<times> fs" where
  "UpdateRuns E c f [] ops = ([], f)"
| "UpdateRuns E c f (r # rs) ops =
     (case UpdateRun E c f r ops of (res, f1) \<Rightarrow> (case UpdateRuns E c f1 rs ops of (ress, f2) \<Rightarrow> (res # ress, f2)))"

section \<open>Tags stay clean\<close>

text \<open>Tags that are trimmed, not empty and not repeated.\<close>

definition tags_ok :: "string list \<Rightarrow> bool" where
  "tags_ok ts \<longleftrightarrow> distinct ts \<and> list_all (\<lambda>t. t \<noteq> [] \<and> TrimSpace t = t) ts"

lemma normalize_tags_ok: "normalize_tags orig ts acc = Inr ts' \<Longrightarrow> tags_ok acc \<Longrightarrow> tags_ok ts'"
  by (induction orig ts acc rule: normalize_tags.induct) (auto simp: tags_ok_def Let_def split: if_splits)

lemma normalize_tags_set: "normalize_tags orig ts acc = Inr ts' \<Longrightarrow> set ts' = set acc \<union> TrimSpace ` set ts"
  by (induction orig ts acc rule: normalize_tags.induct) (auto simp: Let_def split: if_splits)

lemma normalizeRunTags_ok: "normalizeRunTags ts = Inr ts' \<Longrightarrow> tags_ok ts' \<and> set ts' = TrimSpace ` set ts"
  using normalize_tags_ok [of ts ts "[]" ts'] normalize_tags_set [of ts ts "[]" ts'] by (simp add: normalizeRunTags_def tags_ok_def)

lemma add_tags_ok: "tags_ok ts \<Longrightarrow> tags_ok ts' \<Longrightarrow> tags_ok (add_tags ts ts')"
  by (induction ts ts' rule: add_tags.induct) (auto simp: tags_ok_def)

lemma add_tags_set [simp]: "set (add_tags ts ts') = set ts \<union> set ts'"
  by (induction ts ts' rule: add_tags.induct) auto

lemma remove_tags_ok: "tags_ok ts \<Longrightarrow> tags_ok (removeRunTags ts ts')"
  by (auto simp: tags_ok_def removeRunTags_def list_all_iff)

lemma tags_ok_Nil: "tags_ok []"
  by (simp add: tags_ok_def)

text \<open>What normalised operations look like.\<close>

definition operation_ok :: "RunUpdateOperation \<Rightarrow> bool" where
  "operation_ok op =
     (case op of
        SetRunGroup g \<Rightarrow> g \<noteq> [] \<and> TrimSpace g = g
      | SetRunTags ts \<Rightarrow> tags_ok ts | AddRunTags ts \<Rightarrow> tags_ok ts | RemoveRunTags ts \<Rightarrow> tags_ok ts
      | _ \<Rightarrow> True)"

lemma normalize_operation_ok: "normalize_operation op = Inr op' \<Longrightarrow> operation_ok op'"
  by (cases op) (auto simp: normalize_operation_def operation_ok_def on_tags_def normalizeRunGroup_def Let_def
      dest: normalizeRunTags_ok split: sum.splits if_splits)

lemma Normalize_ok: "Normalize ops = Inr ops' \<Longrightarrow> list_all operation_ok ops'"
  by (induction ops arbitrary: ops') (auto dest: normalize_operation_ok split: sum.splits)

lemma categorize_ok: "operation_ok op \<Longrightarrow> tags_ok (Tags k) \<Longrightarrow> tags_ok (Tags (categorize op k))"
  by (cases op) (auto simp: operation_ok_def addRunTags_def add_tags_ok remove_tags_ok tags_ok_Nil)

interpretation categories: exec_system categorize operation_ok "\<lambda>k. tags_ok (Tags k)"
  by unfold_locales (rule categorize_ok)

section \<open>What an update stores\<close>

lemma update_loop_result:
  "update_loop (Inr k0) ops sc cat = Inr (sc', cat') \<Longrightarrow>
     case_option k0 (\<lambda>k. k) cat' = foldl (\<lambda>k op. categorize op k) (case_option k0 (\<lambda>k. k) cat) ops"
proof (induction "Inr k0 :: run_error + RunCategorization" ops sc cat rule: update_loop.induct)
qed (auto split: option.splits)

text \<open>A file of a run does not count as a directory of a run when its name is not the ID.\<close>

lemma same_runs_file:
  assumes "collection_ok c" and "plain_comp run" and "resolve p = ks @ [name]" and "name \<noteq> run"
  shows "same_runs c run f (put p n f)"
proof -
  have "resolve (PathJoin b run) = resolve b @ [run]" if "b \<in> set (allPaths c)" for b
    using assms(1,2) that by (intro resolve_PathJoin) (auto simp: collection_ok_def list_all_iff)
  with assms(3,4) show ?thesis by (simp add: same_runs_def list_all_iff node_at_def)
qed

lemma WriteJSONFile_frame: "k \<noteq> resolve p \<Longrightarrow> map_of (snd (WriteJSONFile E f p x)) k = map_of f k"
  by (auto simp: WriteJSONFile_def split: fault.splits)

lemma WriteJSONFile_same_runs:
  assumes "collection_ok c" and "plain_comp run" and "resolve p = ks @ [name]" and "name \<noteq> run"
  shows "same_runs c run f (snd (WriteJSONFile E f p x))"
  using same_runs_file [OF assms] by (auto simp: WriteJSONFile_def split: fault.splits)

lemma persist_frame:
  "snd (persistRunSizeLocked E c f run) = f \<or>
   (\<exists>x. snd (persistRunSizeLocked E c f run) = snd (WriteJSONFile E f (getMetadataPath E c f run) x))"
  by (auto simp: persistRunSizeLocked_def writeMetadata_def split: sum.splits prod.splits) (metis snd_conv)+

lemma readCategorization_cong:
  assumes "same_runs c run f f'" and "node_at f' (getCategorizationPath E c f run) = node_at f (getCategorizationPath E c f run)"
  shows "readCategorization E c f' run = readCategorization E c f run"
  using assms same_runs_paths(6) [OF assms(1), of E] by (simp add: readCategorization_def read_file_def Let_def)

text \<open>The IDs the engine generates.\<close>

definition run_id_ok :: "string \<Rightarrow> bool" where
  "run_id_ok run \<longleftrightarrow> plain_comp run \<and> CHR ''.'' \<notin> set run"

lemma run_files:
  assumes "collection_ok c" and "run_id_ok run" and "plain_comp name"
  shows "resolve (PathJoin (PathJoin (fst (runBasePath E c f run)) run) name) =
    resolve (fst (runBasePath E c f run)) @ [run] @ [name]"
proof -
  have "fst (runBasePath E c f run) \<noteq> []"
    using resolve_GetRunPath(2) [OF assms(1)] assms(1,2) by (auto simp: run_id_ok_def collection_ok_def list_all_iff)
  then show ?thesis using assms(2,3) by (simp add: resolve_PathJoin run_id_ok_def)
qed

lemma write_other:
  assumes c: "collection_ok c" and run: "run_id_ok run" and name: "plain_comp name" "CHR ''.'' \<in> set name" "name \<noteq> ''categorization.json''"
    and f': "f' = snd (WriteJSONFile E f (PathJoin (PathJoin (fst (runBasePath E c f run)) run) name) x)"
  shows "readCategorization E c f' run = readCategorization E c f run"
proof (rule readCategorization_cong)
  note p = run_files [OF c run name(1), of E f]
  have "name \<noteq> run" using run name(2) by (auto simp: run_id_ok_def)
  then show "same_runs c run f f'"
    unfolding f' using run p by (intro WriteJSONFile_same_runs [OF c, of _ _ "resolve (fst (runBasePath E c f run)) @ [run]" name])
      (auto simp: run_id_ok_def)
  have "resolve (getCategorizationPath E c f run) = resolve (fst (runBasePath E c f run)) @ [run] @ [''categorization.json'']"
    unfolding getCategorizationPath_def by (rule run_files [OF c run]) (simp add: plain_comp_def)
  then show "node_at f' (getCategorizationPath E c f run) = node_at f (getCategorizationPath E c f run)"
    unfolding node_at_def f' using p name(3) by (intro WriteJSONFile_frame) simp
qed

lemma write_categorization:
  assumes c: "collection_ok c" and run: "run_id_ok run" and ok: "writeCategorization E c f run k = (None, f')"
    and stat: "\<not> statErr E (getCategorizationPath E c f run)"
  shows "readCategorization E c f' run = Inr k"
proof -
  have p: "resolve (getCategorizationPath E c f run) = (resolve (fst (runBasePath E c f run)) @ [run]) @ [''categorization.json'']"
    unfolding getCategorizationPath_def using run_files [OF c run, of "''categorization.json''"] by (simp add: plain_comp_def)
  have f': "f' = put (getCategorizationPath E c f run) (FileNode (CategorizationFile k)) f"
    using ok by (auto simp: writeCategorization_def WriteJSONFile_def split: if_splits fault.splits)
  have "same_runs c run f f'"
    unfolding f' using run by (intro same_runs_file [OF c _ p]) (auto simp: run_id_ok_def)
  from same_runs_paths(6) [OF this, of E] stat show ?thesis
    unfolding readCategorization_def by (simp add: f' read_file_def node_at_def decode_categorization_def)
qed

lemma persist_categorization:
  assumes "collection_ok c" and "run_id_ok run"
  shows "readCategorization E c (snd (persistRunSizeLocked E c f run)) run = readCategorization E c f run"
  using persist_frame [of E c f run] write_other [OF assms, of "''metadata.json''", OF _ _ _ refl, of E f]
  unfolding getMetadataPath_def by (auto simp: plain_comp_def)

lemma apply_update_categorization:
  assumes c: "collection_ok c" and run: "run_id_ok run" and k: "readCategorization E c f run = Inr k"
    and ok: "apply_update E c run ops f = (Inr (), f')"
  shows "readCategorization E c f' run = Inr (foldl (\<lambda>k op. categorize op k) k ops)"
proof -
  obtain sc cat where u: "update_loop (Inr k) ops None None = Inr (sc, cat)"
    using ok k by (auto simp: apply_update_def split: sum.splits prod.splits)
  define f1 where "f1 = (case sc of None \<Rightarrow> f | Some ps \<Rightarrow> snd (updateHostSourceCodePaths E c f run ps))"
  define f2 where "f2 = (case cat of None \<Rightarrow> f1 | Some k' \<Rightarrow> snd (writeCategorization E c f1 run k'))"
  have f': "f' = snd (persistRunSizeLocked E c f2 run)"
    and cat: "cat = Some k' \<Longrightarrow> writeCategorization E c f1 run k' = (None, f2)" for k'
    using ok k u by (auto simp: apply_update_def f1_def f2_def split: option.splits prod.splits)
  have r1: "readCategorization E c f1 run = Inr k"
    using k write_other [OF c run, of "''source-code.json''", OF _ _ _ refl, of E f]
    by (auto simp: f1_def updateHostSourceCodePaths_def getSourceCodePath_def plain_comp_def split: option.splits prod.splits)
      (metis snd_conv)+
  have "readCategorization E c f2 run = Inr (case_option k (\<lambda>k. k) cat)"
  proof (cases cat)
    case None
    then show ?thesis using r1 by (simp add: f2_def)
  next
    case (Some k')
    have "\<not> statErr E (getCategorizationPath E c f1 run)"
      using r1 by (auto simp: readCategorization_def read_file_def Let_def)
    then show ?thesis using write_categorization [OF c run cat [OF Some]] Some by simp
  qed
  then show ?thesis
    using update_loop_result [OF u] persist_categorization [OF c run, of E f2] by (simp add: f')
qed

lemma lock_categorization:
  assumes c: "collection_ok c" and run: "run_id_ok run"
  shows "readCategorization E c (snd (lockRun E c f run shared)) run = readCategorization E c f run"
proof (rule readCategorization_cong)
  have plain: "plain_comp run" using run by (simp add: run_id_ok_def)
  note frame = lockRun_frame [OF plain, of c _ E f shared]
  show "same_runs c run f (snd (lockRun E c f run shared))"
    by (rule same_runs_locks [OF c plain frame])
  have "resolve (getCategorizationPath E c f run) = resolve (fst (runBasePath E c f run)) @ [run] @ [''categorization.json'']"
    unfolding getCategorizationPath_def by (rule run_files [OF c run]) (simp add: plain_comp_def)
  then have "off_locks c run (resolve (getCategorizationPath E c f run))"
    using off_locksI [OF c resolve_GetRunPath(2) [OF c plain, of E f]] by simp
  then show "node_at (snd (lockRun E c f run shared)) (getCategorizationPath E c f run) = node_at f (getCategorizationPath E c f run)"
    unfolding node_at_def by (rule frame)
qed

text \<open>
  After an update that succeeds, the categorization that is read back is the stored one changed by the
  normalised operations, one after the other; tags that were trimmed, not empty and without
  repetition stay so, whatever the client sends.
\<close>

theorem UpdateRun_categorization:
  assumes c: "collection_ok c" and run: "run_id_ok run" and k: "readCategorization E c f run = Inr k"
    and ops: "Normalize ops0 = Inr ops" and ok: "UpdateRun E c f run ops0 = (Inr (), f')"
  shows "readCategorization E c f' run = Inr (foldl (\<lambda>k op. categorize op k) k ops) \<and>
    (tags_ok (Tags k) \<longrightarrow> tags_ok (Tags (foldl (\<lambda>k op. categorize op k) k ops)))"
proof
  show "readCategorization E c f' run = Inr (foldl (\<lambda>k op. categorize op k) k ops)"
  proof (cases "ops = []")
    case True
    with ops ok k show ?thesis by (auto simp: UpdateRun_def split: if_splits)
  next
    case False
    with ops ok have "with_lock E c f run False (apply_update E c run ops) = (Inr (), f')" by (simp add: UpdateRun_def)
    then have "apply_update E c run ops (snd (lockRun E c f run False)) = (Inr (), f')"
      by (auto simp: with_lock_def split: prod.splits option.splits if_splits)
    then show ?thesis
      using k lock_categorization [OF c run, of E f False] by (intro apply_update_categorization [OF c run]) auto
  qed
  show "tags_ok (Tags k) \<longrightarrow> tags_ok (Tags (foldl (\<lambda>k op. categorize op k) k ops))"
    using categories.run_invar [OF Normalize_ok [OF ops], of k] by blast
qed

definition demo_update :: "RunUpdateOperation list" where
  "demo_update = [SetRunGroup '' night '', AddRunTags ['' x'', ''y'', ''x ''], RemoveRunTags [''y'']]"

theorem UpdateRun_categorization_witness:
  "readCategorization demo_run_env demo_collection (snd (UpdateRun demo_run_env demo_collection demo_fs ''a'' demo_update)) ''a'' =
     Inr \<lparr>Group = ''night'', Tags = [''x'']\<rparr> \<and> tags_ok [''x'']"
proof -
  let ?ops = "[SetRunGroup ''night'', AddRunTags [''x'', ''y''], RemoveRunTags [''y'']]"
  let ?u = "UpdateRun demo_run_env demo_collection demo_fs ''a'' demo_update"
  have k: "readCategorization demo_run_env demo_collection demo_fs ''a'' = Inr \<lparr>Group = [], Tags = []\<rparr>" by code_simp
  have n: "Normalize demo_update = Inr ?ops" by code_simp
  have "fst ?u = Inr ()" by code_simp
  then have ok: "?u = (Inr (), snd ?u)" by (metis prod.collapse)
  have id: "run_id_ok ''a''" by code_simp
  from UpdateRun_categorization [OF demo_collection_ok id k n ok] show ?thesis
    by (simp add: addRunTags_def removeRunTags_def tags_ok_Nil)
qed

end
