(* ===== verification/Recovery.thy ===== *)
theory Recovery
  imports RunTags
begin

text \<open>
  Recovery after a crash (core/apap-engine/recovery/recovery.go): runs that are recorded as in progress
  although no process holds their lease are marked as failed, and the sizes of finished runs are
  brought up to date. Listing, leases, descriptions and updates are those of the run collection.
\<close>

section \<open>The code\<close>

definition recovered_result :: "string \<Rightarrow> string option" where
  "recovered_result r =
     (if r = RecipeInProgress then Some RecipeFailureIncomplete
      else if r = RecipeInProgressPhase1Complete then Some RecipeFailureIncompletePhase1Complete
      else None)"

text \<open>One round of the loop; the text of the message for an incomplete run is an argument.\<close>

definition recover_one ::
  "run_env \<Rightarrow> RunCollection \<Rightarrow> (string \<Rightarrow> bool) \<Rightarrow> recipe_migration list \<Rightarrow> string \<Rightarrow> fs \<Rightarrow> string \<Rightarrow> run_error option \<times> fs" where
  "recover_one E c targetOk migrations incomplete f r =
     (case LeaseRun E c f r of
        (Some e, f1) \<Rightarrow> (None, f1)
      | (None, f1) \<Rightarrow>
         (case RunDescription E c targetOk migrations f1 r of
            (Inl e, f2) \<Rightarrow> (None, f2)
          | (Inr desc, f2) \<Rightarrow>
             (case recovered_result (dRunResult desc) of
                None \<Rightarrow> (None, f2)
              | Some recoveredResult \<Rightarrow>
                 (let f3 = snd (RemovePendingManifestEntries E c f2 r)
                  in case UpdateRunResult E c f3 r recoveredResult (Some incomplete) of
                       (Inl e, f4) \<Rightarrow> (Some e, f4)
                     | (Inr _, f4) \<Rightarrow>
                        (case SetRunEndTime E c f4 r of
                           (Inl e, f5) \<Rightarrow> (Some e, f5)
                         | (Inr _, f5) \<Rightarrow> (None, f5))))))"

fun recover_loop ::
  "run_env \<Rightarrow> RunCollection \<Rightarrow> (string \<Rightarrow> bool) \<Rightarrow> recipe_migration list \<Rightarrow> string \<Rightarrow> string list \<Rightarrow> fs \<Rightarrow> run_error option \<times> fs" where
  "recover_loop E c targetOk migrations incomplete [] f = (None, f)"
| "recover_loop E c targetOk migrations incomplete (r # rs) f =
     (case recover_one E c targetOk migrations incomplete f r of
        (Some e, f1) \<Rightarrow> (Some e, f1)
      | (None, f1) \<Rightarrow> recover_loop E c targetOk migrations incomplete rs f1)"

definition recoverStaleRuns ::
  "run_env \<Rightarrow> RunCollection \<Rightarrow> (string \<Rightarrow> bool) \<Rightarrow> recipe_migration list \<Rightarrow> string \<Rightarrow> fs \<Rightarrow> run_error option \<times> fs" where
  "recoverStaleRuns E c targetOk migrations incomplete f =
     (case ListRuns E c f of
        (Inl e, f1) \<Rightarrow> (Some e, f1)
      | (Inr runs, f1) \<Rightarrow> recover_loop E c targetOk migrations incomplete runs f1)"

text \<open>The number of runs whose size was updated; errors are only logged.\<close>

fun backfill_loop :: "run_env \<Rightarrow> RunCollection \<Rightarrow> string list \<Rightarrow> fs \<Rightarrow> nat \<times> fs" where
  "backfill_loop E c [] f = (0, f)"
| "backfill_loop E c (r # rs) f =
     (case PersistRunSize E c f r of (res, f1) \<Rightarrow>
       (case backfill_loop E c rs f1 of (n, f2) \<Rightarrow> (if res = Inr True then Suc n else n, f2)))"

definition backfillRunSizes :: "run_env \<Rightarrow> RunCollection \<Rightarrow> fs \<Rightarrow> nat \<times> fs" where
  "backfillRunSizes E c f =
     (case ListRuns E c f of (Inl e, f1) \<Rightarrow> (0, f1) | (Inr runs, f1) \<Rightarrow> backfill_loop E c runs f1)"

section \<open>What an operation on one run leaves alone\<close>

text \<open>No directory of the collection lies inside another.\<close>

definition bases_apart :: "RunCollection \<Rightarrow> bool" where
  "bases_apart c \<longleftrightarrow>
     list_all (\<lambda>b. list_all (\<lambda>b'. resolve b = resolve b' \<or> \<not> prefix (resolve b) (resolve b') \<and> \<not> prefix (resolve b') (resolve b))
       (allPaths c)) (allPaths c)"

text \<open>The part of the file system that belongs to a run.\<close>

definition of_run :: "RunCollection \<Rightarrow> string \<Rightarrow> string list \<Rightarrow> bool" where
  "of_run c r k \<longleftrightarrow> list_ex (\<lambda>b. prefix (resolve b @ [r]) k) (allPaths c)"

definition same_view :: "RunCollection \<Rightarrow> string \<Rightarrow> fs \<Rightarrow> fs \<Rightarrow> bool" where
  "same_view c r f f' \<longleftrightarrow> (\<forall>k. of_run c r k \<longrightarrow> map_of f' k = map_of f k)"

definition keeps_files :: "fs \<Rightarrow> fs \<Rightarrow> bool" where
  "keeps_files f f' \<longleftrightarrow> (\<forall>k x. map_of f k = Some (FileNode x) \<longrightarrow> (\<exists>y. map_of f' k = Some (FileNode y)))"

text \<open>What an operation on run \<open>r\<close> may do.\<close>

definition confined :: "RunCollection \<Rightarrow> string \<Rightarrow> fs \<Rightarrow> fs \<Rightarrow> bool" where
  "confined c r f f' \<longleftrightarrow> keeps_files f f' \<and> (\<forall>k. off_locks c r k \<and> \<not> of_run c r k \<longrightarrow> map_of f' k = map_of f k)"

lemma confined_refl [simp]: "confined c r f f"
  by (auto simp: confined_def keeps_files_def)

lemma confined_trans [trans]: "confined c r f g \<Longrightarrow> confined c r g h \<Longrightarrow> confined c r f h"
  unfolding confined_def keeps_files_def by (metis (no_types, lifting))

lemma of_run_apart:
  assumes "collection_ok c" and "bases_apart c" and "r \<noteq> r'" and "of_run c r k"
  shows "off_locks c r' k \<and> \<not> of_run c r' k"
proof -
  obtain b where b: "b \<in> set (allPaths c)" "prefix (resolve b @ [r]) k" using assms(4) by (auto simp: of_run_def list_ex_iff)
  have "\<not> prefix (resolve b' @ [r']) k" if b': "b' \<in> set (allPaths c)" for b'
  proof
    assume k': "prefix (resolve b' @ [r']) k"
    have "prefix (resolve b) (resolve b') \<or> prefix (resolve b') (resolve b)"
      using b(2) k' by (meson append_prefixD prefix_same_cases)
    then have "resolve b = resolve b'" using assms(2) b(1) b' by (auto simp: bases_apart_def list_all_iff)
    with b(2) k' assms(3) show False by (auto simp: prefix_def)
  qed
  moreover have "off_locks c r' k" using off_locksI [OF assms(1) b(1)] b(2) append_prefixD by blast
  ultimately show ?thesis by (auto simp: of_run_def list_ex_iff)
qed

lemma confined_view: "collection_ok c \<Longrightarrow> bases_apart c \<Longrightarrow> r \<noteq> r' \<Longrightarrow> confined c r' f f' \<Longrightarrow> same_view c r f f'"
  using of_run_apart by (auto simp: confined_def same_view_def)

lemma same_view_trans: "same_view c r f g \<Longrightarrow> same_view c r g h \<Longrightarrow> same_view c r f h"
  by (simp add: same_view_def)

lemma same_view_refl [simp]: "same_view c r f f"
  by (simp add: same_view_def)

section \<open>Locks\<close>

lemma try_lock_keeps: "keeps_files f (snd (try_lock E c f shared r name))"
proof -
  have "keeps_files f (snd (MkdirAll E f p))" for p
    by (auto simp: keeps_files_def MkdirAll_def make_dirs_other)
  moreover have "keeps_files f1 (if node_at f1 p = None then put p (FileNode x) f1 else f1)" for f1 p x
    by (auto simp: keeps_files_def node_at_def)
  ultimately show ?thesis
    unfolding try_lock_def by (auto simp: Let_def keeps_files_def split: prod.splits) (metis snd_conv)+
qed

lemma lock_confined:
  assumes "plain_comp r"
  shows "confined c r f (snd (lockRun E c f r shared))" and "confined c r f (snd (LeaseRun E c f r))"
  using lockRun_frame [OF assms] LeaseRun_frame [OF assms] try_lock_keeps
  by (auto simp: confined_def lockRun_def LeaseRun_def keeps_files_def)

lemma lock_view:
  assumes "collection_ok c" and "plain_comp r"
  shows "same_view c r f (snd (lockRun E c f r shared))" and "same_view c r f (snd (LeaseRun E c f r))"
proof -
  have "off_locks c r k" if "of_run c r k" for k
    using that off_locksI [OF assms(1)] append_prefixD by (fastforce simp: of_run_def list_ex_iff)
  then show "same_view c r f (snd (lockRun E c f r shared))" "same_view c r f (snd (LeaseRun E c f r))"
    using lockRun_frame [OF assms(2)] LeaseRun_frame [OF assms(2)] by (simp_all add: same_view_def)
qed

lemma try_lock_earlier:
  assumes "fst (try_lock E c f' shared r name) = None" and "keeps_files f f'"
  shows "fst (try_lock E c f shared r name) = None"
proof -
  have *: "\<not> mkdirErr E (getLockDir c r)" "\<not> busy E shared (PathJoin (getLockDir c r) name)"
    "\<not> list_ex (\<lambda>k. map_of f' k \<noteq> None \<and> map_of f' k \<noteq> Some DirNode) (prefixes (resolve (getLockDir c r)))"
    using assms(1) by (auto simp: try_lock_def MkdirAll_def Let_def split: if_splits)
  have "\<not> list_ex (\<lambda>k. map_of f k \<noteq> None \<and> map_of f k \<noteq> Some DirNode) (prefixes (resolve (getLockDir c r)))"
  proof
    assume "list_ex (\<lambda>k. map_of f k \<noteq> None \<and> map_of f k \<noteq> Some DirNode) (prefixes (resolve (getLockDir c r)))"
    then obtain k n where k: "k \<in> set (prefixes (resolve (getLockDir c r)))" "map_of f k = Some n" "n \<noteq> DirNode"
      by (auto simp: list_ex_iff)
    then obtain x where "n = FileNode x" by (cases n) auto
    with assms(2) k(2) obtain y where "map_of f' k = Some (FileNode y)" by (auto simp: keeps_files_def)
    with *(3) k(1) show False by (auto simp: list_ex_iff simp del: in_set_prefixes)
  qed
  with *(1,2) show ?thesis by (auto simp: try_lock_def MkdirAll_def Let_def)
qed

lemma LeaseRun_earlier:
  "LeaseRun E c f' r = (None, g') \<Longrightarrow> keeps_files f f' \<Longrightarrow> fst (LeaseRun E c f r) = None"
  using try_lock_earlier [of E c f' False r "''leasefile''" f] unfolding LeaseRun_def
  by (cases "r = [] \<or> ContainsAny r (''./'' @ [CHR 0x5C])") auto

lemma lockRun_earlier:
  assumes "fst (lockRun E c f' r shared) = None" and "keeps_files f f'" and "runExists E c f r"
  shows "fst (lockRun E c f r shared) = None"
  using assms try_lock_earlier [of E c f' shared r "''lockfile''" f] by (auto simp: lockRun_def split: if_splits)

section \<open>What is read of a run\<close>

lemma view_runs: "collection_ok c \<Longrightarrow> plain_comp r \<Longrightarrow> same_view c r f f' \<Longrightarrow> same_runs c r f f'"
proof -
  assume c: "collection_ok c" and r: "plain_comp r" and v: "same_view c r f f'"
  have "resolve (PathJoin b r) = resolve b @ [r]" if "b \<in> set (allPaths c)" for b
    using c r that by (intro resolve_PathJoin) (auto simp: collection_ok_def list_all_iff)
  then show ?thesis
    using v by (auto simp: same_view_def of_run_def list_ex_iff same_runs_def list_all_iff node_at_def)
qed

lemma run_file_key:
  assumes "collection_ok c" and "plain_comp r" and "plain_comp name"
  shows "resolve (PathJoin (PathJoin (fst (runBasePath E c f r)) r) name) = resolve (fst (runBasePath E c f r)) @ [r] @ [name]"
    and "of_run c r (resolve (PathJoin (PathJoin (fst (runBasePath E c f r)) r) name))"
proof -
  have b: "fst (runBasePath E c f r) \<in> set (allPaths c)" by (rule resolve_GetRunPath(2) [OF assms(1,2)])
  then have "fst (runBasePath E c f r) \<noteq> []" using assms(1) by (auto simp: collection_ok_def list_all_iff)
  then show "resolve (PathJoin (PathJoin (fst (runBasePath E c f r)) r) name) = resolve (fst (runBasePath E c f r)) @ [r] @ [name]"
    using assms(2,3) by (simp add: resolve_PathJoin)
  with b show "of_run c r (resolve (PathJoin (PathJoin (fst (runBasePath E c f r)) r) name))"
    by (auto simp: of_run_def list_ex_iff intro!: bexI [of _ "fst (runBasePath E c f r)"])
qed

lemma view_reads:
  assumes c: "collection_ok c" and r: "plain_comp r" and v: "same_view c r f f'"
  shows "runExists E c f' r = runExists E c f r" and "readMetadata E c f' r = readMetadata E c f r"
    and "readManifest E c f' r = readManifest E c f r" and "describe E c T M r f' = describe E c T M r f"
proof -
  note same = same_runs_paths [OF view_runs [OF c r v], of E]
  have at: "node_at f' (PathJoin (PathJoin (fst (runBasePath E c f r)) r) name) = node_at f (PathJoin (PathJoin (fst (runBasePath E c f r)) r) name)"
    if "plain_comp name" for name
    using run_file_key(2) [OF c r that] v by (simp add: same_view_def node_at_def)
  show "runExists E c f' r = runExists E c f r" by (rule same(2))
  show md: "readMetadata E c f' r = readMetadata E c f r"
    using at [of "''metadata.json''"] same(4) by (simp add: readMetadata_def read_file_def getMetadataPath_def plain_comp_def)
  show mf: "readManifest E c f' r = readManifest E c f r"
    using at [of "''manifest.json''"] same(5) by (simp add: readManifest_def read_file_def getManifestPath_def plain_comp_def)
  have cat: "readCategorization E c f' r = readCategorization E c f r"
    using at [of "''categorization.json''"] view_runs [OF c r v]
    by (intro readCategorization_cong) (simp_all add: getCategorizationPath_def plain_comp_def)
  show "describe E c T M r f' = describe E c T M r f" unfolding describe_def md mf cat ..
qed

section \<open>The operations are confined to their run\<close>

lemma write_confined:
  assumes "collection_ok c" and "plain_comp r" and "plain_comp name"
  shows "confined c r f (snd (WriteJSONFile E f (PathJoin (PathJoin (fst (runBasePath E c f r)) r) name) x))"
    and "confined c r f (snd (WriteJSONFileAtomic E f (PathJoin (PathJoin (fst (runBasePath E c f r)) r) name) x))"
  using run_file_key(2) [OF assms, of E f]
  by (auto simp: confined_def keeps_files_def WriteJSONFile_def WriteJSONFileAtomic_def split: fault.splits)

lemma with_lock_confined:
  assumes "plain_comp r" and "\<And>g. confined c r g (snd (work g))"
  shows "confined c r f (snd (with_lock E c f r shared work))"
proof -
  have "confined c r f (snd (work (snd (lockRun E c f r shared))))"
    using lock_confined(1) [OF assms(1)] assms(2) by (rule confined_trans)
  with lock_confined(1) [OF assms(1), of c f E shared] show ?thesis
    unfolding with_lock_def by (auto split: prod.splits option.splits)
qed

lemma save_confined:
  "collection_ok c \<Longrightarrow> plain_comp r \<Longrightarrow> confined c r f (snd (save_metadata E c f r err md))"
  using write_confined(1) [of c r "''metadata.json''" f E "MetadataFile md"]
  by (auto simp: save_metadata_def writeMetadata_def getMetadataPath_def plain_comp_def split: prod.splits)

lemma operations_confined:
  assumes c: "collection_ok c" and r: "plain_comp r"
  shows "confined c r f (snd (RunDescription E c T M f r))"
    and "confined c r f (snd (RemovePendingManifestEntries E c f r))"
    and "confined c r f (snd (UpdateRunResult E c f r result human))"
    and "confined c r f (snd (SetRunEndTime E c f r))"
proof -
  show "confined c r f (snd (RunDescription E c T M f r))"
    unfolding RunDescription_def by (rule with_lock_confined [OF r]) simp
  show "confined c r f (snd (RemovePendingManifestEntries E c f r))"
    using write_confined(2) [OF c r, of "''manifest.json''" f E]
    by (auto simp: RemovePendingManifestEntries_def writeManifest_def getManifestPath_def plain_comp_def split: sum.splits prod.splits)
      (metis snd_conv)+
  show "confined c r f (snd (UpdateRunResult E c f r result human))"
    unfolding UpdateRunResult_def by (rule with_lock_confined [OF r]) (auto simp: Let_def save_confined [OF c r] split: sum.splits)
  show "confined c r f (snd (SetRunEndTime E c f r))"
    unfolding SetRunEndTime_def by (rule with_lock_confined [OF r]) (auto simp: save_confined [OF c r] split: sum.splits)
qed

lemma recover_one_after_lease:
  assumes c: "collection_ok c" and r: "plain_comp r"
  shows "confined c r (snd (LeaseRun E c f r)) (snd (recover_one E c T M msg f r))"
proof -
  define f1 where "f1 = snd (LeaseRun E c f r)"
  define f2 where "f2 = snd (RunDescription E c T M f1 r)"
  define f3 where "f3 = snd (RemovePendingManifestEntries E c f2 r)"
  have 2: "confined c r f1 f2" unfolding f2_def by (rule operations_confined(1) [OF c r])
  have 3: "confined c r f1 f3" unfolding f3_def using 2 operations_confined(2) [OF c r] by (rule confined_trans)
  have 4: "confined c r f1 (snd (UpdateRunResult E c f3 r res human))" for res human
    using 3 operations_confined(3) [OF c r] by (rule confined_trans)
  have 5: "confined c r f1 (snd (SetRunEndTime E c (snd (UpdateRunResult E c f3 r res human)) r))" for res human
    using 4 operations_confined(4) [OF c r] by (rule confined_trans)
  from 2 3 4 5 show ?thesis
    unfolding recover_one_def Let_def f1_def f2_def f3_def by (auto split: prod.splits option.splits sum.splits) (metis snd_conv)+
qed

lemma recover_one_confined:
  assumes c: "collection_ok c"
  shows "confined c r f (snd (recover_one E c T M msg f r))"
proof (cases "plain_comp r")
  case False
  then show ?thesis by (simp add: recover_one_def LeaseRun_invalid)
next
  case True
  show ?thesis using lock_confined(2) [OF True] recover_one_after_lease [OF c True] by (rule confined_trans)
qed

lemma recover_loop_keeps: "collection_ok c \<Longrightarrow> keeps_files f (snd (recover_loop E c T M msg rs f))"
proof (induction rs arbitrary: f)
  case Nil
  then show ?case by (simp add: keeps_files_def)
next
  case (Cons r rs)
  obtain e f1 where one: "recover_one E c T M msg f r = (e, f1)" by fastforce
  have "keeps_files f f1" using recover_one_confined [OF Cons.prems, of r f E T M msg] one by (simp add: confined_def)
  with Cons.IH [OF Cons.prems, of f1] show ?case
    unfolding recover_loop.simps one by (cases e) (auto simp: keeps_files_def)
qed

lemma recover_loop_view:
  assumes "collection_ok c" and "bases_apart c" and "r \<notin> set rs"
  shows "same_view c r f (snd (recover_loop E c T M msg rs f))"
  using assms(3)
proof (induction rs arbitrary: f)
  case (Cons r' rs)
  obtain e f1 where one: "recover_one E c T M msg f r' = (e, f1)" by fastforce
  have "same_view c r f f1"
    using confined_view [OF assms(1,2), of r r' f f1] recover_one_confined [OF assms(1), of r' f E T M msg] one Cons.prems by simp
  with Cons.IH [of f1] Cons.prems show ?case unfolding recover_loop.simps one by (cases e) (auto intro: same_view_trans)
qed simp

section \<open>One round settles a run\<close>

lemma save_read:
  assumes "save_metadata E c f r err md = (Inr u, f')" and "readMetadata E c f r = Inr md0"
  shows "readMetadata E c f' r = Inr md"
proof -
  let ?p = "getMetadataPath E c f r"
  have f': "f' = put ?p (FileNode (MetadataFile md)) f"
    using assms(1) by (auto simp: save_metadata_def writeMetadata_def WriteJSONFile_def split: if_splits fault.splits)
  have "node_at f ?p \<noteq> None" and stat: "\<not> statErr E ?p"
    using assms(2) by (auto simp: readMetadata_def read_file_def split: option.splits if_splits)
  then have "same_runs c r f f'" unfolding f' by (intro same_runs_put)
  from same_runs_paths(4) [OF this, of E] stat show ?thesis
    by (simp add: f' readMetadata_def read_file_def decode_metadata_def node_at_def)
qed

lemma with_lock_Inr: "with_lock E c f r shared work = (Inr x, f') \<Longrightarrow> work (snd (lockRun E c f r shared)) = (Inr x, f')"
  by (auto simp: with_lock_def split: prod.splits option.splits if_splits)

lemma UpdateRunResult_read:
  assumes "UpdateRunResult E c f r res human = (Inr u, f')"
  shows "\<exists>md. readMetadata E c f' r = Inr md \<and> mdRunResult md = res"
  using with_lock_Inr [OF assms [unfolded UpdateRunResult_def]]
  by (auto simp: Let_def dest!: save_read split: sum.splits option.splits)

lemma SetRunEndTime_read:
  assumes "collection_ok c" and "plain_comp r" and "SetRunEndTime E c f r = (Inr u, f')" and "readMetadata E c f r = Inr md"
  shows "\<exists>md'. readMetadata E c f' r = Inr md' \<and> mdRunResult md' = mdRunResult md"
  using with_lock_Inr [OF assms(3) [unfolded SetRunEndTime_def]] assms(4)
    view_reads(2) [OF assms(1,2) lock_view(1) [OF assms(1,2), of f E False], of E]
  by (auto dest!: save_read split: if_splits)

lemma RunDescription_iff:
  assumes c: "collection_ok c" and r: "plain_comp r"
  shows "RunDescription E c T M f r = (Inr d, f') \<longleftrightarrow>
    fst (lockRun E c f r True) = None \<and> runExists E c f r \<and> describe E c T M r f = Inr d \<and> f' = snd (lockRun E c f r True)"
proof -
  note v = lock_view(1) [OF c r, of f E True]
  show ?thesis
    using view_reads(1,4) [OF c r v, of E] unfolding RunDescription_def with_lock_def
    by (auto split: prod.splits option.splits if_splits)
qed

lemma RunDescription_view:
  "collection_ok c \<Longrightarrow> plain_comp r \<Longrightarrow> same_view c r f (snd (RunDescription E c T M f r))"
  using lock_view(1) [of c r f E True] unfolding RunDescription_def with_lock_def
  by (auto split: prod.splits option.splits)

lemma recovered_result_None: "recovered_result res = None \<longleftrightarrow> \<not> RecipeResultIsInProgress res"
  by (simp add: recovered_result_def RecipeResultIsInProgress_def RecipeResultIsRunning_def RecipeResultIsCompletingTransfer_def)

lemma recovered_result_Some: "recovered_result res = Some res' \<Longrightarrow> \<not> RecipeResultIsInProgress res'"
  by (auto simp: recovered_result_def RecipeResultIsInProgress_def RecipeResultIsRunning_def RecipeResultIsCompletingTransfer_def
      split: if_splits)

text \<open>How a round ends without an error, when the lease is free.\<close>

lemma recover_one_cases:
  assumes c: "collection_ok c" and r: "plain_comp r" and one: "recover_one E c T M msg f r = (None, f1)"
    and lease: "fst (LeaseRun E c f r) = None"
  obtains "same_view c r f f1" "\<forall>d g. RunDescription E c T M (snd (LeaseRun E c f r)) r = (Inr d, g) \<longrightarrow> \<not> RecipeResultIsInProgress (dRunResult d)"
    | md where "readMetadata E c f1 r = Inr md" "\<not> RecipeResultIsInProgress (mdRunResult md)"
proof -
  obtain g where l: "LeaseRun E c f r = (None, g)" using lease by (metis prod.collapse)
  obtain res f2 where d: "RunDescription E c T M g r = (res, f2)" by fastforce
  have v: "same_view c r f f2"
    using lock_view(2) [OF c r, of f E] RunDescription_view [OF c r, of g E T M] l d by (auto intro: same_view_trans)
  show thesis
  proof (cases "\<exists>d. res = Inr d \<and> RecipeResultIsInProgress (dRunResult d)")
    case False
    then have "recovered_result (dRunResult d) = None" if "res = Inr d" for d
      using that recovered_result_None by blast
    with one l d have "f1 = f2" by (auto simp: recover_one_def split: sum.splits)
    then show thesis using that(1) v l d False by simp
  next
    case True
    then obtain desc res' where res: "res = Inr desc" "recovered_result (dRunResult desc) = Some res'"
      using recovered_result_None by fastforce
    obtain u f4 where up: "UpdateRunResult E c (snd (RemovePendingManifestEntries E c f2 r)) r res' (Some msg) = (Inr u, f4)"
      and set: "SetRunEndTime E c f4 r = (Inr u, f1)"
      using one l d res by (auto simp: recover_one_def Let_def split: sum.splits prod.splits)
    from UpdateRunResult_read [OF up] obtain md where "readMetadata E c f4 r = Inr md" "mdRunResult md = res'" by blast
    with SetRunEndTime_read [OF c r set] recovered_result_Some [OF res(2)] show thesis using that(2) by auto
  qed
qed

lemma recover_one_settles:
  assumes c: "collection_ok c" and one: "recover_one E c T M msg f r = (None, f1)"
    and view: "same_view c r f1 f'" and keeps: "keeps_files f1 f'"
    and lease: "LeaseRun E c f' r = (None, fl)" and desc: "RunDescription E c T M f' r = (Inr d, fd)"
  shows "\<not> RecipeResultIsInProgress (dRunResult d)"
proof -
  have r: "plain_comp r" by (rule LeaseRun_plain [OF lease])
  let ?g = "snd (LeaseRun E c f r)"
  have k: "keeps_files f f'" "keeps_files ?g f'"
    using recover_one_confined [OF c, of r f E T M msg] recover_one_after_lease [OF c r, of E f T M msg] one keeps
    by (auto simp: confined_def keeps_files_def)
  have lock: "fst (lockRun E c f' r True) = None" "runExists E c f' r" "describe E c T M r f' = Inr d"
    using desc RunDescription_iff [OF c r] by auto
  from LeaseRun_earlier [OF lease k(1)] have "fst (LeaseRun E c f r) = None" .
  with c r one show ?thesis
  proof (cases rule: recover_one_cases)
    case 1
    have v: "same_view c r ?g f'"
      using 1(1) view lock_view(2) [OF c r, of f E] by (auto simp: same_view_def)
    have "runExists E c ?g r" "describe E c T M r ?g = Inr d"
      using lock(2,3) view_reads(1,4) [OF c r v, of E] by auto
    moreover from lockRun_earlier [OF lock(1) k(2) this(1)] have "fst (lockRun E c ?g r True) = None" .
    ultimately show ?thesis using 1(2) RunDescription_iff [OF c r, of E T M ?g d] by blast
  next
    case (2 md)
    then have "readMetadata E c f' r = Inr md" using view_reads(2) [OF c r view] by simp
    with lock(3) 2(2) show ?thesis by (auto simp: describe_def split: sum.splits if_splits)
  qed
qed

lemma recover_loop_settles:
  assumes c: "collection_ok c" and ap: "bases_apart c"
    and lease: "LeaseRun E c f' r = (None, fl)" and desc: "RunDescription E c T M f' r = (Inr d, fd)"
  shows "recover_loop E c T M msg rs f = (None, f') \<Longrightarrow> r \<in> set rs \<Longrightarrow> \<not> RecipeResultIsInProgress (dRunResult d)"
proof (induction rs arbitrary: f)
  case (Cons r' rs)
  obtain f1 where one: "recover_one E c T M msg f r' = (None, f1)" and rest: "recover_loop E c T M msg rs f1 = (None, f')"
    using Cons.prems(1) by (auto split: prod.splits option.splits)
  show ?case
  proof (cases "r \<in> set rs")
    case True
    with Cons.IH [OF rest] show ?thesis .
  next
    case False
    with Cons.prems have "r' = r" by simp
    then show ?thesis
      using recover_one_settles [OF c one [unfolded \<open>r' = r\<close>] _ _ lease desc] recover_loop_view [OF c ap False, of f1 E T M msg]
        recover_loop_keeps [OF c, of f1 E T M msg rs] rest by simp
  qed
qed simp


definition stale_fs :: fs where
  "stale_fs =
     [([], DirNode), ([''p''], DirNode), ([''p'', ''runs''], DirNode), ([''p'', ''runs'', ''a''], DirNode),
      ([''p'', ''runs'', ''a'', ''metadata.json''], FileNode (MetadataFile (zero_metadata\<lparr>mdRunResult := RecipeInProgress\<rparr>))),
      ([''p'', ''runs'', ''a'', ''manifest.json''],
       FileNode (ManifestFile \<lparr>Entries = [\<lparr>mePath = ''x'', meType = \<lparr>ctName = ''csv'', SchemaVersion = ''1.0''\<rparr>, mePending = True\<rparr>], ToolsUsed = []\<rparr>))]"

definition after_recovery :: fs where
  "after_recovery = snd (recoverStaleRuns demo_run_env demo_collection (\<lambda>_. True) [] ''incomplete'' stale_fs)"


end
