(* ===== verification/Archive.thy ===== *)
theory Archive
  imports Recovery
begin

text \<open>
  Export and import of runs as zip archives (core/apap-engine/run/run.go): the checks on an archive, the
  extraction, which must not leave its directory whatever the names of the entries are, and the move
  of the extracted run into the collection. An archive is the list of its entries; an archive that
  cannot be opened is \<open>None\<close>. The name of the temporary directory, the working directory of the process,
  the UUIDs and whether an error is for want of disk space are arguments.
\<close>

section \<open>Archives\<close>

record zip_entry =
  zName :: string
  zIsDir :: bool
  zContent :: content
  zSize :: "64 word"

type_synonym archive = "zip_entry list"

datatype import_error =
  ZipUnreadable
| ZipEmpty
| TopLevelFile string
| TopLevels nat
| MissingFiles "string list"
| BadRoot string
| NoRunID run_error
| LowDiskSpace
| ZipInvalid
| ImportFailed

text \<open>\<open>filepath.Base\<close>.\<close>

definition path_Base :: "string \<Rightarrow> string" where
  "path_Base p =
     (if p = [] then ''.''
      else let q = rev (dropWhile (\<lambda>c. c = CHR ''/'') (rev p))
           in if q = [] then ''/'' else last (Split q (CHR ''/'')))"

text \<open>The loop of the check: the top-level names, and which of the two files were found.\<close>

fun validate_loop :: "archive \<Rightarrow> string list \<Rightarrow> bool \<Rightarrow> bool \<Rightarrow> import_error + string list \<times> bool \<times> bool" where
  "validate_loop [] topLevels hasManifest hasMetadata = Inr (topLevels, hasManifest, hasMetadata)"
| "validate_loop (file # files) topLevels hasManifest hasMetadata =
     (let normalized = TrimPrefix (zName file) ''/'' in
      if normalized = [] \<or> normalized = ''.'' then validate_loop files topLevels hasManifest hasMetadata
      else
        let parts = Split normalized (CHR ''/''); topLevel = hd parts in
        if topLevel = [] then validate_loop files topLevels hasManifest hasMetadata
        else
          let topLevels' = List.insert topLevel topLevels in
          if length parts = 1 then
            (if \<not> zIsDir file then Inl (TopLevelFile (zName file))
             else validate_loop files topLevels' hasManifest hasMetadata)
          else if length parts = 2 \<and> \<not> zIsDir file then
            validate_loop files topLevels' (hasManifest \<or> parts ! 1 = ''manifest.json'') (hasMetadata \<or> parts ! 1 = ''metadata.json'')
          else validate_loop files topLevels' hasManifest hasMetadata)"

definition validateZipArchive :: "archive \<Rightarrow> import_error option" where
  "validateZipArchive r =
     (case validate_loop r [] False False of
        Inl e \<Rightarrow> Some e
      | Inr (topLevels, hasManifest, hasMetadata) \<Rightarrow>
          if length topLevels \<noteq> 1 then Some (TopLevels (length topLevels))
          else
            let missing = (if \<not> hasMetadata then [''metadata.json''] else []) @ (if \<not> hasManifest then [''manifest.json''] else [])
            in if missing \<noteq> [] then Some (MissingFiles missing) else None)"

definition getRunIDFromZip :: "archive option \<Rightarrow> import_error + string" where
  "getRunIDFromZip zipped =
     (case zipped of
        None \<Rightarrow> Inl ZipUnreadable
      | Some [] \<Rightarrow> Inl ZipEmpty
      | Some (file # files) \<Rightarrow>
         (case validateZipArchive (file # files) of
            Some e \<Rightarrow> Inl e
          | None \<Rightarrow> Inr (path_Base (zName file))))"

text \<open>The size is only used in messages.\<close>

fun unzip_size :: "archive \<Rightarrow> 64 word \<Rightarrow> 64 word option" where
  "unzip_size [] acc = Some acc"
| "unzip_size (file # files) acc =
     (if zIsDir file then unzip_size files acc
      else if zSize file > - 1 - acc then None
      else unzip_size files (acc + zSize file))"

section \<open>Extraction\<close>

definition AbsPath :: "string \<Rightarrow> string \<Rightarrow> string" where
  "AbsPath cwd p = (if IsAbs p then Clean p else PathJoin cwd p)"

definition sanitizeArchiveEntry :: "run_env \<Rightarrow> string \<Rightarrow> fs \<Rightarrow> string \<Rightarrow> string \<Rightarrow> string option" where
  "sanitizeArchiveEntry E cwd f entryPath dstDir =
     (let dstDirAbs = AbsPath cwd dstDir in
      if IsAbs entryPath then None
      else
        let entryPathAbs = AbsPath cwd (PathJoin dstDir entryPath) in
        if PathExists E f entryPathAbs = Some True then None
        else if \<not> IsChildPath dstDirAbs entryPathAbs then None
        else Some entryPathAbs)"

definition extract_file :: "run_env \<Rightarrow> fs \<Rightarrow> string \<Rightarrow> content \<Rightarrow> bool \<times> fs" where
  "extract_file E f fpath c =
     (case MkdirAll E f (path_Dir fpath) of (ok, f1) \<Rightarrow>
        if \<not> ok then (False, f1) else WriteJSONFile E f1 fpath c)"

fun unzip_loop :: "run_env \<Rightarrow> string \<Rightarrow> string \<Rightarrow> archive \<Rightarrow> fs \<Rightarrow> bool \<times> fs" where
  "unzip_loop E cwd dstDir [] f = (True, f)"
| "unzip_loop E cwd dstDir (file # files) f =
     (case sanitizeArchiveEntry E cwd f (zName file) dstDir of
        None \<Rightarrow> (False, f)
      | Some fpath \<Rightarrow>
         (case (if zIsDir file then MkdirAll E f fpath else extract_file E f fpath (zContent file)) of (ok, f1) \<Rightarrow>
            if \<not> ok then (False, f1) else unzip_loop E cwd dstDir files f1))"

definition unzip :: "run_env \<Rightarrow> string \<Rightarrow> archive \<Rightarrow> string \<Rightarrow> fs \<Rightarrow> bool \<times> fs" where
  "unzip E cwd files dstDir f =
     (case MkdirAll E f dstDir of (ok, f1) \<Rightarrow> if \<not> ok then (False, f1) else unzip_loop E cwd dstDir files f1)"

section \<open>Import\<close>

text \<open>
  \<open>os.Rename\<close> of a directory: the target must not exist, unless it is an empty directory; everything
  below the source moves.
\<close>

definition Rename :: "fs \<Rightarrow> string list \<Rightarrow> string list \<Rightarrow> bool \<times> fs" where
  "Rename f src dst =
     (if map_of f src = None \<or> prefix src dst \<or> map_of f (butlast dst) \<noteq> Some DirNode \<or>
         list_ex (\<lambda>(k, n). prefix dst k \<and> (k \<noteq> dst \<or> n \<noteq> DirNode)) f \<or>
         map_of f dst = Some DirNode \<and> map_of f src \<noteq> Some DirNode
      then (False, f)
      else (True, map (\<lambda>(k, n). if prefix src k then (dst @ drop (length src) k, n) else (k, n))
                    (filter (\<lambda>(k, n). \<not> prefix dst k) f)))"

text \<open>\<open>os.MkdirTemp\<close>: the directory is new; the random part of its name is part of the argument.\<close>

definition MkdirTemp :: "run_env \<Rightarrow> fs \<Rightarrow> string \<Rightarrow> string \<Rightarrow> string option \<times> fs" where
  "MkdirTemp E f dir name =
     (case Mkdir E f (PathJoin dir name) of (ok, f') \<Rightarrow> (if ok then Some (PathJoin dir name) else None, f'))"

definition import_into ::
  "run_env \<Rightarrow> RunCollection \<Rightarrow> bool \<Rightarrow> string \<Rightarrow> archive \<Rightarrow> string \<Rightarrow> string \<Rightarrow> string \<Rightarrow> fs \<Rightarrow> (import_error + string) \<times> fs" where
  "import_into E c low cwd files oldID run tempDir f =
     (case unzip E cwd files tempDir f of (ok, f1) \<Rightarrow>
        if \<not> ok then (Inl (if low then LowDiskSpace else ZipInvalid), f1)
        else case Rename f1 (resolve (PathJoin tempDir oldID)) (resolve (PathJoin (primaryPath c) run)) of (ok, f2) \<Rightarrow>
          if \<not> ok then (Inl (if low then LowDiskSpace else ZipInvalid), f2)
          else (Inr run, snd (PersistRunSize E c f2 run)))"

text \<open>The temporary directory is removed at the end, whatever happened.\<close>

definition ImportRun ::
  "run_env \<Rightarrow> RunCollection \<Rightarrow> bool \<Rightarrow> string \<Rightarrow> string list \<Rightarrow> string \<Rightarrow> archive option \<Rightarrow> fs \<Rightarrow> (import_error + string) \<times> fs" where
  "ImportRun E c low cwd uuids tempName zipped f =
     (case getRunIDFromZip zipped of
        Inl e \<Rightarrow> (Inl e, f)
      | Inr oldID \<Rightarrow>
          if oldID = [] \<or> ContainsAny oldID (''./'' @ [CHR 0x5C]) then (Inl (BadRoot oldID), f)
          else case (if runExists E c f oldID then getNextRunID E c f uuids else Inr oldID) of
                 Inl e \<Rightarrow> (Inl (NoRunID e), f)
               | Inr run \<Rightarrow>
                  (case MkdirTemp E f (primaryPath c) tempName of
                     (None, f1) \<Rightarrow> (Inl (if low then LowDiskSpace else ImportFailed), f1)
                   | (Some tempDir, f1) \<Rightarrow>
                      (case import_into E c low cwd (the zipped) oldID run tempDir f1 of (res, f2) \<Rightarrow>
                         (res, snd (RemoveAll E f2 tempDir)))))"

section \<open>Export\<close>

text \<open>
  \<open>filepath.Walk\<close> visits a tree in the lexical order of the components, parents first. The directory
  of the renders is left out.
\<close>

definition in_render :: "string list \<Rightarrow> bool" where
  "in_render rel \<longleftrightarrow> rel \<noteq> [] \<and> hd rel = ''render''"

definition walk_keys :: "fs \<Rightarrow> string list \<Rightarrow> string list list" where
  "walk_keys f src = sort (remdups (map fst (filter (\<lambda>(k, n). prefix src k \<and> \<not> in_render (drop (length src) k)) f)))"

definition zip_header :: "run_env \<Rightarrow> fs \<Rightarrow> string list \<Rightarrow> string list \<Rightarrow> zip_entry" where
  "zip_header E f src k =
     (let name = Join (last src # drop (length src) k) ''/'' in
      case map_of f k of
        Some (FileNode c) \<Rightarrow> \<lparr>zName = name, zIsDir = False, zContent = c, zSize = word_of_int (file_size E c)\<rparr>
      | _ \<Rightarrow> \<lparr>zName = name @ ''/'', zIsDir = True, zContent = BytesFile [], zSize = 0\<rparr>)"

definition zip_entries :: "run_env \<Rightarrow> fs \<Rightarrow> string \<Rightarrow> archive" where
  "zip_entries E f srcDir = map (zip_header E f (resolve srcDir)) (walk_keys f (resolve srcDir))"

text \<open>
  The bytes of an archive are what \<open>encode\<close> makes of its entries. When the walk or a write fails, the
  archive is removed again. The archive itself lies outside of the directory.
\<close>

datatype export_error = CreateZipDirectory | CreateZipFile | ZipFailed | ExportRefused run_error

definition zipDirectory :: "run_env \<Rightarrow> (archive \<Rightarrow> string) \<Rightarrow> fs \<Rightarrow> string \<Rightarrow> string \<Rightarrow> export_error option \<times> fs" where
  "zipDirectory E encode f srcDir dstPath =
     (case MkdirAll E f (path_Dir dstPath) of (ok, f1) \<Rightarrow>
        if \<not> ok then (Some CreateZipDirectory, f1)
        else if \<not> writable f1 dstPath \<or> writeFault E dstPath = OpenFault then (Some CreateZipFile, f1)
        else if walkErr E srcDir \<or> writeFault E dstPath \<noteq> NoFault then (Some ZipFailed, filter (\<lambda>(k, n). k \<noteq> resolve dstPath) f1)
        else (None, put dstPath (FileNode (BytesFile (encode (zip_entries E f1 srcDir)))) f1))"

definition ExportRun :: "run_env \<Rightarrow> (archive \<Rightarrow> string) \<Rightarrow> RunCollection \<Rightarrow> fs \<Rightarrow> string \<Rightarrow> string \<Rightarrow> export_error option \<times> fs" where
  "ExportRun E encode c f run dstDir =
     (case lockRun E c f run True of
        (Some e, f1) \<Rightarrow> (Some (ExportRefused e), f1)
      | (None, f1) \<Rightarrow>
          if \<not> runExists E c f1 run then (Some (ExportRefused (RunDoesNotExist run)), f1)
          else zipDirectory E encode f1 (GetRunPath E c f1 run) (PathJoin dstDir (run @ ''.zip'')))"

section \<open>Extraction stays in its directory\<close>

lemma LastIndex_last: "CHR ''/'' \<notin> set x \<Longrightarrow> LastIndex (a @ ''/'' @ x) ''/'' = Some (length a)"
proof (induction a)
  case Nil
  have "LastIndex x ''/'' = None" if "CHR ''/'' \<notin> set x"
    using that by (induction x) (auto simp: LastIndex.simps)
  with Nil show ?case by (simp add: LastIndex.simps [of "CHR ''/'' # x"])
next
  case (Cons c a)
  then show ?case by (simp add: LastIndex.simps [of "c # _"])
qed

lemma Join_snoc: "xs \<noteq> [] \<Longrightarrow> Join (xs @ [x]) ''/'' = Join xs ''/'' @ ''/'' @ x"
  by (induction xs "''/''" rule: Join.induct) auto

lemma Clean_comps: "IsAbs p \<Longrightarrow> Clean p = ''/'' @ Join (resolve p) ''/''"
  by (simp add: resolve_def path_comps_Clean IsAbs_def) (auto simp: Clean_def build_clean_def)

lemma comps_resolve: "IsAbs p \<Longrightarrow> comps (Clean p) = resolve p"
  by (auto simp: resolve_def path_comps_def IsAbs_def Clean_def build_clean_def)

lemma path_Dir_resolve:
  assumes p: "IsAbs p" "Clean p = p" and xs: "resolve p = xs @ [x]"
  shows "resolve (path_Dir p) = xs"
proof -
  have "clean_list True (xs @ [x])" using clean_list_path_comps [of p] p(1) xs by (simp add: resolve_def IsAbs_def)
  then have x: "CHR ''/'' \<notin> set x" and cl: "clean_list True xs" 
    using clean_list_comp [of True "xs @ [x]" x] by (auto simp: clean_list_def)
  obtain a where a: "p = a @ ''/'' @ x" "Clean (a @ ''/'') = build_clean True xs"
  proof (cases "xs = []")
    case True
    with Clean_comps [OF p(1)] p(2) xs have "p = [] @ ''/'' @ x" by simp
    moreover have "Clean ''/'' = build_clean True []" by code_simp
    ultimately show thesis using that True by simp
  next
    case False
    with Clean_comps [OF p(1)] p(2) xs have "p = (''/'' @ Join xs ''/'') @ ''/'' @ x" by (simp add: Join_snoc)
    moreover have "Clean ((''/'' @ Join xs ''/'') @ ''/'') = build_clean True xs"
    proof -
      have "comps ((''/'' @ Join xs ''/'') @ ''/'') = xs"
        using comps_append_slash [of "''/'' @ Join xs ''/''" "[]"] comps_Join [OF cl] by simp
      then show ?thesis
        using foldl_push_clean [OF cl] unfolding Clean_def clean_stack_def foldl_push_comps by simp
    qed
    ultimately show thesis using that by blast
  qed
  then have "path_Dir p = build_clean True xs"
    using LastIndex_last [OF x, of a] by (simp add: path_Dir_def split_dir_def)
  then show ?thesis using path_comps_build [OF cl] a(2) Clean_Clean [of "a @ ''/''"] by (simp add: resolve_def)
qed

text \<open>Every node lies in a directory.\<close>

definition tree_ok :: "fs \<Rightarrow> bool" where
  "tree_ok f \<longleftrightarrow> list_all (\<lambda>(k, n). k \<noteq> [] \<longrightarrow> map_of f (butlast k) = Some DirNode) f"

lemma tree_above:
  assumes "tree_ok f" and "map_of f k = Some n" and "prefix j k" and "j \<noteq> k"
  shows "map_of f j = Some DirNode"
  using assms(2-4)
proof (induction k arbitrary: n rule: rev_induct)
  case (snoc x k)
  have up: "map_of f k = Some DirNode"
    using assms(1) snoc.prems(1) map_of_SomeD [of f "k @ [x]" n] by (auto simp: tree_ok_def list_all_iff)
  from snoc.prems(2,3) have "prefix j k" by simp
  then show ?case using snoc.IH [OF up] up by (cases "j = k") auto
qed simp

lemma tree_below: "tree_ok f \<Longrightarrow> map_of f j = None \<Longrightarrow> prefix j k \<Longrightarrow> map_of f k = None"
  using tree_above [of f k _ j] by (cases "j = k") fastforce+

text \<open>Nothing changes outside of a directory.\<close>

definition only_below :: "string list \<Rightarrow> fs \<Rightarrow> fs \<Rightarrow> bool" where
  "only_below t f f' \<longleftrightarrow> (\<forall>k. \<not> prefix t k \<longrightarrow> map_of f' k = map_of f k)"

lemma only_below_refl [simp]: "only_below t f f"
  by (simp add: only_below_def)

lemma only_below_trans: "only_below t f g \<Longrightarrow> only_below t g h \<Longrightarrow> only_below t f h"
  by (simp add: only_below_def)

text \<open>All directories down to a given one exist.\<close>

definition dirs_to :: "string list \<Rightarrow> fs \<Rightarrow> bool" where
  "dirs_to t f \<longleftrightarrow> (\<forall>j. prefix j t \<longrightarrow> map_of f j = Some DirNode)"

lemma MkdirAll_below:
  assumes "dirs_to t f" and "resolve p = t @ ts"
  shows "only_below t f (snd (MkdirAll E f p)) \<and> dirs_to t (snd (MkdirAll E f p))"
proof -
  have "map_of (snd (MkdirAll E f p)) k = map_of f k" if "\<not> prefix t k \<or> prefix k t" for k
  proof (cases "prefix k (t @ ts)")
    case True
    with that have "prefix k t" by (meson prefix_order.refl prefix_same_cases prefixI)
    then have "map_of f k \<noteq> None" using assms(1) by (simp add: dirs_to_def)
    then show ?thesis by (simp add: MkdirAll_def make_dirs_other)
  next
    case False
    then show ?thesis using MkdirAll_frame [of k p] assms(2) by simp
  qed
  with assms(1) show ?thesis by (auto simp: only_below_def dirs_to_def)
qed

lemma Write_below:
  assumes "dirs_to t f" and "resolve p = t @ ts" and "ts \<noteq> []"
  shows "only_below t f (snd (WriteJSONFile E f p c)) \<and> dirs_to t (snd (WriteJSONFile E f p c))"
proof -
  have "map_of (snd (WriteJSONFile E f p c)) k = map_of f k" if "\<not> prefix t k \<or> prefix k t" for k
    using that assms(2,3) by (intro WriteJSONFile_frame) (auto simp: prefix_def)
  with assms(1) show ?thesis by (auto simp: only_below_def dirs_to_def)
qed

lemma sanitize_child:
  assumes "sanitizeArchiveEntry E cwd f entry dst = Some p" and "IsAbs dst"
  obtains ts where "ts \<noteq> []" and "resolve p = resolve dst @ ts" and "IsAbs p" and "Clean p = p"
proof -
  have j: "PathJoin dst entry = Clean (dst @ ''/'' @ entry)" "IsAbs (dst @ ''/'' @ entry)"
    using assms(2) by (auto simp: PathJoin_def IsAbs_def)
  then have a: "IsAbs (PathJoin dst entry)" "Clean (PathJoin dst entry) = PathJoin dst entry"
    unfolding j(1) IsAbs_def IsAbs_Clean by (simp_all add: IsAbs_def)
  have p: "p = PathJoin dst entry" "IsChildPath (Clean dst) p"
    using assms a by (auto simp: sanitizeArchiveEntry_def AbsPath_def Let_def split: if_splits)
  then obtain ts where "ts \<noteq> []" "path_comps (Clean p) = path_comps (Clean (Clean dst)) @ ts"
    unfolding IsChildPath_iff by blast
  then show thesis using that a p(1) by (simp add: resolve_def)
qed

text \<open>Whatever the entries of an archive are called, extraction changes nothing outside of its directory.\<close>

lemma unzip_loop_below:
  assumes "IsAbs dst" and "dirs_to (resolve dst) f"
  shows "only_below (resolve dst) f (snd (unzip_loop E cwd dst files f)) \<and> dirs_to (resolve dst) (snd (unzip_loop E cwd dst files f))"
  using assms(2)
proof (induction files arbitrary: f)
  case (Cons x files)
  show ?case
  proof (cases "sanitizeArchiveEntry E cwd f (zName x) dst")
    case None
    with Cons.prems show ?thesis by simp
  next
    case (Some p)
    then obtain ts where ts: "ts \<noteq> []" "resolve p = resolve dst @ ts" and p: "IsAbs p" "Clean p = p"
      using sanitize_child [OF Some assms(1)] by blast
    define f1 where "f1 = snd (if zIsDir x then MkdirAll E f p else extract_file E f p (zContent x))"
    have d: "resolve (path_Dir p) = resolve dst @ butlast ts"
      using path_Dir_resolve [OF p, of "resolve dst @ butlast ts" "last ts"] ts by simp
    have "only_below (resolve dst) f f1 \<and> dirs_to (resolve dst) f1"
    proof (cases "zIsDir x")
      case True
      then show ?thesis unfolding f1_def using MkdirAll_below [OF Cons.prems ts(2)] by simp
    next
      case False
      obtain ok g where g: "MkdirAll E f (path_Dir p) = (ok, g)" by fastforce
      have "only_below (resolve dst) f g \<and> dirs_to (resolve dst) g"
        using MkdirAll_below [OF Cons.prems d, of E] g by simp
      then show ?thesis
        unfolding f1_def extract_file_def g using False Write_below [of "resolve dst" g p ts E "zContent x"] ts
        by (auto intro: only_below_trans)
    qed
    with Cons.IH [of f1] Some show ?thesis
      by (auto simp: f1_def split: prod.splits intro: only_below_trans)
  qed
qed simp

section \<open>Import leaves everything alone that exists\<close>

lemma map_of_move:
  assumes "\<forall>(k, n)\<in>set f. \<not> prefix dst k"
  shows "map_of (map (\<lambda>(k, n). if prefix src k then (dst @ drop (length src) k, n) else (k, n)) f) k =
    (if prefix dst k then map_of f (src @ drop (length dst) k) else if prefix src k then None else map_of f k)"
  using assms
proof (induction f)
  case (Cons a f)
  obtain j n where a: "a = (j, n)" by fastforce
  have j: "\<not> prefix dst j" using Cons.prems a by auto
  have IH: "map_of (map (\<lambda>(k, n). if prefix src k then (dst @ drop (length src) k, n) else (k, n)) f) k =
    (if prefix dst k then map_of f (src @ drop (length dst) k) else if prefix src k then None else map_of f k)"
    using Cons by auto
  have "(dst @ drop (length src) j = k) = (prefix dst k \<and> j = src @ drop (length dst) k)" if "prefix src j"
    using that by (auto simp: prefix_def)
  moreover have "j \<noteq> src @ drop (length dst) k" if "\<not> prefix src j" using that by auto
  ultimately show ?case using IH j unfolding a by auto
qed simp

lemma Rename_ok:
  assumes "Rename f src dst = (True, f')"
  shows "map_of f' k = (if prefix dst k then map_of f (src @ drop (length dst) k) else if prefix src k then None else map_of f k)"
    and "map_of f src \<noteq> None" and "prefix dst k \<Longrightarrow> k \<noteq> dst \<Longrightarrow> map_of f k = None"
    and "map_of f dst = Some n \<Longrightarrow> n = DirNode \<and> map_of f src = Some DirNode" and "\<not> prefix src dst" and "\<not> prefix dst src"
    and "map_of f (butlast dst) = Some DirNode"
proof -
  have g: "map_of f src \<noteq> None" "\<not> prefix src dst" "map_of f (butlast dst) = Some DirNode"
      "\<not> list_ex (\<lambda>(k, n). prefix dst k \<and> (k \<noteq> dst \<or> n \<noteq> DirNode)) f" "\<not> (map_of f dst = Some DirNode \<and> map_of f src \<noteq> Some DirNode)"
    and f': "f' = map (\<lambda>(k, n). if prefix src k then (dst @ drop (length src) k, n) else (k, n)) (filter (\<lambda>(k, n). \<not> prefix dst k) f)"
    using assms by (auto simp: Rename_def split: if_splits)
  show "map_of f src \<noteq> None" "\<not> prefix src dst" "map_of f (butlast dst) = Some DirNode" using g by auto
  have low: "map_of f k = Some n \<Longrightarrow> prefix dst k \<Longrightarrow> k = dst \<and> n = DirNode" for k n
    using g(4) map_of_SomeD [of f k n] by (fastforce simp: list_ex_iff)
  then show "prefix dst k \<Longrightarrow> k \<noteq> dst \<Longrightarrow> map_of f k = None" by (metis not_None_eq)
  show "map_of f dst = Some n \<Longrightarrow> n = DirNode \<and> map_of f src = Some DirNode" using low [of dst n] g(5) by auto
  show nd: "\<not> prefix dst src" using low [of src] g(1,2) by (metis not_None_eq prefix_order.refl)
  have "map_of (filter (\<lambda>(k, n). \<not> prefix dst k) f) j = (if prefix dst j then None else map_of f j)" for j
    by (simp add: map_of_filter_key)
  moreover have "map_of f (src @ r) = None" if "prefix dst (src @ r)" for r
    using that low g(2) by (metis not_None_eq prefixI)
  ultimately show "map_of f' k = (if prefix dst k then map_of f (src @ drop (length dst) k) else if prefix src k then None else map_of f k)"
    unfolding f' by (subst map_of_move) auto
qed

definition extends :: "fs \<Rightarrow> fs \<Rightarrow> bool" where
  "extends f f' \<longleftrightarrow> (\<forall>k n. map_of f k = Some n \<longrightarrow> map_of f' k = Some n)"

lemma lock_extends: "extends f (snd (lockRun E c f r shared))"
  by (auto simp: extends_def lockRun_def try_lock_def MkdirAll_def make_dirs_other node_at_def Let_def split: prod.splits if_splits)

text \<open>The steps of recording a size: locks, and then perhaps a write of the metadata.\<close>

lemma PersistRunSize_steps:
  assumes c: "collection_ok c" and r: "plain_comp r"
  obtains g where "extends f g" and "confined c r f g" and "same_view c r f g"
    and "snd (PersistRunSize E c f r) = g \<or> (\<exists>x. snd (PersistRunSize E c f r) = snd (WriteJSONFile E g (getMetadataPath E c f r) x))"
proof -
  define f1 where "f1 = snd (lockRun E c f r True)"
  define f2 where "f2 = snd (lockRun E c f1 r False)"
  have 1: "extends f f1" "confined c r f f1" "same_view c r f f1"
    unfolding f1_def by (rule lock_extends lock_confined(1) [OF r] lock_view(1) [OF c r])+
  have "extends f1 f2" "confined c r f1 f2" "same_view c r f1 f2"
    unfolding f2_def by (rule lock_extends lock_confined(1) [OF r] lock_view(1) [OF c r])+
  with 1 have 2: "extends f f2" "confined c r f f2" "same_view c r f f2"
    using confined_trans same_view_trans by (auto simp: extends_def)
  have p: "getMetadataPath E c f2 r = getMetadataPath E c f r"
    by (rule same_runs_paths(4) [OF view_runs [OF c r 2(3)]])
  have "snd (PersistRunSize E c f r) \<in> {f1, f2, snd (persistRunSizeLocked E c f2 r)}"
    unfolding PersistRunSize_def f1_def f2_def by (auto split: prod.splits option.splits sum.splits)
  with persist_frame [of E c f2 r] p have "snd (PersistRunSize E c f r) \<in> {f1, f2} \<or>
      (\<exists>x. snd (PersistRunSize E c f r) = snd (WriteJSONFile E f2 (getMetadataPath E c f r) x))" by auto
  then show thesis using that 1 2 by blast
qed

lemma PersistRunSize_keeps:
  assumes "collection_ok c" and "plain_comp r" and "map_of f k = Some n" and "k \<noteq> resolve (getMetadataPath E c f r)"
  shows "map_of (snd (PersistRunSize E c f r)) k = Some n"
proof -
  obtain g where g: "extends f g" "snd (PersistRunSize E c f r) = g \<or>
      (\<exists>x. snd (PersistRunSize E c f r) = snd (WriteJSONFile E g (getMetadataPath E c f r) x))"
    using PersistRunSize_steps [OF assms(1,2)] by blast
  then have "map_of g k = Some n" using assms(3) by (simp add: extends_def)
  with g(2) WriteJSONFile_frame [OF assms(4)] show ?thesis by (metis (no_types, lifting))
qed

lemma PersistRunSize_confined:
  assumes c: "collection_ok c" and r: "plain_comp r"
  shows "confined c r f (snd (PersistRunSize E c f r))"
proof -
  obtain g where g: "confined c r f g" "same_view c r f g" "snd (PersistRunSize E c f r) = g \<or>
      (\<exists>x. snd (PersistRunSize E c f r) = snd (WriteJSONFile E g (getMetadataPath E c f r) x))"
    using PersistRunSize_steps [OF assms] by metis
  have "getMetadataPath E c g r = getMetadataPath E c f r"
    by (rule same_runs_paths(4) [OF view_runs [OF c r g(2)]])
  then have "confined c r g (snd (WriteJSONFile E g (getMetadataPath E c f r) x))" for x
    using write_confined(1) [OF c r, of "''metadata.json''" g E x] by (simp add: getMetadataPath_def plain_comp_def)
  with g(1,3) confined_trans show ?thesis by metis
qed

lemma child_of_base: "b \<noteq> [] \<Longrightarrow> plain_comp r \<Longrightarrow> IsChildPath b (PathJoin b r)"
proof -
  assume b: "b \<noteq> []" and r: "plain_comp r"
  then have "IsAbs (PathJoin b r) = IsAbs b"
    by (auto simp: PathJoin_def IsAbs_Clean') (auto simp: IsAbs_def neq_Nil_conv plain_comp_def)
  moreover have "''..'' \<notin> set [r]" using r by (auto simp: plain_comp_def)
  ultimately show ?thesis using resolve_PathJoin [OF b r] unfolding IsChildPath_iff resolve_def by blast
qed

text \<open>Where a run that did not exist is found after it was put into the primary directory.\<close>

lemma new_run_base:
  assumes c: "collection_ok c" "bases_apart c" and r: "plain_comp r" and new: "\<not> runExists E c f r"
    and other: "\<And>b. b \<in> set (allPaths c) \<Longrightarrow> resolve b \<noteq> resolve (primaryPath c) \<Longrightarrow> map_of f' (resolve b @ [r]) = map_of f (resolve b @ [r])"
  shows "resolve (fst (runBasePath E c f' r)) = resolve (primaryPath c)"
proof (rule ccontr)
  let ?b = "fst (runBasePath E c f' r)"
  assume ne: "resolve ?b \<noteq> resolve (primaryPath c)"
  then have found: "base_loop E f' r (allPaths c) = Some ?b" by (auto simp: runBasePath_def split: option.splits)
  then have b: "?b \<in> set (allPaths c)" "PathExists E f' (PathJoin ?b r) = Some True"
  proof -
    have "base_loop E f' r bs = Some b \<Longrightarrow> b \<in> set bs \<and> PathExists E f' (PathJoin b r) = Some True" for bs b
      by (induction bs) (auto split: option.splits bool.splits if_splits)
    with found show "?b \<in> set (allPaths c)" "PathExists E f' (PathJoin ?b r) = Some True" by auto
  qed
  have bne: "b \<noteq> []" if "b \<in> set (allPaths c)" for b using c(1) that by (auto simp: collection_ok_def list_all_iff)
  then have "PathExists E f (PathJoin ?b r) = Some True"
    using b(2) other [OF b(1) ne] resolve_PathJoin [OF bne [OF b(1)] r] by (auto simp: PathExists_def node_at_def split: if_splits)
  moreover have "IsChildPath b (PathJoin b r)" if "b \<in> set (allPaths c)" for b
    using child_of_base [OF bne [OF that] r] .
  then have "exists_loop E f r bs" if "set bs \<subseteq> set (allPaths c)" "?b \<in> set bs" "PathExists E f (PathJoin ?b r) = Some True" for bs
    using that by (induction bs) (auto simp: Let_def split: option.splits bool.splits)
  ultimately have "runExists E c f r" using b(1) r by (auto simp: runExists_def plain_comp_def)
  with new show False ..
qed

text \<open>The characters of a UUID.\<close>

definition hex_chars :: "string \<Rightarrow> bool" where
  "hex_chars s \<longleftrightarrow> list_all (\<lambda>c. c \<in> set ''0123456789abcdef-'') s"

lemma hex_plain: "hex_chars s \<Longrightarrow> s \<noteq> [] \<Longrightarrow> plain_comp s"
  by (cases s) (auto simp: plain_comp_def list_all_iff hex_chars_def)

lemma hex_drop: "hex_chars s \<Longrightarrow> hex_chars (drop n s)"
  unfolding hex_chars_def list_all_iff using in_set_dropD by fast

lemma next_id:
  assumes "next_id_loop E c f uuids n = Inr r" and "list_all hex_chars uuids"
  shows "plain_comp r \<and> \<not> runExists E c f r"
  using assms
proof (induction E c f uuids n rule: next_id_loop.induct)
  case (3 E c f uuid uuids n)
  let ?r = "drop (length uuid - 12) uuid"
  show ?case
  proof (cases "length uuid = 36 \<and> \<not> runExists E c f ?r")
    case True
    then have "r = ?r" "?r \<noteq> []" using "3.prems"(1) by (auto simp: Let_def)
    moreover have "hex_chars ?r" using "3.prems"(2) hex_drop by simp
    ultimately show ?thesis using True hex_plain by auto
  next
    case False
    with 3 show ?thesis by (auto simp: Let_def split: if_splits)
  qed
qed auto

lemma archive_root_plain: "s \<noteq> [] \<Longrightarrow> \<not> ContainsAny s (''./'' @ [CHR 0x5C]) \<Longrightarrow> plain_comp s"
  using ContainsAnyI [of _ s "''./'' @ [CHR 0x5C]"] by (auto simp: plain_comp_def)

text \<open>The steps of an import that reach the file system.\<close>

lemma ImportRun_cases:
  assumes "ImportRun E c low cwd uuids tempName zipped f = (res, f')"
    and "list_all hex_chars uuids"
  obtains e where "res = Inl e" and "f' = f"
  | oldID run f1 f2 where "plain_comp oldID" and "plain_comp run" and "\<not> runExists E c f run"
      and "MkdirTemp E f (primaryPath c) tempName = (Some (PathJoin (primaryPath c) tempName), f1)"
      and "import_into E c low cwd (the zipped) oldID run (PathJoin (primaryPath c) tempName) f1 = (res, f2)"
      and "f' = snd (RemoveAll E f2 (PathJoin (primaryPath c) tempName))"
proof (cases "getRunIDFromZip zipped")
  case (Inl e)
  then have "ImportRun E c low cwd uuids tempName zipped f = (Inl e, f)" by (simp add: ImportRun_def)
  with assms(1) that(1) show thesis by auto
next
  case (Inr oldID)
  show thesis
  proof (cases "oldID = [] \<or> ContainsAny oldID (''./'' @ [CHR 0x5C])")
    case True
    with Inr have "ImportRun E c low cwd uuids tempName zipped f = (Inl (BadRoot oldID), f)" by (simp add: ImportRun_def)
    with assms(1) that(1) show thesis by auto
  next
    case False
    then have old: "plain_comp oldID" using archive_root_plain by blast
    define next_id where "next_id = (if runExists E c f oldID then getNextRunID E c f uuids else Inr oldID)"
    show thesis
    proof (cases next_id)
      case (Inl e)
      with Inr False assms(1) that(1) show thesis by (auto simp: ImportRun_def next_id_def [symmetric])
    next
      case (Inr run)
      then have run: "plain_comp run \<and> \<not> runExists E c f run"
        using next_id [OF _ assms(2)] old by (auto simp: next_id_def getNextRunID_def split: if_splits)
      obtain t f1 where t: "MkdirTemp E f (primaryPath c) tempName = (t, f1)" by fastforce
      have go: "ImportRun E c low cwd uuids tempName zipped f = (case t of
          None \<Rightarrow> (Inl (if low then LowDiskSpace else ImportFailed), f1)
        | Some d \<Rightarrow> (case import_into E c low cwd (the zipped) oldID run d f1 of (res, f2) \<Rightarrow> (res, snd (RemoveAll E f2 d))))"
        using \<open>getRunIDFromZip zipped = Inr oldID\<close> False Inr t
        by (simp add: ImportRun_def next_id_def [symmetric])
      show thesis
      proof (cases t)
        case None
        then have "f1 = f" using t by (auto simp: MkdirTemp_def Mkdir_def split: if_splits prod.splits)
        with None go assms(1) that(1) show thesis by auto
      next
        case (Some d)
        then have d: "d = PathJoin (primaryPath c) tempName" using t by (auto simp: MkdirTemp_def split: if_splits prod.splits)
        obtain r2 f2 where i: "import_into E c low cwd (the zipped) oldID run d f1 = (r2, f2)" by fastforce
        with go Some assms(1) have "r2 = res" "f' = snd (RemoveAll E f2 d)" by auto
        with i d t Some run old that(2) show thesis by blast
      qed
    qed
  qed
qed

text \<open>What the import does to the nodes that were there, step by step.\<close>

lemma MkdirTemp_ok:
  assumes "MkdirTemp E f P name = (Some t, f1)"
  shows "map_of f (resolve t) = None" and "map_of f1 = (map_of f)(resolve t \<mapsto> DirNode)" and "map_of f (butlast (resolve t)) = Some DirNode"
    and "resolve t \<noteq> []" and "t = PathJoin P name"
  using assms by (auto simp: MkdirTemp_def Mkdir_def node_at_def put_def update_conv' split: if_splits prod.splits)

lemma dirs_to_temp:
  assumes "tree_ok f" and "MkdirTemp E f P name = (Some t, f1)"
  shows "dirs_to (resolve t) f1"
proof -
  have "map_of f j = Some DirNode" if "prefix j (resolve t)" "j \<noteq> resolve t" for j
  proof -
    from that MkdirTemp_ok(4) [OF assms(2)] have "prefix j (butlast (resolve t))"
      by (metis append_butlast_last_id prefix_snoc)
    then show ?thesis using tree_above [OF assms(1) MkdirTemp_ok(3) [OF assms(2)]] MkdirTemp_ok(3) [OF assms(2)] by blast
  qed
  then show ?thesis by (simp add: dirs_to_def MkdirTemp_ok(2) [OF assms(2)])
qed

lemma unzip_below:
  assumes "IsAbs t" and "dirs_to (resolve t) f"
  shows "only_below (resolve t) f (snd (unzip E cwd files t f))"
proof -
  obtain ok g where g: "MkdirAll E f t = (ok, g)" by fastforce
  have "only_below (resolve t) f g \<and> dirs_to (resolve t) g" using MkdirAll_below [OF assms(2), of t "[]" E] g by simp
  then show ?thesis
    using unzip_loop_below [OF assms(1), of g E cwd files] only_below_trans by (auto simp: unzip_def g)
qed

lemma IsAbs_PathJoin: "IsAbs b \<Longrightarrow> IsAbs (PathJoin b x)"
  by (auto simp: PathJoin_def) (auto simp: IsAbs_def)

text \<open>
  The move and the update of the size: with the archive extracted below the temporary directory, all
  the nodes outside of it stay as they are.
\<close>

lemma import_tail_keeps:
  assumes c: "collection_ok c" "bases_apart c" and r: "plain_comp r" "plain_comp oldID" "plain_comp name"
    and new: "\<not> runExists E c f r" and low: "only_below (resolve (primaryPath c) @ [name]) f g"
    and mv: "Rename g (resolve (primaryPath c) @ [name, oldID]) (resolve (primaryPath c) @ [r]) = (True, h)"
    and k: "map_of f k = Some n" "\<not> prefix (resolve (primaryPath c) @ [name]) k"
  shows "map_of (snd (PersistRunSize E c h r)) k = Some n"
proof -
  let ?P = "resolve (primaryPath c)"
  note R = Rename_ok [OF mv]
  have gk: "map_of g k = Some n" using low k by (simp add: only_below_def)
  have ns: "\<not> prefix (?P @ [name, oldID]) k" using k(2) by (auto simp: prefix_def)
  have hk: "map_of h k = Some n"
  proof (cases "prefix (?P @ [r]) k")
    case True
    with R(3) gk have kd: "k = ?P @ [r]" by fastforce
    with R(4) gk have "n = DirNode" "map_of g (?P @ [name, oldID]) = Some DirNode" by auto
    with R(1) [of k] kd show ?thesis by simp
  next
    case False
    with R(1) [of k] ns gk show ?thesis by simp
  qed
  have base: "resolve (fst (runBasePath E c h r)) = ?P"
  proof (rule new_run_base [OF c r(1) new])
    fix b assume b: "b \<in> set (allPaths c)" "resolve b \<noteq> ?P"
    then have apart: "\<not> prefix (resolve b) ?P" "\<not> prefix ?P (resolve b)"
      using c by (auto simp: bases_apart_def collection_ok_def list_all_iff)
    have out: "\<not> prefix (?P @ xs) (resolve b @ [r])" if "xs \<noteq> []" for xs
      using apart by (metis append_prefixD prefix_def prefix_same_cases)
    have "map_of h (resolve b @ [r]) = map_of g (resolve b @ [r])"
      using R(1) [of "resolve b @ [r]"] out [of "[r]"] out [of "[name, oldID]"] by (simp del: prefix_snoc append_same_eq)
    moreover have "\<not> prefix (?P @ [name]) (resolve b @ [r])" by (rule out) simp
    ultimately show "map_of h (resolve b @ [r]) = map_of f (resolve b @ [r])" using low unfolding only_below_def by metis
  qed
  have "resolve (getMetadataPath E c h r) = ?P @ [r, ''metadata.json'']"
  proof -
    have "fst (runBasePath E c h r) \<noteq> []" using c(1) runBasePath_found [of E c h r]
      by (auto simp: runBasePath_def collection_ok_def list_all_iff split: option.splits)
    then have "resolve (PathJoin (fst (runBasePath E c h r)) r) = ?P @ [r]" using resolve_PathJoin r(1) base by simp
    moreover have "PathJoin (fst (runBasePath E c h r)) r \<noteq> []" using \<open>fst (runBasePath E c h r) \<noteq> []\<close> by simp
    ultimately show ?thesis unfolding getMetadataPath_def by (subst resolve_PathJoin) (simp_all add: plain_comp_def)
  qed
  moreover have "k \<noteq> ?P @ [r, ''metadata.json'']" using R(3) [of k] gk by auto
  ultimately show ?thesis using PersistRunSize_keeps [OF c(1) r(1) hk] by simp
qed

lemma import_into_keeps:
  assumes c: "collection_ok c" "bases_apart c" and r: "plain_comp r" "plain_comp oldID" "plain_comp name"
    and new: "\<not> runExists E c f r" and abs: "IsAbs (primaryPath c)"
    and low: "only_below (resolve (primaryPath c) @ [name]) f f1" "dirs_to (resolve (primaryPath c) @ [name]) f1"
    and k: "map_of f k = Some n" "\<not> prefix (resolve (primaryPath c) @ [name]) k"
  shows "map_of (snd (import_into E c lo cwd files oldID r (PathJoin (primaryPath c) name) f1)) k = Some n"
proof -
  let ?P = "resolve (primaryPath c)" and ?t = "PathJoin (primaryPath c) name"
  have P: "primaryPath c \<noteq> []" using abs by (auto simp: IsAbs_def)
  then have t: "resolve ?t = ?P @ [name]" "resolve (PathJoin ?t oldID) = ?P @ [name, oldID]"
    "resolve (PathJoin (primaryPath c) r) = ?P @ [r]" using r by (simp_all add: resolve_PathJoin)
  obtain ok g where g: "unzip E cwd files ?t f1 = (ok, g)" by fastforce
  have fg: "only_below (?P @ [name]) f g"
    using unzip_below [OF IsAbs_PathJoin [OF abs], of name f1 E cwd files] low g t(1) only_below_trans by fastforce
  then have gk: "map_of g k = Some n" using k by (simp add: only_below_def)
  obtain ok2 h where h: "Rename g (?P @ [name, oldID]) (?P @ [r]) = (ok2, h)" by fastforce
  have "\<not> ok2 \<Longrightarrow> h = g" using h by (auto simp: Rename_def split: if_splits)
  then show ?thesis
    using import_tail_keeps [OF c r new fg _ k] h gk g by (cases ok; cases ok2) (auto simp: import_into_def t)
qed

text \<open>
  C4. Importing an archive never harms what is already there, whatever the archive holds: every file
  and directory that existed before the import is there afterwards with the same content, also when
  the import fails half way, entries have names such as \<open>../other-run/metadata.json\<close>, or the root of
  the archive is the ID of an existing run. A successful import returns the ID of a run that did not
  exist before.
\<close>

theorem import_preserves_existing:
  assumes "collection_ok c" and "bases_apart c" and "tree_ok f" and "IsAbs (primaryPath c)" and "plain_comp tempName"
    and "list_all hex_chars uuids" and "ImportRun E c low cwd uuids tempName zipped f = (res, f')"
  shows "(\<forall>k n. map_of f k = Some n \<longrightarrow> map_of f' k = Some n) \<and> (\<forall>run. res = Inr run \<longrightarrow> plain_comp run \<and> \<not> runExists E c f run)"
  using assms(7,6)
proof (cases rule: ImportRun_cases)
  case (2 oldID run f1 f2)
  let ?P = "resolve (primaryPath c)" and ?t = "PathJoin (primaryPath c) tempName"
  have t: "resolve ?t = ?P @ [tempName]" using assms(4,5) by (intro resolve_PathJoin) (auto simp: IsAbs_def)
  note T = MkdirTemp_ok [OF 2(4), unfolded t]
  have low: "only_below (?P @ [tempName]) f f1" "dirs_to (?P @ [tempName]) f1"
    using T(2) dirs_to_temp [OF assms(3) 2(4)] t by (auto simp: only_below_def)
  have "map_of f' k = Some n" if k: "map_of f k = Some n" for k n
  proof -
    have out: "\<not> prefix (?P @ [tempName]) k" using tree_below [OF assms(3) T(1)] k by auto
    from import_into_keeps [OF assms(1,2) 2(2,1) assms(5) 2(3) assms(4) low k out, of low cwd "the zipped"]
    have "map_of f2 k = Some n" using 2(5) by simp
    then show ?thesis using RemoveAll_frame [of ?t k E f2] out t 2(6) by simp
  qed
  moreover have "res = Inr r \<Longrightarrow> r = run" for r using 2(5) by (auto simp: import_into_def split: prod.splits if_splits)
  ultimately show ?thesis using 2(2,3) by auto
qed auto

definition demo_archive :: archive where
  "demo_archive =
     [\<lparr>zName = ''a/'', zIsDir = True, zContent = BytesFile [], zSize = 0\<rparr>,
      \<lparr>zName = ''a/manifest.json'', zIsDir = False, zContent = ManifestFile \<lparr>Entries = [], ToolsUsed = []\<rparr>, zSize = 10\<rparr>,
      \<lparr>zName = ''a/metadata.json'', zIsDir = False, zContent = MetadataFile zero_metadata, zSize = 10\<rparr>]"

definition demo_import :: "archive \<Rightarrow> (import_error + string) \<times> fs" where
  "demo_import files =
     ImportRun demo_run_env demo_collection False ''/'' [''00000000-0000-0000-0000-123456789abc''] ''tmp'' (Some files) demo_fs"

theorem import_preserves_existing_witness:
  "fst (demo_import demo_archive) = Inr ''123456789abc'' \<and> \<not> runExists demo_run_env demo_collection demo_fs ''123456789abc'' \<and>
   map_of (snd (demo_import demo_archive)) [''p'', ''runs'', ''a'', ''metadata.json''] = Some (FileNode (MetadataFile zero_metadata))"
proof -
  have ok: "fst (demo_import demo_archive) = Inr ''123456789abc''" by code_simp
  have k: "map_of demo_fs [''p'', ''runs'', ''a'', ''metadata.json''] = Some (FileNode (MetadataFile zero_metadata))" by code_simp
  have "bases_apart demo_collection" "tree_ok demo_fs" "IsAbs (primaryPath demo_collection)" "plain_comp ''tmp''"
    "list_all hex_chars [''00000000-0000-0000-0000-123456789abc'']" by code_simp+
  from import_preserves_existing [OF demo_collection_ok this, of demo_run_env False "''/''" "Some demo_archive" "fst (demo_import demo_archive)" "snd (demo_import demo_archive)"]
  show ?thesis using ok k by (simp add: demo_import_def)
qed

end
