(* ===== verification/Driver.thy ===== *)
theory Driver
  imports CommandState
begin

text \<open>
  The driver of the stages of a recipe (core/apap-engine/recipe/runtime/driver.go, with the interface
  of a stage from recipe/stage.go). A stage works on a world that it shares with the other stages;
  the world after it has run includes what other goroutines did in the meantime, in particular the
  command that is read after each stage. A stage may fail, and may leave a function that cleans up.
\<close>

section \<open>Stages\<close>

type_synonym gerror = string
type_synonym RunResult = string

record StageInfo =
  siName :: string
  siNum :: nat
  siCount :: nat

datatype stage_event = OnStageStart StageInfo | OnStageEnd StageInfo "gerror option" | OnStageCancelled StageInfo

text \<open>
  A stage sees the failure of an earlier stage and the world. The type of its errors is read after it
  has run, from its own state, which is part of the world.
\<close>

record 's Stage =
  Name :: string
  AlwaysExecute :: bool
  ErrorType :: "'s \<Rightarrow> RunResult"
  Execute :: "gerror option \<Rightarrow> 's \<Rightarrow> gerror option \<times> ('s \<Rightarrow> 's) option \<times> 's"

record 's StageContext =
  FailureError :: "gerror option"
  FailureRunResult :: RunResult
  Events :: "stage_event list"
  World :: 's

definition user_canceled :: gerror where
  "user_canceled = ''EngineCommonUserCanceled''"

text \<open>
  The loop over the stages. The deferred functions are kept in the order in which they will run, the
  last one first. The command state is a part of the world that the first argument selects.
\<close>

fun drive_loop ::
  "('s \<Rightarrow> CommandState) \<Rightarrow> nat \<Rightarrow> nat \<Rightarrow> 's Stage list \<Rightarrow> 's StageContext \<Rightarrow> ('s \<Rightarrow> 's) list \<Rightarrow>
     (RunResult \<times> gerror option) \<times> 's StageContext \<times> ('s \<Rightarrow> 's) list" where
  "drive_loop cs stageI stageCount [] ctx defers =
     ((if FailureError ctx = None then (''success'', None) else (FailureRunResult ctx, FailureError ctx)), ctx, defers)"
| "drive_loop cs stageI stageCount (stage # ss) ctx defers =
     (let stageInfo = \<lparr>siName = Name stage, siNum = stageI + 1, siCount = stageCount\<rparr> in
      if FailureError ctx \<noteq> None \<and> \<not> AlwaysExecute stage then drive_loop cs (stageI + 1) stageCount ss ctx defers
      else
        case Execute stage (FailureError ctx) (World ctx) of (err, cleanUp, w) \<Rightarrow>
          let defers' = (case cleanUp of None \<Rightarrow> defers | Some f \<Rightarrow> f # defers);
              ctx1 = ctx\<lparr>Events := Events ctx @ [OnStageStart stageInfo], World := w\<rparr>;
              ctx2 = (case err of None \<Rightarrow> ctx1 | Some e \<Rightarrow> ctx1\<lparr>FailureError := Some e, FailureRunResult := ErrorType stage w\<rparr>)
          in if RecipeCommand (cs w) = CommandCancel then
               ((ErrorType stage w, Some (case cancelErr (cs w) of None \<Rightarrow> user_canceled | Some e \<Rightarrow> e)),
                ctx2\<lparr>Events := Events ctx2 @ [OnStageCancelled stageInfo, OnStageEnd stageInfo err]\<rparr>, defers')
             else drive_loop cs (stageI + 1) stageCount ss (ctx2\<lparr>Events := Events ctx2 @ [OnStageEnd stageInfo err]\<rparr>) defers')"

definition DriveRecipeExecutionStages ::
  "('s \<Rightarrow> CommandState) \<Rightarrow> 's Stage list \<Rightarrow> 's StageContext \<Rightarrow> (RunResult \<times> gerror option) \<times> 's StageContext" where
  "DriveRecipeExecutionStages cs ss ctx =
     (case drive_loop cs 0 (length ss) ss ctx [] of (res, ctx', defers) \<Rightarrow>
        (res, ctx'\<lparr>World := fold (\<lambda>f w. f w) defers (World ctx')\<rparr>))"

section \<open>What a drive did\<close>

text \<open>
  A step of a drive: which stage ran (from 0), what it left, and whether the drive ended there because
  of a cancellation.
\<close>

record 's step =
  sIndex :: nat
  sErr :: "gerror option"
  sCleanUp :: "('s \<Rightarrow> 's) option"
  sAfter :: 's
  sCancelled :: bool

definition step_info :: "'s Stage list \<Rightarrow> 's step \<Rightarrow> StageInfo" where
  "step_info ss t = \<lparr>siName = Name (ss ! sIndex t), siNum = sIndex t + 1, siCount = length ss\<rparr>"

definition step_events :: "'s Stage list \<Rightarrow> 's step \<Rightarrow> stage_event list" where
  "step_events ss t =
     OnStageStart (step_info ss t) # (if sCancelled t then [OnStageCancelled (step_info ss t)] else []) @
     [OnStageEnd (step_info ss t) (sErr t)]"

text \<open>The failure after some steps is that of the last one that failed.\<close>

definition last_failure :: "'s Stage list \<Rightarrow> 's step list \<Rightarrow> (RunResult \<times> gerror) option" where
  "last_failure ss ts =
     foldl (\<lambda>a t. case sErr t of None \<Rightarrow> a | Some e \<Rightarrow> Some (ErrorType (ss ! sIndex t) (sAfter t), e)) None ts"

definition was_cancelled :: "'s step list \<Rightarrow> bool" where
  "was_cancelled ts \<longleftrightarrow> (\<exists>t\<in>set ts. sCancelled t)"

definition world_after :: "'s \<Rightarrow> 's step list \<Rightarrow> 's" where
  "world_after w ts = (if ts = [] then w else sAfter (last ts))"

definition clean_ups :: "'s step list \<Rightarrow> ('s \<Rightarrow> 's) list" where
  "clean_ups ts = List.map_filter sCleanUp (rev ts)"

text \<open>
  The steps a drive may have taken when it comes to stage \<open>i\<close>. A stage is passed over only after a
  failure, and then only if it need not run always; a cancellation ends the drive.
\<close>

inductive drive_trace :: "('s \<Rightarrow> CommandState) \<Rightarrow> 's Stage list \<Rightarrow> 's \<Rightarrow> nat \<Rightarrow> 's step list \<Rightarrow> bool"
  for cs ss w where
  Start: "drive_trace cs ss w 0 []"
| Skip: "drive_trace cs ss w i ts \<Longrightarrow> \<not> was_cancelled ts \<Longrightarrow> i < length ss \<Longrightarrow> \<not> AlwaysExecute (ss ! i) \<Longrightarrow>
    last_failure ss ts \<noteq> None \<Longrightarrow> drive_trace cs ss w (Suc i) ts"
| Run: "drive_trace cs ss w i ts \<Longrightarrow> \<not> was_cancelled ts \<Longrightarrow> i < length ss \<Longrightarrow>
    AlwaysExecute (ss ! i) \<or> last_failure ss ts = None \<Longrightarrow>
    Execute (ss ! i) (map_option snd (last_failure ss ts)) (world_after w ts) = (err, cleanUp, w') \<Longrightarrow>
    drive_trace cs ss w (Suc i)
      (ts @ [\<lparr>sIndex = i, sErr = err, sCleanUp = cleanUp, sAfter = w', sCancelled = (RecipeCommand (cs w') = CommandCancel)\<rparr>])"

inductive_cases trace_SucE: "drive_trace cs ss w (Suc i) ts"

text \<open>The steps of a drive up to a stage can be computed.\<close>

fun trace_upto :: "('s \<Rightarrow> CommandState) \<Rightarrow> 's Stage list \<Rightarrow> 's \<Rightarrow> nat \<Rightarrow> 's step list" where
  "trace_upto cs ss w 0 = []"
| "trace_upto cs ss w (Suc i) =
     (let ts = trace_upto cs ss w i; failure = last_failure ss ts in
      if \<not> AlwaysExecute (ss ! i) \<and> failure \<noteq> None then ts
      else case Execute (ss ! i) (map_option snd failure) (world_after w ts) of (err, cleanUp, w') \<Rightarrow>
        ts @ [\<lparr>sIndex = i, sErr = err, sCleanUp = cleanUp, sAfter = w', sCancelled = (RecipeCommand (cs w') = CommandCancel)\<rparr>])"

text \<open>The result that belongs to the steps of a drive.\<close>

definition drive_result :: "('s \<Rightarrow> CommandState) \<Rightarrow> 's Stage list \<Rightarrow> 's step list \<Rightarrow> RunResult \<times> gerror option" where
  "drive_result cs ss ts =
     (if was_cancelled ts
      then (ErrorType (ss ! sIndex (last ts)) (sAfter (last ts)),
            Some (case cancelErr (cs (sAfter (last ts))) of None \<Rightarrow> user_canceled | Some e \<Rightarrow> e))
      else case last_failure ss ts of None \<Rightarrow> (''success'', None) | Some (r, e) \<Rightarrow> (r, Some e))"

lemma last_failure_snoc [simp]:
  "last_failure ss (ts @ [t]) =
     (case sErr t of None \<Rightarrow> last_failure ss ts | Some e \<Rightarrow> Some (ErrorType (ss ! sIndex t) (sAfter t), e))"
  by (simp add: last_failure_def split: option.splits)

lemma last_failure_Nil [simp]: "last_failure ss [] = None"
  by (simp add: last_failure_def)

lemma world_after_simps [simp]: "world_after w [] = w" "world_after w (ts @ [t]) = sAfter t"
  by (simp_all add: world_after_def)

lemma was_cancelled_simps [simp]: "\<not> was_cancelled []" "was_cancelled (ts @ [t]) \<longleftrightarrow> sCancelled t \<or> was_cancelled ts"
  by (auto simp: was_cancelled_def)

lemma clean_ups_snoc [simp]: "clean_ups (ts @ [t]) = (case sCleanUp t of None \<Rightarrow> clean_ups ts | Some f \<Rightarrow> f # clean_ups ts)"
  by (simp add: clean_ups_def map_filter_simps split: option.splits)

lemma clean_ups_Nil [simp]: "clean_ups [] = []"
  by (simp add: clean_ups_def map_filter_simps)

lemma trace_upto_trace: "i \<le> length ss \<Longrightarrow> \<not> was_cancelled (trace_upto cs ss w i) \<Longrightarrow> drive_trace cs ss w i (trace_upto cs ss w i)"
proof (induction i)
  case (Suc i)
  let ?ts = "trace_upto cs ss w i"
  obtain err cleanUp w' where ex: "Execute (ss ! i) (map_option snd (last_failure ss ?ts)) (world_after w ?ts) = (err, cleanUp, w')"
    by (metis prod_cases3)
  with Suc.prems(2) have n: "\<not> was_cancelled ?ts" by (auto simp: Let_def split: if_splits)
  have i: "i < length ss" and t: "drive_trace cs ss w i ?ts" using Suc n by simp_all
  show ?case
  proof (cases "\<not> AlwaysExecute (ss ! i) \<and> last_failure ss ?ts \<noteq> None")
    case True
    with Skip [OF t n i] show ?thesis by simp
  next
    case False
    then have "AlwaysExecute (ss ! i) \<or> last_failure ss ?ts = None" by blast
    from Run [OF t n i this ex] False ex show ?thesis by (auto simp del: not_None_eq simp: Let_def)
  qed
qed (simp add: Start)

text \<open>What the loop maintains: the context is the one that the steps taken so far give.\<close>

definition ctx_of :: "'s Stage list \<Rightarrow> 's \<Rightarrow> stage_event list \<Rightarrow> 's step list \<Rightarrow> 's StageContext \<Rightarrow> bool" where
  "ctx_of ss w ev ts ctx \<longleftrightarrow>
     FailureError ctx = map_option snd (last_failure ss ts) \<and>
     (\<forall>r e. last_failure ss ts = Some (r, e) \<longrightarrow> FailureRunResult ctx = r) \<and>
     Events ctx = ev @ concat (map (step_events ss) ts) \<and> World ctx = world_after w ts"

lemma drive_loop_trace:
  assumes "drive_loop cs i (length ss) rest ctx defers = (res, ctx', defers')" and "rest = drop i ss" and "i \<le> length ss"
    and "drive_trace cs ss w i ts" and "\<not> was_cancelled ts" and "ctx_of ss w ev ts ctx" and "defers = clean_ups ts"
  shows "\<exists>j ts'. drive_trace cs ss w j ts' \<and> (j = length ss \<or> was_cancelled ts') \<and> ctx_of ss w ev ts' ctx' \<and>
    defers' = clean_ups ts' \<and> res = drive_result cs ss ts'"
  using assms
proof (induction rest arbitrary: i ctx defers ts)
  case Nil
  then have "i = length ss" "ctx' = ctx" "defers' = defers" by auto
  moreover have "res = drive_result cs ss ts"
    using Nil by (auto simp: drive_result_def ctx_of_def split: option.splits if_splits)
  ultimately show ?case using Nil by blast
next
  case (Cons stage rest)
  have il: "i < length ss" using Cons.prems(2) by (metis drop_all list.discI not_le_imp_less)
  moreover have "drop i ss = ss ! i # drop (Suc i) ss" by (rule Cons_nth_drop_Suc [OF il, symmetric])
  ultimately have i: "i < length ss" "ss ! i = stage" "rest = drop (Suc i) ss" using Cons.prems(2) by auto
  have fail: "FailureError ctx = map_option snd (last_failure ss ts)" and w: "World ctx = world_after w ts"
    using Cons.prems(6) by (auto simp: ctx_of_def)
  show ?case
  proof (cases "FailureError ctx \<noteq> None \<and> \<not> AlwaysExecute stage")
    case True
    then have "drive_trace cs ss w (Suc i) ts" using Cons.prems i fail by (intro Skip) auto
    moreover have "drive_loop cs (Suc i) (length ss) rest ctx defers = (res, ctx', defers')"
      using Cons.prems(1) True by (simp add: Let_def)
    ultimately show ?thesis using Cons.IH [of "Suc i" ctx defers ts] i Cons.prems(5-7) by auto
  next
    case False
    obtain err cleanUp w' where ex: "Execute stage (FailureError ctx) (World ctx) = (err, cleanUp, w')"
      by (metis prod_cases3)
    define t where "t = \<lparr>sIndex = i, sErr = err, sCleanUp = cleanUp, sAfter = w', sCancelled = (RecipeCommand (cs w') = CommandCancel)\<rparr>"
    have tr: "drive_trace cs ss w (Suc i) (ts @ [t])"
      unfolding t_def using Cons.prems(4,5) i False ex fail w by (intro Run) auto
    define ctx1 where "ctx1 = ctx\<lparr>Events := Events ctx @ step_events ss t, World := w',
      FailureError := (if err = None then FailureError ctx else err),
      FailureRunResult := (if err = None then FailureRunResult ctx else ErrorType stage w')\<rparr>"
    have c1: "ctx_of ss w ev (ts @ [t]) ctx1"
      using Cons.prems(6) i by (auto simp: ctx_of_def ctx1_def t_def split: option.splits)
    have loop: "drive_loop cs i (length ss) (stage # rest) ctx defers =
      (if sCancelled t then (drive_result cs ss (ts @ [t]), ctx1, clean_ups (ts @ [t]))
       else drive_loop cs (Suc i) (length ss) rest ctx1 (clean_ups (ts @ [t])))"
      using False ex i Cons.prems(5,7)
      by (cases ctx; cases err; cases cleanUp) (auto simp: ctx1_def t_def step_events_def step_info_def drive_result_def Let_def)
    show ?thesis
    proof (cases "sCancelled t")
      case True
      then show ?thesis using loop Cons.prems(1) tr c1 by (intro exI [of _ "Suc i"] exI [of _ "ts @ [t]"]) auto
    next
      case False
      then show ?thesis
        using loop Cons.prems(1,5) tr c1 i Cons.IH [of "Suc i" ctx1 "clean_ups (ts @ [t])" "ts @ [t]"] by auto
    qed
  qed
qed

lemma drive_steps:
  assumes "FailureError ctx = None" and "DriveRecipeExecutionStages cs ss ctx = (res, ctx')"
  shows "\<exists>i ts. drive_trace cs ss (World ctx) i ts \<and> (i = length ss \<or> was_cancelled ts) \<and>
    Events ctx' = Events ctx @ concat (map (step_events ss) ts) \<and> res = drive_result cs ss ts \<and>
    World ctx' = fold (\<lambda>f w. f w) (clean_ups ts) (world_after (World ctx) ts)"
proof -
  obtain r c d where l: "drive_loop cs 0 (length ss) ss ctx [] = (r, c, d)" by (metis prod_cases3)
  have "ctx_of ss (World ctx) (Events ctx) [] ctx" using assms(1) by (simp add: ctx_of_def)
  from drive_loop_trace [OF l _ _ Start _ this] obtain i ts where
    "drive_trace cs ss (World ctx) i ts" "i = length ss \<or> was_cancelled ts" "ctx_of ss (World ctx) (Events ctx) ts c"
    "d = clean_ups ts" "r = drive_result cs ss ts" by auto
  then show ?thesis
    using assms(2) l by (intro exI [of _ i] exI [of _ ts]) (auto simp: DriveRecipeExecutionStages_def ctx_of_def)
qed

text \<open>
  C29. A drive does what the steps of a trace say: the notifications are those of the steps in order,
  each stage bracketed by its start and its end; the result is the error of the cancellation if there
  was one, the last failure if a stage failed, and success otherwise; and the functions that clean up
  after the stages run once each, in the reverse order of the stages, also after a failure or a
  cancellation.
\<close>

theorem drive_refines_trace:
  assumes "FailureError ctx = None" and "DriveRecipeExecutionStages cs ss ctx = (res, ctx')"
  shows "\<exists>i ts. drive_trace cs ss (World ctx) i ts \<and> (i = length ss \<or> was_cancelled ts) \<and>
    Events ctx' = Events ctx @ concat (map (step_events ss) ts) \<and> res = drive_result cs ss ts \<and>
    World ctx' = fold (\<lambda>f w. f w) (clean_ups ts) (world_after (World ctx) ts)"
  by (rule drive_steps [OF assms])

lemma trace_clean:
  "drive_trace cs ss w i ts \<Longrightarrow> last_failure ss ts = None \<Longrightarrow>
     map sIndex ts = [0..<i] \<and> (\<forall>t\<in>set ts. sErr t = None) \<and> i \<le> length ss"
  by (induction rule: drive_trace.induct) (auto split: option.splits)

lemma no_failure: "\<forall>t\<in>set ts. sErr t = None \<Longrightarrow> last_failure ss ts = None"
  by (induction ts rule: rev_induct) auto

definition info_at :: "'s Stage list \<Rightarrow> nat \<Rightarrow> StageInfo" where
  "info_at ss i = \<lparr>siName = Name (ss ! i), siNum = i + 1, siCount = length ss\<rparr>"

lemma clean_events:
  "\<not> was_cancelled ts \<Longrightarrow> \<forall>t\<in>set ts. sErr t = None \<Longrightarrow>
     map (step_events ss) ts = map (\<lambda>i. [OnStageStart (info_at ss i), OnStageEnd (info_at ss i) None]) (map sIndex ts)"
  by (auto simp: step_events_def step_info_def info_at_def was_cancelled_def)

lemma drive_result_ok: "snd (drive_result cs ss ts) = None \<longleftrightarrow> \<not> was_cancelled ts \<and> last_failure ss ts = None"
  by (auto simp: drive_result_def split: option.splits)

lemma bad_step_event:
  assumes "t \<in> set ts" and "sCancelled t \<or> sErr t \<noteq> None"
  shows "concat (map (step_events ss) ts) \<noteq> concat (map (\<lambda>i. [OnStageStart (info_at ss' i), OnStageEnd (info_at ss' i) None]) is)"
proof
  assume eq: "concat (map (step_events ss) ts) = concat (map (\<lambda>i. [OnStageStart (info_at ss' i), OnStageEnd (info_at ss' i) None]) is)"
  have "OnStageCancelled (step_info ss t) \<in> set (step_events ss t) \<or>
      (\<exists>e. OnStageEnd (step_info ss t) (Some e) \<in> set (step_events ss t))"
    using assms(2) by (auto simp: step_events_def)
  then have "OnStageCancelled (step_info ss t) \<in> set (concat (map (step_events ss) ts)) \<or>
      (\<exists>e. OnStageEnd (step_info ss t) (Some e) \<in> set (concat (map (step_events ss) ts)))"
    using assms(1) by auto
  then show False unfolding eq by auto
qed

text \<open>
  A drive returns no error exactly if the client sees each stage, in order, start and end without
  an error; the result is then success.
\<close>

theorem drive_success_iff:
  assumes "FailureError ctx = None" and "DriveRecipeExecutionStages cs ss ctx = ((res, err), ctx')"
  shows "(err = None \<longleftrightarrow> Events ctx' = Events ctx @
      concat (map (\<lambda>i. [OnStageStart (info_at ss i), OnStageEnd (info_at ss i) None]) [0..<length ss])) \<and>
    (err = None \<longrightarrow> res = ''success'')"
proof -
  from drive_steps [OF assms] obtain i ts where t: "drive_trace cs ss (World ctx) i ts" "i = length ss \<or> was_cancelled ts"
    "Events ctx' = Events ctx @ concat (map (step_events ss) ts)" "(res, err) = drive_result cs ss ts" by blast
  have err: "err = None \<longleftrightarrow> \<not> was_cancelled ts \<and> last_failure ss ts = None"
    using drive_result_ok [of cs ss ts] t(4) by (metis snd_conv)
  show ?thesis
  proof (cases "err = None")
    case True
    then have n: "\<not> was_cancelled ts" "last_failure ss ts = None" using err by auto
    with trace_clean [OF t(1)] clean_events [of ts ss] t(2,3) True t(4) show ?thesis by (simp add: drive_result_def)
  next
    case False
    then have "\<exists>t\<in>set ts. sCancelled t \<or> sErr t \<noteq> None" using err no_failure [of ts ss] by (auto simp: was_cancelled_def)
    then obtain s where s: "s \<in> set ts" "sCancelled s \<or> sErr s \<noteq> None" by blast
    with bad_step_event [OF s, of ss ss "[0..<length ss]"] t(3) False show ?thesis by auto
  qed
qed

text \<open>Two stages of which the first fails; the second runs nevertheless, fails too, and leaves its clean-up.\<close>

definition demo_failing :: "CommandState Stage list" where
  "demo_failing =
     [\<lparr>Name = ''connect'', AlwaysExecute = False, ErrorType = (\<lambda>_. ''failure_connect_ssh''), Execute = (\<lambda>_ w. (Some ''refused'', None, w))\<rparr>,
      \<lparr>Name = ''script'', AlwaysExecute = False, ErrorType = (\<lambda>_. ''failure_recipe_stage''), Execute = (\<lambda>_ w. (None, None, w))\<rparr>,
      \<lparr>Name = ''retrieve'', AlwaysExecute = True, ErrorType = (\<lambda>_. ''failure_retrieve_output_files''),
       Execute = (\<lambda>_ w. (Some ''no agent'', Some (\<lambda>w. w\<lparr>RecipeCommand := 1\<rparr>), w))\<rparr>]"

definition demo_start :: "CommandState StageContext" where
  "demo_start = \<lparr>FailureError = None, FailureRunResult = [], Events = [], World = \<lparr>RecipeCommand = 0, cancelErr = None\<rparr>\<rparr>"

theorem drive_refines_trace_witness:
  "\<exists>i ts. drive_trace id demo_failing (World demo_start) i ts \<and> (i = 3 \<or> was_cancelled ts) \<and>
    drive_result id demo_failing ts = (''failure_retrieve_output_files'', Some ''no agent'')"
proof -
  have f: "FailureError demo_start = None" by (simp add: demo_start_def)
  have r: "fst (DriveRecipeExecutionStages id demo_failing demo_start) = (''failure_retrieve_output_files'', Some ''no agent'')" by code_simp
  have l: "length demo_failing = 3" by (simp add: demo_failing_def)
  show ?thesis
    using drive_refines_trace [OF f, of id demo_failing "fst (DriveRecipeExecutionStages id demo_failing demo_start)"
      "snd (DriveRecipeExecutionStages id demo_failing demo_start)"] unfolding r l by (metis prod.collapse r)
qed

theorem drive_success_iff_witness:
  "Events (snd (DriveRecipeExecutionStages id (tl (butlast demo_failing)) demo_start)) =
     [OnStageStart (info_at (tl (butlast demo_failing)) 0), OnStageEnd (info_at (tl (butlast demo_failing)) 0) None]"
proof -
  have f: "FailureError demo_start = None" by (simp add: demo_start_def)
  have d: "DriveRecipeExecutionStages id (tl (butlast demo_failing)) demo_start =
      ((''success'', None), snd (DriveRecipeExecutionStages id (tl (butlast demo_failing)) demo_start))" by code_simp
  have e: "Events demo_start = []" by (simp add: demo_start_def)
  have l: "length (tl (butlast demo_failing)) = Suc 0" by (simp add: demo_failing_def)
  from drive_success_iff [OF f d] show ?thesis unfolding e l by simp
qed

end
