(* ===== verification/Parameters.thy ===== *)
theory Parameters
  imports Semver "HOL-Library.Word" "HOL-Library.Sublist"
begin

unbundle bit_operations_syntax

text \<open>
  Parameters of recipes and tool integrations (core/apap-engine/parameters): the binding of inputs to
  declared parameters, the look-up and the collapse to a map, the validation against the options, the
  parameters of renders, and the options of a select or radio parameter. The dynamic types of Go's
  \<open>any\<close> that the code distinguishes are constructors of one type; a map of inputs is an association list.
\<close>

section \<open>Values\<close>

text \<open>A float holds its bits.\<close>

datatype any =
  ANil
| AStr string
| ABool bool
| AFloat "64 word"
| AList "any list"
| AStrs "string list"
| AMap "(string \<times> any) list"

type_synonym inputs = "(string \<times> any) list"

text \<open>An entry that is missing and an entry that is \<open>nil\<close> read the same.\<close>

definition input_at :: "inputs \<Rightarrow> string \<Rightarrow> any" where
  "input_at inputs k = (case map_of inputs k of None \<Rightarrow> ANil | Some v \<Rightarrow> v)"

fun convertToStringSlice :: "any list \<Rightarrow> string list option" where
  "convertToStringSlice [] = Some []"
| "convertToStringSlice (AStr s # vs) = (case convertToStringSlice vs of None \<Rightarrow> None | Some ss \<Rightarrow> Some (s # ss))"
| "convertToStringSlice (_ # vs) = None"

definition float_finite :: "64 word \<Rightarrow> bool" where
  "float_finite b \<longleftrightarrow> drop_bit 52 b AND 0x7FF \<noteq> 0x7FF"

section \<open>Declarations\<close>

record Parameter =
  ID :: string
  Label :: string
  Description :: string
  Required :: bool
  Order :: nat
  VisibleWhen :: "(string \<times> string) list"

record ParameterOption =
  optValue :: string
  optLabel :: string
  optDescription :: string

record TextParameter = Parameter +
  textDefault :: string

record ChoiceParameter = Parameter +
  choiceDefault :: string
  choiceOptions :: "string list"
  choiceItems :: "ParameterOption list"

record MultiSelectParameter = Parameter +
  multiDefault :: "string list"
  multiOptions :: "string list"
  multiItems :: "ParameterOption list"

record CheckboxParameter = Parameter +
  boxDefault :: bool

record Parameters =
  SingleSelect :: "ChoiceParameter list"
  MultiSelect :: "MultiSelectParameter list"
  Checkbox :: "CheckboxParameter list"
  Input :: "TextParameter list"
  Radio :: "ChoiceParameter list"

record ParameterValues =
  vCheckbox :: "bool list"
  vRadio :: "string list"
  vSingleSelect :: "string list"
  vMultiSelect :: "string list list"
  vInput :: "string list"

record BoundParameters =
  bpParameters :: Parameters
  bpValues :: ParameterValues

datatype param_error =
  InvalidParam string
| InvalidParams "string list"
| InvalidCheckboxValue string
| InvalidRadioValue string
| InvalidSingleSelectValue string
| InvalidMultiSelectValue string
| InvalidInputValue string

section \<open>Binding\<close>

definition bind_input :: "inputs \<Rightarrow> TextParameter \<Rightarrow> param_error + string" where
  "bind_input inputs p =
     (case input_at inputs (ID p) of
        ANil \<Rightarrow> Inr (textDefault p)
      | AStr v \<Rightarrow> Inr v
      | _ \<Rightarrow> Inl (InvalidInputValue (ID p)))"

text \<open>An empty list selects nothing: the value is the empty string, not the default.\<close>

definition bind_single :: "inputs \<Rightarrow> ChoiceParameter \<Rightarrow> param_error + string" where
  "bind_single inputs p =
     (case input_at inputs (ID p) of
        ANil \<Rightarrow> Inr (choiceDefault p)
      | AList v \<Rightarrow>
         (case convertToStringSlice v of
            None \<Rightarrow> Inl (InvalidSingleSelectValue (ID p))
          | Some [] \<Rightarrow> Inr []
          | Some [s] \<Rightarrow> Inr s
          | Some _ \<Rightarrow> Inl (InvalidSingleSelectValue (ID p)))
      | AStr v \<Rightarrow> Inr v
      | _ \<Rightarrow> Inl (InvalidSingleSelectValue (ID p)))"

definition bind_multi :: "inputs \<Rightarrow> MultiSelectParameter \<Rightarrow> param_error + string list" where
  "bind_multi inputs p =
     (case input_at inputs (ID p) of
        ANil \<Rightarrow> Inr (multiDefault p)
      | AList v \<Rightarrow>
         (case convertToStringSlice v of
            None \<Rightarrow> Inl (InvalidMultiSelectValue (ID p))
          | Some ss \<Rightarrow> Inr ss)
      | AStr v \<Rightarrow> Inr [v]
      | AStrs v \<Rightarrow> Inr v
      | _ \<Rightarrow> Inl (InvalidMultiSelectValue (ID p)))"

definition lower :: "char \<Rightarrow> char" where
  "lower c = (if of_char c \<ge> (65::nat) \<and> of_char c \<le> (90::nat) then char_of (of_char c + 32 :: nat) else c)"

definition bind_checkbox :: "inputs \<Rightarrow> CheckboxParameter \<Rightarrow> param_error + bool" where
  "bind_checkbox inputs p =
     (case input_at inputs (ID p) of
        ANil \<Rightarrow> Inr (boxDefault p)
      | ABool b \<Rightarrow> Inr b
      | AStr b \<Rightarrow>
          (let lowerB = map lower b in
           if lowerB \<noteq> ''true'' \<and> lowerB \<noteq> ''false'' then Inl (InvalidCheckboxValue (ID p)) else Inr (lowerB = ''true''))
      | _ \<Rightarrow> Inl (InvalidCheckboxValue (ID p)))"

definition bind_radio :: "inputs \<Rightarrow> ChoiceParameter \<Rightarrow> param_error + string" where
  "bind_radio inputs p =
     (case input_at inputs (ID p) of
        ANil \<Rightarrow> Inr (choiceDefault p)
      | AStr v \<Rightarrow> Inr v
      | _ \<Rightarrow> Inl (InvalidRadioValue (ID p)))"

text \<open>The loops stop at the first error.\<close>

fun bind_all :: "('p \<Rightarrow> param_error + 'v) \<Rightarrow> 'p list \<Rightarrow> param_error + 'v list" where
  "bind_all f [] = Inr []"
| "bind_all f (p # ps) =
     (case f p of
        Inl e \<Rightarrow> Inl e
      | Inr v \<Rightarrow> (case bind_all f ps of Inl e \<Rightarrow> Inl e | Inr vs \<Rightarrow> Inr (v # vs)))"

definition declared_ids :: "Parameters \<Rightarrow> string list" where
  "declared_ids ps = map ID (Input ps) @ map ID (SingleSelect ps) @ map ID (MultiSelect ps) @ map ID (Checkbox ps) @ map ID (Radio ps)"

definition unmapped_keys :: "inputs \<Rightarrow> Parameters \<Rightarrow> string list" where
  "unmapped_keys inputs ps =
     filter (\<lambda>k. \<not> (k \<in> set (declared_ids ps) \<and> input_at inputs k \<noteq> ANil)) (remdups (map fst inputs))"

definition bindParameters :: "inputs \<Rightarrow> Parameters \<Rightarrow> param_error + BoundParameters" where
  "bindParameters inputs params =
     (case bind_all (bind_input inputs) (Input params) of Inl e \<Rightarrow> Inl e | Inr vIn \<Rightarrow>
      case bind_all (bind_single inputs) (SingleSelect params) of Inl e \<Rightarrow> Inl e | Inr vSingle \<Rightarrow>
      case bind_all (bind_multi inputs) (MultiSelect params) of Inl e \<Rightarrow> Inl e | Inr vMulti \<Rightarrow>
      case bind_all (bind_checkbox inputs) (Checkbox params) of Inl e \<Rightarrow> Inl e | Inr vBox \<Rightarrow>
      case bind_all (bind_radio inputs) (Radio params) of Inl e \<Rightarrow> Inl e | Inr vRad \<Rightarrow>
        (case unmapped_keys inputs params of
           [] \<Rightarrow> Inr \<lparr>bpParameters = params, bpValues =
                  \<lparr>vCheckbox = vBox, vRadio = vRad, vSingleSelect = vSingle, vMultiSelect = vMulti, vInput = vIn\<rparr>\<rparr>
         | [k] \<Rightarrow> Inl (InvalidParam k)
         | ks \<Rightarrow> Inl (InvalidParams ks)))"

text \<open>The values in the order of the declarations, each list with the values of its parameters.\<close>

definition entries_of :: "('v \<Rightarrow> any) \<Rightarrow> 'a Parameter_scheme list \<Rightarrow> 'v list \<Rightarrow> (string \<times> any) list" where
  "entries_of box ps vs = zip (map ID ps) (map box vs)"

definition FindValue :: "BoundParameters \<Rightarrow> string \<Rightarrow> any option" where
  "FindValue bd paramID =
     (let ps = bpParameters bd; vs = bpValues bd in
      case map_of (entries_of ABool (Checkbox ps) (vCheckbox vs)) paramID of Some v \<Rightarrow> Some v | None \<Rightarrow>
      case map_of (entries_of AStr (Input ps) (vInput vs)) paramID of Some v \<Rightarrow> Some v | None \<Rightarrow>
      case map_of (entries_of AStr (SingleSelect ps) (vSingleSelect vs)) paramID of Some v \<Rightarrow> Some v | None \<Rightarrow>
      case map_of (entries_of AStrs (MultiSelect ps) (vMultiSelect vs)) paramID of Some v \<Rightarrow> Some v | None \<Rightarrow>
      map_of (entries_of AStr (Radio ps) (vRadio vs)) paramID)"

text \<open>Later entries of a map replace earlier ones, so the last write comes first in the list.\<close>

definition CollapseToMap :: "BoundParameters \<Rightarrow> inputs" where
  "CollapseToMap bd =
     (let ps = bpParameters bd; vs = bpValues bd in
      rev (entries_of ABool (Checkbox ps) (vCheckbox vs) @ entries_of AStr (Input ps) (vInput vs) @
           filter (\<lambda>(k, v). v \<noteq> AStr []) (entries_of AStr (SingleSelect ps) (vSingleSelect vs)) @
           entries_of AStrs (MultiSelect ps) (vMultiSelect vs) @ entries_of AStr (Radio ps) (vRadio vs)))"

section \<open>Validation against the options\<close>

definition choice_ok :: "ChoiceParameter \<Rightarrow> string \<Rightarrow> bool" where
  "choice_ok p value \<longleftrightarrow>
     \<not> (Required p \<and> value = []) \<and>
     \<not> (choiceOptions p \<noteq> [] \<and> value \<noteq> [] \<and> \<not> List.member (choiceOptions p) value)"

definition first_bad :: "('p \<Rightarrow> 'v \<Rightarrow> param_error option) \<Rightarrow> 'p list \<Rightarrow> 'v list \<Rightarrow> param_error option" where
  "first_bad check ps vs = (case List.map_filter (\<lambda>(p, v). check p v) (zip ps vs) of [] \<Rightarrow> None | e # _ \<Rightarrow> Some e)"

definition multi_bad :: "MultiSelectParameter \<Rightarrow> string list \<Rightarrow> param_error option" where
  "multi_bad p values =
     (if Required p \<and> values = [] then Some (InvalidMultiSelectValue (ID p))
      else if multiOptions p \<noteq> [] \<and> list_ex (\<lambda>v. \<not> List.member (multiOptions p) v) values then Some (InvalidMultiSelectValue (ID p))
      else None)"

definition validateParameterValues :: "BoundParameters \<Rightarrow> param_error option" where
  "validateParameterValues bd =
     (let ps = bpParameters bd; vs = bpValues bd in
      case first_bad (\<lambda>p v. if Required p \<and> v = [] then Some (InvalidInputValue (ID p)) else None) (Input ps) (vInput vs) of
        Some e \<Rightarrow> Some e | None \<Rightarrow>
      case first_bad (\<lambda>p v. if choice_ok p v then None else Some (InvalidSingleSelectValue (ID p))) (SingleSelect ps) (vSingleSelect vs) of
        Some e \<Rightarrow> Some e | None \<Rightarrow>
      case first_bad multi_bad (MultiSelect ps) (vMultiSelect vs) of
        Some e \<Rightarrow> Some e | None \<Rightarrow>
      first_bad (\<lambda>p v. if choice_ok p v then None else Some (InvalidRadioValue (ID p))) (Radio ps) (vRadio vs))"

section \<open>Parameters of renders\<close>

datatype render_type = RString | RNumber

record RenderParameter =
  rpID :: string
  rpType :: render_type
  rpIsArray :: bool

record BoundRenderParameters =
  brpParameters :: "RenderParameter list"
  brpValues :: inputs

definition parseRenderParameterScalarType :: "string \<Rightarrow> render_type option" where
  "parseRenderParameterScalarType t = (if t = ''number'' then Some RNumber else if t = ''string'' then Some RString else None)"

fun parseRenderParameterType :: "any \<Rightarrow> (render_type \<times> bool) option" where
  "parseRenderParameterType (AStr v) = map_option (\<lambda>t. (t, False)) (parseRenderParameterScalarType v)"
| "parseRenderParameterType (AList [AStr v]) = map_option (\<lambda>t. (t, True)) (parseRenderParameterScalarType v)"
| "parseRenderParameterType _ = None"

fun extractRenderParameters :: "(string \<times> any) list \<Rightarrow> param_error + RenderParameter list" where
  "extractRenderParameters [] = Inr []"
| "extractRenderParameters ((i, t) # ps) =
     (case parseRenderParameterType t of
        None \<Rightarrow> Inl (InvalidParam i)
      | Some (vt, isArray) \<Rightarrow>
         (case extractRenderParameters ps of
            Inl e \<Rightarrow> Inl e
          | Inr rs \<Rightarrow> Inr (\<lparr>rpID = i, rpType = vt, rpIsArray = isArray\<rparr> # rs)))"

definition validateRenderParameterSingleValue :: "RenderParameter \<Rightarrow> any \<Rightarrow> bool" where
  "validateRenderParameterSingleValue param value =
     (case rpType param of
        RString \<Rightarrow> (case value of AStr _ \<Rightarrow> True | _ \<Rightarrow> False)
      | RNumber \<Rightarrow> (case value of AFloat n \<Rightarrow> float_finite n | _ \<Rightarrow> False))"

definition validateRenderParameterValue :: "RenderParameter \<Rightarrow> any \<Rightarrow> bool" where
  "validateRenderParameterValue param value =
     (if rpIsArray param
      then case value of AList v \<Rightarrow> list_all (validateRenderParameterSingleValue param) v | _ \<Rightarrow> False
      else validateRenderParameterSingleValue param value)"

text \<open>The last declaration of an ID counts when values are bound, the first one when a default is set.\<close>

definition declared_last :: "RenderParameter list \<Rightarrow> string \<Rightarrow> RenderParameter option" where
  "declared_last params k = map_of (rev (map (\<lambda>p. (rpID p, p)) params)) k"

fun bind_render :: "RenderParameter list \<Rightarrow> inputs \<Rightarrow> inputs \<Rightarrow> param_error + inputs" where
  "bind_render params [] values = Inr values"
| "bind_render params ((k, v) # inputs) values =
     (case declared_last params k of
        None \<Rightarrow> Inl (InvalidParam k)
      | Some param \<Rightarrow>
          if v = ANil then bind_render params inputs ((k, ANil) # values)
          else if \<not> validateRenderParameterValue param v then Inl (InvalidParam k)
          else bind_render params inputs ((k, v) # values))"

definition BindRenderParameters :: "inputs \<Rightarrow> RenderParameter list \<Rightarrow> param_error + BoundRenderParameters" where
  "BindRenderParameters inputs params =
     (case bind_render params inputs (map (\<lambda>p. (rpID p, ANil)) params) of
        Inl e \<Rightarrow> Inl e
      | Inr values \<Rightarrow> Inr \<lparr>brpParameters = params, brpValues = values\<rparr>)"

definition SetDefaultRenderParameter :: "BoundRenderParameters \<Rightarrow> string \<Rightarrow> any \<Rightarrow> param_error + BoundRenderParameters" where
  "SetDefaultRenderParameter brp k value =
     (case find (\<lambda>p. rpID p = k) (brpParameters brp) of
        None \<Rightarrow> Inl (InvalidParam k)
      | Some declared \<Rightarrow>
          if input_at (brpValues brp) k \<noteq> ANil \<or> value = ANil then Inr brp
          else if \<not> validateRenderParameterValue declared value then Inl (InvalidParam k)
          else Inr (brp\<lparr>brpValues := (k, value) # brpValues brp\<rparr>))"

text \<open>
  Inputs of the command line are strings. The parsers of numbers and of JSON arrays are arguments.
\<close>

definition convertRenderParameterInput ::
  "(string \<Rightarrow> 64 word option) \<Rightarrow> (string \<Rightarrow> any list option) \<Rightarrow> RenderParameter \<Rightarrow> any \<Rightarrow> any option" where
  "convertRenderParameterInput parseFloat parseArray param value =
     (if rpIsArray param then
        (case value of
           AStr v \<Rightarrow> map_option AList (parseArray v)
         | AStrs v \<Rightarrow> Some (AList (map AStr v))
         | _ \<Rightarrow> Some value)
      else case (rpType param, value) of
             (RNumber, AStr s) \<Rightarrow>
               (case parseFloat s of
                  None \<Rightarrow> None
                | Some n \<Rightarrow> if float_finite n then Some (AFloat n) else None)
           | _ \<Rightarrow> Some value)"

fun ConvertRenderParameterInputs ::
  "(string \<Rightarrow> 64 word option) \<Rightarrow> (string \<Rightarrow> any list option) \<Rightarrow> inputs \<Rightarrow> RenderParameter list \<Rightarrow> param_error + inputs" where
  "ConvertRenderParameterInputs parseFloat parseArray [] params = Inr []"
| "ConvertRenderParameterInputs parseFloat parseArray ((k, value) # inputs) params =
     (case (case declared_last params k of
              None \<Rightarrow> Some value
            | Some param \<Rightarrow> convertRenderParameterInput parseFloat parseArray param value) of
        None \<Rightarrow> Inl (InvalidParam k)
      | Some v \<Rightarrow>
         (case ConvertRenderParameterInputs parseFloat parseArray inputs params of
            Inl e \<Rightarrow> Inl e
          | Inr converted \<Rightarrow> Inr ((k, v) # converted)))"

section \<open>Options\<close>

definition option_item :: "(string \<times> any) list \<Rightarrow> ParameterOption option" where
  "option_item opt =
     (case input_at opt ''value'' of
        AStr value \<Rightarrow>
          Some \<lparr>optValue = value,
                optLabel = (case input_at opt ''label'' of AStr l \<Rightarrow> l | _ \<Rightarrow> []),
                optDescription = (case input_at opt ''description'' of AStr d \<Rightarrow> d | _ \<Rightarrow> [])\<rparr>
      | _ \<Rightarrow> None)"

definition string_item :: "string \<Rightarrow> ParameterOption" where
  "string_item s = \<lparr>optValue = s, optLabel = s, optDescription = []\<rparr>"

fun option_items :: "bool \<Rightarrow> any list \<Rightarrow> ParameterOption list option" where
  "option_items strings [] = Some []"
| "option_items strings (AStr s # vs) = (if strings then map_option (\<lambda>items. string_item s # items) (option_items strings vs) else None)"
| "option_items strings (AMap opt # vs) =
     (case option_item opt of None \<Rightarrow> None | Some item \<Rightarrow> map_option (\<lambda>items. item # items) (option_items strings vs))"
| "option_items strings (v # vs) = None"

definition ConvertOptionValuesAndItems :: "any list \<Rightarrow> (string list \<times> ParameterOption list) option" where
  "ConvertOptionValuesAndItems data = map_option (\<lambda>items. (map optValue items, items)) (option_items True data)"

text \<open>Strings as options are accepted up to the legacy version of the recipe interface.\<close>

definition convertRecipeOptionValuesAndItems ::
  "any \<Rightarrow> SemVer \<Rightarrow> SemVer \<Rightarrow> (string list \<times> ParameterOption list) option" where
  "convertRecipeOptionValuesAndItems data apiVersion legacyVersion =
     (case data of
        AStrs v \<Rightarrow> if Cmp apiVersion legacyVersion > 0 then None else Some (v, map string_item v)
      | AList v \<Rightarrow> map_option (\<lambda>items. (map optValue items, items)) (option_items (\<not> Cmp apiVersion legacyVersion > 0) v)
      | _ \<Rightarrow> Some ([], []))"

text \<open>Options that a stage computed replace the declared ones.\<close>

definition GetParameterOptionValuesOrDefault :: "string list \<Rightarrow> nat \<Rightarrow> ParameterOption list option list \<Rightarrow> string list" where
  "GetParameterOptionValuesOrDefault defaultOptions paramIndex allItems =
     (if paramIndex < length allItems
      then case allItems ! paramIndex of None \<Rightarrow> defaultOptions | Some items \<Rightarrow> map optValue items
      else defaultOptions)"

section \<open>Binding again\<close>

lemma bind_all_iff: "bind_all f ps = Inr vs \<longleftrightarrow> list_all2 (\<lambda>p v. f p = Inr v) ps vs"
proof (induction ps arbitrary: vs)
  case (Cons p ps)
  show ?case
  proof (cases vs)
    case Nil
    then show ?thesis by (auto split: sum.splits)
  next
    case c: (Cons v vs')
    show ?thesis using Cons [of vs'] unfolding c by (auto split: sum.splits)
  qed
qed auto

text \<open>What a successful binding consists of.\<close>

lemma bindParameters_iff:
  "bindParameters inputs params = Inr bd \<longleftrightarrow>
     bpParameters bd = params \<and> unmapped_keys inputs params = [] \<and>
     bind_all (bind_input inputs) (Input params) = Inr (vInput (bpValues bd)) \<and>
     bind_all (bind_single inputs) (SingleSelect params) = Inr (vSingleSelect (bpValues bd)) \<and>
     bind_all (bind_multi inputs) (MultiSelect params) = Inr (vMultiSelect (bpValues bd)) \<and>
     bind_all (bind_checkbox inputs) (Checkbox params) = Inr (vCheckbox (bpValues bd)) \<and>
     bind_all (bind_radio inputs) (Radio params) = Inr (vRadio (bpValues bd))"
proof -
  obtain bp bv where bd: "bd = \<lparr>bpParameters = bp, bpValues = bv\<rparr>" by (cases bd)
  obtain a b c d e where bv: "bv = \<lparr>vCheckbox = a, vRadio = b, vSingleSelect = c, vMultiSelect = d, vInput = e\<rparr>" by (cases bv)
  show ?thesis unfolding bd bv bindParameters_def by (auto split: sum.splits list.splits)
qed

lemma entries_keys [simp]: "length ps = length vs \<Longrightarrow> map fst (entries_of box ps vs) = map ID ps"
  by (simp add: entries_of_def)

lemma entries_at: "i < length ps \<Longrightarrow> length ps = length vs \<Longrightarrow> (ID (ps ! i), box (vs ! i)) \<in> set (entries_of box ps vs)"
  by (auto simp: entries_of_def set_zip intro!: exI [of _ i])

lemma input_at_entry: "distinct (map fst E) \<Longrightarrow> (k, v) \<in> set E \<Longrightarrow> input_at (rev E) k = v"
  by (simp add: input_at_def rev_map [symmetric] distinct_map)

lemma rebind:
  assumes "length ps = length vs" and "\<And>i. i < length ps \<Longrightarrow> f (ps ! i) = Inr (vs ! i)"
  shows "bind_all f ps = Inr vs"
  using assms by (simp add: bind_all_iff list_all2_conv_all_nth)

text \<open>All the entries of bound parameters; some of the selections may be left out.\<close>

definition all_entries :: "BoundParameters \<Rightarrow> (string \<times> any) list" where
  "all_entries bd =
     (let ps = bpParameters bd; vs = bpValues bd in
      entries_of ABool (Checkbox ps) (vCheckbox vs) @ entries_of AStr (Input ps) (vInput vs) @
      entries_of AStr (SingleSelect ps) (vSingleSelect vs) @
      entries_of AStrs (MultiSelect ps) (vMultiSelect vs) @ entries_of AStr (Radio ps) (vRadio vs))"

definition sized :: "BoundParameters \<Rightarrow> bool" where
  "sized bd \<longleftrightarrow>
     (let ps = bpParameters bd; vs = bpValues bd in
      length (Input ps) = length (vInput vs) \<and> length (SingleSelect ps) = length (vSingleSelect vs) \<and>
      length (MultiSelect ps) = length (vMultiSelect vs) \<and> length (Checkbox ps) = length (vCheckbox vs) \<and>
      length (Radio ps) = length (vRadio vs))"

lemma bind_sized: "bindParameters inputs params = Inr bd \<Longrightarrow> sized bd \<and> bpParameters bd = params"
  by (auto simp: bindParameters_iff bind_all_iff sized_def Let_def dest: list_all2_lengthD)

definition collapse_list :: "BoundParameters \<Rightarrow> (string \<times> any) list" where
  "collapse_list bd = rev (CollapseToMap bd)"

lemma collapse_sub:
  assumes "sized bd" and "distinct (declared_ids (bpParameters bd))"
  shows "distinct (map fst (collapse_list bd))" and "set (collapse_list bd) \<subseteq> set (all_entries bd)"
    and "distinct (map fst (all_entries bd))"
proof -
  have sub: "subseq (collapse_list bd) (all_entries bd)"
    unfolding collapse_list_def CollapseToMap_def all_entries_def Let_def rev_rev_ident
    by (intro list_emb_append_mono subseq_filter_left) auto
  then show "set (collapse_list bd) \<subseteq> set (all_entries bd)" by (auto dest: list_emb_set)
  have "map fst (all_entries bd) = map ID (Checkbox (bpParameters bd)) @ map ID (Input (bpParameters bd)) @
      map ID (SingleSelect (bpParameters bd)) @ map ID (MultiSelect (bpParameters bd)) @ map ID (Radio (bpParameters bd))"
    using assms(1) by (simp add: all_entries_def Let_def sized_def)
  then show d: "distinct (map fst (all_entries bd))" using assms(2) by (auto simp: declared_ids_def)
  show "distinct (map fst (collapse_list bd))" using d subseq_map [OF sub, of fst] by (metis distinct_nthsI subseq_conv_nths)
qed

lemma collapse_entry:
  assumes "sized bd" and "distinct (declared_ids (bpParameters bd))" and "(k, v) \<in> set (collapse_list bd)"
  shows "input_at (CollapseToMap bd) k = v"
  using input_at_entry [OF collapse_sub(1) [OF assms(1,2)] assms(3)] by (simp add: collapse_list_def)

lemma collapse_at:
  assumes "sized bd" and "distinct (declared_ids (bpParameters bd))"
  shows "i < length (Input (bpParameters bd)) \<Longrightarrow> input_at (CollapseToMap bd) (ID (Input (bpParameters bd) ! i)) = AStr (vInput (bpValues bd) ! i)"
    and "i < length (Checkbox (bpParameters bd)) \<Longrightarrow> input_at (CollapseToMap bd) (ID (Checkbox (bpParameters bd) ! i)) = ABool (vCheckbox (bpValues bd) ! i)"
    and "i < length (MultiSelect (bpParameters bd)) \<Longrightarrow> input_at (CollapseToMap bd) (ID (MultiSelect (bpParameters bd) ! i)) = AStrs (vMultiSelect (bpValues bd) ! i)"
    and "i < length (Radio (bpParameters bd)) \<Longrightarrow> input_at (CollapseToMap bd) (ID (Radio (bpParameters bd) ! i)) = AStr (vRadio (bpValues bd) ! i)"
    and "i < length (SingleSelect (bpParameters bd)) \<Longrightarrow> vSingleSelect (bpValues bd) ! i \<noteq> [] \<Longrightarrow>
      input_at (CollapseToMap bd) (ID (SingleSelect (bpParameters bd) ! i)) = AStr (vSingleSelect (bpValues bd) ! i)"
  using assms(1) by (rule_tac [!] collapse_entry [OF assms])
    (auto simp: collapse_list_def CollapseToMap_def sized_def Let_def entries_at)

lemma collapse_left_out:
  assumes "sized bd" and "distinct (declared_ids (bpParameters bd))"
    and i: "i < length (SingleSelect (bpParameters bd))" and "vSingleSelect (bpValues bd) ! i = []"
  shows "ID (SingleSelect (bpParameters bd) ! i) \<notin> set (map fst (CollapseToMap bd))"
proof
  let ?k = "ID (SingleSelect (bpParameters bd) ! i)"
  assume "?k \<in> set (map fst (CollapseToMap bd))"
  then obtain v where v: "(?k, v) \<in> set (collapse_list bd)" by (auto simp: collapse_list_def)
  have e: "(?k, AStr []) \<in> set (entries_of AStr (SingleSelect (bpParameters bd)) (vSingleSelect (bpValues bd)))"
    using entries_at [OF i, of "vSingleSelect (bpValues bd)" AStr] assms(1,4) by (simp add: sized_def Let_def)
  then have "(?k, AStr []) \<in> set (all_entries bd)" by (auto simp: all_entries_def Let_def)
  with v collapse_sub [OF assms(1,2)] have v0: "v = AStr []" using eq_key_imp_eq_value by fast
  with v have "?k \<in> set (map ID (Input (bpParameters bd))) \<union> set (map ID (MultiSelect (bpParameters bd))) \<union>
      set (map ID (Checkbox (bpParameters bd))) \<union> set (map ID (Radio (bpParameters bd)))"
    by (auto simp: collapse_list_def CollapseToMap_def Let_def entries_of_def dest!: set_zip_leftD)
  moreover have "?k \<in> set (map ID (SingleSelect (bpParameters bd)))" using i by simp
  ultimately show False using assms(2) by (auto simp: declared_ids_def)
qed


definition demo_params :: Parameters where
  "demo_params =
     \<lparr>SingleSelect = [\<lparr>ID = ''mode'', Label = [], Description = [], Required = True, Order = 0, VisibleWhen = [],
         choiceDefault = ''fast'', choiceOptions = [''fast'', ''slow''], choiceItems = []\<rparr>],
      MultiSelect = [\<lparr>ID = ''cpus'', Label = [], Description = [], Required = False, Order = 1, VisibleWhen = [],
         multiDefault = [], multiOptions = [], multiItems = []\<rparr>],
      Checkbox = [\<lparr>ID = ''trace'', Label = [], Description = [], Required = False, Order = 2, VisibleWhen = [], boxDefault = False\<rparr>],
      Input = [], Radio = []\<rparr>"

definition demo_bound :: BoundParameters where
  "demo_bound =
     \<lparr>bpParameters = demo_params, bpValues =
        \<lparr>vCheckbox = [True], vRadio = [], vSingleSelect = [''slow''], vMultiSelect = [[''0'', ''1'']], vInput = []\<rparr>\<rparr>"


text \<open>An empty selection turns into the default when it is bound again.\<close>

lemma empty_selection_lost:
  "\<exists>bd bd'. bindParameters [(''mode'', AList [])] demo_params = Inr bd \<and> bindParameters (CollapseToMap bd) demo_params = Inr bd' \<and>
     FindValue bd ''mode'' = Some (AStr []) \<and> FindValue bd' ''mode'' = Some (AStr ''fast'')"
proof -
  let ?b = "projr (bindParameters [(''mode'', AList [])] demo_params)"
  let ?c = "projr (bindParameters (CollapseToMap ?b) demo_params)"
  have "bindParameters [(''mode'', AList [])] demo_params = Inr ?b" "bindParameters (CollapseToMap ?b) demo_params = Inr ?c"
    "FindValue ?b ''mode'' = Some (AStr [])" "FindValue ?c ''mode'' = Some (AStr ''fast'')" by code_simp+
  then show ?thesis by blast
qed

section \<open>Values of renders keep their types\<close>

definition well_typed :: "BoundRenderParameters \<Rightarrow> bool" where
  "well_typed brp \<longleftrightarrow>
     (\<forall>k v. map_of (brpValues brp) k = Some v \<longrightarrow>
        (\<exists>p\<in>set (brpParameters brp). rpID p = k \<and> (v = ANil \<or> validateRenderParameterValue p v)))"

fun set_defaults :: "(string \<times> any) list \<Rightarrow> BoundRenderParameters \<Rightarrow> BoundRenderParameters" where
  "set_defaults [] brp = brp"
| "set_defaults ((k, v) # ds) brp = set_defaults ds (case SetDefaultRenderParameter brp k v of Inl e \<Rightarrow> brp | Inr brp' \<Rightarrow> brp')"

lemma declared_last_in: "declared_last params k = Some p \<Longrightarrow> p \<in> set params \<and> rpID p = k"
  by (auto simp: declared_last_def dest!: map_of_SomeD)

lemma bind_render_typed:
  "bind_render params inputs values = Inr values' \<Longrightarrow> well_typed \<lparr>brpParameters = params, brpValues = values\<rparr> \<Longrightarrow>
     well_typed \<lparr>brpParameters = params, brpValues = values'\<rparr>"
proof (induction params inputs "values" rule: bind_render.induct)
  case (2 params k v ins vals)
  then obtain p where p: "declared_last params k = Some p" by (auto split: option.splits)
  have step: "well_typed \<lparr>brpParameters = params, brpValues = (k, v) # vals\<rparr>" if "v = ANil \<or> validateRenderParameterValue p v"
    using that "2.prems"(2) declared_last_in [OF p] unfolding well_typed_def by auto
  show ?case
  proof (cases "v = ANil")
    case True
    with "2.IH"(1) [OF p] "2.prems"(1) p step show ?thesis by simp
  next
    case False
    with "2.IH"(2) [OF p] "2.prems"(1) p step show ?thesis by (cases "validateRenderParameterValue p v") auto
  qed
qed simp

lemma set_default_typed: "well_typed brp \<Longrightarrow> SetDefaultRenderParameter brp k v = Inr brp' \<Longrightarrow> well_typed brp'"
  by (auto simp: SetDefaultRenderParameter_def well_typed_def find_Some_iff split: option.splits if_splits)
    (metis nth_mem)

lemma set_defaults_typed: "well_typed brp \<Longrightarrow> well_typed (set_defaults ds brp)"
proof (induction ds arbitrary: brp)
  case (Cons d ds)
  then show ?case using set_default_typed [of brp "fst d" "snd d"] by (cases d) (auto split: sum.splits)
qed simp

text \<open>
  C31. Every value of a render parameter is unset or a value of its declared type: a string, a finite
  number, or a list of these. Binding establishes this, and it is kept by any sequence of defaults
  that a recipe sets, whatever their values are.
\<close>

theorem render_values_typed:
  assumes "BindRenderParameters inputs params = Inr brp"
  shows "well_typed (set_defaults ds brp)"
proof -
  have "well_typed \<lparr>brpParameters = params, brpValues = map (\<lambda>p. (rpID p, ANil)) params\<rparr>"
    by (auto simp: well_typed_def dest!: map_of_SomeD)
  with assms bind_render_typed have "well_typed brp"
    by (fastforce simp: BindRenderParameters_def split: sum.splits)
  then show ?thesis by (rule set_defaults_typed)
qed

theorem render_values_typed_witness:
  "well_typed (set_defaults [(''n'', AStr ''x''), (''n'', AFloat 0x3FF0000000000000)]
     \<lparr>brpParameters = [\<lparr>rpID = ''n'', rpType = RNumber, rpIsArray = False\<rparr>], brpValues = [(''n'', ANil), (''n'', ANil)]\<rparr>)"
  by (rule render_values_typed [of "[(''n'', ANil)]" "[\<lparr>rpID = ''n'', rpType = RNumber, rpIsArray = False\<rparr>]"]) code_simp

end
