(* ===== verification/Deployment.thy ===== *)
theory Deployment
  imports Parameters "HOL-Library.List_Lexorder" "HOL-Library.Char_ord" "HOL-Library.AList"
begin

text \<open>
  Which platforms a recipe supports and which tool bundles it needs
  (core/apap-engine/deploymentsupport/deployment_support.go). Recipes and tool integrations declare
  deployments with filters on the platform and dependencies that may be required only for some values
  of the parameters. The resolver of tools and the printed form of a value (\<open>%v\<close> of package \<open>fmt\<close>) are
  arguments; a map of parameters is an association list.
\<close>

section \<open>Declarations\<close>

record PlatformConfiguration =
  Architecture :: string
  OS :: string

record PlatformConfigurationFilter =
  fArchitecture :: "string option"
  fOS :: "string option"

record RequirementSpec =
  reqType :: string
  reqParameters :: "(string \<times> any) list"

record Dependency =
  depType :: string
  depName :: string
  depVersion :: string
  depLocality :: string
  RequiredWhen :: RequirementSpec

record DeploymentDeclaration =
  AppliesTo :: "PlatformConfigurationFilter list"
  Dependencies :: "Dependency list"

record ToolBundleInfo =
  bundleName :: string
  bundleVersion :: string
  bundleLocality :: string

datatype PlatformSupportResult = PlatformIsSupported | PlatformNotSupported | PlatformSupportConditional

record PlatformSupport =
  psResult :: PlatformSupportResult
  ConditionList :: "RequirementSpec list"

datatype dep_error =
  InvalidRequirement string
| NoConditions
| UncomparableValue
| InvalidLocality string
| LocalityNotAllowed
| DependencyNotAllowed
| ConditionalTool
| BundleMissingFields
| ToolNotFound string

type_synonym resolver = "string \<Rightarrow> string \<Rightarrow> dep_error + DeploymentDeclaration list"

definition Negate :: "string \<Rightarrow> string" where
  "Negate r =
     (if r = ''param_is_set'' then ''param_is_not_set''
      else if r = ''param_is_not_set'' then ''param_is_set'' else r)"

definition ContainsHostToolBundles :: "ToolBundleInfo list \<Rightarrow> bool" where
  "ContainsHostToolBundles bundles = list_ex (\<lambda>b. bundleLocality b = ''host'') bundles"

section \<open>Filters\<close>

definition MatchesPlatform :: "PlatformConfigurationFilter \<Rightarrow> PlatformConfiguration \<Rightarrow> 64 word \<Rightarrow> bool" where
  "MatchesPlatform flt pc flags =
     (let flags = (if flags = 0 then 15 else flags) in
      if flags AND 2 \<noteq> 0 \<and> fArchitecture flt \<noteq> None \<and> the (fArchitecture flt) \<noteq> Architecture pc then False
      else if flags AND 1 \<noteq> 0 \<and> fOS flt \<noteq> None \<and> the (fOS flt) \<noteq> OS pc then False
      else True)"

definition appliesToPlatform :: "PlatformConfigurationFilter list \<Rightarrow> PlatformConfiguration \<Rightarrow> 64 word \<Rightarrow> bool" where
  "appliesToPlatform filters pc flags = (filters = [] \<or> list_ex (\<lambda>f. MatchesPlatform f pc flags) filters)"

section \<open>Requirements on parameters\<close>

text \<open>Two values of an uncomparable type panic when they are compared.\<close>

fun any_eq :: "any \<Rightarrow> any \<Rightarrow> bool option" where
  "any_eq ANil ANil = Some True"
| "any_eq (AStr a) (AStr b) = Some (a = b)"
| "any_eq (ABool a) (ABool b) = Some (a = b)"
| "any_eq (AFloat a) (AFloat b) =
     Some ((a = b \<or> push_bit 1 a = 0 \<and> push_bit 1 b = 0) \<and> (float_finite a \<or> a AND 0xFFFFFFFFFFFFF = 0))"
| "any_eq (AStrs a) (AStrs b) = None"
| "any_eq (AList a) (AList b) = None"
| "any_eq (AMap a) (AMap b) = None"
| "any_eq _ _ = Some False"

fun requirement_loop :: "bool \<Rightarrow> BoundParameters \<Rightarrow> (string \<times> any) list \<Rightarrow> dep_error + bool" where
  "requirement_loop isSet params [] = Inr True"
| "requirement_loop isSet params ((param, expectedValue) # rest) =
     (case FindValue params param of
        None \<Rightarrow> Inr False
      | Some val \<Rightarrow>
         (case any_eq val expectedValue of
            None \<Rightarrow> Inl UncomparableValue
          | Some eq \<Rightarrow> if eq = isSet then requirement_loop isSet params rest else Inr False))"

definition CheckParameterRequirement :: "RequirementSpec \<Rightarrow> BoundParameters \<Rightarrow> dep_error + bool" where
  "CheckParameterRequirement spec params =
     (if reqType spec \<noteq> ''param_is_set'' \<and> reqType spec \<noteq> ''param_is_not_set'' then Inl (InvalidRequirement (reqType spec))
      else if reqParameters spec = [] then Inl NoConditions
      else requirement_loop (reqType spec = ''param_is_set'') params (reqParameters spec))"

fun conditions_loop :: "BoundParameters \<Rightarrow> RequirementSpec list \<Rightarrow> dep_error + PlatformSupport" where
  "conditions_loop params [] = Inr \<lparr>psResult = PlatformIsSupported, ConditionList = []\<rparr>"
| "conditions_loop params (cond # conds) =
     (case CheckParameterRequirement cond params of
        Inl e \<Rightarrow> Inl e
      | Inr met \<Rightarrow>
          if \<not> met then Inr \<lparr>psResult = PlatformNotSupported, ConditionList = []\<rparr> else conditions_loop params conds)"

definition ResolveParameterSupport :: "PlatformSupport \<Rightarrow> BoundParameters \<Rightarrow> dep_error + PlatformSupport" where
  "ResolveParameterSupport ps params =
     (if psResult ps \<noteq> PlatformSupportConditional then Inr ps else conditions_loop params (ConditionList ps))"

section \<open>Support of a platform\<close>

definition normalizeDeploymentLocality :: "string \<Rightarrow> dep_error + string" where
  "normalizeDeploymentLocality locality =
     (if locality = [] then Inr ''target''
      else if locality = ''target'' \<or> locality = ''host'' then Inr locality
      else Inl (InvalidLocality locality))"

text \<open>
  Whether a dependency can be met. The check of the deployments of a tool is an argument; at the
  depth where tools may not depend on tools there is none.
\<close>

definition dependency_supported ::
  "resolver \<Rightarrow> (DeploymentDeclaration list \<Rightarrow> dep_error + PlatformSupport) option \<Rightarrow> Dependency \<Rightarrow> dep_error + bool" where
  "dependency_supported depResolver sub dep =
     (if depType dep = ''tool'' then
        if depLocality dep \<noteq> [] then Inl LocalityNotAllowed
        else case sub of
          None \<Rightarrow> Inl DependencyNotAllowed
        | Some check \<Rightarrow>
           (case depResolver (depName dep) (depVersion dep) of
              Inl e \<Rightarrow> Inl e
            | Inr toolDeployments \<Rightarrow>
               (case check toolDeployments of
                  Inl e \<Rightarrow> Inl e
                | Inr depSupport \<Rightarrow>
                    if psResult depSupport = PlatformSupportConditional then Inl ConditionalTool
                    else Inr (psResult depSupport \<noteq> PlatformNotSupported)))
      else if depType dep = ''tool_bundle'' then
        if depName dep = [] \<or> depVersion dep = [] then Inr False
        else case normalizeDeploymentLocality (depLocality dep) of Inl e \<Rightarrow> Inl e | Inr _ \<Rightarrow> Inr True
      else Inr False)"

text \<open>The dependencies of a deployment: \<open>None\<close> is a missing one that is always required.\<close>

fun dependencies_loop ::
  "(Dependency \<Rightarrow> dep_error + bool) \<Rightarrow> Dependency list \<Rightarrow> RequirementSpec list \<Rightarrow> dep_error + RequirementSpec list option" where
  "dependencies_loop ok [] condList = Inr (Some condList)"
| "dependencies_loop ok (dep # deps) condList =
     (case ok dep of
        Inl e \<Rightarrow> Inl e
      | Inr supported \<Rightarrow>
          if supported then dependencies_loop ok deps condList
          else if reqType (RequiredWhen dep) \<noteq> ''always'' then
            dependencies_loop ok deps
              (condList @ [\<lparr>reqType = Negate (reqType (RequiredWhen dep)), reqParameters = reqParameters (RequiredWhen dep)\<rparr>])
          else Inr None)"

text \<open>The printed form of a condition; package \<open>fmt\<close> prints a map in the order of its keys.\<close>

definition condition_key :: "(any \<Rightarrow> string) \<Rightarrow> RequirementSpec \<Rightarrow> string" where
  "condition_key fmtV rs =
     reqType rs @ ''|map['' @ Join (map (\<lambda>(k, v). k @ '':'' @ fmtV v) (sort_key fst (reqParameters rs))) '' '' @ '']''"

fun dedup_loop :: "(any \<Rightarrow> string) \<Rightarrow> RequirementSpec list \<Rightarrow> string list \<Rightarrow> RequirementSpec list" where
  "dedup_loop fmtV [] seen = []"
| "dedup_loop fmtV (rs # rest) seen =
     (if List.member seen (condition_key fmtV rs) then dedup_loop fmtV rest seen
      else rs # dedup_loop fmtV rest (condition_key fmtV rs # seen))"

definition dedupConditions :: "(any \<Rightarrow> string) \<Rightarrow> RequirementSpec list \<Rightarrow> RequirementSpec list" where
  "dedupConditions fmtV conds = dedup_loop fmtV conds []"

fun support_loop ::
  "(any \<Rightarrow> string) \<Rightarrow> (Dependency \<Rightarrow> dep_error + bool) \<Rightarrow> 64 word \<Rightarrow> PlatformConfiguration \<Rightarrow> DeploymentDeclaration list \<Rightarrow> bool \<Rightarrow>
     dep_error + PlatformSupport" where
  "support_loop fmtV ok flags pc [] deploymentSupported =
     Inr \<lparr>psResult = (if deploymentSupported then PlatformIsSupported else PlatformNotSupported), ConditionList = []\<rparr>"
| "support_loop fmtV ok flags pc (decl # rest) deploymentSupported =
     (if \<not> appliesToPlatform (AppliesTo decl) pc flags then support_loop fmtV ok flags pc rest False
      else case dependencies_loop ok (Dependencies decl) [] of
             Inl e \<Rightarrow> Inl e
           | Inr None \<Rightarrow> support_loop fmtV ok flags pc rest False
           | Inr (Some []) \<Rightarrow> Inr \<lparr>psResult = PlatformIsSupported, ConditionList = []\<rparr>
           | Inr (Some condList) \<Rightarrow> Inr \<lparr>psResult = PlatformSupportConditional, ConditionList = dedupConditions fmtV condList\<rparr>)"

primrec support_internal ::
  "(any \<Rightarrow> string) \<Rightarrow> resolver \<Rightarrow> 64 word \<Rightarrow> PlatformConfiguration \<Rightarrow> nat \<Rightarrow> DeploymentDeclaration list \<Rightarrow> dep_error + PlatformSupport" where
  "support_internal fmtV depResolver flags pc 0 = (\<lambda>deployments.
     support_loop fmtV (dependency_supported depResolver None) flags pc deployments True)"
| "support_internal fmtV depResolver flags pc (Suc levels) = (\<lambda>deployments.
     support_loop fmtV (dependency_supported depResolver (Some (support_internal fmtV depResolver flags pc levels))) flags pc deployments True)"

text \<open>Recipes may depend on tools, and these on nothing further.\<close>

definition maxToolDepth :: nat where
  "maxToolDepth = 1"

definition GetDeploymentSupportForPlatform ::
  "(any \<Rightarrow> string) \<Rightarrow> resolver \<Rightarrow> 64 word \<Rightarrow> DeploymentDeclaration list \<Rightarrow> PlatformConfiguration \<Rightarrow> dep_error + PlatformSupport" where
  "GetDeploymentSupportForPlatform fmtV depResolver flags deployments pc = support_internal fmtV depResolver flags pc maxToolDepth deployments"

section \<open>Tool bundles\<close>

definition bundleKey :: "string \<Rightarrow> string \<Rightarrow> string \<Rightarrow> string" where
  "bundleKey name version locality = name @ ''@'' @ version @ ''@'' @ locality"

definition shouldDeployDependency :: "Dependency \<Rightarrow> BoundParameters option \<Rightarrow> dep_error + bool" where
  "shouldDeployDependency dep paramValues =
     (let t = reqType (RequiredWhen dep) in
      if t = ''always'' then Inr True
      else if t = ''param_is_set'' \<or> t = ''param_is_not_set'' then
        (case paramValues of
           None \<Rightarrow> Inr (t = ''param_is_not_set'')
         | Some params \<Rightarrow> CheckParameterRequirement (RequiredWhen dep) params)
      else Inl (InvalidRequirement t))"

type_synonym bundle_map = "(string \<times> ToolBundleInfo) list"

definition bundle_dependency ::
  "resolver \<Rightarrow> BoundParameters option \<Rightarrow> (DeploymentDeclaration list \<Rightarrow> bundle_map \<Rightarrow> dep_error + bundle_map) option \<Rightarrow>
     Dependency \<Rightarrow> bundle_map \<Rightarrow> dep_error + bundle_map" where
  "bundle_dependency depResolver paramValues sub dep bundleMap =
     (if depType dep = ''tool_bundle'' then
        if depName dep = [] \<or> depVersion dep = [] then Inl BundleMissingFields
        else case normalizeDeploymentLocality (depLocality dep) of Inl e \<Rightarrow> Inl e | Inr locality \<Rightarrow>
         (case shouldDeployDependency dep paramValues of Inl e \<Rightarrow> Inl e | Inr shouldDeploy \<Rightarrow>
            Inr (if shouldDeploy
                 then AList.update (bundleKey (depName dep) (depVersion dep) locality)
                        \<lparr>bundleName = depName dep, bundleVersion = depVersion dep, bundleLocality = locality\<rparr> bundleMap
                 else bundleMap))
      else if depType dep = ''tool'' then
        if depLocality dep \<noteq> [] then Inl LocalityNotAllowed
        else case shouldDeployDependency dep paramValues of Inl e \<Rightarrow> Inl e | Inr shouldDeploy \<Rightarrow>
          if \<not> shouldDeploy then Inr bundleMap
          else (case sub of
                  None \<Rightarrow> Inl DependencyNotAllowed
                | Some resolve_tool \<Rightarrow>
                   (case depResolver (depName dep) (depVersion dep) of
                      Inl e \<Rightarrow> Inl e
                    | Inr toolDeployments \<Rightarrow> resolve_tool toolDeployments bundleMap))
      else Inr bundleMap)"

fun fold_result :: "('a \<Rightarrow> 'b \<Rightarrow> dep_error + 'b) \<Rightarrow> 'a list \<Rightarrow> 'b \<Rightarrow> dep_error + 'b" where
  "fold_result f [] b = Inr b"
| "fold_result f (x # xs) b = (case f x b of Inl e \<Rightarrow> Inl e | Inr b' \<Rightarrow> fold_result f xs b')"

definition bundle_declaration ::
  "(Dependency \<Rightarrow> bundle_map \<Rightarrow> dep_error + bundle_map) \<Rightarrow> PlatformConfiguration \<Rightarrow> DeploymentDeclaration \<Rightarrow> bundle_map \<Rightarrow> dep_error + bundle_map" where
  "bundle_declaration f pc decl bundleMap =
     (if \<not> appliesToPlatform (AppliesTo decl) pc 15 then Inr bundleMap else fold_result f (Dependencies decl) bundleMap)"

primrec resolve_bundles ::
  "resolver \<Rightarrow> BoundParameters option \<Rightarrow> PlatformConfiguration \<Rightarrow> nat \<Rightarrow> DeploymentDeclaration list \<Rightarrow> bundle_map \<Rightarrow> dep_error + bundle_map" where
  "resolve_bundles depResolver paramValues pc 0 = (\<lambda>deployments.
     fold_result (bundle_declaration (bundle_dependency depResolver paramValues None) pc) deployments)"
| "resolve_bundles depResolver paramValues pc (Suc levels) = (\<lambda>deployments.
     fold_result (bundle_declaration (bundle_dependency depResolver paramValues (Some (resolve_bundles depResolver paramValues pc levels))) pc) deployments)"

text \<open>The order of the result is that of a map; here it is that of the first insertions.\<close>

definition ResolveToolBundles ::
  "PlatformConfiguration \<Rightarrow> BoundParameters option \<Rightarrow> DeploymentDeclaration list \<Rightarrow> resolver \<Rightarrow> dep_error + ToolBundleInfo list" where
  "ResolveToolBundles pc paramValues deployments depResolver =
     (case resolve_bundles depResolver paramValues pc maxToolDepth deployments [] of
        Inl e \<Rightarrow> Inl e
      | Inr bundleMap \<Rightarrow> Inr (map snd bundleMap))"

section \<open>A supported platform has what is required\<close>

lemma requirement_excludes:
  "requirement_loop (\<not> b) params ps = Inr True \<Longrightarrow> ps \<noteq> [] \<Longrightarrow> requirement_loop b params ps = Inr False"
  by (cases ps) (auto split: option.splits if_splits)

text \<open>The negation of a requirement excludes the requirement.\<close>

lemma Negate_excludes:
  assumes "CheckParameterRequirement \<lparr>reqType = Negate (reqType spec), reqParameters = reqParameters spec\<rparr> params = Inr True"
  shows "CheckParameterRequirement spec params = Inr False"
  using assms requirement_excludes [of True params "reqParameters spec"] requirement_excludes [of False params "reqParameters spec"]
  by (auto simp: CheckParameterRequirement_def Negate_def split: if_splits)

lemma conditions_met:
  "conditions_loop params conds = Inr ps \<Longrightarrow> psResult ps = PlatformIsSupported \<Longrightarrow>
     \<forall>c\<in>set conds. CheckParameterRequirement c params = Inr True"
  by (induction conds arbitrary: ps) (auto split: sum.splits if_splits)

lemma dedup_loop_keeps:
  "inj_on (condition_key fmtV) (set conds) \<Longrightarrow> c \<in> set conds \<Longrightarrow> condition_key fmtV c \<notin> set seen \<Longrightarrow> c \<in> set (dedup_loop fmtV conds seen)"
proof (induction conds arbitrary: seen)
  case (Cons d conds)
  show ?case
  proof (cases "c = d")
    case True
    with Cons.prems(3) show ?thesis by simp
  next
    case False
    then have "c \<in> set conds" "condition_key fmtV c \<noteq> condition_key fmtV d" using Cons.prems(1,2) by (auto simp: inj_on_def)
    with Cons.IH Cons.prems show ?thesis by auto
  qed
qed simp

lemma dedup_keeps: "inj_on (condition_key fmtV) (set conds) \<Longrightarrow> set conds \<subseteq> set (dedupConditions fmtV conds)"
  using dedup_loop_keeps [of fmtV conds _ "[]"] by (auto simp: dedupConditions_def)

definition negated :: "Dependency \<Rightarrow> RequirementSpec" where
  "negated dep = \<lparr>reqType = Negate (reqType (RequiredWhen dep)), reqParameters = reqParameters (RequiredWhen dep)\<rparr>"

lemma dependencies_loop_Some:
  "dependencies_loop ok deps conds = Inr (Some conds') \<Longrightarrow>
     set conds' = set conds \<union> negated ` {d \<in> set deps. ok d = Inr False} \<and>
     (\<forall>d\<in>set deps. ok d = Inr True \<or> ok d = Inr False \<and> reqType (RequiredWhen d) \<noteq> ''always'')"
proof (induction deps arbitrary: conds)
  case (Cons d deps)
  then obtain b where b: "ok d = Inr b" by (auto split: sum.splits)
  with Cons.prems have "dependencies_loop ok deps (if b then conds else conds @ [negated d]) = Inr (Some conds')"
    "b \<or> reqType (RequiredWhen d) \<noteq> ''always''"
    by (auto simp: negated_def split: if_splits)
  with Cons.IH b show ?case by (cases b) fastforce+
qed simp

lemma support_loop_cases:
  assumes "support_loop fmtV ok flags pc ds s = Inr ps" and "psResult ps \<noteq> PlatformNotSupported"
  obtains "ds = []" and "s" | decl conds where "decl \<in> set ds" and "appliesToPlatform (AppliesTo decl) pc flags"
    and "dependencies_loop ok (Dependencies decl) [] = Inr (Some conds)"
    and "psResult ps = (if conds = [] then PlatformIsSupported else PlatformSupportConditional)"
    and "ConditionList ps = dedupConditions fmtV conds"
  using assms
proof (induction ds arbitrary: s thesis)
  case (Cons d ds)
  show ?case
  proof (cases "appliesToPlatform (AppliesTo d) pc flags \<and> (\<exists>c. dependencies_loop ok (Dependencies d) [] = Inr (Some c))")
    case True
    then obtain c where "dependencies_loop ok (Dependencies d) [] = Inr (Some c)" by blast
    with True Cons.prems(3) show ?thesis
      by (intro Cons.prems(2) [of d c]) (auto simp: dedupConditions_def split: list.splits)
  next
    case False
    with Cons.prems(3) have r: "support_loop fmtV ok flags pc ds False = Inr ps"
      by (auto split: sum.splits option.splits list.splits if_splits)
    show ?thesis by (rule Cons.IH [OF _ _ r Cons.prems(4)]) (auto intro: Cons.prems(2))
  qed
qed (auto split: if_splits)

text \<open>
  If a platform is found to be supported for the parameters of a run, then one of the deployments
  of the recipe applies to the platform, and every dependency of it that the parameters require is
  available: the tool is found and supports the platform, or the bundle is declared completely. This
  needs that conditions which print alike are alike.
\<close>

theorem platform_support_sound:
  assumes "deployments \<noteq> []" and "GetDeploymentSupportForPlatform fmtV R flags deployments pc = Inr ps"
    and "ResolveParameterSupport ps params = Inr ps'" and "psResult ps' = PlatformIsSupported"
    and "\<forall>decl\<in>set deployments. inj_on (condition_key fmtV) (negated ` set (Dependencies decl))"
  shows "\<exists>decl\<in>set deployments. appliesToPlatform (AppliesTo decl) pc flags \<and>
    (\<forall>dep\<in>set (Dependencies decl). shouldDeployDependency dep (Some params) = Inr True \<longrightarrow>
       dependency_supported R (Some (support_internal fmtV R flags pc 0)) dep = Inr True)"
proof -
  let ?ok = "dependency_supported R (Some (support_internal fmtV R flags pc 0))"
  have l: "support_loop fmtV ?ok flags pc deployments True = Inr ps"
    using assms(2) by (simp add: GetDeploymentSupportForPlatform_def maxToolDepth_def)
  have np: "psResult ps \<noteq> PlatformNotSupported" using assms(3,4) by (auto simp: ResolveParameterSupport_def split: if_splits)
  from support_loop_cases [OF l np] assms(1) obtain decl conds where
    2: "decl \<in> set deployments" "appliesToPlatform (AppliesTo decl) pc flags" "dependencies_loop ?ok (Dependencies decl) [] = Inr (Some conds)"
      "psResult ps = (if conds = [] then PlatformIsSupported else PlatformSupportConditional)" "ConditionList ps = dedupConditions fmtV conds"
    by metis
  note d = dependencies_loop_Some [OF 2(3)]
  have "shouldDeployDependency dep (Some params) \<noteq> Inr True" if dep: "dep \<in> set (Dependencies decl)" "?ok dep = Inr False" for dep
  proof -
    have t: "reqType (RequiredWhen dep) \<noteq> ''always''" and c: "negated dep \<in> set conds" using d dep by auto
    have "inj_on (condition_key fmtV) (set conds)"
      using assms(5) 2(1) d by (auto intro: inj_on_subset)
    with c dedup_keeps [of fmtV conds] 2(5) have "negated dep \<in> set (ConditionList ps)" by auto
    moreover have "psResult ps = PlatformSupportConditional" using c 2(4) by (auto split: if_splits)
    ultimately have "CheckParameterRequirement (negated dep) params = Inr True"
      using conditions_met [of params "ConditionList ps" ps'] assms(3,4) by (auto simp: ResolveParameterSupport_def)
    then have "CheckParameterRequirement (RequiredWhen dep) params = Inr False" using Negate_excludes by (simp add: negated_def)
    with t show ?thesis by (auto simp: shouldDeployDependency_def Let_def)
  qed
  then show ?thesis using 2(1,2) d by (intro bexI [of _ decl]) auto
qed

section \<open>The bundles are those that are required\<close>

definition bkey :: "ToolBundleInfo \<Rightarrow> string" where
  "bkey b = bundleKey (bundleName b) (bundleVersion b) (bundleLocality b)"

definition bundle_of :: "Dependency \<Rightarrow> ToolBundleInfo" where
  "bundle_of dep = \<lparr>bundleName = depName dep, bundleVersion = depVersion dep,
     bundleLocality = projr (normalizeDeploymentLocality (depLocality dep))\<rparr>"

text \<open>The bundles that a dependency, a deployment, and all the deployments need.\<close>

definition dep_needs :: "resolver \<Rightarrow> BoundParameters option \<Rightarrow> (DeploymentDeclaration list \<Rightarrow> ToolBundleInfo set) \<Rightarrow> Dependency \<Rightarrow> ToolBundleInfo set" where
  "dep_needs R params sub dep =
     (if shouldDeployDependency dep params \<noteq> Inr True then {}
      else if depType dep = ''tool_bundle'' then {bundle_of dep}
      else if depType dep = ''tool'' then (case R (depName dep) (depVersion dep) of Inl e \<Rightarrow> {} | Inr ds \<Rightarrow> sub ds)
      else {})"

definition decl_needs where
  "decl_needs needs pc decl = (if appliesToPlatform (AppliesTo decl) pc 15 then \<Union>(needs ` set (Dependencies decl)) else {})"

primrec needed :: "resolver \<Rightarrow> BoundParameters option \<Rightarrow> PlatformConfiguration \<Rightarrow> nat \<Rightarrow> DeploymentDeclaration list \<Rightarrow> ToolBundleInfo set" where
  "needed R params pc 0 = (\<lambda>ds. \<Union>(decl_needs (dep_needs R params (\<lambda>_. {})) pc ` set ds))"
| "needed R params pc (Suc n) = (\<lambda>ds. \<Union>(decl_needs (dep_needs R params (needed R params pc n)) pc ` set ds))"

definition keyed :: "bundle_map \<Rightarrow> bool" where
  "keyed m \<longleftrightarrow> distinct (map fst m) \<and> (\<forall>k b. map_of m k = Some b \<longrightarrow> k = bkey b)"

text \<open>A step that adds some bundles to the map, unless keys collide.\<close>

definition adds :: "(bundle_map \<Rightarrow> dep_error + bundle_map) \<Rightarrow> ToolBundleInfo set \<Rightarrow> bool" where
  "adds f N \<longleftrightarrow> (\<forall>m m'. f m = Inr m' \<longrightarrow> keyed m \<longrightarrow> inj_on bkey (ran (map_of m) \<union> N) \<longrightarrow> keyed m' \<and> ran (map_of m') = ran (map_of m) \<union> N)"

lemma addsD:
  assumes "adds f N" and "f m = Inr m'" and "keyed m" and "inj_on bkey (ran (map_of m) \<union> N)"
  shows "keyed m'" and "ran (map_of m') = ran (map_of m) \<union> N"
  using assms unfolding adds_def by blast+

lemma adds_none: "adds Inr {}"
  by (simp add: adds_def)

lemma adds_fold: "(\<And>x. x \<in> set xs \<Longrightarrow> adds (f x) (N x)) \<Longrightarrow> adds (fold_result f xs) (\<Union>(N ` set xs))"
proof (induction xs)
  case (Cons x xs)
  show ?case unfolding adds_def
  proof (intro allI impI)
    fix m m' assume a: "fold_result f (x # xs) m = Inr m'" "keyed m" "inj_on bkey (ran (map_of m) \<union> \<Union> (N ` set (x # xs)))"
    then obtain m1 where m1: "f x m = Inr m1" "fold_result f xs m1 = Inr m'" by (auto split: sum.splits)
    have "inj_on bkey (ran (map_of m) \<union> N x)" by (rule inj_on_subset [OF a(3)]) auto
    note 1 = addsD [OF Cons.prems [of x] m1(1) a(2) this, simplified]
    have "inj_on bkey (ran (map_of m1) \<union> \<Union> (N ` set xs))" using a(3) unfolding 1(2) by (simp add: Un_assoc)
    note 2 = addsD [OF Cons.IH [OF Cons.prems] m1(2) 1(1) this, simplified]
    from 1 2 show "keyed m' \<and> ran (map_of m') = ran (map_of m) \<union> \<Union> (N ` set (x # xs))" by (simp add: Un_assoc)
  qed
qed (simp add: adds_def)

lemma adds_bundle: "adds (\<lambda>m. Inr (AList.update (bkey b) b m)) {b}"
  unfolding adds_def
proof (intro allI impI)
  fix m m' assume a: "(Inr (AList.update (bkey b) b m) :: dep_error + _) = Inr m'" "keyed m" "inj_on bkey (ran (map_of m) \<union> {b})"
  then have m': "m' = AList.update (bkey b) b m" by simp
  have "map_of m (bkey b) = None \<or> map_of m (bkey b) = Some b"
    using a(2,3) by (cases "map_of m (bkey b)") (auto simp: keyed_def inj_on_def ran_def)
  then have "ran ((map_of m)(bkey b \<mapsto> b)) = insert b (ran (map_of m))"
    by (auto simp: fun_upd_idem ranI)
  then show "keyed m' \<and> ran (map_of m') = ran (map_of m) \<union> {b}"
    using a(2) unfolding m' keyed_def by (auto simp: update_conv' distinct_update)
qed

lemma adds_dependency:
  assumes "\<And>ds. case sub of None \<Rightarrow> True | Some f \<Rightarrow> adds (f ds) (N ds)"
  shows "adds (bundle_dependency R params sub dep) (dep_needs R params N dep)"
proof (cases "shouldDeployDependency dep params = Inr True")
  case True
  consider "depType dep = ''tool_bundle''" | "depType dep = ''tool''" | "depType dep \<noteq> ''tool_bundle''" "depType dep \<noteq> ''tool''"
    by blast
  then show ?thesis
  proof cases
    case 1
    have "adds (bundle_dependency R params sub dep) {bundle_of dep}"
      unfolding adds_def
    proof (intro allI impI)
      fix m m' assume a: "bundle_dependency R params sub dep m = Inr m'" "keyed m" "inj_on bkey (ran (map_of m) \<union> {bundle_of dep})"
      then have "(Inr (AList.update (bkey (bundle_of dep)) (bundle_of dep) m) :: dep_error + _) = Inr m'"
        using 1 True by (auto simp: bundle_dependency_def bkey_def bundle_of_def split: if_splits sum.splits)
      from addsD [OF adds_bundle this a(2,3)] show "keyed m' \<and> ran (map_of m') = ran (map_of m) \<union> {bundle_of dep}" by blast
    qed
    with 1 True show ?thesis by (simp add: dep_needs_def)
  next
    case 2
    with True assms show ?thesis
      by (auto simp: adds_def bundle_dependency_def dep_needs_def split: option.splits sum.splits)
  next
    case 3
    with True show ?thesis by (auto simp: adds_def bundle_dependency_def dep_needs_def)
  qed
next
  case False
  then show ?thesis by (auto simp: adds_def bundle_dependency_def dep_needs_def split: sum.splits if_splits)
qed

lemma adds_declaration: "(\<And>dep. adds (f dep) (N dep)) \<Longrightarrow> adds (bundle_declaration f pc decl) (decl_needs N pc decl)"
  using adds_fold [of "Dependencies decl" f N] by (auto simp: adds_def bundle_declaration_def decl_needs_def)

lemma adds_resolve: "adds (resolve_bundles R params pc n ds) (needed R params pc n ds)"
proof (induction n arbitrary: ds)
  case 0
  show ?case unfolding resolve_bundles.simps needed.simps by (intro adds_fold adds_declaration adds_dependency) simp
next
  case (Suc n)
  show ?case unfolding resolve_bundles.simps needed.simps by (intro adds_fold adds_declaration adds_dependency) (simp add: Suc)
qed

lemma bkey_inj:
  assumes "\<forall>b\<in>B. CHR ''@'' \<notin> set (bundleName b) \<and> CHR ''@'' \<notin> set (bundleVersion b)"
  shows "inj_on bkey B"
proof (rule inj_onI)
  fix b c assume bc: "b \<in> B" "c \<in> B" "bkey b = bkey c"
  then have "bundleName b = bundleName c \<and> bundleVersion b @ CHR ''@'' # bundleLocality b = bundleVersion c @ CHR ''@'' # bundleLocality c"
    using assms by (intro split_first_sep) (auto simp: bkey_def bundleKey_def)
  moreover from this have "bundleVersion b = bundleVersion c \<and> bundleLocality b = bundleLocality c"
    using assms bc(1,2) by (intro split_first_sep) auto
  ultimately show "b = c" by (cases b; cases c) auto
qed

text \<open>
  The bundles that are resolved for a run are exactly the ones that the parameters require in the
  deployments that apply to the platform, directly or through a tool, each of them once, provided
  that no name or version contains the separator of the keys.
\<close>

theorem ResolveToolBundles_exact:
  assumes "ResolveToolBundles pc params deployments R = Inr bundles"
    and "\<forall>b\<in>needed R params pc maxToolDepth deployments. CHR ''@'' \<notin> set (bundleName b) \<and> CHR ''@'' \<notin> set (bundleVersion b)"
  shows "set bundles = needed R params pc maxToolDepth deployments \<and> distinct bundles"
proof -
  obtain m where m: "resolve_bundles R params pc maxToolDepth deployments [] = Inr m" "bundles = map snd m"
    using assms(1) by (auto simp: ResolveToolBundles_def split: sum.splits)
  have inj: "inj_on bkey (ran (map_of []) \<union> needed R params pc maxToolDepth deployments)" using bkey_inj [OF assms(2)] by simp
  have k: "keyed m" and r: "ran (map_of m) = needed R params pc maxToolDepth deployments"
    using addsD [OF adds_resolve m(1) _ inj] by (simp_all add: keyed_def)
  have "distinct (map snd m)"
  proof -
    have "map fst m = map bkey (map snd m)" using k by (auto simp: keyed_def map_of_eq_Some_iff intro!: nth_equalityI)
    then show ?thesis using k unfolding keyed_def by (metis distinct_map)
  qed
  with k r m(2) show ?thesis by (simp add: keyed_def ran_distinct)
qed

section \<open>Where the two checks differ\<close>

definition demo_dep :: "string \<Rightarrow> string \<Rightarrow> string \<Rightarrow> (string \<times> any) list \<Rightarrow> Dependency" where
  "demo_dep name version t ps =
     \<lparr>depType = ''tool_bundle'', depName = name, depVersion = version, depLocality = [], RequiredWhen = \<lparr>reqType = t, reqParameters = ps\<rparr>\<rparr>"

definition demo_platform :: PlatformConfiguration where
  "demo_platform = \<lparr>Architecture = ''arm64'', OS = ''linux''\<rparr>"

definition demo_resolver :: resolver where
  "demo_resolver name version = Inl (ToolNotFound name)"

definition demo_deployments :: "DeploymentDeclaration list" where
  "demo_deployments =
     [\<lparr>AppliesTo = [\<lparr>fArchitecture = None, fOS = Some ''linux''\<rparr>],
       Dependencies = [demo_dep ''perf'' ''1'' ''always'' [], demo_dep ''spe'' [] ''param_is_set'' [(''trace'', ABool True)]]\<rparr>,
      \<lparr>AppliesTo = [], Dependencies = [demo_dep ''fallback'' ''2'' ''always'' []]\<rparr>]"

definition demo_fmt :: "any \<Rightarrow> string" where
  "demo_fmt v = (case v of ABool True \<Rightarrow> ''true'' | ABool False \<Rightarrow> ''false'' | AStr s \<Rightarrow> s | _ \<Rightarrow> [])"

definition demo_off :: BoundParameters where
  "demo_off = \<lparr>bpParameters = demo_params, bpValues =
     \<lparr>vCheckbox = [False], vRadio = [], vSingleSelect = [''slow''], vMultiSelect = [[]], vInput = []\<rparr>\<rparr>"

theorem platform_support_sound_witness:
  "\<exists>decl\<in>set demo_deployments. appliesToPlatform (AppliesTo decl) demo_platform 15 \<and>
    (\<forall>dep\<in>set (Dependencies decl). shouldDeployDependency dep (Some demo_off) = Inr True \<longrightarrow>
       dependency_supported demo_resolver (Some (support_internal demo_fmt demo_resolver 15 demo_platform 0)) dep = Inr True)"
proof -
  let ?ps = "projr (GetDeploymentSupportForPlatform demo_fmt demo_resolver 15 demo_deployments demo_platform)"
  have 1: "demo_deployments \<noteq> []" and 2: "GetDeploymentSupportForPlatform demo_fmt demo_resolver 15 demo_deployments demo_platform = Inr ?ps"
    and 3: "ResolveParameterSupport ?ps demo_off = Inr \<lparr>psResult = PlatformIsSupported, ConditionList = []\<rparr>" by code_simp+
  have 5: "\<forall>decl\<in>set demo_deployments. inj_on (condition_key demo_fmt) (negated ` set (Dependencies decl))" by code_simp
  show ?thesis using platform_support_sound [OF 1 2 3 _ 5] by simp
qed

definition demo_two :: "DeploymentDeclaration list" where
  "demo_two =
     [\<lparr>AppliesTo = [\<lparr>fArchitecture = None, fOS = Some ''linux''\<rparr>], Dependencies = [demo_dep ''perf'' ''1'' ''always'' []]\<rparr>,
      \<lparr>AppliesTo = [], Dependencies = [demo_dep ''fallback'' ''2'' ''always'' []]\<rparr>]"

definition demo_bundles :: "ToolBundleInfo list" where
  "demo_bundles =
     [\<lparr>bundleName = ''perf'', bundleVersion = ''1'', bundleLocality = ''target''\<rparr>,
      \<lparr>bundleName = ''fallback'', bundleVersion = ''2'', bundleLocality = ''target''\<rparr>]"

theorem ResolveToolBundles_exact_witness:
  "set demo_bundles = needed demo_resolver (Some demo_off) demo_platform maxToolDepth demo_two \<and> distinct demo_bundles"
proof -
  have 1: "ResolveToolBundles demo_platform (Some demo_off) demo_two demo_resolver = Inr demo_bundles" by code_simp
  have 2: "\<forall>b\<in>needed demo_resolver (Some demo_off) demo_platform maxToolDepth demo_two.
      CHR ''@'' \<notin> set (bundleName b) \<and> CHR ''@'' \<notin> set (bundleVersion b)" by code_simp
  show ?thesis by (rule ResolveToolBundles_exact [OF 1 2])
qed

text \<open>
  Where the negated requirement falls short: a dependency with two conditions of which one does not hold
  is not required, and yet the platform is found not to be supported, because the negation asks
  that none of them holds.
\<close>

definition demo_both :: "DeploymentDeclaration list" where
  "demo_both = [\<lparr>AppliesTo = [], Dependencies = [demo_dep ''spe'' [] ''param_is_set'' [(''mode'', AStr ''slow''), (''trace'', ABool True)]]\<rparr>]"

lemma unsupported_without_need:
  "shouldDeployDependency (hd (Dependencies (hd demo_both))) (Some demo_off) = Inr False \<and>
   (\<exists>ps. GetDeploymentSupportForPlatform demo_fmt demo_resolver 15 demo_both demo_platform = Inr ps \<and>
      ResolveParameterSupport ps demo_off = Inr \<lparr>psResult = PlatformNotSupported, ConditionList = []\<rparr>)"
proof -
  let ?ps = "projr (GetDeploymentSupportForPlatform demo_fmt demo_resolver 15 demo_both demo_platform)"
  have "shouldDeployDependency (hd (Dependencies (hd demo_both))) (Some demo_off) = Inr False"
    "GetDeploymentSupportForPlatform demo_fmt demo_resolver 15 demo_both demo_platform = Inr ?ps"
    "ResolveParameterSupport ?ps demo_off = Inr \<lparr>psResult = PlatformNotSupported, ConditionList = []\<rparr>" by code_simp+
  then show ?thesis by blast
qed

text \<open>
  The check of the platform stops at the first deployment that is supported, but the bundles of the later
  ones are deployed too.
\<close>

lemma fallback_bundles_deployed:
  "GetDeploymentSupportForPlatform demo_fmt demo_resolver 15 (take 1 demo_two) demo_platform =
     Inr \<lparr>psResult = PlatformIsSupported, ConditionList = []\<rparr> \<and>
   GetDeploymentSupportForPlatform demo_fmt demo_resolver 15 demo_two demo_platform =
     Inr \<lparr>psResult = PlatformIsSupported, ConditionList = []\<rparr> \<and>
   ResolveToolBundles demo_platform (Some demo_off) demo_two demo_resolver = Inr demo_bundles"
  by (intro conjI) code_simp+

text \<open>
  A bundle without a version that is not required makes the resolution of the bundles fail, although the
  platform is found to be supported.
\<close>

lemma unneeded_bundle_fails:
  "shouldDeployDependency (Dependencies (hd demo_deployments) ! 1) (Some demo_off) = Inr False \<and>
   ResolveToolBundles demo_platform (Some demo_off) demo_deployments demo_resolver = Inl BundleMissingFields"
  by (intro conjI) code_simp+

end
