(* ===== verification/Stages.thy ===== *)
theory Stages
  imports Driver Deployment
begin

text \<open>
  The stages of a recipe (core/apap-engine/recipe/stages, notifiers.go, ready_types.go) and the lists of
  stages for running a recipe, checking that it is ready, getting its parameter options and validating
  its parameters (recipe/runtime/run.go, ready.go, validation.go). What the stages ask of the target, the
  agent, the deployer and the scripts are functions of an environment; they may fail, and while they
  run another goroutine may set the command of the run.
\<close>

section \<open>The world of the stages\<close>

record ReadyAdvice =
  ToolName :: string
  AdviceSeverity :: string
  AdviceMessage :: string

record ReadyOutput =
  Status :: string
  Advice :: "ReadyAdvice list"

datatype Workload =
  WorkloadLaunch (RawCommand: string) (Command: "string list") (Environment: "(string \<times> string) list") (WorkingDir: string) (UseShell: bool)
| WorkloadAndroidLaunch string string
| WorkloadAttach int
| WorkloadSystemWide

datatype ToolDeploymentMode = ToolDeployNONE | ToolDeployAUTO | ToolDeployAUTOFORCE | ToolDeployCHECK

datatype ReconcileResult = NoAction | Deploy | Deployed

text \<open>The state of the stages of a recipe and of what they share.\<close>

record 'x World =
  wCmd :: CommandState
  wReadiness :: "ReadyOutput list"
  wLockSet :: bool
  wLock :: bool
  wSupportError :: RunResult
  wWorkloadError :: RunResult
  wWaitError :: RunResult
  wPlatform :: PlatformConfiguration
  wHostPlatform :: PlatformConfiguration
  wBundles :: "ToolBundleInfo list"
  wProcesses :: "int list option"
  wProcessesErr :: "gerror option"
  wListening :: bool
  wResolved :: "Workload option"
  wSupport :: "PlatformSupport option"
  wDeployed :: "string \<Rightarrow> ReconcileResult"
  wRest :: 'x

text \<open>A call to something outside of the stages.\<close>

type_synonym ('x, 'r) ext = "CommandState \<times> 'x \<Rightarrow> (gerror + 'r) \<times> CommandState \<times> 'x"

definition call :: "('x, 'r) ext \<Rightarrow> 'x World \<Rightarrow> (gerror + 'r) \<times> 'x World" where
  "call f w = (case f (wCmd w, wRest w) of (r, cmd, x) \<Rightarrow> (r, w\<lparr>wCmd := cmd, wRest := x\<rparr>))"

type_synonym 'x execution = "'x World \<Rightarrow> gerror option \<times> ('x World \<Rightarrow> 'x World) option \<times> 'x World"

text \<open>A call, and what to do with its result; an error ends the stage.\<close>

definition then_do :: "('x, 'r) ext \<Rightarrow> ('r \<Rightarrow> 'x execution) \<Rightarrow> 'x execution" where
  "then_do f g w = (case call f w of (Inl e, w') \<Rightarrow> (Some e, None, w') | (Inr r, w') \<Rightarrow> g r w')"

definition finish :: "('x World \<Rightarrow> 'x World) \<Rightarrow> 'x execution" where
  "finish f w = (None, None, f w)"

definition fail_with :: "gerror \<Rightarrow> 'x execution" where
  "fail_with e w = (Some e, None, w)"

record ToolInfo =
  tiName :: string
  tiVersion :: string

text \<open>A script may probe the readiness, and may leave a function that cleans up.\<close>

record 'x ScriptedStage =
  scName :: string
  scExecute :: "CommandState \<times> 'x \<Rightarrow> (gerror option \<times> ReadyOutput list \<times> ('x \<Rightarrow> 'x) option) \<times> CommandState \<times> 'x"

record 'x stage_env =
  eConnect :: "('x, unit) ext"
  ePlatform :: "('x, PlatformConfiguration) ext"
  eFindTools :: "('x, unit) ext"
  eResolver :: resolver
  eFmt :: "any \<Rightarrow> string"
  eHomeDir :: "('x, string) ext"
  eShellify :: "string \<Rightarrow> ('x, (gerror \<times> bool) + (string \<times> string list)) ext"
  eUpdateWorkingDir :: "string \<Rightarrow> ('x, unit) ext"
  eHostConnect :: "('x, PlatformConfiguration) ext"
  eBundleInfo :: "PlatformConfiguration \<Rightarrow> ToolInfo \<Rightarrow> ('x, unit) ext"
  eReconcile :: "PlatformConfiguration \<Rightarrow> ToolInfo \<Rightarrow> ('x, ReconcileResult) ext"
  eCloseAgent :: "string \<Rightarrow> ('x, unit) ext"
  eTargetAgent :: "('x, unit) ext"
  eHostAgent :: "('x, unit) ext"
  eHostAdvice :: "gerror \<Rightarrow> ReadyAdvice list"
  eHoldLock :: "('x, unit) ext"
  eTargetInfo :: "('x, unit) ext"
  eListProcesses :: "('x, gerror + int list) ext"
  eStorePids :: "int list \<Rightarrow> ('x, unit) ext"
  eFlush :: "bool \<Rightarrow> ('x, bool \<times> gerror option) ext"
  eRetrieve :: "bool \<Rightarrow> ('x, unit) ext"
  agentTool :: ToolInfo

record 'x StageConfiguration =
  OrigWorkload :: "Workload option"
  HasRun :: bool
  DeployMode :: ToolDeploymentMode
  TransferManagerEnabled :: bool
  RecipeDeployments :: "DeploymentDeclaration list"
  ParamValues :: BoundParameters
  ParameterOptionsStages :: "'x ScriptedStage list"
  ParameterValidationStage :: "'x ScriptedStage option"
  RunStages :: "'x ScriptedStage list"
  ReadyStages :: "'x ScriptedStage list"

section \<open>Readiness\<close>

definition severity :: "string \<Rightarrow> nat option" where
  "severity s =
     (if s = ''unknown'' then Some 3 else if s = ''error'' then Some 2 else if s = ''warning'' then Some 1
      else if s = ''ready'' then Some 0 else None)"

text \<open>A status that is not in the ranking has the rank 0.\<close>

fun escalate :: "ReadyAdvice list \<Rightarrow> string \<Rightarrow> string" where
  "escalate [] status = status"
| "escalate (adv # advs) status =
     (case severity (AdviceSeverity adv) of
        None \<Rightarrow> ''unknown''
      | Some advRank \<Rightarrow>
          escalate advs (if advRank > (case severity status of None \<Rightarrow> 0 | Some n \<Rightarrow> n) then AdviceSeverity adv else status))"

definition OnReadinessProbed :: "ReadyOutput \<Rightarrow> 'x World \<Rightarrow> 'x World" where
  "OnReadinessProbed r w = w\<lparr>wReadiness := wReadiness w @ [r\<lparr>Status := escalate (Advice r) (Status r)\<rparr>]\<rparr>"

definition ConvertMessageToReadyOutput :: "gerror \<Rightarrow> ReadyOutput" where
  "ConvertMessageToReadyOutput e =
     \<lparr>Status = ''error'', Advice = [\<lparr>ToolName = [], AdviceSeverity = ''error'', AdviceMessage = e\<rparr>]\<rparr>"

definition notifyAgentReadinessFailure :: "gerror \<Rightarrow> string \<Rightarrow> ReadyAdvice list \<Rightarrow> 'x World \<Rightarrow> 'x World" where
  "notifyAgentReadinessFailure e toolName additional =
     OnReadinessProbed \<lparr>Status = ''error'', Advice = \<lparr>ToolName = toolName, AdviceSeverity = ''error'', AdviceMessage = e\<rparr> # additional\<rparr>"

fun reduce_loop :: "ReadyOutput list \<Rightarrow> string \<Rightarrow> nat \<Rightarrow> ReadyAdvice list \<Rightarrow> ReadyOutput" where
  "reduce_loop [] mostSevere maxRank advice = \<lparr>Status = mostSevere, Advice = advice\<rparr>"
| "reduce_loop (out # outs) mostSevere maxRank advice =
     (case severity (Status out) of
        None \<Rightarrow> \<lparr>Status = ''unknown'', Advice = advice @ Advice out\<rparr>
      | Some rank \<Rightarrow>
          if rank > maxRank then reduce_loop outs (Status out) rank (advice @ Advice out)
          else reduce_loop outs mostSevere maxRank (advice @ Advice out))"

definition reduceReadyStatus :: "ReadyOutput list \<Rightarrow> ReadyOutput" where
  "reduceReadyStatus outs = reduce_loop outs ''ready'' 0 []"

definition isPermittedReadyFailure :: "RunResult \<Rightarrow> bool" where
  "isPermittedReadyFailure r \<longleftrightarrow>
     r = ''failure_connect_to_agent'' \<or> r = ''failure_target_platform_unsupported'' \<or> r = ''failure_no_shell_available''"

section \<open>Connecting\<close>

definition TargetConnectStage :: "'x stage_env \<Rightarrow> 'x World Stage" where
  "TargetConnectStage E =
     \<lparr>Name = ''Establishing connection to target'', AlwaysExecute = False, ErrorType = (\<lambda>w. ''failure_connect_ssh''),
      Execute = (\<lambda>_. then_do (eConnect E) (\<lambda>_. finish id))\<rparr>"

definition TargetArchitectureStage :: "'x stage_env \<Rightarrow> 'x World Stage" where
  "TargetArchitectureStage E =
     \<lparr>Name = ''Identifying target architecture'', AlwaysExecute = False, ErrorType = (\<lambda>w. ''failure_identify_target_architecture''),
      Execute = (\<lambda>_. then_do (ePlatform E) (\<lambda>p. finish (wPlatform_update (\<lambda>_. p))))\<rparr>"

definition unsupported_platform :: gerror where
  "unsupported_platform = ''EngineRecipeUnsupportedPlatformForRecipe''"

definition dep_message :: "dep_error \<Rightarrow> gerror" where
  "dep_message e = ''deployment''"

text \<open>A platform that is not supported is reported as a readiness and fails the stage.\<close>

definition report_unsupported :: "'x execution" where
  "report_unsupported w =
     fail_with unsupported_platform
       ((OnReadinessProbed (ConvertMessageToReadyOutput unsupported_platform) w)\<lparr>wSupportError := ''failure_target_platform_unsupported''\<rparr>)"

definition check_support :: "BoundParameters \<Rightarrow> bool \<Rightarrow> PlatformSupport \<Rightarrow> 'x execution" where
  "check_support params failIfUnsupported ps =
     (if \<not> failIfUnsupported then finish (wSupport_update (\<lambda>_. Some ps))
      else if psResult ps = PlatformNotSupported then report_unsupported
      else case (if psResult ps = PlatformSupportConditional then ResolveParameterSupport ps params else Inr ps) of
             Inl e \<Rightarrow> fail_with (dep_message e)
           | Inr ps' \<Rightarrow> if psResult ps' = PlatformIsSupported then finish id else report_unsupported)"

definition TargetPlatformSupportStage :: "'x stage_env \<Rightarrow> 'x StageConfiguration \<Rightarrow> bool \<Rightarrow> 'x World Stage" where
  "TargetPlatformSupportStage E config failIfUnsupported =
     \<lparr>Name = ''Checking target platform support'', AlwaysExecute = False, ErrorType = wSupportError,
      Execute = (\<lambda>_. then_do (eFindTools E) (\<lambda>_ w.
        case GetDeploymentSupportForPlatform (eFmt E) (eResolver E) 15 (RecipeDeployments config) (wPlatform w) of
          Inl e \<Rightarrow> fail_with (dep_message e) w
        | Inr ps \<Rightarrow> check_support (ParamValues config) failIfUnsupported ps w))\<rparr>"

section \<open>Workload options\<close>

definition no_shell :: gerror where
  "no_shell = ''EngineConductorShellresolutionNoShellFound''"

definition resolve_dir :: "'x stage_env \<Rightarrow> string \<Rightarrow> (string \<Rightarrow> 'x execution) \<Rightarrow> 'x execution" where
  "resolve_dir E dir g =
     (if dir = [] then then_do (ePlatform E) (\<lambda>_. then_do (eHomeDir E) g) else g dir)"

definition shellify :: "'x stage_env \<Rightarrow> Workload \<Rightarrow> (string \<times> string list \<Rightarrow> 'x execution) \<Rightarrow> 'x execution" where
  "shellify E wl g =
     (if \<not> UseShell wl then g (RawCommand wl, Command wl)
      else then_do (ePlatform E) (\<lambda>_. then_do (eShellify E (RawCommand wl)) (\<lambda>r.
        case r of
          Inl (e, noShell) \<Rightarrow>
            if noShell
            then (\<lambda>w. fail_with e ((OnReadinessProbed (ConvertMessageToReadyOutput e) w)\<lparr>wWorkloadError := ''failure_no_shell_available''\<rparr>))
            else fail_with e
        | Inr rc \<Rightarrow> g rc)))"

definition WorkloadOptionsStage :: "'x stage_env \<Rightarrow> 'x StageConfiguration \<Rightarrow> 'x World Stage" where
  "WorkloadOptionsStage E config =
     \<lparr>Name = ''Evaluating workload options'', AlwaysExecute = False, ErrorType = wWorkloadError,
      Execute = (\<lambda>_.
        case OrigWorkload config of
          None \<Rightarrow> finish id
        | Some (WorkloadLaunch raw cmd env dir sh) \<Rightarrow>
            resolve_dir E dir (\<lambda>dir'.
              shellify E (WorkloadLaunch raw cmd env dir sh) (\<lambda>(raw', cmd').
                let done = finish (wResolved_update (\<lambda>_. Some (WorkloadLaunch raw' cmd' env dir' sh))) in
                if HasRun config then then_do (eUpdateWorkingDir E dir') (\<lambda>_. done) else done))
        | Some wl \<Rightarrow> finish (wResolved_update (\<lambda>_. Some wl)))\<rparr>"

section \<open>Tools\<close>

definition ToolBundleResolutionStage :: "'x stage_env \<Rightarrow> 'x StageConfiguration \<Rightarrow> 'x World Stage" where
  "ToolBundleResolutionStage E config =
     \<lparr>Name = ''Resolving tool bundles'', AlwaysExecute = False, ErrorType = (\<lambda>w. ''failure_tool_deployment''),
      Execute = (\<lambda>_. then_do (eFindTools E) (\<lambda>_ w.
        case ResolveToolBundles (wPlatform w) (Some (ParamValues config)) (RecipeDeployments config) (eResolver E) of
          Inl e \<Rightarrow> fail_with (dep_message e) w
        | Inr bundles \<Rightarrow> finish (wBundles_update (\<lambda>_. bundles)) w))\<rparr>"

definition appendUniqueTools :: "ToolInfo list \<Rightarrow> ToolInfo list \<Rightarrow> ToolInfo list" where
  "appendUniqueTools tools additions = foldl (\<lambda>ts t. if t \<in> set ts then ts else ts @ [t]) tools additions"

definition requiredToolsForLocality :: "ToolInfo \<Rightarrow> ToolBundleInfo list \<Rightarrow> string \<Rightarrow> ToolInfo list" where
  "requiredToolsForLocality agent bundles locality =
     foldl (\<lambda>required b. if bundleLocality b \<noteq> locality then required
                         else appendUniqueTools required [\<lparr>tiName = bundleName b, tiVersion = bundleVersion b\<rparr>])
       [agent] bundles"

definition HostArchitectureStage :: "'x stage_env \<Rightarrow> 'x World Stage" where
  "HostArchitectureStage E =
     \<lparr>Name = ''Identifying host architecture'', AlwaysExecute = False, ErrorType = (\<lambda>w. ''failure_identify_target_architecture''),
      Execute = (\<lambda>_ w.
        if \<not> ContainsHostToolBundles (wBundles w) then finish id w
        else then_do (eHostConnect E) (\<lambda>p. finish (wHostPlatform_update (\<lambda>_. p))) w)\<rparr>"

definition updateStageResult :: "ReconcileResult list \<Rightarrow> ReconcileResult" where
  "updateStageResult results =
     (if Deploy \<in> set results then Deploy else if Deployed \<in> set results then Deployed else NoAction)"

text \<open>An error in closing the agent is only logged.\<close>

definition closeAgentConnectionIfOpen :: "'x stage_env \<Rightarrow> string \<Rightarrow> 'x World \<Rightarrow> 'x World" where
  "closeAgentConnectionIfOpen E locality w = snd (call (eCloseAgent E locality) w)"

fun bundle_infos :: "'x stage_env \<Rightarrow> PlatformConfiguration \<Rightarrow> ToolInfo list \<Rightarrow> 'x execution \<Rightarrow> 'x execution" where
  "bundle_infos E p [] next_step = next_step"
| "bundle_infos E p (t # ts) next_step = then_do (eBundleInfo E p t) (\<lambda>_. bundle_infos E p ts next_step)"

fun reconcile_tools :: "'x stage_env \<Rightarrow> PlatformConfiguration \<Rightarrow> ToolInfo list \<Rightarrow> ReconcileResult list \<Rightarrow> (ReconcileResult \<Rightarrow> 'x execution) \<Rightarrow> 'x execution" where
  "reconcile_tools E p [] results g = g (updateStageResult results)"
| "reconcile_tools E p (t # ts) results g = then_do (eReconcile E p t) (\<lambda>r. reconcile_tools E p ts (results @ [r]) g)"

text \<open>
  The tools of a locality are deployed one after the other. An agent that runs is closed first when the
  deployment is forced, and afterwards when something was deployed.
\<close>

definition ToolDeploymentStage :: "'x stage_env \<Rightarrow> 'x StageConfiguration \<Rightarrow> string \<Rightarrow> 'x World Stage" where
  "ToolDeploymentStage E config locality =
     \<lparr>Name = ''Reconciling '' @ locality @ '' tool deployment'', AlwaysExecute = False, ErrorType = (\<lambda>w. ''failure_tool_deployment''),
      Execute = (\<lambda>_ w.
        if locality = ''host'' \<and> \<not> ContainsHostToolBundles (wBundles w)
        then finish (\<lambda>w. w\<lparr>wDeployed := (wDeployed w)(locality := NoAction)\<rparr>) w
        else
          let force = (DeployMode config = ToolDeployAUTOFORCE);
              w1 = (if force then closeAgentConnectionIfOpen E locality w else w);
              p = (if locality = ''host'' then wHostPlatform w1 else wPlatform w1);
              tools = requiredToolsForLocality (agentTool E) (wBundles w1) locality
          in bundle_infos E p tools (reconcile_tools E p tools [] (\<lambda>r w.
               let w2 = w\<lparr>wDeployed := (wDeployed w)(locality := r)\<rparr>
               in finish (if \<not> force \<and> r = Deployed then closeAgentConnectionIfOpen E locality else id) w2)) w1)\<rparr>"

section \<open>The agent and the lock of the target\<close>

definition ConnectingToTargetAgentStage :: "'x stage_env \<Rightarrow> 'x World Stage" where
  "ConnectingToTargetAgentStage E =
     \<lparr>Name = ''Connecting to target agent'', AlwaysExecute = False, ErrorType = (\<lambda>w. ''failure_connect_to_agent''),
      Execute = (\<lambda>_ w.
        case call (eTargetAgent E) w of
          (Inl e, w') \<Rightarrow> fail_with e (notifyAgentReadinessFailure e ''agent'' [] w')
        | (Inr _, w') \<Rightarrow> finish id w')\<rparr>"

definition ConnectingToHostAgentStage :: "'x stage_env \<Rightarrow> 'x World Stage" where
  "ConnectingToHostAgentStage E =
     \<lparr>Name = ''Connecting to host agent'', AlwaysExecute = False, ErrorType = (\<lambda>w. ''failure_connect_to_agent''),
      Execute = (\<lambda>_ w.
        if \<not> ContainsHostToolBundles (wBundles w) then finish id w
        else case call (eHostAgent E) w of
               (Inl e, w') \<Rightarrow> fail_with e (notifyAgentReadinessFailure e (tiName (agentTool E)) (eHostAdvice E e) w')
             | (Inr _, w') \<Rightarrow> finish id w')\<rparr>"

text \<open>The lock can be released before the stage that takes it has run, and more than once.\<close>

definition Release :: "'x World \<Rightarrow> 'x World" where
  "Release w = (if wLockSet w then w\<lparr>wLock := False\<rparr> else w)"

definition TargetLockStage :: "'x stage_env \<Rightarrow> 'x World Stage" where
  "TargetLockStage E =
     \<lparr>Name = ''Acquiring target lock'', AlwaysExecute = False, ErrorType = (\<lambda>w. ''failure_target_lock''),
      Execute = (\<lambda>_ w.
        case call (eHoldLock E) (w\<lparr>wLockSet := True\<rparr>) of
          (Inl e, w') \<Rightarrow> (Some e, Some Release, w')
        | (Inr _, w') \<Rightarrow> (None, Some Release, w'\<lparr>wLock := True\<rparr>))\<rparr>"

definition ReleaseTargetLockStage :: "'x World Stage" where
  "ReleaseTargetLockStage =
     \<lparr>Name = ''Releasing target lock'', AlwaysExecute = True, ErrorType = (\<lambda>w. ''failure_target_lock''),
      Execute = (\<lambda>_. finish Release)\<rparr>"

section \<open>Information about the target\<close>

definition CollectTargetInfoStage :: "'x stage_env \<Rightarrow> 'x World Stage" where
  "CollectTargetInfoStage E =
     \<lparr>Name = ''Collecting target information'', AlwaysExecute = False, ErrorType = (\<lambda>w. ''failure_collect_target_info''),
      Execute = (\<lambda>_. then_do (eTargetInfo E) (\<lambda>_. finish id))\<rparr>"

text \<open>A target that cannot list its processes is not an error until a process is to be validated.\<close>

definition CollectTargetPIDStage :: "'x stage_env \<Rightarrow> 'x World Stage" where
  "CollectTargetPIDStage E =
     \<lparr>Name = ''Collecting target information (running processes)'', AlwaysExecute = False, ErrorType = (\<lambda>w. ''failure_collect_target_info''),
      Execute = (\<lambda>_. then_do (eListProcesses E) (\<lambda>r.
        case r of
          Inl unsupported \<Rightarrow> finish (wProcessesErr_update (\<lambda>_. Some unsupported))
        | Inr pids \<Rightarrow> then_do (eStorePids E pids) (\<lambda>_. finish (wProcesses_update (\<lambda>_. Some pids)))))\<rparr>"

definition agentProcessListContainsPID :: "int list option \<Rightarrow> int \<Rightarrow> bool" where
  "agentProcessListContainsPID procList pid = (case procList of None \<Rightarrow> False | Some pids \<Rightarrow> pid \<in> set pids)"

definition ValidateTargetPIDStage :: "int \<Rightarrow> 'x World Stage" where
  "ValidateTargetPIDStage pid =
     \<lparr>Name = ''Validating selected PID matches a process running on the target'', AlwaysExecute = False,
      ErrorType = (\<lambda>w. ''failure_collect_target_info''),
      Execute = (\<lambda>_ w.
        case wProcessesErr w of
          Some e \<Rightarrow> fail_with e w
        | None \<Rightarrow>
            if \<not> agentProcessListContainsPID (wProcesses w) pid
            then fail_with ''EngineRecipeStagesValidateTargetPidStagePidNotFound'' w else finish id w)\<rparr>"

section \<open>Scripts and transfers\<close>

definition CustomRecipeStage :: "string \<Rightarrow> 'x ScriptedStage \<Rightarrow> 'x World Stage" where
  "CustomRecipeStage name sc =
     \<lparr>Name = name, AlwaysExecute = False, ErrorType = (\<lambda>w. ''failure_recipe_stage''),
      Execute = (\<lambda>_ w.
        case scExecute sc (wCmd w, wRest w) of ((err, outs, cleanUp), cmd, x) \<Rightarrow>
          (err, map_option (\<lambda>f w. w\<lparr>wRest := f (wRest w)\<rparr>) cleanUp,
           fold OnReadinessProbed outs (w\<lparr>wCmd := cmd, wRest := x\<rparr>)))\<rparr>"

definition StartTransferManagerStage :: "'x World Stage" where
  "StartTransferManagerStage =
     \<lparr>Name = ''Starting transfer manager'', AlwaysExecute = True, ErrorType = (\<lambda>w. ''failure_retrieve_output_files''),
      Execute = (\<lambda>_. finish (wListening_update (\<lambda>_. True)))\<rparr>"

text \<open>
  Flushing the transfers tells whether the first phase completed, and its own error, if any. It is
  refused when the manager does not listen.
\<close>

definition flush_result :: "bool \<times> gerror option \<Rightarrow> 'x execution" where
  "flush_result r =
     (case r of (phase1Complete, err) \<Rightarrow>
        case err of
          None \<Rightarrow> finish id
        | Some e \<Rightarrow> (\<lambda>w. fail_with e (if phase1Complete then w\<lparr>wWaitError := ''failure_retrieve_output_files_phase1_complete''\<rparr> else w)))"

definition flush_transfers :: "'x stage_env \<Rightarrow> bool \<Rightarrow> 'x execution" where
  "flush_transfers E succeeded w =
     (if \<not> wListening w then fail_with ''TransferManager has not started listening yet'' w
      else then_do (eFlush E succeeded) flush_result w)"

definition WaitForTransfersStage :: "'x stage_env \<Rightarrow> 'x World Stage" where
  "WaitForTransfersStage E =
     \<lparr>Name = ''Waiting for transfers to complete'', AlwaysExecute = True, ErrorType = wWaitError,
      Execute = (\<lambda>failure w. flush_transfers E (failure = None) (w\<lparr>wWaitError := ''failure_retrieve_output_files''\<rparr>))\<rparr>"

definition RetrieveAgentFilesStage :: "'x stage_env \<Rightarrow> 'x World Stage" where
  "RetrieveAgentFilesStage E =
     \<lparr>Name = ''Retrieving recipe artifacts'', AlwaysExecute = True, ErrorType = (\<lambda>w. ''failure_retrieve_output_files''),
      Execute = (\<lambda>failure. then_do (eRetrieve E (failure = None)) (\<lambda>_. finish id))\<rparr>"

section \<open>Lists of stages\<close>

definition custom :: "'x ScriptedStage \<Rightarrow> 'x World Stage" where
  "custom sc = CustomRecipeStage (scName sc) sc"

definition validation_part :: "'x StageConfiguration \<Rightarrow> 'x World Stage list" where
  "validation_part c =
     (case ParameterValidationStage c of
        None \<Rightarrow> []
      | Some v \<Rightarrow> map custom (ParameterOptionsStages c) @ [CustomRecipeStage ''Validating recipe parameters'' v])"

definition run_before :: "'x stage_env \<Rightarrow> 'x StageConfiguration \<Rightarrow> 'x World Stage list" where
  "run_before E c =
     [TargetConnectStage E, TargetArchitectureStage E, TargetPlatformSupportStage E c True, WorkloadOptionsStage E c] @
     (if DeployMode c \<noteq> ToolDeployNONE
      then [ToolBundleResolutionStage E c, ToolDeploymentStage E c ''target'', HostArchitectureStage E, ToolDeploymentStage E c ''host'']
      else []) @
     [ConnectingToTargetAgentStage E]"

definition run_locked :: "'x stage_env \<Rightarrow> 'x StageConfiguration \<Rightarrow> 'x World Stage list" where
  "run_locked E c =
     [CollectTargetInfoStage E, CollectTargetPIDStage E] @
     (case OrigWorkload c of Some (WorkloadAttach pid) \<Rightarrow> if pid > 0 then [ValidateTargetPIDStage pid] else [] | _ \<Rightarrow> []) @
     (if TransferManagerEnabled c then [StartTransferManagerStage] else []) @
     validation_part c @ map custom (RunStages c)"

definition run_after :: "'x stage_env \<Rightarrow> 'x StageConfiguration \<Rightarrow> 'x World Stage list" where
  "run_after E c = [if TransferManagerEnabled c then WaitForTransfersStage E else RetrieveAgentFilesStage E]"

definition BuildStages :: "'x stage_env \<Rightarrow> 'x StageConfiguration \<Rightarrow> 'x World Stage list" where
  "BuildStages E c = run_before E c @ [TargetLockStage E] @ run_locked E c @ [ReleaseTargetLockStage] @ run_after E c"

definition ready_before :: "'x stage_env \<Rightarrow> 'x StageConfiguration \<Rightarrow> 'x World Stage list" where
  "ready_before E c =
     [TargetConnectStage E, TargetArchitectureStage E, TargetPlatformSupportStage E c True, WorkloadOptionsStage E c,
      ToolBundleResolutionStage E c, HostArchitectureStage E, ConnectingToTargetAgentStage E]"

definition ready_locked :: "'x stage_env \<Rightarrow> 'x StageConfiguration \<Rightarrow> 'x World Stage list" where
  "ready_locked E c =
     [CollectTargetInfoStage E, ConnectingToHostAgentStage E] @ validation_part c @ map custom (ReadyStages c)"

definition ConfigureRecipeReadyStages :: "'x stage_env \<Rightarrow> 'x StageConfiguration \<Rightarrow> 'x World Stage list" where
  "ConfigureRecipeReadyStages E c = ready_before E c @ [TargetLockStage E] @ ready_locked E c @ [ReleaseTargetLockStage]"

definition info_before :: "'x stage_env \<Rightarrow> 'x StageConfiguration \<Rightarrow> 'x World Stage list" where
  "info_before E c =
     [TargetConnectStage E, TargetArchitectureStage E, TargetPlatformSupportStage E c False, WorkloadOptionsStage E c,
      ConnectingToTargetAgentStage E]"

definition ConfigureRecipeInfoStages :: "'x stage_env \<Rightarrow> 'x StageConfiguration \<Rightarrow> 'x ScriptedStage list \<Rightarrow> 'x World Stage list" where
  "ConfigureRecipeInfoStages E c scripts =
     info_before E c @ [TargetLockStage E] @ (CollectTargetInfoStage E # map custom scripts) @ [ReleaseTargetLockStage]"

text \<open>Parameters are validated without a target, too; then nothing is locked.\<close>

definition ValidationStages :: "'x stage_env \<Rightarrow> 'x StageConfiguration \<Rightarrow> bool \<Rightarrow> bool \<Rightarrow> 'x ScriptedStage \<Rightarrow> 'x World Stage list" where
  "ValidationStages E c hasTarget includeOptions v =
     (if hasTarget
      then [TargetConnectStage E, TargetArchitectureStage E, WorkloadOptionsStage E c, ConnectingToTargetAgentStage E] @ [TargetLockStage E] @
           (CollectTargetInfoStage E # (if includeOptions then map custom (ParameterOptionsStages c) else []) @
            [CustomRecipeStage ''Validating recipe parameters'' v]) @ [ReleaseTargetLockStage]
      else [CustomRecipeStage ''Validating recipe parameters'' v])"

text \<open>Checking that a recipe is ready.\<close>

definition CheckRecipeReady :: "'x stage_env \<Rightarrow> 'x StageConfiguration \<Rightarrow> 'x World \<Rightarrow> (gerror + ReadyOutput) \<times> 'x World" where
  "CheckRecipeReady E c w =
     (case DriveRecipeExecutionStages wCmd (ConfigureRecipeReadyStages E c)
             \<lparr>FailureError = None, FailureRunResult = [], Events = [], World = w\<rparr> of
        ((result, err), ctx) \<Rightarrow>
          (case err of
             Some e \<Rightarrow> if \<not> isPermittedReadyFailure result then Inl e else Inr (reduceReadyStatus (wReadiness (World ctx)))
           | None \<Rightarrow> Inr (reduceReadyStatus (wReadiness (World ctx))), World ctx))"

text \<open>The tools that every target needs.\<close>

definition DeployMandatoryTools :: "'x stage_env \<Rightarrow> 'x StageConfiguration \<Rightarrow> 'x World \<Rightarrow> (gerror + ReconcileResult) \<times> 'x World" where
  "DeployMandatoryTools E c w =
     (case DriveRecipeExecutionStages wCmd [TargetConnectStage E, TargetArchitectureStage E, ToolDeploymentStage E c ''target'']
             \<lparr>FailureError = None, FailureRunResult = [], Events = [], World = w\<lparr>wBundles := []\<rparr>\<rparr> of
        ((_, err), ctx) \<Rightarrow> (case err of Some e \<Rightarrow> Inl e | None \<Rightarrow> Inr (wDeployed (World ctx) ''target''), World ctx))"

end
