(* ===== verification/StageSafety.thy ===== *)
theory StageSafety
  imports Stages
begin

text \<open>
  What the stages guarantee together: the lock of the target is held while the scripts of a recipe run and
  is released at the end, whatever happened; transfers are flushed only when the manager listens; and a
  recipe is reported to be ready only if no stage failed. The stages are covered by one interface: a
  relation between the worlds before and after that all but a few of them respect.
\<close>

section \<open>Stages respect a relation\<close>

definition keeps :: "('x World \<Rightarrow> 'x World \<Rightarrow> bool) \<Rightarrow> 'x execution \<Rightarrow> bool" where
  "keeps R ex \<longleftrightarrow> (\<forall>w err cleanUp w'. ex w = (err, cleanUp, w') \<longrightarrow> R w w' \<and> (\<forall>g v. cleanUp = Some g \<longrightarrow> R v (g v)))"

definition stage_keeps :: "('x World \<Rightarrow> 'x World \<Rightarrow> bool) \<Rightarrow> 'x World Stage \<Rightarrow> bool" where
  "stage_keeps R s \<longleftrightarrow> (\<forall>failure. keeps R (Execute s failure))"

text \<open>The relation allows everything but changes to the lock, to what was reported, and to the listening manager.\<close>

locale world_frame =
  fixes R :: "'x World \<Rightarrow> 'x World \<Rightarrow> bool"
  assumes R_refl [simp, intro]: "R w w"
    and R_trans [trans]: "R u v \<Longrightarrow> R v w \<Longrightarrow> R u w"
    and R_call [simp]: "R w (w\<lparr>wCmd := cmd, wRest := x\<rparr>)" and R_rest [simp]: "R w (w\<lparr>wRest := x\<rparr>)"
    and R_ready [simp]: "R w (OnReadinessProbed r w)"
    and R_errors [simp]: "R w ((OnReadinessProbed (ConvertMessageToReadyOutput e) w)\<lparr>wSupportError := ''failure_target_platform_unsupported''\<rparr>)"
      "R w ((OnReadinessProbed (ConvertMessageToReadyOutput e) w)\<lparr>wWorkloadError := ''failure_no_shell_available''\<rparr>)"
      "R w (w\<lparr>wWaitError := ''failure_retrieve_output_files''\<rparr>)" "R w (w\<lparr>wWaitError := ''failure_retrieve_output_files_phase1_complete''\<rparr>)"
    and R_platforms [simp]: "R w (w\<lparr>wPlatform := p\<rparr>)" "R w (w\<lparr>wHostPlatform := p\<rparr>)"
    and R_state [simp]: "R w (w\<lparr>wBundles := bs\<rparr>)" "R w (w\<lparr>wProcesses := ps\<rparr>)" "R w (w\<lparr>wProcessesErr := pe\<rparr>)"
      "R w (w\<lparr>wResolved := wl\<rparr>)" "R w (w\<lparr>wSupport := spt\<rparr>)" "R w (w\<lparr>wDeployed := dep\<rparr>)"
begin

lemma call_R: "call f w = (r, w') \<Longrightarrow> R w w'"
  by (auto simp: call_def split: prod.splits)

lemma finish_R: "(\<And>w. R w (f w)) \<Longrightarrow> keeps R (finish f)"
  by (auto simp: keeps_def finish_def)

lemma fail_R: "keeps R (fail_with e)"
  by (auto simp: keeps_def fail_with_def)

lemma after_R: "(\<And>w. R w (f w)) \<Longrightarrow> keeps R g \<Longrightarrow> keeps R (\<lambda>w. g (f w))"
  unfolding keeps_def using R_trans by blast

lemma then_R: "(\<And>r. keeps R (g r)) \<Longrightarrow> keeps R (then_do f g)"
  unfolding keeps_def then_do_def using R_trans call_R by (auto split: prod.splits sum.splits) blast+

lemma branch_R:
  "keeps R a \<Longrightarrow> keeps R b \<Longrightarrow> keeps R (\<lambda>w. if P w then a w else b w)"
  "keeps R a \<Longrightarrow> (\<And>x. keeps R (c x)) \<Longrightarrow> keeps R (\<lambda>w. case f w of None \<Rightarrow> a w | Some x \<Rightarrow> c x w)"
  "(\<And>e. keeps R (d e)) \<Longrightarrow> (\<And>r. keeps R (e' r)) \<Longrightarrow> keeps R (\<lambda>w. case s w of Inl e \<Rightarrow> d e w | Inr r \<Rightarrow> e' r w)"
  unfolding keeps_def by (auto split: option.splits sum.splits)

lemma case_call_R:
  "(\<And>e. keeps R (a e)) \<Longrightarrow> (\<And>r. keeps R (b r)) \<Longrightarrow> keeps R (\<lambda>w. case call f w of (Inl e, w') \<Rightarrow> a e w' | (Inr r, w') \<Rightarrow> b r w')"
  unfolding keeps_def using R_trans call_R by (auto split: prod.splits sum.splits) blast+

lemma dep_R: "(\<And>v. keeps R (g v)) \<Longrightarrow> keeps R (\<lambda>w. g w w)"
  by (simp add: keeps_def)

lemma report_R: "keeps R report_unsupported"
  unfolding report_unsupported_def by (rule after_R [OF R_errors(1) fail_R])

lemma support_R: "keeps R (check_support params b ps)"
  by (auto simp: check_support_def fail_R report_R split: sum.splits intro!: finish_R)

lemma dir_R: "(\<And>d. keeps R (g d)) \<Longrightarrow> keeps R (resolve_dir E dir g)"
  by (auto simp: resolve_dir_def intro: then_R)

lemma shell_R: "(\<And>p. keeps R (g p)) \<Longrightarrow> keeps R (shellify E wl g)"
proof -
  assume g: "\<And>p. keeps R (g p)"
  have "keeps R (\<lambda>w. fail_with e ((OnReadinessProbed (ConvertMessageToReadyOutput e) w)\<lparr>wWorkloadError := ''failure_no_shell_available''\<rparr>))" for e
    by (rule after_R [OF R_errors(2) fail_R])
  then show ?thesis by (auto simp: shellify_def fail_R g split: sum.splits intro!: then_R)
qed

lemma infos_R: "keeps R k \<Longrightarrow> keeps R (bundle_infos E p ts k)"
  by (induction ts) (auto intro: then_R)

lemma reconcile_R: "(\<And>r. keeps R (g r)) \<Longrightarrow> keeps R (reconcile_tools E p ts results g)"
  by (induction ts arbitrary: results) (auto intro: then_R)

lemma close_R: "R w (closeAgentConnectionIfOpen E locality w)"
  using call_R [of _ w] by (metis closeAgentConnectionIfOpen_def prod.collapse)

lemma stage_R:
  "stage_keeps R (TargetConnectStage E)" "stage_keeps R (TargetArchitectureStage E)"
  "stage_keeps R (HostArchitectureStage E)" "stage_keeps R (CollectTargetInfoStage E)" "stage_keeps R (CollectTargetPIDStage E)"
  "stage_keeps R (ValidateTargetPIDStage pid)" "stage_keeps R (RetrieveAgentFilesStage E)"
  unfolding stage_keeps_def TargetConnectStage_def TargetArchitectureStage_def HostArchitectureStage_def
    CollectTargetInfoStage_def CollectTargetPIDStage_def ValidateTargetPIDStage_def RetrieveAgentFilesStage_def
  by (auto intro!: then_R finish_R fail_R branch_R split: sum.splits)

lemma support_stage_R: "stage_keeps R (TargetPlatformSupportStage E c b)"
  unfolding stage_keeps_def TargetPlatformSupportStage_def by (auto intro!: then_R fail_R support_R branch_R)

lemma workload_stage_R: "stage_keeps R (WorkloadOptionsStage E c)"
  unfolding stage_keeps_def WorkloadOptionsStage_def
  by (auto intro!: then_R finish_R dir_R shell_R split: option.splits Workload.splits simp: Let_def)

lemma bundle_stage_R: "stage_keeps R (ToolBundleResolutionStage E c)"
  unfolding stage_keeps_def ToolBundleResolutionStage_def by (auto intro!: then_R fail_R finish_R branch_R)

lemma deploy_stage_R: "stage_keeps R (ToolDeploymentStage E c locality)"
proof -
  have r: "keeps R (\<lambda>w. finish (if f \<and> r = Deployed then closeAgentConnectionIfOpen E locality else id) (w\<lparr>wDeployed := (wDeployed w)(locality := r)\<rparr>))" for r f
    by (rule after_R) (auto intro!: finish_R close_R)
  have body: "keeps R (\<lambda>w. bundle_infos E (p w) (ts w) (reconcile_tools E (p w) (ts w) [] (\<lambda>r w.
      finish (if f \<and> r = Deployed then closeAgentConnectionIfOpen E locality else id) (w\<lparr>wDeployed := (wDeployed w)(locality := r)\<rparr>))) w)" for p ts f
    by (rule dep_R [where g = "\<lambda>v. bundle_infos E (p v) (ts v) (reconcile_tools E (p v) (ts v) [] (\<lambda>r w.
      finish (if f \<and> r = Deployed then closeAgentConnectionIfOpen E locality else id) (w\<lparr>wDeployed := (wDeployed w)(locality := r)\<rparr>)))"])
      (intro infos_R reconcile_R r)
  have first: "R w (if force then closeAgentConnectionIfOpen E locality w else w)" for force w by (simp add: close_R)
  show ?thesis
    unfolding stage_keeps_def ToolDeploymentStage_def Let_def
    using after_R [OF first body] by (auto intro!: branch_R finish_R)
qed

lemma notify_R: "keeps R (\<lambda>w. fail_with e (notifyAgentReadinessFailure e tool advice w))"
  unfolding notifyAgentReadinessFailure_def by (rule after_R [OF R_ready fail_R])

lemma agent_stages_R: "stage_keeps R (ConnectingToTargetAgentStage E)" "stage_keeps R (ConnectingToHostAgentStage E)"
  unfolding stage_keeps_def ConnectingToTargetAgentStage_def ConnectingToHostAgentStage_def
  by (auto intro!: case_call_R branch_R notify_R finish_R)

lemma wait_stage_R: "stage_keeps R (WaitForTransfersStage E)"
proof -
  have "keeps R (flush_result r)" for r
    by (auto simp: flush_result_def split: prod.splits option.splits intro!: finish_R after_R [OF _ fail_R])
  then have "keeps R (flush_transfers E b)" for b unfolding flush_transfers_def by (intro branch_R fail_R then_R)
  then show ?thesis unfolding stage_keeps_def WaitForTransfersStage_def by (auto intro: after_R [OF R_errors(3)])
qed

lemma ready_fold_R: "R w (fold OnReadinessProbed outs w)"
  by (induction outs arbitrary: w) (auto intro: R_trans [OF R_ready])

lemma custom_stage_R: "stage_keeps R (CustomRecipeStage name sc)"
  unfolding stage_keeps_def CustomRecipeStage_def keeps_def
  by (auto split: prod.splits intro: R_trans [OF R_call ready_fold_R])

lemma custom_R: "stage_keeps R (custom sc)"
  by (simp add: custom_def custom_stage_R)

lemmas stages_R = stage_R support_stage_R workload_stage_R bundle_stage_R deploy_stage_R agent_stages_R wait_stage_R custom_stage_R custom_R

lemma plan_parts_R:
  "\<forall>s\<in>set (run_before E c). stage_keeps R s" "\<forall>s\<in>set (run_after E c). stage_keeps R s"
  "\<forall>s\<in>set (run_locked E c). stage_keeps R s \<or> s = StartTransferManagerStage"
  "\<forall>s\<in>set (ready_before E c). stage_keeps R s" "\<forall>s\<in>set (ready_locked E c). stage_keeps R s"
  "\<forall>s\<in>set (info_before E c). stage_keeps R s"
  by (auto simp: run_before_def run_after_def run_locked_def ready_before_def ready_locked_def info_before_def validation_part_def stages_R
      split: option.splits Workload.splits)

end

section \<open>The lock of the target\<close>

definition same_lock :: "'x World \<Rightarrow> 'x World \<Rightarrow> bool" where
  "same_lock w w' \<longleftrightarrow> wLock w' = wLock w \<and> wLockSet w' = wLockSet w"

interpretation lk: world_frame same_lock
  by unfold_locales (auto simp: same_lock_def OnReadinessProbed_def)

lemma start_same_lock: "stage_keeps same_lock StartTransferManagerStage"
  by (auto simp: stage_keeps_def StartTransferManagerStage_def keeps_def finish_def same_lock_def)

text \<open>A list of stages in which one takes the lock, another one releases it, and no other stage touches it.\<close>

locale lock_plan =
  fixes E :: "'x stage_env" and pre mid post :: "'x World Stage list"
  assumes pre: "\<forall>s\<in>set pre. stage_keeps same_lock s" and mid: "\<forall>s\<in>set mid. stage_keeps same_lock s"
    and post: "\<forall>s\<in>set post. stage_keeps same_lock s"
begin

lemma plan_cases:
  assumes "i < length (pre @ [TargetLockStage E] @ mid @ [ReleaseTargetLockStage] @ post)"
    and "Execute ((pre @ [TargetLockStage E] @ mid @ [ReleaseTargetLockStage] @ post) ! i) failure w = (err, cleanUp, w')"
  obtains "i \<noteq> length pre" and "same_lock w w'" and "\<And>g v. cleanUp = Some g \<Longrightarrow> same_lock v (g v)"
  | "i = length pre" and "cleanUp = Some Release" and "wLockSet w'" and "err = None \<Longrightarrow> wLock w'"
  | "i = length pre + 1 + length mid" and "w' = Release w" and "cleanUp = None"
proof -
  let ?ss = "pre @ [TargetLockStage E] @ mid @ [ReleaseTargetLockStage] @ post"
  consider "i = length pre" | "i = length pre + 1 + length mid" | "i \<noteq> length pre" "i \<noteq> length pre + 1 + length mid" by blast
  then show thesis
  proof cases
    case 1
    with assms(2) show thesis
      by (intro that(2)) (auto simp: TargetLockStage_def call_def split: prod.splits sum.splits)
  next
    case 2
    with assms(2) show thesis by (intro that(3)) (auto simp: nth_append ReleaseTargetLockStage_def finish_def)
  next
    case 3
    with assms(1) have "?ss ! i \<in> set pre \<union> set mid \<union> set post"
      by (auto simp: nth_append nth_Cons' intro!: nth_mem)
    then have "stage_keeps same_lock (?ss ! i)" using pre mid post by blast
    with assms(2) 3 show thesis by (intro that(1)) (auto simp: stage_keeps_def keeps_def)
  qed
qed

lemma lock_trace:
  assumes "drive_trace cs (pre @ [TargetLockStage E] @ mid @ [ReleaseTargetLockStage] @ post) w i ts" and "\<not> wLock w"
  shows "(\<forall>g\<in>set (clean_ups ts). g = Release \<or> (\<forall>v. same_lock v (g v))) \<and>
    (wLock (world_after w ts) \<longrightarrow> wLockSet (world_after w ts) \<and> Release \<in> set (clean_ups ts))"
  using assms
proof (induction rule: drive_trace.induct)
  case (Run i ts err cleanUp w')
  note IH = Run.IH [OF Run.prems]
  from plan_cases [OF Run.hyps(3,5)] show ?case
  proof cases
    case 1
    have "wLock w' = wLock (world_after w ts)" "wLockSet w' = wLockSet (world_after w ts)" using 1(2) by (auto simp: same_lock_def)
    with IH 1(3) show ?thesis by (cases cleanUp) auto
  next
    case 2
    with IH show ?thesis by auto
  next
    case 3
    with IH show ?thesis by (auto simp: Release_def split: if_splits)
  qed
qed auto

lemma lock_held:
  assumes "drive_trace cs (pre @ [TargetLockStage E] @ mid @ [ReleaseTargetLockStage] @ post) w i ts"
    and "last_failure (pre @ [TargetLockStage E] @ mid @ [ReleaseTargetLockStage] @ post) ts = None"
    and "length pre < i" and "i \<le> length pre + 1 + length mid"
  shows "wLock (world_after w ts)"
  using assms
proof (induction rule: drive_trace.induct)
  case (Run i ts err cleanUp w')
  then have ok: "err = None" by (auto split: option.splits)
  from plan_cases [OF Run.hyps(3,5)] show ?case
  proof cases
    case 1
    with Run ok show ?thesis by (auto simp: same_lock_def)
  next
    case 2
    with ok show ?thesis by simp
  next
    case 3
    with Run.prems show ?thesis by simp
  qed
qed auto

lemma lock_released:
  assumes "DriveRecipeExecutionStages cs (pre @ [TargetLockStage E] @ mid @ [ReleaseTargetLockStage] @ post) ctx = (res, ctx')"
    and "FailureError ctx = None" and "\<not> wLock (World ctx)"
  shows "\<not> wLock (World ctx')"
proof -
  have fold1: "\<forall>g\<in>set gs. g = Release \<or> (\<forall>v. same_lock v (g v)) \<Longrightarrow> \<not> wLock v \<Longrightarrow> \<not> wLock (fold (\<lambda>f w. f w) gs v)" for gs and v :: "'x World"
    by (induction gs arbitrary: v) (auto simp: same_lock_def Release_def)
  have fold2: "\<forall>g\<in>set gs. g = Release \<or> (\<forall>v. same_lock v (g v)) \<Longrightarrow> Release \<in> set gs \<Longrightarrow> wLockSet v \<Longrightarrow> \<not> wLock (fold (\<lambda>f w. f w) gs v)"
    for gs and v :: "'x World"
  proof (induction gs arbitrary: v)
    case (Cons g gs)
    show ?case
    proof (cases "g = Release")
      case True
      have "\<not> wLock (Release v)" using Cons.prems(3) by (simp add: Release_def)
      with True Cons.prems(1) fold1 [of gs "Release v"] show ?thesis by simp
    next
      case False
      with Cons show ?thesis by (auto simp: same_lock_def)
    qed
  qed simp
  from drive_steps [OF assms(2,1)] obtain i ts where
    t: "drive_trace cs (pre @ [TargetLockStage E] @ mid @ [ReleaseTargetLockStage] @ post) (World ctx) i ts"
    "World ctx' = fold (\<lambda>f w. f w) (clean_ups ts) (world_after (World ctx) ts)" by blast
  from lock_trace [OF t(1) assms(3)] fold1 fold2 t(2) show ?thesis by metis
qed

end

interpretation run_lock: lock_plan E "run_before E c" "run_locked E c" "run_after E c" for E :: "'x stage_env" and c :: "'x StageConfiguration"
  by unfold_locales (use lk.plan_parts_R(1-3) [of E c] start_same_lock in auto)

interpretation ready_lock: lock_plan E "ready_before E c" "ready_locked E c" "[]" for E :: "'x stage_env" and c :: "'x StageConfiguration"
  by unfold_locales (use lk.plan_parts_R(4,5) [of E c] in auto)

interpretation info_lock: lock_plan E "info_before E c" "CollectTargetInfoStage E # map custom scripts" "[]"
  for E :: "'x stage_env" and c :: "'x StageConfiguration" and scripts
  by unfold_locales (use lk.plan_parts_R(6) [of E c] in \<open>auto simp: lk.stages_R\<close>)

interpretation validation_lock: lock_plan E
    "[TargetConnectStage E, TargetArchitectureStage E, WorkloadOptionsStage E c, ConnectingToTargetAgentStage E]"
    "CollectTargetInfoStage E # (if opts then map custom (ParameterOptionsStages c) else []) @ [CustomRecipeStage name v]" "[]"
  for E :: "'x stage_env" and c :: "'x StageConfiguration" and opts name v
  by unfold_locales (auto simp: lk.stages_R)

text \<open>
  C2. The lock of the target is not held after the stages of a run, of a readiness check, of the parameter
  options or of a validation have been driven, whether they succeeded, failed or were cancelled at
  any point, whatever the target, the agent and the scripts did.
\<close>

theorem target_lock_released:
  assumes "ss \<in> {BuildStages E c, ConfigureRecipeReadyStages E c, ConfigureRecipeInfoStages E c scripts, ValidationStages E c True opts v}"
    and "DriveRecipeExecutionStages wCmd ss ctx = (res, ctx')" and "FailureError ctx = None" and "\<not> wLock (World ctx)"
  shows "\<not> wLock (World ctx')"
proof -
  consider "ss = BuildStages E c" | "ss = ConfigureRecipeReadyStages E c" | "ss = ConfigureRecipeInfoStages E c scripts"
    | "ss = ValidationStages E c True opts v" using assms(1) by blast
  then show ?thesis
  proof cases
    case 1
    show ?thesis by (rule run_lock.lock_released [OF assms(2) [unfolded 1 BuildStages_def] assms(3,4)])
  next
    case 2
    show ?thesis using ready_lock.lock_released [OF _ assms(3,4)] assms(2) unfolding 2 ConfigureRecipeReadyStages_def by simp
  next
    case 3
    show ?thesis using info_lock.lock_released [OF _ assms(3,4)] assms(2) unfolding 3 ConfigureRecipeInfoStages_def by simp
  next
    case 4
    show ?thesis using validation_lock.lock_released [OF _ assms(3,4)] assms(2) unfolding 4 ValidationStages_def by simp
  qed
qed


section \<open>The transfer manager listens when the transfers are flushed\<close>

definition keeps_listening :: "'x World \<Rightarrow> 'x World \<Rightarrow> bool" where
  "keeps_listening w w' \<longleftrightarrow> (wListening w \<longrightarrow> wListening w')"

interpretation li: world_frame keeps_listening
  by unfold_locales (auto simp: keeps_listening_def OnReadinessProbed_def)

lemma other_stages_listening:
  "stage_keeps keeps_listening (TargetLockStage E)" "stage_keeps keeps_listening ReleaseTargetLockStage" "stage_keeps keeps_listening StartTransferManagerStage"
  by (auto simp: stage_keeps_def keeps_def keeps_listening_def TargetLockStage_def ReleaseTargetLockStage_def StartTransferManagerStage_def
      Release_def finish_def call_def split: prod.splits sum.splits)

lemma run_keeps_listening: "s \<in> set (BuildStages E c) \<Longrightarrow> stage_keeps keeps_listening s"
  using li.plan_parts_R(1-3) [of E c] other_stages_listening by (auto simp: BuildStages_def)

lemma listens_after_start:
  assumes "drive_trace cs ss w i ts" and "\<forall>s\<in>set ss. stage_keeps keeps_listening s" and "j < i" and "ss ! j = StartTransferManagerStage"
  shows "wListening (world_after w ts)"
  using assms
proof (induction rule: drive_trace.induct)
  case (Skip i ts)
  then have "j \<noteq> i" by (auto simp: StartTransferManagerStage_def)
  with Skip show ?case by simp
next
  case (Run i ts err cleanUp w')
  show ?case
  proof (cases "j = i")
    case True
    with Run show ?thesis by (auto simp: StartTransferManagerStage_def finish_def)
  next
    case False
    then have "wListening (world_after w ts)" using Run by simp
    moreover have "stage_keeps keeps_listening (ss ! i)" using Run.prems(1) Run.hyps(3) by simp
    ultimately show ?thesis using Run.hyps(5) by (auto simp: stage_keeps_def keeps_def keeps_listening_def)
  qed
qed simp

text \<open>The manager listens when the last stage of a run waits for the transfers, also after a failure.\<close>

theorem flush_finds_listener:
  assumes "drive_trace wCmd (BuildStages E c) w (length (BuildStages E c) - 1) ts" and "TransferManagerEnabled c"
  shows "wListening (world_after w ts)"
proof -
  have "StartTransferManagerStage \<in> set (run_before E c @ [TargetLockStage E] @ run_locked E c @ [ReleaseTargetLockStage])"
    using assms(2) by (auto simp: run_locked_def)
  then obtain j where j: "j < length (run_before E c @ [TargetLockStage E] @ run_locked E c @ [ReleaseTargetLockStage])"
      "(run_before E c @ [TargetLockStage E] @ run_locked E c @ [ReleaseTargetLockStage]) ! j = StartTransferManagerStage"
    unfolding in_set_conv_nth by blast
  have b: "BuildStages E c = (run_before E c @ [TargetLockStage E] @ run_locked E c @ [ReleaseTargetLockStage]) @ run_after E c"
    by (simp add: BuildStages_def)
  have "j < length (BuildStages E c) - 1" "BuildStages E c ! j = StartTransferManagerStage"
    using j unfolding b nth_append by (simp_all add: run_after_def)
  then show ?thesis using listens_after_start [OF assms(1) _ _ ] run_keeps_listening by blast
qed

section \<open>A recipe that is ready\<close>

definition reported :: "'x World \<Rightarrow> bool" where
  "reported w \<longleftrightarrow> (\<exists>out\<in>set (wReadiness w). Status out \<noteq> ''ready'')"

definition honest_errors :: "'x World \<Rightarrow> bool" where
  "honest_errors w \<longleftrightarrow>
     (isPermittedReadyFailure (wSupportError w) \<longrightarrow> reported w) \<and> (isPermittedReadyFailure (wWorkloadError w) \<longrightarrow> reported w)"

definition stays_honest :: "'x World \<Rightarrow> 'x World \<Rightarrow> bool" where
  "stays_honest w w' \<longleftrightarrow> (reported w \<longrightarrow> reported w') \<and> (honest_errors w \<longrightarrow> honest_errors w')"

lemma reported_Probed: "reported w \<Longrightarrow> reported (OnReadinessProbed r w)"
  by (auto simp: reported_def OnReadinessProbed_def)

lemma reported_error: "reported (OnReadinessProbed (ConvertMessageToReadyOutput e) w)"
  by (auto simp: reported_def OnReadinessProbed_def ConvertMessageToReadyOutput_def severity_def)

lemma escalate_error: "severity status = Some n \<Longrightarrow> n > 0 \<Longrightarrow> escalate advs status \<noteq> ''ready''"
proof (induction advs arbitrary: status n)
  case (Cons a advs)
  then show ?case by (auto simp: severity_def split: option.splits if_splits)
qed (auto simp: severity_def split: if_splits)

lemma reported_agent: "reported (notifyAgentReadinessFailure e tool advice w)"
  using escalate_error [of "''error''" 2] by (auto simp: reported_def notifyAgentReadinessFailure_def OnReadinessProbed_def severity_def split: option.splits)

lemma reported_updates [simp]:
  "reported (w\<lparr>wSupportError := r\<rparr>) = reported w" "reported (w\<lparr>wWorkloadError := r\<rparr>) = reported w" "reported (w\<lparr>wCmd := cmd, wRest := x\<rparr>) = reported w"
  "reported (w\<lparr>wRest := x\<rparr>) = reported w" "reported (w\<lparr>wLock := b\<rparr>) = reported w" "reported (w\<lparr>wLockSet := b\<rparr>) = reported w"
  by (simp_all add: reported_def)

lemma honest_Probed: "stays_honest w (OnReadinessProbed r w)"
  using reported_Probed [of w r] by (auto simp: stays_honest_def honest_errors_def OnReadinessProbed_def)

interpretation ho: world_frame stays_honest
proof unfold_locales
  show "stays_honest w (OnReadinessProbed r w)" for w :: "'a World" and r by (rule honest_Probed)
  show "stays_honest w ((OnReadinessProbed (ConvertMessageToReadyOutput e) w)\<lparr>wSupportError := ''failure_target_platform_unsupported''\<rparr>)"
    "stays_honest w ((OnReadinessProbed (ConvertMessageToReadyOutput e) w)\<lparr>wWorkloadError := ''failure_no_shell_available''\<rparr>)"
    for w :: "'a World" and e
    using reported_error [of e w] by (simp_all add: stays_honest_def honest_errors_def)
qed (auto simp: stays_honest_def honest_errors_def reported_def)

lemma honest_lock_stages: "stage_keeps stays_honest (TargetLockStage E)" "stage_keeps stays_honest ReleaseTargetLockStage"
  by (auto simp: stage_keeps_def keeps_def TargetLockStage_def ReleaseTargetLockStage_def finish_def call_def Release_def
      stays_honest_def honest_errors_def reported_def split: prod.splits sum.splits)

text \<open>A failure that is permitted has been reported.\<close>

definition honest_stage :: "'x World Stage \<Rightarrow> bool" where
  "honest_stage s \<longleftrightarrow> stage_keeps stays_honest s \<and>
     (\<forall>failure w e cleanUp w'. Execute s failure w = (Some e, cleanUp, w') \<longrightarrow> honest_errors w \<longrightarrow>
        isPermittedReadyFailure (ErrorType s w') \<longrightarrow> reported w')"

lemma honest_by_error: "stage_keeps stays_honest s \<Longrightarrow> (\<And>w. \<not> isPermittedReadyFailure (ErrorType s w)) \<Longrightarrow> honest_stage s"
  by (simp add: honest_stage_def)

lemma honest_after: "stage_keeps stays_honest s \<Longrightarrow> Execute s failure w = (err, cleanUp, w') \<Longrightarrow> stays_honest w w'"
  by (simp add: stage_keeps_def keeps_def)

lemma honest_by_state:
  assumes "stage_keeps stays_honest s" and "ErrorType s = wSupportError \<or> ErrorType s = wWorkloadError"
  shows "honest_stage s"
proof -
  have "reported w'" if "Execute s failure w = (Some e, cleanUp, w')" "honest_errors w" "isPermittedReadyFailure (ErrorType s w')"
    for failure w e cleanUp w'
  proof -
    have "honest_errors w'" using honest_after [OF assms(1) that(1)] that(2) by (simp add: stays_honest_def)
    with assms(2) that(3) show ?thesis by (auto simp: honest_errors_def)
  qed
  with assms(1) show ?thesis unfolding honest_stage_def by blast
qed

lemma honest_agents: "honest_stage (ConnectingToTargetAgentStage E)" "honest_stage (ConnectingToHostAgentStage E)"
  by (auto simp: honest_stage_def ho.stages_R)
    (auto simp: ConnectingToTargetAgentStage_def ConnectingToHostAgentStage_def fail_with_def finish_def reported_agent
      split: prod.splits sum.splits if_splits)

lemma ready_stages_honest: "s \<in> set (ConfigureRecipeReadyStages E c) \<Longrightarrow> honest_stage s"
proof -
  have custom: "honest_stage (CustomRecipeStage name sc)" for name and sc :: "'x ScriptedStage"
    by (rule honest_by_error [OF ho.custom_stage_R]) (simp add: CustomRecipeStage_def isPermittedReadyFailure_def)
  assume "s \<in> set (ConfigureRecipeReadyStages E c)"
  then consider "s = TargetConnectStage E" | "s = TargetArchitectureStage E" | "s = TargetPlatformSupportStage E c True"
    | "s = WorkloadOptionsStage E c" | "s = ToolBundleResolutionStage E c" | "s = HostArchitectureStage E"
    | "s = ConnectingToTargetAgentStage E" | "s = TargetLockStage E" | "s = CollectTargetInfoStage E" | "s = ConnectingToHostAgentStage E"
    | name sc where "s = CustomRecipeStage name sc" | "s = ReleaseTargetLockStage"
    by (auto simp: ConfigureRecipeReadyStages_def ready_before_def ready_locked_def validation_part_def custom_def split: option.splits)
  moreover have "honest_stage (TargetPlatformSupportStage E c True)"
    by (rule honest_by_state [OF ho.support_stage_R]) (simp add: TargetPlatformSupportStage_def)
  moreover have "honest_stage (WorkloadOptionsStage E c)"
    by (rule honest_by_state [OF ho.workload_stage_R]) (simp add: WorkloadOptionsStage_def)
  moreover note [simp] = TargetConnectStage_def TargetArchitectureStage_def ToolBundleResolutionStage_def HostArchitectureStage_def
    CollectTargetInfoStage_def TargetLockStage_def ReleaseTargetLockStage_def isPermittedReadyFailure_def
  have "honest_stage (TargetConnectStage E)" "honest_stage (TargetArchitectureStage E)" "honest_stage (ToolBundleResolutionStage E c)"
    "honest_stage (HostArchitectureStage E)" "honest_stage (CollectTargetInfoStage E)" "honest_stage (TargetLockStage E)"
    "honest_stage ReleaseTargetLockStage"
    by (rule honest_by_error, rule ho.stages_R honest_lock_stages, simp)+
  ultimately show ?thesis using custom honest_agents by metis
qed

lemma severity_ready: "severity s = Some 0 \<longleftrightarrow> s = ''ready''"
  by (auto simp: severity_def)

lemma reduce_loop_ready:
  "Status (reduce_loop outs status n advice) = ''ready'' \<Longrightarrow> severity status = Some n \<Longrightarrow> n = 0 \<and> (\<forall>out\<in>set outs. Status out = ''ready'')"
proof (induction outs arbitrary: status n advice)
  case (Cons out outs)
  then obtain k where k: "severity (Status out) = Some k" by (cases "severity (Status out)") simp_all
  show ?case
  proof (cases "k > n")
    case True
    with Cons.prems(1) k have "Status (reduce_loop outs (Status out) k (advice @ Advice out)) = ''ready''" by simp
    from Cons.IH [OF this k] True show ?thesis by blast
  next
    case False
    with Cons.prems(1) k have "Status (reduce_loop outs status n (advice @ Advice out)) = ''ready''" by simp
    from Cons.IH [OF this Cons.prems(2)] False k severity_ready show ?thesis by auto
  qed
qed (simp add: severity_def)

lemma reduce_ready: "Status (reduceReadyStatus outs) = ''ready'' \<longleftrightarrow> (\<forall>out\<in>set outs. Status out = ''ready'')"
proof
  have "reduce_loop outs ''ready'' 0 advice = \<lparr>Status = ''ready'', Advice = advice @ concat (map Advice outs)\<rparr>"
    if "\<forall>out\<in>set outs. Status out = ''ready''" for advice
    using that by (induction outs arbitrary: advice) (auto simp: severity_def)
  then show "\<forall>out\<in>set outs. Status out = ''ready'' \<Longrightarrow> Status (reduceReadyStatus outs) = ''ready''" by (simp add: reduceReadyStatus_def)
  show "Status (reduceReadyStatus outs) = ''ready'' \<Longrightarrow> \<forall>out\<in>set outs. Status out = ''ready''"
    using reduce_loop_ready [of outs "''ready''" 0 "[]"] by (simp add: reduceReadyStatus_def severity_def)
qed

lemma honest_trace:
  assumes "drive_trace cs ss w i ts" and "\<forall>s\<in>set ss. honest_stage s" and "honest_errors w"
  shows "honest_errors (world_after w ts) \<and> (\<forall>g\<in>set (clean_ups ts). \<forall>v. stays_honest v (g v)) \<and>
    (\<forall>r e. last_failure ss ts = Some (r, e) \<longrightarrow> isPermittedReadyFailure r \<longrightarrow> reported (world_after w ts))"
  using assms
proof (induction rule: drive_trace.induct)
  case (Run i ts err cleanUp w')
  then have IH: "honest_errors (world_after w ts)" "\<forall>g\<in>set (clean_ups ts). \<forall>v. stays_honest v (g v)"
      "\<forall>r e. last_failure ss ts = Some (r, e) \<longrightarrow> isPermittedReadyFailure r \<longrightarrow> reported (world_after w ts)" by auto
  have h: "honest_stage (ss ! i)" using Run by simp
  then have k: "stage_keeps stays_honest (ss ! i)" by (simp add: honest_stage_def)
  have s: "stays_honest (world_after w ts) w'" by (rule honest_after [OF k Run.hyps(5)])
  have "reported w'" if "err = Some e" "isPermittedReadyFailure (ErrorType (ss ! i) w')" for e
    using h Run.hyps(5) IH(1) that unfolding honest_stage_def by blast
  moreover have "\<forall>g. cleanUp = Some g \<longrightarrow> (\<forall>v. stays_honest v (g v))" using k Run.hyps(5) by (auto simp: stage_keeps_def keeps_def)
  ultimately show ?case using IH s by (auto simp: stays_honest_def split: option.splits)
qed auto

lemma cleaned_reported: "\<forall>g\<in>set gs. \<forall>v. stays_honest v (g v) \<Longrightarrow> reported v \<Longrightarrow> reported (fold (\<lambda>f w. f w) gs v)"
  by (induction gs arbitrary: v) (auto simp: stays_honest_def)

lemma cancelled_event: "was_cancelled ts \<Longrightarrow> \<exists>info. OnStageCancelled info \<in> set (concat (map (step_events ss) ts))"
  by (force simp: was_cancelled_def step_events_def)

text \<open>
  C3. A recipe is reported to be ready only if it is: if the answer of the check is ready, then no probe
  of a script or of a stage reported anything else, and all stages of the check succeeded, except
  that the check may have been cancelled. A failure that the check turns into an answer has always been
  reported by the stage that failed.
\<close>

theorem ready_means_success:
  assumes "DriveRecipeExecutionStages wCmd (ConfigureRecipeReadyStages E c)
      \<lparr>FailureError = None, FailureRunResult = [], Events = [], World = w\<rparr> = ((res, err), ctx)"
    and "CheckRecipeReady E c w = (Inr out, w')" and "Status out = ''ready''"
    and "\<not> isPermittedReadyFailure (wSupportError w)" and "\<not> isPermittedReadyFailure (wWorkloadError w)"
  shows "(\<forall>r\<in>set (wReadiness (World ctx)). Status r = ''ready'') \<and>
    ((res, err) = (''success'', None) \<or> (\<exists>info. OnStageCancelled info \<in> set (Events ctx)))"
proof -
  let ?ss = "ConfigureRecipeReadyStages E c"
  have out: "out = reduceReadyStatus (wReadiness (World ctx))" "err = None \<or> isPermittedReadyFailure res"
    using assms(1,2) by (auto simp: CheckRecipeReady_def split: option.splits if_splits)
  have nr: "\<forall>r\<in>set (wReadiness (World ctx)). Status r = ''ready''" using assms(3) out(1) reduce_ready by metis
  then have u: "\<not> reported (World ctx)" by (simp add: reported_def)
  from drive_steps [OF _ assms(1)] obtain i ts where t: "drive_trace wCmd ?ss w i ts"
    "Events ctx = concat (map (step_events ?ss) ts)" "(res, err) = drive_result wCmd ?ss ts"
    "World ctx = fold (\<lambda>f w. f w) (clean_ups ts) (world_after w ts)" by auto
  have hw: "honest_errors w" using assms(4,5) by (simp add: honest_errors_def)
  note h = honest_trace [OF t(1) _ hw]
  have hs: "\<forall>s\<in>set ?ss. honest_stage s" using ready_stages_honest by blast
  have "(res, err) = (''success'', None)" if n: "\<not> was_cancelled ts"
  proof (cases "last_failure ?ss ts")
    case None
    with n t(3) show ?thesis by (simp add: drive_result_def)
  next
    case (Some f)
    then obtain r e where f: "last_failure ?ss ts = Some (r, e)" by (cases f) auto
    with n t(3) have "res = r" "err = Some e" by (auto simp: drive_result_def)
    with out(2) f h [OF hs] have "reported (world_after w ts)" by auto
    with cleaned_reported [of "clean_ups ts"] h [OF hs] have "reported (World ctx)" unfolding t(4) by blast
    with u show ?thesis by blast
  qed
  then have "(res, err) = (''success'', None) \<or> (\<exists>info. OnStageCancelled info \<in> set (Events ctx))"
    unfolding t(2) using cancelled_event [of ts ?ss] by blast
  with nr show ?thesis by blast
qed

section \<open>A failure is not called success\<close>

text \<open>Three stages keep the type of their error in their state, which other stages do not touch.\<close>

definition errors_named :: "'x World \<Rightarrow> bool" where
  "errors_named w \<longleftrightarrow> ''success'' \<notin> {wSupportError w, wWorkloadError w, wWaitError w}"

definition stays_named :: "'x World \<Rightarrow> 'x World \<Rightarrow> bool" where
  "stays_named w w' \<longleftrightarrow> (errors_named w \<longrightarrow> errors_named w')"

interpretation nm: world_frame stays_named
  by unfold_locales (auto simp: stays_named_def errors_named_def OnReadinessProbed_def)

lemma other_stages_named:
  "stage_keeps stays_named (TargetLockStage E)" "stage_keeps stays_named ReleaseTargetLockStage" "stage_keeps stays_named StartTransferManagerStage"
  by (auto simp: stage_keeps_def keeps_def stays_named_def errors_named_def TargetLockStage_def ReleaseTargetLockStage_def
      StartTransferManagerStage_def Release_def finish_def call_def split: prod.splits sum.splits)

lemma run_keeps_named: "s \<in> set (BuildStages E c) \<Longrightarrow> stage_keeps stays_named s"
  using nm.plan_parts_R(1-3) [of E c] other_stages_named by (auto simp: BuildStages_def)

lemma run_error_named: "s \<in> set (BuildStages E c) \<Longrightarrow> errors_named w \<Longrightarrow> ErrorType s w \<noteq> ''success''"
  by (auto simp: BuildStages_def run_before_def run_locked_def run_after_def validation_part_def custom_def errors_named_def
      TargetConnectStage_def TargetArchitectureStage_def TargetPlatformSupportStage_def WorkloadOptionsStage_def ToolBundleResolutionStage_def
      ToolDeploymentStage_def HostArchitectureStage_def ConnectingToTargetAgentStage_def TargetLockStage_def CollectTargetInfoStage_def
      CollectTargetPIDStage_def ValidateTargetPIDStage_def StartTransferManagerStage_def CustomRecipeStage_def ReleaseTargetLockStage_def
      WaitForTransfersStage_def RetrieveAgentFilesStage_def split: option.splits Workload.splits if_splits)

section \<open>Examples\<close>

text \<open>A target on which everything works, and a recipe with one script for the run and one for the check.\<close>

definition works :: "'r \<Rightarrow> ('x, 'r) ext" where
  "works r = (\<lambda>(cmd, x). (Inr r, cmd, x))"

definition demo_arm :: PlatformConfiguration where
  "demo_arm = \<lparr>Architecture = ''arm64'', OS = ''linux''\<rparr>"

definition demo_env :: "'x stage_env" where
  "demo_env =
     \<lparr>eConnect = works (), ePlatform = works demo_arm, eFindTools = works (), eResolver = (\<lambda>_ _. Inr []), eFmt = (\<lambda>_. []),
      eHomeDir = works ''/root'', eShellify = (\<lambda>cmd. works (Inr (cmd, [cmd]))), eUpdateWorkingDir = (\<lambda>_. works ()),
      eHostConnect = works demo_arm, eBundleInfo = (\<lambda>_ _. works ()), eReconcile = (\<lambda>_ _. works NoAction),
      eCloseAgent = (\<lambda>_. works ()), eTargetAgent = works (), eHostAgent = works (), eHostAdvice = (\<lambda>_. []),
      eHoldLock = works (), eTargetInfo = works (), eListProcesses = works (Inr []), eStorePids = (\<lambda>_. works ()),
      eFlush = (\<lambda>_. works (True, None)), eRetrieve = (\<lambda>_. works ()), agentTool = \<lparr>tiName = ''agent'', tiVersion = ''1''\<rparr>\<rparr>"

definition demo_script :: "ReadyOutput list \<Rightarrow> 'x ScriptedStage" where
  "demo_script outs = \<lparr>scName = ''script'', scExecute = (\<lambda>(cmd, x). ((None, outs, Some id), cmd, x))\<rparr>"

definition demo_config :: "'x StageConfiguration" where
  "demo_config =
     \<lparr>OrigWorkload = Some WorkloadSystemWide, HasRun = True, DeployMode = ToolDeployNONE, TransferManagerEnabled = True,
      RecipeDeployments = [], ParamValues = demo_off, ParameterOptionsStages = [], ParameterValidationStage = None,
      RunStages = [demo_script []], ReadyStages = [demo_script [\<lparr>Status = ''ready'', Advice = []\<rparr>]]\<rparr>"

definition demo_world :: "unit World" where
  "demo_world =
     \<lparr>wCmd = \<lparr>RecipeCommand = 0, cancelErr = None\<rparr>, wReadiness = [], wLockSet = False, wLock = False,
      wSupportError = ''failure_identify_target_architecture'', wWorkloadError = ''failure_workload_options'', wWaitError = [],
      wPlatform = \<lparr>Architecture = [], OS = []\<rparr>, wHostPlatform = \<lparr>Architecture = [], OS = []\<rparr>, wBundles = [], wProcesses = None,
      wProcessesErr = None, wListening = False, wResolved = None, wSupport = None, wDeployed = (\<lambda>_. NoAction), wRest = ()\<rparr>"

definition demo_ctx :: "unit World StageContext" where
  "demo_ctx = \<lparr>FailureError = None, FailureRunResult = [], Events = [], World = demo_world\<rparr>"

text \<open>The script of the run fails, and so does flushing the transfers.\<close>

definition demo_broken :: "'x StageConfiguration" where
  "demo_broken = demo_config\<lparr>RunStages := [(demo_script [])\<lparr>scExecute := (\<lambda>(cmd, x). ((Some ''TypeError'', [], None), cmd, x))\<rparr>]\<rparr>"

theorem target_lock_released_witness:
  "fst (fst (DriveRecipeExecutionStages wCmd (BuildStages demo_env demo_broken) demo_ctx)) = ''failure_recipe_stage'' \<and>
   \<not> wLock (World (snd (DriveRecipeExecutionStages wCmd (BuildStages demo_env demo_broken) demo_ctx)))"
proof -
  let ?d = "DriveRecipeExecutionStages wCmd (BuildStages demo_env demo_broken) demo_ctx"
  have 1: "fst (fst ?d) = ''failure_recipe_stage''" by code_simp
  have 2: "?d = (fst ?d, snd ?d)" and 3: "FailureError demo_ctx = None" and 4: "\<not> wLock (World demo_ctx)"
    by (simp_all add: demo_ctx_def demo_world_def)
  show ?thesis using target_lock_released [OF insertI1 2 3 4] 1 by blast
qed


theorem ready_means_success_witness:
  "Status (projr (fst (CheckRecipeReady demo_env demo_config demo_world))) = ''ready'' \<and>
   (fst (DriveRecipeExecutionStages wCmd (ConfigureRecipeReadyStages demo_env demo_config) demo_ctx) = (''success'', None) \<or>
    (\<exists>info. OnStageCancelled info \<in> set (Events (snd (DriveRecipeExecutionStages wCmd (ConfigureRecipeReadyStages demo_env demo_config) demo_ctx)))))"
proof -
  let ?d = "DriveRecipeExecutionStages wCmd (ConfigureRecipeReadyStages demo_env demo_config) demo_ctx"
  have 1: "DriveRecipeExecutionStages wCmd (ConfigureRecipeReadyStages demo_env demo_config)
      \<lparr>FailureError = None, FailureRunResult = [], Events = [], World = demo_world\<rparr> = ((fst (fst ?d), snd (fst ?d)), snd ?d)"
    by (simp add: demo_ctx_def)
  have i: "isl (fst (CheckRecipeReady demo_env demo_config demo_world)) = False" by code_simp
  then have 2: "CheckRecipeReady demo_env demo_config demo_world =
      (Inr (projr (fst (CheckRecipeReady demo_env demo_config demo_world))), snd (CheckRecipeReady demo_env demo_config demo_world))"
    by (metis prod.collapse sum.collapse(2))
  have 3: "Status (projr (fst (CheckRecipeReady demo_env demo_config demo_world))) = ''ready''" by code_simp
  have 4: "\<not> isPermittedReadyFailure (wSupportError demo_world)" and 5: "\<not> isPermittedReadyFailure (wWorkloadError demo_world)"
    by (simp_all add: demo_world_def isPermittedReadyFailure_def)
  show ?thesis using ready_means_success [OF 1 2 3 4 5] 3 by simp
qed

text \<open>
  Where the answer goes wrong: the connection to the agent is lost while it is still being connected. The
  check is cancelled with a failure of that stage, which is one that the check answers; nothing was
  reported, so the recipe is ready.
\<close>

definition demo_lost :: "unit stage_env" where
  "demo_lost = demo_env\<lparr>eTargetAgent := (\<lambda>(cmd, x). (Inr (), \<lparr>RecipeCommand = CommandCancel, cancelErr = Some ''tether lost''\<rparr>, x))\<rparr>"

lemma ready_although_agent_lost:
  "fst (DriveRecipeExecutionStages wCmd (ConfigureRecipeReadyStages demo_lost demo_config) demo_ctx) =
     (''failure_connect_to_agent'', Some ''tether lost'') \<and>
   fst (CheckRecipeReady demo_lost demo_config demo_world) = Inr \<lparr>Status = ''ready'', Advice = []\<rparr>"
proof
  show "fst (DriveRecipeExecutionStages wCmd (ConfigureRecipeReadyStages demo_lost demo_config) demo_ctx) =
     (''failure_connect_to_agent'', Some ''tether lost'')" by code_simp
  show "fst (CheckRecipeReady demo_lost demo_config demo_world) = Inr \<lparr>Status = ''ready'', Advice = []\<rparr>" by code_simp
qed

end
