(* ===== verification/RecipeRun.thy ===== *)
theory RecipeRun
  imports StageSafety Archive
begin

text \<open>
  Running a recipe: the run is created and leased (core/apap-engine/recipe/collector.go, ctx.go and
  source.go), its command state is registered, its logs are opened, the stages are driven, and the end
  and the result are recorded (recipe/runtime/run.go and runlog.go, run/user\_message\_writer.go). What
  the stages do is arbitrary; the file system, the command states and the leases are part of
  their world.
\<close>

section \<open>The recipe and its run\<close>

record RecipeMetadata =
  rmName :: string
  rmVersion :: string
  rmAPIVersion :: string

text \<open>The target is represented by its JSON text; \<open>None\<close> is a target that cannot be encoded.\<close>

record RecipeCtx =
  RecipePath :: string
  rcWorkload :: "Workload option"
  rcTargetName :: string
  rcTargetConfig :: "string option"
  rcParamValues :: BoundParameters
  rcTimeout :: int
  ToolInvocationCounts :: "string \<Rightarrow> int"
  SourceCodePaths :: "string list"
  rcMetadata :: RecipeMetadata

definition GetAndIncrementToolInvocationCount :: "string \<Rightarrow> RecipeCtx \<Rightarrow> int \<times> RecipeCtx" where
  "GetAndIncrementToolInvocationCount toolName r =
     (let oldCount = ToolInvocationCounts r toolName
      in (oldCount, r\<lparr>ToolInvocationCounts := (ToolInvocationCounts r)(toolName := oldCount + 1)\<rparr>))"

definition GetNextOutputEntity :: "string \<Rightarrow> RecipeCtx \<Rightarrow> Entity \<times> RecipeCtx" where
  "GetNextOutputEntity toolName r =
     (case GetAndIncrementToolInvocationCount toolName r of (count, r') \<Rightarrow>
        (Entity (''tool/'' @ toolName @ ''/'' @ Itoa count), r'))"

text \<open>The version of the engine and how values are encoded are arguments.\<close>

record encoders =
  engineVersion :: string
  encodeParams :: "inputs \<Rightarrow> string"
  encodeEnv :: "(string \<times> string) list option \<Rightarrow> string"
  encodeVersion :: "string \<Rightarrow> string"

definition encode_bool :: "bool \<Rightarrow> string" where
  "encode_bool b = (if b then ''true'' else ''false'')"

definition workload_metadata :: "encoders \<Rightarrow> Workload option \<Rightarrow> Metadata \<Rightarrow> Metadata" where
  "workload_metadata M wl md =
     (case wl of
        None \<Rightarrow> md
      | Some (WorkloadLaunch raw cmd env dir sh) \<Rightarrow>
          md\<lparr>WorkloadType := ''Launch'', Cmdline := raw, mdEnv := encodeEnv M (Some env), Metadata.WorkingDir := [],
             Metadata.UseShell := encode_bool sh, Pid := - 2\<rparr>
      | Some (WorkloadAndroidLaunch package activity) \<Rightarrow>
          md\<lparr>WorkloadType := ''Android Launch'', AndroidPackageName := package, AndroidActivityName := activity, Cmdline := [],
             mdEnv := encodeEnv M None, Metadata.WorkingDir := [], Metadata.UseShell := encode_bool False, Pid := - 2\<rparr>
      | Some (WorkloadAttach pid) \<Rightarrow>
          md\<lparr>WorkloadType := ''Attach'', Cmdline := [], mdEnv := encodeEnv M None, Metadata.WorkingDir := [],
             Metadata.UseShell := encode_bool False, Pid := pid\<rparr>
      | Some WorkloadSystemWide \<Rightarrow>
          md\<lparr>WorkloadType := ''System Wide'', Cmdline := [], mdEnv := encodeEnv M None, Metadata.WorkingDir := [],
             Metadata.UseShell := encode_bool False, Pid := - 1\<rparr>)"

definition CreateMetadata :: "encoders \<Rightarrow> run_env \<Rightarrow> RecipeCtx \<Rightarrow> RunBuilder \<Rightarrow> (Metadata \<times> RunBuilder) option" where
  "CreateMetadata M E r b =
     (case rcTargetConfig r of
        None \<Rightarrow> None
      | Some tgt \<Rightarrow>
          Some (workload_metadata M (rcWorkload r)
            (zero_metadata\<lparr>EngineVersion := engineVersion M, mdName := GenerateRunName b (rmName (rcMetadata r)), StartTime := now E,
               EndTime := InvalidTime, RecipeName := rmName (rcMetadata r), Timeout := rcTimeout r,
               Metadata.Parameters := encodeParams M (CollapseToMap (rcParamValues r)), mdRunResult := RecipeInProgress,
               Metadata.TargetName := rcTargetName r, TargetConfig := tgt\<rparr>),
            addComponent b \<lparr>ctName = ''metadata'', SchemaVersion = ''1.0.0''\<rparr> ''metadata.json'' False))"

section \<open>Files of a run\<close>

definition component_path :: "RunBuilder \<Rightarrow> string \<Rightarrow> string" where
  "component_path b p = PathJoin (rbRunPath b) (NormalizePath p)"

text \<open>\<open>os.OpenFile\<close> for writing, which creates the file if it is missing.\<close>

definition open_file :: "run_env \<Rightarrow> fs \<Rightarrow> string \<Rightarrow> bool \<times> fs" where
  "open_file E f p =
     (if \<not> writable f p \<or> writeFault E p = OpenFault then (False, f)
      else (True, if node_at f p = None then put p (FileNode (BytesFile [])) f else f))"

definition CopyFile :: "run_env \<Rightarrow> fs \<Rightarrow> string \<Rightarrow> string \<Rightarrow> bool \<times> fs" where
  "CopyFile E f src dst =
     (if node_at f dst \<noteq> None \<or> \<not> writable f dst \<or> writeFault E dst = OpenFault then (False, f)
      else case node_at f src of
             Some (FileNode x) \<Rightarrow>
               (case writeFault E dst of
                  Torn bytes \<Rightarrow> (False, put dst (FileNode (BytesFile bytes)) f)
                | _ \<Rightarrow> (True, put dst (FileNode x) f))
           | _ \<Rightarrow> (False, put dst (FileNode (BytesFile [])) f))"

definition RecipeSourceRelativePath :: string where
  "RecipeSourceRelativePath = ''recipe/source/recipe.js''"

definition RecipeVersionRelativePath :: string where
  "RecipeVersionRelativePath = ''recipe/version.json''"

definition preserveRecipeInRun :: "encoders \<Rightarrow> run_env \<Rightarrow> string \<Rightarrow> RecipeMetadata \<Rightarrow> RunBuilder \<Rightarrow> fs \<Rightarrow> bool \<times> RunBuilder \<times> fs" where
  "preserveRecipeInRun M E recipePath recipe b f =
     (let b1 = addComponent b \<lparr>ctName = ''recipe'', SchemaVersion = rmAPIVersion recipe\<rparr> RecipeSourceRelativePath False;
          recipeRunPath = component_path b RecipeSourceRelativePath
      in case MkdirAll E f (path_Dir recipeRunPath) of (ok, f1) \<Rightarrow>
        if \<not> ok then (False, b1, f1)
        else case CopyFile E f1 recipePath recipeRunPath of (ok, f2) \<Rightarrow>
          if \<not> ok then (False, b1, f2)
          else
            let b2 = addComponent b1 \<lparr>ctName = ''version'', SchemaVersion = ''1.0.0''\<rparr> RecipeVersionRelativePath False
            in case WriteJSONFile E f2 (component_path b1 RecipeVersionRelativePath) (BytesFile (encodeVersion M (rmVersion recipe))) of (ok, f3) \<Rightarrow>
                 (ok, b2, f3))"

definition CategorizationCT :: ComponentType where
  "CategorizationCT = \<lparr>ctName = ''categorization'', SchemaVersion = ''1.0.0''\<rparr>"

definition SourceCodeCT :: ComponentType where
  "SourceCodeCT = \<lparr>ctName = ''source-code'', SchemaVersion = ''1.0''\<rparr>"

section \<open>Creating the run\<close>

text \<open>What the stages and the operations on the run work on. The leases are those that this process holds.\<close>

record 'x RunState =
  rsFs :: fs
  rsBus :: commandStateMap
  rsLeases :: "string list"
  rsBuilder :: RunBuilder
  rsCollectionPaths :: "string list"
  rsRest :: 'x

record CollectorOutputs =
  coName :: string
  coOutputs :: "(string \<times> ComponentType) list"

datatype recipe_error =
  RunErr run_error
| MetadataErr
| CategorizationErr
| PreserveErr
| SourcePathsErr
| LogErr
| MessagesErr
| StageErr gerror
| CommandErr command_error

definition NewRunBuilder :: "run_env \<Rightarrow> RunCollection \<Rightarrow> fs \<Rightarrow> string list \<Rightarrow> run_error + RunBuilder" where
  "NewRunBuilder E c f uuids =
     (case getNextRunID E c f uuids of
        Inl e \<Rightarrow> Inl e
      | Inr newRunID \<Rightarrow>
          Inr \<lparr>rbRunID = newRunID, rbBasePath = primaryPath c, rbRunPath = GetRunPath E c f newRunID, rbEntities = [],
               rbComponents = [], rbToolsUsed = []\<rparr>)"

fun ConfigureCollectorRunBuilder :: "string \<Rightarrow> (string \<times> ComponentType) list \<Rightarrow> RunBuilder \<Rightarrow> string list \<Rightarrow> RunBuilder \<times> string list" where
  "ConfigureCollectorRunBuilder name [] b paths = (b, paths)"
| "ConfigureCollectorRunBuilder name ((filename, ct) # outs) b paths =
     (let p = PathJoin (PathJoin ''collector'' name) filename
      in ConfigureCollectorRunBuilder name outs (addComponent b ct p False) (paths @ [component_path b p]))"

definition CreateInitialHostSourceCodePath :: "run_env \<Rightarrow> string list \<Rightarrow> RunBuilder \<Rightarrow> fs \<Rightarrow> bool \<times> RunBuilder \<times> fs" where
  "CreateInitialHostSourceCodePath E paths b f =
     (case WriteJSONFile E f (component_path b ''source-code.json'') (SourcePathsFile paths) of (ok, f') \<Rightarrow>
        (ok, addComponent b SourceCodeCT ''source-code.json'' False, f'))"

text \<open>The files that are written into the new run. Their components are in the manifest only when it is written again.\<close>

definition initial_files :: "encoders \<Rightarrow> run_env \<Rightarrow> RecipeCtx \<Rightarrow> RunBuilder \<Rightarrow> fs \<Rightarrow> recipe_error option \<times> RunBuilder \<times> fs" where
  "initial_files M E r b f =
     (case WriteJSONFile E f (component_path b ''categorization.json'') (CategorizationFile \<lparr>Group = [], Tags = []\<rparr>) of (ok, f1) \<Rightarrow>
        if \<not> ok then (Some CategorizationErr, b, f1)
        else case preserveRecipeInRun M E (RecipePath r) (rcMetadata r) b f1 of (ok, b2, f2) \<Rightarrow>
          if \<not> ok then (Some PreserveErr, b2, f2)
          else case CreateInitialHostSourceCodePath E (SourceCodePaths r) b2 f2 of (ok, b3, f3) \<Rightarrow>
            (if ok then None else Some SourcePathsErr, b3, f3))"

text \<open>The lease is kept only if everything succeeds.\<close>

definition CollectionState_CreateRun ::
  "encoders \<Rightarrow> run_env \<Rightarrow> RunCollection \<Rightarrow> string list \<Rightarrow> RecipeCtx \<Rightarrow> CollectorOutputs \<Rightarrow> 'x RunState \<Rightarrow> (recipe_error + string) \<times> 'x RunState" where
  "CollectionState_CreateRun M E c uuids r outs s =
     (case NewRunBuilder E c (rsFs s) uuids of
        Inl e \<Rightarrow> (Inl (RunErr e), s)
      | Inr b \<Rightarrow>
        (case CreateMetadata M E r b of
           None \<Rightarrow> (Inl MetadataErr, s\<lparr>rsBuilder := b\<rparr>)
         | Some (metadata, b1) \<Rightarrow>
           (case ConfigureCollectorRunBuilder (coName outs) (coOutputs outs)
                   (addComponent b1 CategorizationCT ''categorization.json'' False) (rsCollectionPaths s) of (b2, paths) \<Rightarrow>
              let s1 = s\<lparr>rsBuilder := b2, rsCollectionPaths := paths\<rparr> in
              case LeaseRun E c (rsFs s) (rbRunID b2) of
                (Some e, f1) \<Rightarrow> (Inl (RunErr e), s1\<lparr>rsFs := f1\<rparr>)
              | (None, f1) \<Rightarrow>
                (case CreateRun E c f1 b2 metadata of
                   (Inl e, f2) \<Rightarrow> (Inl (RunErr e), s1\<lparr>rsFs := f2\<rparr>)
                 | (Inr newRunID, f2) \<Rightarrow>
                   (case initial_files M E r b2 f2 of
                      (Some e, b3, f3) \<Rightarrow> (Inl e, s1\<lparr>rsFs := f3, rsBuilder := b3\<rparr>)
                    | (None, b3, f3) \<Rightarrow>
                        (Inr newRunID, s1\<lparr>rsFs := f3, rsBuilder := b3, rsLeases := newRunID # rsLeases s\<rparr>))))))"

section \<open>Running the recipe\<close>

text \<open>
  A component is stored through the updater of the manifest, which keeps the builder only if the manifest
  was written; then the directories are created.
\<close>

definition StoreComponent :: "run_env \<Rightarrow> RunCollection \<Rightarrow> string \<Rightarrow> ComponentType \<Rightarrow> 'x RunState \<Rightarrow> string option \<times> 'x RunState" where
  "StoreComponent E c p ct s =
     (let updatedBuilder = addComponent (rsBuilder s) ct p False in
      case writeManifest E c (rsFs s) (rbRunID updatedBuilder) (buildManifest updatedBuilder) of (ok, f1) \<Rightarrow>
        if \<not> ok then (None, s\<lparr>rsFs := f1\<rparr>)
        else case CreateEntityDirs E c f1 updatedBuilder of (ok, f2) \<Rightarrow>
          (if ok then Some (component_path (rsBuilder s) p) else None, s\<lparr>rsFs := f2, rsBuilder := updatedBuilder\<rparr>))"

definition LogJSON_CT :: ComponentType where
  "LogJSON_CT = \<lparr>ctName = ''log-json'', SchemaVersion = ''0.1''\<rparr>"

definition open_component :: "run_env \<Rightarrow> RunCollection \<Rightarrow> string \<Rightarrow> recipe_error \<Rightarrow> 'x RunState \<Rightarrow> recipe_error option \<times> 'x RunState" where
  "open_component E c p err s =
     (case StoreComponent E c p LogJSON_CT s of
        (None, s1) \<Rightarrow> (Some err, s1)
      | (Some path, s1) \<Rightarrow>
          (case open_file E (rsFs s1) path of (ok, f) \<Rightarrow> (if ok then None else Some err, s1\<lparr>rsFs := f\<rparr>)))"

definition beginRunLogging :: "run_env \<Rightarrow> RunCollection \<Rightarrow> 'x RunState \<Rightarrow> recipe_error option \<times> 'x RunState" where
  "beginRunLogging E c = open_component E c ''log.json'' LogErr"

definition UserMessageWriter_Open :: "run_env \<Rightarrow> RunCollection \<Rightarrow> 'x RunState \<Rightarrow> recipe_error option \<times> 'x RunState" where
  "UserMessageWriter_Open E c = open_component E c (PathJoin ''user_messages'' ''user_messages.json'') MessagesErr"

text \<open>From the creation of the command state to the end of the stages, or to the error that came before.\<close>

definition drive_run ::
  "run_env \<Rightarrow> RunCollection \<Rightarrow> 'x RunState Stage list \<Rightarrow> string \<Rightarrow> 'x RunState \<Rightarrow> (recipe_error + RunResult \<times> gerror option) \<times> 'x RunState" where
  "drive_run E c ss newRunID s =
     (case CreateCommandState newRunID (rsBus s) of (cmd, bus) \<Rightarrow>
        case beginRunLogging E c (s\<lparr>rsBus := bus\<rparr>) of
          (Some e, s1) \<Rightarrow> (Inl e, s1)
        | (None, s1) \<Rightarrow>
          (case UserMessageWriter_Open E c s1 of
             (Some e, s2) \<Rightarrow> (Inl e, s2)
           | (None, s2) \<Rightarrow>
             (case DriveRecipeExecutionStages (\<lambda>s. store (rsBus s) cmd) ss
                     \<lparr>FailureError = None, FailureRunResult = [], Events = [], World = s2\<rparr> of
                (res, ctx) \<Rightarrow> (Inr res, World ctx))))"

definition error_of :: "(run_error + 'a) \<Rightarrow> recipe_error list" where
  "error_of r = (case r of Inl e \<Rightarrow> [RunErr e] | Inr _ \<Rightarrow> [])"

text \<open>The two updates of the metadata are separate writes: each has its own environment.\<close>

definition record_result ::
  "run_env \<Rightarrow> run_env \<Rightarrow> RunCollection \<Rightarrow> (recipe_error list \<Rightarrow> string) \<Rightarrow> string \<Rightarrow> RunResult \<Rightarrow> gerror option \<Rightarrow> 'x RunState \<Rightarrow>
     recipe_error list \<times> 'x RunState" where
  "record_result E1 E2 c human newRunID runResult err s =
     (let errs = (case err of None \<Rightarrow> [] | Some e \<Rightarrow> [StageErr e]) in
      case SetRunEndTime E1 c (rsFs s) newRunID of (r1, f1) \<Rightarrow>
        let errs1 = errs @ error_of r1 in
        case UpdateRunResult E2 c f1 newRunID runResult (if errs1 = [] then None else Some (human errs1)) of (r2, f2) \<Rightarrow>
          (errs1 @ error_of r2, s\<lparr>rsFs := f2\<rparr>))"

text \<open>
  The deferred functions: the command state and the lease are given up, then the size is recorded, which
  is a third write of the metadata. Its error is only logged.
\<close>

definition end_run :: "run_env \<Rightarrow> RunCollection \<Rightarrow> string \<Rightarrow> recipe_error list \<times> 'x RunState \<Rightarrow> recipe_error list \<times> 'x RunState" where
  "end_run E c newRunID res =
     (case res of (errs, s) \<Rightarrow>
        (case Remove newRunID (rsBus s) of Inl e \<Rightarrow> errs @ [CommandErr e] | Inr _ \<Rightarrow> errs,
         s\<lparr>rsBus := (case Remove newRunID (rsBus s) of Inl e \<Rightarrow> rsBus s | Inr bus \<Rightarrow> bus),
           rsLeases := removeAll newRunID (rsLeases s), rsFs := snd (PersistRunSize E c (rsFs s) newRunID)\<rparr>))"

text \<open>
  The environment may change in between: \<open>E\<close> is that of the run until its stages end, \<open>E1\<close> and \<open>E2\<close> those of the
  two updates at its end, and \<open>E3\<close> that of the deferred functions.
\<close>

definition RunRecipe ::
  "encoders \<Rightarrow> run_env \<Rightarrow> run_env \<Rightarrow> run_env \<Rightarrow> run_env \<Rightarrow> (recipe_error list \<Rightarrow> string) \<Rightarrow> RunCollection \<Rightarrow> string list \<Rightarrow> RecipeCtx \<Rightarrow>
     CollectorOutputs \<Rightarrow> 'x RunState Stage list \<Rightarrow> 'x RunState \<Rightarrow> recipe_error list \<times> 'x RunState" where
  "RunRecipe M E E1 E2 E3 human c uuids r outs ss s =
     (case CollectionState_CreateRun M E c uuids r outs s of
        (Inl e, s1) \<Rightarrow> ([e], s1)
      | (Inr newRunID, s1) \<Rightarrow>
          end_run E3 c newRunID
            (case drive_run E c ss newRunID s1 of
               (Inl e, s2) \<Rightarrow> ([e], s2)
             | (Inr (runResult, err), s2) \<Rightarrow> record_result E1 E2 c human newRunID runResult err s2))"

section \<open>What is recorded\<close>

text \<open>The metadata file of a run holds metadata that the engine wrote.\<close>

definition metadata_file :: "run_env \<Rightarrow> RunCollection \<Rightarrow> fs \<Rightarrow> string \<Rightarrow> Metadata \<Rightarrow> bool" where
  "metadata_file E c f run md \<longleftrightarrow>
     \<not> statErr E (getMetadataPath E c f run) \<and> node_at f (getMetadataPath E c f run) = Some (FileNode (MetadataFile md))"

definition torn_metadata :: "run_env \<Rightarrow> RunCollection \<Rightarrow> fs \<Rightarrow> string \<Rightarrow> bool" where
  "torn_metadata E c f run \<longleftrightarrow>
     (\<exists>bytes. writeFault E (getMetadataPath E c f run) = Torn bytes \<and> node_at f (getMetadataPath E c f run) = Some (FileNode (BytesFile bytes)))"

lemma metadata_file_read: "metadata_file E c f r md \<Longrightarrow> readMetadata E c f r = Inr md"
  by (simp add: metadata_file_def readMetadata_def read_file_def decode_metadata_def)

lemma metadata_path_stat: "statErr E' = statErr E \<Longrightarrow> getMetadataPath E' c f r = getMetadataPath E c f r"
proof -
  assume s: "statErr E' = statErr E"
  have "base_loop E' f r bs = base_loop E f r bs" for bs by (induction bs) (auto simp: PathExists_def s split: bool.splits)
  then show ?thesis by (simp add: getMetadataPath_def GetRunPath_def runBasePath_def)
qed

lemma metadata_file_stat: "statErr E' = statErr E \<Longrightarrow> metadata_file E' c f r md = metadata_file E c f r md"
  using metadata_path_stat [of E' E c f r] by (simp add: metadata_file_def)

lemma metadata_path_view:
  assumes "collection_ok c" and "plain_comp r" and "same_view c r f f'"
  shows "getMetadataPath E c f' r = getMetadataPath E c f r"
    and "node_at f' (getMetadataPath E c f r) = node_at f (getMetadataPath E c f r)"
proof -
  show "getMetadataPath E c f' r = getMetadataPath E c f r" by (rule same_runs_paths(4) [OF view_runs [OF assms]])
  show "node_at f' (getMetadataPath E c f r) = node_at f (getMetadataPath E c f r)"
    using run_file_key(2) [OF assms(1,2), of "''metadata.json''" E f] assms(3)
    by (simp add: same_view_def node_at_def getMetadataPath_def plain_comp_def)
qed

lemma metadata_file_view:
  "collection_ok c \<Longrightarrow> plain_comp r \<Longrightarrow> same_view c r f f' \<Longrightarrow> metadata_file E c f' r md = metadata_file E c f r md"
  using metadata_path_view [of c r f f' E] by (simp add: metadata_file_def)

lemma write_metadata_file:
  assumes "node_at f (getMetadataPath E c f r) \<noteq> None" and "\<not> statErr E (getMetadataPath E c f r)"
  shows "(writeMetadata E c f r md = (True, f') \<longrightarrow> metadata_file E c f' r md) \<and>
    (writeMetadata E c f r md = (False, f') \<longrightarrow> f' = f \<or> torn_metadata E c f' r)"
proof -
  let ?p = "getMetadataPath E c f r"
  have p: "getMetadataPath E c (put ?p n f) r = ?p" for n
    by (rule same_runs_paths(4) [OF same_runs_put [OF assms(1)]])
  have n: "node_at (put ?p n f) ?p = Some n" for n by (simp add: node_at_def)
  show ?thesis
    using assms(2) p n by (auto simp: writeMetadata_def WriteJSONFile_def metadata_file_def torn_metadata_def split: if_splits fault.splits)
qed

lemma metadata_readable:
  "readMetadata E c f r = Inr md \<Longrightarrow> node_at f (getMetadataPath E c f r) \<noteq> None \<and> \<not> statErr E (getMetadataPath E c f r)"
  by (auto simp: readMetadata_def read_file_def split: option.splits if_splits)

lemma save_file:
  assumes "save_metadata E c f r err md = (Inr u, f')" and "readMetadata E c f r = Inr md0"
  shows "metadata_file E c f' r md"
  using assms(1) write_metadata_file [of f E c r md f'] metadata_readable [OF assms(2)]
  by (auto simp: save_metadata_def split: prod.splits if_splits)

lemma recorded_result:
  assumes "UpdateRunResult E2 c f r res human = (Inr u, f')" and "SetRunEndTime E1 c f0 r = (Inr u', f)" and "now E1 \<noteq> InvalidTime"
    and "collection_ok c" and "plain_comp r" and "statErr E2 = statErr E1"
  shows "\<exists>md. metadata_file E2 c f' r md \<and> mdRunResult md = res \<and> EndTime md \<noteq> InvalidTime \<and> (\<forall>h. human = Some h \<longrightarrow> RunError md = h)"
proof -
  obtain md where md: "metadata_file E1 c f r md" "EndTime md \<noteq> InvalidTime"
    using with_lock_Inr [OF assms(2) [unfolded SetRunEndTime_def]] assms(3) by (auto dest!: save_file split: sum.splits if_splits)
  have "metadata_file E2 c (snd (lockRun E2 c f r False)) r md"
    using metadata_file_view [OF assms(4,5) lock_view(1) [OF assms(4,5), of f E2 False], of E2 md] md(1) metadata_file_stat [OF assms(6)] by simp
  from metadata_file_read [OF this] with_lock_Inr [OF assms(1) [unfolded UpdateRunResult_def]] md(2) show ?thesis
    by (auto simp: Let_def split: option.splits dest: save_file)
qed

text \<open>Recording the size changes nothing else, unless its write fails half way and leaves torn metadata.\<close>

lemma PersistRunSize_file:
  assumes c: "collection_ok c" and r: "plain_comp r" and md: "metadata_file E c f r md" and p: "PersistRunSize E c f r = (res, f')"
  shows "(\<exists>sz. metadata_file E c f' r (md\<lparr>SizeBytes := sz\<rparr>)) \<or> (res = Inl (UpdateMetadataFailed r) \<and> torn_metadata E c f' r)"
proof -
  define f1 where "f1 = snd (lockRun E c f r True)"
  define f2 where "f2 = snd (lockRun E c f1 r False)"
  have v: "same_view c r f f1" "same_view c r f1 f2" unfolding f1_def f2_def by (rule lock_view(1) [OF c r])+
  have m1: "metadata_file E c f1 r md" and m2: "metadata_file E c f2 r md"
    using metadata_file_view [OF c r v(1)] metadata_file_view [OF c r v(2)] md by simp_all
  have same: "\<exists>sz. metadata_file E c g r (md\<lparr>SizeBytes := sz\<rparr>)" if "metadata_file E c g r md" for g
    using that by (intro exI [of _ "SizeBytes md"]) simp
  have n: "node_at f2 (getMetadataPath E c f2 r) \<noteq> None" "\<not> statErr E (getMetadataPath E c f2 r)"
    using m2 by (simp_all add: metadata_file_def)
  have locked: "(\<exists>sz. metadata_file E c g r (md\<lparr>SizeBytes := sz\<rparr>)) \<or> (x = Inl (UpdateMetadataFailed r) \<and> torn_metadata E c g r)"
    if l: "persistRunSizeLocked E c f2 r = (x, g)" for x g
  proof (cases "g = f2")
    case False
    then obtain sz ok where w: "writeMetadata E c f2 r (md\<lparr>SizeBytes := Some sz\<rparr>) = (ok, g)" "x = (if ok then Inr True else Inl (UpdateMetadataFailed r))"
      using l metadata_file_read [OF m2] by (auto simp: persistRunSizeLocked_def split: sum.splits prod.splits if_splits)
    from write_metadata_file [OF n, of "md\<lparr>SizeBytes := Some sz\<rparr>" g] w False show ?thesis by (cases ok) auto
  qed (use same [OF m2] in simp)
  show ?thesis
    using p locked [of res f'] same [OF m1] same [OF m2] metadata_file_read [OF m1]
    unfolding PersistRunSize_def f1_def [symmetric] f2_def [symmetric]
    by (auto simp: f1_def f2_def split: prod.splits option.splits sum.splits if_splits)
qed

lemma created_plain: "CollectionState_CreateRun M E c uuids r outs s = (Inr run, s1) \<Longrightarrow> plain_comp run"
  by (auto simp: CollectionState_CreateRun_def CreateRun_def Let_def split: sum.splits option.splits prod.splits if_splits
      dest: LeaseRun_plain)

lemma end_run_releases:
  assumes "end_run E c run res = (errs, s')"
  shows "run \<notin> set (rsLeases s') \<and> Bus (rsBus s') run = None"
  using assms by (auto simp: end_run_def Remove_def Write_def split: prod.splits sum.splits option.splits)

text \<open>What holds of the world and of the types of the errors along a drive.\<close>

lemma trace_named:
  assumes "drive_trace cs ss w i ts" and "P w"
    and "\<And>st failure v err g v'. st \<in> set ss \<Longrightarrow> P v \<Longrightarrow> Execute st failure v = (err, g, v') \<Longrightarrow> P v' \<and> ErrorType st v' \<noteq> x"
  shows "P (world_after w ts) \<and> (\<forall>t\<in>set ts. ErrorType (ss ! sIndex t) (sAfter t) \<noteq> x) \<and> (\<forall>r e. last_failure ss ts = Some (r, e) \<longrightarrow> r \<noteq> x)"
  using assms(1)
proof (induction rule: drive_trace.induct)
  case (Run i ts err cleanUp w')
  then have "P w' \<and> ErrorType (ss ! i) w' \<noteq> x" using assms(3) [OF nth_mem [OF Run.hyps(3)] _ Run.hyps(5)] by blast
  with Run.IH show ?case by (auto split: option.splits)
qed (use assms(2) in auto)

lemma drive_named:
  assumes "DriveRecipeExecutionStages cs ss ctx = ((res, err), ctx')" and "FailureError ctx = None" and "P (World ctx)"
    and "\<And>st failure v err g v'. st \<in> set ss \<Longrightarrow> P v \<Longrightarrow> Execute st failure v = (err, g, v') \<Longrightarrow> P v' \<and> ErrorType st v' \<noteq> RecipeSuccess"
  shows "res = RecipeSuccess \<longleftrightarrow> err = None"
proof -
  from drive_steps [OF assms(2,1)] obtain i ts where t: "drive_trace cs ss (World ctx) i ts" "(res, err) = drive_result cs ss ts" by blast
  have n: "(\<forall>t\<in>set ts. ErrorType (ss ! sIndex t) (sAfter t) \<noteq> RecipeSuccess) \<and> (\<forall>r e. last_failure ss ts = Some (r, e) \<longrightarrow> r \<noteq> RecipeSuccess)"
    using trace_named [where P = P and x = RecipeSuccess, OF t(1) assms(3)] assms(4) by blast
  show ?thesis
  proof (cases "was_cancelled ts")
    case True
    then have "ts \<noteq> []" by auto
    then have "ErrorType (ss ! sIndex (last ts)) (sAfter (last ts)) \<noteq> RecipeSuccess" using n by simp
    with True t(2) show ?thesis by (auto simp: drive_result_def)
  next
    case False
    with t(2) n show ?thesis by (auto simp: drive_result_def split: option.splits)
  qed
qed

lemma drive_success:
  assumes "DriveRecipeExecutionStages cs ss ctx = ((res, err), ctx')" and "FailureError ctx = None"
  shows "(err = None \<longrightarrow> res = RecipeSuccess) \<and> (res = RecipeSuccess \<longrightarrow> err = None \<or> (\<exists>st\<in>set ss. \<exists>w. ErrorType st w = RecipeSuccess))"
proof -
  from drive_steps [OF assms(2,1)] obtain i ts where t: "(res, err) = drive_result cs ss ts" by blast
  have "err = None \<longrightarrow> res = RecipeSuccess" using t by (auto simp: drive_result_def split: if_splits option.splits)
  moreover have "res = RecipeSuccess \<longleftrightarrow> err = None" if "\<not> (\<exists>st\<in>set ss. \<exists>w. ErrorType st w = RecipeSuccess)"
    by (rule drive_named [OF assms, of "\<lambda>_. True"]) (use that in auto)
  ultimately show ?thesis by blast
qed

lemma end_run_errs:
  "end_run E c run (errs0, s) = (errs, s') \<Longrightarrow>
     \<exists>more. errs = errs0 @ more \<and> rsFs s' = snd (PersistRunSize E c (rsFs s) run) \<and> set more \<subseteq> range CommandErr"
  by (auto simp: end_run_def split: sum.splits)

lemma record_result_ok:
  assumes "record_result E1 E2 c human run res err s = (errs, s')" and "errs = map StageErr (case err of None \<Rightarrow> [] | Some e \<Rightarrow> [e])"
  obtains f where "SetRunEndTime E1 c (rsFs s) run = (Inr (), f)"
    and "UpdateRunResult E2 c f run res (if errs = [] then None else Some (human errs)) = (Inr (), rsFs s')"
  using assms by (auto simp: record_result_def error_of_def Let_def split: prod.splits sum.splits option.splits if_splits)

text \<open>
  C1. A run of a recipe ends in order. Whatever the stages did, once a run has been created its lease is
  given up and its command state is removed at the end. And if the stages were driven and the only error, if any,
  is theirs, then the run has been recorded, in a metadata file that the engine wrote, with the result of
  the stages, with an end time and with their error. It is success if no error is returned, and only then, unless a stage calls
  its own error success. What is recorded survives the deferred write of the size, which adds
  the size and changes nothing else, except when that write fails half way: its error is swallowed, and the
  metadata file is left torn. The environment of each of the three writes is arbitrary, except that the clock does not show
  the invalid time and that whether a path can be examined does not change between them.
\<close>

theorem RunRecipe_outcome:
  assumes "RunRecipe M E E1 E2 E3 human c uuids r outs ss s = (errs, s')" and "CollectionState_CreateRun M E c uuids r outs s = (Inr run, s1)"
    and "collection_ok c" and "now E1 \<noteq> InvalidTime" and "statErr E2 = statErr E1" and "statErr E3 = statErr E1"
  shows "run \<notin> set (rsLeases s') \<and> Bus (rsBus s') run = None \<and>
    (\<forall>res err s2. drive_run E c ss run s1 = (Inr (res, err), s2) \<longrightarrow> errs = map StageErr (case err of None \<Rightarrow> [] | Some e \<Rightarrow> [e]) \<longrightarrow>
       (errs = [] \<longrightarrow> res = RecipeSuccess) \<and>
       (res = RecipeSuccess \<longrightarrow> errs = [] \<or> (\<exists>st\<in>set ss. \<exists>w. ErrorType st w = RecipeSuccess)) \<and>
       (\<exists>f md sizeRes. metadata_file E1 c f run md \<and> mdRunResult md = res \<and> EndTime md \<noteq> InvalidTime \<and>
          (err \<noteq> None \<longrightarrow> RunError md = human errs) \<and> PersistRunSize E3 c f run = (sizeRes, rsFs s') \<and>
          ((\<exists>sz. metadata_file E1 c (rsFs s') run (md\<lparr>SizeBytes := sz\<rparr>)) \<or>
           sizeRes = Inl (UpdateMetadataFailed run) \<and> torn_metadata E3 c (rsFs s') run)))"
proof -
  define res0 where "res0 = (case drive_run E c ss run s1 of
      (Inl e, s2) \<Rightarrow> ([e], s2) | (Inr (runResult, err), s2) \<Rightarrow> record_result E1 E2 c human run runResult err s2)"
  have e: "end_run E3 c run res0 = (errs, s')" using assms(1,2) by (simp add: RunRecipe_def res0_def)
  have p: "plain_comp run" by (rule created_plain [OF assms(2)])
  have "(errs = [] \<longrightarrow> res = RecipeSuccess) \<and> (res = RecipeSuccess \<longrightarrow> errs = [] \<or> (\<exists>st\<in>set ss. \<exists>w. ErrorType st w = RecipeSuccess)) \<and>
      (\<exists>f md sizeRes. metadata_file E1 c f run md \<and> mdRunResult md = res \<and> EndTime md \<noteq> InvalidTime \<and>
        (err \<noteq> None \<longrightarrow> RunError md = human errs) \<and> PersistRunSize E3 c f run = (sizeRes, rsFs s') \<and>
        ((\<exists>sz. metadata_file E1 c (rsFs s') run (md\<lparr>SizeBytes := sz\<rparr>)) \<or>
         sizeRes = Inl (UpdateMetadataFailed run) \<and> torn_metadata E3 c (rsFs s') run))"
    if d: "drive_run E c ss run s1 = (Inr (res, err), s2)" and errs: "errs = map StageErr (case err of None \<Rightarrow> [] | Some e \<Rightarrow> [e])" for res err s2
  proof -
    obtain errs0 s3 where r3: "record_result E1 E2 c human run res err s2 = (errs0, s3)" by fastforce
    then have res0: "res0 = (errs0, s3)" by (simp add: res0_def d)
    from end_run_errs [OF e [unfolded res0]] errs have f: "rsFs s' = snd (PersistRunSize E3 c (rsFs s3) run)" "errs0 = errs"
      by (auto split: option.splits simp: Cons_eq_append_conv)
    obtain sizeRes where ps: "PersistRunSize E3 c (rsFs s3) run = (sizeRes, rsFs s')" using f(1) by (metis prod.collapse)
    from record_result_ok [OF r3] f(2) errs obtain f1 where
      u: "SetRunEndTime E1 c (rsFs s2) run = (Inr (), f1)"
        "UpdateRunResult E2 c f1 run res (if errs = [] then None else Some (human errs)) = (Inr (), rsFs s3)" by auto
    from recorded_result [OF u(2,1) assms(4,3) p assms(5)] obtain md where
      md: "metadata_file E2 c (rsFs s3) run md" "mdRunResult md = res" "EndTime md \<noteq> InvalidTime" "errs \<noteq> [] \<Longrightarrow> RunError md = human errs" by auto
    have m: "metadata_file E1 c (rsFs s3) run md" "metadata_file E3 c (rsFs s3) run md"
      using md(1) metadata_file_stat [OF assms(5)] metadata_file_stat [OF assms(6)] by simp_all
    have "(\<exists>sz. metadata_file E1 c (rsFs s') run (md\<lparr>SizeBytes := sz\<rparr>)) \<or>
        sizeRes = Inl (UpdateMetadataFailed run) \<and> torn_metadata E3 c (rsFs s') run"
      using PersistRunSize_file [OF assms(3) p m(2) ps] metadata_file_stat [OF assms(6)] by simp
    moreover have "err \<noteq> None \<longrightarrow> RunError md = human errs" using md(4) errs by (auto split: option.splits)
    moreover have "(err = None \<longrightarrow> res = RecipeSuccess) \<and> (res = RecipeSuccess \<longrightarrow> err = None \<or> (\<exists>st\<in>set ss. \<exists>w. ErrorType st w = RecipeSuccess))"
      using d drive_success by (fastforce simp: drive_run_def split: prod.splits option.splits)
    moreover have "errs = [] \<longleftrightarrow> err = None" using errs by (simp split: option.splits)
    ultimately show ?thesis using m(1) md(2,3) ps by blast
  qed
  with end_run_releases [OF e] show ?thesis by blast
qed

text \<open>
  The stages of a run work on the files of the collection, on the command of the run and on the rest of
  their world; they are lifted to the state of the run.
\<close>

definition stage_world :: "(fs \<times> 'y) World RunState \<Rightarrow> (fs \<times> 'y) World" where
  "stage_world s = (rsRest s)
     \<lparr>wCmd := (case Bus (rsBus s) (rbRunID (rsBuilder s)) of None \<Rightarrow> wCmd (rsRest s) | Some p \<Rightarrow> store (rsBus s) p),
      wRest := (rsFs s, snd (wRest (rsRest s)))\<rparr>"

definition put_world :: "(fs \<times> 'y) World \<Rightarrow> (fs \<times> 'y) World RunState \<Rightarrow> (fs \<times> 'y) World RunState" where
  "put_world w s = s
     \<lparr>rsFs := fst (wRest w), rsRest := w,
      rsBus := (case Bus (rsBus s) (rbRunID (rsBuilder s)) of
                  None \<Rightarrow> rsBus s | Some p \<Rightarrow> (rsBus s)\<lparr>store := (store (rsBus s))(p := wCmd w)\<rparr>)\<rparr>"

definition run_clean_up :: "((fs \<times> 'y) World \<Rightarrow> (fs \<times> 'y) World) \<Rightarrow> (fs \<times> 'y) World RunState \<Rightarrow> (fs \<times> 'y) World RunState" where
  "run_clean_up g s = put_world (g (stage_world s)) s"

definition run_execute ::
  "(fs \<times> 'y) World Stage \<Rightarrow> gerror option \<Rightarrow> (fs \<times> 'y) World RunState \<Rightarrow>
     gerror option \<times> ((fs \<times> 'y) World RunState \<Rightarrow> (fs \<times> 'y) World RunState) option \<times> (fs \<times> 'y) World RunState" where
  "run_execute st failure s =
     (case Execute st failure (stage_world s) of (err, cleanUp, w) \<Rightarrow> (err, map_option run_clean_up cleanUp, put_world w s))"

definition run_error :: "(fs \<times> 'y) World Stage \<Rightarrow> (fs \<times> 'y) World RunState \<Rightarrow> RunResult" where
  "run_error st s = ErrorType st (stage_world s)"

definition run_stage :: "(fs \<times> 'y) World Stage \<Rightarrow> (fs \<times> 'y) World RunState Stage" where
  "run_stage st = \<lparr>Name = Name st, AlwaysExecute = AlwaysExecute st, ErrorType = run_error st, Execute = run_execute st\<rparr>"

lemma errors_named_world [simp]:
  "errors_named (stage_world s) = errors_named (rsRest s)" "errors_named (rsRest (put_world w s)) = errors_named w"
  by (simp_all add: errors_named_def stage_world_def put_world_def)

lemma keeps_rest:
  "CollectionState_CreateRun M E c uuids r outs s = (x, s') \<Longrightarrow> rsRest s' = rsRest s \<and> rsBus s' = rsBus s"
  "open_component E c p err s = (y, s') \<Longrightarrow> rsRest s' = rsRest s \<and> rsBus s' = rsBus s"
  by (auto simp: CollectionState_CreateRun_def open_component_def StoreComponent_def Let_def
      split: sum.splits option.splits prod.splits if_splits)

text \<open>
  The stages that the program builds never call their error success, however their world develops, so a
  run of them is recorded as a success exactly if it returned no error.
\<close>

lemma run_stages_success:
  assumes "CollectionState_CreateRun M E c uuids r outs s = (Inr run, s1)" and "errors_named (rsRest s)"
    and "drive_run E c (map run_stage (BuildStages SE config)) run s1 = (Inr (res, err), s2)"
  shows "res = RecipeSuccess \<longleftrightarrow> err = None"
proof -
  let ?P = "\<lambda>v. errors_named (rsRest v)"
  have n: "?P v' \<and> ErrorType st v' \<noteq> RecipeSuccess"
    if st: "st \<in> set (map run_stage (BuildStages SE config))" and v: "?P v" and ex: "Execute st failure v = (e, g, v')" for st failure v e g v'
  proof -
    obtain t where t: "t \<in> set (BuildStages SE config)" "st = run_stage t" using st by auto
    obtain e1 g1 w where w: "Execute t failure (stage_world v) = (e1, g1, w)" by (metis prod_cases3)
    then have v': "v' = put_world w v" using ex t(2) by (auto simp: run_stage_def run_execute_def)
    have "stays_named (stage_world v) w" using run_keeps_named [OF t(1)] w unfolding stage_keeps_def keeps_def by blast
    with v v' have P: "?P v'" by (simp add: stays_named_def)
    with run_error_named [OF t(1), of "stage_world v'"] t(2) show ?thesis by (simp add: run_stage_def run_error_def)
  qed
  obtain cmd bus s3 s4 ctx where d: "CreateCommandState run (rsBus s1) = (cmd, bus)" "beginRunLogging E c (s1\<lparr>rsBus := bus\<rparr>) = (None, s3)"
      "UserMessageWriter_Open E c s3 = (None, s4)"
      "DriveRecipeExecutionStages (\<lambda>s. store (rsBus s) cmd) (map run_stage (BuildStages SE config))
         \<lparr>FailureError = None, FailureRunResult = [], Events = [], World = s4\<rparr> = ((res, err), ctx)"
    using assms(3) by (auto simp: drive_run_def split: prod.splits option.splits)
  have "rsRest s4 = rsRest s"
    using keeps_rest(1) [OF assms(1)] keeps_rest(2) [OF d(2) [unfolded beginRunLogging_def]] keeps_rest(2) [OF d(3) [unfolded UserMessageWriter_Open_def]] by simp
  with assms(2) have P: "?P (World \<lparr>FailureError = None, FailureRunResult = [], Events = [], World = s4\<rparr>)" by simp
  show ?thesis by (rule drive_named [where P = ?P, OF d(4) _ P n]) simp_all
qed

text \<open>
  An error between the creation of the run and its stages is not recorded: the run stays in progress
  as it was created, although nobody works on it and its lease is free.
\<close>

lemma early_error_unrecorded:
  assumes "RunRecipe M E E1 E2 E3 human c uuids r outs ss s = (errs, s')" and "CollectionState_CreateRun M E c uuids r outs s = (Inr run, s1)"
    and "drive_run E c ss run s1 = (Inl e, s2)" and "collection_ok c"
    and "metadata_file E3 c (rsFs s2) run md" and "\<And>bytes. writeFault E3 (getMetadataPath E3 c (rsFs s') run) \<noteq> Torn bytes"
  shows "\<exists>sz. metadata_file E3 c (rsFs s') run (md\<lparr>SizeBytes := sz\<rparr>)" and "run \<notin> set (rsLeases s')"
proof -
  have e: "end_run E3 c run ([e], s2) = (errs, s')" using assms(1-3) by (simp add: RunRecipe_def)
  then have "rsFs s' = snd (PersistRunSize E3 c (rsFs s2) run)" using end_run_errs by blast
  with PersistRunSize_file [OF assms(4) created_plain [OF assms(2)] assms(5), of "fst (PersistRunSize E3 c (rsFs s2) run)" "rsFs s'"] assms(6)
  show "\<exists>sz. metadata_file E3 c (rsFs s') run (md\<lparr>SizeBytes := sz\<rparr>)" by (auto simp: torn_metadata_def)
  show "run \<notin> set (rsLeases s')" using end_run_releases [OF e] by simp
qed

text \<open>Successive outputs of a tool go to different directories.\<close>

fun next_entities :: "string list \<Rightarrow> RecipeCtx \<Rightarrow> Entity list" where
  "next_entities [] r = []"
| "next_entities (t # ts) r = (case GetNextOutputEntity t r of (e, r') \<Rightarrow> e # next_entities ts r')"

lemma entity_inj:
  assumes "''tool/'' @ t @ ''/'' @ Itoa n = ''tool/'' @ t' @ ''/'' @ Itoa n'" and "0 \<le> n" and "0 \<le> n'"
  shows "t = t' \<and> n = n'"
proof -
  have d: "CHR ''/'' \<notin> set (Itoa n)" "CHR ''/'' \<notin> set (Itoa n')"
    using Itoa_digits [OF assms(2)] Itoa_digits [OF assms(3)] by (auto simp: list_all_iff is_digit_def)
  from assms(1) have "t @ CHR ''/'' # Itoa n = t' @ CHR ''/'' # Itoa n'" by simp
  from split_last_sep [OF this d] have "t = t'" "Itoa n = Itoa n'" by auto
  with Itoa_inj [of "nat n" "nat n'"] assms(2,3) show ?thesis by simp
qed

lemma next_entity_form:
  "e \<in> set (next_entities ts r) \<Longrightarrow> \<exists>t n. e = Entity (''tool/'' @ t @ ''/'' @ Itoa n) \<and> ToolInvocationCounts r t \<le> n"
proof (induction ts arbitrary: r)
  case (Cons t ts)
  then show ?case
    by (fastforce simp: GetNextOutputEntity_def GetAndIncrementToolInvocationCount_def Let_def split: if_splits)
qed simp

lemma next_entities_distinct: "\<forall>t. 0 \<le> ToolInvocationCounts r t \<Longrightarrow> distinct (next_entities ts r)"
proof (induction ts arbitrary: r)
  case (Cons t ts)
  obtain r' where r': "GetNextOutputEntity t r = (Entity (''tool/'' @ t @ ''/'' @ Itoa (ToolInvocationCounts r t)), r')"
    "ToolInvocationCounts r' = (ToolInvocationCounts r)(t := ToolInvocationCounts r t + 1)"
    by (simp add: GetNextOutputEntity_def GetAndIncrementToolInvocationCount_def Let_def)
  have "Entity (''tool/'' @ t @ ''/'' @ Itoa (ToolInvocationCounts r t)) \<notin> set (next_entities ts r')"
  proof
    assume "Entity (''tool/'' @ t @ ''/'' @ Itoa (ToolInvocationCounts r t)) \<in> set (next_entities ts r')"
    from next_entity_form [OF this] obtain t' n where n: "''tool/'' @ t @ ''/'' @ Itoa (ToolInvocationCounts r t) = ''tool/'' @ t' @ ''/'' @ Itoa n"
      "ToolInvocationCounts r' t' \<le> n" by auto
    have "0 \<le> ToolInvocationCounts r' t'" using Cons.prems r'(2) by (auto simp: add_increasing2)
    with n(2) have "0 \<le> n" by simp
    with entity_inj [OF n(1)] Cons.prems n(2) r'(2) show False by auto
  qed
  with r' Cons.IH [of r'] Cons.prems show ?case by (simp add: add_increasing2)
qed simp

section \<open>Examples\<close>

definition demo_encoders :: encoders where
  "demo_encoders = \<lparr>engineVersion = ''1.0'', encodeParams = (\<lambda>_. ''{}''), encodeEnv = (\<lambda>_. ''null''), encodeVersion = id\<rparr>"

definition demo_none :: BoundParameters where
  "demo_none = \<lparr>bpParameters = \<lparr>SingleSelect = [], MultiSelect = [], Checkbox = [], Input = [], Radio = []\<rparr>,
     bpValues = \<lparr>vCheckbox = [], vRadio = [], vSingleSelect = [], vMultiSelect = [], vInput = []\<rparr>\<rparr>"

definition demo_recipe :: RecipeCtx where
  "demo_recipe =
     \<lparr>RecipePath = ''/p/r.js'', rcWorkload = Some (WorkloadAttach 7), rcTargetName = ''t'', rcTargetConfig = Some ''{}'', rcParamValues = demo_none,
      rcTimeout = 0, ToolInvocationCounts = (\<lambda>_. 0), SourceCodePaths = [], rcMetadata = \<lparr>rmName = ''hot'', rmVersion = ''1'', rmAPIVersion = ''1.0.0''\<rparr>\<rparr>"

definition demo_outputs :: CollectorOutputs where
  "demo_outputs = \<lparr>coName = ''os'', coOutputs = []\<rparr>"

definition demo_rest :: "(fs \<times> unit) World" where
  "demo_rest =
     \<lparr>wCmd = \<lparr>RecipeCommand = 0, cancelErr = None\<rparr>, wReadiness = [], wLockSet = False, wLock = False,
      wSupportError = ''failure_identify_target_architecture'', wWorkloadError = ''failure_workload_options'', wWaitError = [],
      wPlatform = \<lparr>Architecture = [], OS = []\<rparr>, wHostPlatform = \<lparr>Architecture = [], OS = []\<rparr>, wBundles = [], wProcesses = None,
      wProcessesErr = None, wListening = False, wResolved = None, wSupport = None, wDeployed = (\<lambda>_. NoAction), wRest = ([], ())\<rparr>"

definition demo_run_state :: "(fs \<times> unit) World RunState" where
  "demo_run_state =
     \<lparr>rsFs = [([], DirNode), ([''p''], DirNode), ([''p'', ''r.js''], FileNode (BytesFile ''code'')), ([''p'', ''runs''], DirNode)],
      rsBus = NewCommandStateMap, rsLeases = [],
      rsBuilder = \<lparr>rbRunID = [], rbBasePath = [], rbRunPath = [], rbEntities = [], rbComponents = [], rbToolsUsed = []\<rparr>,
      rsCollectionPaths = [], rsRest = demo_rest\<rparr>"

definition demo_uuid :: string where
  "demo_uuid = ''00000000-0000-0000-0000-0123456789ab''"

text \<open>The stages of a run whose script fails.\<close>

definition demo_stages :: "(fs \<times> unit) World RunState Stage list" where
  "demo_stages = map run_stage (BuildStages demo_env demo_broken)"

text \<open>The demonstration is evaluated step by step.\<close>

abbreviation demo_id :: string where
  "demo_id \<equiv> ''0123456789ab''"

definition demo_created :: "(recipe_error + string) \<times> (fs \<times> unit) World RunState" where
  "demo_created = CollectionState_CreateRun demo_encoders demo_run_env demo_collection [demo_uuid] demo_recipe demo_outputs demo_run_state"

definition demo_logged :: "recipe_error option \<times> (fs \<times> unit) World RunState" where
  "demo_logged = beginRunLogging demo_run_env demo_collection
     (snd demo_created\<lparr>rsBus := snd (CreateCommandState demo_id (rsBus (snd demo_created)))\<rparr>)"

definition demo_opened :: "recipe_error option \<times> (fs \<times> unit) World RunState" where
  "demo_opened = UserMessageWriter_Open demo_run_env demo_collection (snd demo_logged)"

definition demo_driven :: "(RunResult \<times> gerror option) \<times> (fs \<times> unit) World RunState StageContext" where
  "demo_driven = DriveRecipeExecutionStages (\<lambda>s. store (rsBus s) 0) demo_stages
     \<lparr>FailureError = None, FailureRunResult = [], Events = [], World = snd demo_opened\<rparr>"

definition demo_run_end :: "run_env \<Rightarrow> recipe_error list \<times> (fs \<times> unit) World RunState" where
  "demo_run_end E3 = RunRecipe demo_encoders demo_run_env demo_run_env demo_run_env E3 (\<lambda>_. ''failed'') demo_collection [demo_uuid] demo_recipe
     demo_outputs demo_stages demo_run_state"

lemma demo_created_ok: "fst demo_created = Inr demo_id"
  by code_simp

lemma demo_logged_ok: "fst demo_logged = None"
  by code_simp

text \<open>The files then, for any contents; only the metadata matter.\<close>

definition demo_files :: "content list \<Rightarrow> Metadata \<Rightarrow> fs" where
  "demo_files xs md =
     [([], DirNode), ([''p''], DirNode), ([''p'', ''r.js''], FileNode (xs ! 0)), ([''p'', ''runs''], DirNode), ([''p'', ''locks''], DirNode),
      ([''p'', ''locks'', demo_id], DirNode), ([''p'', ''locks'', demo_id, ''leasefile''], FileNode (BytesFile [])),
      ([''p'', ''runs'', demo_id], DirNode), ([''p'', ''runs'', demo_id, ''manifest.json''], FileNode (xs ! 1)),
      ([''p'', ''runs'', demo_id, ''metadata.json''], FileNode (MetadataFile md)),
      ([''p'', ''runs'', demo_id, ''categorization.json''], FileNode (xs ! 2)), ([''p'', ''runs'', demo_id, ''recipe''], DirNode),
      ([''p'', ''runs'', demo_id, ''recipe'', ''source''], DirNode),
      ([''p'', ''runs'', demo_id, ''recipe'', ''source'', ''recipe.js''], FileNode (xs ! 3)),
      ([''p'', ''runs'', demo_id, ''recipe'', ''version.json''], FileNode (xs ! 4)),
      ([''p'', ''runs'', demo_id, ''source-code.json''], FileNode (xs ! 5)), ([''p'', ''runs'', demo_id, ''log.json''], FileNode (xs ! 6)),
      ([''p'', ''runs'', demo_id, ''user_messages''], DirNode),
      ([''p'', ''runs'', demo_id, ''user_messages'', ''user_messages.json''], FileNode (xs ! 7))]"

fun file_contents :: "fs \<Rightarrow> content list" where
  "file_contents ((k, FileNode x) # f) = (if k \<noteq> [] \<and> last k \<in> {''metadata.json'', ''leasefile''} then file_contents f else x # file_contents f)"
| "file_contents ((k, DirNode) # f) = file_contents f"
| "file_contents [] = []"

definition demo_metadata :: "fs \<Rightarrow> Metadata" where
  "demo_metadata f = (case map_of f [''p'', ''runs'', demo_id, ''metadata.json''] of Some (FileNode (MetadataFile md)) \<Rightarrow> md | _ \<Rightarrow> zero_metadata)"

lemma demo_opened_ok:
  "(let r = demo_opened; f = rsFs (snd r) in
     fst r = None \<and> rbRunID (rsBuilder (snd r)) = demo_id \<and> f = demo_files (file_contents f) (demo_metadata f))"
  by code_simp

definition demo_ended :: "(run_error + unit) \<times> fs" where
  "demo_ended = SetRunEndTime demo_run_env demo_collection (rsFs (snd demo_opened)) demo_id"

definition demo_updated :: "(run_error + unit) \<times> fs" where
  "demo_updated = UpdateRunResult demo_run_env demo_collection (snd demo_ended) demo_id ''failure_recipe_stage'' (Some ''failed'')"

lemma demo_updates:
  fixes md :: Metadata
  shows "(let r1 = SetRunEndTime demo_run_env demo_collection (demo_files xs md) demo_id;
       r2 = UpdateRunResult demo_run_env demo_collection (snd r1) demo_id ''failure_recipe_stage'' (Some ''failed'')
   in fst r1 = Inr () \<and> fst r2 = Inr ())"
  by code_simp

lemma demo_updated_ok: "fst demo_ended = Inr ()" "fst demo_updated = Inr ()"
proof -
  let ?f = "rsFs (snd demo_opened)"
  have f: "?f = demo_files (file_contents ?f) (demo_metadata ?f)" using demo_opened_ok by (simp add: Let_def)
  have e: "demo_ended = SetRunEndTime demo_run_env demo_collection (demo_files (file_contents ?f) (demo_metadata ?f)) demo_id"
    unfolding demo_ended_def by (rule arg_cong [OF f])
  show "fst demo_ended = Inr ()" "fst demo_updated = Inr ()"
    using demo_updates [of "file_contents ?f" "demo_metadata ?f"] unfolding demo_updated_def e Let_def by blast+
qed

text \<open>The drive, whatever the files are.\<close>

definition demo_bus :: commandStateMap where
  "demo_bus = snd (CreateCommandState demo_id NewCommandStateMap)"

lemma demo_drive:
  fixes f :: fs
  shows "(let d = DriveRecipeExecutionStages (\<lambda>s. store (rsBus s) 0) demo_stages
      \<lparr>FailureError = None, FailureRunResult = [], Events = [], World =
        \<lparr>rsFs = f, rsBus = demo_bus, rsLeases = leases, rsBuilder = \<lparr>rbRunID = demo_id, rbBasePath = x1, rbRunPath = x2, rbEntities = x3,
           rbComponents = x4, rbToolsUsed = x5\<rparr>, rsCollectionPaths = paths, rsRest = demo_rest\<rparr>\<rparr>
    in (fst d, rsFs (World (snd d)), Bus (rsBus (World (snd d))) demo_id)) = ((''failure_recipe_stage'', Some ''TypeError''), f, Some 0)"
  by code_simp

lemma demo_driven_ok:
  "fst demo_driven = (''failure_recipe_stage'', Some ''TypeError'')" "rsFs (World (snd demo_driven)) = rsFs (snd demo_opened)"
  "Bus (rsBus (World (snd demo_driven))) demo_id = Some 0"
proof -
  let ?s = "snd demo_opened"
  have c: "rsRest (snd demo_created) = demo_rest \<and> rsBus (snd demo_created) = NewCommandStateMap"
    using keeps_rest(1) [of demo_encoders demo_run_env demo_collection "[demo_uuid]" demo_recipe demo_outputs demo_run_state]
    by (metis demo_created_def demo_run_state_def prod.collapse RunState.select_convs(2,6))
  have l: "rsRest (snd demo_logged) = demo_rest \<and> rsBus (snd demo_logged) = demo_bus"
    using c keeps_rest(2) [of demo_run_env demo_collection _ _ "snd demo_created\<lparr>rsBus := snd (CreateCommandState demo_id (rsBus (snd demo_created)))\<rparr>" "fst demo_logged" "snd demo_logged"]
    by (auto simp: demo_logged_def beginRunLogging_def demo_bus_def)
  have o: "rsRest ?s = demo_rest \<and> rsBus ?s = demo_bus"
    using l keeps_rest(2) [of demo_run_env demo_collection _ _ "snd demo_logged" "fst demo_opened" ?s]
    by (auto simp: demo_opened_def UserMessageWriter_Open_def)
  have s: "?s = \<lparr>rsFs = rsFs ?s, rsBus = demo_bus, rsLeases = rsLeases ?s, rsBuilder = \<lparr>rbRunID = demo_id, rbBasePath = rbBasePath (rsBuilder ?s),
      rbRunPath = rbRunPath (rsBuilder ?s), rbEntities = rbEntities (rsBuilder ?s), rbComponents = rbComponents (rsBuilder ?s),
      rbToolsUsed = rbToolsUsed (rsBuilder ?s)\<rparr>, rsCollectionPaths = rsCollectionPaths ?s, rsRest = demo_rest\<rparr>"
    using o demo_opened_ok by (simp add: RunState.equality RunBuilder.equality Let_def)
  have d: "demo_driven = DriveRecipeExecutionStages (\<lambda>s. store (rsBus s) 0) demo_stages
     \<lparr>FailureError = None, FailureRunResult = [], Events = [], World = ?s\<rparr>" by (simp add: demo_driven_def)
  show "fst demo_driven = (''failure_recipe_stage'', Some ''TypeError'')" "rsFs (World (snd demo_driven)) = rsFs ?s"
    "Bus (rsBus (World (snd demo_driven))) demo_id = Some 0"
    using demo_drive [of "rsFs ?s" "rsLeases ?s" "rbBasePath (rsBuilder ?s)" "rbRunPath (rsBuilder ?s)" "rbEntities (rsBuilder ?s)"
      "rbComponents (rsBuilder ?s)" "rbToolsUsed (rsBuilder ?s)" "rsCollectionPaths ?s", folded s] d by (simp_all add: Let_def)
qed

lemma demo_drive_run:
  "drive_run demo_run_env demo_collection demo_stages demo_id (snd demo_created) = (Inr (''failure_recipe_stage'', Some ''TypeError''), World (snd demo_driven))"
proof -
  have "rsBus (snd demo_created) = NewCommandStateMap"
    using keeps_rest(1) [of demo_encoders demo_run_env demo_collection "[demo_uuid]" demo_recipe demo_outputs demo_run_state]
    by (metis demo_created_def demo_run_state_def prod.collapse RunState.select_convs(2))
  then have n: "fst (CreateCommandState demo_id (rsBus (snd demo_created))) = 0" by (simp add: CreateCommandState_def NewCommandStateMap_def)
  have 1: "beginRunLogging demo_run_env demo_collection (snd demo_created\<lparr>rsBus := snd (CreateCommandState demo_id (rsBus (snd demo_created)))\<rparr>) = (None, snd demo_logged)"
    using demo_logged_ok by (simp add: demo_logged_def prod_eq_iff)
  have 2: "UserMessageWriter_Open demo_run_env demo_collection (snd demo_logged) = (None, snd demo_opened)"
    using demo_opened_ok by (simp add: demo_opened_def prod_eq_iff Let_def)
  show ?thesis
    using demo_driven_ok(1) n by (simp add: drive_run_def case_prod_beta 1 2 flip: demo_driven_def)
qed

lemma demo_run_end:
  "fst (demo_run_end E3) = [StageErr ''TypeError'']"
  "rsFs (snd (demo_run_end E3)) = snd (PersistRunSize E3 demo_collection (snd demo_updated) demo_id)"
proof -
  let ?s = "World (snd demo_driven)"
  have 1: "CollectionState_CreateRun demo_encoders demo_run_env demo_collection [demo_uuid] demo_recipe demo_outputs demo_run_state = (Inr demo_id, snd demo_created)"
    using demo_created_ok by (simp add: demo_created_def prod_eq_iff)
  have 2: "SetRunEndTime demo_run_env demo_collection (rsFs ?s) demo_id = (Inr (), snd demo_ended)"
    using demo_updated_ok(1) demo_driven_ok(2) by (simp add: demo_ended_def prod_eq_iff)
  have 3: "UpdateRunResult demo_run_env demo_collection (snd demo_ended) demo_id ''failure_recipe_stage'' (Some ''failed'') = (Inr (), snd demo_updated)"
    using demo_updated_ok(2) by (simp add: demo_updated_def prod_eq_iff)
  have 4: "record_result demo_run_env demo_run_env demo_collection (\<lambda>_. ''failed'') demo_id ''failure_recipe_stage'' (Some ''TypeError'') ?s =
      ([StageErr ''TypeError''], ?s\<lparr>rsFs := snd demo_updated\<rparr>)" by (simp add: record_result_def Let_def 2 3 error_of_def)
  have 5: "demo_run_end E3 = end_run E3 demo_collection demo_id ([StageErr ''TypeError''], ?s\<lparr>rsFs := snd demo_updated\<rparr>)"
    by (simp add: demo_run_end_def RunRecipe_def 1 demo_drive_run 4)
  show "fst (demo_run_end E3) = [StageErr ''TypeError'']" "rsFs (snd (demo_run_end E3)) = snd (PersistRunSize E3 demo_collection (snd demo_updated) demo_id)"
    unfolding 5 end_run_def using demo_driven_ok(3) by (simp_all add: Remove_def Write_def)
qed

theorem RunRecipe_outcome_witness:
  "demo_id \<notin> set (rsLeases (snd (demo_run_end demo_run_env))) \<and> Bus (rsBus (snd (demo_run_end demo_run_env))) demo_id = None \<and>
   (\<exists>md. metadata_file demo_run_env demo_collection (rsFs (snd (demo_run_end demo_run_env))) demo_id md \<and>
      mdRunResult md = ''failure_recipe_stage'' \<and> RunError md = ''failed'')"
proof -
  let ?e = "demo_run_end demo_run_env"
  have 1: "RunRecipe demo_encoders demo_run_env demo_run_env demo_run_env demo_run_env (\<lambda>_. ''failed'') demo_collection [demo_uuid] demo_recipe
      demo_outputs demo_stages demo_run_state = (fst ?e, snd ?e)" by (simp add: demo_run_end_def)
  have 2: "CollectionState_CreateRun demo_encoders demo_run_env demo_collection [demo_uuid] demo_recipe demo_outputs demo_run_state = (Inr demo_id, snd demo_created)"
    using demo_created_ok by (simp add: demo_created_def prod_eq_iff)
  have 3: "now demo_run_env \<noteq> InvalidTime" by code_simp
  have e: "fst ?e = map StageErr (case Some ''TypeError'' of None \<Rightarrow> [] | Some e \<Rightarrow> [e])" by (simp add: demo_run_end(1))
  have t: "\<not> torn_metadata demo_run_env demo_collection (rsFs (snd ?e)) demo_id" by (simp add: torn_metadata_def demo_run_env_def)
  note o = RunRecipe_outcome [OF 1 2 demo_collection_ok 3 refl refl]
  from o demo_drive_run e t obtain md sz where m: "metadata_file demo_run_env demo_collection (rsFs (snd ?e)) demo_id (md\<lparr>SizeBytes := sz\<rparr>)"
    "mdRunResult md = ''failure_recipe_stage''" "RunError md = ''failed''" by blast
  have "mdRunResult (md\<lparr>SizeBytes := sz\<rparr>) = ''failure_recipe_stage'' \<and> RunError (md\<lparr>SizeBytes := sz\<rparr>) = ''failed''" using m(2,3) by simp
  with o m(1) show ?thesis by blast
qed

text \<open>
  A run that is not in progress and whose deferred write of the size is torn: no error is returned, and what was
  recorded is gone.
\<close>

lemma size_write_loses_result:
  "(let s = demo_run_state\<lparr>rsFs := demo_fs, rsBus := bus_run [BCreate ''a'']\<rparr>;
        E3 = demo_run_env\<lparr>writeFault := (\<lambda>p. Torn ''{'')\<rparr>;
        r = end_run E3 demo_collection ''a'' ([], s)
    in readMetadata demo_run_env demo_collection (rsFs s) ''a'' = Inr zero_metadata \<and> fst r = [] \<and>
       readMetadata demo_run_env demo_collection (rsFs (snd r)) ''a'' = Inl (ReadMetadataFailed ''a''))"
  by code_simp

end
