(* ===== verification/RecipeSource.thy ===== *)
theory RecipeSource
  imports Archive
begin

text \<open>
  Which recipe renders a set of runs (core/apap-engine/recipe/source.go), and the operations of the run
  collection that it is chosen with (run/run.go, from \<open>CheckRunsUseSameRecipe\<close> on). An
  operation may create lock files, so each takes the file system and returns it. Loading the recipe that
  is stored in a run is an argument.
\<close>

section \<open>The runs and their recipes\<close>

datatype source_error =
  SourceRunErr run_error
| NoRuns
| DifferentRecipes string string
| DifferentSchemas string string
| OverrideEmpty
| UnknownPolicy
| BothFailed source_error source_error

definition GetRecipeName ::
  "run_env \<Rightarrow> RunCollection \<Rightarrow> (string \<Rightarrow> bool) \<Rightarrow> recipe_migration list \<Rightarrow> string \<Rightarrow> fs \<Rightarrow> (source_error + string) \<times> fs" where
  "GetRecipeName E c T M runID f =
     (case RunDescription E c T M f runID of
        (Inl e, f') \<Rightarrow> (Inl (SourceRunErr e), f')
      | (Inr desc, f') \<Rightarrow> (Inr (dRecipeName desc), f'))"

definition GetStartTime ::
  "run_env \<Rightarrow> RunCollection \<Rightarrow> (string \<Rightarrow> bool) \<Rightarrow> recipe_migration list \<Rightarrow> string \<Rightarrow> fs \<Rightarrow> (source_error + string) \<times> fs" where
  "GetStartTime E c T M runID f =
     (case RunDescription E c T M f runID of
        (Inl e, f') \<Rightarrow> (Inl (SourceRunErr e), f')
      | (Inr desc, f') \<Rightarrow> (Inr (dStartTime desc), f'))"

text \<open>The reference of a comparison is the first value and the run that has it.\<close>

definition compare :: "(string \<Rightarrow> string \<Rightarrow> source_error) \<Rightarrow> string \<Rightarrow> string \<Rightarrow> (string \<times> string) option \<Rightarrow> source_error + (string \<times> string) option" where
  "compare err runID x reference =
     (case reference of
        None \<Rightarrow> Inr (Some (x, runID))
      | Some (y, refID) \<Rightarrow> if x \<noteq> y then Inl (err refID runID) else Inr reference)"

text \<open>A run without a stored recipe is not compared with the others by its schema.\<close>

fun same_recipe_loop ::
  "(string \<Rightarrow> 's \<Rightarrow> (source_error + string) \<times> 's) \<Rightarrow> (string \<Rightarrow> 's \<Rightarrow> string option) \<Rightarrow> string list \<Rightarrow>
     (string \<times> string) option \<Rightarrow> (string \<times> string) option \<Rightarrow> 's \<Rightarrow> source_error option \<times> 's" where
  "same_recipe_loop recipe_name schema [] refName refSchema s = (None, s)"
| "same_recipe_loop recipe_name schema (runID # ids) refName refSchema s =
     (case recipe_name runID s of
        (Inl e, s1) \<Rightarrow> (Some e, s1)
      | (Inr recipeName, s1) \<Rightarrow>
         (case compare DifferentRecipes runID recipeName refName of
            Inl e \<Rightarrow> (Some e, s1)
          | Inr refName' \<Rightarrow>
             (case schema runID s1 of
                None \<Rightarrow> same_recipe_loop recipe_name schema ids refName' refSchema s1
              | Some v \<Rightarrow>
                 (case compare DifferentSchemas runID v refSchema of
                    Inl e \<Rightarrow> (Some e, s1)
                  | Inr refSchema' \<Rightarrow> same_recipe_loop recipe_name schema ids refName' refSchema' s1))))"

definition CheckRunsUseSameRecipe ::
  "(string \<Rightarrow> 's \<Rightarrow> (source_error + string) \<times> 's) \<Rightarrow> (string \<Rightarrow> 's \<Rightarrow> string option) \<Rightarrow> string list \<Rightarrow> 's \<Rightarrow> source_error option \<times> 's" where
  "CheckRunsUseSameRecipe recipe_name schema runIDs s =
     (if runIDs = [] then (Some NoRuns, s) else same_recipe_loop recipe_name schema runIDs None None s)"

text \<open>Here a reference whose name is empty counts as none.\<close>

fun same_name_loop ::
  "(string \<Rightarrow> 's \<Rightarrow> (source_error + string) \<times> 's) \<Rightarrow> string list \<Rightarrow> string \<Rightarrow> string \<Rightarrow> 's \<Rightarrow> source_error option \<times> 's" where
  "same_name_loop recipe_name [] referenceName referenceID s = (None, s)"
| "same_name_loop recipe_name (runID # ids) referenceName referenceID s =
     (case recipe_name runID s of
        (Inl e, s1) \<Rightarrow> (Some e, s1)
      | (Inr recipeName, s1) \<Rightarrow>
          if referenceName = [] then same_name_loop recipe_name ids recipeName runID s1
          else if recipeName \<noteq> referenceName then (Some (DifferentRecipes referenceID runID), s1)
          else same_name_loop recipe_name ids referenceName referenceID s1)"

definition CheckRunsUseSameRecipeNameOnly ::
  "(string \<Rightarrow> 's \<Rightarrow> (source_error + string) \<times> 's) \<Rightarrow> string list \<Rightarrow> 's \<Rightarrow> source_error option \<times> 's" where
  "CheckRunsUseSameRecipeNameOnly recipe_name runIDs s =
     (if runIDs = [] then (Some NoRuns, s) else same_name_loop recipe_name runIDs [] [] s)"

text \<open>Strings are compared byte by byte.\<close>

fun str_le :: "string \<Rightarrow> string \<Rightarrow> bool" where
  "str_le [] t = True"
| "str_le (a # s) [] = False"
| "str_le (a # s) (b # t) = (if a = b then str_le s t else (of_char a :: nat) < of_char b)"

fun newest_loop ::
  "(string \<Rightarrow> 's \<Rightarrow> (source_error + string) \<times> 's) \<Rightarrow> string list \<Rightarrow> string \<Rightarrow> string \<Rightarrow> 's \<Rightarrow> (source_error + string) \<times> 's" where
  "newest_loop start_time [] latestStartTime newestRunID s = (Inr newestRunID, s)"
| "newest_loop start_time (runID # ids) latestStartTime newestRunID s =
     (case start_time runID s of
        (Inl e, s1) \<Rightarrow> (Inl e, s1)
      | (Inr t, s1) \<Rightarrow>
          if str_le latestStartTime t then newest_loop start_time ids t runID s1
          else newest_loop start_time ids latestStartTime newestRunID s1)"

definition GetNewestRun :: "(string \<Rightarrow> 's \<Rightarrow> (source_error + string) \<times> 's) \<Rightarrow> string list \<Rightarrow> 's \<Rightarrow> (source_error + string) \<times> 's" where
  "GetNewestRun start_time runIDs s =
     (case runIDs of [] \<Rightarrow> (Inl NoRuns, s) | r # _ \<Rightarrow> newest_loop start_time runIDs [] r s)"

section \<open>Selecting the recipe\<close>

datatype SelectionPolicy = UseInstalledVersion | FromContent | OverrideByName | OtherPolicy

record 's RunRecipeLookup =
  luCheckSame :: "string list \<Rightarrow> 's \<Rightarrow> source_error option \<times> 's"
  luCheckSameName :: "string list \<Rightarrow> 's \<Rightarrow> source_error option \<times> 's"
  luNewest :: "string list \<Rightarrow> 's \<Rightarrow> (source_error + string) \<times> 's"
  luComponentPath :: "string \<Rightarrow> 's \<Rightarrow> source_error + string"
  luName :: "string \<Rightarrow> 's \<Rightarrow> (source_error + string) \<times> 's"

definition selectRenderSourceRecipeUseInstalledVersion :: "'s RunRecipeLookup \<Rightarrow> string list \<Rightarrow> 's \<Rightarrow> (source_error + string) \<times> 's" where
  "selectRenderSourceRecipeUseInstalledVersion c runIDs s =
     (case luCheckSameName c runIDs s of
        (Some e, s1) \<Rightarrow> (Inl e, s1)
      | (None, s1) \<Rightarrow>
         (case luNewest c runIDs s1 of
            (Inl e, s2) \<Rightarrow> (Inl e, s2)
          | (Inr runToUse, s2) \<Rightarrow> luName c runToUse s2))"

definition selectRenderSourceRecipeFromContent :: "'s RunRecipeLookup \<Rightarrow> string list \<Rightarrow> 's \<Rightarrow> (source_error + string) \<times> 's" where
  "selectRenderSourceRecipeFromContent c runIDs s =
     (case luCheckSame c runIDs s of
        (Some e, s1) \<Rightarrow> (Inl e, s1)
      | (None, s1) \<Rightarrow>
         (case luNewest c runIDs s1 of
            (Inl e, s2) \<Rightarrow> (Inl e, s2)
          | (Inr runToUse, s2) \<Rightarrow>
             (case luComponentPath c runToUse s2 of
                Inr recipe \<Rightarrow> (Inr recipe, s2)
              | Inl err \<Rightarrow>
                 (case selectRenderSourceRecipeUseInstalledVersion c runIDs s2 of
                    (Inl fallbackErr, s3) \<Rightarrow> (Inl (BothFailed fallbackErr err), s3)
                  | (Inr fallbackName, s3) \<Rightarrow> (Inr fallbackName, s3)))))"

definition SelectRenderSourceRecipe :: "'s RunRecipeLookup \<Rightarrow> SelectionPolicy \<Rightarrow> string \<Rightarrow> string list \<Rightarrow> 's \<Rightarrow> (source_error + string) \<times> 's" where
  "SelectRenderSourceRecipe c policy overrideName runIDs s =
     (case policy of
        OverrideByName \<Rightarrow> (if overrideName = [] then Inl OverrideEmpty else Inr overrideName, s)
      | FromContent \<Rightarrow> selectRenderSourceRecipeFromContent c runIDs s
      | UseInstalledVersion \<Rightarrow> selectRenderSourceRecipeUseInstalledVersion c runIDs s
      | OtherPolicy \<Rightarrow> (Inl UnknownPolicy, s))"

text \<open>The run collection as such a lookup; \<open>load\<close> is \<open>LoadRecipeComponent\<close>.\<close>

definition collection_lookup ::
  "run_env \<Rightarrow> RunCollection \<Rightarrow> (string \<Rightarrow> bool) \<Rightarrow> recipe_migration list \<Rightarrow> (string \<Rightarrow> fs \<Rightarrow> source_error + Component) \<Rightarrow> fs RunRecipeLookup" where
  "collection_lookup E c T M load =
     \<lparr>luCheckSame = CheckRunsUseSameRecipe (GetRecipeName E c T M)
        (\<lambda>r f. case load r f of Inl e \<Rightarrow> None | Inr component \<Rightarrow> Some (SchemaVersion (cType component))),
      luCheckSameName = CheckRunsUseSameRecipeNameOnly (GetRecipeName E c T M),
      luNewest = GetNewestRun (GetStartTime E c T M),
      luComponentPath = (\<lambda>r f. map_sum id cAbsolutePath (load r f)),
      luName = GetRecipeName E c T M\<rparr>"

section \<open>The runs belong to one recipe\<close>

text \<open>
  What the selection relies on: the name that is looked up is the recorded one, and looking up a name or a
  start time does not change what is recorded.
\<close>

locale name_lookup =
  fixes R :: "string set" and recipe_name start_time :: "string \<Rightarrow> 's \<Rightarrow> (source_error + string) \<times> 's"
    and recorded :: "'s \<Rightarrow> string \<Rightarrow> string option"
  assumes found: "r \<in> R \<Longrightarrow> recipe_name r s = (Inr n, s') \<Longrightarrow> recorded s r = Some n"
    and name_kept: "r \<in> R \<Longrightarrow> r' \<in> R \<Longrightarrow> recipe_name r s = (x, s') \<Longrightarrow> recorded s' r' = recorded s r'"
    and time_kept: "r \<in> R \<Longrightarrow> r' \<in> R \<Longrightarrow> start_time r s = (x, s') \<Longrightarrow> recorded s' r' = recorded s r'"
begin

lemma same_name:
  "same_name_loop recipe_name ids ref refID s = (None, s') \<Longrightarrow> set ids \<subseteq> R \<Longrightarrow> \<forall>r\<in>set ids. recorded s r \<noteq> Some [] \<Longrightarrow>
     (\<forall>r\<in>R. recorded s' r = recorded s r) \<and> (\<exists>n. (ref \<noteq> [] \<longrightarrow> n = ref) \<and> (\<forall>r\<in>set ids. recorded s r = Some n))"
proof (induction ids arbitrary: ref refID s)
  case (Cons r ids)
  then obtain n s1 where n: "recipe_name r s = (Inr n, s1)" by (auto split: prod.splits sum.splits)
  have r: "recorded s r = Some n" "n \<noteq> []" using found [OF _ n] Cons.prems(2,3) by auto
  have k: "\<forall>r'\<in>R. recorded s1 r' = recorded s r'" using name_kept [OF _ _ n] Cons.prems(2) by simp
  have p: "set ids \<subseteq> R" "\<forall>r\<in>set ids. recorded s1 r \<noteq> Some []" using Cons.prems(2,3) k by auto
  show ?case
  proof (cases "ref = []")
    case True
    with Cons.prems(1) n have "same_name_loop recipe_name ids n r s1 = (None, s')" by simp
    from Cons.IH [OF this p] k r p(1) True show ?thesis by (auto simp: subset_iff)
  next
    case False
    with Cons.prems(1) n have "n = ref" "same_name_loop recipe_name ids ref refID s1 = (None, s')" by (auto split: if_splits)
    with Cons.IH [OF this(2) p] k r p(1) False show ?thesis by (auto simp: subset_iff)
  qed
qed auto

lemma same_recipe:
  "same_recipe_loop recipe_name schema ids ref refSchema s = (None, s') \<Longrightarrow> set ids \<subseteq> R \<Longrightarrow>
     (\<forall>r\<in>R. recorded s' r = recorded s r) \<and> (\<exists>n. (\<forall>x. ref = Some x \<longrightarrow> n = fst x) \<and> (\<forall>r\<in>set ids. recorded s r = Some n))"
proof (induction ids arbitrary: ref refSchema s)
  case (Cons r ids)
  then obtain n s1 where n: "recipe_name r s = (Inr n, s1)" by (auto split: prod.splits sum.splits)
  have r: "recorded s r = Some n" using found [OF _ n] Cons.prems(2) by simp
  have k: "\<forall>r'\<in>R. recorded s1 r' = recorded s r'" using name_kept [OF _ _ n] Cons.prems(2) by simp
  obtain ref' where c: "compare DifferentRecipes r n ref = Inr ref'" using Cons.prems(1) n by (auto split: sum.splits)
  then obtain y where ref': "ref' = Some y" "fst y = n" "\<forall>x. ref = Some x \<longrightarrow> n = fst x"
    by (auto simp: compare_def split: option.splits if_splits)
  obtain sch where "same_recipe_loop recipe_name schema ids ref' sch s1 = (None, s')"
    using Cons.prems(1) n c by (auto split: sum.splits option.splits)
  from Cons.IH [OF this] Cons.prems(2) k r ref' show ?case by (auto simp: subset_iff)
next
  case Nil
  then show ?case by (cases ref) auto
qed

lemma newest_kept:
  "newest_loop start_time ids t r s = (Inr r', s') \<Longrightarrow> set ids \<subseteq> R \<Longrightarrow>
     (r' = r \<or> r' \<in> set ids) \<and> (\<forall>r\<in>R. recorded s' r = recorded s r)"
proof (induction ids arbitrary: t r s)
  case (Cons r0 ids)
  then obtain x s1 where x: "start_time r0 s = (Inr x, s1)" by (auto split: prod.splits sum.splits)
  have "\<forall>r\<in>R. recorded s1 r = recorded s r" using time_kept [OF _ _ x] Cons.prems(2) by simp
  with Cons x show ?case by (fastforce split: if_splits)
qed simp

lemma newest:
  assumes "GetNewestRun start_time ids s = (Inr r, s')" and "set ids \<subseteq> R"
  shows "r \<in> set ids" and "\<forall>r\<in>R. recorded s' r = recorded s r"
  using assms newest_kept [of ids "[]" _ s r s'] by (cases ids; fastforce simp: GetNewestRun_def simp del: newest_loop.simps)+

lemma installed:
  assumes "selectRenderSourceRecipeUseInstalledVersion c ids s = (Inr x, s')" and "set ids \<subseteq> R"
    and "luCheckSameName c = CheckRunsUseSameRecipeNameOnly recipe_name" and "luNewest c = GetNewestRun start_time" and "luName c = recipe_name"
    and "\<forall>r\<in>set ids. recorded s r \<noteq> Some []"
  shows "ids \<noteq> [] \<and> (\<forall>r\<in>set ids. recorded s r = Some x)"
proof -
  obtain s1 r s2 where a: "ids \<noteq> []" "same_name_loop recipe_name ids [] [] s = (None, s1)" "GetNewestRun start_time ids s1 = (Inr r, s2)"
      "recipe_name r s2 = (Inr x, s')"
    using assms(1,3-5) by (auto simp: selectRenderSourceRecipeUseInstalledVersion_def CheckRunsUseSameRecipeNameOnly_def
        split: prod.splits sum.splits option.splits if_splits)
  from same_name [OF a(2) assms(2,6)] obtain n where n: "\<forall>r\<in>R. recorded s1 r = recorded s r" "\<forall>r\<in>set ids. recorded s r = Some n" by auto
  note w = newest [OF a(3) assms(2)]
  from found [OF _ a(4)] w n assms(2) have "n = x" by auto
  with a(1) n(2) show ?thesis by simp
qed

lemma selected:
  assumes "SelectRenderSourceRecipe c policy name ids s = (Inr x, s')" and "policy = UseInstalledVersion \<or> policy = FromContent"
    and "set ids \<subseteq> R" and "luCheckSame c = CheckRunsUseSameRecipe recipe_name schema"
    and "luCheckSameName c = CheckRunsUseSameRecipeNameOnly recipe_name" and "luNewest c = GetNewestRun start_time" and "luName c = recipe_name"
    and "\<forall>r\<in>set ids. recorded s r \<noteq> Some []"
  shows "ids \<noteq> [] \<and> (\<exists>n. (\<forall>r\<in>set ids. recorded s r = Some n) \<and> (policy = UseInstalledVersion \<longrightarrow> x = n))"
proof (cases "policy = UseInstalledVersion")
  case True
  with installed [OF _ assms(3,5-8)] assms(1) show ?thesis by (auto simp: SelectRenderSourceRecipe_def)
next
  case False
  with assms(1,2) have "selectRenderSourceRecipeFromContent c ids s = (Inr x, s')" by (simp add: SelectRenderSourceRecipe_def)
  then obtain s1 where "luCheckSame c ids s = (None, s1)"
    by (auto simp: selectRenderSourceRecipeFromContent_def split: prod.splits option.splits)
  then have "ids \<noteq> []" "same_recipe_loop recipe_name schema ids None None s = (None, s1)"
    by (auto simp: assms(4) CheckRunsUseSameRecipe_def split: if_splits)
  with same_recipe assms(3) False show ?thesis by blast
qed

end

definition recorded_name ::
  "run_env \<Rightarrow> RunCollection \<Rightarrow> (string \<Rightarrow> bool) \<Rightarrow> recipe_migration list \<Rightarrow> fs \<Rightarrow> string \<Rightarrow> string option" where
  "recorded_name E c T M f r = (case describe E c T M r f of Inl e \<Rightarrow> None | Inr d \<Rightarrow> Some (dRecipeName d))"

lemma description_found:
  "collection_ok c \<Longrightarrow> plain_comp r \<Longrightarrow> RunDescription E c T M f r = (Inr d, f') \<Longrightarrow> recorded_name E c T M f r = Some (dRecipeName d)"
  by (simp add: RunDescription_iff recorded_name_def)

lemma description_kept:
  assumes "collection_ok c" and "bases_apart c" and "plain_comp r" and "plain_comp r'" and "RunDescription E c T M f r = (x, f')"
  shows "recorded_name E c T M f' r' = recorded_name E c T M f r'"
proof -
  have "same_view c r' f f'"
  proof (cases "r = r'")
    case True
    with RunDescription_view [OF assms(1,4), of f E T M] assms(5) show ?thesis by simp
  next
    case False
    with operations_confined(1) [OF assms(1,3), of f E T M] confined_view [OF assms(1,2)] assms(5) show ?thesis by (metis snd_conv)
  qed
  from view_reads(4) [OF assms(1,4) this, of E T M] show ?thesis by (simp add: recorded_name_def)
qed

interpretation descriptions: name_lookup "{r. plain_comp r \<and> collection_ok c \<and> bases_apart c}" "GetRecipeName E c T M" "GetStartTime E c T M" "recorded_name E c T M"
  for E c T M
proof unfold_locales
  fix r f n f'
  assume "r \<in> {r. plain_comp r \<and> collection_ok c \<and> bases_apart c}" "GetRecipeName E c T M r f = (Inr n, f')"
  then show "recorded_name E c T M f r = Some n"
    using description_found by (auto simp: GetRecipeName_def split: prod.splits sum.splits)
next
  fix r r' f x f'
  assume r: "r \<in> {r. plain_comp r \<and> collection_ok c \<and> bases_apart c}" "r' \<in> {r. plain_comp r \<and> collection_ok c \<and> bases_apart c}"
  show "GetRecipeName E c T M r f = (x, f') \<Longrightarrow> recorded_name E c T M f' r' = recorded_name E c T M f r'"
    "GetStartTime E c T M r f = (x, f') \<Longrightarrow> recorded_name E c T M f' r' = recorded_name E c T M f r'"
    using r description_kept by (auto simp: GetRecipeName_def GetStartTime_def split: prod.splits sum.splits)
qed

text \<open>
  Runs are rendered together only if they belong to one recipe: unless the recipe is overridden by
  name, a successful selection means that there is a run and that all runs record the same recipe, whose name is the
  one selected for the installed version. (The check of the names alone takes a run without a recipe name
  for no run, so the names must not be empty.)
\<close>

theorem selected_runs_share_recipe:
  assumes "SelectRenderSourceRecipe (collection_lookup E c T M load) policy name ids f = (Inr x, f')"
    and "policy = UseInstalledVersion \<or> policy = FromContent" and "collection_ok c" and "bases_apart c"
    and "\<forall>r\<in>set ids. plain_comp r \<and> recorded_name E c T M f r \<noteq> Some []"
  shows "ids \<noteq> [] \<and> (\<exists>n. (\<forall>r\<in>set ids. recorded_name E c T M f r = Some n) \<and> (policy = UseInstalledVersion \<longrightarrow> x = n))"
  by (rule descriptions.selected [OF assms(1,2), of c E T M]) (use assms(3-5) in \<open>auto simp: collection_lookup_def\<close>)

text \<open>Two runs, one of which may have no recipe name.\<close>

definition two_runs :: "string \<Rightarrow> string \<Rightarrow> fs" where
  "two_runs a b =
     [([], DirNode), ([''p''], DirNode), ([''p'', ''runs''], DirNode), ([''p'', ''runs'', ''a''], DirNode), ([''p'', ''runs'', ''b''], DirNode),
      ([''p'', ''runs'', ''a'', ''metadata.json''], FileNode (MetadataFile (zero_metadata\<lparr>RecipeName := a\<rparr>))),
      ([''p'', ''runs'', ''a'', ''manifest.json''], FileNode (ManifestFile \<lparr>Entries = [], ToolsUsed = []\<rparr>)),
      ([''p'', ''runs'', ''b'', ''metadata.json''], FileNode (MetadataFile (zero_metadata\<lparr>RecipeName := b\<rparr>))),
      ([''p'', ''runs'', ''b'', ''manifest.json''], FileNode (ManifestFile \<lparr>Entries = [], ToolsUsed = []\<rparr>))]"

definition demo_lookup :: "fs RunRecipeLookup" where
  "demo_lookup = collection_lookup demo_run_env demo_collection (\<lambda>_. True) [] (\<lambda>_ _. Inl NoRuns)"

theorem selected_runs_share_recipe_witness:
  "fst (SelectRenderSourceRecipe demo_lookup FromContent [] [''a'', ''b''] (two_runs ''hot'' ''hot'')) = Inr ''hot'' \<and>
   (\<exists>n. \<forall>r\<in>set [''a'', ''b'']. recorded_name demo_run_env demo_collection (\<lambda>_. True) [] (two_runs ''hot'' ''hot'') r = Some n)"
proof -
  let ?s = "SelectRenderSourceRecipe demo_lookup FromContent [] [''a'', ''b''] (two_runs ''hot'' ''hot'')"
  have s: "fst ?s = Inr ''hot''" by code_simp
  then have 1: "SelectRenderSourceRecipe (collection_lookup demo_run_env demo_collection (\<lambda>_. True) [] (\<lambda>_ _. Inl NoRuns)) FromContent []
      [''a'', ''b''] (two_runs ''hot'' ''hot'') = (Inr ''hot'', snd ?s)" unfolding demo_lookup_def by (metis prod.collapse)
  have 2: "bases_apart demo_collection" by code_simp
  have 3: "\<forall>r\<in>set [''a'', ''b'']. plain_comp r \<and> recorded_name demo_run_env demo_collection (\<lambda>_. True) [] (two_runs ''hot'' ''hot'') r \<noteq> Some []"
    by code_simp
  from selected_runs_share_recipe [OF 1 _ demo_collection_ok 2 3] s show ?thesis by blast
qed

text \<open>
  A run that records no recipe name is not compared: the installed recipe of the other run is selected
  for both when the nameless run comes first, and refused when it comes second.
\<close>

lemma nameless_run_not_compared:
  "fst (SelectRenderSourceRecipe demo_lookup UseInstalledVersion [] [''a'', ''b''] (two_runs [] ''hot'')) = Inr ''hot''"
  "fst (SelectRenderSourceRecipe demo_lookup UseInstalledVersion [] [''b'', ''a''] (two_runs [] ''hot'')) = Inl (DifferentRecipes ''b'' ''a'')"
  by code_simp+

end
