(* ===== verification/ToolExecution.thy ===== *)
theory ToolExecution
  imports Stages RunUpdate Migrations
begin

text \<open>
  What a recipe does around its tools (core/apap-engine/recipe/execution\_context.go): the monitor that
  stops the tools when a profiled process ends, the record of whether a run can be stopped, the
  lookup of the capabilities of a tool, and the copy of files between localities.
\<close>

section \<open>The workload monitor\<close>

text \<open>The processes to monitor are a set; \<open>None\<close> if there is nothing to monitor.\<close>

definition attached :: "Workload \<Rightarrow> int list" where
  "attached w = (case w of WorkloadAttach pid \<Rightarrow> [pid] | _ \<Rightarrow> [])"

definition collectMonitorTargets :: "Workload list \<Rightarrow> int list option" where
  "collectMonitorTargets ws =
     (let pids = remdups (concat (map attached ws)) in if pids = [] then None else Some pids)"

definition shouldStopForMonitorTargets :: "int list \<Rightarrow> int list \<Rightarrow> bool" where
  "shouldStopForMonitorTargets pids processes =
     (if pids = [] then False else list_ex (\<lambda>pid. pid \<notin> set processes) pids)"

text \<open>
  What happens to the monitor: a poll, which fails or lists the running processes, or the end of its
  context. Its stop channel must not be closed twice, so the closings are counted.
\<close>

datatype monitor_event = Polled "gerror + int list" | MonitorDone

record monitor =
  mStopClosed :: nat
  mRunning :: bool

definition poll :: "int list \<Rightarrow> gerror + int list \<Rightarrow> bool" where
  "poll pids r = (case r of Inl e \<Rightarrow> False | Inr procs \<Rightarrow> shouldStopForMonitorTargets pids procs)"

fun monitor_step :: "int list \<Rightarrow> monitor_event \<Rightarrow> monitor \<Rightarrow> monitor" where
  "monitor_step pids (Polled r) m =
     (if mRunning m \<and> poll pids r then m\<lparr>mStopClosed := mStopClosed m + 1, mRunning := False\<rparr> else m)"
| "monitor_step pids MonitorDone m = m\<lparr>mRunning := False\<rparr>"

definition startWorkloadMonitor :: "int list option \<Rightarrow> monitor_event list \<Rightarrow> monitor" where
  "startWorkloadMonitor targets evs =
     (case targets of
        None \<Rightarrow> \<lparr>mStopClosed = 1, mRunning = False\<rparr>
      | Some pids \<Rightarrow> foldl (\<lambda>m e. monitor_step pids e m) \<lparr>mStopClosed = 0, mRunning = True\<rparr> evs)"

text \<open>
  Without anything to monitor there is no stop channel, and cancelling and waiting do nothing. The clean-up
  cancels the monitor, waits for it, then runs the clean-up of the engine.
\<close>

datatype cleanup_action = CancelMonitor | AwaitMonitor | EngineCleanup

definition composeCleanup :: "cleanup_action list \<Rightarrow> cleanup_action list option \<Rightarrow> cleanup_action list option \<Rightarrow> cleanup_action list" where
  "composeCleanup cleanup cancel finished =
     (case cancel of None \<Rightarrow> [] | Some c \<Rightarrow> c) @ (case finished of None \<Rightarrow> [] | Some d \<Rightarrow> d) @ cleanup"

definition setupWorkloadMonitor :: "Workload list \<Rightarrow> int list option \<times> cleanup_action list" where
  "setupWorkloadMonitor ws =
     (case collectMonitorTargets ws of
        None \<Rightarrow> (None, composeCleanup [EngineCleanup] (Some []) (Some []))
      | Some pids \<Rightarrow> (Some pids, composeCleanup [EngineCleanup] (Some [CancelMonitor]) (Some [AwaitMonitor])))"

text \<open>The merged stop channel is closed when the run ends, the user stops it or the monitor does.\<close>

definition mergeStopChannels :: "bool \<Rightarrow> bool \<Rightarrow> bool option \<Rightarrow> bool" where
  "mergeStopChannels ctxDone primary secondary =
     (case secondary of None \<Rightarrow> primary | Some s \<Rightarrow> ctxDone \<or> primary \<or> s)"

definition tools_stopped :: "Workload list \<Rightarrow> bool \<Rightarrow> bool \<Rightarrow> monitor_event list \<Rightarrow> bool" where
  "tools_stopped ws ctxDone userStop evs =
     mergeStopChannels ctxDone userStop
       (map_option (\<lambda>pids. mStopClosed (startWorkloadMonitor (Some pids) evs) > 0) (fst (setupWorkloadMonitor ws)))"

section \<open>Stop support and capabilities\<close>

text \<open>A tool is found or not, and supports stopping or not. A cancelled run records nothing.\<close>

definition batch_supports_stop :: "(string \<times> string \<Rightarrow> bool option) \<Rightarrow> (string \<times> string) list \<Rightarrow> bool" where
  "batch_supports_stop find_tool tools = foldl (\<lambda>b t. case find_tool t of None \<Rightarrow> False | Some s \<Rightarrow> b \<and> s) True tools"

definition recordRunStopSupport ::
  "run_env \<Rightarrow> RunCollection \<Rightarrow> string option \<Rightarrow> (string \<times> string \<Rightarrow> bool option) \<Rightarrow> (string \<times> string) list \<Rightarrow> bool \<Rightarrow> bool \<Rightarrow> fs \<Rightarrow>
     run_error option \<times> fs" where
  "recordRunStopSupport E c updater find_tool tools ctxErr ctxErrAfter f =
     (case updater of
        None \<Rightarrow> (None, f)
      | Some run \<Rightarrow>
          if tools = [] \<or> ctxErr then (None, f)
          else case AccumulateSupportsStop E c f run (batch_supports_stop find_tool tools) of
                 (Inl e, f') \<Rightarrow> (if ctxErrAfter then None else Some e, f')
               | (Inr _, f') \<Rightarrow> (None, f'))"

record 'cap RunCapabilities =
  CapabilitiesPerTool :: "string \<rightharpoonup> 'cap"
  rcMigrations :: "PathMigration list"

datatype capability_error = IndexOutOfBounds | ToolNotFound | CapMigration migrate_error

definition invocation_path :: "string \<Rightarrow> int \<Rightarrow> string" where
  "invocation_path toolName i = ''tool/'' @ toolName @ ''/'' @ Itoa i"

definition tool_recorded :: "ToolUsed list \<Rightarrow> string \<Rightarrow> string option \<Rightarrow> int \<Rightarrow> bool" where
  "tool_recorded tools toolName migrated i =
     list_ex (\<lambda>t. (tuTool t = toolName \<or> (case migrated of None \<Rightarrow> False | Some m \<Rightarrow> tuTool t = m)) \<and> tuInvocation t = i) tools"

definition check_tool_used ::
  "(PathMigration list \<Rightarrow> PathMigration list) \<Rightarrow> PathMigration list \<Rightarrow> ToolUsed list option \<Rightarrow> string \<Rightarrow> int \<Rightarrow> capability_error option" where
  "check_tool_used srt ms toolsUsed toolName i =
     (case toolsUsed of
        None \<Rightarrow> None
      | Some tools \<Rightarrow>
         (case MigrateToolName srt toolName ms of
            Inl e \<Rightarrow> Some (CapMigration e)
          | Inr migrated \<Rightarrow> if tool_recorded tools toolName migrated i then None else Some ToolNotFound))"

text \<open>An invocation without capabilities has an empty set of them, here \<open>None\<close>.\<close>

definition find_capabilities ::
  "(PathMigration list \<Rightarrow> PathMigration list) \<Rightarrow> 'cap RunCapabilities \<Rightarrow> string \<Rightarrow> capability_error + 'cap option" where
  "find_capabilities srt caps p =
     (case CapabilitiesPerTool caps p of
        Some c \<Rightarrow> Inr (Some c)
      | None \<Rightarrow>
         (case MigratePath srt p (rcMigrations caps) of
            Inl e \<Rightarrow> Inl (CapMigration e)
          | Inr None \<Rightarrow> Inr None
          | Inr (Some q) \<Rightarrow> Inr (CapabilitiesPerTool caps q)))"

definition GetToolCapabilities ::
  "(PathMigration list \<Rightarrow> PathMigration list) \<Rightarrow> 'cap RunCapabilities list \<Rightarrow> ToolUsed list option list \<Rightarrow> int \<Rightarrow> string \<Rightarrow> int \<Rightarrow>
     capability_error + 'cap option" where
  "GetToolCapabilities srt runCapabilities toolsUsed runIndex toolName i =
     (if runIndex < 0 \<or> runIndex \<ge> int (length runCapabilities) \<or> runIndex \<ge> int (length toolsUsed) then Inl IndexOutOfBounds
      else
        let caps = runCapabilities ! nat runIndex in
        case check_tool_used srt (rcMigrations caps) (toolsUsed ! nat runIndex) toolName i of
          Some e \<Rightarrow> Inl e
        | None \<Rightarrow> find_capabilities srt caps (invocation_path toolName i))"

section \<open>Copies between localities\<close>

datatype copy_error = UnsupportedSource string | UnsupportedDestination string | TransferManagerDisabled | CopyFailed gerror

definition copyFile ::
  "string \<Rightarrow> string \<Rightarrow> bool \<Rightarrow> (string \<Rightarrow> string) \<Rightarrow> (string \<Rightarrow> string \<Rightarrow> gerror option) \<Rightarrow> string \<Rightarrow> string \<Rightarrow> copy_error option" where
  "copyFile sourceLocality destinationLocality hasTransferManager fullPath copyAndWait sourcePath destinationPath =
     (if sourceLocality \<noteq> ''target'' then Some (UnsupportedSource sourceLocality)
      else if destinationLocality \<noteq> ''host'' then Some (UnsupportedDestination destinationLocality)
      else if \<not> hasTransferManager then Some TransferManagerDisabled
      else map_option CopyFailed (copyAndWait (fullPath sourcePath) destinationPath))"

section \<open>When the tools are stopped\<close>

fun live_polls :: "monitor_event list \<Rightarrow> int list list" where
  "live_polls [] = []"
| "live_polls (MonitorDone # evs) = []"
| "live_polls (Polled (Inl e) # evs) = live_polls evs"
| "live_polls (Polled (Inr procs) # evs) = procs # live_polls evs"

lemma stopped_monitor: "\<not> mRunning m \<Longrightarrow> mStopClosed (foldl (\<lambda>m e. monitor_step pids e m) m evs) = mStopClosed m"
proof (induction evs arbitrary: m)
  case (Cons e evs)
  then show ?case by (cases e) auto
qed simp

lemma monitor_closes:
  "mRunning m \<Longrightarrow> mStopClosed (foldl (\<lambda>m e. monitor_step pids e m) m evs) =
     mStopClosed m + (if \<exists>procs\<in>set (live_polls evs). shouldStopForMonitorTargets pids procs then 1 else 0)"
proof (induction evs arbitrary: m rule: live_polls.induct)
  case (2 evs)
  then show ?case by (simp add: stopped_monitor)
next
  case (4 procs evs)
  then show ?case by (auto simp: poll_def stopped_monitor)
qed (auto simp: poll_def)

lemma should_stop_iff: "shouldStopForMonitorTargets pids procs \<longleftrightarrow> \<not> set pids \<subseteq> set procs"
  by (auto simp: shouldStopForMonitorTargets_def list_ex_iff)

text \<open>
  The tools of a recipe are asked to stop exactly if the user asks for it or, when they profile running
  processes, if the run is over or a poll finds that one of those processes has ended; polls that fail do
  not stop anything, and the stop channel of the monitor is closed at most once.
\<close>

theorem tools_stopped_iff:
  shows "(tools_stopped ws ctxDone userStop evs \<longleftrightarrow>
     userStop \<or> (\<exists>pid. WorkloadAttach pid \<in> set ws) \<and>
       (ctxDone \<or> (\<exists>procs\<in>set (live_polls evs). \<exists>pid. WorkloadAttach pid \<in> set ws \<and> pid \<notin> set procs))) \<and>
    mStopClosed (startWorkloadMonitor (collectMonitorTargets ws) evs) \<le> 1"
proof -
  let ?pids = "remdups (concat (map attached ws))"
  have "pid \<in> set (attached w) \<longleftrightarrow> w = WorkloadAttach pid" for pid w by (cases w) (auto simp: attached_def)
  then have pids: "set ?pids = {pid. WorkloadAttach pid \<in> set ws}" by auto
  have empty: "?pids = [] \<longleftrightarrow> (\<forall>pid. WorkloadAttach pid \<notin> set ws)" unfolding set_empty [symmetric] pids by blast
  have closed: "mStopClosed (startWorkloadMonitor (Some ?pids) evs) =
      (if \<exists>procs\<in>set (live_polls evs). \<not> set ?pids \<subseteq> set procs then 1 else 0)"
    unfolding startWorkloadMonitor_def by (simp add: monitor_closes should_stop_iff)
  show ?thesis
  proof (cases "?pids = []")
    case True
    then have c: "collectMonitorTargets ws = None" by (simp only: collectMonitorTargets_def Let_def) simp
    from True empty have "\<nexists>pid. WorkloadAttach pid \<in> set ws" by blast
    then show ?thesis
      unfolding tools_stopped_def setupWorkloadMonitor_def c option.case fst_conv option.map mergeStopChannels_def startWorkloadMonitor_def by simp
  next
    case False
    then have c: "collectMonitorTargets ws = Some ?pids" by (simp only: collectMonitorTargets_def Let_def if_False)
    have some: "\<exists>pid. WorkloadAttach pid \<in> set ws" using False empty by blast
    have "(\<not> set ?pids \<subseteq> set procs) \<longleftrightarrow> (\<exists>pid. WorkloadAttach pid \<in> set ws \<and> pid \<notin> set procs)" for procs
      unfolding pids by blast
    with some show ?thesis
      unfolding tools_stopped_def setupWorkloadMonitor_def c option.case fst_conv option.map mergeStopChannels_def closed by (simp, blast)
  qed
qed

text \<open>The monitor does not wait for all processes: one of two has ended, and the tools are stopped.\<close>

lemma monitor_stops_on_first_exit: "tools_stopped [WorkloadAttach 7, WorkloadAttach 8] False False [Polled (Inr [8, 1])]"
  by (simp add: tools_stopped_def setupWorkloadMonitor_def collectMonitorTargets_def attached_def startWorkloadMonitor_def mergeStopChannels_def
      poll_def shouldStopForMonitorTargets_def)

text \<open>Stop support is recorded for a batch exactly if every tool is known and supports it.\<close>

lemma batch_supports_stop_iff: "batch_supports_stop find_tool tools \<longleftrightarrow> (\<forall>t\<in>set tools. find_tool t = Some True)"
proof -
  have "foldl (\<lambda>b t. case find_tool t of None \<Rightarrow> False | Some s \<Rightarrow> b \<and> s) b tools \<longleftrightarrow> b \<and> (\<forall>t\<in>set tools. find_tool t = Some True)" for b
    by (induction tools arbitrary: b) (auto split: option.splits)
  then show ?thesis by (simp add: batch_supports_stop_def)
qed

end
