(* ===== verification/RecipeJob.thy ===== *)
theory RecipeJob
  imports Driver
begin

text \<open>
  A recipe that runs in the background (core/apap-engine/recipe/runtime/recipe\_job.go) and what its client
  is told (recipe/notifiers.go). Each notification, the end of the first transfer phase and the
  end of the run is one step, because the notifier is locked while it forwards a notification.
\<close>

section \<open>Notifiers\<close>

datatype notification =
  StageStart StageInfo
| StageEnd StageInfo "gerror option"
| StageProgress StageInfo int int
| StageCancelled StageInfo
| RunCreated string
| RunMetadataChanged string

definition background_stage :: string where
  "background_stage = ''Retrieving recipe artifacts (background)''"

definition suppresses :: "StageInfo \<Rightarrow> bool" where
  "suppresses info \<longleftrightarrow> siName info = background_stage"

record DetachableNotifier =
  detached :: bool
  forwarded :: "notification list"

definition Detach :: "DetachableNotifier \<Rightarrow> DetachableNotifier" where
  "Detach d = d\<lparr>detached := True\<rparr>"

definition notify :: "notification \<Rightarrow> DetachableNotifier \<Rightarrow> DetachableNotifier" where
  "notify n d = (if detached d then d else d\<lparr>forwarded := forwarded d @ [n]\<rparr>)"

fun hidden :: "notification \<Rightarrow> bool" where
  "hidden (StageStart info) = suppresses info"
| "hidden (StageEnd info err) = suppresses info"
| "hidden (StageProgress info sent mx) = suppresses info"
| "hidden (StageCancelled info) = suppresses info"
| "hidden (RunCreated run) = False"
| "hidden (RunMetadataChanged reason) = False"

definition on_detachable :: "notification \<Rightarrow> DetachableNotifier \<Rightarrow> DetachableNotifier" where
  "on_detachable n d = (if hidden n then d else notify n d)"

text \<open>The log leaves out the progress and changes of the metadata.\<close>

fun logs :: "notification \<Rightarrow> bool" where
  "logs (StageProgress info sent mx) = False"
| "logs (RunMetadataChanged reason) = False"
| "logs _ = True"

section \<open>The job\<close>

text \<open>
  Without detaching, the client is notified directly. The channels of the first phase and of the end must not be
  closed or filled twice, so these are counted.
\<close>

datatype client = Direct "notification list" | Detachable DetachableNotifier

record RecipeJob =
  client_of :: client
  logged :: "notification list"
  phase1Done :: nat
  finished :: nat

definition StartRecipeJob :: "bool \<Rightarrow> RecipeJob" where
  "StartRecipeJob detachBackgroundTransfers =
     \<lparr>client_of = (if detachBackgroundTransfers then Detachable \<lparr>detached = False, forwarded = []\<rparr> else Direct []),
      logged = [], phase1Done = 0, finished = 0\<rparr>"

text \<open>The composite notifier tells the client first, then the log.\<close>

definition job_notify :: "notification \<Rightarrow> RecipeJob \<Rightarrow> RecipeJob" where
  "job_notify n j =
     j\<lparr>client_of := (case client_of j of Direct ns \<Rightarrow> Direct (ns @ [n]) | Detachable d \<Rightarrow> Detachable (on_detachable n d)),
       logged := (if logs n then logged j @ [n] else logged j)\<rparr>"

definition OnPhase1TransferComplete :: "bool \<Rightarrow> RecipeJob \<Rightarrow> RecipeJob" where
  "OnPhase1TransferComplete hasPendingBackgroundTransfers j =
     (case client_of j of
        Direct ns \<Rightarrow> j
      | Detachable d \<Rightarrow>
          if \<not> hasPendingBackgroundTransfers then j
          else j\<lparr>client_of := Detachable (Detach d), phase1Done := phase1Done j + 1\<rparr>)"

definition job_returns :: "RecipeJob \<Rightarrow> RecipeJob" where
  "job_returns j = j\<lparr>finished := finished j + 1\<rparr>"

datatype job_event = JNotify notification | JPhase1 bool | JReturn

fun job_step :: "job_event \<Rightarrow> RecipeJob \<Rightarrow> RecipeJob" where
  "job_step (JNotify n) j = job_notify n j"
| "job_step (JPhase1 pending) j = OnPhase1TransferComplete pending j"
| "job_step JReturn j = job_returns j"

definition job_run :: "bool \<Rightarrow> job_event list \<Rightarrow> RecipeJob" where
  "job_run detach evs = foldl (\<lambda>j e. job_step e j) (StartRecipeJob detach) evs"

section \<open>What the client is told\<close>

definition told :: "RecipeJob \<Rightarrow> notification list" where
  "told j = (case client_of j of Direct ns \<Rightarrow> ns | Detachable d \<Rightarrow> forwarded d)"

fun notifications :: "job_event list \<Rightarrow> notification list" where
  "notifications [] = []"
| "notifications (JNotify n # evs) = n # notifications evs"
| "notifications (_ # evs) = notifications evs"

definition before_detach :: "job_event list \<Rightarrow> job_event list" where
  "before_detach evs = takeWhile (\<lambda>e. e \<noteq> JPhase1 True) evs"

lemma notifications_append [simp]: "notifications (xs @ ys) = notifications xs @ notifications ys"
  by (induction xs rule: notifications.induct) auto

lemma job_run_snoc: "job_run b (evs @ [e]) = job_step e (job_run b evs)"
  by (simp add: job_run_def)

lemma before_detach_all: "before_detach evs = evs \<longleftrightarrow> JPhase1 True \<notin> set evs"
  by (auto simp: before_detach_def takeWhile_eq_all_conv)

lemma before_detach_snoc:
  "before_detach (evs @ [e]) = (if JPhase1 True \<in> set evs then before_detach evs else if e = JPhase1 True then evs else evs @ [e])"
  by (auto simp: before_detach_def takeWhile_tail takeWhile_append2)

lemma detached_state:
  "client_of (job_run True evs) =
     Detachable \<lparr>detached = (JPhase1 True \<in> set evs), forwarded = filter (\<lambda>n. \<not> hidden n) (notifications (before_detach evs))\<rparr>"
proof (induction evs rule: rev_induct)
  case (snoc e evs)
  show ?case
  proof (cases "JPhase1 True \<in> set evs")
    case True
    with snoc show ?thesis
      by (cases e) (simp_all add: job_run_snoc job_notify_def on_detachable_def notify_def OnPhase1TransferComplete_def Detach_def job_returns_def before_detach_snoc)
  next
    case False
    with snoc before_detach_all [of evs] show ?thesis
      by (cases e) (simp_all add: job_run_snoc job_notify_def on_detachable_def notify_def OnPhase1TransferComplete_def Detach_def job_returns_def before_detach_snoc)
  qed
qed (simp add: job_run_def StartRecipeJob_def before_detach_def)

lemma direct_state: "client_of (job_run False evs) = Direct (notifications evs)"
proof (induction evs rule: rev_induct)
  case (snoc e evs)
  then show ?case by (cases e) (auto simp: job_run_snoc job_notify_def OnPhase1TransferComplete_def job_returns_def)
qed (simp add: job_run_def StartRecipeJob_def)

lemma job_counts:
  "logged (job_run b evs) = filter logs (notifications evs) \<and> finished (job_run b evs) = count_list evs JReturn \<and>
   phase1Done (job_run b evs) = (if b then count_list evs (JPhase1 True) else 0)"
proof (induction evs rule: rev_induct)
  case (snoc e evs)
  then show ?case
    using detached_state [of evs] direct_state [of evs]
    by (cases e; cases b) (auto simp: job_run_snoc job_notify_def OnPhase1TransferComplete_def job_returns_def)
qed (simp add: job_run_def StartRecipeJob_def)

text \<open>
  A client that detaches from background transfers is told, in order, all that happened before the
  first phase completed with transfers pending, except for the background transfers themselves, and
  nothing afterwards; from then on the first phase is signalled. Any other client is told everything, and
  the log gets everything but the progress and the changes of the metadata in both cases.
\<close>

theorem detached_client_told:
  "told (job_run True evs) = filter (\<lambda>n. \<not> hidden n) (notifications (before_detach evs)) \<and>
   (phase1Done (job_run True evs) > 0 \<longleftrightarrow> before_detach evs \<noteq> evs) \<and>
   told (job_run False evs) = notifications evs \<and> phase1Done (job_run False evs) = 0 \<and>
   logged (job_run b evs) = filter logs (notifications evs)"
proof -
  have "count_list evs (JPhase1 True) > 0 \<longleftrightarrow> JPhase1 True \<in> set evs" using count_list_0_iff [of evs "JPhase1 True"] by (metis neq0_conv)
  with detached_state [of evs] direct_state [of evs] job_counts [of _ evs] before_detach_all [of evs] show ?thesis by (simp add: told_def)
qed

end
