(* ===== verification/ProcessManager.thy ===== *)
theory ProcessManager
  imports RunCollection
begin

text \<open>
  The process manager of the target agent (core/atperf-agent/process): launching a command with its
  standard streams redirected (\<open>StartProcessCommon\<close>), running one to completion
  (\<open>ExecCommandCommon\<close>), the registered processes and the two-stage shutdown.

  The operating system is a \<open>world\<close>: the descriptors that are open, the streams that were consumed
  and the signals that were sent. What its calls answer is in a \<open>launch_env\<close>: whether \<open>os.Pipe\<close>,
  \<open>Create\<close>, \<open>Stat\<close> and \<open>exec.Cmd.Start\<close> fail, the new PID, what the group controller writes to its
  pipe. The functions of this theory run a call without interference; \<open>ProcessShutdown\<close> interleaves
  the same operations.
\<close>

section \<open>Data\<close>

datatype RedirectMode = NoRedirect | ToFile | ToStream | ToBoth

definition IsStreamModeEnabled :: "RedirectMode \<Rightarrow> bool" where
  "IsStreamModeEnabled mode \<longleftrightarrow> mode = ToStream \<or> mode = ToBoth"

definition IsFileModeEnabled :: "RedirectMode \<Rightarrow> bool" where
  "IsFileModeEnabled mode \<longleftrightarrow> mode = ToFile \<or> mode = ToBoth"

record StreamRedirect =
  Mode :: RedirectMode
  FilePath :: string

datatype StdinMode = StdinNone | StdinBuffer | StdinOther int

record LaunchCommand =
  Command :: "string list"
  Affinity :: "string list"
  Environment :: "(string \<times> string) list"
  WorkingDirectory :: string

record StartProcess =
  spLaunch :: LaunchCommand
  spStdout :: StreamRedirect
  spStderr :: StreamRedirect
  spStdin :: StdinMode
  UseGroupController :: bool

text \<open>Handles hold descriptors; a stream is consumed at most once.\<close>

record streamHandle =
  reader :: "nat option"
  writer :: "nat option"
  hfile :: "nat option"

record redirectHandle =
  pr :: "nat option"
  pw :: "nat option"

record managedProcess =
  mpStdout :: "streamHandle option"
  mpStderr :: "streamHandle option"
  mpStdin :: "redirectHandle option"

datatype shutdownState = stateRunning | stateGraceful | stateForced

record processCommon =
  managedProcesses :: "int \<rightharpoonup> managedProcess"
  shutdownWg :: nat
  pcState :: shutdownState

definition newProcessCommon :: processCommon where
  "newProcessCommon = \<lparr>managedProcesses = Map.empty, shutdownWg = 0, pcState = stateRunning\<rparr>"

datatype osSignal = SIGINT | SIGKILL

record world =
  fds :: "nat list"
  next_fd :: nat
  consumed :: "nat list"
  sent :: "(osSignal \<times> int) list"

datatype stat_result = StatFile | StatDir | StatNotExist | StatFails

record launch_env =
  Stat :: "string \<Rightarrow> stat_result"
  pipe_fails :: "nat \<Rightarrow> bool"
  create_fails :: "string \<Rightarrow> bool"
  executable :: "string option"
  goos :: string
  environ :: "string list"
  start_fails :: bool
  not_found :: bool
  new_pid :: int
  child_output :: "string option"
  find_fails :: bool
  affinity_fails :: bool

datatype process_error =
    EmptyPath string
  | NoDirectory string
  | NotADirectory string
  | FileExists string
  | StatError string
  | InvalidStdout process_error
  | InvalidStderr process_error
  | SamePaths string
  | NoExecutable
  | PipeFailed
  | CreateFailed string
  | UnsupportedStdin StdinMode
  | StdoutSetup process_error
  | StderrSetup process_error
  | StdinSetup process_error
  | ErrNewProcessInShutdown
  | StartFailed
  | ReadChildPid process_error
  | ReadFailed
  | EmptyChildPid
  | ParseChildPid string
  | InvalidChildPid int
  | FindChildFailed int
  | AffinityFailed
  | NoCommandPanic
  | StreamNotAvailable int
  | AlreadyConsumed
  | PidNotFound int
  | NoStdin int
  | WriteFailed int
  | ProcessNotFound
  | ContextDone
  | SendFailed
  | StreamReadFailed
  | WaitFailed

section \<open>Handles\<close>

definition fd_open :: "world \<Rightarrow> nat \<times> world" where
  "fd_open w = (next_fd w, w\<lparr>fds := next_fd w # fds w, next_fd := Suc (next_fd w)\<rparr>)"

definition fd_close :: "nat option \<Rightarrow> world \<Rightarrow> world" where
  "fd_close x w = (case x of None \<Rightarrow> w | Some d \<Rightarrow> w\<lparr>fds := removeAll d (fds w)\<rparr>)"

definition os_Pipe :: "launch_env \<Rightarrow> world \<Rightarrow> (nat \<times> nat) option \<times> world" where
  "os_Pipe E w =
     (if pipe_fails E (next_fd w) then (None, w)
      else case fd_open w of (r, w1) \<Rightarrow> case fd_open w1 of (t, w2) \<Rightarrow> (Some (r, t), w2))"

definition closeWriters :: "streamHandle \<Rightarrow> world \<Rightarrow> world" where
  "closeWriters h w = fd_close (hfile h) (fd_close (writer h) w)"

definition closeReader :: "streamHandle \<Rightarrow> world \<Rightarrow> world" where
  "closeReader h w = fd_close (reader h) w"

definition close_stream :: "streamHandle \<Rightarrow> world \<Rightarrow> world" where
  "close_stream h w = closeReader h (closeWriters h w)"

definition close_redirect :: "redirectHandle \<Rightarrow> world \<Rightarrow> world" where
  "close_redirect h w = fd_close (pr h) (fd_close (pw h) w)"

definition newStreamHandle ::
  "launch_env \<Rightarrow> RedirectMode \<Rightarrow> string \<Rightarrow> world \<Rightarrow> (process_error + streamHandle) \<times> world" where
  "newStreamHandle E mode path w =
     (let h = \<lparr>reader = None, writer = None, hfile = None\<rparr>;
          piped = (if IsStreamModeEnabled mode
                   then case os_Pipe E w of
                          (None, w1) \<Rightarrow> (Inl PipeFailed, w1)
                        | (Some (r, t), w1) \<Rightarrow> (Inr (h\<lparr>reader := Some r, writer := Some t\<rparr>), w1)
                   else (Inr h, w))
      in case piped of
           (Inl e, w1) \<Rightarrow> (Inl e, w1)
         | (Inr h1, w1) \<Rightarrow>
             if IsFileModeEnabled mode
             then if create_fails E path then (Inl (CreateFailed path), close_stream h1 w1)
                  else case fd_open w1 of (d, w2) \<Rightarrow> (Inr (h1\<lparr>hfile := Some d\<rparr>), w2)
             else (Inr h1, w1))"

definition newRedirectHandle :: "launch_env \<Rightarrow> StdinMode \<Rightarrow> world \<Rightarrow> (process_error + redirectHandle) \<times> world" where
  "newRedirectHandle E mode w =
     (case mode of
        StdinNone \<Rightarrow> (Inr \<lparr>pr = None, pw = None\<rparr>, w)
      | StdinBuffer \<Rightarrow>
          (case os_Pipe E w of
             (None, w1) \<Rightarrow> (Inl PipeFailed, w1)
           | (Some (r, t), w1) \<Rightarrow> (Inr \<lparr>pr = Some r, pw = Some t\<rparr>, w1))
      | StdinOther i \<Rightarrow> (Inl (UnsupportedStdin mode), w))"

definition validateFilePath :: "launch_env \<Rightarrow> string \<Rightarrow> process_error option" where
  "validateFilePath E path =
     (if path = '''' \<or> path = ''.'' then Some (EmptyPath path)
      else let dir = path_Dir path in
        case Stat E dir of
          StatNotExist \<Rightarrow> Some (NoDirectory dir)
        | StatFails \<Rightarrow> Some (NoDirectory dir)
        | StatFile \<Rightarrow> Some (NotADirectory dir)
        | StatDir \<Rightarrow>
           (case Stat E path of
              StatFile \<Rightarrow> Some (FileExists path)
            | StatDir \<Rightarrow> Some (FileExists path)
            | StatNotExist \<Rightarrow> None
            | StatFails \<Rightarrow> Some (StatError path)))"

text \<open>Where the output of the process goes: to the file, to the pipe, to both or nowhere.\<close>

definition writerTarget :: "streamHandle \<Rightarrow> nat list" where
  "writerTarget h =
     (case (hfile h, writer h) of
        (Some f, Some t) \<Rightarrow> [f, t]
      | (Some f, None) \<Rightarrow> [f]
      | (None, Some t) \<Rightarrow> [t]
      | (None, None) \<Rightarrow> [])"

definition mergeEnv :: "launch_env \<Rightarrow> (string \<times> string) list \<Rightarrow> string list" where
  "mergeEnv E overrides = environ E @ map (\<lambda>(k, v). k @ ''='' @ v) overrides"

section \<open>Streams of a registered process\<close>

text \<open>A stream is identified by its reading descriptor, which only stream handles that are registered have.\<close>

definition markUsed :: "streamHandle \<Rightarrow> world \<Rightarrow> process_error option \<times> world" where
  "markUsed h w =
     (case reader h of
        None \<Rightarrow> (None, w)
      | Some d \<Rightarrow> if d \<in> set (consumed w) then (Some AlreadyConsumed, w) else (None, w\<lparr>consumed := d # consumed w\<rparr>))"

text \<open>
  One iteration of the loop of \<open>drainStream\<close>: the context is done, or \<open>Read\<close> yields bytes together
  with what it reports, and sending them succeeds or fails.
\<close>

datatype read_end = ReadMore | ReadEOF | ReadError bool
datatype iteration = CtxDone | Read string read_end bool

datatype drain_end = StillReading | Drained | DrainFailed process_error

fun drain_loop :: "iteration list \<Rightarrow> string list \<Rightarrow> drain_end \<times> string list" where
  "drain_loop [] out = (StillReading, out)"
| "drain_loop (CtxDone # is) out = (DrainFailed ContextDone, out)"
| "drain_loop (Read data r ok # is) out =
     (if data \<noteq> [] \<and> \<not> ok then (DrainFailed SendFailed, out)
      else let out' = (if data \<noteq> [] then out @ [data] else out) in
        case r of
          ReadEOF \<Rightarrow> (Drained, out')
        | ReadError ctx \<Rightarrow> (DrainFailed (if ctx then ContextDone else StreamReadFailed), out')
        | ReadMore \<Rightarrow> drain_loop is out')"

definition drainStream :: "streamHandle \<Rightarrow> iteration list \<Rightarrow> world \<Rightarrow> drain_end \<times> string list \<times> world" where
  "drainStream h is w =
     (case markUsed h w of
        (Some e, w1) \<Rightarrow> (DrainFailed e, [], w1)
      | (None, w1) \<Rightarrow>
          (case drain_loop is [] of (e, out) \<Rightarrow> (e, out, if e = StillReading then w1 else closeReader h w1)))"

definition StreamStdout :: "processCommon \<Rightarrow> int \<Rightarrow> iteration list \<Rightarrow> world \<Rightarrow> drain_end \<times> string list \<times> world" where
  "StreamStdout p pid is w =
     (case managedProcesses p pid of
        Some m \<Rightarrow>
          (case mpStdout m of Some h \<Rightarrow> drainStream h is w | None \<Rightarrow> (DrainFailed (StreamNotAvailable pid), [], w))
      | None \<Rightarrow> (DrainFailed (StreamNotAvailable pid), [], w))"

definition StreamStderr :: "processCommon \<Rightarrow> int \<Rightarrow> iteration list \<Rightarrow> world \<Rightarrow> drain_end \<times> string list \<times> world" where
  "StreamStderr p pid is w =
     (case managedProcesses p pid of
        Some m \<Rightarrow>
          (case mpStderr m of Some h \<Rightarrow> drainStream h is w | None \<Rightarrow> (DrainFailed (StreamNotAvailable pid), [], w))
      | None \<Rightarrow> (DrainFailed (StreamNotAvailable pid), [], w))"

definition WriteToStdin :: "processCommon \<Rightarrow> int \<Rightarrow> bool \<Rightarrow> world \<Rightarrow> process_error option \<times> world" where
  "WriteToStdin p pid write_ok w =
     (case managedProcesses p pid of
        None \<Rightarrow> (Some (PidNotFound pid), w)
      | Some m \<Rightarrow>
         (case mpStdin m of
            None \<Rightarrow> (Some (NoStdin pid), w)
          | Some h \<Rightarrow>
              if pw h = None then (Some (NoStdin pid), w)
              else (if write_ok then None else Some (WriteFailed pid), close_redirect h w)))"

text \<open>\<open>WaitForExitCode\<close> takes the exit code of a process that has exited, or the error of its context.\<close>

definition WaitForExitCode :: "int option \<Rightarrow> process_error + int" where
  "WaitForExitCode exited = (case exited of None \<Rightarrow> Inl ContextDone | Some c \<Rightarrow> Inr c)"

definition WaitProcess :: "processCommon \<Rightarrow> int \<Rightarrow> int option \<Rightarrow> process_error + int" where
  "WaitProcess p pid exited =
     (case managedProcesses p pid of None \<Rightarrow> Inl ProcessNotFound | Some m \<Rightarrow> WaitForExitCode exited)"

section \<open>The wait group and the registered processes\<close>

definition incrementWaitGroup :: "processCommon \<Rightarrow> processCommon option" where
  "incrementWaitGroup p = (if pcState p \<noteq> stateRunning then None else Some (p\<lparr>shutdownWg := Suc (shutdownWg p)\<rparr>))"

definition decrementWaitGroup :: "processCommon \<Rightarrow> processCommon" where
  "decrementWaitGroup p = p\<lparr>shutdownWg := shutdownWg p - 1\<rparr>"

definition managed_entry :: "streamHandle \<Rightarrow> streamHandle \<Rightarrow> redirectHandle \<Rightarrow> StartProcess \<Rightarrow> managedProcess" where
  "managed_entry out err inp sp =
     \<lparr>mpStdout = (if IsStreamModeEnabled (Mode (spStdout sp)) then Some out else None),
      mpStderr = (if IsStreamModeEnabled (Mode (spStderr sp)) then Some err else None),
      mpStdin = (if spStdin sp \<noteq> StdinNone then Some inp else None)\<rparr>"

definition store_process :: "int \<Rightarrow> managedProcess \<Rightarrow> processCommon \<Rightarrow> processCommon" where
  "store_process pid m p = p\<lparr>managedProcesses := (managedProcesses p)(pid \<mapsto> m)\<rparr>"

definition registerProcess ::
  "int \<Rightarrow> streamHandle \<Rightarrow> streamHandle \<Rightarrow> redirectHandle \<Rightarrow> StartProcess \<Rightarrow> processCommon \<Rightarrow> processCommon" where
  "registerProcess pid out err inp sp p = store_process pid (managed_entry out err inp sp) p"

definition delete_process :: "int \<Rightarrow> processCommon \<Rightarrow> processCommon" where
  "delete_process pid p = p\<lparr>managedProcesses := (managedProcesses p)(pid := None)\<rparr>"

definition ReleaseProcessHandles :: "int list \<Rightarrow> processCommon \<Rightarrow> processCommon" where
  "ReleaseProcessHandles pids p = foldl (\<lambda>p pid. delete_process pid p) p pids"

text \<open>
  \<open>InterruptProcess\<close> and \<open>KillProcess\<close> signal the process group of the PID. The callers here ignore
  the error of the system call.
\<close>

definition signal_group :: "osSignal \<Rightarrow> int \<Rightarrow> world \<Rightarrow> world" where
  "signal_group s pid w = w\<lparr>sent := sent w @ [(s, pid)]\<rparr>"

definition InterruptProcess :: "int \<Rightarrow> world \<Rightarrow> world" where
  "InterruptProcess pid w = signal_group SIGINT pid w"

definition KillProcess :: "int \<Rightarrow> world \<Rightarrow> world" where
  "KillProcess pid w = signal_group SIGKILL pid w"

definition signal_for :: "shutdownState \<Rightarrow> int \<Rightarrow> world \<Rightarrow> world" where
  "signal_for st pid w =
     (case st of stateRunning \<Rightarrow> w | stateGraceful \<Rightarrow> InterruptProcess pid w | stateForced \<Rightarrow> KillProcess pid w)"

definition applyInFlightShutdown :: "int \<Rightarrow> processCommon \<Rightarrow> world \<Rightarrow> world" where
  "applyInFlightShutdown pid p w = signal_for (pcState p) pid w"

text \<open>The critical section of \<open>shutdownProcesses\<close>, with whether it changed the state.\<close>

definition shutdown_transition :: "bool \<Rightarrow> processCommon \<Rightarrow> bool \<times> processCommon" where
  "shutdown_transition force p =
     (let prev = pcState p;
          next = (if force \<and> prev \<noteq> stateForced then stateForced
                  else if \<not> force \<and> prev = stateRunning then stateGraceful else prev)
      in (prev \<noteq> next, p\<lparr>pcState := next\<rparr>))"

section \<open>Commands\<close>

definition buildCmd :: "launch_env \<Rightarrow> LaunchCommand \<Rightarrow> process_error + (string \<times> string list)" where
  "buildCmd E lc =
     (let parts = (if Affinity lc \<noteq> [] \<and> goos E \<noteq> ''darwin''
                   then [''taskset'', ''-c'', Join (Affinity lc) '',''] else []) @ Command lc
      in case parts of [] \<Rightarrow> Inl NoCommandPanic | c # args \<Rightarrow> Inr (c, args))"

definition startProcessWithGroupController ::
  "launch_env \<Rightarrow> StartProcess \<Rightarrow> world \<Rightarrow> (process_error + (nat \<times> nat) \<times> StartProcess) \<times> world" where
  "startProcessWithGroupController E sp w =
     (case executable E of
        None \<Rightarrow> (Inl NoExecutable, w)
      | Some exe \<Rightarrow>
         (let lc = spLaunch sp;
              sp1 = sp\<lparr>spLaunch := lc\<lparr>Command :=
                [exe, ''start-group-controller'', ''--wait-for-child'', ''--child-pid-fd=3'', ''--''] @ Command lc\<rparr>\<rparr>
          in case os_Pipe E w of
               (None, w1) \<Rightarrow> (Inl PipeFailed, w1)
             | (Some rt, w1) \<Rightarrow> (Inr (rt, sp1), w1)))"

definition readChildPID :: "string option \<Rightarrow> process_error + int" where
  "readChildPID data =
     (case data of
        None \<Rightarrow> Inl ReadFailed
      | Some d \<Rightarrow>
          let pidStr = TrimSpace d in
          if pidStr = '''' then Inl EmptyChildPid
          else case Atoi pidStr of
                 None \<Rightarrow> Inl (ParseChildPid pidStr)
               | Some pid \<Rightarrow> if pid \<le> 0 then Inl (InvalidChildPid pid) else Inr pid)"

text \<open>
  The child PID that the group controller reports replaces the PID of the controller. On failure the
  handles are closed, the controller is killed and waited for, and the wait group is left. The PID
  pipe is closed by the caller, which also closes it on every other way out.
\<close>

definition close_handles :: "streamHandle \<times> streamHandle \<times> redirectHandle \<Rightarrow> world \<Rightarrow> world" where
  "close_handles hs w = (case hs of (out, err, inp) \<Rightarrow> close_redirect inp (close_stream err (close_stream out w)))"

definition readGroupControllerChildPid ::
  "launch_env \<Rightarrow> streamHandle \<times> streamHandle \<times> redirectHandle \<Rightarrow> processCommon \<Rightarrow> world \<Rightarrow>
   (process_error + int) \<times> processCommon \<times> world" where
  "readGroupControllerChildPid E hs p w =
     (let cleanup = (\<lambda>e. (Inl e, decrementWaitGroup p, close_handles hs w))
      in case readChildPID (child_output E) of
           Inl e \<Rightarrow> cleanup (ReadChildPid e)
         | Inr pid \<Rightarrow> if find_fails E then cleanup (FindChildFailed pid) else (Inr pid, p, w))"

section \<open>Starting a process\<close>

definition validate_redirect :: "launch_env \<Rightarrow> StreamRedirect \<Rightarrow> process_error + StreamRedirect" where
  "validate_redirect E s =
     (if IsFileModeEnabled (Mode s)
      then let s1 = s\<lparr>FilePath := Clean (FilePath s)\<rparr> in
           case validateFilePath E (FilePath s1) of Some e \<Rightarrow> Inl e | None \<Rightarrow> Inr s1
      else Inr s)"

definition validate_paths :: "launch_env \<Rightarrow> StartProcess \<Rightarrow> process_error + StartProcess" where
  "validate_paths E sp =
     (case validate_redirect E (spStdout sp) of
        Inl e \<Rightarrow> Inl (InvalidStdout e)
      | Inr out \<Rightarrow>
         (case validate_redirect E (spStderr sp) of
            Inl e \<Rightarrow> Inl (InvalidStderr e)
          | Inr err \<Rightarrow>
              if IsFileModeEnabled (Mode out) \<and> IsFileModeEnabled (Mode err) \<and> FilePath out = FilePath err
              then Inl (SamePaths (FilePath out))
              else Inr (sp\<lparr>spStdout := out, spStderr := err\<rparr>)))"

definition open_handles ::
  "launch_env \<Rightarrow> StartProcess \<Rightarrow> world \<Rightarrow>
   (process_error + streamHandle \<times> streamHandle \<times> redirectHandle) \<times> world" where
  "open_handles E sp w =
     (case newStreamHandle E (Mode (spStdout sp)) (FilePath (spStdout sp)) w of
        (Inl e, w1) \<Rightarrow> (Inl (StdoutSetup e), w1)
      | (Inr out, w1) \<Rightarrow>
         (case newStreamHandle E (Mode (spStderr sp)) (FilePath (spStderr sp)) w1 of
            (Inl e, w2) \<Rightarrow> (Inl (StderrSetup e), close_stream out w2)
          | (Inr err, w2) \<Rightarrow>
             (case newRedirectHandle E (spStdin sp) w2 of
                (Inl e, w3) \<Rightarrow> (Inl (StdinSetup e), close_stream err (close_stream out w3))
              | (Inr inp, w3) \<Rightarrow> (Inr (out, err, inp), w3))))"

text \<open>A process that was started, with the handles its waiting goroutine closes.\<close>

record started =
  stPid :: int
  stOut :: streamHandle
  stErr :: streamHandle
  stIn :: redirectHandle

definition launch_process ::
  "launch_env \<Rightarrow> StartProcess \<Rightarrow> streamHandle \<times> streamHandle \<times> redirectHandle \<Rightarrow> processCommon \<Rightarrow> world \<Rightarrow>
   (process_error + started) \<times> processCommon \<times> world" where
  "launch_process E sp hs p w =
     (case hs of (out, err, inp) \<Rightarrow>
      case incrementWaitGroup p of
        None \<Rightarrow> (Inl ErrNewProcessInShutdown, p, close_handles hs w)
      | Some p1 \<Rightarrow>
          if start_fails E then (Inl StartFailed, decrementWaitGroup p1, close_handles hs w)
          else
            (case (if UseGroupController sp then readGroupControllerChildPid E hs p1 w
                   else (Inr (new_pid E), p1, w)) of
               (Inl e, p2, w2) \<Rightarrow> (Inl e, p2, w2)
             | (Inr pid, p2, w2) \<Rightarrow>
                 if Affinity (spLaunch sp) \<noteq> [] \<and> affinity_fails E then (Inl AffinityFailed, p2, w2)
                 else let p3 = registerProcess pid out err inp sp p2 in
                      (Inr \<lparr>stPid = pid, stOut = out, stErr = err, stIn = inp\<rparr>, p3, applyInFlightShutdown pid p3 w2)))"

definition closePipe :: "(nat \<times> nat) option \<Rightarrow> world \<Rightarrow> world" where
  "closePipe pipe w = (case pipe of None \<Rightarrow> w | Some (r, t) \<Rightarrow> fd_close (Some t) (fd_close (Some r) w))"

definition group_controller ::
  "launch_env \<Rightarrow> StartProcess \<Rightarrow> world \<Rightarrow> (process_error + (nat \<times> nat) option \<times> StartProcess) \<times> world" where
  "group_controller E sp w =
     (if UseGroupController sp
      then case startProcessWithGroupController E sp w of
             (Inl e, w1) \<Rightarrow> (Inl e, w1)
           | (Inr (rt, sp2), w1) \<Rightarrow> (Inr (Some rt, sp2), w1)
      else (Inr (None, sp), w))"

definition StartProcessCommon ::
  "launch_env \<Rightarrow> StartProcess \<Rightarrow> processCommon \<Rightarrow> world \<Rightarrow> (process_error + started) \<times> processCommon \<times> world" where
  "StartProcessCommon E sp p w =
     (case validate_paths E sp of
        Inl e \<Rightarrow> (Inl e, p, w)
      | Inr sp1 \<Rightarrow>
         (case group_controller E sp1 w of
            (Inl e, w1) \<Rightarrow> (Inl e, p, w1)
          | (Inr (pipe, sp2), w1) \<Rightarrow>
             (case buildCmd E (spLaunch sp2) of
                Inl e \<Rightarrow> (Inl e, p, closePipe pipe w1)
              | Inr cmd \<Rightarrow>
                 (case open_handles E sp2 w1 of
                    (Inl e, w2) \<Rightarrow> (Inl e, p, closePipe pipe w2)
                  | (Inr hs, w2) \<Rightarrow>
                     (case launch_process E sp2 hs p w2 of (r, p3, w3) \<Rightarrow> (r, p3, closePipe pipe w3))))))"

text \<open>The goroutine that waits for the process, once it has exited.\<close>

definition process_exited :: "started \<Rightarrow> processCommon \<Rightarrow> world \<Rightarrow> processCommon \<times> world" where
  "process_exited st p w =
     (decrementWaitGroup p, close_redirect (stIn st) (closeWriters (stErr st) (closeWriters (stOut st) w)))"

section \<open>Executing a command\<close>

record CommandResult =
  Rc :: int
  cStdout :: string
  cStderr :: string

definition CommandNotFoundExitCode :: int where
  "CommandNotFoundExitCode = 127"

text \<open>
  The command runs to its end within the call, with the output it leaves in the two buffers;
  \<open>exit_code\<close> is \<open>None\<close> if the wait fails without a process state. The exit code is converted to 32
  bits.
\<close>

definition int32_of :: "int \<Rightarrow> int" where
  "int32_of i = (i + 2147483648) mod 4294967296 - 2147483648"

definition ExecCommandCommon ::
  "launch_env \<Rightarrow> LaunchCommand \<Rightarrow> int option \<Rightarrow> string \<Rightarrow> string \<Rightarrow> string \<Rightarrow> processCommon \<Rightarrow> world \<Rightarrow>
   (process_error + CommandResult) \<times> processCommon \<times> world" where
  "ExecCommandCommon E lc exit_code out err lookup_error p w =
     (case buildCmd E lc of
        Inl e \<Rightarrow> (Inl e, p, w)
      | Inr cmd \<Rightarrow>
          if not_found E
          then (Inr \<lparr>Rc = CommandNotFoundExitCode, cStdout = [], cStderr = lookup_error\<rparr>, p, w)
          else
            (case incrementWaitGroup p of
               None \<Rightarrow> (Inl ErrNewProcessInShutdown, p, w)
             | Some p1 \<Rightarrow>
                 if start_fails E then (Inl StartFailed, decrementWaitGroup p1, w)
                 else if Affinity lc \<noteq> [] \<and> affinity_fails E then (Inl AffinityFailed, p1, w)
                 else
                   let pid = new_pid E;
                       p2 = store_process pid \<lparr>mpStdout = None, mpStderr = None, mpStdin = None\<rparr> p1;
                       w2 = applyInFlightShutdown pid p2 w;
                       p3 = delete_process pid (decrementWaitGroup p2)
                   in case exit_code of
                        None \<Rightarrow> (Inl WaitFailed, p3, w2)
                      | Some rc \<Rightarrow> (Inr \<lparr>Rc = int32_of rc, cStdout = out, cStderr = err\<rparr>, p3, w2)))"

section \<open>Descriptors\<close>

definition fds_ok :: "world \<Rightarrow> bool" where
  "fds_ok w \<longleftrightarrow> (\<forall>d\<in>set (fds w). d < next_fd w)"

text \<open>\<open>w1\<close> is \<open>w\<close> with the fresh descriptors \<open>ds\<close> open.\<close>

definition opened :: "nat list \<Rightarrow> world \<Rightarrow> world \<Rightarrow> bool" where
  "opened ds w w1 \<longleftrightarrow> fds w1 = ds @ fds w \<and> (\<forall>d\<in>set ds. next_fd w \<le> d \<and> d < next_fd w1) \<and>
     next_fd w \<le> next_fd w1 \<and> sent w1 = sent w"

definition fds_without :: "nat list \<Rightarrow> nat list \<Rightarrow> nat list" where
  "fds_without ds xs = filter (\<lambda>d. d \<notin> set ds) xs"

abbreviation opt :: "nat option \<Rightarrow> nat list" where
  "opt x \<equiv> (case x of None \<Rightarrow> [] | Some d \<Rightarrow> [d])"

definition stream_fds :: "streamHandle \<Rightarrow> nat list" where
  "stream_fds h = opt (hfile h) @ opt (writer h) @ opt (reader h)"

definition redirect_fds :: "redirectHandle \<Rightarrow> nat list" where
  "redirect_fds h = opt (pw h) @ opt (pr h)"

definition handle_fds :: "streamHandle \<times> streamHandle \<times> redirectHandle \<Rightarrow> nat list" where
  "handle_fds hs = (case hs of (out, err, inp) \<Rightarrow> redirect_fds inp @ stream_fds err @ stream_fds out)"

lemma opened_refl [simp]: "opened [] w w"
  by (simp add: opened_def)

lemma opened_trans: "opened ds w w1 \<Longrightarrow> opened es w1 w2 \<Longrightarrow> opened (es @ ds) w w2"
  by (auto simp: opened_def)

lemma opened_ok: "opened ds w w1 \<Longrightarrow> fds_ok w \<Longrightarrow> fds_ok w1"
  by (auto simp: opened_def fds_ok_def)

lemma closed_opened: "opened ds w w1 \<Longrightarrow> fds_ok w \<Longrightarrow> set es = set ds \<Longrightarrow> fds_without es (fds w1) = fds w"
  by (fastforce simp: opened_def fds_ok_def fds_without_def filter_id_conv)

lemma fds_without_twice [simp]: "fds_without ds (fds_without es xs) = fds_without (ds @ es) xs"
  by (auto simp: fds_without_def intro!: filter_cong)

lemma fds_without_Nil [simp]: "fds_without [] xs = xs"
  by (simp add: fds_without_def)

text \<open>Closing touches nothing but the descriptors.\<close>

lemma fd_close_frame [simp]:
  "fds (fd_close x w) = fds_without (opt x) (fds w)" "next_fd (fd_close x w) = next_fd w"
  "sent (fd_close x w) = sent w" "consumed (fd_close x w) = consumed w"
  by (auto simp: fd_close_def fds_without_def removeAll_filter_not_eq intro!: filter_cong split: option.split)

lemma close_frame [simp]:
  "next_fd (close_stream h w) = next_fd w" "sent (close_stream h w) = sent w"
  "next_fd (close_redirect r w) = next_fd w" "sent (close_redirect r w) = sent w"
  "next_fd (close_handles hs w) = next_fd w" "sent (close_handles hs w) = sent w"
  "next_fd (closePipe p w) = next_fd w" "sent (closePipe p w) = sent w"
  by (simp_all add: close_stream_def close_redirect_def close_handles_def closePipe_def closeReader_def
    closeWriters_def split: prod.split option.split)

lemma fds_without_cong: "set ds = set es \<Longrightarrow> fds_without ds xs = fds_without es xs"
  by (simp add: fds_without_def)

lemma close_fds:
  "fds (close_stream h w) = fds_without (stream_fds h) (fds w)"
  "fds (close_redirect r w) = fds_without (redirect_fds r) (fds w)"
  "fds (close_handles hs w) = fds_without (handle_fds hs) (fds w)"
  by (auto simp: close_stream_def close_redirect_def close_handles_def closeReader_def
    closeWriters_def stream_fds_def redirect_fds_def handle_fds_def intro!: fds_without_cong split: prod.split)

lemma opened_fd: "fd_open w = (d, w1) \<Longrightarrow> opened [d] w w1"
  by (auto simp: fd_open_def opened_def)

lemma opened_pipe:
  assumes "os_Pipe E w = (x, w1)"
  shows "opened (case x of None \<Rightarrow> [] | Some (r, t) \<Rightarrow> [t, r]) w w1"
  using assms by (auto simp: os_Pipe_def fd_open_def opened_def split: if_splits)

lemma opened_stream:
  assumes "newStreamHandle E mode path w = (x, w1)" "fds_ok w"
  shows "case x of Inl e \<Rightarrow> fds w1 = fds w \<and> sent w1 = sent w | Inr h \<Rightarrow> opened (stream_fds h) w w1"
  using assms
  by (auto simp: newStreamHandle_def os_Pipe_def fd_open_def opened_def stream_fds_def Let_def
    close_fds fds_without_def fds_ok_def filter_id_conv split: if_splits; fastforce)

lemma opened_redirect:
  assumes "newRedirectHandle E mode w = (x, w1)"
  shows "case x of Inl e \<Rightarrow> w1 = w | Inr h \<Rightarrow> opened (redirect_fds h) w w1"
  using assms
  by (auto simp: newRedirectHandle_def os_Pipe_def fd_open_def opened_def redirect_fds_def
    split: if_splits StdinMode.splits)

lemma opened_handles:
  assumes "open_handles E sp w = (x, w1)" and ok: "fds_ok w"
  shows "case x of Inl e \<Rightarrow> fds w1 = fds w \<and> sent w1 = sent w | Inr hs \<Rightarrow> opened (handle_fds hs) w w1"
proof (cases "newStreamHandle E (Mode (spStdout sp)) (FilePath (spStdout sp)) w")
  case (Pair a wa)
  note A = opened_stream [OF Pair ok]
  show ?thesis
  proof (cases a)
    case (Inl e)
    then show ?thesis using assms A Pair by (auto simp: open_handles_def)
  next
    case (Inr out)
    then have oa: "opened (stream_fds out) w wa" and oka: "fds_ok wa"
      using A opened_ok ok by auto
    obtain b wb where b: "newStreamHandle E (Mode (spStderr sp)) (FilePath (spStderr sp)) wa = (b, wb)"
      by fastforce
    note B = opened_stream [OF b oka]
    show ?thesis
    proof (cases b)
      case (Inl e)
      then show ?thesis
        using assms B oa Pair \<open>a = Inr out\<close> b closed_opened [OF oa ok, of "stream_fds out"]
        by (auto simp: open_handles_def close_fds opened_def)
    next
      case (Inr err)
      then have ob: "opened (stream_fds err @ stream_fds out) w wb"
        using B oa opened_trans by auto
      obtain c wc where c: "newRedirectHandle E (spStdin sp) wb = (c, wc)" by fastforce
      note C = opened_redirect [OF c]
      show ?thesis
      proof (cases c)
        case (Inl e)
        then show ?thesis
          using assms C ob Pair \<open>a = Inr out\<close> \<open>b = Inr err\<close> b c
            closed_opened [OF ob ok, of "stream_fds err @ stream_fds out"]
          by (auto simp: open_handles_def close_fds opened_def)
      next
        case (Inr inp)
        then show ?thesis
          using assms C ob Pair \<open>a = Inr out\<close> \<open>b = Inr err\<close> b c opened_trans [OF ob]
          by (auto simp: open_handles_def handle_fds_def)
      qed
    qed
  qed
qed

lemma opened_controller:
  assumes "group_controller E sp w = (x, w1)"
  shows "case x of Inl e \<Rightarrow> w1 = w
         | Inr (p, sp2) \<Rightarrow> opened (case p of None \<Rightarrow> [] | Some (r, t) \<Rightarrow> [t, r]) w w1"
  using assms
  by (auto simp: group_controller_def startProcessWithGroupController_def os_Pipe_def fd_open_def
    opened_def Let_def split: if_splits option.splits)

lemma closePipe_fds: "fds (closePipe p w) = fds_without (case p of None \<Rightarrow> [] | Some (r, t) \<Rightarrow> [t, r]) (fds w)"
  by (auto simp: closePipe_def split: option.split)

lemma decrement_increment: "incrementWaitGroup p = Some p1 \<Longrightarrow> decrementWaitGroup p1 = p"
  by (auto simp: incrementWaitGroup_def decrementWaitGroup_def split: if_splits)

text \<open>The launch itself: what is opened is closed again and the wait group is left on every error but one.\<close>

lemma launch_failure:
  assumes "launch_process E sp hs p w = (Inl e, p1, w1)" "e \<noteq> AffinityFailed"
  shows "p1 = p \<and> w1 = close_handles hs w"
  using assms
  by (auto simp: launch_process_def readGroupControllerChildPid_def Let_def decrement_increment
    split: if_splits prod.splits option.splits sum.splits)

lemma close_after:
  assumes "opened ds w w1" "opened es w1 w2" "fds_ok w"
  shows "fds_without ds (fds w2) = es @ fds w" "fds_without (ds @ es) (fds w2) = fds w"
proof -
  have "\<forall>d\<in>set es. d \<notin> set ds" using assms(1,2) by (fastforce simp: opened_def)
  moreover have "\<forall>d\<in>set (fds w). d \<notin> set ds \<and> d \<notin> set es"
    using assms by (fastforce simp: opened_def fds_ok_def)
  ultimately show "fds_without ds (fds w2) = es @ fds w" "fds_without (ds @ es) (fds w2) = fds w"
    using assms(1,2) by (auto simp: opened_def fds_without_def filter_id_conv filter_empty_conv)
qed

text \<open>C32. Starting a process either succeeds or leaves no trace: on every error, be it an invalid path,
  a pipe, file or command that cannot be created, a shutdown or a group controller that does not
  report its child, the manager is unchanged, all descriptors that were opened are closed and
  nothing was signalled. The one exception is a CPU affinity that cannot be set.\<close>

theorem StartProcessCommon_failure:
  assumes "StartProcessCommon E sp p w = (Inl e, p1, w1)" "fds_ok w" "e \<noteq> AffinityFailed"
  shows "p1 = p \<and> fds w1 = fds w \<and> sent w1 = sent w"
proof (cases "validate_paths E sp")
  case (Inl e1)
  then show ?thesis using assms by (simp add: StartProcessCommon_def)
next
  case (Inr sp1)
  obtain x wa where g: "group_controller E sp1 w = (x, wa)" by fastforce
  note G = opened_controller [OF g]
  show ?thesis
  proof (cases x)
    case (Inl e1)
    then show ?thesis using assms G Inr g \<open>validate_paths E sp = Inr sp1\<close> by (simp add: StartProcessCommon_def)
  next
    case (Inr y)
    obtain pipe sp2 where y: "y = (pipe, sp2)" by fastforce
    let ?ps = "case pipe of None \<Rightarrow> [] | Some (r, t) \<Rightarrow> [t, r]"
    have oa: "opened ?ps w wa" and oka: "fds_ok wa" using G Inr y opened_ok assms(2) by auto
    obtain h wb where h: "open_handles E sp2 wa = (h, wb)" by fastforce
    note H = opened_handles [OF h oka]
    note S = StartProcessCommon_def \<open>validate_paths E sp = Inr sp1\<close> g Inr y h
    note pipe_closed = closed_opened [OF oa assms(2), of ?ps]
    show ?thesis
    proof (cases "buildCmd E (spLaunch sp2)")
      case (Inl e1)
      then show ?thesis using assms(1) oa pipe_closed by (auto simp: S closePipe_fds opened_def)
    next
      case cmd: (Inr cmd)
      show ?thesis
      proof (cases h)
        case (Inl e1)
        then show ?thesis using assms(1) oa H cmd pipe_closed by (auto simp: S closePipe_fds opened_def)
      next
        case hs: (Inr hs)
        then have "p1 = p \<and> w1 = closePipe pipe (close_handles hs wb)"
          using assms(1,3) cmd launch_failure by (auto simp: S split: prod.splits)
        then show ?thesis
          using close_after(2) [OF oa _ assms(2), of "handle_fds hs" wb] H hs oa
          by (auto simp: closePipe_fds close_fds opened_def)
      qed
    qed
  qed
qed

text \<open>The exception: the process is running, but it is neither registered nor signalled, the wait group
  still counts it and its descriptors stay open.\<close>

lemma affinity_failure_leaks:
  assumes "launch_process E sp hs p w = (Inl AffinityFailed, p1, w1)"
  shows "shutdownWg p1 = Suc (shutdownWg p) \<and> managedProcesses p1 = managedProcesses p \<and> w1 = w"
  using assms
  by (auto simp: launch_process_def readGroupControllerChildPid_def incrementWaitGroup_def Let_def
    split: if_splits prod.splits option.splits sum.splits)

text \<open>What the group controller writes to its pipe, the decimal PID of the child, is read back.\<close>

lemma readChildPID_Itoa:
  assumes "0 < pid" "pid \<le> max_int64"
  shows "readChildPID (Some (Itoa pid)) = Inr pid"
proof -
  have "TrimSpace (Itoa pid) = Itoa pid"
    using Itoa_digits [of pid] assms(1) by (intro TrimSpace_id) (auto simp: list_all_iff digit_not_space)
  then show ?thesis using assms Itoa_nonempty [of pid] by (simp add: readChildPID_def Atoi_Itoa)
qed

text \<open>The stream of a process is delivered once: a second reader is refused and gets nothing.\<close>

lemma stream_consumed_once:
  assumes "drainStream h is w = (e, out, w1)" "reader h = Some d"
  shows "drainStream h is' w1 = (DrainFailed AlreadyConsumed, [], w1)"
  using assms
  by (auto simp: drainStream_def markUsed_def closeReader_def fd_close_def split: if_splits prod.splits)

section \<open>Example\<close>

text \<open>A command that cannot be started, with all three streams redirected to pipes.\<close>

definition launch_demo_env :: launch_env where
  "launch_demo_env = \<lparr>Stat = (\<lambda>_. StatNotExist), pipe_fails = (\<lambda>_. False), create_fails = (\<lambda>_. False),
     executable = Some ''agent'', goos = ''linux'', environ = [], start_fails = True, not_found = False,
     new_pid = 7, child_output = None, find_fails = False, affinity_fails = False\<rparr>"

definition demo_process :: StartProcess where
  "demo_process = \<lparr>spLaunch = \<lparr>Command = [''ls''], Affinity = [], Environment = [], WorkingDirectory = []\<rparr>,
     spStdout = \<lparr>Mode = ToStream, FilePath = []\<rparr>, spStderr = \<lparr>Mode = ToStream, FilePath = []\<rparr>,
     spStdin = StdinBuffer, UseGroupController = False\<rparr>"

definition launch_demo_world :: world where
  "launch_demo_world = \<lparr>fds = [2, 1, 0], next_fd = 3, consumed = [], sent = []\<rparr>"

lemma demo_start:
  "\<exists>w1. StartProcessCommon launch_demo_env demo_process newProcessCommon launch_demo_world = (Inl StartFailed, newProcessCommon, w1) \<and>
     next_fd w1 = 9"
  by (simp add: StartProcessCommon_def validate_paths_def validate_redirect_def group_controller_def buildCmd_def
    open_handles_def newStreamHandle_def newRedirectHandle_def IsStreamModeEnabled_def IsFileModeEnabled_def os_Pipe_def
    fd_open_def launch_process_def incrementWaitGroup_def decrementWaitGroup_def newProcessCommon_def launch_demo_env_def
    demo_process_def launch_demo_world_def Let_def)

theorem StartProcessCommon_failure_witness:
  "\<exists>w1. StartProcessCommon launch_demo_env demo_process newProcessCommon launch_demo_world = (Inl StartFailed, newProcessCommon, w1) \<and>
     next_fd w1 = 9 \<and> fds w1 = [2, 1, 0]"
proof -
  obtain w1 where w1: "StartProcessCommon launch_demo_env demo_process newProcessCommon launch_demo_world = (Inl StartFailed, newProcessCommon, w1)"
    "next_fd w1 = 9" using demo_start by blast
  have "fds_ok launch_demo_world" by (auto simp: fds_ok_def launch_demo_world_def)
  then show ?thesis using StartProcessCommon_failure [OF w1(1)] w1 by (simp add: launch_demo_world_def)
qed

end
