(* ===== verification/Gate.thy ===== *)
theory Gate
  imports Main
begin

text \<open>
  The contract of a gate that is closed before its users are waited for: work enters while the gate
  is open and is counted until it leaves; closing only stops new work. The process manager and the
  admission of RPCs of the target agent are gates, and the lemmas say why waiting for the count to
  become zero is final.
\<close>

locale gate =
  fixes is_open :: "'s \<Rightarrow> bool" and users :: "'s \<Rightarrow> nat"
    and enter :: "'s \<Rightarrow> 's option" and leave :: "'s \<Rightarrow> 's" and shut :: "'s \<Rightarrow> 's"
  assumes enter_open: "enter s = Some t \<Longrightarrow> is_open s \<and> users t = Suc (users s)"
    and leave_users: "users (leave s) = users s - 1"
    and leave_open: "is_open (leave s) = is_open s"
    and shut_closed: "\<not> is_open (shut s)"
    and shut_users: "users (shut s) = users s"
begin

definition gate_step :: "'s \<Rightarrow> 's \<Rightarrow> bool" where
  "gate_step s t \<longleftrightarrow> enter s = Some t \<or> t = leave s \<or> t = shut s \<or> is_open t = is_open s \<and> users t = users s"

lemma closed_step: "gate_step s t \<Longrightarrow> \<not> is_open s \<Longrightarrow> \<not> is_open t \<and> users t \<le> users s"
  using enter_open [of s t] by (auto simp: gate_step_def leave_users leave_open shut_closed shut_users)

lemma refused: "\<not> is_open s \<Longrightarrow> enter s = None"
  using enter_open by (cases "enter s") auto

text \<open>Once the gate is closed and nobody is inside, nobody will be.\<close>

lemma drained_for_good:
  assumes "gate_step\<^sup>*\<^sup>* s t" "\<not> is_open s" "users s = 0"
  shows "\<not> is_open t \<and> users t = 0 \<and> enter t = None"
  using assms by (induction rule: rtranclp_induct) (use closed_step refused in force)+

end

end
