(* ===== verification/ProcessShutdown.thy ===== *)
theory ProcessShutdown
  imports ProcessManager Gate Transition
begin

text \<open>
  The process manager under concurrent calls. Each call of \<open>StartProcess\<close>, \<open>ExecCommand\<close> and
  \<open>Shutdown\<close> is a goroutine with a program counter; an event lets one of them pass its next operation
  on the shared state, lets a process die or releases handles. \<open>sync.Map.Range\<close> visits every key that
  is present during the whole iteration, and may or may not visit one that is stored meanwhile. PIDs
  come from the operating system, which gives them out again. \<open>reuse\<close> says whether it may do so as soon as a
  process has been waited for, or only once the call that waited for it has also ended. What is recorded of
  signals and of released handles belongs to the process that now has the PID.
\<close>

section \<open>The system\<close>

datatype call_kind = StartCall | ExecCall

datatype proc_pc =
    Entered call_kind
  | Launched call_kind int
  | Registered call_kind int
  | Signalling shutdownState call_kind int
  | Watching call_kind int
  | Reaped call_kind int
  | Deleting int
  | Leaked int
  | Ranging shutdownState "int list"
  | WaitingWg
  | Returned shutdownState
  | Ended

record proc_system =
  manager :: processCommon
  os :: world
  alive :: "int list"
  released :: "int list"
  pcs :: "proc_pc list"

datatype proc_event =
    Enter call_kind
  | StartFails nat
  | Starts nat int
  | ControllerFails nat
  | AffinityFails nat
  | Registers nat managedProcess
  | ReadsState nat
  | Signals nat
  | Dies int
  | Reaps nat
  | Decrements nat
  | Deletes nat
  | Releases "int list"
  | Shutdown bool "int list"
  | Visits nat int
  | Skips nat int
  | RangeEnds nat
  | WaitReturns nat

definition proc_start :: proc_system where
  "proc_start = \<lparr>manager = newProcessCommon, os = \<lparr>fds = [], next_fd = 0, consumed = [], sent = []\<rparr>,
     alive = [], released = [], pcs = []\<rparr>"

abbreviation at :: "proc_system \<Rightarrow> nat \<Rightarrow> proc_pc" where
  "at s t \<equiv> (if t < length (pcs s) then pcs s ! t else Ended)"

definition goto :: "nat \<Rightarrow> proc_pc \<Rightarrow> proc_system \<Rightarrow> proc_system" where
  "goto t c s = s\<lparr>pcs := (pcs s)[t := c]\<rparr>"

definition spawn :: "proc_pc \<Rightarrow> proc_system \<Rightarrow> proc_system" where
  "spawn c s = s\<lparr>pcs := pcs s @ [c]\<rparr>"

text \<open>The keys of the managed processes, given as the list \<open>ks\<close> that the iteration has ahead of it.\<close>

definition keys_of :: "processCommon \<Rightarrow> int list \<Rightarrow> bool" where
  "keys_of p ks \<longleftrightarrow> set ks = dom (managedProcesses p)"

definition shutdown_pc :: "bool \<Rightarrow> processCommon \<Rightarrow> int list \<Rightarrow> proc_pc" where
  "shutdown_pc changed p ks =
     (case pcState p of
        stateGraceful \<Rightarrow> if changed then Ranging stateGraceful ks else WaitingWg
      | stateForced \<Rightarrow> if changed then Ranging stateForced ks else Returned stateForced
      | stateRunning \<Rightarrow> Returned stateRunning)"

definition range_end_pc :: "shutdownState \<Rightarrow> proc_pc" where
  "range_end_pc st = (if st = stateGraceful then WaitingWg else Returned st)"

fun pid_of :: "proc_pc \<Rightarrow> int option" where
  "pid_of (Launched k p) = Some p"
| "pid_of (Registered k p) = Some p"
| "pid_of (Signalling st k p) = Some p"
| "pid_of (Watching k p) = Some p"
| "pid_of (Reaped k p) = Some p"
| "pid_of (Deleting p) = Some p"
| "pid_of (Leaked p) = Some p"
| "pid_of _ = None"

definition free_pid :: "bool \<Rightarrow> proc_system \<Rightarrow> int \<Rightarrow> bool" where
  "free_pid reuse s pid \<longleftrightarrow>
     pid \<notin> set (alive s) \<and>
     (if reuse then \<forall>c\<in>set (pcs s). \<forall>k. c \<noteq> Watching k pid else \<forall>c\<in>set (pcs s). pid_of c \<noteq> Some pid)"

definition new_holder :: "int \<Rightarrow> proc_system \<Rightarrow> proc_system" where
  "new_holder pid s = s
     \<lparr>alive := pid # alive s, released := removeAll pid (released s),
       os := (os s)\<lparr>sent := filter (\<lambda>(sig, q). q \<noteq> pid) (sent (os s))\<rparr>\<rparr>"

definition no_handles :: managedProcess where
  "no_handles = \<lparr>mpStdout = None, mpStderr = None, mpStdin = None\<rparr>"

fun proc_exec :: "bool \<Rightarrow> proc_event \<Rightarrow> proc_system \<Rightarrow> proc_system option" where
  "proc_exec u (Enter k) s =
     (case incrementWaitGroup (manager s) of
        None \<Rightarrow> Some (spawn Ended s)
      | Some p \<Rightarrow> Some (spawn (Entered k) (s\<lparr>manager := p\<rparr>)))"
| "proc_exec u (StartFails t) s =
     (case at s t of
        Entered k \<Rightarrow> Some (goto t Ended (s\<lparr>manager := decrementWaitGroup (manager s)\<rparr>))
      | _ \<Rightarrow> None)"
| "proc_exec u (Starts t pid) s =
     (case at s t of
        Entered k \<Rightarrow>
          if free_pid u s pid
          then Some (goto t (Launched k pid) (new_holder pid s)) else None
      | _ \<Rightarrow> None)"
| "proc_exec u (ControllerFails t) s =
     (case at s t of
        Launched StartCall pid \<Rightarrow>
          Some (goto t Ended (s\<lparr>manager := decrementWaitGroup (manager s), alive := removeAll pid (alive s)\<rparr>))
      | _ \<Rightarrow> None)"
| "proc_exec u (AffinityFails t) s =
     (case at s t of Launched k pid \<Rightarrow> Some (goto t (Leaked pid) s) | _ \<Rightarrow> None)"
| "proc_exec u (Registers t m) s =
     (case at s t of
        Launched k pid \<Rightarrow>
          if k = ExecCall \<and> m \<noteq> no_handles then None
          else Some (goto t (Registered k pid) (s\<lparr>manager := store_process pid m (manager s)\<rparr>))
      | _ \<Rightarrow> None)"
| "proc_exec u (ReadsState t) s =
     (case at s t of
        Registered k pid \<Rightarrow> Some (goto t (Signalling (pcState (manager s)) k pid) s)
      | _ \<Rightarrow> None)"
| "proc_exec u (Signals t) s =
     (case at s t of
        Signalling st k pid \<Rightarrow> Some (goto t (Watching k pid) (s\<lparr>os := signal_for st pid (os s)\<rparr>))
      | _ \<Rightarrow> None)"
| "proc_exec u (Dies pid) s = Some (s\<lparr>alive := removeAll pid (alive s)\<rparr>)"
| "proc_exec u (Reaps t) s =
     (case at s t of
        Watching k pid \<Rightarrow> if pid \<in> set (alive s) then None else Some (goto t (Reaped k pid) s)
      | _ \<Rightarrow> None)"
| "proc_exec u (Decrements t) s =
     (case at s t of
        Reaped StartCall pid \<Rightarrow> Some (goto t Ended (s\<lparr>manager := decrementWaitGroup (manager s)\<rparr>))
      | Reaped ExecCall pid \<Rightarrow> Some (goto t (Deleting pid) (s\<lparr>manager := decrementWaitGroup (manager s)\<rparr>))
      | _ \<Rightarrow> None)"
| "proc_exec u (Deletes t) s =
     (case at s t of
        Deleting pid \<Rightarrow> Some (goto t Ended (s\<lparr>manager := delete_process pid (manager s)\<rparr>))
      | _ \<Rightarrow> None)"
| "proc_exec u (Releases ps) s =
     Some (s\<lparr>manager := ReleaseProcessHandles ps (manager s), released := ps @ released s\<rparr>)"
| "proc_exec u (Shutdown force ks) s =
     (case shutdown_transition force (manager s) of (changed, p) \<Rightarrow>
        if keys_of p ks then Some (spawn (shutdown_pc changed p ks) (s\<lparr>manager := p\<rparr>)) else None)"
| "proc_exec u (Visits t pid) s =
     (case at s t of
        Ranging st todo \<Rightarrow>
          if pid \<in> dom (managedProcesses (manager s))
          then Some (goto t (Ranging st (removeAll pid todo)) (s\<lparr>os := signal_for st pid (os s)\<rparr>)) else None
      | _ \<Rightarrow> None)"
| "proc_exec u (Skips t pid) s =
     (case at s t of
        Ranging st todo \<Rightarrow>
          if pid \<in> dom (managedProcesses (manager s)) then None
          else Some (goto t (Ranging st (removeAll pid todo)) s)
      | _ \<Rightarrow> None)"
| "proc_exec u (RangeEnds t) s =
     (case at s t of Ranging st [] \<Rightarrow> Some (goto t (range_end_pc st) s) | _ \<Rightarrow> None)"
| "proc_exec u (WaitReturns t) s =
     (case at s t of
        WaitingWg \<Rightarrow> if shutdownWg (manager s) = 0 then Some (goto t (Returned stateGraceful) s) else None
      | _ \<Rightarrow> None)"

inductive proc_reached :: "bool \<Rightarrow> proc_system \<Rightarrow> bool" for u where
  start: "proc_reached u proc_start"
| step: "proc_reached u s \<Longrightarrow> proc_exec u ev s = Some s' \<Longrightarrow> proc_reached u s'"

fun proc_run :: "bool \<Rightarrow> proc_event list \<Rightarrow> proc_system \<Rightarrow> proc_system option" where
  "proc_run u [] s = Some s"
| "proc_run u (ev # evs) s = (case proc_exec u ev s of None \<Rightarrow> None | Some s' \<Rightarrow> proc_run u evs s')"

lemma proc_run_reached: "proc_run u evs s = Some s' \<Longrightarrow> proc_reached u s \<Longrightarrow> proc_reached u s'"
  by (induction evs arbitrary: s) (auto split: option.splits intro: proc_reached.step)

text \<open>The events as a relation, for the invariants.\<close>

inductive proc_step :: "bool \<Rightarrow> proc_system \<Rightarrow> proc_system \<Rightarrow> bool" for u s where
  refused: "proc_step u s (spawn Ended s)"
| enter: "incrementWaitGroup (manager s) = Some p \<Longrightarrow> proc_step u s (spawn (Entered k) (s\<lparr>manager := p\<rparr>))"
| leave: "t < length (pcs s) \<Longrightarrow>
    pcs s ! t = Entered k \<and> c = Ended \<or> pcs s ! t = Reaped StartCall pid \<and> c = Ended \<or>
    pcs s ! t = Reaped ExecCall pid \<and> c = Deleting pid \<Longrightarrow>
    proc_step u s (goto t c (s\<lparr>manager := decrementWaitGroup (manager s)\<rparr>))"
| starts: "t < length (pcs s) \<Longrightarrow> pcs s ! t = Entered k \<Longrightarrow> free_pid u s pid \<Longrightarrow>
    proc_step u s (goto t (Launched k pid) (new_holder pid s))"
| controller: "t < length (pcs s) \<Longrightarrow> pcs s ! t = Launched StartCall pid \<Longrightarrow>
    proc_step u s (goto t Ended (s\<lparr>manager := decrementWaitGroup (manager s), alive := removeAll pid (alive s)\<rparr>))"
| affinity: "t < length (pcs s) \<Longrightarrow> pcs s ! t = Launched k pid \<Longrightarrow> proc_step u s (goto t (Leaked pid) s)"
| register: "t < length (pcs s) \<Longrightarrow> pcs s ! t = Launched k pid \<Longrightarrow>
    proc_step u s (goto t (Registered k pid) (s\<lparr>manager := store_process pid m (manager s)\<rparr>))"
| read_state: "t < length (pcs s) \<Longrightarrow> pcs s ! t = Registered k pid \<Longrightarrow>
    proc_step u s (goto t (Signalling (pcState (manager s)) k pid) s)"
| signal: "t < length (pcs s) \<Longrightarrow> pcs s ! t = Signalling st k pid \<Longrightarrow>
    proc_step u s (goto t (Watching k pid) (s\<lparr>os := signal_for st pid (os s)\<rparr>))"
| dies: "proc_step u s (s\<lparr>alive := removeAll pid (alive s)\<rparr>)"
| reap: "t < length (pcs s) \<Longrightarrow> pcs s ! t = Watching k pid \<Longrightarrow> pid \<notin> set (alive s) \<Longrightarrow>
    proc_step u s (goto t (Reaped k pid) s)"
| delete: "t < length (pcs s) \<Longrightarrow> pcs s ! t = Deleting pid \<Longrightarrow>
    proc_step u s (goto t Ended (s\<lparr>manager := delete_process pid (manager s)\<rparr>))"
| release: "proc_step u s (s\<lparr>manager := ReleaseProcessHandles ps (manager s), released := ps @ released s\<rparr>)"
| shutdown: "shutdown_transition force (manager s) = (changed, p) \<Longrightarrow> keys_of p ks \<Longrightarrow>
    proc_step u s (spawn (shutdown_pc changed p ks) (s\<lparr>manager := p\<rparr>))"
| visit: "t < length (pcs s) \<Longrightarrow> pcs s ! t = Ranging st todo \<Longrightarrow>
    proc_step u s (goto t (Ranging st (removeAll pid todo)) (s\<lparr>os := signal_for st pid (os s)\<rparr>))"
| skip: "t < length (pcs s) \<Longrightarrow> pcs s ! t = Ranging st todo \<Longrightarrow> pid \<notin> dom (managedProcesses (manager s)) \<Longrightarrow>
    proc_step u s (goto t (Ranging st (removeAll pid todo)) s)"
| range_end: "t < length (pcs s) \<Longrightarrow> pcs s ! t = Ranging st [] \<Longrightarrow> proc_step u s (goto t (range_end_pc st) s)"
| wait: "t < length (pcs s) \<Longrightarrow> pcs s ! t = WaitingWg \<Longrightarrow> shutdownWg (manager s) = 0 \<Longrightarrow>
    proc_step u s (goto t (Returned stateGraceful) s)"

lemma proc_exec_step: "proc_exec u ev s = Some s' \<Longrightarrow> proc_step u s s'"
  by (cases ev)
    (auto split: option.splits if_splits proc_pc.splits call_kind.splits list.splits prod.splits intro: proc_step.intros)

section \<open>Counting\<close>

fun holds :: "proc_pc \<Rightarrow> bool" where
  "holds (Entered k) \<longleftrightarrow> True"
| "holds (Launched k p) \<longleftrightarrow> True"
| "holds (Registered k p) \<longleftrightarrow> True"
| "holds (Signalling st k p) \<longleftrightarrow> True"
| "holds (Watching k p) \<longleftrightarrow> True"
| "holds (Reaped k p) \<longleftrightarrow> True"
| "holds (Leaked p) \<longleftrightarrow> True"
| "holds _ \<longleftrightarrow> False"

fun runs :: "proc_pc \<Rightarrow> int \<Rightarrow> bool" where
  "runs (Launched k p) q \<longleftrightarrow> q = p"
| "runs (Registered k p) q \<longleftrightarrow> q = p"
| "runs (Signalling st k p) q \<longleftrightarrow> q = p"
| "runs (Watching k p) q \<longleftrightarrow> q = p"
| "runs (Leaked p) q \<longleftrightarrow> q = p"
| "runs _ q \<longleftrightarrow> False"

fun shuts :: "proc_pc \<Rightarrow> bool" where
  "shuts (Ranging st todo) \<longleftrightarrow> True"
| "shuts WaitingWg \<longleftrightarrow> True"
| "shuts (Returned st) \<longleftrightarrow> True"
| "shuts _ \<longleftrightarrow> False"

definition counted :: "proc_system \<Rightarrow> bool" where
  "counted s \<longleftrightarrow> shutdownWg (manager s) = length (filter holds (pcs s))"

definition watched :: "proc_system \<Rightarrow> bool" where
  "watched s \<longleftrightarrow> (\<forall>p\<in>set (alive s). \<exists>c\<in>set (pcs s). runs c p)"

definition drained :: "proc_system \<Rightarrow> bool" where
  "drained s \<longleftrightarrow> ((\<exists>c\<in>set (pcs s). shuts c) \<longrightarrow> pcState (manager s) \<noteq> stateRunning) \<and>
     (Returned stateGraceful \<in> set (pcs s) \<longrightarrow> shutdownWg (manager s) = 0)"

lemma system_fields [simp]:
  "pcs (goto t c s) = (pcs s)[t := c]" "manager (goto t c s) = manager s" "os (goto t c s) = os s"
  "alive (goto t c s) = alive s" "released (goto t c s) = released s"
  "pcs (spawn c s) = pcs s @ [c]" "manager (spawn c s) = manager s" "os (spawn c s) = os s"
  "alive (spawn c s) = alive s" "released (spawn c s) = released s"
  "pcs (new_holder pid s) = pcs s" "manager (new_holder pid s) = manager s" "alive (new_holder pid s) = pid # alive s"
  "released (new_holder pid s) = removeAll pid (released s)"
  by (simp_all add: goto_def spawn_def new_holder_def)

lemma release_frame [simp]:
  "shutdownWg (ReleaseProcessHandles ps p) = shutdownWg p" "pcState (ReleaseProcessHandles ps p) = pcState p"
  "managedProcesses (ReleaseProcessHandles ps p) = (\<lambda>q. if q \<in> set ps then None else managedProcesses p q)"
  by (induction ps arbitrary: p) (auto simp: ReleaseProcessHandles_def delete_process_def)

lemma manager_frame [simp]:
  "shutdownWg (store_process pid m p) = shutdownWg p" "pcState (store_process pid m p) = pcState p"
  "shutdownWg (delete_process pid p) = shutdownWg p" "pcState (delete_process pid p) = pcState p"
  "shutdownWg (decrementWaitGroup p) = shutdownWg p - 1" "pcState (decrementWaitGroup p) = pcState p"
  "managedProcesses (store_process pid m p) = (managedProcesses p)(pid \<mapsto> m)"
  "managedProcesses (delete_process pid p) = (managedProcesses p)(pid := None)"
  "managedProcesses (decrementWaitGroup p) = managedProcesses p"
  by (simp_all add: store_process_def delete_process_def decrementWaitGroup_def)

lemma transition_frame:
  assumes "shutdown_transition force p = (changed, q)"
  shows "shutdownWg q = shutdownWg p" "managedProcesses q = managedProcesses p"
    "pcState q \<noteq> stateRunning" "\<not> changed \<Longrightarrow> q = p"
  using assms by (auto simp: shutdown_transition_def Let_def split: if_splits)

lemma filter_update:
  assumes "t < length xs"
  shows "length (filter P (xs[t := c])) + (if P (xs ! t) then 1 else 0) = length (filter P xs) + (if P c then 1 else 0)"
  using assms
proof (induction xs arbitrary: t)
  case (Cons x xs)
  then show ?case by (cases t) auto
qed simp

lemma count_same:
  "t < length xs \<Longrightarrow> P (xs ! t) = P c \<Longrightarrow> length (filter P (xs[t := c])) = length (filter P xs)"
  using filter_update [of t xs P c] by simp

lemma count_less:
  "t < length xs \<Longrightarrow> P (xs ! t) \<Longrightarrow> \<not> P c \<Longrightarrow> length (filter P (xs[t := c])) = length (filter P xs) - 1"
  using filter_update [of t xs P c] by simp

lemma holds_shutdown [simp]: "\<not> holds (shutdown_pc ch p ks)" "\<not> holds (range_end_pc st)"
  by (simp_all add: shutdown_pc_def range_end_pc_def split: shutdownState.split)

lemma step_counted: "proc_step u s s' \<Longrightarrow> counted s \<Longrightarrow> counted s'"
proof (induction rule: proc_step.induct)
  case (shutdown force changed p ks)
  then show ?case using transition_frame(1) by (simp add: counted_def)
qed (auto simp: counted_def incrementWaitGroup_def count_same count_less split: if_splits)

text \<open>A goroutine that moves keeps the others where they are.\<close>

lemma moved:
  assumes "c \<in> set xs" "c \<noteq> xs ! t"
  shows "c \<in> set (xs[t := d])"
  using assms by (metis in_set_conv_nth length_list_update nth_list_update_neq)

lemma moved_ex:
  assumes "\<exists>c\<in>set xs. P c" "P (xs ! t) \<Longrightarrow> P d" "t < length xs"
  shows "\<exists>c\<in>set (xs[t := d]). P c"
  using assms moved [of _ xs t d] set_update_memI [of t xs d] by metis

lemma in_moved: "c \<in> set (xs[t := d]) \<Longrightarrow> c = d \<or> c \<in> set xs"
  using set_update_subset_insert [of xs t d] by auto

lemma runs_pid: "runs c p \<Longrightarrow> runs c q \<Longrightarrow> p = q"
  by (cases c) auto

lemma step_watched: "proc_step u s s' \<Longrightarrow> watched s \<Longrightarrow> watched s'"
proof (induction rule: proc_step.induct)
  case (starts t k pid)
  then have "\<exists>c\<in>set ((pcs s)[t := Launched k pid]). runs c pid"
    by (intro bexI [of _ "Launched k pid"]) (auto simp: set_update_memI)
  then show ?case using starts
    by (auto simp: watched_def intro!: moved_ex [where P = "\<lambda>c. runs c p" for p])
qed (auto simp: watched_def intro!: moved_ex [where P = "\<lambda>c. runs c p" for p])

text \<open>The wait group of the manager is a gate, closed by either kind of shutdown.\<close>

interpretation process_gate: gate "\<lambda>p. pcState p = stateRunning" shutdownWg incrementWaitGroup
  decrementWaitGroup "\<lambda>p. snd (shutdown_transition force p)" for force
proof unfold_locales
  fix p
  obtain ch q where q: "shutdown_transition force p = (ch, q)" by fastforce
  show "pcState (snd (shutdown_transition force p)) \<noteq> stateRunning"
    and "shutdownWg (snd (shutdown_transition force p)) = shutdownWg p"
    using transition_frame [OF q] q by simp_all
qed (auto simp: incrementWaitGroup_def split: if_splits)

lemma step_gate: "proc_step u s s' \<Longrightarrow> \<exists>force. process_gate.gate_step force (manager s) (manager s')"
proof (induction rule: proc_step.induct)
  case (shutdown force changed p ks)
  then show ?case by (auto simp: process_gate.gate_step_def intro!: exI [of _ force])
qed (auto simp: process_gate.gate_step_def)

lemma shuts_shutdown [simp]:
  "shutdown_pc ch p ks \<noteq> Returned stateGraceful" "range_end_pc st \<noteq> Returned stateGraceful"
  by (simp_all add: shutdown_pc_def range_end_pc_def split: shutdownState.split)

text \<open>Which goroutines a step adds.\<close>

lemma shuts_at: "t < length xs \<Longrightarrow> shuts (xs ! t) \<Longrightarrow> \<exists>d\<in>set xs. shuts d"
  by (metis nth_mem)

lemma shuts_in: "c \<in> set xs \<Longrightarrow> shuts c \<Longrightarrow> \<exists>d\<in>set xs. shuts d"
  by blast

lemma step_shuts:
  assumes "proc_step u s s'" "c \<in> set (pcs s')" "shuts c"
  shows "pcState (manager s') \<noteq> stateRunning \<or> (\<exists>d\<in>set (pcs s). shuts d)"
  using assms
proof (induction rule: proc_step.induct)
  case (shutdown force changed p ks)
  then show ?case using transition_frame(3) by simp
qed (auto dest!: in_moved intro: shuts_at shuts_in)

lemma step_returned:
  assumes "proc_step u s s'" "Returned stateGraceful \<in> set (pcs s')" "Returned stateGraceful \<notin> set (pcs s)"
  shows "shutdownWg (manager s') = 0"
  using assms
  by (induction rule: proc_step.induct) (auto dest!: in_moved simp: shuts_shutdown [symmetric])

lemma step_drained:
  assumes step: "proc_step u s s'" and ok: "drained s"
  shows "drained s'"
proof -
  obtain force where g: "process_gate.gate_step force (manager s) (manager s')" using step_gate [OF step] by blast
  note closed = process_gate.closed_step [OF g]
  show ?thesis unfolding drained_def
  proof (intro conjI impI)
    assume "\<exists>c\<in>set (pcs s'). shuts c"
    then show "pcState (manager s') \<noteq> stateRunning"
      using step_shuts [OF step] closed ok by (auto simp: drained_def)
  next
    assume R: "Returned stateGraceful \<in> set (pcs s')"
    show "shutdownWg (manager s') = 0"
    proof (cases "Returned stateGraceful \<in> set (pcs s)")
      case True
      then have "pcState (manager s) \<noteq> stateRunning" "shutdownWg (manager s) = 0"
        using ok shuts_in [OF True] by (auto simp: drained_def)
      then show ?thesis using closed by simp
    next
      case False
      then show ?thesis using step_returned [OF step R] by simp
    qed
  qed
qed

definition proc_ok :: "proc_system \<Rightarrow> bool" where
  "proc_ok s \<longleftrightarrow> counted s \<and> watched s \<and> drained s"

lemma reached_steps: "proc_reached u s \<Longrightarrow> (proc_step u)\<^sup>*\<^sup>* proc_start s"
  by (induction rule: proc_reached.induct) (auto intro: rtranclp.rtrancl_into_rtrancl proc_exec_step)

interpretation processes: step_system "\<lambda>s. s = proc_start" "proc_step u" proc_ok for u
proof unfold_locales
  show "proc_ok s" if "s = proc_start" for s
    using that by (simp add: proc_ok_def counted_def watched_def drained_def proc_start_def newProcessCommon_def)
qed (auto simp: proc_ok_def intro: step_counted step_watched step_drained)

lemma reached_ok: "proc_reached u s \<Longrightarrow> proc_ok s"
  using processes.reachable_invar reached_steps by blast

text \<open>How a call of \<open>Shutdown\<close> ends: it waited, or the shutdown is forced. What returned stays returned.\<close>

definition forced_ok :: "proc_system \<Rightarrow> bool" where
  "forced_ok s \<longleftrightarrow> (\<forall>c\<in>set (pcs s). \<forall>st todo. (c = Returned st \<or> c = Ranging st todo) \<longrightarrow>
     st = stateGraceful \<or> st = stateForced \<and> pcState (manager s) = stateForced)"

lemma forced_goto:
  assumes "forced_ok s" "pcs s' = (pcs s)[t := c]" "pcState (manager s') = pcState (manager s)"
    "\<And>st todo. c = Returned st \<or> c = Ranging st todo \<Longrightarrow> st = stateGraceful \<or> st = stateForced \<and> pcState (manager s) = stateForced"
  shows "forced_ok s'"
  unfolding forced_ok_def assms(2,3)
proof (intro ballI allI impI)
  fix d st todo assume d: "d \<in> set ((pcs s)[t := c])" "d = Returned st \<or> d = Ranging st todo"
  show "st = stateGraceful \<or> st = stateForced \<and> pcState (manager s) = stateForced"
    using in_moved [OF d(1)] d(2) assms(1,4) unfolding forced_ok_def by blast
qed

lemma step_forced:
  assumes "proc_step u s s'" "forced_ok s"
  shows "forced_ok s'"
  using assms
proof (induction rule: proc_step.induct)
  case (shutdown force changed p ks)
  then have "pcState (manager s) = stateForced \<Longrightarrow> pcState p = stateForced"
    by (auto simp: shutdown_transition_def Let_def split: if_splits)
  moreover have "st = stateGraceful \<or> st = stateForced \<and> pcState p = stateForced"
    if "shutdown_pc changed p ks = Returned st \<or> shutdown_pc changed p ks = Ranging st todo" for st todo
    using that transition_frame(3) [OF shutdown(1)]
    by (auto simp: shutdown_pc_def split: shutdownState.splits if_splits)
  ultimately show ?case using shutdown(3) unfolding forced_ok_def by (auto 0 4)
next
  case refused
  then show ?case by (auto simp: forced_ok_def)
next
  case (enter p k)
  then show ?case by (auto simp: forced_ok_def incrementWaitGroup_def split: if_splits)
next
  case (leave t k c pid)
  show ?case by (rule forced_goto [OF leave(3), where t = t and c = c]) (use leave(2) in auto)
next
  case dies
  then show ?case by (simp add: forced_ok_def)
next
  case release
  then show ?case by (simp add: forced_ok_def)
next
  case (range_end t st)
  have "st = stateGraceful \<or> st = stateForced \<and> pcState (manager s) = stateForced"
    using range_end nth_mem unfolding forced_ok_def by metis
  then show ?case
    by (intro forced_goto [OF range_end(3) system_fields(1)]) (auto simp: range_end_pc_def split: if_splits)
next
  case (visit t st todo pid)
  then have "st = stateGraceful \<or> st = stateForced \<and> pcState (manager s) = stateForced"
    using nth_mem unfolding forced_ok_def by metis
  then show ?case by (intro forced_goto [OF visit(3), where t = t and c = "Ranging st (removeAll pid todo)"]) auto
next
  case (skip t st todo pid)
  then have "st = stateGraceful \<or> st = stateForced \<and> pcState (manager s) = stateForced"
    using nth_mem unfolding forced_ok_def by metis
  then show ?case by (intro forced_goto [OF skip(4) system_fields(1)]) auto
qed (auto intro: forced_goto)

interpretation forced: step_system "\<lambda>s. s = proc_start" "proc_step u" forced_ok for u
  by unfold_locales (simp add: forced_ok_def proc_start_def, rule step_forced)

lemma reached_forced: "proc_reached u s \<Longrightarrow> forced_ok s"
  using forced.reachable_invar reached_steps by blast

lemma stays_returned:
  assumes "proc_exec u ev s = Some s'" "Returned st \<in> set (pcs s)"
  shows "Returned st \<in> set (pcs s')"
  using proc_exec_step [OF assms(1)] assms(2)
  by (induction rule: proc_step.induct) (auto intro: moved)

lemma stays_forced:
  assumes "proc_exec u ev s = Some s'" "pcState (manager s) = stateForced"
  shows "pcState (manager s') = stateForced"
  using proc_exec_step [OF assms(1)] assms(2)
  by (induction rule: proc_step.induct)
    (auto simp: shutdown_transition_def incrementWaitGroup_def Let_def split: if_splits)

section \<open>Properties\<close>

lemma returned_means_idle:
  assumes "proc_reached u s" "Returned stateGraceful \<in> set (pcs s)"
  shows "filter holds (pcs s) = []" "pcState (manager s) \<noteq> stateRunning"
  using reached_ok [OF assms(1)] assms(2) shuts_in [OF assms(2)]
  by (auto simp: proc_ok_def drained_def counted_def)

lemma idle_means_dead:
  assumes "proc_reached u s" "filter holds (pcs s) = []"
  shows "alive s = []"
proof -
  have "\<not> runs c p" if "c \<in> set (pcs s)" for c p
    using assms(2) that by (cases c) (auto simp: filter_empty_conv)
  then show ?thesis using reached_ok [OF assms(1)] by (cases "alive s") (auto simp: proc_ok_def watched_def)
qed

text \<open>A graceful \<open>Shutdown\<close> that waited and returned means that everything is over, now and in every
  later state: no process that the manager started is alive, no call is between entering the wait
  group and leaving it, and a new call is refused. This holds for every interleaving with starting,
  executing, dying, releasing and further shutdowns, and even if PIDs are reused.\<close>

theorem graceful_shutdown_final:
  assumes "proc_reached u s" "Returned stateGraceful \<in> set (pcs s)"
  shows "alive s = [] \<and> filter holds (pcs s) = [] \<and> incrementWaitGroup (manager s) = None"
  using returned_means_idle [OF assms] idle_means_dead [OF assms(1)] process_gate.refused by simp

text \<open>A call whose CPU affinity could not be set keeps every graceful shutdown waiting for good.\<close>

lemma leaked_blocks_shutdown:
  assumes "proc_reached u s" "Leaked pid \<in> set (pcs s)"
  shows "Returned stateGraceful \<notin> set (pcs s)"
proof
  assume "Returned stateGraceful \<in> set (pcs s)"
  then have "filter holds (pcs s) = []"
    using reached_ok [OF assms(1)] by (auto simp: proc_ok_def counted_def drained_def)
  moreover have "Leaked pid \<in> set (filter holds (pcs s))" using assms(2) by simp
  ultimately show False by simp
qed

section \<open>Signals\<close>

fun managed_pid :: "proc_pc \<Rightarrow> int option" where
  "managed_pid (Registered k p) = Some p"
| "managed_pid (Signalling st k p) = Some p"
| "managed_pid (Watching k p) = Some p"
| "managed_pid (Reaped k p) = Some p"
| "managed_pid _ = None"

text \<open>The process of a goroutine that must have been told of the state \<open>st\<close>.\<close>

fun due :: "shutdownState \<Rightarrow> proc_pc \<Rightarrow> int option" where
  "due st (Watching k p) = Some p"
| "due st (Reaped k p) = Some p"
| "due st (Signalling st' k p) = (if st' = st then None else Some p)"
| "due st _ = None"

fun told_state :: "shutdownState \<Rightarrow> int \<Rightarrow> world \<Rightarrow> bool" where
  "told_state stateRunning p w \<longleftrightarrow> True"
| "told_state stateGraceful p w \<longleftrightarrow> (SIGINT, p) \<in> set (sent w)"
| "told_state stateForced p w \<longleftrightarrow> (SIGKILL, p) \<in> set (sent w)"

definition notified :: "proc_system \<Rightarrow> int \<Rightarrow> bool" where
  "notified s p \<longleftrightarrow> told_state (pcState (manager s)) p (os s) \<or>
     (\<exists>todo. Ranging (pcState (manager s)) todo \<in> set (pcs s) \<and> p \<in> set todo)"

definition own_pids :: "proc_system \<Rightarrow> bool" where
  "own_pids s \<longleftrightarrow> (\<forall>i<length (pcs s). \<forall>j<length (pcs s). \<forall>p.
     pid_of (pcs s ! i) = Some p \<and> pid_of (pcs s ! j) = Some p \<longrightarrow> i = j)"

definition all_managed :: "proc_system \<Rightarrow> bool" where
  "all_managed s \<longleftrightarrow> (\<forall>c\<in>set (pcs s). \<forall>p. managed_pid c = Some p \<longrightarrow>
     p \<in> dom (managedProcesses (manager s)) \<or> p \<in> set (released s))"

definition all_notified :: "proc_system \<Rightarrow> bool" where
  "all_notified s \<longleftrightarrow> (\<forall>c\<in>set (pcs s). \<forall>p. due (pcState (manager s)) c = Some p \<longrightarrow>
     p \<in> set (released s) \<or> notified s p)"

lemma signal_for_told_state [simp]: "told_state st p (signal_for st p w)"
  by (cases st) (auto simp: signal_for_def InterruptProcess_def KillProcess_def signal_group_def)

lemma told_state_mono: "told_state st p w \<Longrightarrow> told_state st p (signal_for st' q w)"
  by (cases st; cases st') (auto simp: signal_for_def InterruptProcess_def KillProcess_def signal_group_def)

lemma managed_has_pid: "managed_pid c = Some p \<Longrightarrow> pid_of c = Some p"
  by (cases c) auto

lemma due_managed: "due st c = Some p \<Longrightarrow> managed_pid c = Some p"
  by (cases c) (auto split: if_splits)

lemma pid_shutdown [simp]:
  "pid_of (shutdown_pc ch p ks) = None" "pid_of (range_end_pc st) = None"
  "managed_pid (shutdown_pc ch p ks) = None" "managed_pid (range_end_pc st) = None"
  "due st' (shutdown_pc ch p ks) = None" "due st' (range_end_pc st) = None"
  by (simp_all add: shutdown_pc_def range_end_pc_def split: shutdownState.split)

lemma own_goto:
  assumes own: "own_pids s" and t: "t < length (pcs s)" and pcs: "pcs s' = (pcs s)[t := c]"
    and c: "pid_of c = None \<or> pid_of c = pid_of (pcs s ! t) \<or> (\<forall>d\<in>set (pcs s). pid_of d \<noteq> pid_of c)"
  shows "own_pids s'"
proof -
  have uniq: "i = j" if "i < length (pcs s)" "j < length (pcs s)" "pid_of (pcs s ! i) = Some p" "pid_of (pcs s ! j) = Some p" for i j p
    using own that by (auto simp: own_pids_def)
  have at_c: "k = t" if "k < length (pcs s)" "pid_of c = Some p" "pid_of (pcs s ! k) = Some p" for k p
    using c that uniq [OF that(1) t that(3)] nth_mem [OF that(1)] by force
  have "i = j" if "i < length (pcs s)" "j < length (pcs s)"
    "pid_of (pcs s' ! i) = Some p" "pid_of (pcs s' ! j) = Some p" for i j p
  proof (cases "i = t \<or> j = t")
    case True
    then show ?thesis using that at_c pcs t by (metis nth_list_update_eq nth_list_update_neq)
  next
    case False
    then show ?thesis using that uniq pcs by (metis nth_list_update_neq)
  qed
  then show ?thesis unfolding own_pids_def using pcs by (metis length_list_update)
qed

lemma step_own: "proc_step False s s' \<Longrightarrow> own_pids s \<Longrightarrow> own_pids s'"
proof (induction rule: proc_step.induct)
  case refused then show ?case by (auto simp: own_pids_def nth_append less_Suc_eq)
next
  case enter then show ?case by (auto simp: own_pids_def nth_append less_Suc_eq)
next
  case shutdown then show ?case by (auto simp: own_pids_def nth_append less_Suc_eq)
next
  case dies then show ?case by (simp add: own_pids_def)
next
  case release then show ?case by (simp add: own_pids_def)
next
  case (starts t k pid)
  show ?case by (rule own_goto [OF starts(4) starts(1)]) (use starts(3) in \<open>auto simp: free_pid_def\<close>)
next
  case (leave t k c pid)
  show ?case by (rule own_goto [OF leave(3) leave(1)]) (use leave(2) in auto)
qed (erule own_goto, assumption, simp, simp)+

lemma managed_goto:
  assumes "all_managed s" "t < length (pcs s)" "pcs s' = (pcs s)[t := c]" "set (released s) = set (released s')"
    "dom (managedProcesses (manager s)) \<subseteq> dom (managedProcesses (manager s'))"
    "\<And>p. managed_pid c = Some p \<Longrightarrow> managed_pid (pcs s ! t) = Some p \<or> p \<in> dom (managedProcesses (manager s'))"
  shows "all_managed s'"
  unfolding all_managed_def
proof (intro ballI allI impI)
  fix d p assume d: "d \<in> set (pcs s')" "managed_pid d = Some p"
  have old: "p \<in> dom (managedProcesses (manager s')) \<or> p \<in> set (released s')" if "e \<in> set (pcs s)" "managed_pid e = Some p" for e
    using assms(1,4,5) that unfolding all_managed_def by blast
  show "p \<in> dom (managedProcesses (manager s')) \<or> p \<in> set (released s')"
  proof (cases "d = c")
    case True
    then show ?thesis using assms(6) d(2) old [OF nth_mem [OF assms(2)]] by blast
  next
    case False
    then show ?thesis using in_moved d assms(3) old by metis
  qed
qed

lemma step_managed:
  assumes "proc_step False s s'" "all_managed s" "own_pids s"
  shows "all_managed s'"
  using assms
proof (induction rule: proc_step.induct)
  case (delete t pid)
  have "p \<noteq> pid" if d: "d \<in> set ((pcs s)[t := Ended])" "managed_pid d = Some p" for d p
  proof
    assume "p = pid"
    obtain i where i: "i < length (pcs s)" "(pcs s)[t := Ended] ! i = d" using d(1) by (auto simp: in_set_conv_nth)
    then have "i \<noteq> t" using d(2) delete(1) by auto
    then have "pcs s ! i = d" using i by simp
    with \<open>i \<noteq> t\<close> show False
      using delete i(1) managed_has_pid [OF d(2)] \<open>p = pid\<close> by (auto simp: own_pids_def)
  qed
  moreover have "p \<in> dom (managedProcesses (manager s)) \<or> p \<in> set (released s)"
    if "d \<in> set ((pcs s)[t := Ended])" "managed_pid d = Some p" for d p
    using in_moved [OF that(1)] that(2) delete(3) by (auto simp: all_managed_def)
  ultimately show ?case by (fastforce simp: all_managed_def)
next
  case (shutdown force changed p ks)
  then show ?case using transition_frame(2) by (auto simp: all_managed_def)
next
  case (leave t k c pid)
  show ?case by (rule managed_goto [OF leave(3) leave(1)]) (use leave(2) in auto)
next
  case release
  then show ?case by (fastforce simp: all_managed_def split: if_splits)
next
  case refused
  then show ?case by (auto simp: all_managed_def)
next
  case enter
  then show ?case by (auto simp: all_managed_def incrementWaitGroup_def split: if_splits)
next
  case dies
  then show ?case by (simp add: all_managed_def)
next
  case (starts t k pid)
  have "p \<noteq> pid" if "d \<in> set (pcs s)" "managed_pid d = Some p" for d p
    using starts(3) managed_has_pid [OF that(2)] that(1) by (auto simp: free_pid_def)
  then show ?case using starts(4) by (fastforce simp: all_managed_def dest!: in_moved)
qed (erule managed_goto, assumption, simp, simp, force, force)+

lemma notified_goto:
  assumes "notified s p" "pcState (manager s') = pcState (manager s)"
    "told_state (pcState (manager s)) p (os s) \<Longrightarrow> told_state (pcState (manager s)) p (os s')"
    "pcs s' = (pcs s)[t := c]" "\<And>st todo. pcs s ! t \<noteq> Ranging st todo"
  shows "notified s' p"
  using assms moved [of _ "pcs s" t c] unfolding notified_def by metis

lemma all_notified_goto:
  assumes "all_notified s" "t < length (pcs s)" "pcs s' = (pcs s)[t := c]" "pcState (manager s') = pcState (manager s)"
    "released s' = released s"
    "\<And>p. p \<notin> set (released s) \<Longrightarrow> notified s p \<Longrightarrow> managed_pid c = Some p \<or> (\<exists>d\<in>set (pcs s). managed_pid d = Some p) \<Longrightarrow> notified s' p"
    "\<And>p. due (pcState (manager s)) c = Some p \<Longrightarrow> due (pcState (manager s)) (pcs s ! t) = Some p \<or> notified s' p"
  shows "all_notified s'"
  unfolding all_notified_def assms(4,5)
proof (intro ballI allI impI)
  fix d p assume d: "d \<in> set (pcs s')" "due (pcState (manager s)) d = Some p"
  have old: "p \<in> set (released s) \<or> notified s' p" if "e \<in> set (pcs s)" "due (pcState (manager s)) e = Some p" for e
    using assms(1,6) that due_managed [OF that(2)] unfolding all_notified_def by blast
  show "p \<in> set (released s) \<or> notified s' p"
  proof (cases "d = c")
    case True
    then show ?thesis using assms(7) d(2) old [OF nth_mem [OF assms(2)]] by blast
  next
    case False
    then show ?thesis using in_moved d assms(3) old by metis
  qed
qed

lemma notified_range:
  assumes "notified s p" "t < length (pcs s)" "pcs s ! t = Ranging st todo" "pcs s' = (pcs s)[t := Ranging st todo']"
    "manager s' = manager s" "told_state (pcState (manager s)) p (os s) \<Longrightarrow> told_state (pcState (manager s)) p (os s')"
    "p \<in> set todo \<Longrightarrow> p \<in> set todo' \<or> told_state st p (os s')"
  shows "notified s' p"
proof (cases "told_state (pcState (manager s)) p (os s)")
  case False
  then obtain ks where ks: "Ranging (pcState (manager s)) ks \<in> set (pcs s)" "p \<in> set ks"
    using assms(1) by (auto simp: notified_def)
  show ?thesis
  proof (cases "Ranging (pcState (manager s)) ks = pcs s ! t")
    case True
    then show ?thesis using assms(2-7) ks set_update_memI [OF assms(2)] by (auto simp: notified_def)
  next
    case other: False
    then show ?thesis using moved [OF ks(1) other] ks(2) assms(4,5) by (auto simp: notified_def)
  qed
qed (use assms(5,6) in \<open>simp add: notified_def\<close>)

lemma told_new_holder: "q \<noteq> pid \<Longrightarrow> told_state st q (os (new_holder pid s)) = told_state st q (os s)"
  by (cases st) (auto simp: new_holder_def)

lemma step_notified:
  assumes "proc_step False s s'" "all_notified s" "all_managed s"
  shows "all_notified s'"
  using assms
proof (induction rule: proc_step.induct)
  case (shutdown force changed p ks)
  note frame = transition_frame [OF shutdown(1)]
  show ?case
  proof (cases changed)
    case True
    have "notified (spawn (shutdown_pc changed p ks) (s\<lparr>manager := p\<rparr>)) q"
      if "c \<in> set (pcs s)" "managed_pid c = Some q" "q \<notin> set (released s)" for c q
    proof -
      have "q \<in> set ks" using that shutdown(2,4) frame(2) by (auto simp: all_managed_def keys_of_def)
      then show ?thesis using True frame(3) by (cases "pcState p") (auto simp: notified_def shutdown_pc_def)
    qed
    then show ?thesis using due_managed by (fastforce simp: all_notified_def)
  next
    case False
    then show ?thesis using frame(4) shutdown(3) by (auto simp: all_notified_def notified_def)
  qed
next
  case refused
  then show ?case by (auto simp: all_notified_def notified_def)
next
  case enter
  then show ?case by (auto simp: all_notified_def notified_def incrementWaitGroup_def split: if_splits)
next
  case dies
  then show ?case by (simp add: all_notified_def notified_def)
next
  case (starts t k pid)
  have "p \<in> set (released s) - {pid} \<or> notified (goto t (Launched k pid) (new_holder pid s)) p"
    if d: "d \<in> set (pcs s)" "due (pcState (manager s)) d = Some p" for d p
  proof -
    have p: "p \<noteq> pid" using starts(3) managed_has_pid [OF due_managed [OF d(2)]] d(1) by (auto simp: free_pid_def)
    have old: "p \<in> set (released s) \<or> notified s p" using starts(4) d unfolding all_notified_def by blast
    have r: "Ranging st todo \<in> set ((pcs s)[t := Launched k pid])" if "Ranging st todo \<in> set (pcs s)" for st todo
      by (rule moved [OF that]) (simp add: starts(2))
    have "notified s p \<Longrightarrow> notified (goto t (Launched k pid) (new_holder pid s)) p"
      unfolding notified_def using r told_new_holder [OF p] by (auto simp: goto_def)
    then show ?thesis using p old by blast
  qed
  then show ?case by (fastforce simp: all_notified_def dest!: in_moved)
next
  case release
  then show ?case by (auto simp: all_notified_def notified_def)
next
  case (leave t k c pid)
  show ?case
    by (rule all_notified_goto [OF leave(3) leave(1)]) (use leave(2) in \<open>auto elim!: notified_goto\<close>)
next
  case (signal t st k pid)
  have "notified (goto t (Watching k pid) (s\<lparr>os := signal_for st pid (os s)\<rparr>)) q" if "notified s q" for q
    by (rule notified_goto [OF that]) (use signal(2) told_state_mono in auto)
  then show ?case
    by (intro all_notified_goto [OF signal(3) signal(1)]) (auto simp: signal(2) notified_def [of "goto _ _ _"])
next
  case (visit t st todo pid)
  show ?case
    by (rule all_notified_goto [OF visit(3) visit(1)])
      (use visit(1,2) told_state_mono in \<open>auto elim!: notified_range\<close>)
next
  case (skip t st todo pid)
  show ?case
  proof (rule all_notified_goto [OF skip(4) skip(1)])
    fix q assume q: "q \<notin> set (released s)" "notified s q"
      "managed_pid (Ranging st (removeAll pid todo)) = Some q \<or> (\<exists>d\<in>set (pcs s). managed_pid d = Some q)"
    then have "q \<noteq> pid" using skip(3,5) by (auto simp: all_managed_def)
    then show "notified (goto t (Ranging st (removeAll pid todo)) s) q"
      using notified_range [OF q(2) skip(1,2)] by auto
  qed auto
next
  case (range_end t st)
  show ?case
  proof (rule all_notified_goto [OF range_end(3) range_end(1)])
    fix q assume "notified s q"
    then show "notified (goto t (range_end_pc st) s) q"
      using range_end(2) moved [of _ "pcs s" t "range_end_pc st"]
      by (auto simp: notified_def) (metis empty_iff empty_set proc_pc.inject(9))
  qed auto
qed (erule all_notified_goto, assumption, simp, simp, simp, force elim!: notified_goto, force)+

lemma reached_notified: "proc_reached False s \<Longrightarrow> own_pids s \<and> all_managed s \<and> all_notified s"
proof (induction rule: proc_reached.induct)
  case start
  show ?case by (simp add: own_pids_def all_managed_def all_notified_def proc_start_def)
next
  case (step s ev s')
  then show ?case using proc_exec_step step_own step_managed step_notified by blast
qed


section \<open>Examples\<close>

text \<open>A process that is registered only after the shutdown has gone through the managed processes.\<close>

definition late_events :: "proc_event list" where
  "late_events = [Enter StartCall, Starts 0 7, Shutdown False [], RangeEnds 1, Registers 0 no_handles,
     ReadsState 0, Signals 0]"

definition late_state :: proc_system where
  "late_state = \<lparr>manager = \<lparr>managedProcesses = [7 \<mapsto> no_handles], shutdownWg = 1, pcState = stateGraceful\<rparr>,
     os = \<lparr>fds = [], next_fd = 0, consumed = [], sent = [(SIGINT, 7)]\<rparr>, alive = [7], released = [],
     pcs = [Watching StartCall 7, WaitingWg]\<rparr>"

definition final_state :: proc_system where
  "final_state = late_state\<lparr>manager := \<lparr>managedProcesses = [7 \<mapsto> no_handles], shutdownWg = 0, pcState = stateGraceful\<rparr>,
     alive := [], pcs := [Ended, Returned stateGraceful]\<rparr>"

lemmas operations = proc_start_def newProcessCommon_def incrementWaitGroup_def decrementWaitGroup_def
  store_process_def delete_process_def shutdown_transition_def keys_of_def shutdown_pc_def range_end_pc_def
  signal_for_def InterruptProcess_def signal_group_def free_pid_def new_holder_def goto_def spawn_def

lemma late_reached: "proc_reached u late_state"
proof -
  have "proc_run u late_events proc_start = Some late_state"
    by (simp add: late_events_def late_state_def operations Let_def)
  then show ?thesis using proc_run_reached proc_reached.start by blast
qed

lemma final_reached: "proc_reached u final_state"
proof -
  have "proc_run u [Dies 7, Reaps 0, Decrements 0, WaitReturns 1] late_state = Some final_state"
    by (simp add: final_state_def late_state_def operations Let_def)
  then show ?thesis using proc_run_reached late_reached by blast
qed

theorem graceful_shutdown_final_witness:
  "proc_reached False final_state \<and> Returned stateGraceful \<in> set (pcs final_state) \<and>
   alive final_state = [] \<and> incrementWaitGroup (manager final_state) = None"
  using graceful_shutdown_final [OF final_reached] final_reached [of False] by (simp add: final_state_def late_state_def)


text \<open>
  If a PID is given out again earlier, a process can escape: \<open>ExecCommand\<close> deletes its PID from the managed processes
  after it has waited for the process, and by then the PID may belong to a process that was
  registered meanwhile. It is neither interrupted nor killed, and a graceful shutdown waits for it.
\<close>

definition reuse_events :: "proc_event list" where
  "reuse_events = [Enter ExecCall, Starts 0 7, Registers 0 no_handles, ReadsState 0, Signals 0, Dies 7, Reaps 0,
     Decrements 0, Enter StartCall, Starts 1 7, Registers 1 no_handles, ReadsState 1, Signals 1, Deletes 0,
     Shutdown False [], RangeEnds 2]"

lemma reused_pid_escapes:
  "\<exists>s. proc_reached True s \<and> pcs s = [Ended, Watching StartCall 7, WaitingWg] \<and> released s = [] \<and>
     7 \<in> set (alive s) \<and> pcState (manager s) = stateGraceful \<and> sent (os s) = []"
proof -
  have "\<exists>s. proc_run True reuse_events proc_start = Some s \<and> pcs s = [Ended, Watching StartCall 7, WaitingWg] \<and>
     released s = [] \<and> 7 \<in> set (alive s) \<and> pcState (manager s) = stateGraceful \<and> sent (os s) = []"
    by (simp add: reuse_events_def operations Let_def)
  then show ?thesis using proc_run_reached proc_reached.start by blast
qed

text \<open>Once the shutdown is forced, a graceful call neither waits nor signals.\<close>

lemma graceful_after_forced:
  assumes "pcState (manager s) = stateForced" "proc_exec u (Shutdown False ks) s = Some s'"
  shows "pcs s' = pcs s @ [Returned stateForced] \<and> os s' = os s"
  using assms by (auto simp: operations Let_def split: if_splits)

end
