(* ===== verification/TokenStorage.thy ===== *)
theory TokenStorage
  imports GoLib Transition "HOL-Library.AList"
begin

text \<open>
  The privileges of the target agent: the storage of proof tokens
  (core/atperf-agent/privilege/tokenstorage.go), the root worker that an elevated agent keeps
  (core/atperf-agent/grpcserver/api_target_agent_elevate_privileges.go) and the RPCs that are passed
  on to it (proxy.go, api_target_agent.go).

  Times and durations are nanoseconds. The map of tokens is an association list without repeated
  keys. The garbage collector marks under the read lock and sweeps under the write lock, so these are
  two steps between which other calls may run.
\<close>

section \<open>Tokens\<close>

record TokenStorageConfig =
  TTL :: int
  AbsoluteTTL :: int
  GCPeriod :: int
  KeyLength :: int

record Token =
  createdAt :: int
  modifiedAt :: int
  expiresAt :: int
  absoluteExpAt :: int
  refCount :: int

record TokenStorageImpl =
  tsConfig :: TokenStorageConfig
  tokens :: "(string \<times> Token) list"

datatype token_error =
    ErrInvalidTTL
  | ErrInvalidAbsoluteTTL
  | ErrInvalidGCPeriod
  | ErrInvalidKeyLength
  | ErrTokenNotFound
  | ErrTokenExpired
  | ErrTokenClash
  | ErrRandom

abbreviation second :: int where "second \<equiv> 1000000000"

definition maxTTL :: int where "maxTTL = 24 * 3600 * second"
definition maxGCPeriod :: int where "maxGCPeriod = 3600 * second"
definition maxKeyLength :: int where "maxKeyLength = 1024"

definition WithDefaultTokenStorageConfig :: TokenStorageConfig where
  "WithDefaultTokenStorageConfig =
     \<lparr>TTL = 5 * 60 * second, AbsoluteTTL = maxTTL, GCPeriod = 10 * second, KeyLength = 32\<rparr>"

definition isExpired :: "Token \<Rightarrow> int \<Rightarrow> bool" where
  "isExpired t now \<longleftrightarrow> now > expiresAt t \<or> now > absoluteExpAt t"

definition shouldRevoke :: "Token \<Rightarrow> int \<Rightarrow> bool" where
  "shouldRevoke t now \<longleftrightarrow> isExpired t now \<and> (refCount t = 0 \<or> now > absoluteExpAt t)"

definition NewTokenStorage :: "TokenStorageConfig \<Rightarrow> token_error + TokenStorageImpl" where
  "NewTokenStorage config =
     (if TTL config \<le> 0 \<or> TTL config > maxTTL then Inl ErrInvalidTTL
      else if AbsoluteTTL config \<le> 0 \<or> AbsoluteTTL config > maxTTL then Inl ErrInvalidAbsoluteTTL
      else if GCPeriod config \<le> 0 \<or> GCPeriod config > maxGCPeriod then Inl ErrInvalidGCPeriod
      else if KeyLength config \<le> 0 \<or> KeyLength config > maxKeyLength then Inl ErrInvalidKeyLength
      else Inr \<lparr>tsConfig = config, tokens = []\<rparr>)"

text \<open>\<open>base64.RawURLEncoding\<close>: groups of three bytes give four letters, a rest of one or two bytes gives two or three.\<close>

definition alphabet :: string where
  "alphabet = ''ABCDEFGHIJKLMNOPQRSTUVWXYZabcdefghijklmnopqrstuvwxyz0123456789-_''"

fun EncodeToString :: "nat list \<Rightarrow> string" where
  "EncodeToString [] = []"
| "EncodeToString [a] = [alphabet ! (a div 4), alphabet ! (a mod 4 * 16)]"
| "EncodeToString [a, b] =
     [alphabet ! (a div 4), alphabet ! (a mod 4 * 16 + b div 16), alphabet ! (b mod 16 * 4)]"
| "EncodeToString (a # b # c # bs) =
     alphabet ! (a div 4) # alphabet ! (a mod 4 * 16 + b div 16) # alphabet ! (b mod 16 * 4 + c div 64) #
     alphabet ! (c mod 64) # EncodeToString bs"

text \<open>\<open>random\<close> is what \<open>rand.Read\<close> delivers, \<open>None\<close> on an error.\<close>

definition Generate :: "nat list option \<Rightarrow> int \<Rightarrow> TokenStorageImpl \<Rightarrow> token_error + string \<times> TokenStorageImpl" where
  "Generate random now ts =
     (case random of
        None \<Rightarrow> Inl ErrRandom
      | Some buf \<Rightarrow>
          let i = EncodeToString buf in
          if map_of (tokens ts) i \<noteq> None then Inl ErrTokenClash
          else Inr (i, ts\<lparr>tokens := AList.update i \<lparr>createdAt = now, modifiedAt = now,
                 expiresAt = now + TTL (tsConfig ts), absoluteExpAt = now + AbsoluteTTL (tsConfig ts),
                 refCount = 0\<rparr> (tokens ts)\<rparr>))"

definition Validate :: "string \<Rightarrow> int \<Rightarrow> TokenStorageImpl \<Rightarrow> bool" where
  "Validate i now ts = (case map_of (tokens ts) i of None \<Rightarrow> False | Some t \<Rightarrow> \<not> isExpired t now)"

definition put_token :: "string \<Rightarrow> Token \<Rightarrow> TokenStorageImpl \<Rightarrow> TokenStorageImpl" where
  "put_token i t ts = ts\<lparr>tokens := AList.update i t (tokens ts)\<rparr>"

definition refreshed :: "int \<Rightarrow> TokenStorageImpl \<Rightarrow> Token \<Rightarrow> Token" where
  "refreshed now ts t = t\<lparr>modifiedAt := now, expiresAt := now + TTL (tsConfig ts)\<rparr>"

definition Refresh :: "string \<Rightarrow> int \<Rightarrow> TokenStorageImpl \<Rightarrow> token_error option \<times> TokenStorageImpl" where
  "Refresh i now ts =
     (case map_of (tokens ts) i of
        None \<Rightarrow> (Some ErrTokenNotFound, ts)
      | Some t \<Rightarrow> if isExpired t now then (Some ErrTokenExpired, ts) else (None, put_token i (refreshed now ts t) ts))"

definition Revoke :: "string \<Rightarrow> TokenStorageImpl \<Rightarrow> TokenStorageImpl" where
  "Revoke i ts = ts\<lparr>tokens := AList.delete i (tokens ts)\<rparr>"

definition RevokeAll :: "TokenStorageImpl \<Rightarrow> TokenStorageImpl" where
  "RevokeAll ts = ts\<lparr>tokens := []\<rparr>"

definition Acquire :: "string \<Rightarrow> int \<Rightarrow> TokenStorageImpl \<Rightarrow> token_error option \<times> TokenStorageImpl" where
  "Acquire i now ts =
     (case map_of (tokens ts) i of
        None \<Rightarrow> (Some ErrTokenNotFound, ts)
      | Some t \<Rightarrow>
          if isExpired t now then (Some ErrTokenExpired, ts)
          else (None, put_token i (t\<lparr>refCount := refCount t + 1\<rparr>) ts))"

definition Release_token :: "string \<Rightarrow> bool \<Rightarrow> int \<Rightarrow> TokenStorageImpl \<Rightarrow> token_error option \<times> TokenStorageImpl" where
  "Release_token i shouldRefresh now ts =
     (case map_of (tokens ts) i of
        None \<Rightarrow> (Some ErrTokenNotFound, ts)
      | Some t \<Rightarrow>
          let t1 = (if shouldRefresh then refreshed now ts t else t) in
          (None, if refCount t1 > 0 then put_token i (t1\<lparr>refCount := refCount t1 - 1\<rparr>) ts else ts))"

text \<open>One round of the garbage collector: marking, then sweeping; the last result says whether \<open>OnEmpty\<close>,
  which the server sets, is called.\<close>

definition gc_mark :: "int \<Rightarrow> TokenStorageImpl \<Rightarrow> string list" where
  "gc_mark now ts = map fst (filter (\<lambda>(i, t). shouldRevoke t now) (tokens ts))"

definition gc_sweep :: "string list \<Rightarrow> TokenStorageImpl \<Rightarrow> TokenStorageImpl \<times> bool" where
  "gc_sweep expired ts =
     (if expired = [] then (ts, False)
      else let ts1 = foldl (\<lambda>s i. Revoke i s) ts expired in (ts1, tokens ts1 = []))"

section \<open>Tokens under concurrent calls\<close>

record token_system =
  storage :: TokenStorageImpl
  clock :: int
  marked :: "string list option"
  emptied :: nat

datatype token_event =
    Passes int
  | EGenerate "nat list"
  | ERefresh string
  | ERevoke string
  | ERevokeAll
  | EAcquire string
  | ERelease string bool
  | Marks
  | Sweeps

text \<open>
  \<open>crypto/rand\<close> is relied on for one thing: a new token is not one that the collector has just marked.
\<close>

fun token_exec :: "token_event \<Rightarrow> token_system \<Rightarrow> token_system option" where
  "token_exec (Passes d) s = (if d \<ge> 0 then Some (s\<lparr>clock := clock s + d\<rparr>) else None)"
| "token_exec (EGenerate buf) s =
     (if (\<exists>ms. marked s = Some ms \<and> EncodeToString buf \<in> set ms) then None
      else case Generate (Some buf) (clock s) (storage s) of
             Inl e \<Rightarrow> Some s
           | Inr (i, ts) \<Rightarrow> Some (s\<lparr>storage := ts\<rparr>))"
| "token_exec (ERefresh i) s = Some (s\<lparr>storage := snd (Refresh i (clock s) (storage s))\<rparr>)"
| "token_exec (ERevoke i) s = Some (s\<lparr>storage := Revoke i (storage s)\<rparr>)"
| "token_exec ERevokeAll s = Some (s\<lparr>storage := RevokeAll (storage s)\<rparr>)"
| "token_exec (EAcquire i) s = Some (s\<lparr>storage := snd (Acquire i (clock s) (storage s))\<rparr>)"
| "token_exec (ERelease i r) s = Some (s\<lparr>storage := snd (Release_token i r (clock s) (storage s))\<rparr>)"
| "token_exec Marks s =
     (if marked s = None then Some (s\<lparr>marked := Some (gc_mark (clock s) (storage s))\<rparr>) else None)"
| "token_exec Sweeps s =
     (case marked s of
        None \<Rightarrow> None
      | Some ms \<Rightarrow>
         (case gc_sweep ms (storage s) of (ts, called) \<Rightarrow>
            Some (s\<lparr>storage := ts, marked := None, emptied := emptied s + (if called then 1 else 0)\<rparr>)))"

inductive token_reached :: "TokenStorageConfig \<Rightarrow> token_system \<Rightarrow> bool" for config where
  start: "NewTokenStorage config = Inr ts \<Longrightarrow>
    token_reached config \<lparr>storage = ts, clock = now, marked = None, emptied = 0\<rparr>"
| step: "token_reached config s \<Longrightarrow> token_exec ev s = Some s' \<Longrightarrow> token_reached config s'"

section \<open>The invariant\<close>

definition tokens_ok :: "TokenStorageConfig \<Rightarrow> token_system \<Rightarrow> bool" where
  "tokens_ok config s \<longleftrightarrow> tsConfig (storage s) = config \<and> distinct (map fst (tokens (storage s))) \<and>
     (\<forall>i t. map_of (tokens (storage s)) i = Some t \<longrightarrow>
        createdAt t \<le> clock s \<and> absoluteExpAt t = createdAt t + AbsoluteTTL config \<and>
        refCount t \<ge> 0 \<and> expiresAt t \<le> clock s + TTL config) \<and>
     (\<forall>ms. marked s = Some ms \<longrightarrow> (\<forall>i\<in>set ms. \<forall>t. map_of (tokens (storage s)) i = Some t \<longrightarrow> shouldRevoke t (clock s)))"

lemma put_token_simps [simp]:
  "map_of (tokens (put_token i t ts)) = (map_of (tokens ts))(i \<mapsto> t)" "tsConfig (put_token i t ts) = tsConfig ts"
  by (simp_all add: put_token_def update_conv')

lemma Revoke_simps [simp]:
  "map_of (tokens (Revoke i ts)) = (map_of (tokens ts))(i := None)" "tsConfig (Revoke i ts) = tsConfig ts"
  by (simp_all add: Revoke_def delete_conv')

lemma sweep_simps:
  "map_of (tokens (foldl (\<lambda>s i. Revoke i s) ts ms)) i = (if i \<in> set ms then None else map_of (tokens ts) i)"
  "tsConfig (foldl (\<lambda>s i. Revoke i s) ts ms) = tsConfig ts"
  by (induction ms arbitrary: ts) auto

lemma gc_sweep_simps:
  "map_of (tokens (fst (gc_sweep ms ts))) i = (if i \<in> set ms then None else map_of (tokens ts) i)"
  "tsConfig (fst (gc_sweep ms ts)) = tsConfig ts"
  by (simp_all add: gc_sweep_def sweep_simps Let_def)

lemma distinct_Revoke: "distinct (map fst (tokens ts)) \<Longrightarrow> distinct (map fst (tokens (Revoke i ts)))"
  by (simp add: Revoke_def distinct_delete)

lemma distinct_put: "distinct (map fst (tokens ts)) \<Longrightarrow> distinct (map fst (tokens (put_token i t ts)))"
  by (simp add: put_token_def distinct_update)

lemma distinct_sweep: "distinct (map fst (tokens ts)) \<Longrightarrow> distinct (map fst (tokens (fst (gc_sweep ms ts))))"
proof -
  have "distinct (map fst (tokens ts)) \<Longrightarrow> distinct (map fst (tokens (foldl (\<lambda>s i. Revoke i s) ts ms)))"
    by (induction ms arbitrary: ts) (auto intro: distinct_Revoke)
  then show "distinct (map fst (tokens ts)) \<Longrightarrow> distinct (map fst (tokens (fst (gc_sweep ms ts))))"
    by (simp add: gc_sweep_def Let_def)
qed

lemma revoke_later: "shouldRevoke t now \<Longrightarrow> now \<le> later \<Longrightarrow> shouldRevoke t later"
  by (auto simp: shouldRevoke_def isExpired_def)

lemma marked_revocable:
  assumes "distinct (map fst (tokens ts))" "i \<in> set (gc_mark now ts)" "map_of (tokens ts) i = Some t"
  shows "shouldRevoke t now"
  using assms by (auto simp: gc_mark_def dest!: map_of_SomeD dest: eq_key_imp_eq_value)

text \<open>An operation that changes one token keeps the invariant if the new value fits and a marked token stays revocable.\<close>

lemma ok_put:
  assumes "tokens_ok config s" "map_of (tokens (storage s)) i = Some t"
    "createdAt u = createdAt t" "absoluteExpAt u = absoluteExpAt t" "refCount u \<ge> 0"
    "expiresAt u \<le> clock s + TTL config" "shouldRevoke t (clock s) \<Longrightarrow> shouldRevoke u (clock s)"
  shows "tokens_ok config (s\<lparr>storage := put_token i u (storage s)\<rparr>)"
  using assms unfolding tokens_ok_def by (auto intro: distinct_put)

lemma step_ok:
  assumes "tokens_ok config s" "token_exec ev s = Some s'"
  shows "tokens_ok config s'"
  using assms
proof (cases ev)
  case (EGenerate buf)
  then show ?thesis
    using assms
    by (auto simp: tokens_ok_def Generate_def Let_def update_conv' distinct_update split: if_splits sum.splits)
next
  case (ERefresh i)
  have "tokens_ok config (s\<lparr>storage := put_token i (refreshed (clock s) (storage s) t) (storage s)\<rparr>)"
    if "map_of (tokens (storage s)) i = Some t" "\<not> isExpired t (clock s)" for t
    by (rule ok_put [OF assms(1) that(1)])
      (use assms(1) that in \<open>auto simp: refreshed_def tokens_ok_def shouldRevoke_def\<close>)
  then show ?thesis using assms ERefresh by (auto simp: Refresh_def split: option.splits)
next
  case (EAcquire i)
  have "tokens_ok config (s\<lparr>storage := put_token i (t\<lparr>refCount := refCount t + 1\<rparr>) (storage s)\<rparr>)"
    if "map_of (tokens (storage s)) i = Some t" "\<not> isExpired t (clock s)" for t
    by (rule ok_put [OF assms(1) that(1)]) (use assms(1) that in \<open>auto simp: tokens_ok_def shouldRevoke_def\<close>)
  then show ?thesis using assms EAcquire by (auto simp: Acquire_def split: option.splits)
next
  case (ERelease i r)
  have "tokens_ok config (s\<lparr>storage := put_token i (u\<lparr>refCount := refCount t - 1\<rparr>) (storage s)\<rparr>)"
    if "map_of (tokens (storage s)) i = Some t" "refCount t > 0"
      "u = t \<or> u = refreshed (clock s) (storage s) t" for t u
    by (rule ok_put [OF assms(1) that(1)])
      (use assms(1) that in \<open>auto simp: tokens_ok_def refreshed_def shouldRevoke_def isExpired_def\<close>)
  then show ?thesis
    using assms ERelease by (auto simp: Release_token_def Let_def refreshed_def split: option.splits if_splits)
next
  case Marks
  then show ?thesis
    using assms by (auto simp: tokens_ok_def split: if_splits intro: marked_revocable)
next
  case Sweeps
  then obtain ms where ms: "marked s = Some ms" using assms(2) by (auto split: option.splits)
  then have "storage s' = fst (gc_sweep ms (storage s))" "marked s' = None" "clock s' = clock s"
    using assms(2) Sweeps by (auto split: prod.splits)
  then show ?thesis
    using assms(1) by (auto simp: tokens_ok_def gc_sweep_simps distinct_sweep split: if_splits)
next
  case (Passes d)
  then show ?thesis
    using assms revoke_later [of _ "clock s" "clock s + d"] by (fastforce simp: tokens_ok_def split: if_splits)
qed (auto simp: tokens_ok_def RevokeAll_def intro: distinct_Revoke split: if_splits)

lemma reached_tokens_ok: "token_reached config s \<Longrightarrow> tokens_ok config s"
proof (induction rule: token_reached.induct)
  case (start ts now)
  then show ?case by (auto simp: tokens_ok_def NewTokenStorage_def split: if_splits)
qed (rule step_ok)

text \<open>C33. The garbage collector spares what is needed: between its marking and its sweeping other calls may
  generate, acquire, release, refresh and revoke tokens, and still the sweep deletes no token that
  has not expired and none that is in use and within its absolute lifetime.\<close>

theorem gc_spares_live_tokens:
  assumes "token_reached config s" "token_exec Sweeps s = Some s'" "map_of (tokens (storage s)) i = Some t"
    "\<not> isExpired t (clock s) \<or> refCount t > 0 \<and> clock s \<le> absoluteExpAt t"
  shows "map_of (tokens (storage s')) i = Some t"
proof -
  obtain ms where ms: "marked s = Some ms" using assms(2) by (auto split: option.splits)
  have "\<not> shouldRevoke t (clock s)" using assms(4) by (auto simp: shouldRevoke_def)
  then have "i \<notin> set ms" using reached_tokens_ok [OF assms(1)] ms assms(3) by (auto simp: tokens_ok_def)
  then show ?thesis
    using assms(2,3) ms gc_sweep_simps(1) [of ms "storage s" i] by (auto split: prod.splits)
qed

text \<open>C34. A proof token grants privileges for at most a day: whatever refreshes, acquisitions and
  releases happened, a token that validates was generated by this storage no longer ago than the
  absolute lifetime of the configuration, which the storage only accepts up to 24 hours.\<close>

theorem valid_token_is_recent:
  assumes "token_reached config s" "Validate i (clock s) (storage s)"
  shows "\<exists>t. map_of (tokens (storage s)) i = Some t \<and> createdAt t \<le> clock s \<and>
    clock s \<le> createdAt t + AbsoluteTTL config \<and> AbsoluteTTL config \<le> maxTTL"
proof -
  have "AbsoluteTTL config \<le> maxTTL"
    using assms(1) by (induction rule: token_reached.induct) (auto simp: NewTokenStorage_def split: if_splits)
  moreover obtain t where "map_of (tokens (storage s)) i = Some t" "\<not> isExpired t (clock s)"
    using assms(2) by (auto simp: Validate_def split: option.splits)
  ultimately show ?thesis
    using reached_tokens_ok [OF assms(1)] by (auto simp: tokens_ok_def isExpired_def)
qed

text \<open>The callback for an empty storage comes from the collector only: revoking the last token does not
  call it, and neither does any later round until a new token has expired.\<close>

lemma revoked_storage_not_reported:
  assumes "tokens (Revoke i ts) = []"
  shows "gc_mark now (Revoke i ts) = []" "gc_sweep (gc_mark now (Revoke i ts)) (Revoke i ts) = (Revoke i ts, False)"
  using assms by (simp_all add: gc_mark_def gc_sweep_def)

text \<open>Tokens have the documented length, and different keys give different tokens.\<close>

lemma EncodeToString_length: "length (EncodeToString bs) = (length bs * 4 + 2) div 3"
  by (induction bs rule: EncodeToString.induct) auto

lemma alphabet_inj: "i < 64 \<Longrightarrow> j < 64 \<Longrightarrow> alphabet ! i = alphabet ! j \<Longrightarrow> i = j"
proof -
  have "distinct alphabet" "length alphabet = 64" by (simp_all add: alphabet_def)
  then show "i < 64 \<Longrightarrow> j < 64 \<Longrightarrow> alphabet ! i = alphabet ! j \<Longrightarrow> i = j" by (simp add: nth_eq_iff_index_eq)
qed

lemma quarter_eq:
  "a < 256 \<Longrightarrow> b < 256 \<Longrightarrow> alphabet ! (a div 4) = alphabet ! (b div 4) \<Longrightarrow> a div 4 = b div 4"
  by (rule alphabet_inj) simp_all

lemma digits_join:
  fixes x y m :: nat
  assumes "x * m + y = x' * m + y'" "y < m" "y' < m"
  shows "x = x' \<and> y = y'"
proof -
  have "(x * m + y) div m = x" "(x' * m + y') div m = x'" using assms(2,3) by simp_all
  then show ?thesis using assms(1) by simp
qed

lemma byte_eq: "(a::nat) div n = b div n \<Longrightarrow> a mod n = b mod n \<Longrightarrow> a = b"
  by (metis div_mult_mod_eq)

lemma letters_eq:
  assumes "alphabet ! (a mod k * m + b div n) = alphabet ! (a' mod k * m + b' div n)"
    "k * m = 64" "m * n = 256" "b < 256" "b' < 256"
  shows "a mod k = a' mod k \<and> b div n = b' div n"
proof -
  have pos: "0 < k" "0 < m" "0 < n" using assms(2,3) by (auto intro: Nat.gr0I)
  have m: "b div n < m" "b' div n < m" using assms(3-5) pos by (auto simp: div_less_iff_less_mult)
  have "x mod k * m + y < 64" if "y < m" for x y :: nat
  proof -
    have "x mod k + 1 \<le> k" using pos(1) by (simp add: Suc_leI)
    then have "(x mod k + 1) * m \<le> 64" using assms(2) by (metis mult_le_mono1)
    then show ?thesis using that by (simp add: algebra_simps)
  qed
  then show ?thesis using digits_join alphabet_inj assms(1) m by metis
qed

lemma EncodeToString_inj:
  assumes "EncodeToString bs = EncodeToString cs" "list_all (\<lambda>b. b < 256) bs" "list_all (\<lambda>b. b < 256) cs"
  shows "bs = cs"
  using assms
proof (induction bs arbitrary: cs rule: EncodeToString.induct)
  case 1
  then show ?case by (cases cs rule: EncodeToString.cases) auto
next
  case (2 a)
  obtain a' where cs: "cs = [a']" using 2(1) by (cases cs rule: EncodeToString.cases) auto
  have "a div 4 = a' div 4" "a mod 4 = a' mod 4"
    using 2 cs quarter_eq [of a a'] letters_eq [of a 4 16 0 16 a' 0] by simp_all
  then show ?case using cs byte_eq by blast
next
  case (3 a b)
  obtain a' b' where cs: "cs = [a', b']" using 3(1) by (cases cs rule: EncodeToString.cases) auto
  have "a div 4 = a' div 4" "a mod 4 = a' mod 4" "b div 16 = b' div 16" "b mod 16 = b' mod 16"
    using 3 cs quarter_eq [of a a'] letters_eq [of a 4 16 b 16 a' b']
      letters_eq [of b 16 4 0 64 b' 0] by auto
  then show ?case using cs byte_eq by blast
next
  case (4 a b c bs)
  obtain a' b' c' cs' where cs: "cs = a' # b' # c' # cs'"
    using 4(2) by (cases cs rule: EncodeToString.cases) auto
  then have lt: "a < 256" "b < 256" "c < 256" "a' < 256" "b' < 256" "c' < 256"
    and rest: "EncodeToString bs = EncodeToString cs'" "list_all (\<lambda>b. b < 256) bs" "list_all (\<lambda>b. b < 256) cs'"
    and letters: "alphabet ! (a div 4) = alphabet ! (a' div 4)"
      "alphabet ! (a mod 4 * 16 + b div 16) = alphabet ! (a' mod 4 * 16 + b' div 16)"
      "alphabet ! (b mod 16 * 4 + c div 64) = alphabet ! (b' mod 16 * 4 + c' div 64)"
      "alphabet ! (c mod 64) = alphabet ! (c' mod 64)"
    using 4(2-4) by simp_all
  have "a = a'"
    using quarter_eq [OF lt(1,4) letters(1)] letters_eq [OF letters(2) _ _ lt(2,5)] by (intro byte_eq [of a 4 a']) simp_all
  moreover have "b = b'"
    using letters_eq [OF letters(2) _ _ lt(2,5)] letters_eq [OF letters(3) _ _ lt(3,6)]
    by (intro byte_eq [of b 16 b']) simp_all
  moreover have "c = c'"
    using letters_eq [OF letters(3) _ _ lt(3,6)] alphabet_inj [OF _ _ letters(4)]
    by (intro byte_eq [of c 64 c']) simp_all
  ultimately show ?case using cs 4(1) [OF rest] by simp
qed

section \<open>The root worker\<close>

datatype ProofMechanism = ProofMechanismUnknown | NoPasswdUserns | NoPasswdSudo | SudoPassword | SetuidHelper | AndroidSu

datatype elevate_error =
    AndroidSuNotImplemented
  | MechanismNotSupported
  | MechanismUnknown
  | RootWorkerStartFailed
  | MissingProof
  | InternalError
  | NoRootWorkerFound
  | InvalidToken
  | TokenError token_error

text \<open>
  Root workers are numbered; \<open>openWorkers\<close> are those that were launched and not closed. What the
  factory and the worker answer is in a \<open>worker_env\<close>. A launch that fails releases what it has
  acquired itself.
\<close>

record Elevator =
  rootWorker :: "nat option"
  rwClient :: "nat option"
  openWorkers :: "nat list"
  nextWorker :: nat

record worker_env =
  factory_ok :: bool
  launch_ok :: bool
  version_ok :: bool
  worker_privileged :: "bool option"

definition RootWorkerClient :: "Elevator \<Rightarrow> nat option" where
  "RootWorkerClient a = rwClient a"

definition cleanupRootWorkerInstance :: "nat option \<Rightarrow> Elevator \<Rightarrow> Elevator" where
  "cleanupRootWorkerInstance rw a =
     (case rw of None \<Rightarrow> a | Some n \<Rightarrow> a\<lparr>openWorkers := removeAll n (openWorkers a)\<rparr>)"

definition Elevator_CleanupRootWorker :: "Elevator \<Rightarrow> Elevator" where
  "Elevator_CleanupRootWorker a =
     (cleanupRootWorkerInstance (rootWorker a) a)\<lparr>rootWorker := None, rwClient := None\<rparr>"

definition cleanupRootWorkerAndUnsetIfCurrent :: "nat \<Rightarrow> Elevator \<Rightarrow> Elevator" where
  "cleanupRootWorkerAndUnsetIfCurrent rw a =
     (let a1 = cleanupRootWorkerInstance (Some rw) a in
      if rootWorker a1 = Some rw then a1\<lparr>rootWorker := None, rwClient := None\<rparr> else a1)"

definition createAndSetNewRootWorker :: "worker_env \<Rightarrow> Elevator \<Rightarrow> (elevate_error + nat option) \<times> Elevator" where
  "createAndSetNewRootWorker E a =
     (if rootWorker a \<noteq> None then (Inr None, a)
      else if \<not> factory_ok E then (Inl RootWorkerStartFailed, a)
      else if \<not> launch_ok E then (Inl RootWorkerStartFailed, a\<lparr>nextWorker := Suc (nextWorker a)\<rparr>)
      else
        let n = nextWorker a;
            a1 = a\<lparr>openWorkers := n # openWorkers a, nextWorker := Suc n\<rparr>
        in if \<not> version_ok E \<or> worker_privileged E \<noteq> Some True
           then (Inl RootWorkerStartFailed, cleanupRootWorkerInstance (Some n) a1)
           else (Inr (Some n), a1\<lparr>rootWorker := Some n, rwClient := Some n\<rparr>))"

definition Elevator_ElevatePrivileges :: "ProofMechanism \<Rightarrow> worker_env \<Rightarrow> Elevator \<Rightarrow> elevate_error option \<times> Elevator" where
  "Elevator_ElevatePrivileges mech E a =
     (case mech of
        NoPasswdSudo \<Rightarrow>
          (case createAndSetNewRootWorker E a of
             (Inl e, a1) \<Rightarrow> (Some e, a1)
           | (Inr w, a1) \<Rightarrow> (None, a1))
      | AndroidSu \<Rightarrow> (Some AndroidSuNotImplemented, a)
      | NoPasswdUserns \<Rightarrow> (Some MechanismNotSupported, a)
      | SudoPassword \<Rightarrow> (Some MechanismNotSupported, a)
      | SetuidHelper \<Rightarrow> (Some MechanismNotSupported, a)
      | ProofMechanismUnknown \<Rightarrow> (Some MechanismUnknown, a))"

definition one_worker :: "Elevator \<Rightarrow> bool" where
  "one_worker a \<longleftrightarrow> rwClient a = rootWorker a \<and> set (openWorkers a) \<subseteq> set_option (rootWorker a) \<and>
     (\<forall>n. rootWorker a = Some n \<longrightarrow> n < nextWorker a)"

datatype elevator_op = Elevate ProofMechanism worker_env | Cleanup | WorkerDied nat

fun elevator_exec :: "elevator_op \<Rightarrow> Elevator \<Rightarrow> Elevator" where
  "elevator_exec (Elevate mech E) a = snd (Elevator_ElevatePrivileges mech E a)"
| "elevator_exec Cleanup a = Elevator_CleanupRootWorker a"
| "elevator_exec (WorkerDied n) a = cleanupRootWorkerAndUnsetIfCurrent n a"

text \<open>The contract of \<open>Transition\<close>, for the calls of the elevator in any order.\<close>

lemma removeAll_only: "set xs \<subseteq> {x} \<Longrightarrow> removeAll x xs = []"
  by (induction xs) auto

interpretation elevator: exec_system elevator_exec "\<lambda>op. True" one_worker
proof unfold_locales
  fix a :: Elevator and op
  assume "one_worker a"
  then show "one_worker (elevator_exec op a)"
    by (cases op)
      (auto simp: one_worker_def Elevator_ElevatePrivileges_def createAndSetNewRootWorker_def Elevator_CleanupRootWorker_def
        cleanupRootWorkerAndUnsetIfCurrent_def cleanupRootWorkerInstance_def Let_def removeAll_only
        split: ProofMechanism.splits option.splits if_splits)
qed

definition NewElevator :: Elevator where
  "NewElevator = \<lparr>rootWorker = None, rwClient = None, openWorkers = [], nextWorker = 0\<rparr>"

definition elevator_run :: "elevator_op list \<Rightarrow> Elevator" where
  "elevator_run ops = foldl (\<lambda>s op. elevator_exec op s) NewElevator ops"

text \<open>At most one root worker runs: after any sequence of elevations, clean-ups and watchdog or log
  stream failures, the only worker that is still open is the current one, which is also the one that
  RPCs are sent to, and without a current worker none is open and no client is handed out.\<close>

theorem at_most_one_root_worker:
  "set (openWorkers (elevator_run ops)) \<subseteq> set_option (rootWorker (elevator_run ops)) \<and>
   RootWorkerClient (elevator_run ops) = rootWorker (elevator_run ops)"
proof -
  have "one_worker (elevator_run ops)"
    unfolding elevator_run_def by (rule elevator.run_invar) (simp_all add: list_all_iff NewElevator_def one_worker_def)
  then show ?thesis by (simp add: one_worker_def RootWorkerClient_def)
qed

section \<open>Privileged calls\<close>

definition metadataAsPrivileged :: string where "metadataAsPrivileged = ''apx-as-privileged''"
definition metadataPrivilegeProofToken :: string where "metadataPrivilegeProofToken = ''apx-privilege-proof-token''"

definition extractMetadata :: "(string \<Rightarrow> string list) option \<Rightarrow> bool \<times> string" where
  "extractMetadata ctx =
     (let md = (case ctx of None \<Rightarrow> \<lambda>_. [] | Some m \<Rightarrow> m);
          asPrivileged = (case md metadataAsPrivileged of [] \<Rightarrow> False | v # vs \<Rightarrow> v = ''true'');
          token = (case md metadataPrivilegeProofToken of [] \<Rightarrow> [] | t # ts \<Rightarrow> t)
      in (asPrivileged, token))"

text \<open>\<open>privileged\<close> is the answer of \<open>Checker.IsPrivileged\<close>, \<open>None\<close> on an error.\<close>

definition shouldProxyToRootWorker ::
  "bool \<Rightarrow> string \<Rightarrow> int \<Rightarrow> TokenStorageImpl \<Rightarrow> bool option \<Rightarrow> elevate_error + bool" where
  "shouldProxyToRootWorker asPrivileged token now ts privileged =
     (if \<not> asPrivileged \<or> token = [] then Inr False
      else if \<not> Validate token now ts then Inl InvalidToken
      else case privileged of
             None \<Rightarrow> Inl InternalError
           | Some p \<Rightarrow> Inr (\<not> p))"

text \<open>
  \<open>proxyUnary\<close>, and \<open>proxyServerStream\<close>, which differs in the type of the result only: \<open>invoke\<close> runs
  the RPC on the root worker from time \<open>now\<close> to time \<open>later\<close>.
\<close>

definition proxyUnary ::
  "string \<Rightarrow> int \<Rightarrow> int \<Rightarrow> Elevator \<Rightarrow> (nat \<Rightarrow> elevate_error + 'r) \<Rightarrow> TokenStorageImpl \<Rightarrow>
   (elevate_error + 'r) \<times> TokenStorageImpl" where
  "proxyUnary token now later a invoke ts =
     (case Acquire token now ts of
        (Some e, ts1) \<Rightarrow> (Inl (TokenError e), ts1)
      | (None, ts1) \<Rightarrow>
         (case RootWorkerClient a of
            None \<Rightarrow> (Inl NoRootWorkerFound, snd (Release_token token True later ts1))
          | Some c \<Rightarrow> (invoke c, snd (Release_token token True later ts1))))"

text \<open>A handler that may be passed on, such as \<open>KillProcess\<close>: on the root worker or on this agent.\<close>

datatype 'r handled = OnWorker 'r | Here 'r

definition privileged_call ::
  "(string \<Rightarrow> string list) option \<Rightarrow> int \<Rightarrow> int \<Rightarrow> bool option \<Rightarrow> Elevator \<Rightarrow> (nat \<Rightarrow> elevate_error + 'r) \<Rightarrow>
   (elevate_error + 'r) \<Rightarrow> TokenStorageImpl \<Rightarrow> (elevate_error + 'r) handled option \<times> elevate_error option \<times> TokenStorageImpl" where
  "privileged_call ctx now later privileged a invoke local ts =
     (case extractMetadata ctx of (asPrivileged, token) \<Rightarrow>
        case shouldProxyToRootWorker asPrivileged token now ts privileged of
          Inl e \<Rightarrow> (None, Some e, ts)
        | Inr True \<Rightarrow> (case proxyUnary token now later a invoke ts of (r, ts1) \<Rightarrow> (Some (OnWorker r), None, ts1))
        | Inr False \<Rightarrow> (Some (Here local), None, ts))"

text \<open>The RPC \<open>ElevatePrivileges\<close>: the token is handed out only if the agent is or becomes privileged.\<close>

definition ElevatePrivileges ::
  "ProofMechanism option \<Rightarrow> nat list option \<Rightarrow> int \<Rightarrow> bool option \<Rightarrow> worker_env \<Rightarrow> TokenStorageImpl \<Rightarrow> Elevator \<Rightarrow>
   (elevate_error + string) \<times> TokenStorageImpl \<times> Elevator" where
  "ElevatePrivileges proof random now privileged E ts a =
     (case proof of
        None \<Rightarrow> (Inl MissingProof, ts, a)
      | Some mech \<Rightarrow>
          if mech = ProofMechanismUnknown then (Inl MechanismUnknown, ts, a)
          else
            (case Generate random now ts of
               Inl e \<Rightarrow> (Inl InternalError, ts, a)
             | Inr (token, ts1) \<Rightarrow>
                (case privileged of
                   None \<Rightarrow> (Inl InternalError, ts1, a)
                 | Some True \<Rightarrow> (Inr token, ts1, a)
                 | Some False \<Rightarrow>
                    (case Elevator_ElevatePrivileges mech E a of
                       (Some e, a1) \<Rightarrow> (Inl e, Revoke token ts1, a1)
                     | (None, a1) \<Rightarrow> (Inr token, ts1, a1)))))"

definition CleanupRootWorker :: "TokenStorageImpl \<Rightarrow> Elevator \<Rightarrow> TokenStorageImpl \<times> Elevator" where
  "CleanupRootWorker ts a = (RevokeAll ts, Elevator_CleanupRootWorker a)"

lemma proxy_keeps_tokens:
  assumes "Validate token now ts" "proxyUnary token now later a invoke ts = (r, ts1)"
    "map_of (tokens ts) i = Some t" "refCount t \<ge> 0"
  shows "\<exists>u. map_of (tokens ts1) i = Some u \<and> refCount u = refCount t \<and> createdAt u = createdAt t \<and>
    absoluteExpAt u = absoluteExpAt t"
  using assms
  by (auto simp: proxyUnary_def Validate_def Acquire_def Release_token_def refreshed_def Let_def
    split: option.splits if_splits prod.splits)

text \<open>C35. A call reaches the root worker only on behalf of a client that asked for privileges and presented
  a token that validates, on an agent that is not privileged itself; it goes to the current root
  worker, and afterwards every token is still there and as much in use as before.\<close>

theorem worker_call_is_authorised:
  assumes "token_reached config s"
    "privileged_call (Some md) (clock s) later privileged a invoke local (storage s) = (Some (OnWorker r), e, ts1)"
  shows "\<exists>vs token ms. md metadataAsPrivileged = ''true'' # vs \<and> md metadataPrivilegeProofToken = token # ms \<and>
    Validate token (clock s) (storage s) \<and> privileged = Some False \<and>
    r = (case RootWorkerClient a of None \<Rightarrow> Inl NoRootWorkerFound | Some n \<Rightarrow> invoke n) \<and>
    (\<forall>i t. map_of (tokens (storage s)) i = Some t \<longrightarrow>
       (\<exists>u. map_of (tokens ts1) i = Some u \<and> refCount u = refCount t))"
proof -
  obtain p token where m: "extractMetadata (Some md) = (p, token)" by fastforce
  then have p: "p" "token \<noteq> []" and valid: "Validate token (clock s) (storage s)" and priv: "privileged = Some False"
    and x: "proxyUnary token (clock s) later a invoke (storage s) = (r, ts1)"
    using assms(2)
    by (auto simp: privileged_call_def shouldProxyToRootWorker_def split: if_splits option.splits prod.splits sum.splits bool.splits)
  have md: "\<exists>vs. md metadataAsPrivileged = ''true'' # vs" "\<exists>ms. md metadataPrivilegeProofToken = token # ms"
    using m p by (auto simp: extractMetadata_def split: list.splits)
  have "r = (case RootWorkerClient a of None \<Rightarrow> Inl NoRootWorkerFound | Some n \<Rightarrow> invoke n)"
    using x valid by (auto simp: proxyUnary_def Validate_def Acquire_def split: option.splits if_splits)
  moreover have "\<exists>u. map_of (tokens ts1) i = Some u \<and> refCount u = refCount t" if "map_of (tokens (storage s)) i = Some t" for i t
    using proxy_keeps_tokens [OF valid x that] reached_tokens_ok [OF assms(1)] that by (auto simp: tokens_ok_def)
  ultimately show ?thesis using md valid priv by blast
qed

text \<open>A failed elevation takes its token back, unless it is the privilege check that failed: then the token stays.\<close>

lemma failed_elevation_revokes:
  assumes "ElevatePrivileges proof random now privileged E ts a = (Inl e, ts1, a1)" "privileged \<noteq> None"
  shows "map_of (tokens ts1) = map_of (tokens ts)"
  using assms
  by (auto simp: ElevatePrivileges_def Generate_def Let_def update_conv' fun_eq_iff
    split: option.splits if_splits sum.splits bool.splits prod.splits)

section \<open>Examples\<close>

definition demo_token :: Token where
  "demo_token = \<lparr>createdAt = 0, modifiedAt = 0, expiresAt = 300 * second, absoluteExpAt = maxTTL, refCount = 1\<rparr>"

definition demo_tokens :: token_system where
  "demo_tokens = \<lparr>storage = \<lparr>tsConfig = WithDefaultTokenStorageConfig, tokens = [(EncodeToString [1, 2, 3], demo_token)]\<rparr>,
     clock = 301 * second, marked = Some [], emptied = 0\<rparr>"

fun token_run :: "token_event list \<Rightarrow> token_system \<Rightarrow> token_system option" where
  "token_run [] s = Some s"
| "token_run (ev # evs) s = (case token_exec ev s of None \<Rightarrow> None | Some s' \<Rightarrow> token_run evs s')"

lemma token_run_reached: "token_run evs s = Some s' \<Longrightarrow> token_reached config s \<Longrightarrow> token_reached config s'"
  by (induction evs arbitrary: s) (auto split: option.splits intro: token_reached.step)

lemma demo_tokens_reached: "token_reached WithDefaultTokenStorageConfig demo_tokens"
proof -
  have "token_reached WithDefaultTokenStorageConfig
      \<lparr>storage = \<lparr>tsConfig = WithDefaultTokenStorageConfig, tokens = []\<rparr>, clock = 0, marked = None, emptied = 0\<rparr>"
    by (rule token_reached.start)
      (simp add: NewTokenStorage_def WithDefaultTokenStorageConfig_def maxTTL_def maxGCPeriod_def maxKeyLength_def)
  moreover have "token_run [EGenerate [1, 2, 3], EAcquire (EncodeToString [1, 2, 3]), Passes (301 * second), Marks]
      \<lparr>storage = \<lparr>tsConfig = WithDefaultTokenStorageConfig, tokens = []\<rparr>, clock = 0, marked = None, emptied = 0\<rparr>
      = Some demo_tokens"
    by (simp add: Generate_def Acquire_def isExpired_def put_token_def gc_mark_def shouldRevoke_def demo_tokens_def
      demo_token_def WithDefaultTokenStorageConfig_def maxTTL_def Let_def del: EncodeToString.simps)
  ultimately show ?thesis using token_run_reached by blast
qed

theorem gc_spares_live_tokens_witness:
  "\<exists>s'. token_exec Sweeps demo_tokens = Some s' \<and> isExpired demo_token (clock demo_tokens) \<and>
     map_of (tokens (storage s')) (EncodeToString [1, 2, 3]) = Some demo_token"
proof -
  have e: "token_exec Sweeps demo_tokens = Some (demo_tokens\<lparr>marked := None\<rparr>)"
    by (simp add: gc_sweep_def demo_tokens_def)
  show ?thesis
    using gc_spares_live_tokens [OF demo_tokens_reached e, of "EncodeToString [1, 2, 3]" demo_token] e
    by (simp add: demo_tokens_def demo_token_def isExpired_def maxTTL_def del: EncodeToString.simps)
qed

definition live_tokens :: token_system where
  "live_tokens = \<lparr>storage = \<lparr>tsConfig = WithDefaultTokenStorageConfig,
       tokens = [(EncodeToString [1, 2, 3], demo_token\<lparr>refCount := 0\<rparr>)]\<rparr>, clock = 0, marked = None, emptied = 0\<rparr>"

lemma live_tokens_reached: "token_reached WithDefaultTokenStorageConfig live_tokens"
proof -
  have "token_reached WithDefaultTokenStorageConfig
      \<lparr>storage = \<lparr>tsConfig = WithDefaultTokenStorageConfig, tokens = []\<rparr>, clock = 0, marked = None, emptied = 0\<rparr>"
    by (rule token_reached.start)
      (simp add: NewTokenStorage_def WithDefaultTokenStorageConfig_def maxTTL_def maxGCPeriod_def maxKeyLength_def)
  moreover have "token_run [EGenerate [1, 2, 3]]
      \<lparr>storage = \<lparr>tsConfig = WithDefaultTokenStorageConfig, tokens = []\<rparr>, clock = 0, marked = None, emptied = 0\<rparr>
      = Some live_tokens"
    by (simp add: Generate_def live_tokens_def demo_token_def WithDefaultTokenStorageConfig_def maxTTL_def Let_def
      del: EncodeToString.simps)
  ultimately show ?thesis using token_run_reached by blast
qed

lemma live_token_valid: "Validate (EncodeToString [1, 2, 3]) (clock live_tokens) (storage live_tokens)"
  by (simp add: Validate_def live_tokens_def demo_token_def isExpired_def maxTTL_def del: EncodeToString.simps)

theorem valid_token_is_recent_witness:
  "\<exists>t. map_of (tokens (storage live_tokens)) (EncodeToString [1, 2, 3]) = Some t \<and>
     clock live_tokens \<le> createdAt t + AbsoluteTTL WithDefaultTokenStorageConfig"
  using valid_token_is_recent [OF live_tokens_reached live_token_valid] by blast

definition demo_metadata :: "string \<Rightarrow> string list" where
  "demo_metadata k = (if k = metadataAsPrivileged then [''true''] else [EncodeToString [1, 2, 3]])"

definition demo_elevator :: Elevator where
  "demo_elevator = \<lparr>rootWorker = Some 0, rwClient = Some 0, openWorkers = [0], nextWorker = 1\<rparr>"

theorem worker_call_is_authorised_witness:
  "\<exists>ts1. privileged_call (Some demo_metadata) (clock live_tokens) 5 (Some False) demo_elevator Inr (Inr 9) (storage live_tokens)
       = (Some (OnWorker (Inr 0)), None, ts1) \<and>
     (\<exists>u. map_of (tokens ts1) (EncodeToString [1, 2, 3]) = Some u \<and> refCount u = 0)"
proof -
  let ?call = "privileged_call (Some demo_metadata) (clock live_tokens) 5 (Some False) demo_elevator Inr (Inr 9) (storage live_tokens)"
  have e: "extractMetadata (Some demo_metadata) = (True, EncodeToString [1, 2, 3])"
    by (simp add: extractMetadata_def demo_metadata_def metadataAsPrivileged_def metadataPrivilegeProofToken_def
      del: EncodeToString.simps)
  have ne: "EncodeToString [1, 2, 3] \<noteq> []" by simp
  obtain r ts1 where c: "proxyUnary (EncodeToString [1, 2, 3]) (clock live_tokens) 5 demo_elevator Inr (storage live_tokens) = (r, ts1)"
    by fastforce
  then have call: "?call = (Some (OnWorker r), None, ts1)"
    using ne live_token_valid
    by (simp add: privileged_call_def e shouldProxyToRootWorker_def del: EncodeToString.simps)
  have t: "map_of (tokens (storage live_tokens)) (EncodeToString [1, 2, 3]) = Some (demo_token\<lparr>refCount := 0\<rparr>)"
    by (simp add: live_tokens_def del: EncodeToString.simps)
  note authorised = worker_call_is_authorised [OF live_tokens_reached call]
  have "r = Inr 0" using authorised by (auto simp: RootWorkerClient_def demo_elevator_def)
  moreover have "\<exists>u. map_of (tokens ts1) (EncodeToString [1, 2, 3]) = Some u \<and> refCount u = 0"
    using authorised t by (metis Token.simps(5) Token.update_convs(5) demo_token_def)
  ultimately show ?thesis using call by blast
qed

end
