(* ===== verification/AgentServer.thy ===== *)
theory AgentServer
  imports ProcessShutdown TokenStorage
begin

text \<open>
  The server of the target agent (core/atperf-agent/grpcserver): the admission of RPCs
  (admission.go), the \<open>Shutdown\<close> RPC over admission and process manager (api_target_agent.go,
  server.go), the tether (api_tether.go) and the log buffer (logbuffer.go).
\<close>

section \<open>Admission\<close>

record AdmissionInterceptor =
  admWg :: nat
  restrict :: bool

definition NewAdmissionInterceptor :: AdmissionInterceptor where
  "NewAdmissionInterceptor = \<lparr>admWg = 0, restrict = False\<rparr>"

definition ExemptOnlyShutdown :: "string \<Rightarrow> bool" where
  "ExemptOnlyShutdown fullMethod = HasSuffix fullMethod ''/Shutdown''"

definition Restrict :: "AdmissionInterceptor \<Rightarrow> AdmissionInterceptor" where
  "Restrict a = a\<lparr>restrict := True\<rparr>"

text \<open>The critical section of \<open>Unary\<close> and \<open>Stream\<close>; \<open>None\<close> means that the RPC is rejected.\<close>

definition admit :: "AdmissionInterceptor \<Rightarrow> AdmissionInterceptor option" where
  "admit a = (if restrict a then None else Some (a\<lparr>admWg := Suc (admWg a)\<rparr>))"

definition admission_done :: "AdmissionInterceptor \<Rightarrow> AdmissionInterceptor" where
  "admission_done a = a\<lparr>admWg := admWg a - 1\<rparr>"

interpretation admission_gate: gate "\<lambda>a. \<not> restrict a" admWg admit admission_done Restrict
  by unfold_locales (auto simp: admit_def admission_done_def Restrict_def split: if_splits)

section \<open>The shutdown of the agent\<close>

text \<open>
  RPCs are goroutines: those that are not exempt are \<open>InFlight\<close> between admission and end; \<open>Shutdown\<close>
  restricts admission, has the process manager shut down in one of its goroutines, waits for the RPCs
  in flight unless it is forced, and calls \<open>ShutdownCb\<close>, which closes \<open>stopCh\<close>. Closing it a second
  time panics.
\<close>

datatype rpc_pc =
    InFlight
  | Finished
  | Restricted bool
  | InManager bool nat
  | Draining
  | Stopping bool

record agent =
  admission :: AdmissionInterceptor
  procs :: proc_system
  rpcs :: "rpc_pc list"
  stopClosed :: bool
  panicked :: bool

definition agent_start :: agent where
  "agent_start = \<lparr>admission = NewAdmissionInterceptor, procs = proc_start, rpcs = [], stopClosed = False, panicked = False\<rparr>"

definition Server_Close :: "agent \<Rightarrow> agent" where
  "Server_Close s = (if stopClosed s then s\<lparr>panicked := True\<rparr> else s\<lparr>stopClosed := True\<rparr>)"

datatype agent_event =
    Arrives string
  | Completes nat
  | Calls nat "int list"
  | ManagerReturns nat
  | Drains nat
  | Callback nat
  | ShutdownArrives bool
  | Proc proc_event

abbreviation rpc :: "agent \<Rightarrow> nat \<Rightarrow> rpc_pc" where
  "rpc s t \<equiv> (if t < length (rpcs s) then rpcs s ! t else Finished)"

definition rpc_goto :: "nat \<Rightarrow> rpc_pc \<Rightarrow> agent \<Rightarrow> agent" where
  "rpc_goto t c s = s\<lparr>rpcs := (rpcs s)[t := c]\<rparr>"

fun is_shutdown :: "proc_event \<Rightarrow> bool" where
  "is_shutdown (Shutdown f ks) \<longleftrightarrow> True"
| "is_shutdown _ \<longleftrightarrow> False"

fun agent_exec :: "bool \<Rightarrow> agent_event \<Rightarrow> agent \<Rightarrow> agent option" where
  "agent_exec u (Arrives fullMethod) s =
     (if ExemptOnlyShutdown fullMethod then None
      else case admit (admission s) of
             None \<Rightarrow> Some s
           | Some a \<Rightarrow> Some (s\<lparr>admission := a, rpcs := rpcs s @ [InFlight]\<rparr>))"
| "agent_exec u (Completes t) s =
     (if rpc s t = InFlight then Some (rpc_goto t Finished (s\<lparr>admission := admission_done (admission s)\<rparr>)) else None)"
| "agent_exec u (ShutdownArrives force) s =
     Some (s\<lparr>admission := Restrict (admission s), rpcs := rpcs s @ [Restricted force]\<rparr>)"
| "agent_exec u (Calls t ks) s =
     (case rpc s t of
        Restricted force \<Rightarrow>
         (case proc_exec u (Shutdown force ks) (procs s) of
            None \<Rightarrow> None
          | Some p \<Rightarrow> Some (rpc_goto t (InManager force (length (pcs (procs s)))) (s\<lparr>procs := p\<rparr>)))
      | _ \<Rightarrow> None)"
| "agent_exec u (ManagerReturns t) s =
     (case rpc s t of
        InManager force i \<Rightarrow>
         (case at (procs s) i of
            Returned st \<Rightarrow> Some (rpc_goto t (if force then Stopping True else Draining) s)
          | _ \<Rightarrow> None)
      | _ \<Rightarrow> None)"
| "agent_exec u (Drains t) s =
     (if rpc s t = Draining \<and> admWg (admission s) = 0 then Some (rpc_goto t (Stopping False) s) else None)"
| "agent_exec u (Callback t) s =
     (case rpc s t of Stopping force \<Rightarrow> Some (rpc_goto t Finished (Server_Close s)) | _ \<Rightarrow> None)"
| "agent_exec u (Proc ev) s =
     (if is_shutdown ev then None
      else case proc_exec u ev (procs s) of None \<Rightarrow> None | Some p \<Rightarrow> Some (s\<lparr>procs := p\<rparr>))"

inductive agent_reached :: "bool \<Rightarrow> agent \<Rightarrow> bool" for u where
  start: "agent_reached u agent_start"
| step: "agent_reached u s \<Longrightarrow> agent_exec u ev s = Some s' \<Longrightarrow> agent_reached u s'"

text \<open>The events as a relation, for the invariants.\<close>

declare proc_exec.simps [simp del]

inductive agent_step :: "bool \<Rightarrow> agent \<Rightarrow> agent \<Rightarrow> bool" for u s where
  rejected: "agent_step u s s"
| arrives: "admit (admission s) = Some a \<Longrightarrow> agent_step u s (s\<lparr>admission := a, rpcs := rpcs s @ [InFlight]\<rparr>)"
| completes: "t < length (rpcs s) \<Longrightarrow> rpcs s ! t = InFlight \<Longrightarrow>
    agent_step u s (rpc_goto t Finished (s\<lparr>admission := admission_done (admission s)\<rparr>))"
| shutdown: "agent_step u s (s\<lparr>admission := Restrict (admission s), rpcs := rpcs s @ [Restricted force]\<rparr>)"
| calls: "t < length (rpcs s) \<Longrightarrow> rpcs s ! t = Restricted force \<Longrightarrow> proc_exec u (Shutdown force ks) (procs s) = Some p \<Longrightarrow>
    agent_step u s (rpc_goto t (InManager force i) (s\<lparr>procs := p\<rparr>))"
| returns: "t < length (rpcs s) \<Longrightarrow> rpcs s ! t = InManager force i \<Longrightarrow> Returned st \<in> set (pcs (procs s)) \<Longrightarrow>
    agent_step u s (rpc_goto t (if force then Stopping True else Draining) s)"
| drains: "t < length (rpcs s) \<Longrightarrow> rpcs s ! t = Draining \<Longrightarrow> admWg (admission s) = 0 \<Longrightarrow>
    agent_step u s (rpc_goto t (Stopping False) s)"
| callback: "t < length (rpcs s) \<Longrightarrow> rpcs s ! t = Stopping force \<Longrightarrow> agent_step u s (rpc_goto t Finished (Server_Close s))"
| process: "proc_exec u ev (procs s) = Some p \<Longrightarrow> agent_step u s (s\<lparr>procs := p\<rparr>)"

lemma agent_exec_step: "agent_exec u ev s = Some s' \<Longrightarrow> agent_step u s s'"
  by (cases ev)
    (auto split: if_splits option.splits rpc_pc.splits proc_pc.splits intro: agent_step.intros
      dest: nth_mem [of _ "pcs (procs s)"] intro!: agent_step.returns [where force = True, simplified]
        agent_step.returns [where force = False, simplified])

text \<open>The process manager of the agent goes through states of the process manager alone.\<close>

lemma agent_procs: "agent_reached u s \<Longrightarrow> proc_reached u (procs s)"
proof (induction rule: agent_reached.induct)
  case start
  then show ?case by (simp add: agent_start_def proc_reached.start)
next
  case (step s ev s')
  from agent_exec_step [OF step(2)] step(3) show ?case
    by (induction rule: agent_step.induct) (auto simp: rpc_goto_def Server_Close_def intro: proc_reached.step)
qed

definition rpcs_counted :: "agent \<Rightarrow> bool" where
  "rpcs_counted s \<longleftrightarrow> admWg (admission s) = length (filter ((=) InFlight) (rpcs s))"

definition rpcs_drained :: "agent \<Rightarrow> bool" where
  "rpcs_drained s \<longleftrightarrow> ((\<exists>c\<in>set (rpcs s). c \<noteq> InFlight \<and> c \<noteq> Finished) \<longrightarrow> restrict (admission s)) \<and>
     (Stopping False \<in> set (rpcs s) \<longrightarrow> admWg (admission s) = 0)"

definition manager_stopped :: "agent \<Rightarrow> bool" where
  "manager_stopped s \<longleftrightarrow> (Draining \<in> set (rpcs s) \<or> Stopping False \<in> set (rpcs s) \<longrightarrow>
     pcState (manager (procs s)) = stateForced \<or> Returned stateGraceful \<in> set (pcs (procs s)))"

lemma rpc_goto_fields [simp]:
  "rpcs (rpc_goto t c s) = (rpcs s)[t := c]" "admission (rpc_goto t c s) = admission s" "procs (rpc_goto t c s) = procs s"
  by (simp_all add: rpc_goto_def)

lemma Close_fields [simp]:
  "rpcs (Server_Close s) = rpcs s" "admission (Server_Close s) = admission s" "procs (Server_Close s) = procs s"
  by (simp_all add: Server_Close_def)

lemma agent_step_counted: "agent_step u s s' \<Longrightarrow> rpcs_counted s \<Longrightarrow> rpcs_counted s'"
  by (induction rule: agent_step.induct)
    (auto simp: rpcs_counted_def admit_def admission_done_def Restrict_def count_same count_less split: if_splits)

lemma agent_step_gate: "agent_step u s s' \<Longrightarrow> admission_gate.gate_step (admission s) (admission s')"
  by (induction rule: agent_step.induct) (auto simp: admission_gate.gate_step_def)

lemma shutdown_at: "t < length xs \<Longrightarrow> xs ! t \<noteq> InFlight \<Longrightarrow> xs ! t \<noteq> Finished \<Longrightarrow> \<exists>d\<in>set xs. d \<noteq> InFlight \<and> d \<noteq> Finished"
  by (metis nth_mem)

lemma agent_step_restricts:
  assumes "agent_step u s s'" "c \<in> set (rpcs s')" "c \<noteq> InFlight" "c \<noteq> Finished"
  shows "restrict (admission s') \<or> (\<exists>d\<in>set (rpcs s). d \<noteq> InFlight \<and> d \<noteq> Finished)"
  using assms
  by (induction rule: agent_step.induct) (auto simp: Restrict_def dest!: in_moved intro: shutdown_at split: if_splits)

lemma agent_step_stopping:
  assumes "agent_step u s s'" "Stopping False \<in> set (rpcs s')" "Stopping False \<notin> set (rpcs s)"
  shows "admWg (admission s') = 0"
  using assms by (induction rule: agent_step.induct) (auto dest!: in_moved split: if_splits)

lemma agent_step_drained:
  assumes step: "agent_step u s s'" and ok: "rpcs_drained s"
  shows "rpcs_drained s'"
proof -
  note closed = admission_gate.closed_step [OF agent_step_gate [OF step]]
  show ?thesis unfolding rpcs_drained_def
  proof (intro conjI impI)
    assume "\<exists>c\<in>set (rpcs s'). c \<noteq> InFlight \<and> c \<noteq> Finished"
    then show "restrict (admission s')"
      using agent_step_restricts [OF step] closed ok by (auto simp: rpcs_drained_def)
  next
    assume R: "Stopping False \<in> set (rpcs s')"
    show "admWg (admission s') = 0"
    proof (cases "Stopping False \<in> set (rpcs s)")
      case True
      then have "\<exists>d\<in>set (rpcs s). d \<noteq> InFlight \<and> d \<noteq> Finished" by force
      then show ?thesis using closed ok True by (auto simp: rpcs_drained_def)
    next
      case False
      then show ?thesis using agent_step_stopping [OF step R] by simp
    qed
  qed
qed

lemma agent_step_manager:
  assumes "agent_step u s s'" "manager_stopped s" "forced_ok (procs s)"
  shows "manager_stopped s'"
  using assms
proof (induction rule: agent_step.induct)
  case (calls t force ks p i)
  then show ?case
    using stays_returned stays_forced by (fastforce simp: manager_stopped_def dest!: in_moved)
next
  case (process ev p)
  then show ?case using stays_returned stays_forced by (auto simp: manager_stopped_def)
next
  case (returns t force i st)
  then have "pcState (manager (procs s)) = stateForced \<or> Returned stateGraceful \<in> set (pcs (procs s))"
    unfolding forced_ok_def by metis
  then show ?case by (simp add: manager_stopped_def)
next
  case (drains t)
  then have "Draining \<in> set (rpcs s)" by (metis nth_mem)
  then show ?case using drains by (simp add: manager_stopped_def)
qed (auto simp: manager_stopped_def dest!: in_moved)

lemma agent_reached_ok: "agent_reached u s \<Longrightarrow> rpcs_counted s \<and> rpcs_drained s \<and> manager_stopped s"
proof (induction rule: agent_reached.induct)
  case start
  show ?case
    by (simp add: rpcs_counted_def rpcs_drained_def manager_stopped_def agent_start_def NewAdmissionInterceptor_def)
next
  case (step s ev s')
  then show ?case
    using agent_exec_step [OF step(2)] agent_step_counted agent_step_drained agent_step_manager
      reached_forced [OF agent_procs [OF step(1)]] by blast
qed

text \<open>C6. When a graceful \<open>Shutdown\<close> of the agent gets to stopping the server, the agent is quiet and stays
  quiet: no RPC but \<open>Shutdown\<close> is in flight or will be admitted, and unless a forced shutdown came in
  between, no process that the agent started is alive or will be started.\<close>

theorem agent_shutdown_quiet:
  assumes "agent_reached u s" "Stopping False \<in> set (rpcs s)"
  shows "InFlight \<notin> set (rpcs s) \<and> admit (admission s) = None \<and>
    (pcState (manager (procs s)) \<noteq> stateForced \<longrightarrow>
       alive (procs s) = [] \<and> incrementWaitGroup (manager (procs s)) = None)"
proof -
  have ok: "rpcs_counted s" "rpcs_drained s" "manager_stopped s" using agent_reached_ok [OF assms(1)] by auto
  have "\<exists>c\<in>set (rpcs s). c \<noteq> InFlight \<and> c \<noteq> Finished" using assms(2) by force
  then have closed: "restrict (admission s)" and idle: "admWg (admission s) = 0"
    using ok(2) assms(2) by (auto simp: rpcs_drained_def)
  have "InFlight \<notin> set (rpcs s)" using ok(1) idle by (auto simp: rpcs_counted_def filter_empty_conv)
  moreover have "alive (procs s) = [] \<and> incrementWaitGroup (manager (procs s)) = None"
    if "pcState (manager (procs s)) \<noteq> stateForced"
  proof -
    have R: "Returned stateGraceful \<in> set (pcs (procs s))"
      using ok(3) that assms(2) by (auto simp: manager_stopped_def)
    note procs = agent_procs [OF assms(1)]
    show ?thesis
      using returned_means_idle [OF procs R] idle_means_dead [OF procs] process_gate.refused by simp
  qed
  ultimately show ?thesis using admission_gate.refused closed by simp
qed

fun agent_run :: "bool \<Rightarrow> agent_event list \<Rightarrow> agent \<Rightarrow> agent option" where
  "agent_run u [] s = Some s"
| "agent_run u (ev # evs) s = (case agent_exec u ev s of None \<Rightarrow> None | Some s' \<Rightarrow> agent_run u evs s')"

lemma agent_run_reached: "agent_run u evs s = Some s' \<Longrightarrow> agent_reached u s \<Longrightarrow> agent_reached u s'"
  by (induction evs arbitrary: s) (auto split: option.splits intro: agent_reached.step)

definition quiet_agent :: agent where
  "quiet_agent = \<lparr>admission = \<lparr>admWg = 0, restrict = True\<rparr>,
     procs = proc_start\<lparr>manager := newProcessCommon\<lparr>pcState := stateGraceful\<rparr>, pcs := [Returned stateGraceful]\<rparr>,
     rpcs = [Finished, Stopping False], stopClosed = False, panicked = False\<rparr>"

lemma quiet_agent_reached: "agent_reached u quiet_agent"
proof -
  have "agent_run u [Arrives ''/TargetAgent/Rm'', ShutdownArrives False, Calls 1 [], Proc (RangeEnds 0), Completes 0,
      Proc (WaitReturns 0), ManagerReturns 1, Drains 1] agent_start = Some quiet_agent"
    by (simp add: ExemptOnlyShutdown_def HasSuffix_def HasPrefix_def agent_start_def NewAdmissionInterceptor_def admit_def
      admission_done_def Restrict_def rpc_goto_def quiet_agent_def operations proc_exec.simps Let_def)
  then show ?thesis using agent_run_reached agent_reached.start by blast
qed

theorem agent_shutdown_quiet_witness:
  "agent_reached False quiet_agent \<and> Stopping False \<in> set (rpcs quiet_agent) \<and> alive (procs quiet_agent) = [] \<and>
   admit (admission quiet_agent) = None"
  using agent_shutdown_quiet [OF quiet_agent_reached] quiet_agent_reached [of False]
  by (simp add: quiet_agent_def newProcessCommon_def)

text \<open>
  A forced shutdown that overtakes a graceful one, which is how a caller is expected to end a
  graceful shutdown that takes too long, closes \<open>stopCh\<close> twice: the agent panics.
\<close>

lemma overtaken_shutdown_panics: "\<exists>s. agent_reached u s \<and> panicked s"
proof -
  have "\<exists>s. agent_run u [ShutdownArrives False, Calls 0 [], ShutdownArrives True, Calls 1 [], Proc (RangeEnds 1),
      ManagerReturns 1, Callback 1, Proc (RangeEnds 0), Proc (WaitReturns 0), ManagerReturns 0, Drains 0, Callback 0]
      agent_start = Some s \<and> panicked s"
    by (simp add: agent_start_def NewAdmissionInterceptor_def Restrict_def rpc_goto_def Server_Close_def operations
      proc_exec.simps Let_def)
  then show ?thesis using agent_run_reached agent_reached.start by blast
qed

section \<open>Tether\<close>

text \<open>
  The loop of \<open>Hold\<close>: what comes next on the stream and after which time. A timer that is due when
  something arrives is taken to be seen first.
\<close>

datatype tether_event = Pulse | StreamEnd | StreamError string

datatype tether_end = MissedHeartbeats | ClosedByController | ReceiveError string | StillHeld

definition defaultTetherDeadline :: int where "defaultTetherDeadline = 180 * second"

definition tether_deadline :: "int \<Rightarrow> int" where
  "tether_deadline d = (if d \<le> 0 then defaultTetherDeadline else d)"

fun hold_loop :: "int \<Rightarrow> (int \<times> tether_event) list \<Rightarrow> tether_end" where
  "hold_loop deadline [] = StillHeld"
| "hold_loop deadline ((gap, ev) # evs) =
     (if gap \<ge> deadline then MissedHeartbeats
      else case ev of
             Pulse \<Rightarrow> hold_loop deadline evs
           | StreamEnd \<Rightarrow> ClosedByController
           | StreamError m \<Rightarrow> ReceiveError m)"

text \<open>A server is tethered once: the second \<open>Hold\<close> is refused, and every end of a hold expires the server.\<close>

definition Hold :: "bool \<Rightarrow> int \<Rightarrow> (int \<times> tether_event) list \<Rightarrow> tether_end option \<times> bool" where
  "Hold tethered d evs = (if tethered then (None, True) else (Some (hold_loop (tether_deadline d) evs), True))"

lemma held_by_pulses: "list_all (\<lambda>(gap, ev). gap < deadline \<and> ev = Pulse) evs \<Longrightarrow> hold_loop deadline evs = StillHeld"
  by (induction evs) (auto split: prod.splits)

lemma missed_heartbeat_iff:
  "hold_loop deadline evs = MissedHeartbeats \<longleftrightarrow>
     (\<exists>us gap ev vs. evs = us @ (gap, ev) # vs \<and> list_all (\<lambda>(g, e). g < deadline \<and> e = Pulse) us \<and> gap \<ge> deadline)"
proof (induction evs)
  case (Cons e evs)
  obtain gap ev where e: "e = (gap, ev)" by fastforce
  show ?case
  proof (cases "gap \<ge> deadline")
    case True
    then show ?thesis using e by (auto intro!: exI [of _ "[]"])
  next
    case late: False
    have "(\<exists>us g x vs. e # evs = us @ (g, x) # vs \<and> list_all (\<lambda>(g, e). g < deadline \<and> e = Pulse) us \<and> g \<ge> deadline) \<longleftrightarrow>
        ev = Pulse \<and> (\<exists>us g x vs. evs = us @ (g, x) # vs \<and> list_all (\<lambda>(g, e). g < deadline \<and> e = Pulse) us \<and> g \<ge> deadline)"
      (is "?l \<longleftrightarrow> _ \<and> ?r")
    proof
      assume ?l
      then obtain us g x vs where u: "e # evs = us @ (g, x) # vs" "list_all (\<lambda>(g, e). g < deadline \<and> e = Pulse) us" "g \<ge> deadline"
        by blast
      then show "ev = Pulse \<and> ?r" using e late by (cases us) auto
    next
      assume r: "ev = Pulse \<and> ?r"
      then obtain us g x vs where "evs = us @ (g, x) # vs" "list_all (\<lambda>(g, e). g < deadline \<and> e = Pulse) us" "g \<ge> deadline"
        by blast
      then show ?l using e late r by (intro exI [of _ "e # us"]) auto
    qed
    then show ?thesis using e late Cons by (cases ev) auto
  qed
qed simp

section \<open>Log buffer\<close>

text \<open>\<open>Fire\<close> on a buffered channel of the given size, without concurrent readers.\<close>

fun Fire :: "nat \<Rightarrow> 'e \<Rightarrow> 'e list \<Rightarrow> 'e list" where
  "Fire cap e [] = (if 0 < cap then [e] else [])"
| "Fire cap e (b # bs) = (if length (b # bs) < cap then (b # bs) @ [e] else Fire cap e bs)"

lemma Fire_keeps_latest: "0 < cap \<Longrightarrow> Fire cap e buf = drop (length buf + 1 - cap) (buf @ [e])"
  by (induction cap e buf rule: Fire.induct) (auto simp: Suc_diff_le)

lemma log_keeps_latest:
  assumes "0 < cap"
  shows "foldl (\<lambda>b e. Fire cap e b) [] es = drop (length es - cap) es"
proof (induction es rule: rev_induct)
  case (snoc e es)
  then show ?case using assms by (cases "length es < cap") (auto simp: Fire_keeps_latest not_less Suc_diff_le)
qed simp

end
