(* ===== verification/AgentFiles.thy ===== *)
theory AgentFiles
  imports GoPath Transition
begin

text \<open>
  File transfers between the engine and the target agent
  (core/atperf-agent/filetransfer/file_transfer_manager.go) and the lock that agents of a target
  hold against each other (core/atperf-agent/filelock/cross_process_lock.go). The file system of the
  target is a map from cleaned paths to contents; which operations on it fail is in an \<open>io_env\<close>.
\<close>

section \<open>Transfers\<close>

record io_env =
  open_fails :: "string \<Rightarrow> bool"
  write_fails :: "string \<Rightarrow> bool"
  close_fails :: bool

datatype store_item = OpenItem string bool | ContentItem string | EmptyItem

text \<open>What \<open>Recv\<close> yields: a message, the end of the stream or an error.\<close>

datatype received = Message store_item | RecvEOF | RecvError

datatype file_error =
    OpenNotReceived
  | FirstMessageNotOpen
  | OpenFailed string
  | WriteFailed
  | UnexpectedItem
  | ReceiveFailed
  | ContextCancelled
  | ChunkNotSent
  | ReadFailed
  | ResponseNotSent
  | StreamPending

type_synonym target_fs = "string \<rightharpoonup> string"

definition write_at :: "string \<Rightarrow> string \<Rightarrow> target_fs \<Rightarrow> target_fs" where
  "write_at path data f = f(path \<mapsto> (case f path of None \<Rightarrow> data | Some c \<Rightarrow> c @ data))"

fun store_loop :: "io_env \<Rightarrow> string \<Rightarrow> received list \<Rightarrow> target_fs \<Rightarrow> file_error option \<times> target_fs" where
  "store_loop E path [] f = (Some StreamPending, f)"
| "store_loop E path (RecvEOF # rs) f = (if close_fails E then Some ResponseNotSent else None, f)"
| "store_loop E path (RecvError # rs) f = (Some ReceiveFailed, f)"
| "store_loop E path (Message (ContentItem data) # rs) f =
     (if write_fails E data then (Some WriteFailed, f) else store_loop E path rs (write_at path data f))"
| "store_loop E path (Message _ # rs) f = (Some UnexpectedItem, f)"

text \<open>Opening for writing creates the file, or truncates it unless it is opened to append.\<close>

definition open_store :: "string \<Rightarrow> bool \<Rightarrow> target_fs \<Rightarrow> target_fs" where
  "open_store path app f =
     f(path \<mapsto> (case f path of None \<Rightarrow> [] | Some c \<Rightarrow> if app then c else []))"

fun StoreFile :: "io_env \<Rightarrow> received list \<Rightarrow> target_fs \<Rightarrow> file_error option \<times> target_fs" where
  "StoreFile E (Message (OpenItem path app) # rs) f =
     (let p = Clean path in
      if open_fails E p then (Some (OpenFailed p), f) else store_loop E p rs (open_store p app f))"
| "StoreFile E (Message _ # rs) f = (Some FirstMessageNotOpen, f)"
| "StoreFile E (RecvEOF # rs) f = (Some OpenNotReceived, f)"
| "StoreFile E (RecvError # rs) f = (Some OpenNotReceived, f)"
| "StoreFile E [] f = (Some StreamPending, f)"

definition chunkSize :: nat where "chunkSize = 64 * 1024"

text \<open>
  The loop of \<open>RetrieveFile\<close> over the rest of the file: \<open>cancelled\<close>, \<open>read_fails\<close> and \<open>send_fails\<close>
  tell by the number of chunks sent before whether the client cancels and whether reading and
  sending fail. Reading fills the buffer as far as the file goes and reports the end of the file with
  the next, empty read.
\<close>

function retrieve_loop :: "(nat \<Rightarrow> bool) \<Rightarrow> (nat \<Rightarrow> bool) \<Rightarrow> (nat \<Rightarrow> bool) \<Rightarrow> string \<Rightarrow> string list \<Rightarrow> file_error option \<times> string list" where
  "retrieve_loop cancelled read_fails send_fails rest sent =
     (if cancelled (length sent) then (Some ContextCancelled, sent)
      else if read_fails (length sent) then (Some ReadFailed, sent)
      else if rest = [] then (None, sent)
      else if send_fails (length sent) then (Some ChunkNotSent, sent)
      else retrieve_loop cancelled read_fails send_fails (drop chunkSize rest) (sent @ [take chunkSize rest]))"
  by pat_completeness auto
termination
  by (relation "measure (\<lambda>(c, r, s, rest, sent). length rest)") (auto simp: chunkSize_def)

declare retrieve_loop.simps [simp del]

definition RetrieveFile ::
  "io_env \<Rightarrow> (nat \<Rightarrow> bool) \<Rightarrow> (nat \<Rightarrow> bool) \<Rightarrow> (nat \<Rightarrow> bool) \<Rightarrow> string \<Rightarrow> target_fs \<Rightarrow> file_error option \<times> string list" where
  "RetrieveFile E cancelled read_fails send_fails path f =
     (let p = Clean path in
      case f p of
        None \<Rightarrow> (Some (OpenFailed p), [])
      | Some c \<Rightarrow> if open_fails E p then (Some (OpenFailed p), []) else retrieve_loop cancelled read_fails send_fails c [])"

lemma store_loop_content:
  assumes "\<And>d. \<not> write_fails E d" "f path = Some c" "\<not> close_fails E"
  shows "store_loop E path (map (Message \<circ> ContentItem) ds @ [RecvEOF]) f = (None, f(path \<mapsto> c @ concat ds))"
  using assms(2) by (induction ds arbitrary: f c) (auto simp: assms(1,3) write_at_def)

lemma retrieve_loop_content:
  assumes "\<And>n. \<not> cancelled n" "\<And>n. \<not> read_fails n" "\<And>n. \<not> send_fails n" "list_all (\<lambda>c. c \<noteq> [] \<and> length c \<le> chunkSize) sent"
  shows "\<exists>cs. retrieve_loop cancelled read_fails send_fails rest sent = (None, cs) \<and> concat cs = concat sent @ rest \<and>
    list_all (\<lambda>c. c \<noteq> [] \<and> length c \<le> chunkSize) cs"
  using assms
proof (induction cancelled read_fails send_fails rest sent rule: retrieve_loop.induct)
  case (1 cancelled read_fails send_fails rest sent)
  show ?case
  proof (cases "rest = []")
    case False
    have "0 < chunkSize" by (simp add: chunkSize_def)
    then have "\<exists>cs. retrieve_loop cancelled read_fails send_fails (drop chunkSize rest) (sent @ [take chunkSize rest]) = (None, cs) \<and>
        concat cs = concat (sent @ [take chunkSize rest]) @ drop chunkSize rest \<and>
        list_all (\<lambda>c. c \<noteq> [] \<and> length c \<le> chunkSize) cs"
      using False 1 by (intro 1(1)) auto
    then show ?thesis using False 1(2-4) by (subst retrieve_loop.simps) auto
  qed (use 1 in \<open>subst retrieve_loop.simps; simp\<close>)
qed

text \<open>C36. What is stored on the target is what is retrieved: whatever chunks the content was sent in, the
  chunks of the retrieval make up the same content, after what was there before if the file was
  opened to append, none of them is empty or larger than the buffer, and no other file changes.\<close>

theorem store_retrieve_roundtrip:
  assumes "\<And>d. \<not> write_fails E d" "\<not> open_fails E (Clean path)" "\<not> close_fails E"
    "\<And>n. \<not> cancelled n" "\<And>n. \<not> read_fails n" "\<And>n. \<not> send_fails n"
  shows "\<exists>f1 cs. StoreFile E (Message (OpenItem path app) # map (Message \<circ> ContentItem) ds @ [RecvEOF]) f = (None, f1) \<and>
    (\<forall>q. q \<noteq> Clean path \<longrightarrow> f1 q = f q) \<and>
    RetrieveFile E cancelled read_fails send_fails path f1 = (None, cs) \<and>
    concat cs = (if app then case f (Clean path) of None \<Rightarrow> [] | Some c \<Rightarrow> c else []) @ concat ds \<and>
    list_all (\<lambda>c. c \<noteq> [] \<and> length c \<le> chunkSize) cs"
proof -
  let ?p = "Clean path"
  let ?c = "if app then case f ?p of None \<Rightarrow> [] | Some c \<Rightarrow> c else []"
  have o: "open_store ?p app f ?p = Some ?c" by (simp add: open_store_def split: option.split)
  let ?f1 = "(open_store ?p app f)(?p \<mapsto> ?c @ concat ds)"
  have "StoreFile E (Message (OpenItem path app) # map (Message \<circ> ContentItem) ds @ [RecvEOF]) f = (None, ?f1)"
    using assms(2) store_loop_content [where f = "open_store ?p app f" and path = ?p, OF assms(1) o assms(3)] by (simp add: Let_def)
  moreover have "\<forall>q. q \<noteq> ?p \<longrightarrow> ?f1 q = f q" by (simp add: open_store_def)
  moreover obtain cs where "retrieve_loop cancelled read_fails send_fails (?c @ concat ds) [] = (None, cs)"
    "concat cs = ?c @ concat ds" "list_all (\<lambda>c. c \<noteq> [] \<and> length c \<le> chunkSize) cs"
    using retrieve_loop_content [where sent = "[]" and rest = "?c @ concat ds" and cancelled = cancelled and read_fails = read_fails and send_fails = send_fails]
      assms(4-6) by auto
  moreover from this have "RetrieveFile E cancelled read_fails send_fails path ?f1 = (None, cs)"
    using assms(2) by (simp add: RetrieveFile_def Let_def)
  ultimately show ?thesis by blast
qed

theorem store_retrieve_roundtrip_witness:
  "\<exists>f1 cs. StoreFile \<lparr>open_fails = \<lambda>_. False, write_fails = \<lambda>_. False, close_fails = False\<rparr>
      [Message (OpenItem ''a'' True), Message (ContentItem ''cd''), Message (ContentItem ''e''), RecvEOF] [Clean ''a'' \<mapsto> ''ab''] = (None, f1) \<and>
    RetrieveFile \<lparr>open_fails = \<lambda>_. False, write_fails = \<lambda>_. False, close_fails = False\<rparr> (\<lambda>_. False) (\<lambda>_. False) (\<lambda>_. False) ''a'' f1 = (None, cs) \<and>
    concat cs = ''abcde''"
  using store_retrieve_roundtrip [of "\<lparr>open_fails = \<lambda>_. False, write_fails = \<lambda>_. False, close_fails = False\<rparr>" "''a''" "\<lambda>_. False" "\<lambda>_. False"
    "\<lambda>_. False" True "[''cd'', ''e'']" "[Clean ''a'' \<mapsto> ''ab'']"]
  by (auto simp del: StoreFile.simps)

section \<open>The lock between agents\<close>

text \<open>
  A call of \<open>HoldLock\<close> in an agent process: it acquires the mutex of the process, then the file lock,
  which it holds until its context is done. The file lock (\<open>gofrs/flock\<close>) belongs to the process: it
  can be acquired if no other process holds it, and acquiring it again in the same process succeeds
  at once.
\<close>

datatype lock_pc = TryMutex | HasMutex | Granted | Released

record lock_system =
  fileOwner :: "nat option"
  holders :: "(nat \<times> lock_pc) list"

datatype lock_event =
    CallHold nat
  | TakeMutex nat
  | PathFails nat
  | TakeFile nat
  | GiveUp nat
  | Cancel nat

definition in_mutex :: "nat \<Rightarrow> lock_system \<Rightarrow> bool" where
  "in_mutex p s \<longleftrightarrow> list_ex (\<lambda>(q, c). q = p \<and> (c = HasMutex \<or> c = Granted)) (holders s)"

definition lock_goto :: "nat \<Rightarrow> nat \<Rightarrow> lock_pc \<Rightarrow> lock_system \<Rightarrow> lock_system" where
  "lock_goto t p c s = s\<lparr>holders := (holders s)[t := (p, c)]\<rparr>"

abbreviation holder :: "lock_system \<Rightarrow> nat \<Rightarrow> nat \<times> lock_pc" where
  "holder s t \<equiv> (if t < length (holders s) then holders s ! t else (0, Released))"

fun lock_exec :: "lock_event \<Rightarrow> lock_system \<Rightarrow> lock_system option" where
  "lock_exec (CallHold p) s = Some (s\<lparr>holders := holders s @ [(p, TryMutex)]\<rparr>)"
| "lock_exec (TakeMutex t) s =
     (case holder s t of
        (p, TryMutex) \<Rightarrow> if in_mutex p s then None else Some (lock_goto t p HasMutex s)
      | _ \<Rightarrow> None)"
| "lock_exec (PathFails t) s =
     (case holder s t of (p, HasMutex) \<Rightarrow> Some (lock_goto t p Released s) | _ \<Rightarrow> None)"
| "lock_exec (TakeFile t) s =
     (case holder s t of
        (p, HasMutex) \<Rightarrow>
          if fileOwner s = None \<or> fileOwner s = Some p
          then Some (lock_goto t p Granted (s\<lparr>fileOwner := Some p\<rparr>)) else None
      | _ \<Rightarrow> None)"
| "lock_exec (GiveUp t) s =
     (case holder s t of
        (p, TryMutex) \<Rightarrow> Some (lock_goto t p Released s)
      | (p, HasMutex) \<Rightarrow> Some (lock_goto t p Released s)
      | _ \<Rightarrow> None)"
| "lock_exec (Cancel t) s =
     (case holder s t of
        (p, Granted) \<Rightarrow> Some (lock_goto t p Released (s\<lparr>fileOwner := None\<rparr>))
      | _ \<Rightarrow> None)"

inductive lock_reached :: "lock_system \<Rightarrow> bool" where
  start: "lock_reached \<lparr>fileOwner = None, holders = []\<rparr>"
| step: "lock_reached s \<Longrightarrow> lock_exec ev s = Some s' \<Longrightarrow> lock_reached s'"

abbreviation locked :: "lock_pc \<Rightarrow> bool" where
  "locked c \<equiv> c = HasMutex \<or> c = Granted"

definition one_per_process :: "(nat \<times> lock_pc) list \<Rightarrow> bool" where
  "one_per_process hs \<longleftrightarrow> (\<forall>i<length hs. \<forall>j<length hs.
     fst (hs ! i) = fst (hs ! j) \<and> locked (snd (hs ! i)) \<and> locked (snd (hs ! j)) \<longrightarrow> i = j)"

definition holders_ok :: "lock_system \<Rightarrow> bool" where
  "holders_ok s \<longleftrightarrow> one_per_process (holders s) \<and> (\<forall>p. (p, Granted) \<in> set (holders s) \<longrightarrow> fileOwner s = Some p)"

lemma one_goto:
  assumes "one_per_process hs" "t < length hs" "fst (hs ! t) = p"
    "locked c \<Longrightarrow> locked (snd (hs ! t)) \<or> (\<forall>x\<in>set hs. fst x = p \<longrightarrow> \<not> locked (snd x))"
  shows "one_per_process (hs[t := (p, c)])"
proof -
  have other: "i = t" if "i < length hs" "fst (hs ! i) = p" "locked (snd (hs ! i))" "locked c" for i
    using assms that nth_mem [OF that(1)] unfolding one_per_process_def by blast
  show ?thesis
    unfolding one_per_process_def
  proof (intro allI impI)
    fix i j
    assume ij: "i < length (hs[t := (p, c)])" "j < length (hs[t := (p, c)])"
      and e: "fst (hs[t := (p, c)] ! i) = fst (hs[t := (p, c)] ! j) \<and> locked (snd (hs[t := (p, c)] ! i)) \<and>
        locked (snd (hs[t := (p, c)] ! j))"
    show "i = j"
    proof (cases "i = t \<or> j = t")
      case True
      then show ?thesis using e ij other [of i] other [of j] by (auto simp: nth_list_update split: if_splits)
    next
      case False
      then show ?thesis using e ij assms(1) unfolding one_per_process_def by simp
    qed
  qed
qed

lemma granted_moved:
  assumes "(q, Granted) \<in> set (hs[t := (p, c)])" "c \<noteq> Granted"
  shows "(q, Granted) \<in> set hs"
  using assms set_update_subset_insert [of hs t "(p, c)"] by auto

lemma granted_index:
  assumes "(q, Granted) \<in> set (hs[t := (p, Released)])"
  obtains i where "i < length hs" "i \<noteq> t" "hs ! i = (q, Granted)"
proof -
  obtain i where i: "i < length hs" "hs[t := (p, Released)] ! i = (q, Granted)" using assms by (auto simp: in_set_conv_nth)
  then have "i \<noteq> t" by auto
  then show ?thesis using i that by auto
qed

inductive lock_step :: "lock_system \<Rightarrow> lock_system \<Rightarrow> bool" for s where
  calls: "lock_step s (s\<lparr>holders := holders s @ [(p, TryMutex)]\<rparr>)"
| mutex: "t < length (holders s) \<Longrightarrow> holders s ! t = (p, TryMutex) \<Longrightarrow> \<not> in_mutex p s \<Longrightarrow> lock_step s (lock_goto t p HasMutex s)"
| ends: "t < length (holders s) \<Longrightarrow> holders s ! t = (p, c) \<Longrightarrow> c \<noteq> Granted \<Longrightarrow> lock_step s (lock_goto t p Released s)"
| take_file: "t < length (holders s) \<Longrightarrow> holders s ! t = (p, HasMutex) \<Longrightarrow> fileOwner s = None \<or> fileOwner s = Some p \<Longrightarrow>
    lock_step s (lock_goto t p Granted (s\<lparr>fileOwner := Some p\<rparr>))"
| cancel: "t < length (holders s) \<Longrightarrow> holders s ! t = (p, Granted) \<Longrightarrow>
    lock_step s (lock_goto t p Released (s\<lparr>fileOwner := None\<rparr>))"

lemma lock_exec_step: "lock_exec ev s = Some s' \<Longrightarrow> lock_step s s'"
  by (cases ev) (auto split: if_splits prod.splits lock_pc.splits intro: lock_step.intros)

lemma lock_step_ok:
  assumes "lock_step s s'" "holders_ok s"
  shows "holders_ok s'"
  using assms
proof (induction rule: lock_step.induct)
  case (calls p)
  have "one_per_process (holders s @ [(p, TryMutex)])"
    using calls unfolding holders_ok_def one_per_process_def by (auto simp: nth_append less_Suc_eq)
  then show ?case using calls by (simp add: holders_ok_def)
next
  case (mutex t p)
  have "one_per_process ((holders s)[t := (p, HasMutex)])"
    by (rule one_goto) (use mutex in \<open>auto simp: holders_ok_def in_mutex_def list_ex_iff\<close>)
  then show ?case using mutex by (auto simp: holders_ok_def lock_goto_def dest: granted_moved)
next
  case (ends t p c)
  have "one_per_process ((holders s)[t := (p, Released)])"
    by (rule one_goto) (use ends in \<open>auto simp: holders_ok_def\<close>)
  then show ?case using ends by (auto simp: holders_ok_def lock_goto_def dest: granted_moved)
next
  case (take_file t p)
  have "one_per_process ((holders s)[t := (p, Granted)])"
    by (rule one_goto) (use take_file in \<open>auto simp: holders_ok_def\<close>)
  then show ?case
    using take_file set_update_subset_insert [of "holders s" t "(p, Granted)"] by (auto simp: holders_ok_def lock_goto_def)
next
  case (cancel t p)
  have "one_per_process ((holders s)[t := (p, Released)])"
    by (rule one_goto) (use cancel in \<open>auto simp: holders_ok_def\<close>)
  moreover have "(q, Granted) \<notin> set ((holders s)[t := (p, Released)])" for q
  proof
    assume "(q, Granted) \<in> set ((holders s)[t := (p, Released)])"
    then obtain i where i: "i < length (holders s)" "i \<noteq> t" "holders s ! i = (q, Granted)" by (rule granted_index)
    then have "fileOwner s = Some q" "fileOwner s = Some p"
      using cancel nth_mem unfolding holders_ok_def by metis+
    then show False using i cancel unfolding holders_ok_def one_per_process_def by fastforce
  qed
  ultimately show ?case by (simp add: holders_ok_def lock_goto_def)
qed

interpretation lock_holders: step_system "\<lambda>s. s = \<lparr>fileOwner = None, holders = []\<rparr>" lock_step holders_ok
  by unfold_locales (simp add: holders_ok_def one_per_process_def, rule lock_step_ok)

lemma lock_reached_ok: "lock_reached s \<Longrightarrow> holders_ok s"
proof -
  have "lock_reached s \<Longrightarrow> lock_step\<^sup>*\<^sup>* \<lparr>fileOwner = None, holders = []\<rparr> s"
    by (induction rule: lock_reached.induct) (auto intro: rtranclp.rtrancl_into_rtrancl lock_exec_step)
  then show "lock_reached s \<Longrightarrow> holders_ok s" using lock_holders.reachable_invar by blast
qed

text \<open>C37. The target is locked by one caller: of all calls of \<open>HoldLock\<close>, in the same agent or in different
  agents of a target, at most one has been granted the lock and not given it back. Within an agent
  this rests on the mutex alone, as the file lock would be granted again.\<close>

theorem target_lock_exclusive:
  assumes "lock_reached s" "i < length (holders s)" "j < length (holders s)"
    "snd (holders s ! i) = Granted" "snd (holders s ! j) = Granted"
  shows "i = j"
proof -
  have ok: "holders_ok s" using lock_reached_ok assms(1) .
  have "(fst (holders s ! i), Granted) \<in> set (holders s)" "(fst (holders s ! j), Granted) \<in> set (holders s)"
    using assms(2-5) by (metis nth_mem prod.collapse)+
  then have "fileOwner s = Some (fst (holders s ! i))" "fileOwner s = Some (fst (holders s ! j))"
    using ok unfolding holders_ok_def by blast+
  then have "fst (holders s ! i) = fst (holders s ! j)" by simp
  then show ?thesis using ok assms unfolding holders_ok_def one_per_process_def by blast
qed

fun lock_run :: "lock_event list \<Rightarrow> lock_system \<Rightarrow> lock_system option" where
  "lock_run [] s = Some s"
| "lock_run (ev # evs) s = (case lock_exec ev s of None \<Rightarrow> None | Some s' \<Rightarrow> lock_run evs s')"

lemma lock_run_reached: "lock_run evs s = Some s' \<Longrightarrow> lock_reached s \<Longrightarrow> lock_reached s'"
  by (induction evs arbitrary: s) (auto split: option.splits intro: lock_reached.step)

definition contended :: lock_system where
  "contended = \<lparr>fileOwner = Some 1, holders = [(1, Granted), (1, TryMutex), (2, HasMutex)]\<rparr>"

theorem target_lock_exclusive_witness:
  "lock_reached contended \<and> snd (holders contended ! 0) = Granted \<and> snd (holders contended ! 2) \<noteq> Granted"
proof -
  have "lock_run [CallHold 1, CallHold 1, CallHold 2, TakeMutex 0, TakeMutex 2, TakeFile 0]
      \<lparr>fileOwner = None, holders = []\<rparr> = Some contended"
    by (simp add: in_mutex_def lock_goto_def contended_def)
  then have "lock_reached contended" using lock_run_reached lock_reached.start by blast
  then show ?thesis
    using target_lock_exclusive [of contended 0 2] by (auto simp: contended_def)
qed

end
