(* ===== verification/Float64.thy ===== *)
theory Float64
  imports Complex_Main
begin

text \<open>
  The binary64 arithmetic the summaries of a run use: shares of a sample count are computed as
  \<open>float64(total) * percent / 100.0\<close> and compared with \<open>float64(samples)\<close>. Non-negative floats are
  the rational numbers they stand for; every operation rounds its exact result to the nearest
  float, ties to even. The arguments stay far below the largest float, so that infinities do not
  occur. The lemmas \<open>percent_of_le\<close> and \<open>percent_of_less\<close> show that below \<open>2^46\<close> samples the comparisons are exact.
\<close>

section \<open>Rounding\<close>

definition round_even :: "rat \<Rightarrow> int" where
  "round_even q =
     (let f = \<lfloor>q\<rfloor>; r = q - of_int f
      in if r < 1 / 2 then f else if 1 / 2 < r then f + 1 else if even f then f else f + 1)"

text \<open>A finite float is \<open>m * 2^e\<close> with \<open>m < 2^53\<close>; the exponent is the least that fits.\<close>

definition exponents :: "int list" where
  "exponents = [-1074..971]"

definition fl :: "rat \<Rightarrow> rat" where
  "fl q =
     (case find (\<lambda>e. q < 2 powi (53 + e)) exponents of
        Some e \<Rightarrow> of_int (round_even (q / 2 powi e)) * 2 powi e
      | None \<Rightarrow> q)"

definition float64 :: "nat \<Rightarrow> rat" where
  "float64 n = fl (of_nat n)"

text \<open>\<open>float64(total) * percent / 100.0\<close>\<close>

definition percent_of :: "nat \<Rightarrow> nat \<Rightarrow> rat" where
  "percent_of p n = fl (fl (float64 n * of_nat p) / 100)"

section \<open>Exactness\<close>

lemma round_even_int [simp]: "round_even (of_int i) = i"
  by (simp add: round_even_def)

lemma round_even_error: "\<bar>of_int (round_even q) - q\<bar> \<le> 1 / 2"
proof -
  have "of_int \<lfloor>q\<rfloor> \<le> q" "q < of_int \<lfloor>q\<rfloor> + 1" by linarith+
  then show ?thesis by (simp add: round_even_def Let_def abs_if; linarith)
qed

lemma find_upto_le:
  assumes "P k" "i \<le> k" "k \<le> j"
  shows "\<exists>e. find P [i..j] = Some e \<and> i \<le> e \<and> e \<le> k \<and> P e"
  using assms
proof (induction i j rule: upto.induct)
  case (1 i j)
  show ?case
  proof (cases "P i")
    case True then show ?thesis using 1 by (simp add: upto_rec1)
  next
    case False
    then have "i \<noteq> k" using 1 by auto
    then show ?thesis using 1 False by (force simp: upto_rec1)
  qed
qed

lemma fl_exponent:
  assumes "q < 2 powi (53 + k)" "-1074 \<le> k" "k \<le> 971"
  obtains e where "fl q = of_int (round_even (q / 2 powi e)) * 2 powi e" "e \<le> k"
  using find_upto_le [where P = "\<lambda>e. q < 2 powi (53 + e)", OF assms] that
  unfolding fl_def exponents_def [symmetric] by force

lemma fl_of_nat:
  assumes "n < 2 ^ 53"
  shows "fl (of_nat n) = of_nat n"
proof -
  have "(of_nat n :: rat) < 2 ^ 53" using assms by (metis of_nat_less_iff of_nat_numeral of_nat_power)
  then have "of_nat n < (2 :: rat) powi (53 + 0)" by (simp add: power_int_def)
  then obtain e where e: "fl (of_nat n) = of_int (round_even (of_nat n / 2 powi e)) * 2 powi e" "e \<le> 0"
    by (rule fl_exponent) auto
  have "of_nat n / (2 :: rat) powi e = of_int (int n * 2 ^ nat (- e))"
    using e(2) by (simp add: power_int_def field_simps)
  then have "fl (of_nat n) = of_nat n / 2 powi e * 2 powi e" by (metis e(1) round_even_int)
  then show ?thesis by simp
qed

lemma fl_error:
  assumes "q < 2 ^ 46"
  shows "\<bar>fl q - q\<bar> \<le> 1 / 256"
proof -
  have "q < (2 :: rat) powi (53 + (- 7))" using assms by (simp add: power_int_def)
  then obtain e where e: "fl q = of_int (round_even (q / 2 powi e)) * 2 powi e" "e \<le> - 7"
    by (rule fl_exponent) auto
  have "fl q - q = (of_int (round_even (q / 2 powi e)) - q / 2 powi e) * 2 powi e"
    by (simp add: e(1) left_diff_distrib)
  then have "\<bar>fl q - q\<bar> = \<bar>of_int (round_even (q / 2 powi e)) - q / 2 powi e\<bar> * 2 powi e"
    by (simp add: abs_mult)
  also have "\<dots> \<le> 1 / 2 * 2 powi e"
    by (intro mult_right_mono round_even_error) simp
  also have "\<dots> \<le> 1 / 2 * 2 powi (- 7)"
    using e(2) by (intro mult_left_mono power_int_increasing) auto
  finally show ?thesis by (simp add: power_int_def power_divide)
qed

text \<open>
  With fewer than \<open>2^46\<close> samples a share of at most 99 percent is a multiple of a hundredth with an
  error below that, so that it compares with a count as the exact share does.
\<close>

lemma percent_of_quotient:
  assumes "n < 2 ^ 46" "p \<le> 99"
  shows "percent_of p n = fl (of_nat (p * n) / 100)"
proof -
  have "p * n \<le> 99 * n" using assms(2) by (rule mult_le_mono1)
  also have "99 * n < 2 ^ 53" using assms(1) by simp
  finally have "p * n < 2 ^ 53" .
  then have "fl (of_nat n * of_nat p) = of_nat (p * n)"
    using fl_of_nat [of "p * n"] by (simp add: mult.commute)
  then show ?thesis using assms(1) by (simp add: percent_of_def float64_def fl_of_nat)
qed

lemma hundredths_apart:
  assumes "k \<noteq> 100 * s"
  shows "1 / 100 \<le> \<bar>(of_nat k / 100 :: rat) - of_nat s\<bar>"
proof -
  have "1 \<le> \<bar>int k - 100 * int s\<bar>" using assms by linarith
  then have "(1 :: rat) \<le> of_int \<bar>int k - 100 * int s\<bar>" by linarith
  then show ?thesis by (simp add: abs_if field_simps split: if_splits)
qed

lemma fl_hundredth:
  assumes "k < 100 * 2 ^ 46" "s < 2 ^ 53"
  shows "fl (of_nat k / 100) \<le> of_nat s \<longleftrightarrow> k \<le> 100 * s"
    "fl (of_nat k / 100) < of_nat s \<longleftrightarrow> k < 100 * s"
proof -
  have "(of_nat k / 100 :: rat) < 2 ^ 46"
  proof -
    have "(of_nat k :: rat) < of_nat (100 * 2 ^ 46)" using assms(1) by (simp only: of_nat_less_iff)
    then show ?thesis by simp
  qed
  from fl_error [OF this] have err: "\<bar>fl (of_nat k / 100) - of_nat k / 100\<bar> \<le> 1 / 256" .
  have cmp: "of_nat k / 100 < (of_nat s :: rat) \<longleftrightarrow> k < 100 * s"
  proof -
    have "of_nat k / 100 < (of_nat s :: rat) \<longleftrightarrow> (of_nat k :: rat) < of_nat (100 * s)"
      by (simp add: mult.commute)
    then show ?thesis by (simp only: of_nat_less_iff)
  qed
  show "fl (of_nat k / 100) \<le> of_nat s \<longleftrightarrow> k \<le> 100 * s" "fl (of_nat k / 100) < of_nat s \<longleftrightarrow> k < 100 * s"
  proof (atomize (full), cases "k = 100 * s")
    case True
    then show "(fl (of_nat k / 100) \<le> of_nat s \<longleftrightarrow> k \<le> 100 * s) \<and> (fl (of_nat k / 100) < of_nat s \<longleftrightarrow> k < 100 * s)"
      using assms(2) by (simp add: fl_of_nat)
  next
    case False
    with hundredths_apart [OF False] err cmp
    show "(fl (of_nat k / 100) \<le> of_nat s \<longleftrightarrow> k \<le> 100 * s) \<and> (fl (of_nat k / 100) < of_nat s \<longleftrightarrow> k < 100 * s)"
      by (auto simp: abs_if split: if_splits)
  qed
qed

lemma percent_of_le:
  assumes "n < 2 ^ 46" "p \<le> 99" "s < 2 ^ 53"
  shows "percent_of p n \<le> float64 s \<longleftrightarrow> p * n \<le> 100 * s"
proof -
  have "p * n \<le> 99 * n" using assms(2) by (rule mult_le_mono1)
  then have "p * n < 100 * 2 ^ 46" using assms(1) by linarith
  from fl_hundredth(1) [OF this assms(3)] show ?thesis
    using assms by (simp add: percent_of_quotient float64_def fl_of_nat)
qed

lemma percent_of_less:
  assumes "n < 2 ^ 46" "p \<le> 99" "s < 2 ^ 53"
  shows "percent_of p n < float64 s \<longleftrightarrow> p * n < 100 * s"
proof -
  have "p * n \<le> 99 * n" using assms(2) by (rule mult_le_mono1)
  then have "p * n < 100 * 2 ^ 46" using assms(1) by linarith
  from fl_hundredth(2) [OF this assms(3)] show ?thesis
    using assms by (simp add: percent_of_quotient float64_def fl_of_nat)
qed

end
