(* ===== verification/Insights.thy ===== *)
theory Insights
  imports RenderManifest DataSource Float64
begin

text \<open>
  Package insights: the summaries of a run that are put into a prompt. This theory holds what the
  summarizers share (insights/summary.go, insights/table\_resolution.go), the JSON text of their
  payloads as \<open>json.Marshal\<close> writes it, the loop that adds windows while the summary fits its byte
  limit, and the bundle of all summaries (grpcserver/api\_apap\_insights.go).

  The locale \<open>byte_budget\<close> is the contract of that loop: a summary does not shrink when a window is
  added, and the loop then keeps the longest prefix that fits. It is interpreted on the source and
  the disassembly windows, in their theories. The locale \<open>bundle\<close> is the contract between the bundle and
  its summarizers: a summary is no larger than the limit handed out.
\<close>

datatype insights_error =
    RunSummaryMarshalFailed
  | InsufficientByteLimit string int
  | RenderTableNotFound string "string list"
  | RenderQueryFailed string
  | RunNotSuccessful string string
  | BundleSizeExceeded int int
  | SummaryNameMissing
  | SummaryNameDuplicated string
  | DivisionByZero
  | IndexOutOfRange
  | RenderFailed string

section \<open>JSON text\<close>

text \<open>
  Strings are escaped as \<open>encoding/json\<close> does: quotes, backslashes and control characters, the
  characters of HTML, the line separators U+2028 and U+2029, and every byte that is no valid UTF-8.
\<close>

definition hex_digit :: "nat \<Rightarrow> char" where
  "hex_digit n = (if n < 10 then char_of (48 + n) else char_of (87 + n))"

definition json_byte :: "char \<Rightarrow> string" where
  "json_byte c =
     (let n = of_char c :: nat in
      if n = 34 \<or> n = 92 then [CHR 0x5C, c]
      else if n = 8 then [CHR 0x5C, CHR ''b'']
      else if n = 12 then [CHR 0x5C, CHR ''f'']
      else if n = 10 then [CHR 0x5C, CHR ''n'']
      else if n = 13 then [CHR 0x5C, CHR ''r'']
      else if n = 9 then [CHR 0x5C, CHR ''t'']
      else if n < 32 \<or> n = 60 \<or> n = 62 \<or> n = 38
      then [CHR 0x5C] @ ''u00'' @ [hex_digit (n div 16), hex_digit (n mod 16)]
      else [c])"

definition json_rune :: "string \<Rightarrow> string" where
  "json_rune r =
     (if length r = 1
      then (if (of_char (hd r) :: nat) < 128 then json_byte (hd r) else [CHR 0x5C] @ ''ufffd'')
      else if r = [CHR 0xE2, CHR 0x80, CHR 0xA8] then [CHR 0x5C] @ ''u2028''
      else if r = [CHR 0xE2, CHR 0x80, CHR 0xA9] then [CHR 0x5C] @ ''u2029''
      else r)"

lemma rune_width_pos: "0 < rune_width s"
  by (auto simp: rune_width_def encoding_length_def Let_def split: list.splits)

function json_chars :: "string \<Rightarrow> string" where
  "json_chars s =
     (if s = [] then [] else json_rune (take (rune_width s) s) @ json_chars (drop (rune_width s) s))"
  by auto
termination
  by (relation "measure length") (auto simp: rune_width_pos)

declare json_chars.simps [simp del]

definition json_string :: "string \<Rightarrow> string" where
  "json_string s = [CHR 0x22] @ json_chars s @ [CHR 0x22]"

definition json_array :: "string list \<Rightarrow> string" where
  "json_array items = ''['' @ Join items '','' @ '']''"

definition json_object :: "(string \<times> string) list \<Rightarrow> string" where
  "json_object fs = ''{'' @ Join (map (\<lambda>(k, v). json_string k @ '':'' @ v) fs) '','' @ ''}''"

section \<open>Summaries\<close>

record RunSummary =
  rsName :: string
  PromptFragment :: string
  Payload :: string

text \<open>\<open>None\<close> stands for a payload that cannot be marshalled.\<close>

definition NewRunSummary :: "string \<Rightarrow> string \<Rightarrow> string option \<Rightarrow> insights_error + RunSummary" where
  "NewRunSummary name promptFragment payload =
     (case payload of
        None \<Rightarrow> Inl RunSummaryMarshalFailed
      | Some bytes \<Rightarrow> Inr \<lparr>rsName = name, PromptFragment = promptFragment, Payload = bytes\<rparr>)"

definition runSummarySizeBytes :: "RunSummary \<Rightarrow> int" where
  "runSummarySizeBytes s = int (length (rsName s)) + int (length (PromptFragment s)) + int (length (Payload s))"

text \<open>
  The loop of a windows summarizer: windows are added one at a time, up to the first that would
  exceed the limit.
\<close>

fun fit_windows ::
  "('w list \<Rightarrow> insights_error + RunSummary) \<Rightarrow> int \<Rightarrow> 'w list \<Rightarrow> 'w list \<Rightarrow> insights_error + 'w list" where
  "fit_windows summary byteLimit kept [] = Inr kept"
| "fit_windows summary byteLimit kept (window # windows) =
     (case summary (kept @ [window]) of
        Inl e \<Rightarrow> Inl e
      | Inr s \<Rightarrow> if runSummarySizeBytes s > byteLimit then Inr kept
                 else fit_windows summary byteLimit (kept @ [window]) windows)"

text \<open>Before it, an empty summary has to fit; otherwise the limit is insufficient.\<close>

definition check_empty :: "('w list \<Rightarrow> insights_error + RunSummary) \<Rightarrow> string \<Rightarrow> int \<Rightarrow> insights_error option" where
  "check_empty summary name byteLimit =
     (case summary [] of
        Inl e \<Rightarrow> Some e
      | Inr s \<Rightarrow> if runSummarySizeBytes s > byteLimit then Some (InsufficientByteLimit name byteLimit) else None)"

section \<open>Tables of a session\<close>

fun single_table :: "string \<Rightarrow> TableEntry list \<Rightarrow> string \<Rightarrow> string" where
  "single_table name [] acc = acc"
| "single_table name (e # es) acc =
     (if entryTypeName e \<noteq> name then single_table name es acc
      else if acc \<noteq> [] then []
      else single_table name es (tableName e))"

definition singleTableByComponentType :: "TableEntry list \<Rightarrow> string \<Rightarrow> string" where
  "singleTableByComponentType entries componentTypeName = single_table componentTypeName entries []"

definition singleTableRef :: "TableRefMap \<Rightarrow> string \<Rightarrow> string" where
  "singleTableRef refs name = (case map_of refs name of Some [t] \<Rightarrow> refName t | _ \<Rightarrow> [])"

text \<open>
  The requirements of a summarizer, resolved by either search; the tables come back in the order of the
  requirements.
\<close>

definition resolve_tables :: "(string \<Rightarrow> string) \<Rightarrow> string \<Rightarrow> string list \<Rightarrow> insights_error + string list" where
  "resolve_tables lookup summaryName requirements =
     (let missing = filter (\<lambda>r. lookup r = []) requirements
      in if missing \<noteq> [] then Inl (RenderTableNotFound summaryName missing)
         else Inr (map lookup requirements))"

definition resolveSummaryTablesByComponentType ::
  "TableEntry list \<Rightarrow> string \<Rightarrow> string list \<Rightarrow> insights_error + string list" where
  "resolveSummaryTablesByComponentType entries = resolve_tables (singleTableByComponentType entries)"

text \<open>The widget data sources of a session are a map from visualizations, or nil.\<close>

definition resolveSummaryTables ::
  "(string \<times> TableRefMap) list option \<Rightarrow> string \<Rightarrow> string \<Rightarrow> string list \<Rightarrow> insights_error + string list" where
  "resolveSummaryTables sources visualizationID =
     resolve_tables (singleTableRef
       (case sources of
          None \<Rightarrow> []
        | Some m \<Rightarrow> (case map_of m visualizationID of None \<Rightarrow> [] | Some refs \<Rightarrow> refs)))"

section \<open>Summarizers of a recipe\<close>

text \<open>A summarizer takes the run and the session, and a budgeted one its byte limit.\<close>

record 's UnbudgetedRunSummarizer =
  uName :: string
  uSummarize :: "'s \<Rightarrow> insights_error + RunSummary"

record 's BudgetedRunSummarizerConfig =
  bName :: string
  bSummarize :: "'s \<Rightarrow> int \<Rightarrow> insights_error + RunSummary"
  Weight :: int

record 's RecipeRunSummarizers =
  Unbudgeted :: "'s UnbudgetedRunSummarizer list"
  Budgeted :: "'s BudgetedRunSummarizerConfig list"

definition SummarizersForRecipe ::
  "'s UnbudgetedRunSummarizer \<Rightarrow> (string \<Rightarrow> 's RecipeRunSummarizers option) \<Rightarrow> string \<Rightarrow> 's RecipeRunSummarizers" where
  "SummarizersForRecipe runDetails additionalByRecipe recipeName =
     (case additionalByRecipe recipeName of
        None \<Rightarrow> \<lparr>Unbudgeted = [runDetails], Budgeted = []\<rparr>
      | Some additional \<Rightarrow> \<lparr>Unbudgeted = runDetails # Unbudgeted additional, Budgeted = Budgeted additional\<rparr>)"

definition additionalSummarizersByRecipe ::
  "'s BudgetedRunSummarizerConfig list \<Rightarrow> string \<Rightarrow> 's RecipeRunSummarizers option" where
  "additionalSummarizersByRecipe codeHotspots recipeName =
     (if recipeName = ''code_hotspots'' then Some \<lparr>Unbudgeted = [], Budgeted = codeHotspots\<rparr> else None)"

section \<open>The bundle\<close>

definition runSummaryBundleTextLimitBytes :: int where
  "runSummaryBundleTextLimitBytes = 1024 * 1024"

definition runSummaryBundleSizeBytes :: "RunSummary list \<Rightarrow> int" where
  "runSummaryBundleSizeBytes summaries =
     sum_list (map (\<lambda>s. int (length (rsName s)) + int (length (PromptFragment s)) + int (length (Payload s))) summaries)"

definition remainingRunSummaryBundleBytes :: "RunSummary list \<Rightarrow> int \<Rightarrow> int" where
  "remainingRunSummaryBundleBytes summaries limitBytes =
     (let remaining = limitBytes - runSummaryBundleSizeBytes summaries in if remaining < 0 then 0 else remaining)"

text \<open>A bundle whose weights add up to zero makes the division panic.\<close>

definition budgetedSummarizerByteLimit ::
  "int \<Rightarrow> 's BudgetedRunSummarizerConfig \<Rightarrow> 's BudgetedRunSummarizerConfig list \<Rightarrow> insights_error + int" where
  "budgetedSummarizerByteLimit available summarizer summarizers =
     (let totalWeight = sum_list (map Weight summarizers)
      in if totalWeight = 0 then Inl DivisionByZero
         else Inr (sgn (available * Weight summarizer) * sgn totalWeight *
                   (\<bar>available * Weight summarizer\<bar> div \<bar>totalWeight\<bar>)))"

fun run_unbudgeted :: "'s \<Rightarrow> 's UnbudgetedRunSummarizer list \<Rightarrow> RunSummary list \<Rightarrow> insights_error + RunSummary list" where
  "run_unbudgeted session [] acc = Inr acc"
| "run_unbudgeted session (u # us) acc =
     (case uSummarize u session of Inl e \<Rightarrow> Inl e | Inr s \<Rightarrow> run_unbudgeted session us (acc @ [s]))"

fun run_budgeted ::
  "'s \<Rightarrow> int \<Rightarrow> 's BudgetedRunSummarizerConfig list \<Rightarrow> 's BudgetedRunSummarizerConfig list \<Rightarrow> RunSummary list
   \<Rightarrow> insights_error + RunSummary list" where
  "run_budgeted session available all [] acc = Inr acc"
| "run_budgeted session available all (b # bs) acc =
     (case budgetedSummarizerByteLimit available b all of
        Inl e \<Rightarrow> Inl e
      | Inr limit \<Rightarrow>
         (case bSummarize b session limit of
            Inl e \<Rightarrow> Inl e
          | Inr s \<Rightarrow> run_budgeted session available all bs (acc @ [s])))"

fun validate_names :: "string list \<Rightarrow> RunSummary list \<Rightarrow> insights_error option" where
  "validate_names names [] = None"
| "validate_names names (s # ss) =
     (if rsName s = [] then Some SummaryNameMissing
      else if rsName s \<in> set names then Some (SummaryNameDuplicated (rsName s))
      else validate_names (rsName s # names) ss)"

definition validateRunSummaryBundle :: "RunSummary list \<Rightarrow> insights_error option" where
  "validateRunSummaryBundle = validate_names []"

definition limitRunSummaryBundleSize :: "RunSummary list \<Rightarrow> int \<Rightarrow> insights_error option" where
  "limitRunSummaryBundleSize summaries limitBytes =
     (let totalBytes = runSummaryBundleSizeBytes summaries
      in if totalBytes > limitBytes then Some (BundleSizeExceeded totalBytes limitBytes) else None)"

text \<open>
  \<open>getRunSummaryBundle\<close> of a run; rendering its content gives a session or an error. The response
  is the list of summaries.
\<close>

definition getRunSummaryBundle ::
  "string \<Rightarrow> string \<Rightarrow> insights_error + 's \<Rightarrow> 's RecipeRunSummarizers \<Rightarrow> int \<Rightarrow> insights_error + RunSummary list" where
  "getRunSummaryBundle runID runResult content summarizers bundleLimitBytes =
     (if runResult \<noteq> ''success'' then Inl (RunNotSuccessful runID runResult)
      else case content of
        Inl e \<Rightarrow> Inl e
      | Inr session \<Rightarrow>
         (case run_unbudgeted session (Unbudgeted summarizers) [] of
            Inl e \<Rightarrow> Inl e
          | Inr unbudgeted \<Rightarrow>
             (case run_budgeted session (remainingRunSummaryBundleBytes unbudgeted bundleLimitBytes)
                     (Budgeted summarizers) (Budgeted summarizers) unbudgeted of
                Inl e \<Rightarrow> Inl e
              | Inr summaries \<Rightarrow>
                 (case validateRunSummaryBundle summaries of
                    Some e \<Rightarrow> Inl e
                  | None \<Rightarrow>
                     (case limitRunSummaryBundleSize summaries bundleLimitBytes of
                        Some e \<Rightarrow> Inl e
                      | None \<Rightarrow> Inr summaries)))))"

section \<open>The byte budget\<close>

lemma length_Join_append: "length (Join xs sep) \<le> length (Join (xs @ [x]) sep)"
  by (induction xs sep rule: Join.induct) auto

lemma json_array_grows: "length (json_array xs) \<le> length (json_array (xs @ [x]))"
  by (simp add: json_array_def length_Join_append)

locale byte_budget =
  fixes summary :: "'w list \<Rightarrow> insights_error + RunSummary"
    and bytes :: "'w list \<Rightarrow> int"
  assumes summary_size: "\<exists>s. summary ws = Inr s \<and> runSummarySizeBytes s = bytes ws"
    and grows: "bytes ws \<le> bytes (ws @ [w])"
begin

lemma grows_append: "bytes ws \<le> bytes (ws @ vs)"
proof (induction vs rule: rev_induct)
  case (snoc v vs) then show ?case using grows [of "ws @ vs" v] by simp
qed simp

lemma check_empty_iff: "check_empty summary name limit = None \<longleftrightarrow> bytes [] \<le> limit"
  using summary_size [of "[]"] by (auto simp: check_empty_def split: if_splits)

text \<open>The loop keeps the longest prefix that fits.\<close>

lemma fit_windows_prefix:
  assumes "bytes kept \<le> limit"
  shows "\<exists>n \<le> length ws. fit_windows summary limit kept ws = Inr (kept @ take n ws) \<and> bytes (kept @ take n ws) \<le> limit \<and>
           (\<forall>m. n < m \<longrightarrow> m \<le> length ws \<longrightarrow> limit < bytes (kept @ take m ws))"
  using assms
proof (induction ws arbitrary: kept)
  case (Cons w ws)
  obtain s where s: "summary (kept @ [w]) = Inr s" "runSummarySizeBytes s = bytes (kept @ [w])"
    using summary_size by blast
  show ?case
  proof (cases "limit < bytes (kept @ [w])")
    case True
    have "limit < bytes (kept @ take m (w # ws))" if "0 < m" for m
      using that True grows_append [of "kept @ [w]" "take (m - 1) ws"] by (cases m) auto
    then show ?thesis using Cons.prems True s by (intro exI [of _ 0]) auto
  next
    case False
    then obtain n where n: "n \<le> length ws" "fit_windows summary limit (kept @ [w]) ws = Inr ((kept @ [w]) @ take n ws)"
      "bytes ((kept @ [w]) @ take n ws) \<le> limit"
      "\<forall>m. n < m \<longrightarrow> m \<le> length ws \<longrightarrow> limit < bytes ((kept @ [w]) @ take m ws)"
      using Cons.IH [of "kept @ [w]"] by auto
    have "limit < bytes (kept @ take m (w # ws))" if "Suc n < m" "m \<le> length (w # ws)" for m
      using that n(4) by (cases m) auto
    then show ?thesis using n False s by (intro exI [of _ "Suc n"]) auto
  qed
qed simp

lemma fit_windows_total: "\<exists>r. fit_windows summary limit kept ws = Inr r"
proof (induction ws arbitrary: kept)
  case (Cons w ws) then show ?case using summary_size [of "kept @ [w]"] by auto
qed simp

end

section \<open>The size of the bundle\<close>

lemma bundle_size_append:
  "runSummaryBundleSizeBytes (xs @ [s]) = runSummaryBundleSizeBytes xs + runSummarySizeBytes s"
  by (simp add: runSummaryBundleSizeBytes_def runSummarySizeBytes_def)

definition shares :: "int \<Rightarrow> int \<Rightarrow> int list \<Rightarrow> int" where
  "shares available W ws = sum_list (map (\<lambda>w. available * w div W) ws)"

lemma shares_le:
  assumes "0 < W"
  shows "shares available W ws * W \<le> available * sum_list ws"
proof (induction ws)
  case (Cons w ws)
  have "available * w div W * W \<le> available * w" using assms
    by (metis div_mult_mod_eq le_add_same_cancel1 pos_mod_sign)
  then show ?case using Cons by (simp add: shares_def algebra_simps)
qed (simp add: shares_def)

lemma byte_limit_share:
  assumes "0 \<le> available" "0 \<le> Weight b" "0 < sum_list (map Weight bs)"
  shows "budgetedSummarizerByteLimit available b bs = Inr (available * Weight b div sum_list (map Weight bs))"
proof -
  have "0 \<le> available * Weight b" using assms by simp
  then have "sgn (available * Weight b) * (available * Weight b div W) = available * Weight b div W" for W
    by (cases "available * Weight b = 0") (auto simp: sgn_if)
  then show ?thesis using assms by (simp add: budgetedSummarizerByteLimit_def Let_def)
qed

lemma run_budgeted_size:
  assumes weights: "\<forall>b \<in> set bs. 0 \<le> Weight b" "0 < sum_list (map Weight cfg)" and "0 \<le> available"
    and keeps: "\<forall>b \<in> set bs. \<forall>l s. bSummarize b session l = Inr s \<longrightarrow> runSummarySizeBytes s \<le> l"
    and run: "run_budgeted session available cfg bs acc = Inr summaries"
  shows "runSummaryBundleSizeBytes summaries
           \<le> runSummaryBundleSizeBytes acc + shares available (sum_list (map Weight cfg)) (map Weight bs)"
  using weights(1) keeps run
proof (induction bs arbitrary: acc)
  case (Cons b bs)
  let ?l = "available * Weight b div sum_list (map Weight cfg)"
  have "budgetedSummarizerByteLimit available b cfg = Inr ?l"
    using Cons.prems(1) weights(2) assms(3) by (intro byte_limit_share) auto
  then obtain s where s: "bSummarize b session ?l = Inr s" "run_budgeted session available cfg bs (acc @ [s]) = Inr summaries"
    using Cons.prems(3) by (auto split: sum.splits)
  have "runSummarySizeBytes s \<le> ?l" using Cons.prems(2) s(1) by auto
  moreover have "runSummaryBundleSizeBytes summaries
      \<le> runSummaryBundleSizeBytes (acc @ [s]) + shares available (sum_list (map Weight cfg)) (map Weight bs)"
    using Cons.IH [OF _ _ s(2)] Cons.prems(1,2) by auto
  ultimately show ?case by (simp add: bundle_size_append shares_def)
qed (simp add: shares_def)

text \<open>
  C40. If the weights of the summarizers are positive, every budgeted summarizer stays within the limit
  it is given, and the unbudgeted summaries fit the bundle, then the summaries that have been produced
  fit the bundle: the safeguard at the end of \<open>getRunSummaryBundle\<close> is not hit.
\<close>

theorem bundle_within_limit:
  assumes "\<forall>b \<in> set (Budgeted cfg). 0 < Weight b"
    and "\<forall>b \<in> set (Budgeted cfg). \<forall>l s. bSummarize b session l = Inr s \<longrightarrow> runSummarySizeBytes s \<le> l"
    and "run_unbudgeted session (Unbudgeted cfg) [] = Inr unbudgeted"
    and "runSummaryBundleSizeBytes unbudgeted \<le> limit"
    and "run_budgeted session (remainingRunSummaryBundleBytes unbudgeted limit) (Budgeted cfg) (Budgeted cfg) unbudgeted
           = Inr summaries"
  shows "runSummaryBundleSizeBytes summaries \<le> limit \<and>
         getRunSummaryBundle runID ''success'' (Inr session) cfg limit =
           (case validateRunSummaryBundle summaries of None \<Rightarrow> Inr summaries | Some e \<Rightarrow> Inl e)"
proof -
  let ?bs = "Budgeted cfg" and ?W = "sum_list (map Weight (Budgeted cfg))"
  let ?available = "remainingRunSummaryBundleBytes unbudgeted limit"
  have available: "?available = limit - runSummaryBundleSizeBytes unbudgeted"
    using assms(4) by (simp add: remainingRunSummaryBundleBytes_def Let_def)
  have "runSummaryBundleSizeBytes summaries \<le> limit \<and> (?bs = [] \<longrightarrow> summaries = unbudgeted)"
  proof (cases "?bs = []")
    case True then show ?thesis using assms(4,5) by simp
  next
    case False
    then obtain b bs where bs: "?bs = b # bs" by (cases ?bs) auto
    have "0 \<le> sum_list (map Weight bs)"
      by (rule sum_list_nonneg) (use assms(1) bs in \<open>auto intro: less_imp_le\<close>)
    moreover have "0 < Weight b" using assms(1) bs by simp
    ultimately have W: "0 < ?W" using bs by simp
    have "shares ?available ?W (map Weight ?bs) * ?W \<le> ?available * ?W" by (rule shares_le [OF W])
    then have "shares ?available ?W (map Weight ?bs) \<le> ?available" using W by simp
    moreover have "runSummaryBundleSizeBytes summaries
        \<le> runSummaryBundleSizeBytes unbudgeted + shares ?available ?W (map Weight ?bs)"
      by (rule run_budgeted_size [OF _ W _ assms(2,5)]) (use assms(1,4) available in auto)
    ultimately show ?thesis using available False by simp
  qed
  then show ?thesis
    using assms(3,5) by (simp add: getRunSummaryBundle_def limitRunSummaryBundleSize_def Let_def split: option.split)
qed

end
