(* ===== verification/SourceContent.thy ===== *)
theory SourceContent
  imports PathRemap
begin

text \<open>
  Package sourcecontent (fetcher.go, fetch.go): fetching source files from the host or the target. A
  file lists the locations to try; the first one that can be read, is not empty and has enough lines
  is taken, and what was wrong with the others is recorded. Files are fetched by concurrent workers.

  Reading a file of the host, and what connecting to a target and reading its files gives, are
  arguments (\<open>HostFiles\<close>, \<open>TargetAccess\<close>): they are calls of the operating system and of the agent.
\<close>

section \<open>Locations and failures\<close>

type_synonym SourceLocation = string

definition SourceLocationHost :: SourceLocation where "SourceLocationHost = ''host''"
definition SourceLocationTarget :: SourceLocation where "SourceLocationTarget = ''target''"

record SourceFileLocation =
  slLocation :: SourceLocation
  slPath :: string

record SourceFile =
  Locations :: "SourceFileLocation list"
  MinimumLineCount :: nat

datatype SourceFailureReason =
    SourceFailureMissingHostMapping
  | SourceFailureHostPathFailed
  | SourceFailureHostPathMismatched
  | SourceFailureTargetNotReachable
  | SourceFailureTargetAgentUnavailable
  | SourceFailureTargetPathFailed
  | SourceFailureTargetPathMismatched
  | SourceFailureNone

record SourceFileFailure =
  sfLocation :: SourceLocation
  sfPath :: string
  sfErr :: string
  sfReason :: SourceFailureReason

record SourceFileContent =
  scContent :: string
  Failures :: "SourceFileFailure list"
  LoadedLocation :: SourceFileLocation

definition noLocation :: SourceFileLocation where
  "noLocation = \<lparr>slLocation = [], slPath = []\<rparr>"

definition sourceLocationFailure :: "SourceFileLocation \<Rightarrow> SourceFailureReason \<Rightarrow> string \<Rightarrow> SourceFileFailure" where
  "sourceLocationFailure location reason err =
     \<lparr>sfLocation = slLocation location, sfPath = slPath location, sfErr = err, sfReason = reason\<rparr>"

section \<open>Reading one location\<close>

type_synonym HostFiles = "string \<Rightarrow> string + string"

definition fetchHostSourceLocation :: "HostFiles \<Rightarrow> SourceFileLocation \<Rightarrow> SourceFileFailure + string" where
  "fetchHostSourceLocation readHost location =
     (if slPath location = []
      then Inl (sourceLocationFailure location SourceFailureMissingHostMapping ''missing host source mapping'')
      else case readHost (slPath location) of
        Inr content \<Rightarrow>
          (if content \<noteq> [] then Inr content
           else Inl (sourceLocationFailure location SourceFailureHostPathFailed ''empty source content''))
      | Inl err \<Rightarrow> Inl (sourceLocationFailure location SourceFailureHostPathFailed err))"

type_synonym targetFileFetcher = "string \<Rightarrow> (SourceFailureReason \<times> string) + string"

definition fetchTargetSourceLocation ::
  "targetFileFetcher option \<Rightarrow> SourceFileLocation \<Rightarrow> SourceFileFailure + string" where
  "fetchTargetSourceLocation fetcher location =
     (if slPath location = []
      then Inl (sourceLocationFailure location SourceFailureTargetPathFailed ''missing target source path'')
      else case fetcher of
        None \<Rightarrow> Inl (sourceLocationFailure location SourceFailureTargetNotReachable ''target source fetcher required'')
      | Some fetch \<Rightarrow>
         (case fetch (slPath location) of
            Inr content \<Rightarrow>
              (if content \<noteq> [] then Inr content
               else Inl (sourceLocationFailure location SourceFailureTargetPathFailed ''empty source content''))
          | Inl (failure, err) \<Rightarrow> Inl (sourceLocationFailure location failure err)))"

text \<open>
  The fetcher of a target sets its session up once, on the first file; the outcome of each call of
  the setup is given, a session of \<open>Inr False\<close> being nil.
\<close>

record TargetAccess =
  taSession :: "string + bool"
  taConnect :: "string option"
  taAgent :: "string option"
  taPlatform :: "string option"
  taWindows :: bool
  taToOSPath :: "string \<Rightarrow> string"
  taRetrieve :: "string \<Rightarrow> string + string"

definition setup_target :: "TargetAccess \<Rightarrow> (SourceFailureReason \<times> string) option" where
  "setup_target t =
     (case taSession t of
        Inl err \<Rightarrow> Some (SourceFailureTargetNotReachable, err)
      | Inr False \<Rightarrow> Some (SourceFailureTargetNotReachable, ''target source fetcher required'')
      | Inr True \<Rightarrow>
         (case taConnect t of
            Some err \<Rightarrow> Some (SourceFailureTargetNotReachable, err)
          | None \<Rightarrow>
             (case taAgent t of
                Some err \<Rightarrow> Some (SourceFailureTargetAgentUnavailable, err)
              | None \<Rightarrow>
                 (case taPlatform t of
                    Some err \<Rightarrow> Some (SourceFailureTargetAgentUnavailable, err)
                  | None \<Rightarrow> None))))"

definition cleanTargetPath :: "string \<Rightarrow> bool \<Rightarrow> string" where
  "cleanTargetPath p isWindows =
     (let forced = ForceToSlash p;
          isUNC = (isWindows \<and> HasPrefix forced ''//'');
          cleaned = Clean forced
      in if isUNC then ''//'' @ TrimPrefix cleaned ''/'' else cleaned)"

definition FetchTargetFile :: "TargetAccess \<Rightarrow> string \<Rightarrow> string + string" where
  "FetchTargetFile t targetPath = taRetrieve t (taToOSPath t (cleanTargetPath targetPath (taWindows t)))"

definition newTargetFileFetcher :: "TargetAccess option \<Rightarrow> targetFileFetcher option" where
  "newTargetFileFetcher target =
     map_option
       (\<lambda>t targetPath.
          case setup_target t of
            Some failure \<Rightarrow> Inl failure
          | None \<Rightarrow>
             (case FetchTargetFile t targetPath of
                Inl err \<Rightarrow> Inl (SourceFailureTargetPathFailed, err)
              | Inr content \<Rightarrow> Inr content)) target"

section \<open>One file\<close>

definition newline :: char where "newline = CHR 0x0A"

definition sourceContentLineCount :: "string \<Rightarrow> nat" where
  "sourceContentLineCount content =
     (let lineCount = CountByte content newline
      in if HasSuffix content [newline] then lineCount else lineCount + 1)"

text \<open>Any other location is unsupported; it has no characters that \<open>%q\<close> would escape.\<close>

definition fetchLocation ::
  "HostFiles \<Rightarrow> targetFileFetcher option \<Rightarrow> SourceFileLocation \<Rightarrow> SourceFileFailure + string" where
  "fetchLocation readHost fetcher location =
     (if slLocation location = SourceLocationHost then fetchHostSourceLocation readHost location
      else if slLocation location = SourceLocationTarget then fetchTargetSourceLocation fetcher location
      else Inl (sourceLocationFailure location SourceFailureNone
             (''unsupported source location '' @ [CHR 0x22] @ slLocation location @ [CHR 0x22])))"

fun try_locations ::
  "HostFiles \<Rightarrow> targetFileFetcher option \<Rightarrow> nat \<Rightarrow> SourceFileFailure list \<Rightarrow> SourceFileLocation list \<Rightarrow> SourceFileContent" where
  "try_locations readHost fetcher minimum failures [] =
     \<lparr>scContent = [],
      Failures = (if failures = []
                  then [\<lparr>sfLocation = [], sfPath = [], sfErr = ''missing source location'', sfReason = SourceFailureNone\<rparr>]
                  else failures),
      LoadedLocation = noLocation\<rparr>"
| "try_locations readHost fetcher minimum failures (location # locations) =
     (case fetchLocation readHost fetcher location of
        Inl failure \<Rightarrow> try_locations readHost fetcher minimum (failures @ [failure]) locations
      | Inr content \<Rightarrow>
         (if minimum = 0 \<or> minimum \<le> sourceContentLineCount content
          then \<lparr>scContent = content, Failures = failures, LoadedLocation = location\<rparr>
          else try_locations readHost fetcher minimum
                 (failures @ [sourceLocationFailure location
                                (if slLocation location = SourceLocationHost then SourceFailureHostPathMismatched
                                 else SourceFailureTargetPathMismatched)
                                ''source content shorter than minimum line count'']) locations))"

definition fetchSourceFile :: "HostFiles \<Rightarrow> targetFileFetcher option \<Rightarrow> SourceFile \<Rightarrow> SourceFileContent" where
  "fetchSourceFile readHost fetcher sourceFile =
     try_locations readHost fetcher (MinimumLineCount sourceFile) [] (Locations sourceFile)"

section \<open>All files\<close>

text \<open>
  Workers take the indexes of the files from a channel and send their results, which arrive in some
  order. The results are put where their index says.
\<close>

definition noContent :: SourceFileContent where
  "noContent = \<lparr>scContent = [], Failures = [], LoadedLocation = noLocation\<rparr>"

definition fetchSourceFiles ::
  "nat list \<Rightarrow> (SourceFile \<Rightarrow> SourceFileContent) \<Rightarrow> SourceFile list \<Rightarrow> SourceFileContent list" where
  "fetchSourceFiles arrival fetch fs =
     foldl (\<lambda>contents i. contents[i := fetch (fs ! i)]) (replicate (length fs) noContent) arrival"

lemma collect_nth:
  "i < length cs \<Longrightarrow>
   foldl (\<lambda>contents i. contents[i := g i]) cs arrival ! i = (if i \<in> set arrival then g i else cs ! i)"
  by (induction arrival arbitrary: cs) (auto simp: nth_list_update)

lemma length_collect [simp]: "length (foldl (\<lambda>contents i. contents[i := g i]) cs arrival) = length cs"
  by (induction arrival arbitrary: cs) auto

text \<open>Whatever the order in which the workers finish, the results are those of the files in order.\<close>

lemma fetchSourceFiles_map:
  assumes "set arrival = {..<length fs}"
  shows "fetchSourceFiles arrival fetch fs = map fetch fs"
  by (rule nth_equalityI) (use assms in \<open>auto simp: fetchSourceFiles_def collect_nth\<close>)

section \<open>What a result says\<close>

lemma fetchLocation_nonempty: "fetchLocation readHost fetcher location = Inr content \<Longrightarrow> content \<noteq> []"
  by (auto simp: fetchLocation_def fetchHostSourceLocation_def fetchTargetSourceLocation_def
      split: if_splits sum.splits option.splits)

lemma try_locations_loaded:
  assumes "slLocation (LoadedLocation (try_locations readHost fetcher minimum failures locations)) \<noteq> []"
  shows "\<exists>l \<in> set locations. LoadedLocation (try_locations readHost fetcher minimum failures locations) = l \<and>
           fetchLocation readHost fetcher l = Inr (scContent (try_locations readHost fetcher minimum failures locations)) \<and>
           minimum \<le> sourceContentLineCount (scContent (try_locations readHost fetcher minimum failures locations))"
  using assms
  by (induction readHost fetcher minimum failures locations rule: try_locations.induct)
    (auto simp: noLocation_def split: sum.splits if_splits)

text \<open>A host location that does not give the file leaves a failure that has a reason.\<close>

definition has_reason :: "SourceFileFailure list \<Rightarrow> bool" where
  "has_reason failures = list_ex (\<lambda>f. sfReason f \<noteq> SourceFailureNone) failures"

lemma host_failure_reason:
  "slLocation l = SourceLocationHost \<Longrightarrow> fetchLocation readHost fetcher l = Inl f \<Longrightarrow> sfReason f \<noteq> SourceFailureNone"
  by (auto simp: fetchLocation_def fetchHostSourceLocation_def sourceLocationFailure_def split: if_splits sum.splits)

lemma try_locations_reason:
  assumes "slLocation (LoadedLocation (try_locations readHost fetcher minimum failures locations)) = []"
    and "has_reason failures \<or> (\<exists>l \<in> set locations. slLocation l = SourceLocationHost)"
    and "\<forall>l \<in> set locations. slLocation l \<noteq> []"
  shows "has_reason (Failures (try_locations readHost fetcher minimum failures locations))"
  using assms
proof (induction readHost fetcher minimum failures locations rule: try_locations.induct)
  case (1 readHost fetcher minimum failures)
  then show ?case by (auto simp: has_reason_def)
next
  case (2 readHost fetcher minimum failures location locations)
  show ?case
  proof (cases "fetchLocation readHost fetcher location")
    case (Inl failure)
    then have "has_reason (failures @ [failure]) \<or> (\<exists>l \<in> set locations. slLocation l = SourceLocationHost)"
      using 2(4) host_failure_reason [OF _ Inl] by (auto simp: has_reason_def)
    then show ?thesis using 2(1) [OF Inl] 2(3,5) Inl by simp
  next
    case (Inr content)
    then have short: "minimum \<noteq> 0" "sourceContentLineCount content < minimum" using 2(3,5) by (auto split: if_splits)
    have "has_reason (failures @ [sourceLocationFailure location
            (if slLocation location = SourceLocationHost then SourceFailureHostPathMismatched
             else SourceFailureTargetPathMismatched) err])" for err
      by (simp add: has_reason_def sourceLocationFailure_def)
    then show ?thesis using 2(2) [OF Inr] 2(3,5) Inr short by simp
  qed
qed

end
