(* ===== verification/SourceRanges.thy ===== *)
theory SourceRanges
  imports Float64 "HOL-Library.Word" "HOL-Library.Product_Lexorder"
begin

text \<open>
  The line ranges of insights/source\_window.go: which sampled lines of a run are put into windows,
  ranges of lines around them, and the merging and widening of ranges. Lines are 32-bit and counts
  64-bit words, as in the code; the shares are the floats of \<open>Float64\<close>.

  The lemmas show that merging keeps the lines and separates the ranges, unless a range ends at the
  largest line number (\<open>merge_wraps\<close>), and that the selected lines reach 99 percent of the samples.
\<close>

type_synonym uint32 = "32 word"
type_synonym uint64 = "64 word"

section \<open>Sampled lines and ranges\<close>

record sourceWindowSampleLineRow =
  sourceFileID :: int
  hostLocation :: string
  targetLocation :: string
  lineNo :: uint32
  isInlined :: bool
  periodicSamples :: uint64

record sourceLineRange =
  StartLine :: uint32
  EndLine :: uint32

definition sourceWindowsCoverageThresholdPercent :: nat where "sourceWindowsCoverageThresholdPercent = 99"
definition sourceWindowsContextLines :: uint32 where "sourceWindowsContextLines = 10"
definition sourceWindowsHotWindowThresholdPercent :: nat where "sourceWindowsHotWindowThresholdPercent = 5"
definition sourceWindowsHotWindowContextLines :: uint32 where "sourceWindowsHotWindowContextLines = 100"

abbreviation MaxUint32 :: uint32 where "MaxUint32 \<equiv> - 1"

definition sourceLineRangeForSampleLine :: "uint32 \<Rightarrow> uint32 \<Rightarrow> sourceLineRange" where
  "sourceLineRangeForSampleLine line maxLine =
     \<lparr>StartLine = line - min (line - 1) sourceWindowsContextLines,
      EndLine = line + min (maxLine - line) sourceWindowsContextLines\<rparr>"

fun merge_loop :: "sourceLineRange \<Rightarrow> sourceLineRange list \<Rightarrow> sourceLineRange list" where
  "merge_loop lst [] = [lst]"
| "merge_loop lst (lineRange # ranges) =
     (if StartLine lineRange \<le> EndLine lst + 1
      then merge_loop (if EndLine lineRange > EndLine lst then lst\<lparr>EndLine := EndLine lineRange\<rparr> else lst) ranges
      else lst # merge_loop lineRange ranges)"

definition mergeSourceLineRanges :: "sourceLineRange list \<Rightarrow> sourceLineRange list" where
  "mergeSourceLineRanges ranges =
     (case sort_key (\<lambda>r. (StartLine r, EndLine r)) ranges of
        [] \<Rightarrow> []
      | r # rs \<Rightarrow> merge_loop r rs)"

definition sourceLineRangesForSampleLines :: "sourceWindowSampleLineRow list \<Rightarrow> uint32 \<Rightarrow> sourceLineRange list" where
  "sourceLineRangesForSampleLines sampleLines maxLine =
     mergeSourceLineRanges
       (map (\<lambda>s. sourceLineRangeForSampleLine (lineNo s) maxLine) (filter (\<lambda>s. \<not> lineNo s > maxLine) sampleLines))"

definition inRange :: "sourceLineRange \<Rightarrow> uint32 \<Rightarrow> bool" where
  "inRange r l = (\<not> (l < StartLine r \<or> l > EndLine r))"

fun sourceWindowSamples :: "sourceLineRange \<Rightarrow> sourceWindowSampleLineRow list \<Rightarrow> uint64" where
  "sourceWindowSamples r [] = 0"
| "sourceWindowSamples r (s # ss) =
     (if inRange r (lineNo s) then periodicSamples s + sourceWindowSamples r ss else sourceWindowSamples r ss)"

definition widenHotSourceLineRanges ::
  "sourceLineRange list \<Rightarrow> sourceWindowSampleLineRow list \<Rightarrow> uint64 \<Rightarrow> uint32 \<Rightarrow> sourceLineRange list" where
  "widenHotSourceLineRanges lineRanges fileSampleLines totalSamples maxLine =
     (if lineRanges = [] \<or> totalSamples = 0 then lineRanges
      else
        let threshold = percent_of sourceWindowsHotWindowThresholdPercent (unat totalSamples);
            extra = sourceWindowsHotWindowContextLines - sourceWindowsContextLines
        in mergeSourceLineRanges
             (map (\<lambda>r. if float64 (unat (sourceWindowSamples r fileSampleLines)) \<ge> threshold
                       then r\<lparr>StartLine := StartLine r - min (StartLine r - 1) extra,
                              EndLine := EndLine r + min (maxLine - EndLine r) extra\<rparr>
                       else r) lineRanges))"

section \<open>Selection of the sampled lines\<close>

text \<open>The lines of a file with their indexes, by line.\<close>

definition sourceSampleLinesByFileID ::
  "sourceWindowSampleLineRow list \<Rightarrow> int \<Rightarrow> (nat \<times> sourceWindowSampleLineRow) list" where
  "sourceSampleLinesByFileID sampleLines fileID =
     sort_key (\<lambda>(i, s). lineNo s) (filter (\<lambda>(i, s). sourceFileID s = fileID) (enumerate 0 sampleLines))"

fun add_loop ::
  "sourceLineRange \<Rightarrow> (nat \<times> sourceWindowSampleLineRow) list \<Rightarrow> bool list \<Rightarrow> uint64 \<Rightarrow> uint64 \<times> bool list" where
  "add_loop r [] selected added = (added, selected)"
| "add_loop r ((i, s) # rest) selected added =
     (if lineNo s > EndLine r then (added, selected)
      else if selected ! i then add_loop r rest selected added
      else add_loop r rest (selected[i := True]) (added + periodicSamples s))"

text \<open>\<open>sort.Search\<close> on the sorted lines gives the first line that is not before the range.\<close>

definition addSourceSampleLinesInRange ::
  "(nat \<times> sourceWindowSampleLineRow) list \<Rightarrow> sourceLineRange \<Rightarrow> bool list \<Rightarrow> uint64 \<times> bool list" where
  "addSourceSampleLinesInRange sampleLines r selected =
     add_loop r (dropWhile (\<lambda>(i, s). \<not> lineNo s \<ge> StartLine r) sampleLines) selected 0"

fun select_loop ::
  "sourceWindowSampleLineRow list \<Rightarrow> rat \<Rightarrow> sourceWindowSampleLineRow list \<Rightarrow> bool list \<Rightarrow> sourceWindowSampleLineRow list
   \<Rightarrow> uint64 \<Rightarrow> bool list \<times> sourceWindowSampleLineRow list" where
  "select_loop sampleLines target [] selected hot inWindows = (selected, hot)"
| "select_loop sampleLines target (s # ss) selected hot inWindows =
     (if float64 (unat inWindows) \<ge> target then (selected, hot)
      else
        let (added, selected') =
              addSourceSampleLinesInRange (sourceSampleLinesByFileID sampleLines (sourceFileID s))
                (sourceLineRangeForSampleLine (lineNo s) MaxUint32) selected
        in select_loop sampleLines target ss selected' (hot @ [s]) (inWindows + added))"

text \<open>The selected lines, and the hot lines; these are grouped by file with \<open>linesOfFile\<close>.\<close>

definition selectSourceWindowSampleLines ::
  "sourceWindowSampleLineRow list \<Rightarrow> uint64 \<Rightarrow> sourceWindowSampleLineRow list \<times> sourceWindowSampleLineRow list" where
  "selectSourceWindowSampleLines sampleLines totalSamples =
     (if totalSamples = 0 then ([], [])
      else
        let (selected, hot) =
              select_loop sampleLines (percent_of sourceWindowsCoverageThresholdPercent (unat totalSamples)) sampleLines
                (replicate (length sampleLines) False) [] 0
        in if hot = [] then ([], [])
           else (map fst (filter snd (zip sampleLines selected)), hot))"

definition linesOfFile :: "sourceWindowSampleLineRow list \<Rightarrow> int \<Rightarrow> sourceWindowSampleLineRow list" where
  "linesOfFile sampleLines fileID = filter (\<lambda>s. sourceFileID s = fileID) sampleLines"

section \<open>Merging ranges\<close>

definition valid_range :: "sourceLineRange \<Rightarrow> bool" where
  "valid_range r \<longleftrightarrow> 0 < StartLine r \<and> StartLine r \<le> EndLine r"

definition lines_of :: "sourceLineRange list \<Rightarrow> uint32 set" where
  "lines_of rs = (\<Union>r \<in> set rs. {StartLine r..EndLine r})"

lemma lines_of_simps [simp]: "lines_of [] = {}" "lines_of (r # rs) = {StartLine r..EndLine r} \<union> lines_of rs"
  "lines_of (xs @ ys) = lines_of xs \<union> lines_of ys"
  by (auto simp: lines_of_def)

lemma in_lines_of: "l \<in> lines_of rs \<longleftrightarrow> (\<exists>r \<in> set rs. inRange r l)"
  by (force simp: lines_of_def inRange_def)

text \<open>Ranges in order with at least a line between them.\<close>

fun separated :: "sourceLineRange list \<Rightarrow> bool" where
  "separated [] = True"
| "separated [r] = True"
| "separated (r # s # rs) \<longleftrightarrow> unat (EndLine r) + 1 < unat (StartLine s) \<and> separated (s # rs)"

lemma separated_Cons: "separated (r # rs) \<longleftrightarrow> (rs = [] \<or> unat (EndLine r) + 1 < unat (StartLine (hd rs)) \<and> separated rs)"
  by (cases rs) auto

lemma unat_inc: "(a :: 'a :: len word) \<noteq> - 1 \<Longrightarrow> unat (a + 1) = unat a + 1"
  using unatSuc [of a] by (simp add: add.commute eq_neg_iff_add_eq_0)

lemma le_inc_iff: "(b :: uint32) \<noteq> - 1 \<Longrightarrow> a \<le> b + 1 \<longleftrightarrow> unat a \<le> unat b + 1"
  by (simp add: word_le_nat_alt unat_inc)

text \<open>A range that touches the next one is merged with it; the names keep word arithmetic away from the automation.\<close>

definition touches :: "sourceLineRange \<Rightarrow> sourceLineRange \<Rightarrow> bool" where
  "touches a b \<longleftrightarrow> StartLine b \<le> EndLine a + 1"

definition bounded_range :: "sourceLineRange \<Rightarrow> bool" where
  "bounded_range r \<longleftrightarrow> valid_range r \<and> EndLine r \<noteq> - 1"

lemma touches_iff: "bounded_range a \<Longrightarrow> touches a b \<longleftrightarrow> unat (StartLine b) \<le> unat (EndLine a) + 1"
  unfolding touches_def bounded_range_def using le_inc_iff [of "EndLine a" "StartLine b"] by blast

lemma touches_bounded:
  assumes "touches a b" "valid_range a" "valid_range b"
  shows "bounded_range a"
  using assms by (auto simp: touches_def bounded_range_def valid_range_def word_gt_0)

lemma merge_union:
  assumes "StartLine a \<le> StartLine b" "touches a b" "valid_range a" "valid_range b"
  shows "{StartLine a..EndLine a} \<union> {StartLine b..EndLine b} = {StartLine a..max (EndLine a) (EndLine b)}"
  using touches_iff [OF touches_bounded [OF assms(2-4)], of b] assms
  by (auto simp: valid_range_def word_le_nat_alt word_less_nat_alt max_def)

abbreviation range_key :: "sourceLineRange \<Rightarrow> uint32 \<times> uint32" where
  "range_key r \<equiv> (StartLine r, EndLine r)"

definition extend :: "sourceLineRange \<Rightarrow> sourceLineRange \<Rightarrow> sourceLineRange" where
  "extend a r = (if EndLine r > EndLine a then a\<lparr>EndLine := EndLine r\<rparr> else a)"

lemma extend_simps [simp]:
  "StartLine (extend a r) = StartLine a" "EndLine (extend a r) = max (EndLine a) (EndLine r)"
  by (auto simp: extend_def max_def)

lemma merge_loop_Cons:
  "merge_loop a (r # rs) = (if touches a r then merge_loop (extend a r) rs else a # merge_loop r rs)"
  by (simp add: extend_def touches_def)

declare merge_loop.simps(2) [simp del]

lemma valid_extend: "valid_range a \<Longrightarrow> valid_range (extend a r)"
  by (simp add: valid_range_def le_max_iff_disj)

lemma bounded_extend: "bounded_range a \<Longrightarrow> bounded_range r \<Longrightarrow> bounded_range (extend a r)"
  unfolding bounded_range_def by (simp only: valid_extend extend_simps max_def if_split_mem1 split: if_split) blast

lemma merge_loop_lines:
  assumes "list_all valid_range (a # rs)" "sorted (map StartLine (a # rs))"
  shows "lines_of (merge_loop a rs) = lines_of (a # rs)"
  using assms
proof (induction rs arbitrary: a)
  case (Cons r rs)
  show ?case
  proof (cases "touches a r")
    case True
    have "lines_of (merge_loop (extend a r) rs) = lines_of (extend a r # rs)"
      by (rule Cons.IH) (use Cons.prems in \<open>simp_all add: valid_extend\<close>)
    moreover have "{StartLine a..EndLine a} \<union> {StartLine r..EndLine r} = {StartLine a..max (EndLine a) (EndLine r)}"
      by (rule merge_union) (use Cons.prems True in simp_all)
    ultimately show ?thesis using True by (simp add: merge_loop_Cons Un_assoc [symmetric])
  next
    case False
    then show ?thesis using Cons by (simp add: merge_loop_Cons)
  qed
qed simp

lemma merge_loop_hd: "merge_loop a rs \<noteq> [] \<and> StartLine (hd (merge_loop a rs)) = StartLine a"
  by (induction rs arbitrary: a) (auto simp: merge_loop_Cons)

lemma merge_loop_separated:
  assumes "list_all bounded_range (a # rs)"
  shows "separated (merge_loop a rs) \<and> list_all bounded_range (merge_loop a rs)"
  using assms
proof (induction rs arbitrary: a)
  case (Cons r rs)
  show ?case
  proof (cases "touches a r")
    case True
    then show ?thesis using Cons.IH [of "extend a r"] Cons.prems by (simp add: merge_loop_Cons bounded_extend)
  next
    case False
    then have "unat (EndLine a) + 1 < unat (StartLine r)" using Cons.prems by (simp add: touches_iff)
    then show ?thesis
      using Cons.IH [of r] Cons.prems False merge_loop_hd [of r rs] by (simp add: merge_loop_Cons separated_Cons)
  qed
qed simp

lemma sorted_starts: "sorted (map StartLine (sort_key range_key rs))"
proof -
  have "sorted (map fst (map range_key (sort_key range_key rs)))"
    by (rule sorted_wrt_map_mono [of "(\<le>)" "map range_key (sort_key range_key rs)" "(\<le>)" fst]) (auto simp: less_eq_prod_def)
  then show ?thesis by (simp add: comp_def)
qed

lemma mergeSourceLineRanges_lines:
  assumes "list_all valid_range rs"
  shows "lines_of (mergeSourceLineRanges rs) = lines_of rs"
proof (cases "sort_key range_key rs")
  case Nil
  then have "set rs = {}" using set_sort [of range_key rs] by simp
  then show ?thesis by (simp add: mergeSourceLineRanges_def)
next
  case (Cons r rest)
  then have same: "set (r # rest) = set rs" using set_sort [of range_key rs] by simp
  then have "lines_of (r # rest) = lines_of rs" unfolding lines_of_def by (rule arg_cong)
  moreover have "lines_of (merge_loop r rest) = lines_of (r # rest)"
  proof (rule merge_loop_lines)
    show "list_all valid_range (r # rest)" using assms same unfolding list_all_iff by blast
    show "sorted (map StartLine (r # rest))" using sorted_starts [of rs] Cons by simp
  qed
  ultimately show ?thesis using Cons by (simp add: mergeSourceLineRanges_def)
qed

lemma mergeSourceLineRanges_separated:
  assumes "list_all bounded_range rs"
  shows "separated (mergeSourceLineRanges rs) \<and> list_all bounded_range (mergeSourceLineRanges rs)"
proof (cases "sort_key range_key rs")
  case Nil then show ?thesis by (simp add: mergeSourceLineRanges_def)
next
  case (Cons r rest)
  then have "set (r # rest) = set rs" using set_sort [of range_key rs] by simp
  then have "list_all bounded_range (r # rest)" using assms unfolding list_all_iff by blast
  from merge_loop_separated [OF this] Cons show ?thesis by (simp add: mergeSourceLineRanges_def)
qed

section \<open>Context around lines and ranges\<close>

text \<open>Taking away or adding at most what is left never wraps.\<close>

lemma unat_min: "unat (min a b) = min (unat a) (unat b)"
  by (simp add: min_def word_le_nat_alt)

lemma unat_minus_one: "unat (- 1 :: 'a :: len word) = 2 ^ LENGTH('a) - 1"
  by (simp add: unsigned_minus_1_eq_mask mask_eq_exp_minus_1)

lemma unat_sub_min: "0 < a \<Longrightarrow> unat (a - min (a - 1) k) = unat a - min (unat a - 1) (unat k)"
  for a :: "'a :: len word"
proof -
  assume "0 < a"
  then have "1 \<le> a" by (simp add: word_gt_0 word_le_nat_alt unat_gt_0 Suc_leI)
  then have "unat (a - 1) = unat a - 1" by (simp add: unat_sub)
  then have "unat (min (a - 1) k) = min (unat a - 1) (unat k)" by (simp add: unat_min)
  moreover have "min (a - 1) k \<le> a"
    using \<open>unat (a - 1) = unat a - 1\<close> by (simp add: word_le_nat_alt unat_min)
  ultimately show ?thesis by (simp add: unat_sub)
qed

lemma unat_add_min: "unat (a + min (- 1 - a) k) = unat a + min (2 ^ LENGTH('a) - 1 - unat a) (unat k)"
  for a :: "'a :: len word"
proof -
  have "unat (- 1 - a) = 2 ^ LENGTH('a) - 1 - unat a"
    by (simp add: unat_sub unat_minus_one)
  then have "unat (min (- 1 - a) k) = min (2 ^ LENGTH('a) - 1 - unat a) (unat k)" by (simp add: unat_min)
  moreover have "unat a < 2 ^ LENGTH('a)" by (rule unsigned_less)
  then have "unat a + min (2 ^ LENGTH('a) - 1 - unat a) (unat k) < 2 ^ LENGTH('a)" by linarith
  ultimately show ?thesis by (subst unat_plus_if') simp
qed

definition room :: "nat \<Rightarrow> uint32 \<Rightarrow> bool" where
  "room n l \<longleftrightarrow> 0 < l \<and> unat l + n < 2 ^ 32 - 1"

lemma not_max_iff: "(a :: uint32) \<noteq> - 1 \<longleftrightarrow> unat a < 2 ^ 32 - 1"
proof -
  have "a = - 1 \<longleftrightarrow> unat a = 2 ^ 32 - 1"
    using unat_minus_one [where 'a = 32] by (simp add: word_unat_eq_iff)
  moreover have "unat a < 2 ^ 32" using unsigned_less [of a] by simp
  ultimately show ?thesis by linarith
qed

lemma sample_range_nat:
  assumes "0 < l"
  shows "unat (StartLine (sourceLineRangeForSampleLine l MaxUint32)) = unat l - min (unat l - 1) 10"
    and "unat (EndLine (sourceLineRangeForSampleLine l MaxUint32)) = unat l + min (2 ^ 32 - 1 - unat l) 10"
  using unat_sub_min [OF assms, of 10] unat_add_min [of l 10]
  by (simp_all add: sourceLineRangeForSampleLine_def sourceWindowsContextLines_def)

lemma sample_range_in: "0 < l \<Longrightarrow> inRange (sourceLineRangeForSampleLine l MaxUint32) l"
  using sample_range_nat [of l] by (simp add: inRange_def word_less_nat_alt min_def)

lemma sample_range_valid: "0 < l \<Longrightarrow> valid_range (sourceLineRangeForSampleLine l MaxUint32)"
  using sample_range_nat [of l] by (auto simp: valid_range_def word_less_nat_alt word_le_nat_alt min_def)

lemma sample_range_room:
  assumes "room (n + 10) l"
  shows "room n (EndLine (sourceLineRangeForSampleLine l MaxUint32)) \<and> bounded_range (sourceLineRangeForSampleLine l MaxUint32)"
proof -
  have "unat (EndLine (sourceLineRangeForSampleLine l MaxUint32)) = unat l + 10"
    using assms sample_range_nat(2) [of l] by (auto simp: room_def min_def)
  then show ?thesis
    using assms sample_range_valid [of l] by (simp add: room_def bounded_range_def not_max_iff word_less_nat_alt)
qed

definition widen :: "sourceLineRange \<Rightarrow> sourceLineRange" where
  "widen r = r\<lparr>StartLine := StartLine r - min (StartLine r - 1) 90, EndLine := EndLine r + min (MaxUint32 - EndLine r) 90\<rparr>"

lemma widen_nat:
  assumes "valid_range r"
  shows "unat (StartLine (widen r)) = unat (StartLine r) - min (unat (StartLine r) - 1) 90"
    and "unat (EndLine (widen r)) = unat (EndLine r) + min (2 ^ 32 - 1 - unat (EndLine r)) 90"
  using unat_sub_min [of "StartLine r" 90] unat_add_min [of "EndLine r" 90] assms
  by (simp_all add: widen_def valid_range_def)

lemma widen_valid: "valid_range r \<Longrightarrow> valid_range (widen r) \<and> {StartLine r..EndLine r} \<subseteq> {StartLine (widen r)..EndLine (widen r)}"
  using widen_nat [of r] by (auto simp: valid_range_def word_less_nat_alt word_le_nat_alt min_def)

lemma widen_room:
  assumes "valid_range r" "room 90 (EndLine r)"
  shows "bounded_range (widen r)"
proof -
  have "unat (EndLine (widen r)) = unat (EndLine r) + 90"
    using assms widen_nat(2) [of r] by (auto simp: room_def min_def)
  then show ?thesis using assms widen_valid [of r] by (simp add: room_def bounded_range_def not_max_iff)
qed

section \<open>The selected lines\<close>

abbreviation samples_of :: "sourceWindowSampleLineRow \<Rightarrow> nat" where
  "samples_of s \<equiv> unat (periodicSamples s)"

definition total_of :: "sourceWindowSampleLineRow list \<Rightarrow> nat" where
  "total_of rows = sum_list (map samples_of rows)"

definition selected_total :: "sourceWindowSampleLineRow list \<Rightarrow> bool list \<Rightarrow> nat" where
  "selected_total rows sel = sum_list (map2 (\<lambda>s b. if b then samples_of s else 0) rows sel)"

lemma selected_total_le: "selected_total rows sel \<le> total_of rows"
proof (induction rows arbitrary: sel)
  case (Cons s rows) then show ?case by (cases sel) (auto simp: selected_total_def total_of_def add_mono trans_le_add2)
qed (simp add: selected_total_def)

lemma selected_total_filter: "total_of (map fst (filter snd (zip rows sel))) = selected_total rows sel"
  unfolding total_of_def selected_total_def by (induction rows sel rule: list_induct2') auto

lemma selected_total_all: "length sel = length rows \<Longrightarrow> \<forall>i < length rows. sel ! i \<Longrightarrow> selected_total rows sel = total_of rows"
proof (induction rows arbitrary: sel)
  case (Cons s rows)
  then obtain b bs where "sel = b # bs" by (cases sel) auto
  moreover have "b" "\<forall>i < length rows. bs ! i" using Cons.prems \<open>sel = b # bs\<close> by force+
  ultimately show ?case using Cons by (simp add: selected_total_def total_of_def)
qed (simp add: selected_total_def total_of_def)

lemma selected_total_none [simp]: "selected_total rows (replicate (length rows) False) = 0"
  by (induction rows) (auto simp: selected_total_def)

lemma selected_total_update:
  assumes "i < length rows" "length sel = length rows" "\<not> sel ! i"
  shows "selected_total rows (sel[i := True]) = selected_total rows sel + samples_of (rows ! i)"
  using assms
proof (induction rows arbitrary: sel i)
  case (Cons s rows)
  then obtain b bs where "sel = b # bs" by (cases sel) auto
  then show ?case using Cons by (cases i) (auto simp: selected_total_def)
qed simp

text \<open>What adding the lines of a range does to the marks and to the count.\<close>

definition indexed :: "sourceWindowSampleLineRow list \<Rightarrow> (nat \<times> sourceWindowSampleLineRow) list \<Rightarrow> bool" where
  "indexed rows ls \<longleftrightarrow> list_all (\<lambda>(i, s). i < length rows \<and> rows ! i = s) ls"

lemma add_loop_selects:
  assumes "add_loop r ls sel added = (added', sel')" "sorted (map (lineNo \<circ> snd) ls)" "indexed rows ls" "length sel = length rows"
  shows "length sel' = length rows \<and>
         (\<forall>i < length rows. sel' ! i \<longleftrightarrow> sel ! i \<or> (\<exists>s. (i, s) \<in> set ls \<and> \<not> lineNo s > EndLine r))"
  using assms
proof (induction r ls sel added rule: add_loop.induct)
  case (2 r i s rest sel added)
  have tail: "sorted (map (lineNo \<circ> snd) rest)" "indexed rows rest" "i < length rows"
    using "2.prems"(2,3) by (auto simp: indexed_def comp_def)
  consider "lineNo s > EndLine r" | "\<not> lineNo s > EndLine r" "sel ! i" | "\<not> lineNo s > EndLine r" "\<not> sel ! i" by blast
  then show ?case
  proof cases
    case 1
    have "EndLine r < lineNo t" if "(j, t) \<in> set ((i, s) # rest)" for j t
      using that 1 "2.prems"(2) by (force intro: less_le_trans)
    then show ?thesis using 1 "2.prems"(1,4) by auto
  next
    case 2
    then show ?thesis using "2.IH"(1) [OF 2] "2.prems" tail by auto
  next
    case 3
    then show ?thesis using "2.IH"(2) [OF 3] "2.prems" tail by (auto simp: nth_list_update)
  qed
qed auto

lemma add_loop_counts:
  assumes "add_loop r ls sel added = (added', sel')" "indexed rows ls" "length sel = length rows"
    and "unat added + (total_of rows - selected_total rows sel) < 2 ^ 64"
  shows "unat added' + selected_total rows sel = unat added + selected_total rows sel'"
  using assms
proof (induction r ls sel added rule: add_loop.induct)
  case (2 r i s rest sel added)
  have i: "i < length rows" "rows ! i = s" "indexed rows rest" using "2.prems"(2) by (auto simp: indexed_def)
  consider "lineNo s > EndLine r" | "\<not> lineNo s > EndLine r" "sel ! i" | "\<not> lineNo s > EndLine r" "\<not> sel ! i" by blast
  then show ?case
  proof cases
    case 1 then show ?thesis using "2.prems"(1) by simp
  next
    case 2 then show ?thesis using "2.IH"(1) [OF 2] "2.prems" i by simp
  next
    case 3
    have upd: "selected_total rows (sel[i := True]) = selected_total rows sel + samples_of s"
      using selected_total_update [OF i(1) "2.prems"(3) 3(2)] i(2) by simp
    have le: "selected_total rows sel + samples_of s \<le> total_of rows"
      using selected_total_le [of rows "sel[i := True]"] upd by simp
    then have "unat added + samples_of s < 2 ^ 64" using "2.prems"(4) by linarith
    then have "unat (added + periodicSamples s) = unat added + samples_of s"
      by (subst unat_plus_if') simp
    then show ?thesis using "2.IH"(2) [OF 3] "2.prems" i upd le 3 by simp
  qed
qed auto

lemma set_file_lines:
  "(i, s) \<in> set (sourceSampleLinesByFileID rows f) \<longleftrightarrow> i < length rows \<and> rows ! i = s \<and> sourceFileID s = f"
  by (auto simp: sourceSampleLinesByFileID_def in_set_enumerate_eq)

lemma sorted_file_lines: "sorted (map (lineNo \<circ> snd) (sourceSampleLinesByFileID rows f))"
proof -
  have "sorted (map (\<lambda>(i, s). lineNo s) (sourceSampleLinesByFileID rows f))"
    unfolding sourceSampleLinesByFileID_def by (rule sorted_sort_key)
  then show ?thesis by (simp add: comp_def case_prod_beta')
qed

lemma sorted_dropWhile_ge:
  assumes "sorted (map g xs)" "x \<in> set (dropWhile (\<lambda>x. \<not> k \<le> g x) xs)"
  shows "k \<le> (g x :: 'b :: linorder)"
  using assms by (induction xs) (auto split: if_splits intro: order_trans)

lemma in_dropWhile: "x \<in> set xs \<Longrightarrow> \<not> P x \<Longrightarrow> x \<in> set (dropWhile P xs)"
  by (induction xs) auto

lemma add_in_range:
  assumes "addSourceSampleLinesInRange (sourceSampleLinesByFileID rows f) r sel = (added, sel')"
    and "length sel = length rows" "total_of rows < 2 ^ 64"
  shows "length sel' = length rows \<and>
         (\<forall>i < length rows. sel' ! i \<longleftrightarrow> sel ! i \<or> (sourceFileID (rows ! i) = f \<and> inRange r (lineNo (rows ! i)))) \<and>
         unat added + selected_total rows sel = selected_total rows sel'"
proof -
  let ?P = "\<lambda>(i, s). \<not> StartLine r \<le> lineNo s"
  let ?ls = "dropWhile ?P (sourceSampleLinesByFileID rows f)"
  have run: "add_loop r ?ls sel 0 = (added, sel')" using assms(1) by (simp add: addSourceSampleLinesInRange_def)
  have sub: "set ?ls \<subseteq> set (sourceSampleLinesByFileID rows f)" by (rule set_dropWhileD [THEN subsetI])
  have P: "?P = (\<lambda>x. \<not> StartLine r \<le> (lineNo \<circ> snd) x)" by auto
  have ls: "(i, s) \<in> set ?ls \<longleftrightarrow> i < length rows \<and> rows ! i = s \<and> sourceFileID s = f \<and> StartLine r \<le> lineNo s" for i s
    using sub set_file_lines [of i s rows f] in_dropWhile [of "(i, s)" "sourceSampleLinesByFileID rows f" ?P]
      sorted_dropWhile_ge [OF sorted_file_lines [of rows f], of "(i, s)" "StartLine r"] unfolding P by auto
  have sorted: "sorted (map (lineNo \<circ> snd) ?ls)"
    using sorted_file_lines [of rows f] by (metis dropWhile_eq_drop drop_map sorted_wrt_drop)
  have idx: "indexed rows ?ls" using ls by (auto simp: indexed_def list_all_iff)
  have "length sel' = length rows \<and>
         (\<forall>i < length rows. sel' ! i \<longleftrightarrow> sel ! i \<or> (\<exists>s. (i, s) \<in> set ?ls \<and> \<not> lineNo s > EndLine r))"
    by (rule add_loop_selects [OF run sorted idx assms(2)])
  moreover have "unat added + selected_total rows sel = unat (0 :: uint64) + selected_total rows sel'"
    by (rule add_loop_counts [OF run idx assms(2)]) (use assms(3) in simp)
  ultimately show ?thesis unfolding ls by (auto simp: inRange_def not_less)
qed

text \<open>A marked line is in the context of a hot line of its file.\<close>

definition near_hot :: "sourceWindowSampleLineRow list \<Rightarrow> sourceWindowSampleLineRow \<Rightarrow> bool" where
  "near_hot hot s \<longleftrightarrow>
     (\<exists>h \<in> set hot. sourceFileID h = sourceFileID s \<and> inRange (sourceLineRangeForSampleLine (lineNo h) MaxUint32) (lineNo s))"

definition select_inv :: "sourceWindowSampleLineRow list \<Rightarrow> bool list \<Rightarrow> sourceWindowSampleLineRow list \<Rightarrow> bool" where
  "select_inv rows sel hot \<longleftrightarrow>
     length sel = length rows \<and> (\<forall>i < length rows. sel ! i \<longleftrightarrow> near_hot hot (rows ! i)) \<and> set hot \<subseteq> set rows"

lemma near_hot_append: "near_hot (hot @ [h]) s \<longleftrightarrow> near_hot hot s \<or>
    (sourceFileID h = sourceFileID s \<and> inRange (sourceLineRangeForSampleLine (lineNo h) MaxUint32) (lineNo s))"
  by (auto simp: near_hot_def)

lemma select_loop_inv:
  assumes "select_loop rows target todo sel hot inWindows = (sel', hot')"
    and "select_inv rows sel hot" "unat inWindows = selected_total rows sel" "set todo \<subseteq> set rows" "total_of rows < 2 ^ 64"
  shows "select_inv rows sel' hot' \<and> set hot \<subseteq> set hot' \<and> (set todo \<subseteq> set hot' \<or> target \<le> float64 (selected_total rows sel'))"
  using assms
proof (induction rows target todo sel hot inWindows rule: select_loop.induct)
  case (2 rows target s ss sel hot inWindows)
  show ?case
  proof (cases "target \<le> float64 (unat inWindows)")
    case True then show ?thesis using 2 by simp
  next
    case False
    obtain added sel1 where add: "addSourceSampleLinesInRange (sourceSampleLinesByFileID rows (sourceFileID s))
        (sourceLineRangeForSampleLine (lineNo s) MaxUint32) sel = (added, sel1)" by (metis surj_pair)
    have sel1: "length sel1 = length rows"
      "\<forall>i < length rows. sel1 ! i \<longleftrightarrow> sel ! i \<or>
         (sourceFileID (rows ! i) = sourceFileID s \<and> inRange (sourceLineRangeForSampleLine (lineNo s) MaxUint32) (lineNo (rows ! i)))"
      "unat added + selected_total rows sel = selected_total rows sel1"
      using add_in_range [OF add _ "2.prems"(5)] "2.prems"(2) by (auto simp: select_inv_def)
    have "select_inv rows sel1 (hot @ [s])"
      using "2.prems"(2,4) sel1(1,2) by (auto simp: select_inv_def near_hot_append)
    moreover have "unat (inWindows + added) = selected_total rows sel1"
    proof -
      have "unat inWindows + unat added < 2 ^ 64"
        using sel1(3) "2.prems"(3,5) selected_total_le [of rows sel1] by linarith
      then show ?thesis using sel1(3) "2.prems"(3) by (subst unat_plus_if') simp
    qed
    moreover have "select_loop rows target ss sel1 (hot @ [s]) (inWindows + added) = (sel', hot')"
      using "2.prems"(1) False add by simp
    ultimately show ?thesis
      using "2.IH" [OF False add [symmetric] refl] "2.prems"(4,5) by auto
  qed
qed simp

text \<open>Every line in an SQL row has a positive number (\<open>p.line_no > 0\<close>).\<close>

definition positive_lines :: "sourceWindowSampleLineRow list \<Rightarrow> bool" where
  "positive_lines rows = list_all (\<lambda>s. 0 < lineNo s) rows"

lemma select_result:
  assumes "selectSourceWindowSampleLines rows n = (filtered, hot)"
    and "unat n = total_of rows" "total_of rows < 2 ^ 46" "positive_lines rows"
  shows "set hot \<subseteq> set rows \<and> filtered = filter (near_hot hot) rows \<and> 99 * total_of rows \<le> 100 * total_of filtered"
proof (cases "n = 0")
  case True
  then have "filtered = [] \<and> hot = []" "total_of rows = 0" using assms(1,2) by (auto simp: selectSourceWindowSampleLines_def)
  then show ?thesis by (simp add: near_hot_def)
next
  case False
  let ?t = "percent_of 99 (unat n)"
  obtain sel hot' where run: "select_loop rows ?t rows (replicate (length rows) False) [] 0 = (sel, hot')"
    by (metis surj_pair)
  have small: "total_of rows < 2 ^ 64" using assms(3) by simp
  have inv: "select_inv rows sel hot'" "set rows \<subseteq> set hot' \<or> ?t \<le> float64 (selected_total rows sel)"
    using select_loop_inv [OF run _ _ _ small] by (auto simp: select_inv_def near_hot_def)
  have len: "length sel = length rows" using inv(1) by (simp add: select_inv_def)
  have sel_filter: "map fst (filter snd (zip rows sel)) = filter (near_hot hot') rows"
  proof -
    have "sel = map (near_hot hot') rows"
      using inv(1) by (intro nth_equalityI) (auto simp: select_inv_def)
    then show ?thesis by (simp add: zip_map2 filter_map comp_def zip_same_conv_map)
  qed
  have cover: "99 * total_of rows \<le> 100 * selected_total rows sel"
    using inv(2)
  proof
    assume "set rows \<subseteq> set hot'"
    then have "\<forall>i < length rows. sel ! i"
      using inv(1) assms(4) sample_range_in by (fastforce simp: select_inv_def near_hot_def positive_lines_def list_all_iff)
    then show ?thesis using selected_total_all len by simp
  next
    assume "?t \<le> float64 (selected_total rows sel)"
    then show ?thesis
      using percent_of_le [of "total_of rows" 99 "selected_total rows sel"] selected_total_le [of rows sel] assms(2,3) by simp
  qed
  have ne: "hot' \<noteq> []"
  proof
    assume "hot' = []"
    then have "\<forall>i < length rows. \<not> sel ! i" using inv(1) by (simp add: select_inv_def near_hot_def)
    then have "sel = replicate (length rows) False" using len by (intro nth_equalityI) auto
    then have "total_of rows = 0" using cover by simp
    then show False using False assms(2) by (simp add: unat_eq_0)
  qed
  have "filtered = map fst (filter snd (zip rows sel)) \<and> hot = hot'"
    using assms(1) run ne False by (simp add: selectSourceWindowSampleLines_def sourceWindowsCoverageThresholdPercent_def)
  then show ?thesis using sel_filter cover inv(1) selected_total_filter [of rows sel] by (simp add: select_inv_def)
qed

section \<open>The ranges of a file\<close>

lemma merge_loop_keeps:
  assumes "list_all valid_range (a # rs) \<and> list_all (P \<circ> EndLine) (a # rs)"
  shows "list_all valid_range (merge_loop a rs) \<and> list_all (P \<circ> EndLine) (merge_loop a rs)"
  using assms
proof (induction rs arbitrary: a)
  case (Cons r rs)
  have "valid_range (extend a r) \<and> P (EndLine (extend a r))" using Cons.prems valid_extend by (simp add: max_def)
  then show ?case using Cons.IH [of "extend a r"] Cons.IH [of r] Cons.prems by (simp add: merge_loop_Cons)
qed simp

lemma mergeSourceLineRanges_keeps:
  assumes "list_all valid_range rs" "list_all (P \<circ> EndLine) rs"
  shows "list_all valid_range (mergeSourceLineRanges rs) \<and> list_all (P \<circ> EndLine) (mergeSourceLineRanges rs)"
proof (cases "sort_key range_key rs")
  case Nil then show ?thesis by (simp add: mergeSourceLineRanges_def)
next
  case (Cons r rest)
  then have "set (r # rest) = set rs" using set_sort [of range_key rs] by simp
  then have "list_all valid_range (r # rest) \<and> list_all (P \<circ> EndLine) (r # rest)" using assms unfolding list_all_iff by blast
  from merge_loop_keeps [OF this] Cons show ?thesis by (simp add: mergeSourceLineRanges_def)
qed

text \<open>The ranges of a file: around its hot lines, then widened.\<close>

definition fileRanges ::
  "sourceWindowSampleLineRow list \<Rightarrow> sourceWindowSampleLineRow list \<Rightarrow> uint64 \<Rightarrow> sourceLineRange list" where
  "fileRanges hotLines fileLines totalSamples =
     widenHotSourceLineRanges (sourceLineRangesForSampleLines hotLines MaxUint32) fileLines totalSamples MaxUint32"

lemma hot_ranges:
  assumes "positive_lines hotLines"
  shows "list_all valid_range (sourceLineRangesForSampleLines hotLines MaxUint32) \<and>
         lines_of (sourceLineRangesForSampleLines hotLines MaxUint32) =
           (\<Union>h \<in> set hotLines. {l. inRange (sourceLineRangeForSampleLine (lineNo h) MaxUint32) l})"
proof -
  let ?rs = "map (\<lambda>s. sourceLineRangeForSampleLine (lineNo s) MaxUint32) hotLines"
  have eq: "sourceLineRangesForSampleLines hotLines MaxUint32 = mergeSourceLineRanges ?rs"
    by (simp add: sourceLineRangesForSampleLines_def not_less)
  have valid: "list_all valid_range ?rs" using assms sample_range_valid by (auto simp: positive_lines_def list_all_iff)
  have "lines_of ?rs = (\<Union>h \<in> set hotLines. {l. inRange (sourceLineRangeForSampleLine (lineNo h) MaxUint32) l})"
    by (auto simp: in_lines_of)
  then show ?thesis
    unfolding eq using mergeSourceLineRanges_lines [OF valid] mergeSourceLineRanges_keeps [OF valid, of "\<lambda>_. True"]
    by (simp add: list_all_iff)
qed

definition widen_hot :: "sourceWindowSampleLineRow list \<Rightarrow> uint64 \<Rightarrow> sourceLineRange \<Rightarrow> sourceLineRange" where
  "widen_hot fileLines n r =
     (if float64 (unat (sourceWindowSamples r fileLines)) \<ge> percent_of 5 (unat n) then widen r else r)"

lemma widenHot_map:
  "widenHotSourceLineRanges rs fileLines n MaxUint32 =
     (if rs = [] \<or> n = 0 then rs else mergeSourceLineRanges (map (widen_hot fileLines n) rs))"
  by (simp add: widenHotSourceLineRanges_def widen_hot_def [abs_def] widen_def Let_def sourceWindowsHotWindowThresholdPercent_def
      sourceWindowsHotWindowContextLines_def sourceWindowsContextLines_def cong: if_cong)

lemma widenHot_lines:
  assumes "list_all valid_range rs"
  shows "lines_of rs \<subseteq> lines_of (widenHotSourceLineRanges rs fileLines n MaxUint32)"
proof -
  have f: "valid_range (widen_hot fileLines n r) \<and>
      {StartLine r..EndLine r} \<subseteq> {StartLine (widen_hot fileLines n r)..EndLine (widen_hot fileLines n r)}" if "r \<in> set rs" for r
    using that assms widen_valid [of r] by (auto simp: list_all_iff widen_hot_def)
  then have "list_all valid_range (map (widen_hot fileLines n) rs)" by (auto simp: list_all_iff)
  then have "lines_of (mergeSourceLineRanges (map (widen_hot fileLines n) rs)) = lines_of (map (widen_hot fileLines n) rs)"
    by (rule mergeSourceLineRanges_lines)
  moreover have "lines_of rs \<subseteq> lines_of (map (widen_hot fileLines n) rs)"
    using f unfolding lines_of_def set_map by blast
  ultimately show ?thesis by (simp add: widenHot_map)
qed

text \<open>Lines far enough from the largest number; then ranges never end there.\<close>

definition ordinary_lines :: "sourceWindowSampleLineRow list \<Rightarrow> bool" where
  "ordinary_lines rows = list_all (\<lambda>s. room 100 (lineNo s)) rows"

lemma ordinary_positive: "ordinary_lines rows \<Longrightarrow> positive_lines rows"
  by (auto simp: ordinary_lines_def positive_lines_def room_def list_all_iff)

lemma hot_ranges_bounded:
  assumes "ordinary_lines hotLines"
  shows "separated (sourceLineRangesForSampleLines hotLines MaxUint32) \<and>
         list_all bounded_range (sourceLineRangesForSampleLines hotLines MaxUint32) \<and>
         list_all (room 90 \<circ> EndLine) (sourceLineRangesForSampleLines hotLines MaxUint32)"
proof -
  let ?rs = "map (\<lambda>s. sourceLineRangeForSampleLine (lineNo s) MaxUint32) hotLines"
  have eq: "sourceLineRangesForSampleLines hotLines MaxUint32 = mergeSourceLineRanges ?rs"
    by (simp add: sourceLineRangesForSampleLines_def not_less)
  have "bounded_range (sourceLineRangeForSampleLine (lineNo s) MaxUint32) \<and>
      room 90 (EndLine (sourceLineRangeForSampleLine (lineNo s) MaxUint32))" if "s \<in> set hotLines" for s
    using that assms sample_range_room [of 90 "lineNo s"] by (auto simp: ordinary_lines_def list_all_iff)
  then have rs: "list_all bounded_range ?rs" "list_all valid_range ?rs" "list_all (room 90 \<circ> EndLine) ?rs"
    by (auto simp: list_all_iff bounded_range_def)
  show ?thesis
    unfolding eq using mergeSourceLineRanges_separated [OF rs(1)] mergeSourceLineRanges_keeps [OF rs(2,3)] by blast
qed

lemma fileRanges_separated:
  assumes "ordinary_lines hotLines"
  shows "separated (fileRanges hotLines fileLines n) \<and> list_all bounded_range (fileRanges hotLines fileLines n)"
proof -
  let ?rs = "sourceLineRangesForSampleLines hotLines MaxUint32"
  note rs = hot_ranges_bounded [OF assms]
  have "bounded_range (widen_hot fileLines n r)" if "r \<in> set ?rs" for r
    using that rs widen_room [of r] by (auto simp: list_all_iff bounded_range_def [of r] widen_hot_def)
  then have "list_all bounded_range (map (widen_hot fileLines n) ?rs)" by (auto simp: list_all_iff)
  from mergeSourceLineRanges_separated [OF this] rs show ?thesis by (simp add: fileRanges_def widenHot_map)
qed

lemma fileRanges_near_hot:
  assumes "positive_lines hot" "near_hot hot s"
  shows "lineNo s \<in> lines_of (fileRanges (linesOfFile hot (sourceFileID s)) fileLines n)"
proof -
  have "positive_lines (linesOfFile hot (sourceFileID s))"
    using assms(1) by (auto simp: positive_lines_def linesOfFile_def list_all_iff)
  from hot_ranges [OF this] widenHot_lines assms(2) show ?thesis
    unfolding fileRanges_def near_hot_def linesOfFile_def by fastforce
qed

text \<open>
  At the largest line number \<open>last.EndLine+1\<close> wraps to zero: ranges that overlap there are not merged, and
  a line in both is counted twice.
\<close>

lemma merge_wraps:
  "let rows = [\<lparr>sourceFileID = 1, hostLocation = [], targetLocation = [], lineNo = - 6, isInlined = False, periodicSamples = 7\<rparr>,
               \<lparr>sourceFileID = 1, hostLocation = [], targetLocation = [], lineNo = - 4, isInlined = False, periodicSamples = 5\<rparr>];
       ranges = sourceLineRangesForSampleLines rows MaxUint32
   in map range_key ranges = [(- 16, - 1), (- 14, - 1)] \<and> map (\<lambda>r. sourceWindowSamples r rows) ranges = [12, 12]"
  by code_simp

end
