(* ===== verification/SourceWindows.thy ===== *)
theory SourceWindows
  imports Insights SourceContent SourceRanges "HOL-Library.Multiset"
begin

text \<open>
  The windows summarizer of insights/source\_window.go: the ranges of \<open>SourceRanges\<close> are filled with the
  text that \<open>SourceContent\<close> fetches, or say why it is unavailable, and the windows that fit the byte limit
  are kept, hottest first. The maps of the code are iterated in an order that is an argument.

  Main results: the windows hold at least 99 percent of the samples and count none twice
  (\<open>windows_cover\<close>); the kept windows are the longest prefix that fits (\<open>budget_keeps_longest\<close>); the
  order in which maps are iterated does not show (\<open>payload_order_irrelevant\<close>).
\<close>

section \<open>The prompt\<close>

definition sourceWindowsSummaryName :: string where
  "sourceWindowsSummaryName = ''source_windows''"

definition sourceUnavailabilityReasonMissingHostMapping :: string where
  "sourceUnavailabilityReasonMissingHostMapping = ''missing_host_source_mapping''"

definition sourceUnavailabilityReasonFailedHostPath :: string where
  "sourceUnavailabilityReasonFailedHostPath = ''failed_host_source_path''"

definition sourceUnavailabilityReasonMismatchedHostPath :: string where
  "sourceUnavailabilityReasonMismatchedHostPath = ''mismatched_host_source_path''"

definition sourceUnavailabilityReasonFailedTargetPath :: string where
  "sourceUnavailabilityReasonFailedTargetPath = ''failed_target_source_path''"

definition sourceUnavailabilityReasonMismatchedTargetPath :: string where
  "sourceUnavailabilityReasonMismatchedTargetPath = ''mismatched_target_source_path''"

definition sourceUnavailabilityReasonTargetAgentUnavailable :: string where
  "sourceUnavailabilityReasonTargetAgentUnavailable = ''target_agent_unavailable''"

definition sourceUnavailabilityReasonTargetNotReachable :: string where
  "sourceUnavailabilityReasonTargetNotReachable = ''target_not_reachable''"

record sourceUnavailabilityReasonMetadata =
  Code :: string
  Explanation :: string
  Advice :: string

definition sourceUnavailabilityReasonMetadataList :: "sourceUnavailabilityReasonMetadata list" where
  "sourceUnavailabilityReasonMetadataList =
    [\<lparr>Code = sourceUnavailabilityReasonMissingHostMapping,
      Explanation = ''no host source path mapping was found'',
      Advice = ''tell the user that setting host source paths containing the matching source tree and '' @
        ''regenerating insights may improve the result.''\<rparr>,
     \<lparr>Code = sourceUnavailabilityReasonFailedHostPath,
      Explanation = ''the mapped host source path could not be read or was empty'',
      Advice = ''tell the user that setting a readable host path for the matching source file and '' @
        ''regenerating insights may improve the result.''\<rparr>,
     \<lparr>Code = sourceUnavailabilityReasonMismatchedHostPath,
      Explanation = ''the mapped host source file does not cover the sampled source lines'',
      Advice = ''tell the user that setting host source paths to the matching source tree and '' @
        ''regenerating insights may improve the result.''\<rparr>,
     \<lparr>Code = sourceUnavailabilityReasonFailedTargetPath,
      Explanation = ''the mapped target source path could not be read or was empty'',
      Advice = ''tell the user that the target source path could not be found and a working source path '' @
        ''may improve the result.''\<rparr>,
     \<lparr>Code = sourceUnavailabilityReasonMismatchedTargetPath,
      Explanation = ''the mapped target source file does not cover the sampled source lines'',
      Advice = ''tell the user that checking the target source files match the binaries used for the run '' @
        ''may improve the result.''\<rparr>,
     \<lparr>Code = sourceUnavailabilityReasonTargetAgentUnavailable,
      Explanation = ''the target was reachable but the target agent needed to fetch source text was '' @
        ''unavailable'',
      Advice = ''tell the user that preparing the target and regenerating insights may improve the '' @
        ''result.''\<rparr>,
     \<lparr>Code = sourceUnavailabilityReasonTargetNotReachable,
      Explanation = ''the target source path could not be checked because the target was not reachable'',
      Advice = ''tell the user that making the target reachable, preparing it, and regenerating insights '' @
        ''may improve the result.''\<rparr>]"

definition formatSourceUnavailabilityReasonMetadata :: "sourceUnavailabilityReasonMetadata list \<Rightarrow> string" where
  "formatSourceUnavailabilityReasonMetadata items =
     Join (map (\<lambda>item. ''- `'' @ Code item @ ''`: Explanation: '' @ Explanation item @ ''. Advice: '' @ Advice item) items)
       [newline]"

definition sourceWindowsPromptFragment :: string where
  "sourceWindowsPromptFragment =
     ''Source windows around the source lines with the most periodic samples. Source lines are '' @
     ''selected across the whole run until the expanded windows cover the 99% cumulative '' @
     ''source-line sample threshold. Windows containing at least 5% of total source-line '' @
     ''samples are widened to include up to 100 nearby source lines on either side. Remaining '' @
     ''windows include up to 10 nearby source lines on either side. The window list may be '' @
     ''truncated after ordering to fit the summary byte limit. Overlapping or adjacent source '' @
     ''windows are merged. Payload fields: total_source_line_samples=total sampled source-line '' @
     ''samples across the run, windows=source windows sorted by descending samples. Window '' @
     ''fields: file_id, path, start_line, end_line, samples, lines=optional annotated source '' @
     ''text where each line is formatted as '' @
     '''{sample_count:8}{inline_marker:1}{line_number:7}:{source_text}', '' @
     ''source_unavailable=optional list of status details when lines are unavailable; the '' @
     ''sample count field is blank for unsampled lines, or the count right-aligned in 8 '' @
     ''characters; the inline marker is 'i' if samples are attributed through inlining, '' @
     ''otherwise blank. Source unavailable entry fields: reason=why source text is '' @
     ''unavailable, path=optional searched source path. If an unavailable source window could '' @
     ''have significantly improved insights, mention the unavailable source path, reason, and '' @
     ''the matching user action. Reason codes:'' @
     [newline] @ formatSourceUnavailabilityReasonMetadata sourceUnavailabilityReasonMetadataList"

section \<open>Windows\<close>

record sourceUnavailability =
  Reason :: string
  suPath :: string

record sourceWindow =
  swFileID :: int
  swPath :: string
  swStart :: uint32
  swEnd :: uint32
  Samples :: uint64
  SourceLines :: "string list"
  SourceUnavailability :: "sourceUnavailability list"

record sourceWindowsPayload =
  TotalSourceLineSamples :: uint64
  Windows :: "sourceWindow list"

text \<open>The text of a file in lines: \<open>\r\n\<close> is a line end too, and a last line end begins no line.\<close>

fun ReplaceCRLF :: "string \<Rightarrow> string" where
  "ReplaceCRLF [] = []"
| "ReplaceCRLF [c] = [c]"
| "ReplaceCRLF (c # d # cs) =
     (if c = CHR 0x0D \<and> d = newline then newline # ReplaceCRLF cs else c # ReplaceCRLF (d # cs))"

definition TrimSuffix :: "string \<Rightarrow> string \<Rightarrow> string" where
  "TrimSuffix s p = (if HasSuffix s p then take (length s - length p) s else s)"

definition sourceContentLines :: "string \<Rightarrow> string list" where
  "sourceContentLines content = Split (TrimSuffix (ReplaceCRLF content) [newline]) newline"

definition reason_code :: "SourceFailureReason \<Rightarrow> string option" where
  "reason_code r =
     (case r of
        SourceFailureMissingHostMapping \<Rightarrow> Some sourceUnavailabilityReasonMissingHostMapping
      | SourceFailureHostPathFailed \<Rightarrow> Some sourceUnavailabilityReasonFailedHostPath
      | SourceFailureHostPathMismatched \<Rightarrow> Some sourceUnavailabilityReasonMismatchedHostPath
      | SourceFailureTargetPathFailed \<Rightarrow> Some sourceUnavailabilityReasonFailedTargetPath
      | SourceFailureTargetPathMismatched \<Rightarrow> Some sourceUnavailabilityReasonMismatchedTargetPath
      | SourceFailureTargetNotReachable \<Rightarrow> Some sourceUnavailabilityReasonTargetNotReachable
      | SourceFailureTargetAgentUnavailable \<Rightarrow> Some sourceUnavailabilityReasonTargetAgentUnavailable
      | SourceFailureNone \<Rightarrow> None)"

fun unavailability :: "SourceFileFailure list \<Rightarrow> sourceUnavailability list" where
  "unavailability [] = []"
| "unavailability (f # fs) =
     (case reason_code (sfReason f) of
        None \<Rightarrow> unavailability fs
      | Some reason \<Rightarrow> \<lparr>Reason = reason, suPath = sfPath f\<rparr> # unavailability fs)"

definition sourceUnavailabilityForFetchFailure :: "SourceFileContent \<Rightarrow> sourceUnavailability list" where
  "sourceUnavailabilityForFetchFailure result = unavailability (Failures result)"

text \<open>The file to fetch has to reach the last sampled line that is in one of its ranges.\<close>

definition minimumLines :: "sourceWindowSampleLineRow list \<Rightarrow> sourceLineRange list \<Rightarrow> uint32" where
  "minimumLines sampleLines lineRanges =
     foldl (\<lambda>m s. foldl (\<lambda>m r. if \<not> inRange r (lineNo s) then m else if lineNo s > m then lineNo s else m) m lineRanges)
       0 sampleLines"

definition sourceFileFor :: "sourceWindowSampleLineRow list \<Rightarrow> sourceLineRange list \<Rightarrow> SourceFile" where
  "sourceFileFor sampleLines lineRanges =
     \<lparr>Locations =
        \<lparr>slLocation = SourceLocationHost, slPath = hostLocation (hd sampleLines)\<rparr> #
        (if targetLocation (hd sampleLines) \<noteq> []
         then [\<lparr>slLocation = SourceLocationTarget, slPath = targetLocation (hd sampleLines)\<rparr>] else []),
      MinimumLineCount = unat (minimumLines sampleLines lineRanges)\<rparr>"

text \<open>
  \<open>loadSourceLinesByID\<close>; \<open>order\<close> is the order of the files of the map \<open>fileLines\<close>, each of which has a line.
  The results are the lines by file, and the reasons by file.
\<close>

definition loadSourceLinesByID ::
  "int list \<Rightarrow> (int \<Rightarrow> sourceWindowSampleLineRow list) \<Rightarrow> (int \<Rightarrow> sourceLineRange list) \<Rightarrow>
   (SourceFile list \<Rightarrow> SourceFileContent list) \<Rightarrow> (int \<times> string list) list \<times> (int \<times> sourceUnavailability list) list" where
  "loadSourceLinesByID order fileLines ranges fetchFiles =
     (let results = zip order (fetchFiles (map (\<lambda>f. sourceFileFor (fileLines f) (ranges f)) order))
      in (map (\<lambda>(f, r). (f, sourceContentLines (scContent r)))
            (filter (\<lambda>(f, r). slLocation (LoadedLocation r) \<noteq> []) results),
          filter (\<lambda>(f, u). u \<noteq> [])
            (map (\<lambda>(f, r). (f, sourceUnavailabilityForFetchFailure r))
               (filter (\<lambda>(f, r). slLocation (LoadedLocation r) = []) results))))"

section \<open>Building windows\<close>

definition padLeft :: "nat \<Rightarrow> string \<Rightarrow> string" where
  "padLeft n s = replicate (n - length s) (CHR '' '') @ s"

definition formatSourceLine :: "uint32 \<Rightarrow> string \<Rightarrow> uint64 \<Rightarrow> bool \<Rightarrow> string" where
  "formatSourceLine line txt samples inlined =
     (if samples = 0 then ''         '' @ padLeft 7 (nat_digits (unat line)) @ '':'' @ txt
      else if inlined then padLeft 8 (nat_digits (unat samples)) @ ''i'' @ padLeft 7 (nat_digits (unat line)) @ '':'' @ txt
      else padLeft 8 (nat_digits (unat samples)) @ '' '' @ padLeft 7 (nat_digits (unat line)) @ '':'' @ txt)"

text \<open>The annotation of a line is that of the last row for it; rows outside the range are left out.\<close>

definition annotation :: "sourceLineRange \<Rightarrow> sourceWindowSampleLineRow list \<Rightarrow> uint32 \<Rightarrow> uint64 \<times> bool" where
  "annotation r fileSampleLines line =
     (case find (\<lambda>s. inRange r (lineNo s) \<and> lineNo s = line) (rev fileSampleLines) of
        None \<Rightarrow> (0, False)
      | Some s \<Rightarrow> (periodicSamples s, isInlined s))"

text \<open>A line that the text does not have makes the index expression panic.\<close>

definition buildSourceWindow ::
  "int \<Rightarrow> string \<Rightarrow> sourceLineRange \<Rightarrow> sourceWindowSampleLineRow list \<Rightarrow> string list \<Rightarrow> insights_error + sourceWindow" where
  "buildSourceWindow fileID path r fileSampleLines sourceLines =
     (let lns = [unat (StartLine r)..<unat (EndLine r) + 1]
      in if list_ex (\<lambda>n. n = 0 \<or> length sourceLines < n) lns then Inl IndexOutOfRange
         else Inr \<lparr>swFileID = fileID, swPath = path, swStart = StartLine r, swEnd = EndLine r,
                   Samples = sourceWindowSamples r fileSampleLines,
                   SourceLines =
                     map (\<lambda>n. let (samples, inlined) = annotation r fileSampleLines (word_of_nat n)
                               in formatSourceLine (word_of_nat n) (sourceLines ! (n - 1)) samples inlined) lns,
                   SourceUnavailability = []\<rparr>)"

fun loaded_windows ::
  "int \<Rightarrow> string \<Rightarrow> sourceWindowSampleLineRow list \<Rightarrow> string list \<Rightarrow> uint32 \<Rightarrow> sourceLineRange list
   \<Rightarrow> insights_error + sourceWindow list" where
  "loaded_windows fileID path fileSampleLines sourceLines maxLine [] = Inr []"
| "loaded_windows fileID path fileSampleLines sourceLines maxLine (r # rs) =
     (if StartLine r > maxLine then loaded_windows fileID path fileSampleLines sourceLines maxLine rs
      else case buildSourceWindow fileID path (if EndLine r > maxLine then r\<lparr>EndLine := maxLine\<rparr> else r)
                  fileSampleLines sourceLines of
        Inl e \<Rightarrow> Inl e
      | Inr w \<Rightarrow>
         (case loaded_windows fileID path fileSampleLines sourceLines maxLine rs of
            Inl e \<Rightarrow> Inl e
          | Inr ws \<Rightarrow> Inr (w # ws)))"

definition file_windows ::
  "int \<Rightarrow> sourceWindowSampleLineRow list \<Rightarrow> sourceLineRange list \<Rightarrow> (int \<times> string list) list
   \<Rightarrow> (int \<times> sourceUnavailability list) list \<Rightarrow> insights_error + sourceWindow list" where
  "file_windows fileID fileSampleLines lineRanges sourceLinesByID unavailableByID =
     (if fileSampleLines = [] then Inl IndexOutOfRange
      else
        let path = (if targetLocation (hd fileSampleLines) = [] then hostLocation (hd fileSampleLines)
                    else targetLocation (hd fileSampleLines))
        in case map_of unavailableByID fileID of
             Some unavailable \<Rightarrow>
               Inr (map (\<lambda>r. \<lparr>swFileID = fileID, swPath = path, swStart = StartLine r, swEnd = EndLine r,
                               Samples = sourceWindowSamples r fileSampleLines, SourceLines = [],
                               SourceUnavailability = unavailable\<rparr>) lineRanges)
           | None \<Rightarrow>
               (case map_of sourceLinesByID fileID of
                  None \<Rightarrow> Inr []
                | Some sourceLines \<Rightarrow>
                    loaded_windows fileID path fileSampleLines sourceLines (word_of_nat (length sourceLines)) lineRanges))"

fun buildSourceWindows ::
  "int list \<Rightarrow> (int \<Rightarrow> sourceWindowSampleLineRow list) \<Rightarrow> (int \<Rightarrow> sourceLineRange list) \<Rightarrow> (int \<times> string list) list
   \<Rightarrow> (int \<times> sourceUnavailability list) list \<Rightarrow> insights_error + sourceWindow list" where
  "buildSourceWindows [] fileLines ranges sourceLinesByID unavailableByID = Inr []"
| "buildSourceWindows (f # fs) fileLines ranges sourceLinesByID unavailableByID =
     (case file_windows f (fileLines f) (ranges f) sourceLinesByID unavailableByID of
        Inl e \<Rightarrow> Inl e
      | Inr ws \<Rightarrow>
         (case buildSourceWindows fs fileLines ranges sourceLinesByID unavailableByID of
            Inl e \<Rightarrow> Inl e
          | Inr vs \<Rightarrow> Inr (ws @ vs)))"

section \<open>The byte limit\<close>

definition json_unavailability :: "sourceUnavailability \<Rightarrow> string" where
  "json_unavailability u =
     json_object ((''reason'', json_string (Reason u)) # (if suPath u = [] then [] else [(''path'', json_string (suPath u))]))"

definition json_sourceWindow :: "sourceWindow \<Rightarrow> string" where
  "json_sourceWindow w =
     json_object
       ([(''file_id'', Itoa (swFileID w)), (''path'', json_string (swPath w)),
         (''start_line'', nat_digits (unat (swStart w))), (''end_line'', nat_digits (unat (swEnd w))),
         (''samples'', nat_digits (unat (Samples w)))] @
        (if SourceLines w = [] then [] else [(''lines'', json_array (map json_string (SourceLines w)))]) @
        (if SourceUnavailability w = [] then []
         else [(''source_unavailable'', json_array (map json_unavailability (SourceUnavailability w)))]))"

definition json_sourceWindowsPayload :: "uint64 \<Rightarrow> sourceWindow list \<Rightarrow> string" where
  "json_sourceWindowsPayload n ws =
     json_object [(''total_source_line_samples'', nat_digits (unat n)), (''windows'', json_array (map json_sourceWindow ws))]"

definition sourceWindowsSummary :: "uint64 \<Rightarrow> sourceWindow list \<Rightarrow> insights_error + RunSummary" where
  "sourceWindowsSummary n ws =
     NewRunSummary sourceWindowsSummaryName sourceWindowsPromptFragment (Some (json_sourceWindowsPayload n ws))"

text \<open>Descending samples, then file and position.\<close>

definition window_key :: "sourceWindow \<Rightarrow> int \<times> int \<times> uint32 \<times> uint32" where
  "window_key w = (- int (unat (Samples w)), swFileID w, swStart w, swEnd w)"

definition budgetSourceWindowsPayload :: "sourceWindowsPayload \<Rightarrow> int \<Rightarrow> insights_error + sourceWindowsPayload" where
  "budgetSourceWindowsPayload payload byteLimit =
     (let n = TotalSourceLineSamples payload
      in case check_empty (sourceWindowsSummary n) sourceWindowsSummaryName byteLimit of
           Some e \<Rightarrow> Inl e
         | None \<Rightarrow>
            (case fit_windows (sourceWindowsSummary n) byteLimit [] (sort_key window_key (Windows payload)) of
               Inl e \<Rightarrow> Inl e
             | Inr ws \<Rightarrow> Inr \<lparr>TotalSourceLineSamples = n, Windows = ws\<rparr>))"

section \<open>The summarizer\<close>

definition selected_ids :: "sourceWindowSampleLineRow list \<Rightarrow> int set" where
  "selected_ids rows = sourceFileID ` set rows"

text \<open>
  All windows of a run before the byte limit; \<open>order\<close> and \<open>order'\<close> are the iteration orders of the maps
  \<open>fileLines\<close> and \<open>lineRangesByFileID\<close>.
\<close>

definition allSourceWindows ::
  "int list \<Rightarrow> int list \<Rightarrow> (SourceFile list \<Rightarrow> SourceFileContent list) \<Rightarrow> sourceWindowSampleLineRow list \<Rightarrow> uint64
   \<Rightarrow> insights_error + sourceWindow list" where
  "allSourceWindows order order' fetchFiles sampleLines n =
     (let (selected, hot) = selectSourceWindowSampleLines sampleLines n
      in if selected = [] then Inr []
         else
           let fileLines = (\<lambda>f. if f \<in> selected_ids selected then linesOfFile sampleLines f else []);
               ranges = (\<lambda>f. fileRanges (linesOfFile hot f) (fileLines f) n);
               (sourceLinesByID, unavailableByID) = loadSourceLinesByID order fileLines ranges fetchFiles
           in buildSourceWindows order' fileLines ranges sourceLinesByID unavailableByID)"

definition buildSourceWindowsPayload ::
  "int list \<Rightarrow> int list \<Rightarrow> (SourceFile list \<Rightarrow> SourceFileContent list) \<Rightarrow> sourceWindowSampleLineRow list \<Rightarrow> uint64 \<Rightarrow> int
   \<Rightarrow> insights_error + sourceWindowsPayload" where
  "buildSourceWindowsPayload order order' fetchFiles sampleLines n byteLimit =
     (case allSourceWindows order order' fetchFiles sampleLines n of
        Inl e \<Rightarrow> Inl e
      | Inr ws \<Rightarrow> budgetSourceWindowsPayload \<lparr>TotalSourceLineSamples = n, Windows = ws\<rparr> byteLimit)"

text \<open>Rows as the query gives them: \<open>None\<close> is a row that cannot be scanned, the flag an error at the end.\<close>

fun collect_rows ::
  "(sourceWindowSampleLineRow \<times> uint64) option list \<Rightarrow> sourceWindowSampleLineRow list \<Rightarrow> uint64
   \<Rightarrow> (sourceWindowSampleLineRow list \<times> uint64) option" where
  "collect_rows [] acc n = Some (acc, n)"
| "collect_rows (None # rows) acc n = None"
| "collect_rows (Some (row, rowTotal) # rows) acc n = collect_rows rows (acc @ [row]) rowTotal"

definition collectSourceSampleLineRows ::
  "(sourceWindowSampleLineRow \<times> uint64) option list \<Rightarrow> bool \<Rightarrow> insights_error + sourceWindowSampleLineRow list \<times> uint64" where
  "collectSourceSampleLineRows rows rowsErr =
     (case collect_rows rows [] 0 of
        None \<Rightarrow> Inl (RenderQueryFailed sourceWindowsSummaryName)
      | Some r \<Rightarrow> if rowsErr then Inl (RenderQueryFailed sourceWindowsSummaryName) else Inr r)"

definition resolveSourceWindowsTables :: "TableEntry list \<Rightarrow> insights_error + string list" where
  "resolveSourceWindowsTables entries =
     resolveSummaryTablesByComponentType entries sourceWindowsSummaryName [''periodic_samples'', ''source_files'']"

text \<open>The session of a summarizer: its tables, the query and the fetching of files, with the orders of maps.\<close>

record source_session =
  ssEntries :: "TableEntry list"
  ssQuery :: "string list \<Rightarrow> ((sourceWindowSampleLineRow \<times> uint64) option list \<times> bool) option"
  ssFetch :: "SourceFile list \<Rightarrow> SourceFileContent list"
  ssOrder :: "int list"
  ssOrder' :: "int list"

definition SummarizeSourceWindows :: "source_session \<Rightarrow> int \<Rightarrow> insights_error + RunSummary" where
  "SummarizeSourceWindows session byteLimit =
     (case resolveSourceWindowsTables (ssEntries session) of
        Inl e \<Rightarrow> Inl e
      | Inr tables \<Rightarrow>
         (case ssQuery session tables of
            None \<Rightarrow> Inl (RenderQueryFailed sourceWindowsSummaryName)
          | Some (rows, rowsErr) \<Rightarrow>
             (case collectSourceSampleLineRows rows rowsErr of
                Inl e \<Rightarrow> Inl e
              | Inr (sampleLines, n) \<Rightarrow>
                 (case buildSourceWindowsPayload (ssOrder session) (ssOrder' session) (ssFetch session) sampleLines n byteLimit of
                    Inl e \<Rightarrow> Inl e
                  | Inr payload \<Rightarrow> sourceWindowsSummary (TotalSourceLineSamples payload) (Windows payload)))))"

section \<open>Lines of a text\<close>

lemma length_Split: "length (Split s sep) = count_list s sep + 1"
proof (induction s)
  case (Cons c s)
  then show ?case by (cases "Split s sep") auto
qed simp

lemma count_ReplaceCRLF: "count_list (ReplaceCRLF s) newline = count_list s newline"
  by (induction s rule: ReplaceCRLF.induct) (auto simp: newline_def)

lemma last_ReplaceCRLF: "s \<noteq> [] \<Longrightarrow> ReplaceCRLF s \<noteq> [] \<and> (last (ReplaceCRLF s) = newline \<longleftrightarrow> last s = newline)"
proof (induction s rule: ReplaceCRLF.induct)
  case (3 c d cs)
  then show ?case by (cases cs) (auto simp: newline_def)
qed auto

lemma HasSuffix_byte: "HasSuffix s [c] \<longleftrightarrow> s \<noteq> [] \<and> last s = c"
  unfolding HasSuffix_iff by (metis append_butlast_last_id append_is_Nil_conv last_snoc list.distinct(1))

lemma count_butlast: "s \<noteq> [] \<Longrightarrow> last s = c \<Longrightarrow> count_list (butlast s) c + 1 = count_list s c"
  by (induction s) auto

lemma sourceContentLines_count: "length (sourceContentLines content) = sourceContentLineCount content"
proof (cases "content = []")
  case True
  then show ?thesis
    by (simp add: sourceContentLines_def sourceContentLineCount_def TrimSuffix_def HasSuffix_byte CountByte_def)
next
  case False
  let ?r = "ReplaceCRLF content"
  note last = last_ReplaceCRLF [OF False]
  have "TrimSuffix ?r [newline] = (if last content = newline then butlast ?r else ?r)"
    using last by (simp add: TrimSuffix_def HasSuffix_byte butlast_conv_take)
  then show ?thesis
    using False last count_butlast [of ?r newline] count_ReplaceCRLF [of content]
    by (simp add: sourceContentLines_def sourceContentLineCount_def HasSuffix_byte CountByte_def length_Split)
qed

section \<open>Counting samples\<close>

lemma total_of_simps [simp]: "total_of [] = 0" "total_of (s # ss) = samples_of s + total_of ss"
  by (simp_all add: total_of_def)

lemma total_filter_mono: "(\<And>s. s \<in> set rows \<Longrightarrow> P s \<Longrightarrow> Q s) \<Longrightarrow> total_of (filter P rows) \<le> total_of (filter Q rows)"
  by (induction rows) (auto intro: add_mono trans_le_add2)

lemma total_filter_le: "total_of (filter P rows) \<le> total_of rows"
  by (induction rows) auto

lemma total_filter_or:
  "(\<And>s. s \<in> set rows \<Longrightarrow> \<not> (P s \<and> Q s)) \<Longrightarrow>
   total_of (filter (\<lambda>s. P s \<or> Q s) rows) = total_of (filter P rows) + total_of (filter Q rows)"
  by (induction rows) auto

lemma sourceWindowSamples_nat:
  assumes "total_of rows < 2 ^ 64"
  shows "unat (sourceWindowSamples r rows) = total_of (filter (\<lambda>s. inRange r (lineNo s)) rows)"
  using assms
proof (induction rows)
  case (Cons s rows)
  have "total_of (filter (\<lambda>s. inRange r (lineNo s)) rows) \<le> total_of rows" by (rule total_filter_le)
  then have "samples_of s + total_of (filter (\<lambda>s. inRange r (lineNo s)) rows) < 2 ^ 64" using Cons.prems by simp
  then show ?case using Cons by (simp add: unat_plus_if')
qed simp

text \<open>Separated ranges share no line.\<close>

lemma separated_later:
  assumes "separated (r # rs)" "list_all bounded_range (r # rs)" "l \<in> lines_of rs"
  shows "unat (EndLine r) < unat l"
  using assms
proof (induction rs arbitrary: r)
  case (Cons q rs)
  show ?case
  proof (cases "l \<in> lines_of rs")
    case True
    then have "unat (EndLine q) < unat l" using Cons by simp
    moreover have "StartLine q \<le> EndLine q" using Cons.prems(2) by (simp add: bounded_range_def valid_range_def)
    ultimately show ?thesis using Cons.prems(1) by (simp add: word_le_nat_alt)
  next
    case False then show ?thesis using Cons.prems by (auto simp: word_le_nat_alt)
  qed
qed simp

lemma separated_total:
  assumes "separated rs" "list_all bounded_range rs"
  shows "sum_list (map (\<lambda>r. total_of (filter (\<lambda>s. inRange r (lineNo s)) rows)) rs)
         = total_of (filter (\<lambda>s. lineNo s \<in> lines_of rs) rows)"
  using assms
proof (induction rs)
  case (Cons r rs)
  have "\<not> (inRange r (lineNo s) \<and> lineNo s \<in> lines_of rs)" for s
    using separated_later [OF Cons.prems] by (auto simp: inRange_def word_less_nat_alt)
  then have "total_of (filter (\<lambda>s. inRange r (lineNo s) \<or> lineNo s \<in> lines_of rs) rows)
      = total_of (filter (\<lambda>s. inRange r (lineNo s)) rows) + total_of (filter (\<lambda>s. lineNo s \<in> lines_of rs) rows)"
    by (intro total_filter_or) blast
  moreover have "filter (\<lambda>s. lineNo s \<in> lines_of (r # rs)) rows
      = filter (\<lambda>s. inRange r (lineNo s) \<or> lineNo s \<in> lines_of rs) rows"
    by (rule filter_cong [OF refl]) (auto simp: inRange_def)
  moreover have "sum_list (map (\<lambda>r. total_of (filter (\<lambda>s. inRange r (lineNo s)) rows)) rs)
      = total_of (filter (\<lambda>s. lineNo s \<in> lines_of rs) rows)"
    using Cons by (simp add: separated_Cons split: if_splits) (cases rs; simp)
  ultimately show ?case by (simp only: list.map sum_list.Cons)
qed simp

section \<open>Windows of a file\<close>

lemma minimum_inner:
  "foldl (\<lambda>m r. if \<not> inRange r l then m else if l > m then l else m) m rs =
     (if \<exists>r \<in> set rs. inRange r l then max m l else (m :: uint32))"
  by (induction rs arbitrary: m) (auto simp: max_def)

lemma fold_max_ge: "m \<le> foldl (\<lambda>m s. if P s then max m (g s) else m) (m :: 'b :: linorder) ss"
proof (induction ss arbitrary: m)
  case (Cons t ss)
  have "m \<le> (if P t then max m (g t) else m)" by simp
  then show ?case using Cons.IH [of "if P t then max m (g t) else m"] by (simp only: foldl_Cons order_trans)
qed simp

lemma fold_max_member:
  assumes "s \<in> set ss" "P s"
  shows "g s \<le> foldl (\<lambda>m s. if P s then max m (g s) else m) (m :: 'b :: linorder) ss"
  using assms
proof (induction ss arbitrary: m)
  case (Cons t ss)
  show ?case
  proof (cases "s = t")
    case True
    have "g s \<le> max m (g t)" using True by simp
    then show ?thesis using Cons.prems True order_trans [OF _ fold_max_ge [of "max m (g t)" P g ss]] by simp
  next
    case False then show ?thesis using Cons by simp
  qed
qed simp

lemma minimumLines_ge:
  assumes "s \<in> set rows" "r \<in> set rs" "inRange r (lineNo s)"
  shows "lineNo s \<le> minimumLines rows rs"
  unfolding minimumLines_def minimum_inner
  by (rule fold_max_member [where g = lineNo]) (use assms in blast)+

lemma map_of_filter_keys:
  "map_of (map (\<lambda>f. (f, h f)) (filter P order)) f = (if f \<in> set order \<and> P f then Some (h f) else None)"
  by (induction order) auto

definition loaded :: "SourceFileContent \<Rightarrow> bool" where
  "loaded r \<longleftrightarrow> slLocation (LoadedLocation r) \<noteq> []"

lemma loadSourceLinesByID_map:
  "loadSourceLinesByID order fileLines ranges (map fetch) =
     (let g = (\<lambda>f. fetch (sourceFileFor (fileLines f) (ranges f)))
      in (map (\<lambda>f. (f, sourceContentLines (scContent (g f)))) (filter (\<lambda>f. loaded (g f)) order),
          map (\<lambda>f. (f, sourceUnavailabilityForFetchFailure (g f)))
            (filter (\<lambda>f. \<not> loaded (g f) \<and> sourceUnavailabilityForFetchFailure (g f) \<noteq> []) order)))"
  unfolding loadSourceLinesByID_def Let_def loaded_def by (induction order) auto

lemma unavailability_reason: "has_reason fs \<Longrightarrow> unavailability fs \<noteq> []"
  by (induction fs) (auto simp: has_reason_def reason_code_def split: option.splits SourceFailureReason.splits)

lemma fetch_fails_with_reason:
  assumes "\<not> loaded (fetchSourceFile readHost fetcher (sourceFileFor rows rs))"
  shows "sourceUnavailabilityForFetchFailure (fetchSourceFile readHost fetcher (sourceFileFor rows rs)) \<noteq> []"
proof -
  have "has_reason (Failures (fetchSourceFile readHost fetcher (sourceFileFor rows rs)))"
    unfolding fetchSourceFile_def
    by (rule try_locations_reason)
      (use assms in \<open>auto simp: loaded_def fetchSourceFile_def sourceFileFor_def SourceLocationHost_def SourceLocationTarget_def
         split: if_splits\<close>)
  then show ?thesis by (simp add: sourceUnavailabilityForFetchFailure_def unavailability_reason)
qed

lemma fetch_loads_enough:
  assumes "loaded (fetchSourceFile readHost fetcher (sourceFileFor rows rs))" "s \<in> set rows" "r \<in> set rs" "inRange r (lineNo s)"
  shows "unat (lineNo s) \<le> length (sourceContentLines (scContent (fetchSourceFile readHost fetcher (sourceFileFor rows rs))))"
proof -
  have "unat (lineNo s) \<le> MinimumLineCount (sourceFileFor rows rs)"
    using minimumLines_ge [OF assms(2-4)] by (simp add: sourceFileFor_def word_le_nat_alt)
  also have "\<dots> \<le> sourceContentLineCount (scContent (fetchSourceFile readHost fetcher (sourceFileFor rows rs)))"
    using try_locations_loaded [of readHost fetcher "MinimumLineCount (sourceFileFor rows rs)" "[]"] assms(1)
    by (auto simp: fetchSourceFile_def loaded_def)
  finally show ?thesis by (simp add: sourceContentLines_count)
qed

text \<open>Filling the ranges of a loaded file never panics, and loses no sampled line.\<close>

definition window_samples :: "sourceWindow list \<Rightarrow> nat" where
  "window_samples ws = sum_list (map (\<lambda>w. unat (Samples w)) ws)"

lemma loaded_windows_ok:
  assumes "length ls < 2 ^ 32" "list_all valid_range rs" "total_of rows < 2 ^ 64"
    and "\<And>s r. s \<in> set rows \<Longrightarrow> r \<in> set rs \<Longrightarrow> inRange r (lineNo s) \<Longrightarrow> unat (lineNo s) \<le> length ls"
  shows "\<exists>ws. loaded_windows f path rows ls (word_of_nat (length ls)) rs = Inr ws \<and>
           window_samples ws = sum_list (map (\<lambda>r. total_of (filter (\<lambda>s. inRange r (lineNo s)) rows)) rs) \<and>
           list_all (\<lambda>w. swFileID w = f) ws \<and> map swStart ws = map StartLine (filter (\<lambda>r. \<not> StartLine r > word_of_nat (length ls)) rs)"
  using assms(2,4)
proof (induction rs)
  case (Cons r rs)
  let ?m = "word_of_nat (length ls) :: uint32"
  have m: "unat ?m = length ls" using assms(1) by (simp add: unat_of_nat)
  obtain ws where ws: "loaded_windows f path rows ls ?m rs = Inr ws"
    "window_samples ws = sum_list (map (\<lambda>r. total_of (filter (\<lambda>s. inRange r (lineNo s)) rows)) rs)"
    "list_all (\<lambda>w. swFileID w = f) ws" "map swStart ws = map StartLine (filter (\<lambda>r. \<not> StartLine r > ?m) rs)"
    using Cons.IH Cons.prems by fastforce
  show ?case
  proof (cases "StartLine r > ?m")
    case True
    have "\<not> inRange r (lineNo s)" if "s \<in> set rows" for s
      using Cons.prems(2) [OF that, of r] True m by (auto simp: inRange_def word_less_nat_alt)
    then have "filter (\<lambda>s. inRange r (lineNo s)) rows = []" by (simp add: filter_empty_conv)
    then show ?thesis using ws True by simp
  next
    case False
    let ?r = "if EndLine r > ?m then r\<lparr>EndLine := ?m\<rparr> else r"
    have "\<not> list_ex (\<lambda>n. n = 0 \<or> length ls < n) [unat (StartLine ?r)..<unat (EndLine ?r) + 1]"
      using Cons.prems(1) m by (auto simp: list_ex_iff valid_range_def word_less_nat_alt)
    then obtain w where w: "buildSourceWindow f path ?r rows ls = Inr w"
      "swFileID w = f" "swStart w = StartLine r" "Samples w = sourceWindowSamples ?r rows"
      by (auto simp: buildSourceWindow_def Let_def)
    have "inRange ?r (lineNo s) \<longleftrightarrow> inRange r (lineNo s)" if "s \<in> set rows" for s
      using Cons.prems(2) [OF that, of r] m by (auto simp: inRange_def word_less_nat_alt)
    then have "filter (\<lambda>s. inRange ?r (lineNo s)) rows = filter (\<lambda>s. inRange r (lineNo s)) rows" by (rule filter_cong [OF refl])
    then have "unat (Samples w) = total_of (filter (\<lambda>s. inRange r (lineNo s)) rows)"
      using w(4) sourceWindowSamples_nat [OF assms(3), of ?r] by simp
    then show ?thesis using ws w False by (simp add: window_samples_def)
  qed
qed (simp add: window_samples_def)

text \<open>A file gives windows in any case: a failed fetch leaves a reason, a loaded text reaches far enough.\<close>

definition short_files :: "(SourceFile \<Rightarrow> SourceFileContent) \<Rightarrow> bool" where
  "short_files fetch \<longleftrightarrow> (\<forall>sf. length (sourceContentLines (scContent (fetch sf))) < 2 ^ 32)"

definition file_samples :: "sourceLineRange list \<Rightarrow> sourceWindowSampleLineRow list \<Rightarrow> nat" where
  "file_samples rs rows = sum_list (map (\<lambda>r. total_of (filter (\<lambda>s. inRange r (lineNo s)) rows)) rs)"

definition windows_of_file :: "int \<Rightarrow> sourceLineRange list \<Rightarrow> sourceWindowSampleLineRow list \<Rightarrow> sourceWindow list \<Rightarrow> bool" where
  "windows_of_file f rs rows ws \<longleftrightarrow>
     window_samples ws = file_samples rs rows \<and> list_all (\<lambda>w. swFileID w = f) ws \<and>
     (\<exists>P. map swStart ws = map StartLine (filter P rs))"

lemma file_windows_ok:
  assumes fetch: "fetch = fetchSourceFile readHost fetcher" and "short_files fetch"
    and "f \<in> set order" "fileLines f \<noteq> []" "list_all valid_range (ranges f)" "total_of (fileLines f) < 2 ^ 64"
    and load: "loadSourceLinesByID order fileLines ranges (map fetch) = (linesByID, unavailableByID)"
  shows "\<exists>ws. file_windows f (fileLines f) (ranges f) linesByID unavailableByID = Inr ws \<and>
           windows_of_file f (ranges f) (fileLines f) ws"
proof -
  let ?rows = "fileLines f" and ?g = "\<lambda>f. fetch (sourceFileFor (fileLines f) (ranges f))"
  let ?path = "if targetLocation (hd ?rows) = [] then hostLocation (hd ?rows) else targetLocation (hd ?rows)"
  let ?ls = "sourceContentLines (scContent (?g f))"
  have maps: "map_of linesByID f = (if loaded (?g f) then Some ?ls else None)"
    "map_of unavailableByID f = (if \<not> loaded (?g f) then Some (sourceUnavailabilityForFetchFailure (?g f)) else None)"
    using load assms(3) fetch_fails_with_reason [of readHost fetcher ?rows "ranges f"]
    by (auto simp: loadSourceLinesByID_map Let_def map_of_filter_keys fetch)
  show ?thesis
  proof (cases "loaded (?g f)")
    case False
    have "window_samples (map (\<lambda>r. \<lparr>swFileID = f, swPath = ?path, swStart = StartLine r, swEnd = EndLine r,
        Samples = sourceWindowSamples r ?rows, SourceLines = [],
        SourceUnavailability = sourceUnavailabilityForFetchFailure (?g f)\<rparr>) (ranges f)) = file_samples (ranges f) ?rows"
      by (simp add: window_samples_def file_samples_def comp_def sourceWindowSamples_nat [OF assms(6)])
    then show ?thesis
      using False assms(4) maps
      by (auto simp: file_windows_def windows_of_file_def list_all_iff comp_def intro!: exI [of _ "\<lambda>_. True"])
  next
    case True
    have "\<exists>ws. loaded_windows f ?path ?rows ?ls (word_of_nat (length ?ls)) (ranges f) = Inr ws \<and>
        window_samples ws = sum_list (map (\<lambda>r. total_of (filter (\<lambda>s. inRange r (lineNo s)) ?rows)) (ranges f)) \<and>
        list_all (\<lambda>w. swFileID w = f) ws \<and>
        map swStart ws = map StartLine (filter (\<lambda>r. \<not> StartLine r > word_of_nat (length ?ls)) (ranges f))"
    proof (rule loaded_windows_ok)
      show "length ?ls < 2 ^ 32" using assms(2) by (simp add: short_files_def)
      show "unat (lineNo s) \<le> length ?ls" if "s \<in> set ?rows" "r \<in> set (ranges f)" "inRange r (lineNo s)" for s r
        using fetch_loads_enough that True unfolding fetch by blast
    qed (use assms in auto)
    then show ?thesis
      using True assms(4) maps by (auto simp: file_windows_def windows_of_file_def file_samples_def Let_def)
  qed
qed

lemma buildSourceWindows_concat:
  assumes "\<And>f. f \<in> set fs \<Longrightarrow> file_windows f (fileLines f) (ranges f) ls us = Inr (h f)"
  shows "buildSourceWindows fs fileLines ranges ls us = Inr (concat (map h fs))"
  using assms by (induction fs) auto

lemma window_samples_append [simp]: "window_samples (xs @ ys) = window_samples xs + window_samples ys"
  by (simp add: window_samples_def)

lemma window_samples_concat: "window_samples (concat wss) = sum_list (map window_samples wss)"
  by (induction wss) (auto simp: window_samples_def)

section \<open>All windows\<close>

lemma total_filter_files:
  assumes "distinct fs"
  shows "sum_list (map (\<lambda>f. total_of (filter (\<lambda>s. sourceFileID s = f \<and> P f s) rows)) fs)
         = total_of (filter (\<lambda>s. sourceFileID s \<in> set fs \<and> P (sourceFileID s) s) rows)"
  using assms
proof (induction fs)
  case (Cons f fs)
  have "filter (\<lambda>s. sourceFileID s \<in> set (f # fs) \<and> P (sourceFileID s) s) rows
      = filter (\<lambda>s. (sourceFileID s = f \<and> P f s) \<or> (sourceFileID s \<in> set fs \<and> P (sourceFileID s) s)) rows"
    by (rule filter_cong [OF refl]) auto
  moreover have "total_of (filter (\<lambda>s. (sourceFileID s = f \<and> P f s) \<or> (sourceFileID s \<in> set fs \<and> P (sourceFileID s) s)) rows)
      = total_of (filter (\<lambda>s. sourceFileID s = f \<and> P f s) rows)
        + total_of (filter (\<lambda>s. sourceFileID s \<in> set fs \<and> P (sourceFileID s) s) rows)"
    using Cons.prems by (intro total_filter_or) auto
  ultimately show ?case using Cons by (simp only: list.map sum_list.Cons distinct.simps)
qed simp

text \<open>
  What the query guarantees of the rows, and the maps of an iteration: lines are positive and not
  near the largest number, the total is that of the rows, and each key is visited once.
\<close>

definition good_rows :: "sourceWindowSampleLineRow list \<Rightarrow> uint64 \<Rightarrow> bool" where
  "good_rows rows n \<longleftrightarrow> ordinary_lines rows \<and> unat n = total_of rows \<and> total_of rows < 2 ^ 46"

definition iterates :: "int list \<Rightarrow> sourceWindowSampleLineRow list \<Rightarrow> bool" where
  "iterates order rows \<longleftrightarrow> distinct order \<and> set order = selected_ids rows"

lemma near_hot_self: "0 < lineNo h \<Longrightarrow> h \<in> set hot \<Longrightarrow> near_hot hot h"
  using sample_range_in by (auto simp: near_hot_def)

lemma total_linesOfFile: "total_of (linesOfFile rows f) \<le> total_of rows"
  by (simp add: linesOfFile_def total_filter_le)

text \<open>What a file gives does not depend on the other files, nor on their order.\<close>

lemma file_windows_local:
  assumes "f \<in> set order" "loadSourceLinesByID order fileLines ranges (map fetch) = (ls, us)"
    and "loadSourceLinesByID [f] fileLines ranges (map fetch) = (ls', us')"
  shows "file_windows f rows rs ls us = file_windows f rows rs ls' us'"
proof -
  have "map_of ls f = map_of ls' f \<and> map_of us f = map_of us' f"
    using assms by (auto simp: loadSourceLinesByID_map Let_def map_of_filter_keys)
  then show ?thesis unfolding file_windows_def by (simp only:)
qed

lemma all_windows_files:
  assumes rows: "good_rows rows n" and sel: "selectSourceWindowSampleLines rows n = (selected, hot)" "selected \<noteq> []"
    and fetch: "fetch = fetchSourceFile readHost fetcher" "short_files fetch"
  shows "\<exists>h. (\<forall>order order'. iterates order selected \<longrightarrow> iterates order' hot \<longrightarrow>
                allSourceWindows order order' (map fetch) rows n = Inr (concat (map h order'))) \<and>
           (\<forall>f \<in> selected_ids hot.
              windows_of_file f (fileRanges (linesOfFile hot f) (linesOfFile rows f) n) (linesOfFile rows f) (h f))"
proof -
  let ?lines = "\<lambda>f. if f \<in> selected_ids selected then linesOfFile rows f else []"
  let ?ranges = "\<lambda>f. fileRanges (linesOfFile hot f) (?lines f) n"
  let ?load = "\<lambda>order. loadSourceLinesByID order ?lines ?ranges (map fetch)"
  have pos: "positive_lines rows" by (rule ordinary_positive) (use rows in \<open>simp add: good_rows_def\<close>)
  have result: "set hot \<subseteq> set rows" "selected = filter (near_hot hot) rows"
    using select_result [OF sel(1) _ _ pos] rows by (simp_all add: good_rows_def)
  have hot_selected: "f \<in> selected_ids selected" if key: "f \<in> selected_ids hot" for f
  proof -
    obtain h where h: "h \<in> set hot" "sourceFileID h = f"
      using key by (auto simp: selected_ids_def)
    have "h \<in> set rows" using h(1) result(1) by blast
    then have "0 < lineNo h" using pos unfolding positive_lines_def list_all_iff by blast
    then have "near_hot hot h" using h(1) by (rule near_hot_self)
    then have "h \<in> set selected" using \<open>h \<in> set rows\<close> result(2) by simp
    then show ?thesis unfolding selected_ids_def h(2) [symmetric] by (rule imageI)
  qed
  let ?Q = "\<lambda>f ws. file_windows f (?lines f) (?ranges f) (fst (?load [f])) (snd (?load [f])) = Inr ws \<and>
      windows_of_file f (?ranges f) (?lines f) ws"
  have "\<forall>f \<in> selected_ids hot. \<exists>ws. ?Q f ws"
  proof (rule ballI, rule file_windows_ok [OF fetch])
    fix f assume f: "f \<in> selected_ids hot"
    show "f \<in> set [f]" by simp
    show "?lines f \<noteq> []"
      using hot_selected [OF f] result(2) by (auto simp: selected_ids_def linesOfFile_def filter_empty_conv)
    have "ordinary_lines (linesOfFile hot f)"
      using rows result(1) by (auto simp: good_rows_def ordinary_lines_def linesOfFile_def list_all_iff)
    from fileRanges_separated [OF this] show "list_all valid_range (?ranges f)"
      by (auto simp: list_all_iff bounded_range_def)
    show "total_of (?lines f) < 2 ^ 64"
      using total_linesOfFile [of rows f] rows by (simp add: good_rows_def)
    show "?load [f] = (fst (?load [f]), snd (?load [f]))" by simp
  qed
  from bchoice [OF this] obtain h where "\<forall>f \<in> selected_ids hot. ?Q f (h f)" by (rule exE)
  then have h: "?Q f (h f)" if "f \<in> selected_ids hot" for f using that by (rule bspec)
  have run: "allSourceWindows order order' (map fetch) rows n = Inr (concat (map h order'))"
    if orders: "iterates order selected" "iterates order' hot" for order order'
  proof -
    obtain ls us where load: "?load order = (ls, us)" by (rule prod.exhaust)
    have "file_windows f (?lines f) (?ranges f) ls us = Inr (h f)" if f: "f \<in> set order'" for f
    proof -
      have key: "f \<in> selected_ids hot" using f orders(2) by (simp add: iterates_def)
      have "f \<in> set order" using hot_selected [OF key] orders(1) by (simp add: iterates_def)
      from file_windows_local [OF this load prod.collapse [symmetric]] h [OF key] show ?thesis by simp
    qed
    then have "buildSourceWindows order' ?lines ?ranges ls us = Inr (concat (map h order'))"
      by (rule buildSourceWindows_concat)
    moreover have "allSourceWindows order order' (map fetch) rows n = buildSourceWindows order' ?lines ?ranges ls us"
      using sel load by (simp add: allSourceWindows_def)
    ultimately show ?thesis by simp
  qed
  have "windows_of_file f (fileRanges (linesOfFile hot f) (linesOfFile rows f) n) (linesOfFile rows f) (h f)"
    if "f \<in> selected_ids hot" for f
    using h [OF that] hot_selected [OF that] by simp
  then show ?thesis using run by (intro exI [of _ h]) blast
qed


section \<open>The order of maps\<close>

lemma bounded_le: "bounded_range r \<Longrightarrow> unat (StartLine r) \<le> unat (EndLine r)"
  by (simp add: bounded_range_def valid_range_def word_le_nat_alt)

lemma separated_starts:
  assumes "separated rs" "list_all bounded_range rs"
  shows "distinct (map StartLine rs)"
  using assms
proof (induction rs)
  case (Cons r rs)
  have "StartLine r \<noteq> StartLine q" if "q \<in> set rs" for q
  proof -
    have "bounded_range q" using that Cons.prems(2) by (simp add: list_all_iff)
    then have "StartLine q \<in> lines_of rs"
      using that unfolding lines_of_def by (force simp: bounded_range_def valid_range_def)
    then have "unat (EndLine r) < unat (StartLine q)" by (rule separated_later [OF Cons.prems])
    then show ?thesis using bounded_le [of r] Cons.prems(2) by auto
  qed
  moreover have "distinct (map StartLine rs)" using Cons by (cases rs) auto
  ultimately show ?case by auto
qed simp

lemma windows_of_file_starts:
  assumes "windows_of_file f rs rows ws" "separated rs" "list_all bounded_range rs"
  shows "distinct (map swStart ws) \<and> (\<forall>w \<in> set ws. swFileID w = f)"
  using assms separated_starts [OF assms(2,3)]
  by (auto simp: windows_of_file_def list_all_iff distinct_map_filter)

lemma inj_on_window_key:
  assumes "\<And>f. f \<in> set fs \<Longrightarrow> distinct (map swStart (h f)) \<and> (\<forall>w \<in> set (h f). swFileID w = f)"
  shows "inj_on window_key (set (concat (map h fs)))"
proof (rule inj_onI)
  fix v w assume v: "v \<in> set (concat (map h fs))" and w: "w \<in> set (concat (map h fs))" and key: "window_key v = window_key w"
  from v obtain f where f: "f \<in> set fs" "v \<in> set (h f)" by auto
  from w obtain g where g: "g \<in> set fs" "w \<in> set (h g)" by auto
  have "f = g" using key f g assms by (auto simp: window_key_def)
  then have "w \<in> set (h f)" using g by simp
  have "inj_on swStart (set (h f))" using assms [OF f(1)] by (simp add: distinct_map)
  then show "v = w" using key f(2) \<open>w \<in> set (h f)\<close> by (auto simp: window_key_def inj_on_def)
qed

lemma mset_concat_order:
  assumes "distinct fs" "distinct gs" "set fs = set gs"
  shows "mset (concat (map h fs)) = mset (concat (map h gs))"
proof -
  have "mset fs = mset gs" using assms by (simp add: set_eq_iff_mset_eq_distinct)
  then have "mset (map (mset \<circ> h) fs) = mset (map (mset \<circ> h) gs)" by (simp only: mset_map)
  then have "sum_list (map (mset \<circ> h) fs) = sum_list (map (mset \<circ> h) gs)" by (metis sum_mset_sum_list)
  then show ?thesis by (simp add: mset_concat)
qed

text \<open>
  C39. The payload does not depend on the order in which the maps of files are iterated: the windows
  are sorted by a key that no two of them share.
\<close>

theorem payload_order_irrelevant:
  assumes "good_rows rows n" and "selectSourceWindowSampleLines rows n = (selected, hot)"
    and "iterates order1 selected" and "iterates order1' hot" and "iterates order2 selected" and "iterates order2' hot"
    and "fetch = fetchSourceFile readHost fetcher" and "short_files fetch"
  shows "buildSourceWindowsPayload order1 order1' (map fetch) rows n byteLimit
         = buildSourceWindowsPayload order2 order2' (map fetch) rows n byteLimit"
proof (cases "selected = []")
  case True then show ?thesis using assms(2) by (simp add: buildSourceWindowsPayload_def allSourceWindows_def)
next
  case False
  let ?R = "\<lambda>f. fileRanges (linesOfFile hot f) (linesOfFile rows f) n"
  obtain h where run: "allSourceWindows order1 order1' (map fetch) rows n = Inr (concat (map h order1'))"
      "allSourceWindows order2 order2' (map fetch) rows n = Inr (concat (map h order2'))"
    and h: "\<forall>f \<in> selected_ids hot. windows_of_file f (?R f) (linesOfFile rows f) (h f)"
    using all_windows_files [OF assms(1,2) False assms(7,8)] assms(3-6) by blast
  have hot: "set hot \<subseteq> set rows"
    using select_result [OF assms(2)] assms(1) ordinary_positive [of rows] by (auto simp: good_rows_def)
  have "distinct (map swStart (h f)) \<and> (\<forall>w \<in> set (h f). swFileID w = f)" if "f \<in> set order2'" for f
  proof -
    have "ordinary_lines (linesOfFile hot f)"
      using assms(1) hot by (auto simp: good_rows_def ordinary_lines_def linesOfFile_def list_all_iff)
    note sep = fileRanges_separated [OF this, of "linesOfFile rows f" n]
    show ?thesis using h that assms(6) sep by (intro windows_of_file_starts) (auto simp: iterates_def)
  qed
  then have inj: "inj_on window_key (set (concat (map h order2')))" by (rule inj_on_window_key)
  have same: "mset (concat (map h order1')) = mset (concat (map h order2'))"
    using assms(4,6) by (intro mset_concat_order) (auto simp: iterates_def)
  have "sort_key window_key (concat (map h order1')) = sort_key window_key (concat (map h order2'))"
  proof (rule sort_key_inj_key_eq)
    show "mset (concat (map h order1')) = mset (sort_key window_key (concat (map h order2')))" using same by simp
    show "inj_on window_key (set (concat (map h order1')))" using inj mset_eq_setD [OF same] by (simp only:)
    show "sorted (map window_key (sort_key window_key (concat (map h order2'))))" by (rule sorted_sort_key)
  qed
  then show ?thesis
    unfolding buildSourceWindowsPayload_def budgetSourceWindowsPayload_def run
    by (simp only: Let_def sum.case sourceWindowsPayload.simps)
qed

section \<open>The byte limit\<close>

definition source_bytes :: "uint64 \<Rightarrow> sourceWindow list \<Rightarrow> int" where
  "source_bytes n ws =
     int (length sourceWindowsSummaryName) + int (length sourceWindowsPromptFragment) + int (length (json_sourceWindowsPayload n ws))"

lemma sourceWindowsSummary_size: "\<exists>s. sourceWindowsSummary n ws = Inr s \<and> runSummarySizeBytes s = source_bytes n ws"
  by (simp add: sourceWindowsSummary_def NewRunSummary_def runSummarySizeBytes_def source_bytes_def)

lemma source_bytes_grows: "source_bytes n ws \<le> source_bytes n (ws @ [w])"
  using json_array_grows [of "map json_sourceWindow ws" "json_sourceWindow w"]
  by (simp add: source_bytes_def json_sourceWindowsPayload_def json_object_def)

interpretation source_budget: byte_budget "sourceWindowsSummary n" "source_bytes n" for n
  by unfold_locales (rule sourceWindowsSummary_size, rule source_bytes_grows)

text \<open>
  C38. The windows that are kept are the longest prefix, hottest first, with which the summary fits the byte
  limit; a limit too small for the summary without windows is an error.
\<close>

theorem budget_keeps_longest:
  "(limit < source_bytes n [] \<and>
    budgetSourceWindowsPayload \<lparr>TotalSourceLineSamples = n, Windows = ws\<rparr> limit
      = Inl (InsufficientByteLimit sourceWindowsSummaryName limit)) \<or>
   (\<exists>k. budgetSourceWindowsPayload \<lparr>TotalSourceLineSamples = n, Windows = ws\<rparr> limit
          = Inr \<lparr>TotalSourceLineSamples = n, Windows = take k (sort_key window_key ws)\<rparr> \<and>
        source_bytes n (take k (sort_key window_key ws)) \<le> limit \<and>
        (k = length ws \<or> k < length ws \<and> limit < source_bytes n (take (Suc k) (sort_key window_key ws))))"
proof (cases "limit < source_bytes n []")
  case True
  obtain s where "sourceWindowsSummary n [] = Inr s" "runSummarySizeBytes s = source_bytes n []"
    using sourceWindowsSummary_size by blast
  then show ?thesis using True by (simp add: budgetSourceWindowsPayload_def check_empty_def)
next
  case False
  then have "check_empty (sourceWindowsSummary n) sourceWindowsSummaryName limit = None"
    by (simp add: source_budget.check_empty_iff)
  moreover obtain k where k: "k \<le> length ws"
    "fit_windows (sourceWindowsSummary n) limit [] (sort_key window_key ws) = Inr (take k (sort_key window_key ws))"
    "source_bytes n (take k (sort_key window_key ws)) \<le> limit"
    "\<forall>m. k < m \<longrightarrow> m \<le> length ws \<longrightarrow> limit < source_bytes n (take m (sort_key window_key ws))"
    using source_budget.fit_windows_prefix [of n "[]" limit "sort_key window_key ws"] False by auto
  ultimately have "budgetSourceWindowsPayload \<lparr>TotalSourceLineSamples = n, Windows = ws\<rparr> limit
      = Inr \<lparr>TotalSourceLineSamples = n, Windows = take k (sort_key window_key ws)\<rparr>"
    by (simp add: budgetSourceWindowsPayload_def)
  moreover have "k = length ws \<or> k < length ws \<and> limit < source_bytes n (take (Suc k) (sort_key window_key ws))"
    using k(1,4) by (cases "k = length ws") auto
  ultimately show ?thesis using k(3) by blast
qed

text \<open>So the summarizer stays within its limit, which the bundle relies on.\<close>

lemma SummarizeSourceWindows_within_limit:
  assumes "SummarizeSourceWindows session limit = Inr s"
  shows "runSummarySizeBytes s \<le> limit"
proof -
  obtain n ws payload where p: "budgetSourceWindowsPayload \<lparr>TotalSourceLineSamples = n, Windows = ws\<rparr> limit = Inr payload"
    and s: "sourceWindowsSummary (TotalSourceLineSamples payload) (Windows payload) = Inr s"
    using assms by (auto simp: SummarizeSourceWindows_def buildSourceWindowsPayload_def split: sum.splits option.splits prod.splits)
  obtain kept where kept: "check_empty (sourceWindowsSummary n) sourceWindowsSummaryName limit = None"
    "fit_windows (sourceWindowsSummary n) limit [] (sort_key window_key ws) = Inr kept"
    "payload = \<lparr>TotalSourceLineSamples = n, Windows = kept\<rparr>"
    using p by (auto simp: budgetSourceWindowsPayload_def Let_def split: option.splits sum.splits)
  then have "source_bytes n kept \<le> limit"
    using source_budget.fit_windows_prefix [of n "[]" limit "sort_key window_key ws"] source_budget.check_empty_iff by auto
  moreover have "runSummarySizeBytes s = source_bytes n kept"
    using s kept(3) sourceWindowsSummary_size [of n kept] by auto
  ultimately show ?thesis by simp
qed

section \<open>An example\<close>

text \<open>Two files with a line each; the host has the text of one of them.\<close>

definition example_rows :: "sourceWindowSampleLineRow list" where
  "example_rows =
     [\<lparr>sourceFileID = 2, hostLocation = ''/src/b.c'', targetLocation = [], lineNo = 1, isInlined = False, periodicSamples = 7\<rparr>,
      \<lparr>sourceFileID = 1, hostLocation = ''/src/a.c'', targetLocation = ''/a.c'', lineNo = 5, isInlined = True, periodicSamples = 3\<rparr>]"

definition example_files :: HostFiles where
  "example_files p = (if p = ''/src/b.c'' then Inr ''int main() { }'' else Inl ''no such file'')"

definition example_fetch :: "SourceFile \<Rightarrow> SourceFileContent" where
  "example_fetch = fetchSourceFile example_files None"

lemma try_locations_content:
  "scContent (try_locations readHost fetcher minimum failures locations) = [] \<or>
   (\<exists>l. fetchLocation readHost fetcher l = Inr (scContent (try_locations readHost fetcher minimum failures locations)))"
  by (induction readHost fetcher minimum failures locations rule: try_locations.induct) (auto split: sum.splits)

lemma example_content: "fetchLocation example_files None l = Inr c \<Longrightarrow> c = ''int main() { }''"
  by (auto simp: fetchLocation_def fetchHostSourceLocation_def fetchTargetSourceLocation_def example_files_def
      split: if_splits sum.splits option.splits)

lemma example_count: "sourceContentLineCount [] \<le> 1" "sourceContentLineCount ''int main() { }'' \<le> 1"
  by (simp_all add: sourceContentLineCount_def CountByte_def HasSuffix_byte newline_def)

lemma example_good: "good_rows example_rows 10"
  by (simp add: good_rows_def example_rows_def ordinary_lines_def room_def)

lemma example_selected: "selectSourceWindowSampleLines example_rows 10 = (example_rows, example_rows)"
proof -
  have "percent_of 99 10 \<le> float64 m \<longleftrightarrow> 99 * 10 \<le> 100 * m" if "m < 2 ^ 53" for m
    using that by (intro percent_of_le) auto
  then have "percent_of 99 10 \<le> float64 0 \<longleftrightarrow> False" "percent_of 99 10 \<le> float64 7 \<longleftrightarrow> False" by simp_all
  then show ?thesis
    by (simp add: selectSourceWindowSampleLines_def example_rows_def sourceWindowsCoverageThresholdPercent_def
        addSourceSampleLinesInRange_def sourceSampleLinesByFileID_def sourceLineRangeForSampleLine_def
        sourceWindowsContextLines_def)
qed

lemma example_short: "short_files example_fetch"
  unfolding short_files_def
proof
  fix sf
  have "scContent (example_fetch sf) = [] \<or> scContent (example_fetch sf) = ''int main() { }''"
    unfolding example_fetch_def fetchSourceFile_def using try_locations_content example_content by blast
  then have "sourceContentLineCount (scContent (example_fetch sf)) \<le> 1"
    by (rule disjE) (simp_all only: example_count)
  then show "length (sourceContentLines (scContent (example_fetch sf))) < 2 ^ 32"
    unfolding sourceContentLines_count by (rule le_less_trans) simp
qed

lemma example_orders: "iterates [1, 2] example_rows" "iterates [2, 1] example_rows"
  by (auto simp: iterates_def selected_ids_def example_rows_def)


lemma payload_order_irrelevant_witness:
  "buildSourceWindowsPayload [1, 2] [2, 1] (map example_fetch) example_rows 10 100000
   = buildSourceWindowsPayload [2, 1] [1, 2] (map example_fetch) example_rows 10 100000"
  by (rule payload_order_irrelevant [OF example_good example_selected example_orders example_orders(2) example_orders(1)
        example_fetch_def example_short])

text \<open>A bundle with the source windows only, of a run without samples; the limit is just enough.\<close>

definition example_config :: "source_session RecipeRunSummarizers" where
  "example_config =
     \<lparr>Unbudgeted = [],
      Budgeted = [\<lparr>bName = sourceWindowsSummaryName, bSummarize = SummarizeSourceWindows, Weight = 1\<rparr>]\<rparr>"

definition example_entry :: "string \<Rightarrow> TableEntry" where
  "example_entry name =
     \<lparr>info = NewManifestEntryInfo \<lparr>ctName = name, SchemaVersion = ''1.0.0''\<rparr> \<lparr>riIndex = 0, riID = None, riName = ''r''\<rparr> [],
      tableName = ''t_'' @ name, tableType = RegularTable\<rparr>"

definition example_session :: source_session where
  "example_session =
     \<lparr>ssEntries = [example_entry ''periodic_samples'', example_entry ''source_files''], ssQuery = (\<lambda>_. Some ([], False)),
      ssFetch = map example_fetch, ssOrder = [], ssOrder' = []\<rparr>"

definition example_summary :: RunSummary where
  "example_summary =
     \<lparr>rsName = sourceWindowsSummaryName, PromptFragment = sourceWindowsPromptFragment,
      Payload = json_sourceWindowsPayload 0 []\<rparr>"

lemma example_summary_of: "sourceWindowsSummary 0 [] = Inr example_summary"
  by (simp add: sourceWindowsSummary_def NewRunSummary_def example_summary_def)

lemma example_tables: "\<exists>ts. resolveSourceWindowsTables (ssEntries example_session) = Inr ts"
  by (simp add: resolveSourceWindowsTables_def resolveSummaryTablesByComponentType_def resolve_tables_def
      singleTableByComponentType_def example_session_def example_entry_def NewManifestEntryInfo_def)

lemma example_summarize: "SummarizeSourceWindows example_session (source_bytes 0 []) = Inr example_summary"
proof -
  obtain ts where ts: "resolveSourceWindowsTables (ssEntries example_session) = Inr ts" using example_tables by blast
  have "check_empty (sourceWindowsSummary 0) sourceWindowsSummaryName (source_bytes 0 []) = None"
    by (simp add: source_budget.check_empty_iff)
  then have "buildSourceWindowsPayload order order' fetch [] 0 (source_bytes 0 []) = Inr \<lparr>TotalSourceLineSamples = 0, Windows = []\<rparr>"
    for order order' fetch
    by (simp add: buildSourceWindowsPayload_def allSourceWindows_def selectSourceWindowSampleLines_def
        budgetSourceWindowsPayload_def)
  moreover have rows: "collectSourceSampleLineRows [] False = Inr ([], 0)" by (simp add: collectSourceSampleLineRows_def)
  moreover have query: "ssQuery example_session ts = Some ([], False)" by (simp add: example_session_def)
  ultimately show ?thesis
    using ts example_summary_of rows query by (simp add: SummarizeSourceWindows_def)
qed

lemma bundle_within_limit_witness:
  "runSummaryBundleSizeBytes [example_summary] \<le> source_bytes 0 [] \<and>
   getRunSummaryBundle ''r1'' ''success'' (Inr example_session) example_config (source_bytes 0 []) = Inr [example_summary]"
proof -
  have "0 \<le> source_bytes 0 []" by (simp add: source_bytes_def)
  have "runSummaryBundleSizeBytes [example_summary] \<le> source_bytes 0 [] \<and>
      getRunSummaryBundle ''r1'' ''success'' (Inr example_session) example_config (source_bytes 0 []) =
        (case validateRunSummaryBundle [example_summary] of None \<Rightarrow> Inr [example_summary] | Some e \<Rightarrow> Inl e)"
  proof (rule bundle_within_limit [where unbudgeted = "[]"])
    show "\<forall>b \<in> set (Budgeted example_config). 0 < Weight b" by (simp add: example_config_def)
    show "\<forall>b \<in> set (Budgeted example_config). \<forall>l s.
        bSummarize b example_session l = Inr s \<longrightarrow> runSummarySizeBytes s \<le> l"
      by (simp add: example_config_def SummarizeSourceWindows_within_limit)
    show "run_unbudgeted example_session (Unbudgeted example_config) [] = Inr []" by (simp add: example_config_def)
    show "runSummaryBundleSizeBytes [] \<le> source_bytes 0 []"
      using \<open>0 \<le> source_bytes 0 []\<close> by (simp add: runSummaryBundleSizeBytes_def)
    show "run_budgeted example_session (remainingRunSummaryBundleBytes [] (source_bytes 0 [])) (Budgeted example_config)
        (Budgeted example_config) [] = Inr [example_summary]"
      using \<open>0 \<le> source_bytes 0 []\<close> example_summarize
      by (simp add: example_config_def remainingRunSummaryBundleBytes_def runSummaryBundleSizeBytes_def byte_limit_share)
  qed
  moreover have "validateRunSummaryBundle [example_summary] = None"
    by (simp add: validateRunSummaryBundle_def example_summary_def sourceWindowsSummaryName_def)
  ultimately show ?thesis by simp
qed

end
