(* ===== verification/Spec2Isabelle.thy ===== *)
theory Spec2Isabelle
  imports Semver Overlay Digraph TransferManager CommandState Compat RenderSession Archive StageSafety RecipeRun
    RecipeSource ToolExecution RecipeJob AgentServer AgentFiles SourceWindows
begin

text \<open>
  \<^bold>\<open>Arm Performix: a verification development\<close>

  \<^bold>\<open>The program.\<close> Arm Performix profiles programs on a target machine. A client (core/apap-cli) talks to an
  engine (core/apap-engine), which runs recipes: a recipe connects to a target, checks it, deploys an
  agent and tools, runs the tools, transfers what they write and stores it as a run. The agent
  (core/atperf-agent) starts processes, moves files and elevates privileges on behalf of the engine. A
  stored run is rendered: its components are looked up, renderers are connected to a graph and
  produce tables of a session. The development models the parts of engine and agent that decide
  something: what is stored where, what is compatible, in which order things happen, what is released
  or signalled at the end, and what an archive, a path or a token may do. All paths below are
  relative to src/core/apap-engine unless they start with atperf.

  \<^bold>\<open>Prelude.\<close> \<open>GoLib\<close> has what the code uses of Go's strings and numbers, \<open>GoPath\<close> the lexical functions of
  filepath. \<open>Transition\<close> has the locales \<open>step_system\<close> and \<open>exec_system\<close> (an invariant of a step relation, or of
  operations, holds in every reachable state), \<open>Gate\<close> the locale \<open>gate\<close> (work is counted while a gate is
  open and waited for when it is closed). They are interpreted on the updater of manifests, the
  categorization of runs, command states, transfer slots, the transfer manager, the session storage, the
  process manager, the admission of RPCs, the elevator, the holders of the target lock and the byte limit of
  source windows.

  \<^bold>\<open>Stored runs.\<close>
  \<^item> \<open>Manifest\<close>: cdf/manifest.go, component.go, entity.go, normalize.go; run/run\_builder.go and
    run\_manifest\_updater.go. Components and entities, and the updater that writes the manifest before
    it adopts a change: for any write failures the manifest on disk is that of the builder, and the updater
    refines a map from paths to pending flags.
  \<^item> \<open>Semver\<close>, \<open>Migrations\<close>, \<open>Model\<close>, \<open>Overlay\<close>, \<open>LoadContent\<close>: cdf/semver, cdf/migrations.go, model.go,
    overlay\_model.go, and LoadContent of render/session\_lifecycle.go. Versions and ranges, paths of older
    layouts, and the resolution of components: nothing outside the directory of a run is ever resolved,
    migrating a path agrees with migrating the name of its tool, and the locale \<open>model_view\<close>, interpreted on
    the model on disk, carries over to the overlay of two views.
  \<^item> \<open>RunMetadata\<close>, \<open>RunFS\<close>, \<open>RunCollection\<close>, \<open>RunUpdate\<close>, \<open>RunTags\<close>, \<open>Recovery\<close>, \<open>Archive\<close>: cdf/metadata.go, run/run.go,
    run\_result.go, update.go, categorization.go, util/json.go, recovery/recovery.go. A file system in which
    writes fail, tear and locks are held by others; deletion and import touch nothing else, a recorded
    size is the size of the run with the record in it, recovery leaves no run in progress that nobody holds.
  \<^item> \<open>Compat\<close>: atperf-compatibility/compatibility and render/compatibility.go. Which engine renders which run.

  \<^bold>\<open>Recipes.\<close>
  \<^item> \<open>Driver\<close>, \<open>Stages\<close>, \<open>StageSafety\<close>: recipe/runtime/driver.go, run.go, ready.go, validation.go and recipe/stages. The driver is
    shown to do what a trace of its stages says; over the lists of stages the code builds, the target lock
    is held while scripts run and released at the end, transfers are flushed only to a listening manager,
    and a recipe is reported ready only if it is. Locales \<open>world_frame\<close> and \<open>lock_plan\<close> are interpreted on the
    stages and on the four lists.
  \<^item> \<open>RecipeRun\<close>, \<open>RecipeJob\<close>, \<open>RecipeSource\<close>, \<open>ToolExecution\<close>: recipe/collector.go, ctx.go, source.go, notifiers.go,
    execution\_context.go, recipe/runtime/run.go, recipe\_job.go. A run is created, driven, recorded and
    released; a background run keeps its client informed until it detaches; which recipe renders runs.
  \<^item> \<open>Parameters\<close>, \<open>Deployment\<close>: parameters and deploymentsupport. Binding and typing of parameters, supported platforms
    and the tool bundles to deploy.
  \<^item> \<open>TransferSlots\<close>, \<open>TransferProgress\<close>, \<open>PathRemap\<close>, \<open>TransferManager\<close>: recipe/transfer\_slots.go, transfer\_logging.go,
    transfer\_manager.go, util/path.go. Slots are bounded and handed over in every interleaving, no
    entry stays pending when the manager has stopped listening, and a path of the target cannot leave its
    destination.
  \<^item> \<open>CommandState\<close>: cmdsync. Commands to a running recipe and the poller that closes its channels once.

  \<^bold>\<open>Rendering.\<close> \<open>Digraph\<close>, \<open>RenderManifest\<close>, \<open>DataSource\<close>, \<open>RendererSpec\<close>, \<open>SessionLifecycle\<close>, \<open>SessionStorage\<close>, \<open>RenderSession\<close>:
  render/digraph.go, manifest.go, datasource.go, inputoutputspec.go, rendererspec.go, session\_lifecycle.go,
  session\_storage.go. Renderers are initialised once and after what they depend on, cycles get errors,
  table names are unique, no session is closed while it is used, and starting a session either stores or
  closes it.

  \<^bold>\<open>Insights.\<close> \<open>Float64\<close>, \<open>Insights\<close>, \<open>SourceContent\<close>, \<open>SourceRanges\<close>, \<open>SourceWindows\<close>: insights/summary.go,
  table\_resolution.go, source\_window.go, sourcecontent, grpcserver/api\_apap\_insights.go. The summaries of a run for a
  prompt: the source windows hold 99 percent of the samples and none twice, do not depend on the iteration of
  maps, and are the longest list that fits the byte limit (locale \<open>byte_budget\<close>); the bundle then fits its limit. Shares
  are computed with binary64 floats, which \<open>Float64\<close> shows to be exact below \<open>2^46\<close> samples.

  \<^bold>\<open>The agent.\<close>
  \<^item> \<open>ProcessManager\<close>, \<open>ProcessShutdown\<close>: atperf-agent/process. A start that fails leaves no descriptor open and nothing
    counted; in every interleaving of starts, executions and shutdowns no process escapes the signals,
    and a graceful shutdown that returned is final.
  \<^item> \<open>TokenStorage\<close>: atperf-agent/privilege/tokenstorage.go and grpcserver (elevation, proxy). Tokens live at most a
    day, the collector spares those in use, one root worker at a time, and calls reach it with a valid
    token only.
  \<^item> \<open>AgentServer\<close>, \<open>AgentFiles\<close>: atperf-agent/grpcserver, filetransfer, filelock. Over admission and process manager, a
    graceful shutdown of the agent stops a quiet server; stored files are retrieved unchanged; the target
    lock has one holder.

  \<^bold>\<open>Conventions.\<close> A function that returns an error is a function into a sum, a nil dereference or a panic of the
  code is a constructor of the error or a flag of the state. Code outside the repository, the operating
  system, scripts and encoders are arguments, gathered in environment records; where a theorem needs
  something of them it says so, and its witness instantiates it. Goroutines are step relations whose
  steps are the critical sections; maps are association lists in the order of an iteration, over which
  theorems quantify.

  \<^bold>\<open>Termination.\<close> Loops are recursive functions with a measure: the searches of \<open>Digraph\<close> see a new key in every call,
  each round of \<open>RendererSpec\<close> removes a node of the graph, retrieving a file drops a chunk per round. A new
  run ID is tried three times, as in the code. Loops that run as long as the outside keeps them running
  (pollers, collectors, streams, the tether) consume a list of events, or are steps of a relation.

  \<^bold>\<open>Not modelled.\<close> The command line and MCP clients, the handlers of the engine's gRPC server and the conversion of messages
  are glue. Connections over SSH and ADB, the daemon, logging, telemetry and support bundles are I/O.
  Recipes and tools are JavaScript in a third-party interpreter. Renderer implementations build SQL for a
  third-party database, and so do the summarizers other than that of source windows. The Windows process
  manager, the group controller and the launch of the root worker
  are calls of the operating system. Generated protocol code, tests and scripts are left out.
\<close>

end
